(* ===== verification/Prelude.thy ===== *)
theory Prelude
  imports Main "HOL-Library.AList" "HOL-Library.Multiset" "HOL-Library.Char_ord"
    "HOL-Library.List_Lexorder" "HOL-Library.Product_Lexorder"
begin

text \<open>
  What every other theory of the development shares: the named collections of rules, Go's errors as
  values, Go's maps with an iteration order that the program does not control, the part of package
  \<open>strings\<close> the code uses, and \<open>sort.Slice\<close>.

  \<^item> An \<open>error\<close> of the code is its message, a string; a function returning \<open>(T, error)\<close> returns
    \<open>err + 'a\<close>.
  \<^item> A Go map with string keys is an association list whose keys are distinct.  \<open>range\<close> over a map
    visits each key once in an order the language leaves open; each function that ranges over a map
    takes that order as an argument, a function \<open>it\<close> on the list of keys, and the locale
    \<open>map_order\<close> states the only thing the language promises of it.
  \<^item> \<open>sort.Slice\<close> is not stable and its result is only determined for a strict weak order; it is an
    argument \<open>srt\<close> of the functions that sort, and the locale \<open>go_sort\<close> states its contract.  The
    insertion sort that Go runs on short slices is an interpretation of it.
\<close>

named_theorems go_simps "facts on Go maps, strings and slices used as rewrite rules"
named_theorems wf_intros "well-formedness of the maps of the model is kept"

section \<open>Errors\<close>

type_synonym err = string
type_synonym 'a res = "err + 'a"

abbreviation ok :: "'a res \<Rightarrow> bool" where
  "ok r \<equiv> \<not> isl r"

text \<open>A function that may panic.\<close>

datatype 'a panics = Panics string | Returns 'a

section \<open>Go maps with string keys\<close>

type_synonym 'v gomap = "(string \<times> 'v) list"

abbreviation gm_get :: "'v gomap \<Rightarrow> string \<Rightarrow> 'v option" where
  "gm_get m k \<equiv> map_of m k"

abbreviation gm_set :: "string \<Rightarrow> 'v \<Rightarrow> 'v gomap \<Rightarrow> 'v gomap" where
  "gm_set k v m \<equiv> AList.update k v m"

abbreviation gm_del :: "string \<Rightarrow> 'v gomap \<Rightarrow> 'v gomap" where
  "gm_del k m \<equiv> AList.delete k m"

text \<open>A map that may be nil, read.\<close>

definition nil_map :: "'v gomap option \<Rightarrow> 'v gomap" where
  "nil_map m = (case m of None \<Rightarrow> [] | Some m' \<Rightarrow> m')"

definition gm_keys :: "'v gomap \<Rightarrow> string list" where
  "gm_keys m = map fst m"

definition gm_has :: "'v gomap \<Rightarrow> string \<Rightarrow> bool" where
  "gm_has m k = (gm_get m k \<noteq> None)"

definition gm_wf :: "'v gomap \<Rightarrow> bool" where
  "gm_wf m = distinct (map fst m)"

text \<open>\<open>for k, v := range m\<close>, with the order \<open>it\<close> of the keys.\<close>

fun gm_entries :: "'v gomap \<Rightarrow> string list \<Rightarrow> (string \<times> 'v) list" where
  "gm_entries m [] = []"
| "gm_entries m (k # ks) =
     (case gm_get m k of None \<Rightarrow> gm_entries m ks | Some v \<Rightarrow> (k, v) # gm_entries m ks)"

definition gm_range :: "(string list \<Rightarrow> string list) \<Rightarrow> 'v gomap \<Rightarrow> (string \<times> 'v) list" where
  "gm_range it m = gm_entries m (it (gm_keys m))"

text \<open>\<open>m[k] = append(m[k], v)\<close>: the code writes it with an explicit test of presence.\<close>

definition gm_append :: "string \<Rightarrow> 'v \<Rightarrow> 'v list gomap \<Rightarrow> 'v list gomap" where
  "gm_append k v m =
     (case gm_get m k of Some vs \<Rightarrow> gm_set k (vs @ [v]) m | None \<Rightarrow> gm_set k [v] m)"

fun gm_del_all :: "string list \<Rightarrow> 'v gomap \<Rightarrow> 'v gomap" where
  "gm_del_all [] m = m"
| "gm_del_all (k # ks) m = gm_del_all ks (gm_del k m)"

lemma gm_get_set [simp, go_simps]:
  "gm_get (gm_set k v m) k' = (if k' = k then Some v else gm_get m k')"
  by (simp add: update_conv)

lemma gm_get_del [simp, go_simps]:
  "gm_get (gm_del k m) k' = (if k' = k then None else gm_get m k')"
  by (simp add: delete_conv)

lemma gm_has_iff [go_simps]: "gm_has m k \<longleftrightarrow> k \<in> fst ` set m"
  by (simp add: gm_has_def map_of_eq_None_iff)

lemma gm_has_set [simp, go_simps]: "gm_has (gm_set k v m) k' \<longleftrightarrow> k' = k \<or> gm_has m k'"
  by (simp add: gm_has_def)

lemma gm_has_del [simp, go_simps]: "gm_has (gm_del k m) k' \<longleftrightarrow> k' \<noteq> k \<and> gm_has m k'"
  by (simp add: gm_has_def)

lemma gm_has_Nil [simp, go_simps]: "\<not> gm_has [] k"
  by (simp add: gm_has_def)

lemma gm_wf_Nil [simp, wf_intros]: "gm_wf []"
  by (simp add: gm_wf_def)

lemma gm_wf_set [simp, wf_intros]: "gm_wf m \<Longrightarrow> gm_wf (gm_set k v m)"
  by (simp add: gm_wf_def distinct_update)

lemma gm_wf_del [simp, wf_intros]: "gm_wf m \<Longrightarrow> gm_wf (gm_del k m)"
  by (simp add: gm_wf_def distinct_delete)

lemma gm_wf_append [simp, wf_intros]: "gm_wf m \<Longrightarrow> gm_wf (gm_append k v m)"
  by (simp add: gm_append_def split: option.splits)

lemma gm_get_append [simp, go_simps]:
  "gm_get (gm_append k v m) k' =
     (if k' = k then Some ((case gm_get m k of Some vs \<Rightarrow> vs | None \<Rightarrow> []) @ [v])
      else gm_get m k')"
  by (simp add: gm_append_def split: option.splits)

lemma gm_get_del_all [simp, go_simps]:
  "gm_get (gm_del_all ks m) k = (if k \<in> set ks then None else gm_get m k)"
  by (induction ks m rule: gm_del_all.induct) auto

lemma gm_wf_del_all [simp, wf_intros]: "gm_wf m \<Longrightarrow> gm_wf (gm_del_all ks m)"
  by (induction ks m rule: gm_del_all.induct) auto

lemma set_gm_keys [simp, go_simps]: "k \<in> set (gm_keys m) \<longleftrightarrow> gm_has m k"
  by (simp add: gm_keys_def gm_has_iff)

lemma gm_get_in: "gm_wf m \<Longrightarrow> (k, v) \<in> set m \<longleftrightarrow> gm_get m k = Some v"
  by (simp add: gm_wf_def map_of_eq_Some_iff)

lemma length_gm_del: "gm_wf m \<Longrightarrow> length (gm_del k m) = (if gm_has m k then length m - 1 else length m)"
proof (induction m)
  case (Cons a m)
  obtain k' v where a: "a = (k', v)" by (cases a)
  from Cons.prems have wf: "gm_wf m" and k': "k' \<notin> fst ` set m"
    by (auto simp: gm_wf_def a)
  show ?case
  proof (cases "k' = k")
    case True
    then have "gm_del k m = m"
      using k' by (simp add: delete_id)
    then show ?thesis using True by (simp add: a gm_has_def)
  next
    case False
    then have "gm_del k (a # m) = a # gm_del k m" by (simp add: a)
    moreover have "gm_has m k \<Longrightarrow> m \<noteq> []" by auto
    ultimately show ?thesis
      using Cons.IH [OF wf] False by (auto simp: a gm_has_def)
  qed
qed simp

lemma gm_entries_iff:
  "(k, v) \<in> set (gm_entries m ks) \<longleftrightarrow> k \<in> set ks \<and> gm_get m k = Some v"
  by (induction ks) (auto split: option.splits)

lemma gm_entries_wf: "distinct ks \<Longrightarrow> distinct (gm_entries m ks)"
  by (induction ks) (auto simp: gm_entries_iff split: option.splits)

lemma gm_entries_keys: "\<forall>k\<in>set ks. gm_has m k \<Longrightarrow> map fst (gm_entries m ks) = ks"
  by (induction ks) (auto simp: gm_has_def split: option.splits)

subsection \<open>The contract of range over a map\<close>

locale map_order =
  fixes it :: "string list \<Rightarrow> string list"
  assumes it_mset: "mset (it ks) = mset ks"
begin

lemma it_set: "set (it ks) = set ks"
  by (rule mset_eq_setD) (rule it_mset)

lemma it_distinct: "distinct (it ks) = distinct ks"
  by (metis it_mset mset_eq_imp_distinct_iff)

lemma it_length: "length (it ks) = length ks"
  by (metis it_mset size_mset)

lemma range_iff: "(k, v) \<in> set (gm_range it m) \<longleftrightarrow> gm_get m k = Some v"
  by (auto simp: gm_range_def gm_entries_iff gm_has_def it_set)

lemma range_keys: "map fst (gm_range it m) = it (gm_keys m)"
  unfolding gm_range_def by (rule gm_entries_keys) (simp add: it_set)

lemma range_mset: "gm_wf m \<Longrightarrow> mset (gm_range it m) = mset m"
proof -
  assume wf: "gm_wf m"
  then have "distinct (gm_range it m)"
    unfolding gm_range_def by (intro gm_entries_wf) (simp add: it_distinct gm_wf_def gm_keys_def)
  moreover have "distinct m" using wf unfolding gm_wf_def by (simp add: distinct_map)
  moreover have "set (gm_range it m) = set m"
    using range_iff gm_get_in [OF wf] by fast
  ultimately show ?thesis by (simp add: set_eq_iff_mset_eq_distinct)
qed

end

text \<open>The identity is an order a Go program may see, and so is the reversal.\<close>

interpretation id_order: map_order "\<lambda>ks. ks"
  by unfold_locales simp

interpretation rev_order: map_order rev
  by unfold_locales simp

section \<open>Package strings\<close>

definition HasPrefix :: "string \<Rightarrow> string \<Rightarrow> bool" where
  "HasPrefix s p = (take (length p) s = p)"

definition HasSuffix :: "string \<Rightarrow> string \<Rightarrow> bool" where
  "HasSuffix s p = (length p \<le> length s \<and> drop (length s - length p) s = p)"

definition TrimPrefix :: "string \<Rightarrow> string \<Rightarrow> string" where
  "TrimPrefix s p = (if HasPrefix s p then drop (length p) s else s)"

definition ContainsAny :: "string \<Rightarrow> string \<Rightarrow> bool" where
  "ContainsAny s cs = list_ex (\<lambda>c. c \<in> set cs) s"

fun Contains :: "string \<Rightarrow> string \<Rightarrow> bool" where
  "Contains [] p = (p = [])"
| "Contains (c # s) p = (HasPrefix (c # s) p \<or> Contains s p)"

definition ReplaceChar :: "char \<Rightarrow> char \<Rightarrow> string \<Rightarrow> string" where
  "ReplaceChar a b s = map (\<lambda>c. if c = a then b else c) s"

text \<open>\<open>strings.Trim(s, cutset)\<close>: leading and trailing characters of the set are dropped.\<close>

definition Trim :: "string \<Rightarrow> string \<Rightarrow> string" where
  "Trim s cs = rev (dropWhile (\<lambda>c. c \<in> set cs) (rev (dropWhile (\<lambda>c. c \<in> set cs) s)))"

definition space_chars :: string where
  "space_chars = [CHR 0x09, CHR 0x0A, CHR 0x0B, CHR 0x0C, CHR 0x0D, CHR '' '']"

definition TrimSpace :: "string \<Rightarrow> string" where
  "TrimSpace s = Trim s space_chars"

fun SplitChar :: "char \<Rightarrow> string \<Rightarrow> string list" where
  "SplitChar d [] = [[]]"
| "SplitChar d (c # s) =
     (case SplitChar d s of
        [] \<Rightarrow> [[c]]
      | w # ws \<Rightarrow> if c = d then [] # w # ws else (c # w) # ws)"

fun Join :: "string list \<Rightarrow> string \<Rightarrow> string" where
  "Join [] d = []"
| "Join [w] d = w"
| "Join (w # ws) d = w @ d @ Join ws d"

lemma HasPrefix_iff: "HasPrefix s p \<longleftrightarrow> (\<exists>r. s = p @ r)"
  unfolding HasPrefix_def by (metis append_eq_conv_conj append_take_drop_id)

lemma HasPrefix_append [simp]: "HasPrefix (p @ r) p"
  by (simp add: HasPrefix_def)

lemma TrimPrefix_append [simp]: "TrimPrefix (p @ r) p = r"
  by (simp add: TrimPrefix_def)

lemma SplitChar_not_Nil [simp]: "SplitChar d s \<noteq> []"
  by (cases s) (auto split: list.splits)

lemma Join_SplitChar: "Join (SplitChar d s) [d] = s"
proof (induction s)
  case (Cons c s)
  then show ?case
    by (cases "SplitChar d s" rule: list.exhaust; cases "tl (SplitChar d s)") auto
qed simp

text \<open>\<open>%d\<close> of a non-negative number.\<close>

fun show_nat :: "nat \<Rightarrow> string" where
  "show_nat n =
     (if n < 10 then [char_of (48 + n)] else show_nat (n div 10) @ [char_of (48 + n mod 10)])"

declare show_nat.simps [simp del]

section \<open>sort.Slice\<close>

definition strict_weak :: "('a \<Rightarrow> 'a \<Rightarrow> bool) \<Rightarrow> 'a set \<Rightarrow> bool" where
  "strict_weak lt A \<longleftrightarrow>
     (\<forall>x\<in>A. \<not> lt x x) \<and>
     (\<forall>x\<in>A. \<forall>y\<in>A. \<forall>z\<in>A. lt x y \<longrightarrow> lt y z \<longrightarrow> lt x z) \<and>
     (\<forall>x\<in>A. \<forall>y\<in>A. \<forall>z\<in>A. lt x z \<longrightarrow> lt x y \<or> lt y z)"

locale go_sort =
  fixes srt :: "('a \<Rightarrow> 'a \<Rightarrow> bool) \<Rightarrow> 'a list \<Rightarrow> 'a list"
  assumes srt_mset: "mset (srt lt xs) = mset xs"
    and srt_sorted: "strict_weak lt (set xs) \<Longrightarrow> sorted_wrt (\<lambda>x y. \<not> lt y x) (srt lt xs)"
begin

lemma srt_set [simp]: "set (srt lt xs) = set xs"
  by (rule mset_eq_setD) (rule srt_mset)

lemma srt_length [simp]: "length (srt lt xs) = length xs"
  by (metis srt_mset size_mset)

lemma srt_distinct_map: "distinct (map f (srt lt xs)) = distinct (map f xs)"
  by (metis srt_mset mset_map mset_eq_imp_distinct_iff)

lemma srt_Nil_iff [simp]: "srt lt xs = [] \<longleftrightarrow> xs = []"
  by (metis length_0_conv srt_length)

text \<open>The head of a sorted slice is minimal.\<close>

lemma srt_hd_min:
  assumes "strict_weak lt (set xs)" "x \<in> set xs"
  shows "\<not> lt x (hd (srt lt xs))"
proof (cases "srt lt xs")
  case Nil
  then show ?thesis using assms(2) by simp
next
  case (Cons y ys)
  from srt_sorted [OF assms(1)] Cons have "\<forall>z\<in>set ys. \<not> lt z y" by simp
  moreover have "x \<in> set (y # ys)" using assms(2) Cons by (metis srt_set)
  moreover have "\<not> lt y y"
    using assms(1) Cons unfolding strict_weak_def by (metis list.set_intros(1) srt_set)
  ultimately show ?thesis using Cons by auto
qed

end

text \<open>
  The insertion sort of Go's \<open>sort\<close> package (\<open>insertionSort\<close> of \<open>zsortfunc.go\<close>, the algorithm
  \<open>sort.Slice\<close> runs on slices of at most twelve elements): each element moves left past the
  elements it is less than.
\<close>

fun insert_right :: "('a \<Rightarrow> 'a \<Rightarrow> bool) \<Rightarrow> 'a \<Rightarrow> 'a list \<Rightarrow> 'a list" where
  "insert_right lt x [] = [x]"
| "insert_right lt x (y # ys) = (if lt x y then y # insert_right lt x ys else x # y # ys)"

definition insertion_sort :: "('a \<Rightarrow> 'a \<Rightarrow> bool) \<Rightarrow> 'a list \<Rightarrow> 'a list" where
  "insertion_sort lt xs = rev (foldl (\<lambda>acc x. insert_right lt x acc) [] xs)"

lemma mset_insert_right: "mset (insert_right lt x ys) = add_mset x (mset ys)"
  by (induction lt x ys rule: insert_right.induct) auto

lemma mset_foldl_insert:
  "mset (foldl (\<lambda>acc x. insert_right lt x acc) acc xs) = mset acc + mset xs"
  by (induction xs arbitrary: acc) (auto simp: mset_insert_right)

lemma mset_insertion_sort: "mset (insertion_sort lt xs) = mset xs"
  by (simp add: insertion_sort_def mset_foldl_insert)

lemma set_insert_right [simp]: "set (insert_right lt x ys) = insert x (set ys)"
  by (metis mset_insert_right set_mset_add_mset_insert set_mset_mset)

lemma sorted_insert_right:
  assumes "strict_weak lt A" "insert x (set ys) \<subseteq> A"
    and "sorted_wrt (\<lambda>a b. \<not> lt a b) ys"
  shows "sorted_wrt (\<lambda>a b. \<not> lt a b) (insert_right lt x ys)"
  using assms(2,3)
proof (induction ys)
  case (Cons y ys)
  show ?case
  proof (cases "lt x y")
    case True
    have "\<not> lt y x"
      using assms(1) True Cons.prems(1) unfolding strict_weak_def by (meson insert_subset list.set_intros(1) subsetD)
    then show ?thesis using Cons True by auto
  next
    case False
    have "\<not> lt x z" if "z \<in> set ys" for z
    proof
      assume "lt x z"
      with assms(1) Cons.prems(1) that have "lt x y \<or> lt y z"
        unfolding strict_weak_def by (metis insert_subset list.set_intros(1,2) subsetD)
      with False Cons.prems(2) that show False by auto
    qed
    then show ?thesis using Cons.prems False by auto
  qed
qed simp

lemma sorted_foldl_insert:
  assumes "strict_weak lt A" "set acc \<union> set xs \<subseteq> A" "sorted_wrt (\<lambda>a b. \<not> lt a b) acc"
  shows "sorted_wrt (\<lambda>a b. \<not> lt a b) (foldl (\<lambda>acc x. insert_right lt x acc) acc xs)"
  using assms(2,3)
proof (induction xs arbitrary: acc)
  case (Cons x xs)
  have "sorted_wrt (\<lambda>a b. \<not> lt a b) (insert_right lt x acc)"
    using Cons.prems by (intro sorted_insert_right [OF assms(1)]) auto
  with Cons show ?case by auto
qed simp

interpretation isort: go_sort insertion_sort
proof
  fix lt :: "'a \<Rightarrow> 'a \<Rightarrow> bool" and xs :: "'a list"
  show "mset (insertion_sort lt xs) = mset xs" by (rule mset_insertion_sort)
  assume "strict_weak lt (set xs)"
  then have "sorted_wrt (\<lambda>a b. \<not> lt a b) (foldl (\<lambda>acc x. insert_right lt x acc) [] xs)"
    by (rule sorted_foldl_insert) auto
  then show "sorted_wrt (\<lambda>x y. \<not> lt y x) (insertion_sort lt xs)"
    by (simp add: insertion_sort_def sorted_wrt_rev)
qed

text \<open>Comparing by a key gives a strict weak order.\<close>

lemma strict_weak_key:
  fixes f :: "'a \<Rightarrow> 'b::linorder"
  assumes "\<And>x y. x \<in> A \<Longrightarrow> y \<in> A \<Longrightarrow> lt x y \<longleftrightarrow> f x < f y"
  shows "strict_weak lt A"
  unfolding strict_weak_def using assms by auto

section \<open>Slices\<close>

text \<open>\<open>helpers.ContainsElem\<close> and \<open>helpers.Contains\<close>.\<close>

fun ContainsElem :: "string list \<Rightarrow> string \<Rightarrow> bool" where
  "ContainsElem [] e = False"
| "ContainsElem (a # s) e = (if a = e then True else ContainsElem s e)"

lemma ContainsElem_iff [simp]: "ContainsElem xs e \<longleftrightarrow> e \<in> set xs"
  by (induction xs) auto

text \<open>\<open>tools.Ternary\<close>.\<close>

definition Ternary :: "bool \<Rightarrow> 'a \<Rightarrow> 'a \<Rightarrow> 'a" where
  "Ternary c t e = (if c then t else e)"

section \<open>Lists\<close>

lemma find_app: "find P (xs @ ys) = (case find P xs of Some x \<Rightarrow> Some x | None \<Rightarrow> find P ys)"
  by (induction xs) auto

lemma find_SomeD: "find P xs = Some x \<Longrightarrow> x \<in> set xs \<and> P x"
  by (induction xs) (auto split: if_splits)

lemma find_rev_mem: "find P (rev xs) = Some x \<Longrightarrow> x \<in> set xs \<and> P x"
  using find_SomeD by fastforce

lemma find_rev_ex: "find P (rev xs) = None \<longleftrightarrow> (\<forall>x\<in>set xs. \<not> P x)"
  by (auto simp: find_None_iff)

end
