(* ===== verification/Gentoo.thy ===== *)
theory Gentoo
  imports Prelude
begin

text \<open>
  The package atoms the solver compares: \<open>GentooPackage\<close> of the library
  \<open>pkgs-checker/pkg/gentoo/pkg.go\<close>, its comparisons and \<open>Admit\<close>, translated from the copy under
  \<open>src/vendor\<close>.  What that library gets from others is a parameter, a record \<open>lib\<close>:
  \<open>ParsePackageStr\<close> (a cascade of regular expressions), the versions of \<open>hashicorp/go-version\<close>, the
  Debian versions of \<open>go-deb-version\<close>, and md5.  A version is represented by its string:
  \<open>VersionErr\<close> is the error of \<open>NewVersion\<close>, \<open>VersionCompare\<close> is \<open>Compare\<close> of the two parsed
  versions (its \<open>Equal\<close>, \<open>LessThan\<close>, \<open>GreaterThan\<close> are tests of the result against zero).
  The locale \<open>go_version\<close> states what go-version documents of \<open>Compare\<close>: it is an order.
\<close>

datatype package_cond =
    PkgCondInvalid
  | PkgCondGreater
  | PkgCondGreaterEqual
  | PkgCondLess
  | PkgCondLessEqual
  | PkgCondEqual
  | PkgCondNot
  | PkgCondAnyRevision
  | PkgCondMatchVersion
  | PkgCondNotLess
  | PkgCondNotGreater

record gentoo_pkg =
  gpName :: string
  gpCategory :: string
  gpVersion :: string
  gpVersionSuffix :: string
  gpVersionBuild :: string
  gpSlot :: string
  gpCondition :: package_cond
  gpRepository :: string
  gpUseFlags :: "string list"
  gpLicense :: string

record lib =
  ParsePackageStr :: "string \<Rightarrow> gentoo_pkg res"
  VersionErr :: "string \<Rightarrow> err option"
  VersionCompare :: "string \<Rightarrow> string \<Rightarrow> int"
  VersionSegments :: "string \<Rightarrow> nat list"
  ConstraintCheck :: "string \<Rightarrow> string \<Rightarrow> bool res"
  DebValid :: "string \<Rightarrow> bool"
  DebString :: "string \<Rightarrow> string"
  DebLess :: "string \<Rightarrow> string \<Rightarrow> bool"
  Md5Hex :: "string \<Rightarrow> string"

text \<open>The conditions are the integers of an \<open>int\<close> type in the code and are ordered as those.\<close>

fun cond_int :: "package_cond \<Rightarrow> nat" where
  "cond_int PkgCondInvalid = 0"
| "cond_int PkgCondGreater = 1"
| "cond_int PkgCondGreaterEqual = 2"
| "cond_int PkgCondLess = 3"
| "cond_int PkgCondLessEqual = 4"
| "cond_int PkgCondEqual = 5"
| "cond_int PkgCondNot = 6"
| "cond_int PkgCondAnyRevision = 7"
| "cond_int PkgCondMatchVersion = 8"
| "cond_int PkgCondNotLess = 9"
| "cond_int PkgCondNotGreater = 10"

lemma cond_int_inject [simp]: "cond_int a = cond_int b \<longleftrightarrow> a = b"
  by (cases a; cases b) auto

instantiation package_cond :: linorder
begin

definition less_eq_package_cond :: "package_cond \<Rightarrow> package_cond \<Rightarrow> bool" where
  "less_eq_package_cond a b = (cond_int a \<le> cond_int b)"

definition less_package_cond :: "package_cond \<Rightarrow> package_cond \<Rightarrow> bool" where
  "less_package_cond a b = (cond_int a < cond_int b)"

instance
  by standard (auto simp: less_eq_package_cond_def less_package_cond_def)

end

fun cond_String :: "package_cond \<Rightarrow> string" where
  "cond_String PkgCondInvalid = ''''"
| "cond_String PkgCondGreater = ''>''"
| "cond_String PkgCondGreaterEqual = ''>=''"
| "cond_String PkgCondLess = ''<''"
| "cond_String PkgCondLessEqual = ''<=''"
| "cond_String PkgCondEqual = ''=''"
| "cond_String PkgCondAnyRevision = ''~''"
| "cond_String PkgCondMatchVersion = ''=*''"
| "cond_String PkgCondNotLess = ''!<''"
| "cond_String PkgCondNotGreater = ''!>''"
| "cond_String PkgCondNot = ''!''"

section \<open>Strings of a package\<close>

definition gp_String :: "gentoo_pkg \<Rightarrow> string" where
  "gp_String p =
     gpCategory p @ ''/'' @ gpName p @ (if gpVersion p \<noteq> [] then ''-'' else []) @
     gpVersion p @ gpVersionSuffix p"

definition gp_version_string :: "gentoo_pkg \<Rightarrow> string" where
  "gp_version_string p =
     (if gpVersionBuild p \<noteq> [] then gpVersion p @ ''+'' @ gpVersionBuild p else gpVersion p)"

definition gp_suffix_build :: "gentoo_pkg \<Rightarrow> string" where
  "gp_suffix_build p = gpVersionSuffix p @ ''+'' @ gpVersionBuild p"

text \<open>
  \<open>strconv.Atoi\<close>: an optional sign and at least one decimal digit, the value within 64 bits.
\<close>

definition is_digit :: "char \<Rightarrow> bool" where
  "is_digit c = (48 \<le> (of_char c :: nat) \<and> (of_char c :: nat) \<le> 57)"

definition digits_value :: "string \<Rightarrow> nat" where
  "digits_value s = foldl (\<lambda>n c. 10 * n + (of_char c - 48)) 0 s"

definition Atoi :: "string \<Rightarrow> int option" where
  "Atoi s =
     (let (sgn, ds) = (case s of [] \<Rightarrow> (1, [])
                       | c # cs \<Rightarrow> if c = CHR ''-'' then (-1, cs)
                                  else if c = CHR ''+'' then (1, cs) else (1, s))
      in if ds \<noteq> [] \<and> list_all is_digit ds then
           (let v = sgn * int (digits_value ds)
            in if -(2 ^ 63) \<le> v \<and> v < 2 ^ 63 then Some v else None)
         else None)"

section \<open>Comparison\<close>

text \<open>\<open>getVersions\<close>: the two version strings, once the checks and \<open>NewVersion\<close> have passed.\<close>

definition getVersions :: "lib \<Rightarrow> gentoo_pkg \<Rightarrow> gentoo_pkg \<Rightarrow> (string \<times> string) res" where
  "getVersions L p i =
     (if gpCategory p \<noteq> gpCategory i then Inl (''Wrong category for package '' @ gpName i)
      else if gpName p \<noteq> gpName i then Inl (''Wrong name for package '' @ gpName i)
      else if gpVersion p = [] then Inl ''Package without version. I can't compare versions.''
      else if gpVersion i = [] then Inl ''Package supply without version. I can't compare versions.''
      else (case VersionErr L (gp_version_string p) of
              Some e \<Rightarrow> Inl e
            | None \<Rightarrow> (case VersionErr L (gp_version_string i) of
                Some e \<Rightarrow> Inl e
              | None \<Rightarrow> Inr (gp_version_string p, gp_version_string i))))"

definition orderDifferentPkgs :: "gentoo_pkg \<Rightarrow> gentoo_pkg \<Rightarrow> nat \<Rightarrow> bool" where
  "orderDifferentPkgs p i mode =
     (if gpCategory p \<noteq> gpCategory i then
        (if mode = 0 then gpCategory p < gpCategory i else gpCategory p > gpCategory i)
      else if mode = 0 then gpName p < gpName i else gpName p > gpName i)"

definition gp_GreaterThan :: "lib \<Rightarrow> gentoo_pkg \<Rightarrow> gentoo_pkg \<Rightarrow> bool res" where
  "gp_GreaterThan L p i =
     (if gpCategory p \<noteq> gpCategory i \<or> gpName p \<noteq> gpName i then Inr (orderDifferentPkgs p i 1)
      else case getVersions L p i of
        Inl e \<Rightarrow> Inl e
      | Inr (v1, v2) \<Rightarrow>
          Inr (if VersionCompare L v1 v2 = 0 then
                 (case (Atoi (gpVersionBuild p), Atoi (gpVersionBuild i)) of
                    (Some i1, Some i2) \<Rightarrow> i1 > i2
                  | _ \<Rightarrow> gp_suffix_build p \<noteq> gp_suffix_build i \<and>
                         max (gp_suffix_build p) (gp_suffix_build i) = gp_suffix_build p)
               else VersionCompare L v1 v2 > 0))"

definition gp_LessThan :: "lib \<Rightarrow> gentoo_pkg \<Rightarrow> gentoo_pkg \<Rightarrow> bool res" where
  "gp_LessThan L p i =
     (if gpCategory p \<noteq> gpCategory i \<or> gpName p \<noteq> gpName i then Inr (orderDifferentPkgs p i 0)
      else case getVersions L p i of
        Inl e \<Rightarrow> Inl e
      | Inr (v1, v2) \<Rightarrow>
          Inr (if VersionCompare L v1 v2 = 0 then
                 (case (Atoi (gpVersionBuild p), Atoi (gpVersionBuild i)) of
                    (Some i1, Some i2) \<Rightarrow> i1 < i2
                  | _ \<Rightarrow> gp_suffix_build p \<noteq> gp_suffix_build i \<and>
                         min (gp_suffix_build p) (gp_suffix_build i) = gp_suffix_build p)
               else VersionCompare L v1 v2 < 0))"

definition gp_Equal :: "lib \<Rightarrow> gentoo_pkg \<Rightarrow> gentoo_pkg \<Rightarrow> bool res" where
  "gp_Equal L p i =
     (case getVersions L p i of
        Inl e \<Rightarrow> Inl e
      | Inr (v1, v2) \<Rightarrow>
          Inr (VersionCompare L v1 v2 = 0 \<and>
               \<not> (gpVersionSuffix p \<noteq> gpVersionSuffix i \<or> gpVersionBuild p \<noteq> gpVersionBuild i)))"

text \<open>
  \<open>next_segments\<close> is the increment of the \<open>PkgCondMatchVersion\<close> branch of \<open>Admit\<close>: the segment
  counted by the dots of the version (go-version pads the segments to three).
\<close>

definition next_segments :: "string \<Rightarrow> nat list \<Rightarrow> nat list" where
  "next_segments v segs =
     (let n = length (filter (\<lambda>c. c = CHR ''.'') v);
          k = (if n \<le> 2 then n else length segs - 1)
      in segs[k := Suc (segs ! k)])"

text \<open>The two optional versions of \<open>Admit\<close>: an empty version is not parsed.\<close>

definition opt_version :: "lib \<Rightarrow> gentoo_pkg \<Rightarrow> string option res" where
  "opt_version L p =
     (if gpVersion p = [] then Inr None
      else case VersionErr L (gp_version_string p) of
        Some e \<Rightarrow> Inl e
      | None \<Rightarrow> Inr (Some (gp_version_string p)))"

definition gp_Admit :: "lib \<Rightarrow> gentoo_pkg \<Rightarrow> gentoo_pkg \<Rightarrow> bool res" where
  "gp_Admit L p i =
     (if gpCategory p \<noteq> gpCategory i then Inl (''Wrong category for package '' @ gpName i)
      else if gpName p \<noteq> gpName i then Inl (''Wrong name for package '' @ gpName i)
      else if gpSlot p \<noteq> [] \<and> gpSlot i \<noteq> [] \<and> gpSlot p \<noteq> gpSlot i then Inr False
      else case opt_version L p of
        Inl e \<Rightarrow> Inl e
      | Inr v1 \<Rightarrow>
       (case opt_version L i of
          Inl e \<Rightarrow> Inl e
        | Inr v2 \<Rightarrow>
            if gpVersion p = [] then Inr True
            else if gpCondition p = PkgCondInvalid \<or> gpCondition p = PkgCondEqual then
              Inr (gpVersion i \<noteq> [] \<and> gpVersion i = gpVersion p \<and>
                   gpVersionSuffix p = gpVersionSuffix i \<and> gpVersionBuild p = gpVersionBuild i)
            else (case (v1, v2) of
              (Some a, Some b) \<Rightarrow>
                (case gpCondition p of
                   PkgCondAnyRevision \<Rightarrow> Inr (VersionCompare L a b = 0)
                 | PkgCondMatchVersion \<Rightarrow>
                     ConstraintCheck L
                       (''>= '' @ gpVersion p @ '', < '' @
                        Join (map show_nat (next_segments (gpVersion p) (VersionSegments L a))) ''.'') b
                 | PkgCondGreaterEqual \<Rightarrow> Inr (VersionCompare L b a \<ge> 0)
                 | PkgCondLessEqual \<Rightarrow> Inr (VersionCompare L b a \<le> 0)
                 | PkgCondGreater \<Rightarrow> Inr (VersionCompare L b a > 0)
                 | PkgCondLess \<Rightarrow> Inr (VersionCompare L b a < 0)
                 | PkgCondNot \<Rightarrow> Inr (VersionCompare L b a \<noteq> 0)
                 | _ \<Rightarrow> Inr False)
            | _ \<Rightarrow> Inr False)))"

section \<open>What go-version promises\<close>

locale go_version =
  fixes L :: lib
  assumes cmp_antisym: "VersionCompare L b a = - VersionCompare L a b"
    and cmp_trans: "VersionCompare L a b \<le> 0 \<Longrightarrow> VersionCompare L b c \<le> 0 \<Longrightarrow> VersionCompare L a c \<le> 0"
begin

lemma cmp_refl: "VersionCompare L a a = 0"
  using cmp_antisym [of a a] by simp

lemma cmp_zero_sym: "VersionCompare L a b = 0 \<longleftrightarrow> VersionCompare L b a = 0"
  using cmp_antisym [of a b] by linarith

lemma getVersions_swap:
  "getVersions L p i = Inr (a, b) \<longleftrightarrow> getVersions L i p = Inr (b, a)"
  by (auto simp: getVersions_def split: if_splits option.splits)

text \<open>
  \<open>LessThan\<close> and \<open>GreaterThan\<close> are dual, also for packages of different names, and no package is
  less than itself.
\<close>

lemma less_greater_dual:
  "gp_LessThan L p i = Inr r \<longleftrightarrow> gp_GreaterThan L i p = Inr r"
proof (cases "gpCategory p \<noteq> gpCategory i \<or> gpName p \<noteq> gpName i")
  case True
  then show ?thesis by (auto simp: gp_LessThan_def gp_GreaterThan_def orderDifferentPkgs_def)
next
  case False
  show ?thesis
  proof (cases "getVersions L p i")
    case (Inl e)
    then have "\<exists>e'. getVersions L i p = Inl e'"
      using getVersions_swap by (metis old.sum.exhaust prod.exhaust sum.distinct(1))
    with False Inl show ?thesis by (auto simp: gp_LessThan_def gp_GreaterThan_def)
  next
    case (Inr ab)
    obtain a b where ab: "getVersions L p i = Inr (a, b)" using Inr by (cases ab) auto
    then have ba: "getVersions L i p = Inr (b, a)" using getVersions_swap by blast
    show ?thesis
      using False cmp_antisym [of b a]
      by (auto simp: gp_LessThan_def gp_GreaterThan_def ab ba min_def max_def split: option.splits)
  qed
qed

lemma less_irrefl: "gp_LessThan L p p = Inr r \<Longrightarrow> \<not> r"
  by (auto simp: gp_LessThan_def getVersions_def cmp_refl split: if_splits option.splits)

lemma equal_sym: "gp_Equal L p i = Inr r \<longleftrightarrow> gp_Equal L i p = Inr r"
proof (cases "getVersions L p i")
  case (Inl e)
  then have "\<exists>e'. getVersions L i p = Inl e'"
    using getVersions_swap by (metis old.sum.exhaust prod.exhaust sum.distinct(1))
  with Inl show ?thesis by (auto simp: gp_Equal_def)
next
  case (Inr ab)
  obtain a b where ab: "getVersions L p i = Inr (a, b)" using Inr by (cases ab) auto
  then have ba: "getVersions L i p = Inr (b, a)" using getVersions_swap by blast
  show ?thesis using cmp_antisym [of a b] by (auto simp: gp_Equal_def ab ba)
qed

lemma less_not_equal:
  assumes "gp_LessThan L p i = Inr True" "gp_Equal L p i = Inr r"
  shows "\<not> r"
proof
  assume r: "r"
  obtain a b where v: "getVersions L p i = Inr (a, b)"
    using assms(2) by (cases "getVersions L p i") (auto simp: gp_Equal_def)
  then have names: "gpCategory p = gpCategory i" "gpName p = gpName i"
    by (simp_all add: getVersions_def split: if_split_asm)
  from assms(2) r v have eq: "VersionCompare L a b = 0" "gpVersionSuffix p = gpVersionSuffix i"
      "gpVersionBuild p = gpVersionBuild i"
    by (simp_all add: gp_Equal_def)
  have "gp_LessThan L p i = Inr False"
    using names eq by (simp add: gp_LessThan_def v gp_suffix_build_def split: option.split)
  with assms(1) show False by simp
qed

end

section \<open>A concrete library\<close>

text \<open>
  An instance of \<open>lib\<close> for the atoms \<open>category/name-version\<close> of plain packages, with versions made
  of dotted numbers, an optional build after a plus and no suffix or slot: the part of the
  libraries' documented behaviour the examples use.
  \<open>NewVersion\<close> accepts dot-separated numbers and \<open>Compare\<close> compares them segment by segment, a
  missing segment counting as zero.
\<close>

definition plain_version :: "string \<Rightarrow> bool" where
  "plain_version s = list_all (\<lambda>w. w \<noteq> [] \<and> list_all is_digit w) (SplitChar CHR ''.'' s)"

definition version_core :: "string \<Rightarrow> string" where
  "version_core s = hd (SplitChar CHR ''+'' s)"

definition version_segments :: "string \<Rightarrow> nat list" where
  "version_segments s = map digits_value (SplitChar CHR ''.'' (version_core s))"

fun compare_segments :: "nat list \<Rightarrow> nat list \<Rightarrow> int" where
  "compare_segments [] [] = 0"
| "compare_segments (x # xs) [] = (if x = 0 then compare_segments xs [] else 1)"
| "compare_segments [] (y # ys) = (if y = 0 then compare_segments [] ys else - 1)"
| "compare_segments (x # xs) (y # ys) =
     (if x < y then - 1 else if y < x then 1 else compare_segments xs ys)"

fun last_split :: "char \<Rightarrow> string \<Rightarrow> (string \<times> string) option" where
  "last_split d [] = None"
| "last_split d (c # s) =
     (case last_split d s of
        Some (a, b) \<Rightarrow> Some (c # a, b)
      | None \<Rightarrow> if c = d then Some ([], s) else None)"

definition plain_parse :: "string \<Rightarrow> gentoo_pkg res" where
  "plain_parse s =
     (case SplitChar CHR ''/'' s of
        [c, rest] \<Rightarrow>
          (let (body, build) = (case last_split CHR ''+'' rest of None \<Rightarrow> (rest, []) | Some x \<Rightarrow> x);
               (n, v) = (case last_split CHR ''-'' body of None \<Rightarrow> (body, []) | Some x \<Rightarrow> x)
           in Inr \<lparr>gpName = n, gpCategory = c, gpVersion = v, gpVersionSuffix = [],
                   gpVersionBuild = build, gpSlot = ''0'',
                   gpCondition = (if v = [] then PkgCondInvalid else PkgCondEqual),
                   gpRepository = [], gpUseFlags = [], gpLicense = []\<rparr>)
      | _ \<Rightarrow> Inl (''Invalid package string '' @ s))"

definition plain_lib :: lib where
  "plain_lib =
     \<lparr>ParsePackageStr = plain_parse,
      VersionErr = (\<lambda>s. if plain_version (version_core s) then None
                        else Some (''Malformed version: '' @ s)),
      VersionCompare = (\<lambda>a b. compare_segments (version_segments a) (version_segments b)),
      VersionSegments = version_segments,
      ConstraintCheck = (\<lambda>c v. Inl ''Malformed constraint''),
      DebValid = plain_version,
      DebString = (\<lambda>s. s),
      DebLess = (\<lambda>a b. compare_segments (version_segments a) (version_segments b) < 0),
      Md5Hex = (\<lambda>s. s)\<rparr>"

lemma compare_segments_antisym: "compare_segments ys xs = - compare_segments xs ys"
  by (induction xs ys rule: compare_segments.induct) auto

lemma compare_segments_trans:
  "compare_segments xs ys \<le> 0 \<Longrightarrow> compare_segments ys zs \<le> 0 \<Longrightarrow> compare_segments xs zs \<le> 0"
proof (induction xs ys arbitrary: zs rule: compare_segments.induct)
  case 1
  then show ?case by simp
next
  case (2 x xs)
  then have x: "x = 0" and le: "compare_segments xs [] \<le> 0" by (auto split: if_splits)
  show ?case
  proof (cases zs)
    case Nil
    then show ?thesis using 2 by simp
  next
    case (Cons z zs')
    have "z = 0 \<Longrightarrow> compare_segments [] zs' \<le> 0" using 2(3) Cons by simp
    then show ?thesis using 2(1) [OF x le] Cons x by auto
  qed
next
  case (3 y ys)
  show ?case
  proof (cases zs)
    case Nil
    have "compare_segments [] zs \<le> 0" using Nil by simp
    then show ?thesis .
  next
    case (Cons z zs')
    then show ?thesis using 3 by (auto split: if_splits)
  qed
next
  case (4 x xs y ys)
  have IH: "x = y \<Longrightarrow> compare_segments xs ys \<le> 0 \<Longrightarrow> compare_segments ys zs' \<le> 0 \<Longrightarrow>
      compare_segments xs zs' \<le> 0" for zs'
    using 4(1) [of zs'] by simp
  have xy: "x < y \<or> x = y \<and> compare_segments xs ys \<le> 0"
    using 4(2) by (simp split: if_split_asm)
  show ?case
  proof (cases zs)
    case Nil
    then have "y = 0" "compare_segments ys [] \<le> 0"
      using 4(3) by (simp_all split: if_split_asm)
    then show ?thesis using xy IH [of "[]"] Nil by simp
  next
    case (Cons z zs')
    then have "y < z \<or> y = z \<and> compare_segments ys zs' \<le> 0"
      using 4(3) by (simp split: if_split_asm)
    then show ?thesis using xy IH [of zs'] Cons by (elim disjE conjE) simp_all
  qed
qed

interpretation plain: go_version plain_lib
proof
  fix a b c
  show "VersionCompare plain_lib b a = - VersionCompare plain_lib a b"
    by (simp add: plain_lib_def compare_segments_antisym [of "version_segments b"])
  assume "VersionCompare plain_lib a b \<le> 0" "VersionCompare plain_lib b c \<le> 0"
  then show "VersionCompare plain_lib a c \<le> 0"
    by (auto simp: plain_lib_def intro: compare_segments_trans)
qed

end
