(* ===== verification/Versioner.thy ===== *)
theory Versioner
  imports Gentoo
begin

text \<open>
  \<open>pkg/versioner/versioner.go\<close>: the selectors \<open>>=1.0\<close>, \<open><2\<close>, \<open>!1.1\<close> of a package version, the
  validation of a version against a selector, and the sort of a list of versions.  The versions of
  \<open>go-version\<close> and \<open>go-deb-version\<close> are those of the record \<open>lib\<close>; a Debian version is represented
  by its \<open>String()\<close>, and \<open>DebString v\<close> is the string of the value \<open>NewVersion(v)\<close> returns.
\<close>

section \<open>Selectors\<close>

definition selectorGreaterThen :: nat where "selectorGreaterThen = 0"
definition selectorLessThen :: nat where "selectorLessThen = 1"
definition selectorGreaterOrEqualThen :: nat where "selectorGreaterOrEqualThen = 2"
definition selectorLessOrEqualThen :: nat where "selectorLessOrEqualThen = 3"
definition selectorNotEqual :: nat where "selectorNotEqual = 4"

lemmas selector_consts = selectorGreaterThen_def selectorLessThen_def selectorGreaterOrEqualThen_def
  selectorLessOrEqualThen_def selectorNotEqual_def

record packageSelector =
  psCondition :: nat
  psVersion :: string

definition selectors :: "nat gomap" where
  "selectors =
     [(''>='', selectorGreaterOrEqualThen), (''>'', selectorGreaterThen),
      (''<='', selectorLessOrEqualThen), (''<'', selectorLessThen), (''!'', selectorNotEqual)]"

definition readPackageSelector ::
    "(string list \<Rightarrow> string list) \<Rightarrow> ((string \<Rightarrow> string \<Rightarrow> bool) \<Rightarrow> string list \<Rightarrow> string list) \<Rightarrow>
     string \<Rightarrow> packageSelector" where
  "readPackageSelector it srt selector =
     (let k = srt (\<lambda>a b. length a > length b) (map fst (gm_range it selectors))
      in case find (HasPrefix selector) k of
           Some p \<Rightarrow> \<lparr>psCondition = the (gm_get selectors p), psVersion = TrimPrefix selector p\<rparr>
         | None \<Rightarrow> \<lparr>psCondition = 0, psVersion = ''''\<rparr>)"

definition semverCheck :: "lib \<Rightarrow> string \<Rightarrow> string \<Rightarrow> bool res" where
  "semverCheck L vv selector =
     (case ConstraintCheck L selector vv of
        Inl e \<Rightarrow> Inl e
      | Inr b \<Rightarrow> (case VersionErr L vv of Some e \<Rightarrow> Inl e | None \<Rightarrow> Inr b))"

definition Sanitize :: "string \<Rightarrow> string" where
  "Sanitize s = TrimSpace (ReplaceChar CHR ''_'' CHR ''-'' s)"

definition Validate :: "lib \<Rightarrow> string \<Rightarrow> err option" where
  "Validate L v = (if \<not> DebValid L v then Some ''invalid version'' else None)"

text \<open>The boolean of \<open>f, _ := semverCheck(..)\<close>: false with the error.\<close>

definition semver_bool :: "bool res \<Rightarrow> bool" where
  "semver_bool r = (case r of Inl _ \<Rightarrow> False | Inr b \<Rightarrow> b)"

definition ValidateSelector ::
    "lib \<Rightarrow> (string list \<Rightarrow> string list) \<Rightarrow>
     ((string \<Rightarrow> string \<Rightarrow> bool) \<Rightarrow> string list \<Rightarrow> string list) \<Rightarrow> string \<Rightarrow> string \<Rightarrow> bool" where
  "ValidateSelector L it srt vv0 selector0 =
     (if vv0 = '''' then True else
      let vv = Sanitize vv0; selector = Sanitize selector0;
          sel = readPackageSelector it srt selector
      in if VersionErr L (psVersion sel) \<noteq> None then semver_bool (semverCheck L vv selector)
         else if VersionErr L vv \<noteq> None then semver_bool (semverCheck L vv selector)
         else let c = VersionCompare L vv (psVersion sel) in
           if psCondition sel = selectorGreaterOrEqualThen then c > 0 \<or> c = 0
           else if psCondition sel = selectorLessOrEqualThen then c < 0 \<or> c = 0
           else if psCondition sel = selectorLessThen then c < 0
           else if psCondition sel = selectorGreaterThen then c > 0
           else if psCondition sel = selectorNotEqual then \<not> c = 0
           else False)"

text \<open>
  \<open>Sort\<close>: the map from the sanitized version to the one given, the Debian versions sorted, and the
  map read back at each of their strings (a missing key reads as the empty string).
\<close>

fun sort_map :: "string list \<Rightarrow> string gomap \<Rightarrow> string gomap" where
  "sort_map [] m = m"
| "sort_map (v # vs) m = sort_map vs (gm_set (Sanitize v) v m)"

definition Sort ::
    "lib \<Rightarrow> ((string \<Rightarrow> string \<Rightarrow> bool) \<Rightarrow> string list \<Rightarrow> string list) \<Rightarrow> string list \<Rightarrow> string list" where
  "Sort L srt toSort =
     (if toSort = [] then toSort
      else let versionsMap = sort_map toSort [];
               vs = map (\<lambda>v. DebString L (Sanitize v)) toSort
           in map (\<lambda>v. case gm_get versionsMap v of Some s \<Rightarrow> s | None \<Rightarrow> '''') (srt (DebLess L) vs))"

section \<open>Reading a selector\<close>

text \<open>The reference: the longest operator that starts the string.\<close>

definition selector_spec :: "string \<Rightarrow> packageSelector" where
  "selector_spec s =
     (if HasPrefix s ''>='' then \<lparr>psCondition = selectorGreaterOrEqualThen, psVersion = drop 2 s\<rparr>
      else if HasPrefix s ''<='' then \<lparr>psCondition = selectorLessOrEqualThen, psVersion = drop 2 s\<rparr>
      else if HasPrefix s ''>'' then \<lparr>psCondition = selectorGreaterThen, psVersion = drop 1 s\<rparr>
      else if HasPrefix s ''<'' then \<lparr>psCondition = selectorLessThen, psVersion = drop 1 s\<rparr>
      else if HasPrefix s ''!'' then \<lparr>psCondition = selectorNotEqual, psVersion = drop 1 s\<rparr>
      else \<lparr>psCondition = 0, psVersion = []\<rparr>)"

lemma prefix_length_unique: "HasPrefix s p \<Longrightarrow> HasPrefix s q \<Longrightarrow> length p = length q \<Longrightarrow> p = q"
  by (simp add: HasPrefix_def)

lemma find_longest_prefix:
  assumes "sorted_wrt (\<lambda>x y. \<not> length x < length y) ks"
    and "p \<in> set ks" "HasPrefix s p" "\<And>q. q \<in> set ks \<Longrightarrow> HasPrefix s q \<Longrightarrow> length q \<le> length p"
  shows "find (HasPrefix s) ks = Some p"
  using assms
proof (induction ks)
  case (Cons k ks)
  show ?case
  proof (cases "HasPrefix s k")
    case True
    have "length k = length p"
      using Cons.prems(1,2) Cons.prems(4) [of k] True by auto
    then show ?thesis
      using True Cons.prems(3) prefix_length_unique by auto
  next
    case False
    then have "p \<in> set ks" using Cons.prems(2,3) by auto
    then show ?thesis using False Cons by simp
  qed
qed simp

lemma strict_weak_longer: "strict_weak (\<lambda>a b. length b < length a) A"
  by (auto simp: strict_weak_def)

lemma selector_keys:
  assumes "map_order it" "go_sort srt"
  defines "ks \<equiv> srt (\<lambda>a b. length a > length b) (map fst (gm_range it selectors))"
  shows "set ks = {''>='', ''>'', ''<='', ''<'', ''!''}"
    and "sorted_wrt (\<lambda>x y. \<not> length x < length y) ks"
proof -
  have keys: "map fst (gm_range it selectors) = it (gm_keys selectors)"
    by (rule map_order.range_keys [OF assms(1)])
  show "set ks = {''>='', ''>'', ''<='', ''<'', ''!''}"
    unfolding ks_def go_sort.srt_set [OF assms(2)] keys map_order.it_set [OF assms(1)]
    by (simp add: gm_keys_def selectors_def)
  show "sorted_wrt (\<lambda>x y. \<not> length x < length y) ks"
    unfolding ks_def by (rule go_sort.srt_sorted [OF assms(2) strict_weak_longer])
qed

lemma find_selector:
  assumes "map_order it" "go_sort srt"
  shows "find (HasPrefix s) (srt (\<lambda>a b. length a > length b) (map fst (gm_range it selectors))) =
      (if HasPrefix s ''>='' then Some ''>='' else if HasPrefix s ''<='' then Some ''<=''
       else if HasPrefix s ''>'' then Some ''>'' else if HasPrefix s ''<'' then Some ''<''
       else if HasPrefix s ''!'' then Some ''!'' else None)"
    (is "find _ ?ks = _")
proof -
  note set = selector_keys(1) [OF assms] and srt = selector_keys(2) [OF assms]
  have hd: "HasPrefix s (c # p) \<Longrightarrow> HasPrefix s (d # q) \<Longrightarrow> c = d" for c d p q
    by (auto simp: HasPrefix_iff)
  have F: "find (HasPrefix s) ?ks = Some p"
    if "p \<in> {''>='', ''>'', ''<='', ''<'', ''!''}" "HasPrefix s p"
      "\<And>q. q \<in> {''>='', ''>'', ''<='', ''<'', ''!''} \<Longrightarrow> HasPrefix s q \<Longrightarrow> length q \<le> length p" for p
    by (rule find_longest_prefix [OF srt]) (use that in \<open>simp_all only: set\<close>)
  consider "HasPrefix s ''>=''" | "HasPrefix s ''<=''" "\<not> HasPrefix s ''>=''"
    | "HasPrefix s ''>''" "\<not> HasPrefix s ''>=''" "\<not> HasPrefix s ''<=''"
    | "HasPrefix s ''<''" "\<not> HasPrefix s ''>=''" "\<not> HasPrefix s ''<=''" "\<not> HasPrefix s ''>''"
    | "HasPrefix s ''!''" "\<not> HasPrefix s ''>=''" "\<not> HasPrefix s ''<=''" "\<not> HasPrefix s ''>''"
      "\<not> HasPrefix s ''<''"
    | "\<forall>q\<in>{''>='', ''>'', ''<='', ''<'', ''!''}. \<not> HasPrefix s q" by blast
  then show ?thesis
  proof cases
    case 6
    then have "find (HasPrefix s) ?ks = None" by (simp only: find_None_iff set) blast
    then show ?thesis using 6 by simp
  qed (simp_all; rule F; auto dest: hd)+
qed

lemma readPackageSelector_spec:
  assumes "map_order it" "go_sort srt"
  shows "readPackageSelector it srt s = selector_spec s"
proof -
  have "the (gm_get selectors p) = (if p = ''>='' then selectorGreaterOrEqualThen
      else if p = ''<='' then selectorLessOrEqualThen else if p = ''>'' then selectorGreaterThen
      else if p = ''<'' then selectorLessThen else selectorNotEqual)"
    if "p \<in> {''>='', ''>'', ''<='', ''<'', ''!''}" for p
    using that by (auto simp: selectors_def)
  then show ?thesis
    by (simp add: readPackageSelector_def find_selector [OF assms] selector_spec_def TrimPrefix_def
        numeral_2_eq_2)
qed

text \<open>
  a selector is read as the longest of the operators \<open>>=\<close>, \<open><=\<close>, \<open>>\<close>, \<open><\<close>, \<open>!\<close> it starts with and
  the rest of the string, whatever order the range over the map of operators and \<open>sort.Slice\<close>
  (which only orders them by length) produce; with no operator the selector is the zero value.
\<close>

theorem readPackageSelector_longest:
  assumes "map_order it" "go_sort srt"
  shows "readPackageSelector it srt s = selector_spec s"
  by (rule readPackageSelector_spec [OF assms])

theorem readPackageSelector_longest_witness:
  "readPackageSelector rev insertion_sort ''>=1.2'' =
     \<lparr>psCondition = selectorGreaterOrEqualThen, psVersion = ''1.2''\<rparr>"
  using readPackageSelector_longest [OF rev_order.map_order_axioms isort.go_sort_axioms, of "''>=1.2''"]
  by (simp add: selector_spec_def HasPrefix_def)

section \<open>Sorting versions\<close>

lemma sort_map_other: "k \<notin> Sanitize ` set vs \<Longrightarrow> gm_get (sort_map vs m) k = gm_get m k"
  by (induction vs m rule: sort_map.induct) auto

lemma sort_map_get:
  assumes "inj_on Sanitize (set vs)" "v \<in> set vs"
  shows "gm_get (sort_map vs m) (Sanitize v) = Some v"
  using assms
proof (induction vs m rule: sort_map.induct)
  case (2 w vs m)
  show ?case
  proof (cases "v \<in> set vs")
    case True
    then show ?thesis using 2 by (auto simp: inj_on_def)
  next
    case False
    then have "v = w" "Sanitize v \<notin> Sanitize ` set vs" using 2(2,3) by (auto simp: inj_on_def)
    then show ?thesis by (simp add: sort_map_other)
  qed
qed simp

text \<open>
  on versions that stay distinct once sanitized and that the Debian parser keeps as they are,
  \<open>Sort\<close> returns exactly the versions it was given (as given, not as sanitized), in ascending order
  of their Debian versions.
\<close>

theorem Sort_permutes_and_sorts:
  assumes srt: "go_sort srt" and weak: "strict_weak (DebLess L) (Sanitize ` set vs)"
    and inj: "inj_on Sanitize (set vs)"
    and deb: "\<forall>v\<in>set vs. DebString L (Sanitize v) = Sanitize v"
  shows "mset (Sort L srt vs) = mset vs \<and>
    sorted_wrt (\<lambda>a b. \<not> DebLess L (Sanitize b) (Sanitize a)) (Sort L srt vs)"
proof -
  let ?g = "\<lambda>x. case gm_get (sort_map vs []) x of Some s \<Rightarrow> s | None \<Rightarrow> []"
  let ?xs = "map Sanitize vs"
  have map_eq: "map (\<lambda>v. DebString L (Sanitize v)) vs = ?xs" using deb by simp
  have Sort: "Sort L srt vs = map ?g (srt (DebLess L) ?xs)"
  proof (cases "vs = []")
    case True
    then show ?thesis by (simp add: Sort_def go_sort.srt_Nil_iff [OF srt])
  qed (simp add: Sort_def Let_def map_eq del: map_map)
  have g: "?g (Sanitize v) = v" "Sanitize (?g (Sanitize v)) = Sanitize v" if "v \<in> set vs" for v
    using sort_map_get [OF inj that] by simp_all
  have "mset (Sort L srt vs) = image_mset ?g (mset ?xs)"
    unfolding Sort by (simp add: go_sort.srt_mset [OF srt])
  also have "\<dots> = mset (map (\<lambda>v. ?g (Sanitize v)) vs)" by (simp add: multiset.map_comp comp_def)
  also have "\<dots> = mset vs" using g(1) by (simp cong: map_cong)
  finally have "mset (Sort L srt vs) = mset vs" .
  moreover have "sorted_wrt (\<lambda>a b. \<not> DebLess L b a) (srt (DebLess L) ?xs)"
    by (rule go_sort.srt_sorted [OF srt]) (use weak in simp)
  then have "sorted_wrt (\<lambda>a b. \<not> DebLess L (Sanitize b) (Sanitize a)) (Sort L srt vs)"
    unfolding Sort sorted_wrt_map
    by (rule sorted_wrt_mono_rel [rotated]) (auto simp: go_sort.srt_set [OF srt] g(2))
  ultimately show ?thesis by blast
qed

section \<open>Validating a version\<close>

lemma dropWhile_length_id: "length (dropWhile P xs) = length xs \<Longrightarrow> dropWhile P xs = xs"
  using length_dropWhile_le [of P "tl xs"] by (cases xs) (auto split: if_splits)

lemma Sanitize_fixed:
  assumes "Sanitize w = w"
  shows "ReplaceChar CHR ''_'' CHR ''-'' w = w \<and>
    dropWhile (\<lambda>c. c \<in> set space_chars) w = w \<and> dropWhile (\<lambda>c. c \<in> set space_chars) (rev w) = rev w"
proof -
  let ?P = "\<lambda>c. c \<in> set space_chars"
  let ?r = "ReplaceChar CHR ''_'' CHR ''-'' w"
  let ?d = "dropWhile ?P ?r"
  have len: "length ?r = length w" by (simp add: ReplaceChar_def)
  have eq: "rev (dropWhile ?P (rev ?d)) = w"
    using assms by (simp add: Sanitize_def TrimSpace_def Trim_def)
  then have "length (dropWhile ?P (rev ?d)) = length w" by (metis length_rev)
  moreover have "length (dropWhile ?P (rev ?d)) \<le> length (rev ?d)" "length ?d \<le> length ?r"
    by (rule length_dropWhile_le)+
  ultimately have lens: "length ?d = length ?r" "length (dropWhile ?P (rev ?d)) = length (rev ?d)"
    using len by simp_all
  have d: "?d = ?r" by (rule dropWhile_length_id [OF lens(1)])
  have d2: "dropWhile ?P (rev ?d) = rev ?d" by (rule dropWhile_length_id [OF lens(2)])
  from eq d d2 have r: "?r = w" by simp
  then show ?thesis using d d2 by simp
qed

lemma Sanitize_Cons:
  assumes "Sanitize w = w" "w \<noteq> []" "c \<notin> set space_chars" "c \<noteq> CHR ''_''"
  shows "Sanitize (c # w) = c # w"
proof -
  note f = Sanitize_fixed [OF assms(1)]
  have "dropWhile (\<lambda>c. c \<in> set space_chars) (rev w @ [c]) = rev w @ [c]"
    using f assms(2) by (cases "rev w") (auto split: if_splits simp: dropWhile_append)
  moreover have "ReplaceChar CHR ''_'' CHR ''-'' (c # w) = c # w"
    using f assms(4) by (simp add: ReplaceChar_def)
  ultimately show ?thesis using assms(3) by (simp add: Sanitize_def TrimSpace_def Trim_def)
qed

lemma Sanitize_op:
  assumes "Sanitize w = w" "w \<noteq> []"
  shows "Sanitize (''>='' @ w) = ''>='' @ w" "Sanitize (''<='' @ w) = ''<='' @ w"
    "Sanitize (''>'' @ w) = ''>'' @ w" "Sanitize (''<'' @ w) = ''<'' @ w" "Sanitize (''!'' @ w) = ''!'' @ w"
proof -
  have eq: "Sanitize (CHR ''='' # w) = CHR ''='' # w"
    by (rule Sanitize_Cons [OF assms]) (auto simp: space_chars_def)
  show "Sanitize (''>='' @ w) = ''>='' @ w" "Sanitize (''<='' @ w) = ''<='' @ w"
    using eq by (auto intro!: Sanitize_Cons simp: space_chars_def)
  show "Sanitize (''>'' @ w) = ''>'' @ w" "Sanitize (''<'' @ w) = ''<'' @ w" "Sanitize (''!'' @ w) = ''!'' @ w"
    using assms by (auto intro!: Sanitize_Cons simp: space_chars_def)
qed

lemma selector_spec_op:
  "hd w \<noteq> CHR ''='' \<Longrightarrow> w \<noteq> [] \<Longrightarrow>
   selector_spec (''>='' @ w) = \<lparr>psCondition = selectorGreaterOrEqualThen, psVersion = w\<rparr> \<and>
   selector_spec (''<='' @ w) = \<lparr>psCondition = selectorLessOrEqualThen, psVersion = w\<rparr> \<and>
   selector_spec (''>'' @ w) = \<lparr>psCondition = selectorGreaterThen, psVersion = w\<rparr> \<and>
   selector_spec (''<'' @ w) = \<lparr>psCondition = selectorLessThen, psVersion = w\<rparr> \<and>
   selector_spec (''!'' @ w) = \<lparr>psCondition = selectorNotEqual, psVersion = w\<rparr>"
  by (cases w) (auto simp: selector_spec_def HasPrefix_def)

text \<open>
  for versions the version library accepts, the selectors agree with the order of the
  versions: \<open>>=w\<close> admits exactly what \<open><w\<close> does not, \<open>>w\<close> exactly what \<open><=w\<close> does not, and \<open>!w\<close>
  exactly what one of \<open>>w\<close> and \<open><w\<close> admits; \<open>>=w\<close> compares the versions.
\<close>

theorem ValidateSelector_order:
  assumes "map_order it" "go_sort srt"
    and w: "Sanitize w = w" "w \<noteq> []" "hd w \<noteq> CHR ''=''" "VersionErr L w = None"
    and v: "v \<noteq> []" "VersionErr L (Sanitize v) = None"
  shows "(ValidateSelector L it srt v (''>='' @ w) \<longleftrightarrow> VersionCompare L (Sanitize v) w \<ge> 0) \<and>
    (ValidateSelector L it srt v (''>='' @ w) \<longleftrightarrow> \<not> ValidateSelector L it srt v (''<'' @ w)) \<and>
    (ValidateSelector L it srt v (''>'' @ w) \<longleftrightarrow> \<not> ValidateSelector L it srt v (''<='' @ w)) \<and>
    (ValidateSelector L it srt v (''!'' @ w) \<longleftrightarrow>
       ValidateSelector L it srt v (''>'' @ w) \<or> ValidateSelector L it srt v (''<'' @ w))"
proof -
  note read = readPackageSelector_spec [OF assms(1,2)]
  note simps = ValidateSelector_def Let_def read Sanitize_op [OF w(1,2), simplified]
    selector_spec_op [OF w(3,2), simplified] selector_consts w(4) v
  have "ValidateSelector L it srt v (''>='' @ w) \<longleftrightarrow> VersionCompare L (Sanitize v) w \<ge> 0"
    "ValidateSelector L it srt v (''<'' @ w) \<longleftrightarrow> VersionCompare L (Sanitize v) w < 0"
    "ValidateSelector L it srt v (''>'' @ w) \<longleftrightarrow> VersionCompare L (Sanitize v) w > 0"
    "ValidateSelector L it srt v (''<='' @ w) \<longleftrightarrow> VersionCompare L (Sanitize v) w \<le> 0"
    "ValidateSelector L it srt v (''!'' @ w) \<longleftrightarrow> VersionCompare L (Sanitize v) w \<noteq> 0"
    by (simp_all add: simps) linarith+
  then show ?thesis by linarith
qed

theorem ValidateSelector_order_witness:
  "ValidateSelector plain_lib (\<lambda>ks. ks) insertion_sort ''1.10'' (''>='' @ ''1.9'')"
proof -
  have "Sanitize ''1.9'' = ''1.9''" "Sanitize ''1.10'' = ''1.10''" by code_simp+
  moreover have "VersionErr plain_lib ''1.9'' = None" "VersionErr plain_lib ''1.10'' = None"
    by code_simp+
  moreover have "VersionCompare plain_lib ''1.10'' ''1.9'' \<ge> 0" by code_simp
  ultimately show ?thesis
    using ValidateSelector_order [OF id_order.map_order_axioms isort.go_sort_axioms,
        of "''1.9''" plain_lib "''1.10''"] by simp
qed

theorem Sort_permutes_and_sorts_witness:
  "mset (Sort plain_lib insertion_sort [''1.10'', ''1.9'']) = mset [''1.10'', ''1.9'']"
proof -
  have s: "Sanitize ''1.9'' = ''1.9''" "Sanitize ''1.10'' = ''1.10''" by code_simp+
  have "DebLess plain_lib ''1.9'' ''1.10''" "\<not> DebLess plain_lib ''1.10'' ''1.9''"
    "\<not> DebLess plain_lib ''1.9'' ''1.9''" "\<not> DebLess plain_lib ''1.10'' ''1.10''" by code_simp+
  then have "strict_weak (DebLess plain_lib) (Sanitize ` set [''1.10'', ''1.9''])"
    by (simp add: s strict_weak_def)
  moreover have "inj_on Sanitize (set [''1.10'', ''1.9''])" by (simp add: s)
  moreover have "\<forall>v\<in>set [''1.10'', ''1.9'']. DebString plain_lib (Sanitize v) = Sanitize v"
    by (simp add: plain_lib_def)
  ultimately show ?thesis
    using Sort_permutes_and_sorts [OF isort.go_sort_axioms] by blast
qed

end
