(* ===== verification/Package.thy ===== *)
theory Package
  imports Versioner
begin

text \<open>
  \<open>pkg/package/package.go\<close> and \<open>package_thin.go\<close>: the package, its requirements, conflicts and
  provides (packages again), the thin package the solver sorts, and their operations.  The scalar
  fields of \<open>DefaultPackage\<close> are the record \<open>pkg_info\<close>; a method that changes the receiver returns
  the new one.  A nil map or slice reads as the empty one; only the annotations, whose being nil the
  code tests, keep the difference.
\<close>

section \<open>Data\<close>

datatype ival = IStr string | IMap "(string \<times> ival) list" | IList "ival list" | IOther

record pkg_info =
  ID :: int
  Name :: string
  Version :: string
  Category :: string
  UseFlags :: "string list"
  State :: string
  Hidden :: bool
  Annotations :: "ival gomap option"
  Path :: string
  Description :: string
  Uri :: "string list"
  License :: string
  BuildTimestamp :: string
  Labels :: "string gomap"
  TreeDir :: string
  Repository :: string

datatype default_package =
  DefaultPackage (pkg_data: pkg_info) (PackageRequires: "default_package list")
    (PackageConflicts: "default_package list") (Provides: "default_package list")

abbreviation pName :: "default_package \<Rightarrow> string" where "pName p \<equiv> Name (pkg_data p)"
abbreviation pCategory :: "default_package \<Rightarrow> string" where "pCategory p \<equiv> Category (pkg_data p)"
abbreviation pVersion :: "default_package \<Rightarrow> string" where "pVersion p \<equiv> Version (pkg_data p)"
abbreviation pUseFlags :: "default_package \<Rightarrow> string list" where "pUseFlags p \<equiv> UseFlags (pkg_data p)"
abbreviation pLabels :: "default_package \<Rightarrow> string gomap" where "pLabels p \<equiv> Labels (pkg_data p)"
abbreviation pRepository :: "default_package \<Rightarrow> string" where
  "pRepository p \<equiv> Repository (pkg_data p)"
abbreviation pAnnotations :: "default_package \<Rightarrow> ival gomap" where
  "pAnnotations p \<equiv> nil_map (Annotations (pkg_data p))"

fun upd_info :: "(pkg_info \<Rightarrow> pkg_info) \<Rightarrow> default_package \<Rightarrow> default_package" where
  "upd_info f (DefaultPackage i r c v) = DefaultPackage (f i) r c v"

lemma upd_info_sel [simp]:
  "pkg_data (upd_info f p) = f (pkg_data p)" "PackageRequires (upd_info f p) = PackageRequires p"
  "PackageConflicts (upd_info f p) = PackageConflicts p" "Provides (upd_info f p) = Provides p"
  by (cases p; simp)+

definition empty_info :: pkg_info where
  "empty_info = \<lparr>ID = 0, Name = [], Version = [], Category = [], UseFlags = [], State = [],
     Hidden = False, Annotations = None, Path = [], Description = [], Uri = [], License = [],
     BuildTimestamp = [], Labels = [], TreeDir = [], Repository = []\<rparr>"

definition NewPackage ::
    "string \<Rightarrow> string \<Rightarrow> default_package list \<Rightarrow> default_package list \<Rightarrow> default_package" where
  "NewPackage n v reqs confl =
     DefaultPackage (empty_info\<lparr>Name := n, Version := v\<rparr>) reqs confl []"

definition NewPackageWithCat ::
    "string \<Rightarrow> string \<Rightarrow> string \<Rightarrow> default_package list \<Rightarrow> default_package list \<Rightarrow> default_package" where
  "NewPackageWithCat cat n v reqs confl =
     DefaultPackage (empty_info\<lparr>Name := n, Category := cat, Version := v\<rparr>) reqs confl []"

definition NewPackageWithCatThin :: "string \<Rightarrow> string \<Rightarrow> string \<Rightarrow> default_package" where
  "NewPackageWithCatThin cat n v =
     DefaultPackage (empty_info\<lparr>Name := n, Category := cat, Version := v\<rparr>) [] [] []"

section \<open>Names\<close>

definition HasRequires :: "default_package \<Rightarrow> bool" where
  "HasRequires d = (length (PackageRequires d) > 0)"

definition HasProvides :: "default_package \<Rightarrow> bool" where
  "HasProvides p = (length (Provides p) > 0)"

definition GetFingerPrint :: "default_package \<Rightarrow> string" where
  "GetFingerPrint p = pName p @ ''-'' @ pCategory p @ ''-'' @ pVersion p"

definition HashFingerprint :: "lib \<Rightarrow> default_package \<Rightarrow> string \<Rightarrow> string" where
  "HashFingerprint L p salt = Md5Hex L (GetFingerPrint p @ ''-'' @ salt)"

definition packages_Hash :: "lib \<Rightarrow> default_package list \<Rightarrow> string \<Rightarrow> string" where
  "packages_Hash L d salt =
     Md5Hex L (foldl (\<lambda>fp c. fp @ HashFingerprint L c ''join'') [] d @ ''-'' @ salt)"

definition GetMetadataFilePath :: "default_package \<Rightarrow> string" where
  "GetMetadataFilePath p = GetFingerPrint p @ ''.'' @ ''metadata.yaml''"

definition HumanReadableString :: "default_package \<Rightarrow> string" where
  "HumanReadableString p = pCategory p @ ''/'' @ pName p @ ''-'' @ pVersion p"

text \<open>\<open>package_name\<close> is the body the two \<open>PackageName\<close> methods share.\<close>

definition package_name :: "string \<Rightarrow> string \<Rightarrow> string" where
  "package_name cat n =
     (if cat \<noteq> [] \<and> n \<noteq> [] then cat @ ''/'' @ n else if cat \<noteq> [] then cat else n)"

definition PackageName :: "default_package \<Rightarrow> string" where
  "PackageName p = package_name (pCategory p) (pName p)"

definition GetPackageName :: "default_package \<Rightarrow> string" where
  "GetPackageName p = pName p @ ''-'' @ pCategory p"

definition IsSelector :: "default_package \<Rightarrow> bool" where
  "IsSelector p = ContainsAny (pVersion p) ''<>=''"

section \<open>Labels, annotations, uses\<close>

text \<open>\<open>match.MapHasKey\<close> and \<open>match.MapIHasKey\<close> look for the key among those the range gives.\<close>

fun MapHasKey :: "(string \<times> 'v) list \<Rightarrow> string \<Rightarrow> bool" where
  "MapHasKey [] label = False"
| "MapHasKey ((k, v) # m) label = (if k = label then True else MapHasKey m label)"

fun MapMatchRegex :: "(string \<times> string) list \<Rightarrow> (string \<Rightarrow> bool) \<Rightarrow> bool" where
  "MapMatchRegex [] r = False"
| "MapMatchRegex ((k, v) # m) r = (if r (k @ ''='' @ v) then True else MapMatchRegex m r)"

fun MapIMatchRegex :: "(string \<times> 'v) list \<Rightarrow> (string \<Rightarrow> bool) \<Rightarrow> bool" where
  "MapIMatchRegex [] r = False"
| "MapIMatchRegex ((k, v) # m) r = (if r k then True else MapIMatchRegex m r)"

definition HasLabel :: "default_package \<Rightarrow> string \<Rightarrow> bool" where
  "HasLabel p label = MapHasKey (pLabels p) label"

definition MatchLabel :: "default_package \<Rightarrow> (string \<Rightarrow> bool) \<Rightarrow> bool" where
  "MatchLabel p r = MapMatchRegex (pLabels p) r"

definition HasAnnotation :: "default_package \<Rightarrow> string \<Rightarrow> bool" where
  "HasAnnotation p label = MapHasKey (pAnnotations p) label"

definition MatchAnnotation :: "default_package \<Rightarrow> (string \<Rightarrow> bool) \<Rightarrow> bool" where
  "MatchAnnotation p r = MapIMatchRegex (pAnnotations p) r"

definition AddLabel :: "string \<Rightarrow> string \<Rightarrow> default_package \<Rightarrow> default_package" where
  "AddLabel k v = upd_info (\<lambda>i. i\<lparr>Labels := gm_set k v (Labels i)\<rparr>)"

definition AddAnnotation :: "string \<Rightarrow> ival \<Rightarrow> default_package \<Rightarrow> default_package" where
  "AddAnnotation k v = upd_info (\<lambda>i. i\<lparr>Annotations := Some (gm_set k v (nil_map (Annotations i)))\<rparr>)"

definition GetAnnotationByKey :: "default_package \<Rightarrow> string \<Rightarrow> ival option" where
  "GetAnnotationByKey p k = (if HasAnnotation p k then gm_get (pAnnotations p) k else None)"

text \<open>The loops of \<open>AddUse\<close> and \<open>RemoveUse\<close>; the second goes down from the last index.\<close>

fun add_use :: "string \<Rightarrow> string list \<Rightarrow> string list \<Rightarrow> string list" where
  "add_use use flags [] = flags @ [use]"
| "add_use use flags (v # vs) = (if v = use then flags else add_use use flags vs)"

definition AddUse :: "string \<Rightarrow> default_package \<Rightarrow> default_package" where
  "AddUse use = upd_info (\<lambda>i. i\<lparr>UseFlags := add_use use (UseFlags i) (UseFlags i)\<rparr>)"

fun remove_use :: "string \<Rightarrow> nat \<Rightarrow> string list \<Rightarrow> string list" where
  "remove_use use 0 flags = flags"
| "remove_use use (Suc i) flags =
     remove_use use i (if flags ! i = use then take i flags @ drop (i + 1) flags else flags)"

definition RemoveUse :: "string \<Rightarrow> default_package \<Rightarrow> default_package" where
  "RemoveUse use =
     upd_info (\<lambda>i. i\<lparr>UseFlags := remove_use use (length (UseFlags i)) (UseFlags i)\<rparr>)"

section \<open>Provides and matching\<close>

fun find_provide :: "string \<Rightarrow> default_package list \<Rightarrow> default_package option" where
  "find_provide pname [] = None"
| "find_provide pname (prov # ps) =
     (if PackageName prov = pname then Some prov else find_provide pname ps)"

definition GetProvidePackage :: "default_package \<Rightarrow> string \<Rightarrow> default_package option" where
  "GetProvidePackage p pname = (if HasProvides p then find_provide pname (Provides p) else None)"

definition Matches :: "default_package \<Rightarrow> default_package \<Rightarrow> bool" where
  "Matches p m = (if GetFingerPrint p = GetFingerPrint m then True else False)"

definition AtomMatches :: "default_package \<Rightarrow> default_package \<Rightarrow> bool" where
  "AtomMatches p m = (if pName p = pName m \<and> pCategory p = pCategory m then True else False)"

definition Mark :: "default_package \<Rightarrow> default_package" where
  "Mark = upd_info (\<lambda>i. i\<lparr>Name := ''@@'' @ Name i\<rparr>)"

definition SelectorMatchVersion ::
    "lib \<Rightarrow> (string list \<Rightarrow> string list) \<Rightarrow>
     ((string \<Rightarrow> string \<Rightarrow> bool) \<Rightarrow> string list \<Rightarrow> string list) \<Rightarrow>
     default_package \<Rightarrow> string \<Rightarrow> bool res" where
  "SelectorMatchVersion L it srt p ver =
     (if \<not> IsSelector p then Inl ''Package is not a selector''
      else Inr (ValidateSelector L it srt ver (pVersion p)))"

definition VersionMatchSelector ::
    "lib \<Rightarrow> (string list \<Rightarrow> string list) \<Rightarrow>
     ((string \<Rightarrow> string \<Rightarrow> bool) \<Rightarrow> string list \<Rightarrow> string list) \<Rightarrow>
     default_package \<Rightarrow> string \<Rightarrow> bool res" where
  "VersionMatchSelector L it srt p selector = Inr (ValidateSelector L it srt (pVersion p) selector)"

section \<open>Atoms\<close>

text \<open>The condition both \<open>ToGentooPackage\<close> methods read off the version.\<close>

definition version_cond :: "string \<Rightarrow> package_cond" where
  "version_cond v =
     (if HasPrefix v ''>='' then PkgCondGreaterEqual
      else if HasPrefix v ''<='' then PkgCondLessEqual
      else if HasPrefix v ''!='' then PkgCondNot
      else if HasPrefix v ''='' then PkgCondEqual
      else if HasPrefix v ''>'' then PkgCondGreater
      else if HasPrefix v ''<'' then PkgCondLess
      else PkgCondInvalid)"

definition ToGentooPackage :: "lib \<Rightarrow> default_package \<Rightarrow> gentoo_pkg res" where
  "ToGentooPackage L p =
     (case ParsePackageStr L (PackageName p @ ''-'' @ Trim (pVersion p) ''><=!'') of
        Inl e \<Rightarrow> Inl e
      | Inr g \<Rightarrow> Inr (g\<lparr>gpCondition := version_cond (pVersion p), gpRepository := pRepository p,
                        gpLicense := License (pkg_data p), gpUseFlags := pUseFlags p\<rparr>))"

text \<open>
  \<open>Admit\<close>.  \<open>admit_provs\<close> is the inner loop over the provides and \<open>admit_list\<close> the loop over the
  requirements (\<open>stop\<close> is False: a package not admitted ends the method) or over the conflicts
  (\<open>stop\<close> is True: a package admitted matches the conflict and ends the method).  None of the two
  results stands for falling out of the loop.
\<close>

fun admit_provs ::
    "lib \<Rightarrow> bool \<Rightarrow> default_package \<Rightarrow> default_package list \<Rightarrow> bool option res" where
  "admit_provs L stop r [] = Inr None"
| "admit_provs L stop r (prov # ps) =
     (if AtomMatches r prov then
        (case ToGentooPackage L r of
           Inl e \<Rightarrow> Inl e
         | Inr greq \<Rightarrow> (case ToGentooPackage L prov of
             Inl e \<Rightarrow> Inl e
           | Inr gprov \<Rightarrow> (case gp_Admit L greq gprov of
               Inl e \<Rightarrow> Inl e
             | Inr admitted \<Rightarrow>
                 if admitted = stop then Inr (Some False) else admit_provs L stop r ps)))
      else admit_provs L stop r ps)"

fun admit_list ::
    "lib \<Rightarrow> bool \<Rightarrow> default_package \<Rightarrow> gentoo_pkg \<Rightarrow> default_package list \<Rightarrow> bool option res" where
  "admit_list L stop a ag [] = Inr None"
| "admit_list L stop a ag (r # rs) =
     (if AtomMatches r a then
        (case ToGentooPackage L r of
           Inl e \<Rightarrow> Inl e
         | Inr greq \<Rightarrow> (case gp_Admit L greq ag of
             Inl e \<Rightarrow> Inl e
           | Inr admitted \<Rightarrow>
               if admitted = stop then Inr (Some False) else admit_list L stop a ag rs))
      else if HasProvides a then
        (case admit_provs L stop r (Provides a) of
           Inl e \<Rightarrow> Inl e
         | Inr (Some b) \<Rightarrow> Inr (Some b)
         | Inr None \<Rightarrow> admit_list L stop a ag rs)
      else admit_list L stop a ag rs)"

definition Admit :: "lib \<Rightarrow> default_package \<Rightarrow> default_package \<Rightarrow> bool res" where
  "Admit L p a =
     (if length (PackageRequires p) = 0 \<and> length (PackageConflicts p) = 0 then Inr True
      else case ToGentooPackage L a of
        Inl e \<Rightarrow> Inl e
      | Inr ag \<Rightarrow>
         (case admit_list L False a ag (PackageRequires p) of
            Inl e \<Rightarrow> Inl e
          | Inr (Some b) \<Rightarrow> Inr b
          | Inr None \<Rightarrow>
             (case admit_list L True a ag (PackageConflicts p) of
                Inl e \<Rightarrow> Inl e
              | Inr (Some b) \<Rightarrow> Inr b
              | Inr None \<Rightarrow> Inr True)))"

section \<open>Lists of packages\<close>

fun best_map :: "default_package list \<Rightarrow> default_package gomap \<Rightarrow> default_package gomap" where
  "best_map [] m = m"
| "best_map (p # ps) m = best_map ps (gm_set (pVersion p) p m)"

text \<open>\<open>Best\<close> panics on the empty list, and returns nil when the sort gives a version it does not know.\<close>

definition Best ::
    "lib \<Rightarrow> ((string \<Rightarrow> string \<Rightarrow> bool) \<Rightarrow> string list \<Rightarrow> string list) \<Rightarrow>
     default_package list \<Rightarrow> default_package option panics" where
  "Best L srt ps =
     (if length ps = 0 then Panics ''Best needs a list with elements''
      else let sorted = Sort L srt (map pVersion ps)
           in Returns (gm_get (best_map ps []) (last sorted)))"

fun packages_Find :: "default_package list \<Rightarrow> string \<Rightarrow> default_package res" where
  "packages_Find [] pname = Inl ''package not found''"
| "packages_Find (p # ps) pname = (if GetPackageName p = pname then Inr p else packages_Find ps pname)"

fun unique_map :: "default_package list \<Rightarrow> default_package gomap \<Rightarrow> default_package gomap" where
  "unique_map [] m = m"
| "unique_map (p # ps) m = unique_map ps (gm_set (GetFingerPrint p) p m)"

definition Unique :: "(string list \<Rightarrow> string list) \<Rightarrow> default_package list \<Rightarrow> default_package list" where
  "Unique it ps = map snd (gm_range it (unique_map ps []))"

section \<open>What the operations do\<close>

subsection \<open>Use flags\<close>

lemma add_use_eq: "add_use use flags xs = (if use \<in> set xs then flags else flags @ [use])"
  by (induction xs) auto

lemma take_drop_remove:
  "i < length xs \<Longrightarrow> xs ! i = u \<Longrightarrow>
    filter (\<lambda>v. v \<noteq> u) (take i xs @ drop (Suc i) xs) = filter (\<lambda>v. v \<noteq> u) xs"
  by (subst (3) id_take_nth_drop [of i xs]) simp_all

lemma remove_use_filter:
  "i \<le> length flags \<Longrightarrow>
   remove_use u i flags = filter (\<lambda>v. v \<noteq> u) (take i flags) @ drop i flags"
proof (induction u i flags rule: remove_use.induct)
  case (2 u i flags)
  then have i: "i < length flags" by simp
  have split: "take (Suc i) flags = take i flags @ [flags ! i]"
    using i by (simp add: take_Suc_conv_app_nth)
  have dr: "drop i flags = flags ! i # drop (Suc i) flags"
    using i by (simp add: Cons_nth_drop_Suc)
  show ?case
  proof (cases "flags ! i = u")
    case True
    then show ?thesis using 2 i by (simp add: split)
  next
    case False
    then show ?thesis using 2 i by (simp add: split dr)
  qed
qed simp

text \<open>
  \<open>RemoveUse\<close>, which cuts the slice while it walks it backwards, removes every occurrence of the
  flag and nothing else; \<open>AddUse\<close> adds the flag once, keeps a list without duplicates so, and
  \<open>RemoveUse\<close> after it gives back the flags of a package that did not have it.
\<close>

theorem use_flags_correct:
  "pUseFlags (RemoveUse u p) = filter (\<lambda>v. v \<noteq> u) (pUseFlags p) \<and>
   set (pUseFlags (AddUse u p)) = insert u (set (pUseFlags p)) \<and>
   distinct (pUseFlags (AddUse u p)) = distinct (pUseFlags p) \<and>
   pUseFlags (RemoveUse u (AddUse u p)) = pUseFlags (RemoveUse u p)"
  by (auto simp: RemoveUse_def AddUse_def remove_use_filter add_use_eq)

subsection \<open>Admission\<close>

text \<open>
  The specification of \<open>Admit\<close>: a requirement or a conflict is tested against the package when their
  atoms match, and else against each of its provides whose atom matches.
\<close>

definition admit_targets :: "default_package \<Rightarrow> default_package \<Rightarrow> default_package list" where
  "admit_targets r a = (if AtomMatches r a then [a] else filter (AtomMatches r) (Provides a))"

definition admit_pair :: "lib \<Rightarrow> default_package \<Rightarrow> default_package \<Rightarrow> bool res" where
  "admit_pair L r t =
     (case ToGentooPackage L r of
        Inl e \<Rightarrow> Inl e
      | Inr gr \<Rightarrow> (case ToGentooPackage L t of Inl e \<Rightarrow> Inl e | Inr gt \<Rightarrow> gp_Admit L gr gt))"

fun scan_targets ::
    "lib \<Rightarrow> bool \<Rightarrow> default_package \<Rightarrow> default_package list \<Rightarrow> bool option res" where
  "scan_targets L stop r [] = Inr None"
| "scan_targets L stop r (t # ts) =
     (case admit_pair L r t of
        Inl e \<Rightarrow> Inl e
      | Inr adm \<Rightarrow> if adm = stop then Inr (Some False) else scan_targets L stop r ts)"

lemma admit_provs_scan: "admit_provs L stop r ps = scan_targets L stop r (filter (AtomMatches r) ps)"
  by (induction ps) (simp_all add: admit_pair_def split: sum.split)

lemma admit_list_scan:
  assumes "ToGentooPackage L a = Inr ag"
  shows "admit_list L stop a ag (r # rs) =
    (case scan_targets L stop r (admit_targets r a) of
       Inl e \<Rightarrow> Inl e | Inr (Some b) \<Rightarrow> Inr (Some b) | Inr None \<Rightarrow> admit_list L stop a ag rs)"
proof (cases "AtomMatches r a")
  case True
  then show ?thesis by (simp add: admit_targets_def admit_pair_def assms split: sum.split)
next
  case False
  then show ?thesis
    by (auto simp: admit_targets_def admit_provs_scan HasProvides_def split: sum.split option.split)
qed

lemma scan_None:
  "scan_targets L stop r ts = Inr None \<longleftrightarrow> (\<forall>t\<in>set ts. admit_pair L r t = Inr (\<not> stop))"
  by (induction ts) (auto split: sum.splits)

lemma scan_Some:
  "scan_targets L stop r ts = Inr (Some b) \<Longrightarrow> \<not> b \<and> (\<exists>t\<in>set ts. admit_pair L r t = Inr stop)"
  by (induction ts) (auto split: sum.splits if_splits)

lemma admit_list_None:
  assumes "ToGentooPackage L a = Inr ag"
  shows "admit_list L stop a ag rs = Inr None \<longleftrightarrow>
    (\<forall>r\<in>set rs. \<forall>t\<in>set (admit_targets r a). admit_pair L r t = Inr (\<not> stop))"
proof (induction rs)
  case (Cons r rs)
  show ?case
    unfolding admit_list_scan [OF assms]
    by (cases "scan_targets L stop r (admit_targets r a)" rule: sum.exhaust)
       (auto simp: Cons.IH scan_None [symmetric] split: option.splits)
qed simp

lemma admit_list_Some:
  assumes "ToGentooPackage L a = Inr ag" "admit_list L stop a ag rs = Inr (Some b)"
  shows "\<not> b \<and> (\<exists>r\<in>set rs. \<exists>t\<in>set (admit_targets r a). admit_pair L r t = Inr stop)"
  using assms(2)
proof (induction rs)
  case (Cons r rs)
  from Cons.prems show ?case
    unfolding admit_list_scan [OF assms(1)]
    by (auto dest: scan_Some Cons.IH split: sum.splits option.splits)
qed simp

text \<open>
  C16: \<open>Admit\<close> accepts a package exactly when there is nothing to test, or the package is a valid
  atom, every requirement admits each package or provide it applies to and no conflict does (the
  loops' early returns, and the provides being looked at only when the atoms differ, included); and
  when it refuses one, a requirement that fails or a conflict that holds is the reason.
\<close>

theorem Admit_spec:
  "(Admit L p a = Inr True \<longleftrightarrow>
      PackageRequires p = [] \<and> PackageConflicts p = [] \<or>
      ok (ToGentooPackage L a) \<and>
      (\<forall>r\<in>set (PackageRequires p). \<forall>t\<in>set (admit_targets r a). admit_pair L r t = Inr True) \<and>
      (\<forall>c\<in>set (PackageConflicts p). \<forall>t\<in>set (admit_targets c a). admit_pair L c t = Inr False)) \<and>
   (Admit L p a = Inr False \<longrightarrow>
      (\<exists>r\<in>set (PackageRequires p). \<exists>t\<in>set (admit_targets r a). admit_pair L r t = Inr False) \<or>
      (\<exists>c\<in>set (PackageConflicts p). \<exists>t\<in>set (admit_targets c a). admit_pair L c t = Inr True))"
proof (cases "ToGentooPackage L a")
  case (Inl e)
  then show ?thesis by (simp add: Admit_def)
next
  case (Inr ag)
  note N = admit_list_None [OF Inr] and S = admit_list_Some [OF Inr]
  let ?R = "admit_list L False a ag (PackageRequires p)"
  let ?C = "admit_list L True a ag (PackageConflicts p)"
  have R: "?R \<noteq> Inr (Some True)" and C: "?C \<noteq> Inr (Some True)" using S by blast+
  have "Admit L p a = Inr True \<longleftrightarrow>
      PackageRequires p = [] \<and> PackageConflicts p = [] \<or> ?R = Inr None \<and> ?C = Inr None"
    using R C by (auto simp: Admit_def Inr split: sum.splits option.splits)
  moreover have "Admit L p a = Inr False \<Longrightarrow> ?R = Inr (Some False) \<or> ?C = Inr (Some False)"
    by (auto simp: Admit_def Inr split: sum.splits option.splits if_splits)
  ultimately show ?thesis
    using S [of False "PackageRequires p" False] S [of True "PackageConflicts p" False]
    unfolding N by (auto simp: Inr)
qed

theorem Admit_spec_witness:
  "Admit plain_lib (NewPackageWithCat ''c'' ''bar'' ''1'' [NewPackageWithCatThin ''c'' ''foo'' ''>=2.0''] [])
     (NewPackageWithCatThin ''c'' ''foo'' ''1.2'') = Inr False \<and>
   admit_pair plain_lib (NewPackageWithCatThin ''c'' ''foo'' ''>=2.0'')
     (NewPackageWithCatThin ''c'' ''foo'' ''1.2'') = Inr False"
proof -
  let ?r = "NewPackageWithCatThin ''c'' ''foo'' ''>=2.0''"
  let ?a = "NewPackageWithCatThin ''c'' ''foo'' ''1.2''"
  have "Admit plain_lib (NewPackageWithCat ''c'' ''bar'' ''1'' [?r] []) ?a = Inr False" by code_simp
  moreover have "PackageRequires (NewPackageWithCat ''c'' ''bar'' ''1'' [?r] []) = [?r]"
    "PackageConflicts (NewPackageWithCat ''c'' ''bar'' ''1'' [?r] []) = []"
    "admit_targets ?r ?a = [?a]" by code_simp+
  ultimately show ?thesis
    using Admit_spec [of plain_lib "NewPackageWithCat ''c'' ''bar'' ''1'' [?r] []" ?a] by simp
qed

subsection \<open>Lists of packages\<close>

lemma best_map_get:
  "gm_get (best_map ps m) v =
     (case find (\<lambda>p. pVersion p = v) (rev ps) of Some p \<Rightarrow> Some p | None \<Rightarrow> gm_get m v)"
  by (induction ps m rule: best_map.induct)
     (auto simp: find_app split: option.splits)

lemma unique_map_get:
  "gm_get (unique_map ps m) f =
     (case find (\<lambda>p. GetFingerPrint p = f) (rev ps) of Some p \<Rightarrow> Some p | None \<Rightarrow> gm_get m f)"
  by (induction ps m rule: unique_map.induct)
     (auto simp: find_app split: option.splits)

lemma unique_map_wf [wf_intros]: "gm_wf m \<Longrightarrow> gm_wf (unique_map ps m)"
  by (induction ps m rule: unique_map.induct) auto

text \<open>
  \<open>Unique\<close> keeps exactly one package of each fingerprint, the last of the list, whatever order
  the range over the map has.
\<close>

theorem Unique_spec:
  assumes "map_order it"
  shows "distinct (map GetFingerPrint (Unique it ps)) \<and>
    set (Unique it ps) = {p. find (\<lambda>q. GetFingerPrint q = GetFingerPrint p) (rev ps) = Some p}"
proof -
  let ?m = "unique_map ps []"
  have fp: "GetFingerPrint p = f" if "(f, p) \<in> set (gm_range it ?m)" for f p
    using that by (auto simp: map_order.range_iff [OF assms] unique_map_get dest: find_rev_mem split: option.splits)
  have "map GetFingerPrint (Unique it ps) = map fst (gm_range it ?m)"
    unfolding Unique_def using fp by auto
  also have "distinct (map fst (gm_range it ?m))"
    using unique_map_wf [of "[]" ps]
    by (simp add: map_order.range_keys [OF assms] map_order.it_distinct [OF assms] gm_keys_def gm_wf_def)
  finally have "distinct (map GetFingerPrint (Unique it ps))" .
  moreover have "p \<in> set (Unique it ps) \<longleftrightarrow> find (\<lambda>q. GetFingerPrint q = GetFingerPrint p) (rev ps) = Some p" for p
  proof
    assume "p \<in> set (Unique it ps)"
    then obtain f where "(f, p) \<in> set (gm_range it ?m)" by (auto simp: Unique_def)
    then have "gm_get ?m f = Some p" and f: "f = GetFingerPrint p"
      using fp by (simp_all add: map_order.range_iff [OF assms])
    then show "find (\<lambda>q. GetFingerPrint q = GetFingerPrint p) (rev ps) = Some p"
      by (simp add: unique_map_get f split: option.splits)
  next
    assume "find (\<lambda>q. GetFingerPrint q = GetFingerPrint p) (rev ps) = Some p"
    then have "(GetFingerPrint p, p) \<in> set (gm_range it ?m)"
      by (simp add: map_order.range_iff [OF assms] unique_map_get)
    then show "p \<in> set (Unique it ps)"
      unfolding Unique_def set_map by (metis image_eqI snd_conv)
  qed
  ultimately show ?thesis by blast
qed

theorem Unique_spec_witness:
  "distinct (map GetFingerPrint (Unique rev
     [NewPackageWithCatThin ''c'' ''a'' ''1'', NewPackageWithCatThin ''c'' ''a'' ''1'']))"
  using Unique_spec [OF rev_order.map_order_axioms] by blast

section \<open>Thin packages\<close>

datatype package_thin =
  PackageThin (tName: string) (tCategory: string) (tVersion: string)
    (tRequires: "package_thin list") (tConflicts: "package_thin list") (tProvides: "package_thin list")

definition NewPackageThin ::
    "string \<Rightarrow> string \<Rightarrow> string \<Rightarrow> package_thin list \<Rightarrow> package_thin list \<Rightarrow> package_thin" where
  "NewPackageThin n cat v reqs confl = PackageThin n cat v reqs confl []"

definition thin_PackageName :: "package_thin \<Rightarrow> string" where
  "thin_PackageName p = package_name (tCategory p) (tName p)"

definition thin_ToGentooPackage :: "lib \<Rightarrow> package_thin \<Rightarrow> gentoo_pkg res" where
  "thin_ToGentooPackage L p =
     (case ParsePackageStr L (thin_PackageName p @ ''-'' @ Trim (tVersion p) ''><=!'') of
        Inl e \<Rightarrow> Inl e
      | Inr g \<Rightarrow> Inr (g\<lparr>gpCondition := version_cond (tVersion p)\<rparr>))"

definition thin_HasConflicts :: "package_thin \<Rightarrow> bool" where
  "thin_HasConflicts p = (length (tConflicts p) > 0)"

definition thin_HasRequires :: "package_thin \<Rightarrow> bool" where
  "thin_HasRequires p = (length (tRequires p) > 0)"

definition thin_HasProvides :: "package_thin \<Rightarrow> bool" where
  "thin_HasProvides p = (length (tProvides p) > 0)"

definition thin_AtomMatches :: "package_thin \<Rightarrow> package_thin \<Rightarrow> bool" where
  "thin_AtomMatches p m = (if tName p = tName m \<and> tCategory p = tCategory m then True else False)"

definition RequirePackage :: "package_thin \<Rightarrow> package_thin \<Rightarrow> bool" where
  "RequirePackage p m = list_ex (\<lambda>r. thin_AtomMatches r m) (tRequires p)"

definition thin_HumanReadableString :: "package_thin \<Rightarrow> string" where
  "thin_HumanReadableString p = tCategory p @ ''/'' @ tName p @ ''-'' @ tVersion p"

definition BreakCyclesOnRequires :: "package_thin list \<Rightarrow> package_thin \<Rightarrow> package_thin" where
  "BreakCyclesOnRequires stack p =
     PackageThin (tName p) (tCategory p) (tVersion p)
       (filter (\<lambda>r. \<not> list_ex (thin_AtomMatches r) stack) (tRequires p)) (tConflicts p) (tProvides p)"

definition PackageThinIsInList :: "package_thin \<Rightarrow> package_thin list \<Rightarrow> bool" where
  "PackageThinIsInList p ps = list_ex (thin_AtomMatches p) ps"

text \<open>The comparison and the sort of \<open>SortPackageThinList4Requires\<close>.\<close>

definition sortPkgThin :: "package_thin \<Rightarrow> package_thin \<Rightarrow> bool" where
  "sortPkgThin pi pj =
     (let ireq = thin_HasRequires pi; jreq = thin_HasRequires pj
      in if ireq \<and> jreq then
           (if length (tRequires pi) = length (tRequires pj)
            then thin_PackageName pi < thin_PackageName pj
            else length (tRequires pi) < length (tRequires pj))
         else if \<not> ireq \<and> \<not> jreq then thin_PackageName pi < thin_PackageName pj
         else if \<not> ireq then True
         else False)"

definition SortPackageThinList4Requires ::
    "((package_thin \<Rightarrow> package_thin \<Rightarrow> bool) \<Rightarrow> package_thin list \<Rightarrow> package_thin list) \<Rightarrow>
     package_thin list \<Rightarrow> package_thin list" where
  "SortPackageThinList4Requires srt arr = srt sortPkgThin arr"

fun ToPackageThin :: "default_package \<Rightarrow> package_thin" where
  "ToPackageThin (DefaultPackage i r c v) =
     PackageThin (Name i) (Category i) (Version i)
       (map ToPackageThin r) (map ToPackageThin c) (map ToPackageThin v)"

lemma sortPkgThin_weak: "strict_weak sortPkgThin A"
  by (rule strict_weak_key [where f = "\<lambda>p. (length (tRequires p), thin_PackageName p)"])
     (auto simp: sortPkgThin_def thin_HasRequires_def less_prod_def)

subsection \<open>The JSON of a thin package and its hash\<close>

text \<open>
  \<open>json.Marshal\<close> of the struct: the fields in their order, the three lists left out when empty, and
  strings escaped the way \<open>encoding/json\<close> does (HTML characters included).
\<close>

definition hex_digit :: "nat \<Rightarrow> char" where
  "hex_digit n = (if n < 10 then char_of (48 + n) else char_of (87 + n))"

definition json_char :: "char \<Rightarrow> string" where
  "json_char c =
     (let n = (of_char c :: nat) in
      if n = 34 then [char_of (92::nat), char_of (34::nat)]
      else if n = 92 then [char_of (92::nat), char_of (92::nat)]
      else if n = 10 then [char_of (92::nat), CHR ''n'']
      else if n = 13 then [char_of (92::nat), CHR ''r'']
      else if n = 9 then [char_of (92::nat), CHR ''t'']
      else if n < 32 \<or> n = 38 \<or> n = 60 \<or> n = 62 then
        [char_of (92::nat), CHR ''u'', CHR ''0'', CHR ''0'', hex_digit (n div 16), hex_digit (n mod 16)]
      else [c])"

definition json_string :: "string \<Rightarrow> string" where
  "json_string s = [char_of (34::nat)] @ concat (map json_char s) @ [char_of (34::nat)]"

definition json_list :: "string list \<Rightarrow> string" where
  "json_list xs = ''['' @ Join xs '','' @ '']''"

fun thin_json :: "package_thin \<Rightarrow> string" where
  "thin_json (PackageThin n c v r k p) =
     ''{'' @ json_string ''name'' @ '':'' @ json_string n @ '','' @
     json_string ''category'' @ '':'' @ json_string c @ '','' @
     json_string ''version'' @ '':'' @ json_string v @
     (if r = [] then [] else '','' @ json_string ''requires'' @ '':'' @ json_list (map thin_json r)) @
     (if k = [] then [] else '','' @ json_string ''conflicts'' @ '':'' @ json_list (map thin_json k)) @
     (if p = [] then [] else '','' @ json_string ''provides'' @ '':'' @ json_list (map thin_json p)) @ ''}''"

definition GenerateHash :: "lib \<Rightarrow> package_thin \<Rightarrow> string" where
  "GenerateHash L p = Md5Hex L (thin_json p)"

definition GetComparitionHash :: "lib \<Rightarrow> default_package \<Rightarrow> string" where
  "GetComparitionHash L p = GenerateHash L (ToPackageThin p)"

end
