(* ===== verification/PackageHash.thy ===== *)
theory PackageHash
  imports Package
begin

text \<open>
  The comparison hash of \<open>pkg/package/package.go\<close> (\<open>GetComparitionHash\<close>) and \<open>package_thin.go\<close>
  (\<open>GenerateHash\<close>): the JSON text of a thin package can be read back, so two packages hash alike only
  if md5 collides or their thin packages (name, category, version, requires, conflicts, provides,
  recursively) are the same.  The proof shows that every piece of the text is a code word: nothing
  that follows it changes where it ends.
\<close>

section \<open>The text of a thin package is uniquely readable\<close>

definition hex_value :: "char \<Rightarrow> nat" where
  "hex_value c = (if (of_char c :: nat) < 60 then of_char c - 48 else of_char c - 87)"

definition unjson_char :: "string \<Rightarrow> (char \<times> string) option" where
  "unjson_char s =
     (if hd s \<noteq> char_of (92::nat) then Some (hd s, tl s)
      else let b = hd (tl s); r = tl (tl s) in
        if b = CHR ''n'' then Some (char_of (10::nat), r)
        else if b = CHR ''r'' then Some (char_of (13::nat), r)
        else if b = CHR ''t'' then Some (char_of (9::nat), r)
        else if b = CHR ''u'' then
          Some (char_of (16 * hex_value (r ! 2) + hex_value (r ! 3)), drop 4 r)
        else Some (b, r))"

lemma hex_value_digit: "n < 16 \<Longrightarrow> hex_value (hex_digit n) = n"
  by (auto simp: hex_value_def hex_digit_def)

lemma unjson_json_char: "unjson_char (json_char c @ s) = Some (c, s)"
proof -
  define n where "n = (of_char c :: nat)"
  have c: "c = char_of n" by (simp add: n_def)
  have n: "n < 256" by (simp add: n_def)
  have hex: "16 * hex_value (hex_digit (n div 16)) + hex_value (hex_digit (n mod 16)) = n"
    using n by (simp add: hex_value_digit less_mult_imp_div_less)
  have tb: "take_bit 8 n = n" using n by (simp add: take_bit_nat_eq_self)
  show ?thesis
    unfolding json_char_def Let_def n_def [symmetric] unjson_char_def
    using hex n by (auto simp: c char_of_eq_iff tb)
qed

lemma json_char_prefix: "json_char c @ x = json_char d @ y \<longleftrightarrow> c = d \<and> x = y"
  by (metis unjson_json_char option.inject prod.inject)

lemma json_char_quote: "json_char c @ x \<noteq> char_of (34::nat) # y"
  by (auto simp: json_char_def Let_def)

definition code_word :: "('a \<Rightarrow> 'b list) \<Rightarrow> 'a \<Rightarrow> bool" where
  "code_word f a = (\<forall>b u w. f a @ u = f b @ w \<longrightarrow> a = b \<and> u = w)"

lemma code_wordD: "code_word f a \<Longrightarrow> f a @ u = f b @ w \<Longrightarrow> a = b \<and> u = w"
  by (auto simp: code_word_def)

lemma code_word_Cons: "code_word f a \<Longrightarrow> code_word (\<lambda>b. c # f b) a"
  unfolding code_word_def by simp

lemma concat_prefix_free:
  assumes "\<forall>a\<in>set as. code_word f a"
    and "\<And>a u z. f a @ u \<noteq> q # z"
    and "concat (map f as) @ q # x = concat (map f bs) @ q # y"
  shows "as = bs \<and> x = y"
  using assms(1,3)
proof (induction as arbitrary: bs)
  case Nil
  then show ?case using assms(2) by (cases bs) (auto, metis+)
next
  case (Cons a as)
  show ?case
  proof (cases bs)
    case Nil
    then show ?thesis using Cons.prems(2) assms(2) by auto
  next
    case bs: (Cons b bs')
    have "f a @ (concat (map f as) @ q # x) = f b @ (concat (map f bs') @ q # y)"
      using Cons.prems(2) bs by simp
    moreover have "code_word f a" using Cons.prems(1) by simp
    ultimately have "a = b \<and> concat (map f as) @ q # x = concat (map f bs') @ q # y"
      using code_wordD by fastforce
    then show ?thesis using Cons.IH [of bs'] Cons.prems(1) bs by simp
  qed
qed

lemma json_chars_prefix:
  assumes "concat (map json_char a) @ char_of (34::nat) # x = concat (map json_char b) @ char_of (34::nat) # y"
  shows "a = b \<and> x = y"
  by (rule concat_prefix_free [OF _ json_char_quote assms]) (simp add: code_word_def json_char_prefix)

lemma json_string_prefix: "json_string a @ x = json_string b @ y \<longleftrightarrow> a = b \<and> x = y"
proof
  assume "json_string a @ x = json_string b @ y"
  then have "concat (map json_char a) @ char_of (34::nat) # x = concat (map json_char b) @ char_of (34::nat) # y"
    by (simp add: json_string_def)
  then show "a = b \<and> x = y" by (rule json_chars_prefix)
qed simp

lemma Join_Cons: "Join (a # as) d = a @ concat (map ((@) d) as)"
  by (induction as arbitrary: a) auto

lemma thin_json_hd: "\<exists>z. thin_json p = CHR ''{'' # z"
  by (cases p) simp

lemma json_list_prefix:
  assumes "\<forall>p\<in>set ps. code_word thin_json p"
    and "json_list (map thin_json ps) @ x = json_list (map thin_json qs) @ y"
  shows "ps = qs \<and> x = y"
proof (cases "ps = [] \<or> qs = []")
  case True
  show ?thesis
  proof (cases "ps = [] \<and> qs = []")
    case True
    then show ?thesis using assms(2) by (simp add: json_list_def)
  next
    case False
    with True obtain p ps' where "ps = [] \<and> qs = p # ps' \<or> qs = [] \<and> ps = p # ps'"
      by (cases ps; cases qs) auto
    then show ?thesis using assms(2) thin_json_hd [of p]
      by (elim disjE) (auto simp: json_list_def Join_Cons)
  qed
next
  case False
  then obtain p ps' q qs' where ps: "ps = p # ps'" and qs: "qs = q # qs'"
    by (cases ps; cases qs) auto
  let ?f = "\<lambda>b. CHR '','' # thin_json b"
  have m: "concat (map ((@) '','') (map thin_json xs)) = concat (map ?f xs)" for xs
    by (induction xs) auto
  have "thin_json p @ (concat (map ?f ps') @ CHR '']'' # x) = thin_json q @ (concat (map ?f qs') @ CHR '']'' # y)"
    using assms(2) by (simp add: ps qs json_list_def Join_Cons m del: map_map)
  from code_wordD [where f = thin_json and a = p and b = q, OF _ this] assms(1) have pq: "p = q"
    and rest: "concat (map ?f ps') @ CHR '']'' # x = concat (map ?f qs') @ CHR '']'' # y"
    unfolding ps by simp_all
  have "ps' = qs' \<and> x = y"
    by (rule concat_prefix_free [OF _ _ rest]) (use assms(1) ps in \<open>auto simp: code_word_Cons\<close>)
  with pq show ?thesis by (simp add: ps qs)
qed



definition json_opt :: "string \<Rightarrow> package_thin list \<Rightarrow> string" where
  "json_opt key xs =
     (if xs = [] then [] else '','' @ json_string key @ '':'' @ json_list (map thin_json xs))"

lemma thin_json_opt:
  "thin_json (PackageThin n c v r k p) =
     ''{'' @ json_string ''name'' @ '':'' @ json_string n @ '','' @
     json_string ''category'' @ '':'' @ json_string c @ '','' @
     json_string ''version'' @ '':'' @ json_string v @
     json_opt ''requires'' r @ json_opt ''conflicts'' k @ json_opt ''provides'' p @ ''}''"
  by (simp add: json_opt_def)

lemma json_char_plain: "json_char c = [c]" if "97 \<le> (of_char c :: nat)"
  using that by (simp add: json_char_def Let_def)

text \<open>What follows a list field does not start with the key of that field.\<close>

definition other_key :: "char \<Rightarrow> string \<Rightarrow> bool" where
  "other_key c s = (hd s = CHR '','' \<longrightarrow> s ! 2 \<noteq> c)"

lemma json_opt_prefix:
  assumes "\<forall>p\<in>set ps. code_word thin_json p" "97 \<le> (of_char c :: nat)"
    and "json_opt (c # key) ps @ x = json_opt (c # key) qs @ y" "other_key c x" "other_key c y"
  shows "ps = qs \<and> x = y"
proof -
  have ne: "json_opt (c # key) zs @ u \<noteq> w" if "zs \<noteq> []" "other_key c w" for zs u w
    using that assms(2) by (auto simp: json_opt_def other_key_def json_string_def json_char_plain)
  show ?thesis
  proof (cases "ps = [] \<or> qs = []")
    case True
    show ?thesis
    proof (cases "ps = [] \<and> qs = []")
      case True
      then show ?thesis using assms(3) by (simp add: json_opt_def)
    next
      case False
      with True ne [of ps y x] ne [of qs x y] show ?thesis
        using assms(3-5) by (auto simp: json_opt_def split: if_splits)
    qed
  next
    case False
    then show ?thesis using assms(3) json_list_prefix [OF assms(1), of x qs y]
      by (simp add: json_opt_def json_string_prefix)
  qed
qed


lemma thin_json_code: "code_word thin_json p"
proof (induction p)
  case (PackageThin n c v r k p)
  show ?case
    unfolding code_word_def
  proof (intro allI impI)
    fix q u w
    assume eq: "thin_json (PackageThin n c v r k p) @ u = thin_json q @ w"
    obtain n' c' v' r' k' p' where q: "q = PackageThin n' c' v' r' k' p'" by (cases q)
    from eq have ncv: "n = n' \<and> c = c' \<and> v = v'"
      and 1: "json_opt ''requires'' r @ json_opt ''conflicts'' k @ json_opt ''provides'' p @ CHR ''}'' # u =
        json_opt ''requires'' r' @ json_opt ''conflicts'' k' @ json_opt ''provides'' p' @ CHR ''}'' # w"
      by (simp_all only: q thin_json_opt append_assoc json_string_prefix append_Cons append_Nil
          list.inject simp_thms)
    have ok: "other_key CHR ''r'' (json_opt ''conflicts'' k @ json_opt ''provides'' p @ CHR ''}'' # u)"
      "other_key CHR ''c'' (json_opt ''provides'' p @ CHR ''}'' # u)"
      "other_key CHR ''p'' (CHR ''}'' # u)" for k p u
      by (auto simp: other_key_def json_opt_def json_string_def json_char_plain)
    have "r = r' \<and> json_opt ''conflicts'' k @ json_opt ''provides'' p @ CHR ''}'' # u =
        json_opt ''conflicts'' k' @ json_opt ''provides'' p' @ CHR ''}'' # w"
      by (rule json_opt_prefix [OF _ _ 1 ok(1) ok(1)]) (use PackageThin in auto)
    then have r: "r = r'" and 2: "json_opt ''conflicts'' k @ json_opt ''provides'' p @ CHR ''}'' # u =
        json_opt ''conflicts'' k' @ json_opt ''provides'' p' @ CHR ''}'' # w" by auto
    have "k = k' \<and> json_opt ''provides'' p @ CHR ''}'' # u = json_opt ''provides'' p' @ CHR ''}'' # w"
      by (rule json_opt_prefix [OF _ _ 2 ok(2) ok(2)]) (use PackageThin in auto)
    then have k: "k = k'"
      and 3: "json_opt ''provides'' p @ CHR ''}'' # u = json_opt ''provides'' p' @ CHR ''}'' # w" by auto
    have "p = p' \<and> CHR ''}'' # u = CHR ''}'' # w"
      by (rule json_opt_prefix [OF _ _ 3 ok(3) ok(3)]) (use PackageThin in auto)
    with r k ncv show "PackageThin n c v r k p = q \<and> u = w" by (simp add: q)
  qed
qed

lemma thin_json_inj: "thin_json p = thin_json q \<longleftrightarrow> p = q"
  using code_wordD [where f = thin_json and a = p and b = q and u = "[]" and w = "[]"] thin_json_code
  by auto

section \<open>Hashes and fingerprints\<close>

text \<open>
  as long as md5 does not collide on the texts compared, \<open>GetComparitionHash\<close> tells two packages
  apart exactly when their names, categories, versions, requires, conflicts or provides differ.
\<close>

theorem GetComparitionHash_iff:
  assumes "inj_on (Md5Hex L) A" "thin_json (ToPackageThin p) \<in> A" "thin_json (ToPackageThin q) \<in> A"
  shows "GetComparitionHash L p = GetComparitionHash L q \<longleftrightarrow> ToPackageThin p = ToPackageThin q"
  using assms by (auto simp: GetComparitionHash_def GenerateHash_def inj_on_eq_iff thin_json_inj)

theorem GetComparitionHash_iff_witness:
  "GetComparitionHash plain_lib (NewPackageWithCatThin ''c'' ''foo'' ''1.0'') \<noteq>
   GetComparitionHash plain_lib (NewPackageWithCatThin ''c'' ''foo'' ''>=1.0'')"
  using GetComparitionHash_iff [of plain_lib UNIV "NewPackageWithCatThin ''c'' ''foo'' ''1.0''"
      "NewPackageWithCatThin ''c'' ''foo'' ''>=1.0''"]
  by (simp add: plain_lib_def NewPackageWithCatThin_def empty_info_def)

text \<open>
  the fingerprint, which databases use as the identity of a package, is not one: two packages with
  different names and categories have the same fingerprint.
\<close>

theorem GetFingerPrint_not_injective:
  "\<exists>p q. GetFingerPrint p = GetFingerPrint q \<and> Matches p q \<and> pName p \<noteq> pName q \<and> pCategory p \<noteq> pCategory q"
proof -
  let ?p = "NewPackageWithCatThin ''c'' ''a-b'' ''1''"
  let ?q = "NewPackageWithCatThin ''b-c'' ''a'' ''1''"
  have "GetFingerPrint ?p = GetFingerPrint ?q \<and> Matches ?p ?q \<and> pName ?p \<noteq> pName ?q \<and>
      pCategory ?p \<noteq> pCategory ?q" by code_simp
  then show ?thesis by blast
qed

end
