(* ===== verification/Artifact.thy ===== *)
theory Artifact
  imports PackageHash
begin

text \<open>
  \<open>pkg/v2/compiler/types/artifact\<close>: the artifact of a package (\<open>artifact.go\<close>), packs of artifacts
  and maps from package names to artifacts (\<open>map.go\<close>), the merge of a definition (\<open>merge.go\<close>), the
  checksums (\<open>checksum.go\<close>), and the sorts of \<open>pkg/v2/repository/artifact_sort.go\<close>.

  \<open>aCompileSpec\<close> is the package of the compilation spec: \<open>None\<close> for a nil spec and \<open>Some None\<close> for a
  spec without package.  The code calls methods on the package of an artifact without testing it for
  nil; \<open>art_pkg\<close> is that package, and where a nil one would be dereferenced the model has the empty
  package.
\<close>

section \<open>Artifacts\<close>

record artifact =
  aPath :: string
  aCachePath :: string
  aChecksums :: "string gomap"
  aCompressionType :: string
  aFiles :: "string list"
  aPackageCacheImage :: string
  aRuntime :: "default_package option"
  aCompileSpec :: "default_package option option"

definition NewPackageArtifact :: "string \<Rightarrow> artifact" where
  "NewPackageArtifact path =
     \<lparr>aPath = path, aCachePath = [], aChecksums = [], aCompressionType = ''none'', aFiles = [],
      aPackageCacheImage = [], aRuntime = None, aCompileSpec = None\<rparr>"

definition GetPackage :: "artifact \<Rightarrow> default_package option" where
  "GetPackage a =
     (if aRuntime a \<noteq> None then aRuntime a
      else if aCompileSpec a \<noteq> None \<and> the (aCompileSpec a) \<noteq> None then the (aCompileSpec a)
      else None)"

definition art_pkg :: "artifact \<Rightarrow> default_package" where
  "art_pkg a = (case GetPackage a of Some p \<Rightarrow> p | None \<Rightarrow> NewPackage [] [] [] [])"

definition spec_pkg :: "artifact \<Rightarrow> default_package option" where
  "spec_pkg a = (case aCompileSpec a of None \<Rightarrow> None | Some p \<Rightarrow> p)"

definition GetRepository :: "artifact \<Rightarrow> string" where
  "GetRepository a =
     (let ans = (case aRuntime a of Some p \<Rightarrow> pRepository p | None \<Rightarrow> []);
          ans = (if ans = [] \<and> spec_pkg a \<noteq> None then pRepository (the (spec_pkg a)) else ans)
      in ans)"

definition GetVersion :: "artifact \<Rightarrow> string" where
  "GetVersion a =
     (let ans = (case aRuntime a of Some p \<Rightarrow> pVersion p | None \<Rightarrow> []);
          ans = (if ans = [] \<and> spec_pkg a \<noteq> None then pVersion (the (spec_pkg a)) else ans)
      in ans)"

section \<open>Packs and maps\<close>

type_synonym arts_map = "artifact list gomap"

text \<open>The key of \<open>Add\<close> and \<open>MatchVersion\<close>.\<close>

definition art_key :: "artifact \<Rightarrow> string" where
  "art_key p =
     (case aRuntime p of
        Some r \<Rightarrow> PackageName r
      | None \<Rightarrow> PackageName (case spec_pkg p of Some q \<Rightarrow> q | None \<Rightarrow> NewPackage [] [] [] []))"

definition am_Add :: "artifact \<Rightarrow> arts_map \<Rightarrow> arts_map" where
  "am_Add p am = (let key = art_key p in
     case gm_get am key of Some val \<Rightarrow> gm_set key (val @ [p]) am | None \<Rightarrow> gm_set key [p] am)"

fun am_add_all :: "artifact list \<Rightarrow> arts_map \<Rightarrow> arts_map" where
  "am_add_all [] am = am"
| "am_add_all (a # as) am = am_add_all as (am_Add a am)"

definition ToMap :: "artifact list \<Rightarrow> arts_map" where
  "ToMap ap = am_add_all ap []"

definition IsPresent :: "artifact list \<Rightarrow> artifact \<Rightarrow> bool" where
  "IsPresent ap p = list_ex (\<lambda>a. PackageName (art_pkg a) = PackageName (art_pkg p)) ap"

definition MatchVersion :: "arts_map \<Rightarrow> artifact \<Rightarrow> artifact res" where
  "MatchVersion am p =
     (let key = art_key p;
          ans = (case gm_get am key of
                   Some val \<Rightarrow> find (\<lambda>pp. GetVersion pp = GetVersion p) val
                 | None \<Rightarrow> None)
      in case ans of
           None \<Rightarrow> Inl (''Package '' @ key @ ''-'' @ GetVersion p @ '' not found'')
         | Some a \<Rightarrow> Inr a)"

definition ToList :: "(string list \<Rightarrow> string list) \<Rightarrow> arts_map \<Rightarrow> artifact list" where
  "ToList it am = concat (map snd (gm_range it am))"

definition HasKey :: "arts_map \<Rightarrow> string \<Rightarrow> bool" where
  "HasKey am k = gm_has am k"

definition GetArtifactsByKey :: "arts_map \<Rightarrow> string \<Rightarrow> artifact list res" where
  "GetArtifactsByKey am k =
     (case gm_get am k of
        None \<Rightarrow> Inl (''Package '' @ k @ '' not found on map'')
      | Some val \<Rightarrow> Inr val)"

text \<open>The last key the range visits with an artifact that provides \<open>p\<close>.\<close>

fun provides_loop :: "string \<Rightarrow> (string \<times> artifact list) list \<Rightarrow> artifact list \<Rightarrow> artifact list" where
  "provides_loop p [] ans = ans"
| "provides_loop p ((k, arts) # es) ans =
     provides_loop p es
       (if list_ex (\<lambda>a. GetProvidePackage (art_pkg a) p \<noteq> None) arts then arts else ans)"

definition am_GetProvides :: "(string list \<Rightarrow> string list) \<Rightarrow> arts_map \<Rightarrow> string \<Rightarrow> artifact list" where
  "am_GetProvides it am p = provides_loop p (gm_range it am) []"

text \<open>\<open>GentooPackageSorter.Less\<close>, and \<open>sort.Reverse\<close> of it.\<close>

definition gentoo_Less :: "lib \<Rightarrow> gentoo_pkg \<Rightarrow> gentoo_pkg \<Rightarrow> bool" where
  "gentoo_Less L p i = (case gp_LessThan L p i of Inr b \<Rightarrow> b | Inl _ \<Rightarrow> False)"

fun parse_all :: "lib \<Rightarrow> artifact list \<Rightarrow> gentoo_pkg list res" where
  "parse_all L [] = Inr []"
| "parse_all L (p # ps) =
     (case ParsePackageStr L (HumanReadableString (art_pkg p)) of
        Inl e \<Rightarrow> Inl e
      | Inr g \<Rightarrow> (case parse_all L ps of Inl e \<Rightarrow> Inl e | Inr gs \<Rightarrow> Inr (g # gs)))"

fun pick_all :: "gentoo_pkg list \<Rightarrow> artifact list \<Rightarrow> artifact list" where
  "pick_all [] val = []"
| "pick_all (g # gs) val =
     (let pstr = (if gpVersionBuild g \<noteq> [] then gp_String g @ ''+'' @ gpVersionBuild g else gp_String g)
      in case find (\<lambda>p. HumanReadableString (art_pkg p) = pstr) val of
           Some p \<Rightarrow> p # pick_all gs val
         | None \<Rightarrow> pick_all gs val)"

definition GetSortedArtifactsByKey ::
    "lib \<Rightarrow> ((gentoo_pkg \<Rightarrow> gentoo_pkg \<Rightarrow> bool) \<Rightarrow> gentoo_pkg list \<Rightarrow> gentoo_pkg list) \<Rightarrow>
     arts_map \<Rightarrow> string \<Rightarrow> artifact list res" where
  "GetSortedArtifactsByKey L srt am k =
     (case gm_get am k of
        None \<Rightarrow> Inl (''Package '' @ k @ '' not found on map'')
      | Some val \<Rightarrow>
          if length val = 1 then Inr val
          else (case parse_all L val of
                  Inl e \<Rightarrow> Inl e
                | Inr glist \<Rightarrow> Inr (pick_all (srt (\<lambda>a b. gentoo_Less L b a) glist) val)))"

section \<open>Merging a definition\<close>

fun set_requires :: "default_package list \<Rightarrow> default_package \<Rightarrow> default_package" where
  "set_requires x (DefaultPackage i r c v) = DefaultPackage i x c v"

fun set_conflicts :: "default_package list \<Rightarrow> default_package \<Rightarrow> default_package" where
  "set_conflicts x (DefaultPackage i r c v) = DefaultPackage i r x v"

fun set_provides :: "default_package list \<Rightarrow> default_package \<Rightarrow> default_package" where
  "set_provides x (DefaultPackage i r c v) = DefaultPackage i r c x"

definition set_annotations :: "ival gomap option \<Rightarrow> default_package \<Rightarrow> default_package" where
  "set_annotations x = upd_info (\<lambda>i. i\<lparr>Annotations := x\<rparr>)"

lemma set_field_sel [simp]:
  "PackageRequires (set_requires x p) = x" "PackageConflicts (set_requires x p) = PackageConflicts p"
  "Provides (set_requires x p) = Provides p" "pkg_data (set_requires x p) = pkg_data p"
  "PackageRequires (set_conflicts x p) = PackageRequires p" "PackageConflicts (set_conflicts x p) = x"
  "Provides (set_conflicts x p) = Provides p" "pkg_data (set_conflicts x p) = pkg_data p"
  "PackageRequires (set_provides x p) = PackageRequires p" "PackageConflicts (set_provides x p) = PackageConflicts p"
  "Provides (set_provides x p) = x" "pkg_data (set_provides x p) = pkg_data p"
  by (cases p; simp)+

text \<open>
  One of the three steps of the branch with a runtime package: when the test \<open>c\<close> holds the field is
  set in the runtime package and in the package of the spec, which is dereferenced there.
\<close>

definition merge_field ::
    "bool \<Rightarrow> (default_package \<Rightarrow> default_package) \<Rightarrow> artifact \<Rightarrow> artifact panics" where
  "merge_field c f a =
     (if \<not> c then Returns a
      else case spec_pkg a of
        None \<Rightarrow> Panics ''nil pointer dereference''
      | Some sp \<Rightarrow> Returns (a\<lparr>aRuntime := map_option f (aRuntime a), aCompileSpec := Some (Some (f sp))\<rparr>))"

fun pbind :: "'a panics \<Rightarrow> ('a \<Rightarrow> 'b panics) \<Rightarrow> 'b panics" where
  "pbind (Panics e) f = Panics e"
| "pbind (Returns a) f = f a"

definition merge_differs :: "'a list \<Rightarrow> 'b list \<Rightarrow> bool" where
  "merge_differs new old = (length new > 0 \<or> length new \<noteq> length old)"

definition merge_runtime :: "default_package \<Rightarrow> default_package \<Rightarrow> artifact \<Rightarrow> artifact panics" where
  "merge_runtime dp rt a =
     pbind (merge_field (merge_differs (Provides dp) (Provides rt)) (set_provides (Provides dp)) a)
       (\<lambda>a. pbind (merge_field (merge_differs (PackageRequires dp) (PackageRequires rt))
                     (set_requires (PackageRequires dp)) a)
       (\<lambda>a. pbind (merge_field (merge_differs (PackageConflicts dp) (PackageConflicts rt))
                     (set_conflicts (PackageConflicts dp)) a)
       (\<lambda>a. merge_field (merge_differs (pAnnotations dp) (pAnnotations rt))
              (set_annotations (Annotations (pkg_data dp))) a)))"

definition merge_spec :: "default_package \<Rightarrow> default_package \<Rightarrow> default_package" where
  "merge_spec dp sp =
     (let sp = (if merge_differs (Provides dp) (Provides sp) then set_provides (Provides dp) sp else sp);
          sp = (if merge_differs (PackageRequires dp) (PackageRequires sp)
                then set_requires (PackageRequires dp) sp else sp);
          sp = (if merge_differs (PackageConflicts dp) (PackageConflicts sp)
                then set_conflicts (PackageConflicts dp) sp else sp)
      in if Annotations (pkg_data dp) \<noteq> None \<and> Annotations (pkg_data sp) \<noteq> None \<and>
            merge_differs (pAnnotations dp) (pAnnotations sp)
         then set_annotations (Annotations (pkg_data dp)) sp else sp)"

definition MergeDefinition :: "default_package \<Rightarrow> artifact \<Rightarrow> artifact panics" where
  "MergeDefinition dp a =
     (case aRuntime a of
        Some rt \<Rightarrow> merge_runtime dp rt a
      | None \<Rightarrow>
         (case spec_pkg a of
            Some sp \<Rightarrow> Returns (a\<lparr>aCompileSpec := Some (Some (merge_spec dp sp))\<rparr>)
          | None \<Rightarrow> Returns a))"

section \<open>Checksums\<close>

fun compare_loop :: "string gomap \<Rightarrow> (string \<times> string) list \<Rightarrow> err option" where
  "compare_loop c [] = None"
| "compare_loop c ((t, sm) # es) =
     (case gm_get c t of
        Some v \<Rightarrow> if v \<noteq> sm then Some ''Checksum mismsatch'' else compare_loop c es
      | None \<Rightarrow> compare_loop c es)"

definition Compare :: "(string list \<Rightarrow> string list) \<Rightarrow> string gomap \<Rightarrow> string gomap \<Rightarrow> err option" where
  "Compare it c d = compare_loop c (gm_range it d)"

text \<open>\<open>Verify\<close>, with the result of \<open>Generate\<close> on the file at the cache path as an argument.\<close>

definition Verify :: "(string list \<Rightarrow> string list) \<Rightarrow> string gomap res \<Rightarrow> artifact \<Rightarrow> err option" where
  "Verify it generated a =
     (case generated of Inl e \<Rightarrow> Some e | Inr sm \<Rightarrow> Compare it sm (aChecksums a))"

section \<open>Sorts\<close>

text \<open>
  \<open>repository/artifact_sort.go\<close>.  \<open>prios\<close> maps a repository's name to its priority.
  The comparison of \<open>SortArtifactList4VersionAndRepos\<close> dereferences the result of
  \<open>ToGentooPackage\<close>, nil on a package that does not parse, and every element of a slice of two or
  more is compared.
\<close>

definition repo_prio :: "int gomap \<Rightarrow> string \<Rightarrow> int" where
  "repo_prio prios r = (case gm_get prios r of Some p \<Rightarrow> p | None \<Rightarrow> 100)"

definition version_repo_less :: "lib \<Rightarrow> int gomap \<Rightarrow> bool \<Rightarrow> gentoo_pkg \<Rightarrow> gentoo_pkg \<Rightarrow> bool" where
  "version_repo_less L prios reverse pi pj =
     (let irprio = repo_prio prios (gpRepository pi); jrprio = repo_prio prios (gpRepository pj);
          sameVersion = (case gp_Equal L pi pj of Inr b \<Rightarrow> b | Inl _ \<Rightarrow> False)
      in if sameVersion then (if reverse then irprio > jrprio else irprio < jrprio)
         else (let ans = (case gp_LessThan L pi pj of Inr b \<Rightarrow> b | Inl _ \<Rightarrow> False)
               in if reverse then \<not> ans else ans))"

definition art_gentoo :: "lib \<Rightarrow> artifact \<Rightarrow> gentoo_pkg res" where
  "art_gentoo L a = ToGentooPackage L (art_pkg a)"

definition gentoo_zero :: gentoo_pkg where
  "gentoo_zero = \<lparr>gpName = [], gpCategory = [], gpVersion = [], gpVersionSuffix = [],
     gpVersionBuild = [], gpSlot = [], gpCondition = PkgCondInvalid, gpRepository = [],
     gpUseFlags = [], gpLicense = []\<rparr>"

definition the_gentoo :: "lib \<Rightarrow> artifact \<Rightarrow> gentoo_pkg" where
  "the_gentoo L a = (case art_gentoo L a of Inr g \<Rightarrow> g | Inl _ \<Rightarrow> gentoo_zero)"

type_synonym art_sort = "(artifact \<Rightarrow> artifact \<Rightarrow> bool) \<Rightarrow> artifact list \<Rightarrow> artifact list"

definition SortArtifactList4VersionAndRepos ::
    "lib \<Rightarrow> art_sort \<Rightarrow> int gomap \<Rightarrow> bool \<Rightarrow> artifact list \<Rightarrow> artifact list panics" where
  "SortArtifactList4VersionAndRepos L srt prios reverse arts =
     (if length arts \<ge> 2 \<and> list_ex (\<lambda>a. isl (art_gentoo L a)) arts
      then Panics ''nil pointer dereference''
      else Returns
        (srt (\<lambda>a b. version_repo_less L prios reverse (the_gentoo L a) (the_gentoo L b)) arts))"

definition requires_repo_less :: "int gomap \<Rightarrow> artifact \<Rightarrow> artifact \<Rightarrow> bool" where
  "requires_repo_less prios arti artj =
     (let pi = art_pkg arti; pj = art_pkg artj; ireq = HasRequires pi; jreq = HasRequires pj;
          irprio = repo_prio prios (pRepository pi); jrprio = repo_prio prios (pRepository pj)
      in if ireq \<and> jreq then
           (if length (PackageRequires pi) = length (PackageRequires pj) then irprio < jrprio
            else length (PackageRequires pi) < length (PackageRequires pj))
         else if \<not> ireq \<and> \<not> jreq then irprio < jrprio
         else if \<not> ireq then True
         else False)"

definition SortArtifactList4RequiresAndRepos ::
    "art_sort \<Rightarrow> int gomap \<Rightarrow> artifact list \<Rightarrow> artifact list" where
  "SortArtifactList4RequiresAndRepos srt prios arts = srt (requires_repo_less prios) arts"

definition repos_requires_less :: "int gomap \<Rightarrow> artifact \<Rightarrow> artifact \<Rightarrow> bool" where
  "repos_requires_less prios arti artj =
     (let pi = art_pkg arti; pj = art_pkg artj; ireq = HasRequires pi; jreq = HasRequires pj;
          irprio = repo_prio prios (pRepository pi); jrprio = repo_prio prios (pRepository pj)
      in if irprio = jrprio then
           (if ireq \<and> jreq then
              (if length (PackageRequires pi) = length (PackageRequires pj)
               then PackageName pi < PackageName pj
               else length (PackageRequires pi) < length (PackageRequires pj))
            else if \<not> ireq \<and> \<not> jreq then PackageName pi < PackageName pj
            else if \<not> ireq then True
            else False)
         else irprio < jrprio)"

definition SortArtifactList4ReposAndRequires ::
    "art_sort \<Rightarrow> int gomap \<Rightarrow> artifact list \<Rightarrow> artifact list" where
  "SortArtifactList4ReposAndRequires srt prios arts = srt (repos_requires_less prios) arts"

section \<open>What the operations do\<close>

lemma am_Add_append: "am_Add a am = gm_append (art_key a) a am"
  by (simp add: am_Add_def gm_append_def Let_def)

lemma am_add_all_get:
  "gm_get (am_add_all as am) k =
     (case filter (\<lambda>a. art_key a = k) as of
        [] \<Rightarrow> gm_get am k
      | bs \<Rightarrow> Some ((case gm_get am k of None \<Rightarrow> [] | Some cs \<Rightarrow> cs) @ bs))"
  by (induction as am rule: am_add_all.induct)
     (auto simp: am_Add_append split: list.splits option.splits)

lemma am_add_all_wf [wf_intros]: "gm_wf am \<Longrightarrow> gm_wf (am_add_all as am)"
  by (induction as am rule: am_add_all.induct) (auto simp: am_Add_append)

lemma ToMap_get:
  "gm_get (ToMap ap) k =
     (let bs = filter (\<lambda>a. art_key a = k) ap in if bs = [] then None else Some bs)"
  by (simp add: ToMap_def am_add_all_get split: list.split)

lemma ToMap_wf [wf_intros]: "gm_wf (ToMap ap)"
  by (simp add: ToMap_def am_add_all_wf)

lemma ToMap_has: "gm_has (ToMap ap) k \<longleftrightarrow> k \<in> art_key ` set ap"
  by (auto simp: gm_has_def ToMap_get Let_def filter_empty_conv)

lemma art_key_pkg: "GetPackage a \<noteq> None \<Longrightarrow> art_key a = PackageName (art_pkg a)"
  by (auto simp: art_key_def art_pkg_def GetPackage_def spec_pkg_def split: option.splits if_splits)

lemma gm_append_values:
  "gm_wf m \<Longrightarrow> mset (concat (map snd (gm_append k v m))) = add_mset v (mset (concat (map snd m)))"
proof (induction m)
  case (Cons x m)
  obtain k' vs where x: "x = (k', vs)" by (cases x)
  have wf: "gm_wf m" and new: "gm_get m k' = None"
    using Cons.prems by (auto simp: x gm_wf_def map_of_eq_None_iff)
  show ?case
  proof (cases "k' = k")
    case True
    then show ?thesis by (simp add: x gm_append_def)
  next
    case False
    then have "gm_append k v (x # m) = x # gm_append k v m"
      by (auto simp: x gm_append_def split: option.split)
    then show ?thesis using Cons.IH [OF wf] by simp
  qed
qed (simp add: gm_append_def)

lemma am_add_all_values:
  "gm_wf am \<Longrightarrow>
   mset (concat (map snd (am_add_all as am))) = mset as + mset (concat (map snd am))"
  by (induction as am rule: am_add_all.induct) (auto simp: am_Add_append gm_append_values)

text \<open>
  \<open>ToMap\<close> followed by \<open>ToList\<close> loses and repeats no artifact, in whatever order the map is
  ranged over, and the map keeps, under each package name, the artifacts of that name in the order
  of the pack.
\<close>

theorem ToMap_ToList:
  assumes "map_order it"
  shows "mset (ToList it (ToMap ap)) = mset ap \<and>
    (\<forall>k. gm_get (ToMap ap) k =
      (if k \<in> art_key ` set ap then Some (filter (\<lambda>a. art_key a = k) ap) else None))"
proof -
  have "mset (gm_range it (ToMap ap)) = mset (ToMap ap)"
    by (rule map_order.range_mset [OF assms ToMap_wf])
  then have "mset (concat (map snd (gm_range it (ToMap ap)))) = mset (concat (map snd (ToMap ap)))"
    by (metis mset_concat mset_map sum_mset_sum_list)
  then have "mset (ToList it (ToMap ap)) = mset ap"
    by (simp add: ToList_def ToMap_def am_add_all_values)
  then show ?thesis by (auto simp: ToMap_get Let_def filter_empty_conv)
qed

definition art_of :: "default_package \<Rightarrow> artifact" where
  "art_of p = (NewPackageArtifact [])\<lparr>aRuntime := Some p, aCompileSpec := Some (Some p)\<rparr>"

lemma art_of_sel [simp]:
  "GetPackage (art_of p) = Some p" "art_pkg (art_of p) = p" "art_key (art_of p) = PackageName p"
  "aRuntime (art_of p) = Some p" "spec_pkg (art_of p) = Some p"
  by (simp_all add: art_of_def NewPackageArtifact_def GetPackage_def art_pkg_def art_key_def spec_pkg_def)

theorem ToMap_ToList_witness:
  "mset (ToList rev (ToMap [art_of (NewPackageWithCatThin ''c'' ''a'' ''1''),
      art_of (NewPackageWithCatThin ''c'' ''b'' ''1'')])) =
   {#art_of (NewPackageWithCatThin ''c'' ''a'' ''1''), art_of (NewPackageWithCatThin ''c'' ''b'' ''1'')#}"
  using ToMap_ToList [OF rev_order.map_order_axioms, of "[art_of (NewPackageWithCatThin ''c'' ''a'' ''1''),
      art_of (NewPackageWithCatThin ''c'' ''b'' ''1'')]"] by simp

lemma merge_differs_iff: "\<not> merge_differs new old \<longleftrightarrow> new = [] \<and> old = []"
  by (auto simp: merge_differs_def)

text \<open>
  after \<open>MergeDefinition\<close> the package of the artifact has the requires, conflicts, provides and
  annotations of the definition, whichever of the runtime package and the compilation spec the
  artifact has; nothing else of it changes.  The one exception is the annotations of an artifact
  with only a spec: they stay when one of the two maps is nil.  The merge only panics on an artifact
  with a runtime package and no package in its spec.
\<close>

theorem MergeDefinition_spec:
  "case MergeDefinition dp a of
     Panics _ \<Rightarrow> aRuntime a \<noteq> None \<and> spec_pkg a = None
   | Returns b \<Rightarrow>
       GetPackage a \<noteq> None \<longrightarrow>
       PackageRequires (art_pkg b) = PackageRequires dp \<and>
       PackageConflicts (art_pkg b) = PackageConflicts dp \<and>
       Provides (art_pkg b) = Provides dp \<and>
       (aRuntime a \<noteq> None \<or> Annotations (pkg_data dp) \<noteq> None \<and> Annotations (pkg_data (art_pkg a)) \<noteq> None \<longrightarrow>
         pAnnotations (art_pkg b) = pAnnotations dp) \<and>
       PackageName (art_pkg b) = PackageName (art_pkg a) \<and> pVersion (art_pkg b) = pVersion (art_pkg a) \<and>
       pRepository (art_pkg b) = pRepository (art_pkg a)"
proof (cases "aRuntime a")
  case None
  then show ?thesis
    by (auto simp: MergeDefinition_def merge_spec_def Let_def art_pkg_def GetPackage_def spec_pkg_def
        set_annotations_def PackageName_def merge_differs_iff split: option.splits)
next
  case (Some rt)
  show ?thesis
  proof (cases "spec_pkg a")
    case None
    then show ?thesis using Some
      by (auto simp: MergeDefinition_def merge_runtime_def merge_field_def merge_differs_iff
          GetPackage_def art_pkg_def)
  next
    case spec: (Some sp)
    have "spec_pkg (a\<lparr>aRuntime := x, aCompileSpec := Some (Some y)\<rparr>) = Some y" for x y
      by (simp add: spec_pkg_def)
    then show ?thesis using Some spec
      by (auto simp: MergeDefinition_def merge_runtime_def merge_field_def merge_differs_iff
          GetPackage_def art_pkg_def set_annotations_def PackageName_def)
  qed
qed

theorem MergeDefinition_spec_witness:
  "\<exists>b. MergeDefinition (NewPackageWithCat ''c'' ''a'' ''1'' [NewPackageWithCatThin ''c'' ''d'' ''>=1''] [])
      (art_of (NewPackageWithCatThin ''c'' ''a'' ''1'')) = Returns b \<and>
    PackageRequires (art_pkg b) = [NewPackageWithCatThin ''c'' ''d'' ''>=1'']"
  using MergeDefinition_spec [where dp = "NewPackageWithCat ''c'' ''a'' ''1'' [NewPackageWithCatThin ''c'' ''d'' ''>=1''] []"
      and a = "art_of (NewPackageWithCatThin ''c'' ''a'' ''1'')"]
  by (auto simp: NewPackageWithCat_def split: panics.splits)

lemma compare_loop_None:
  "compare_loop c es = None \<longleftrightarrow> (\<forall>t s v. (t, s) \<in> set es \<longrightarrow> gm_get c t = Some v \<longrightarrow> v = s)"
proof (induction c es rule: compare_loop.induct)
  case (2 c t sm es)
  then show ?case by (cases "gm_get c t") (simp_all, blast+)
qed simp

text \<open>
  two sets of checksums agree exactly when no algorithm they share has different sums; the
  answer does not depend on the order of the map nor on which of the two is given first.
\<close>

theorem Compare_iff:
  assumes "map_order it" "map_order it'"
  shows "(Compare it c d = None \<longleftrightarrow>
      (\<forall>t v s. gm_get c t = Some v \<longrightarrow> gm_get d t = Some s \<longrightarrow> v = s)) \<and>
    Compare it c d = Compare it' d c"
proof -
  have iff: "Compare it c d = None \<longleftrightarrow>
      (\<forall>t v s. gm_get c t = Some v \<longrightarrow> gm_get d t = Some s \<longrightarrow> v = s)" if "map_order it" for it c d
    by (auto simp: Compare_def compare_loop_None map_order.range_iff [OF that])
  have "compare_loop c es \<noteq> None \<Longrightarrow> compare_loop c es = Some ''Checksum mismsatch''" for c es
    by (induction c es rule: compare_loop.induct) (auto split: option.splits if_splits)
  then have "Compare it c d \<noteq> None \<Longrightarrow> Compare it c d = Some ''Checksum mismsatch''" for it c d
    by (simp add: Compare_def)
  then show ?thesis using iff [OF assms(1), of c d] iff [OF assms(2), of d c] by metis
qed

theorem Compare_iff_witness:
  "Compare rev [(''sha256'', ''ab'')] [(''sha256'', ''ab''), (''md5'', ''x'')] = None"
  using Compare_iff [OF rev_order.map_order_axioms id_order.map_order_axioms,
      of "[(''sha256'', ''ab'')]" "[(''sha256'', ''ab''), (''md5'', ''x'')]"]
  by (simp split: if_splits)

subsection \<open>Sorted candidates\<close>

text \<open>
  \<open>version_rank L vk A\<close>: on the artifacts \<open>A\<close> the comparisons of the library are those of a number,
  so no two versions are incomparable.
\<close>

definition version_rank :: "lib \<Rightarrow> (artifact \<Rightarrow> int) \<Rightarrow> artifact set \<Rightarrow> bool" where
  "version_rank L vk A \<longleftrightarrow>
     (\<forall>a\<in>A. ok (art_gentoo L a)) \<and>
     (\<forall>a\<in>A. \<forall>b\<in>A. gp_Equal L (the_gentoo L a) (the_gentoo L b) = Inr (vk a = vk b) \<and>
        gp_LessThan L (the_gentoo L a) (the_gentoo L b) = Inr (vk a < vk b))"

abbreviation art_prio :: "lib \<Rightarrow> int gomap \<Rightarrow> artifact \<Rightarrow> int" where
  "art_prio L prios a \<equiv> repo_prio prios (gpRepository (the_gentoo L a))"

lemma version_repo_less_key:
  assumes "version_rank L vk A" "a \<in> A" "b \<in> A"
  shows "version_repo_less L prios rv (the_gentoo L a) (the_gentoo L b) \<longleftrightarrow>
    (if rv then (- vk a, - art_prio L prios a) < (- vk b, - art_prio L prios b)
     else (vk a, art_prio L prios a) < (vk b, art_prio L prios b))"
  using assms by (auto simp: version_repo_less_def version_rank_def less_prod_def Let_def)

lemma version_repo_less_weak:
  assumes "version_rank L vk A"
  shows "strict_weak (\<lambda>a b. version_repo_less L prios rv (the_gentoo L a) (the_gentoo L b)) A"
proof (cases rv)
  case True
  show ?thesis
    by (rule strict_weak_key [where f = "\<lambda>a. (- vk a, - art_prio L prios a)"])
       (simp add: version_repo_less_key [OF assms] True)
next
  case False
  show ?thesis
    by (rule strict_weak_key [where f = "\<lambda>a. (vk a, art_prio L prios a)"])
       (simp add: version_repo_less_key [OF assms] False)
qed

lemma version_rank_pair:
  assumes "b \<noteq> a" "ok (art_gentoo L a)" "ok (art_gentoo L b)"
    and "gp_Equal L (the_gentoo L a) (the_gentoo L a) = Inr True"
    "gp_Equal L (the_gentoo L a) (the_gentoo L b) = Inr False"
    "gp_Equal L (the_gentoo L b) (the_gentoo L a) = Inr False"
    "gp_Equal L (the_gentoo L b) (the_gentoo L b) = Inr True"
    "gp_LessThan L (the_gentoo L a) (the_gentoo L a) = Inr False"
    "gp_LessThan L (the_gentoo L a) (the_gentoo L b) = Inr True"
    "gp_LessThan L (the_gentoo L b) (the_gentoo L a) = Inr False"
    "gp_LessThan L (the_gentoo L b) (the_gentoo L b) = Inr False"
  shows "version_rank L (\<lambda>x. if x = a then 0 else 1) (set [a, b])"
  using assms by (simp add: version_rank_def)

text \<open>
  \<open>SortArtifactList4VersionAndRepos\<close> in reverse, as the solver calls it, returns the artifacts it
  was given from the highest version down, those of the same version from the repository with the
  greatest priority number down (a repository that is not known counts as 100), and does not panic.
\<close>

theorem SortArtifactList4VersionAndRepos_sorted:
  assumes "go_sort srt" "version_rank L vk (set arts)"
  shows "\<exists>bs. SortArtifactList4VersionAndRepos L srt prios True arts = Returns bs \<and>
    mset bs = mset arts \<and>
    sorted_wrt (\<lambda>a b. vk b < vk a \<or> vk a = vk b \<and> art_prio L prios b \<le> art_prio L prios a) bs"
proof -
  let ?lt = "\<lambda>a b. version_repo_less L prios True (the_gentoo L a) (the_gentoo L b)"
  have "\<not> list_ex (\<lambda>a. isl (art_gentoo L a)) arts"
    using assms(2) by (auto simp: version_rank_def list_ex_iff)
  then have ret: "SortArtifactList4VersionAndRepos L srt prios True arts = Returns (srt ?lt arts)"
    by (simp add: SortArtifactList4VersionAndRepos_def)
  have "sorted_wrt (\<lambda>x y. \<not> ?lt y x) (srt ?lt arts)"
    by (rule go_sort.srt_sorted [OF assms(1) version_repo_less_weak [OF assms(2)]])
  then have "sorted_wrt (\<lambda>a b. vk b < vk a \<or> vk a = vk b \<and> art_prio L prios b \<le> art_prio L prios a) (srt ?lt arts)"
    by (rule sorted_wrt_mono_rel [rotated])
       (auto simp: go_sort.srt_set [OF assms(1)] version_repo_less_key [OF assms(2)] less_prod_def)
  with ret show ?thesis by (auto simp: go_sort.srt_mset [OF assms(1)])
qed

definition reqs_key :: "int gomap \<Rightarrow> artifact \<Rightarrow> int \<times> nat \<times> string" where
  "reqs_key prios a =
     (repo_prio prios (pRepository (art_pkg a)), length (PackageRequires (art_pkg a)), PackageName (art_pkg a))"

lemma repos_requires_less_key: "repos_requires_less prios a b \<longleftrightarrow> reqs_key prios a < reqs_key prios b"
  by (auto simp: repos_requires_less_def reqs_key_def HasRequires_def Let_def less_prod_def)

lemma repos_requires_less_weak: "strict_weak (repos_requires_less prios) A"
  by (rule strict_weak_key [where f = "reqs_key prios"]) (rule repos_requires_less_key)

lemma requires_repo_less_weak: "strict_weak (requires_repo_less prios) A"
  by (rule strict_weak_key [where f = "\<lambda>a. (length (PackageRequires (art_pkg a)), repo_prio prios (pRepository (art_pkg a)))"])
     (auto simp: requires_repo_less_def HasRequires_def Let_def less_prod_def)

text \<open>
  \<open>SortArtifactList4ReposAndRequires\<close> orders the artifacts by repository priority, then by number
  of requires, then by name: the first artifact comes from a repository with the least priority
  number.
\<close>

theorem SortArtifactList4ReposAndRequires_sorted:
  assumes "go_sort srt"
  shows "mset (SortArtifactList4ReposAndRequires srt prios arts) = mset arts \<and>
    sorted (map (reqs_key prios) (SortArtifactList4ReposAndRequires srt prios arts))"
proof -
  have "sorted_wrt (\<lambda>x y. \<not> repos_requires_less prios y x) (srt (repos_requires_less prios) arts)"
    by (rule go_sort.srt_sorted [OF assms repos_requires_less_weak])
  then show ?thesis
    by (simp add: SortArtifactList4ReposAndRequires_def go_sort.srt_mset [OF assms]
        repos_requires_less_key not_less sorted_map)
qed

theorem SortArtifactList4ReposAndRequires_sorted_witness:
  "sorted (map (reqs_key [(''main'', 10)]) (SortArtifactList4ReposAndRequires insertion_sort [(''main'', 10)]
     [art_of (NewPackageWithCatThin ''c'' ''b'' ''1''), art_of (NewPackageWithCatThin ''c'' ''a'' ''1'')]))"
  using SortArtifactList4ReposAndRequires_sorted [OF isort.go_sort_axioms] by blast

theorem SortArtifactList4VersionAndRepos_sorted_witness:
  "\<exists>bs. SortArtifactList4VersionAndRepos plain_lib insertion_sort [] True
      [art_of (NewPackageWithCatThin ''c'' ''a'' ''1.9''), art_of (NewPackageWithCatThin ''c'' ''a'' ''1.10'')]
      = Returns bs \<and> length bs = 2"
proof -
  let ?a = "art_of (NewPackageWithCatThin ''c'' ''a'' ''1.9'')"
  let ?b = "art_of (NewPackageWithCatThin ''c'' ''a'' ''1.10'')"
  have "version_rank plain_lib (\<lambda>x. if x = ?a then 0 else 1) (set [?a, ?b])"
    by (rule version_rank_pair; code_simp)
  from SortArtifactList4VersionAndRepos_sorted [OF isort.go_sort_axioms this, of "[]"]
  obtain bs where bs: "SortArtifactList4VersionAndRepos plain_lib insertion_sort [] True [?a, ?b] = Returns bs"
    and m: "mset bs = mset [?a, ?b]" by blast
  have "length bs = 2" using mset_eq_length [OF m] by (simp only: list.size)
  with bs show ?thesis by blast
qed

end
