(* ===== verification/SolverOrder.thy ===== *)
theory SolverOrder
  imports Artifact
begin

text \<open>
  The order of the operations, \<open>pkg/v2/solver/solver.go\<close>: \<open>createThinPkgsPlist\<close>, the sort of the
  packages by their requires (\<open>sortPkgsThinArr\<close> with the cycle detector \<open>depCycleDetector\<close> and
  \<open>recursiveCheckDeps\<close>) and \<open>OrderOperations\<close>; \<open>Operation\<close> and \<open>SortOperationsByName\<close> of \<open>common.go\<close>.

  The queue of the sort is a map of pointers; the detector changes the requires of the packages it
  points to.  A pointer of the queue is known by its key, and a change through it updates the map.
  The loops that range over the queue take the order of the map from \<open>it\<close>, a function of the number
  of the range so that two ranges over the same map may differ.
\<close>

section \<open>Thin packages of a pack\<close>

definition createThinPkgsPlist :: "artifact list \<Rightarrow> arts_map \<Rightarrow> package_thin list" where
  "createThinPkgsPlist p2i p2imap =
     map (\<lambda>a. let pt = ToPackageThin (art_pkg a)
              in PackageThin (tName pt) (tCategory pt) (tVersion pt)
                   (filter (\<lambda>r. gm_has p2imap (thin_PackageName r)) (tRequires pt))
                   (tConflicts pt) (tProvides pt)) p2i"

section \<open>The detector of dependency cycles\<close>

text \<open>
  \<open>recursiveCheckDeps\<close> follows the requires of a package through the queue with the stack of the
  packages it has entered, which is never popped.  The first argument of the two functions is the
  depth of the recursion left; None is a recursion that went deeper.
\<close>

type_synonym thin_queue = "package_thin gomap"

fun recursiveCheckDeps ::
      "bool gomap \<Rightarrow> nat \<Rightarrow> package_thin \<Rightarrow> package_thin list \<times> thin_queue \<Rightarrow>
       (package_thin list \<times> thin_queue) res option"
  and requires_loop ::
      "bool gomap \<Rightarrow> nat \<Rightarrow> package_thin \<Rightarrow> package_thin list \<Rightarrow> package_thin list \<times> thin_queue \<Rightarrow>
       (package_thin list \<times> thin_queue) res option" where
  "recursiveCheckDeps pinject 0 p st = None"
| "recursiveCheckDeps pinject (Suc n) p (stack, queue) =
     (if PackageThinIsInList p stack then
        (let p' = BreakCyclesOnRequires stack p
         in requires_loop pinject n p' (tRequires p') (stack @ [p'], gm_set (thin_PackageName p) p' queue))
      else requires_loop pinject n p (tRequires p) (stack @ [p], queue))"
| "requires_loop pinject n p [] st = Some (Inr st)"
| "requires_loop pinject n p (r # rs) (stack, queue) =
     (case gm_get queue (thin_PackageName r) of
        None \<Rightarrow>
          if \<not> gm_has pinject (thin_PackageName r) then
            Some (Inl (''['' @ thin_HumanReadableString p @ ''] Error on retrieve requires '' @
                       thin_PackageName r @ '' on queue''))
          else requires_loop pinject n p rs (stack, queue)
      | Some rq \<Rightarrow>
         (case recursiveCheckDeps pinject n rq (stack, queue) of
            None \<Rightarrow> None
          | Some (Inl e) \<Rightarrow> Some (Inl e)
          | Some (Inr st) \<Rightarrow> requires_loop pinject n p rs st))"

definition unresolved :: "bool gomap \<Rightarrow> thin_queue \<Rightarrow> package_thin \<Rightarrow> package_thin option" where
  "unresolved pinject queue p =
     find (\<lambda>r. \<not> gm_has pinject (thin_PackageName r) \<and> \<not> gm_has queue (thin_PackageName r)) (tRequires p)"

text \<open>
  The loop of \<open>depCycleDetector\<close> over the sorted elements; an element is the pointer under its key,
  read when its turn comes.
\<close>

fun detector_loop ::
    "bool gomap \<Rightarrow> nat \<Rightarrow> package_thin list \<Rightarrow> thin_queue \<Rightarrow> thin_queue res option" where
  "detector_loop pinject n [] queue = Some (Inr queue)"
| "detector_loop pinject n (e # es) queue =
     (let p = (case gm_get queue (thin_PackageName e) of Some p \<Rightarrow> p | None \<Rightarrow> e)
      in case recursiveCheckDeps pinject n p ([], queue) of
           None \<Rightarrow> None
         | Some (Inl e') \<Rightarrow> Some (Inl e')
         | Some (Inr (stack, queue')) \<Rightarrow>
            (let p' = (case gm_get queue' (thin_PackageName e) of Some p' \<Rightarrow> p' | None \<Rightarrow> p)
             in case unresolved pinject queue' p' of
                  Some r \<Rightarrow> Some (Inl (''['' @ thin_PackageName p' @ ''] Found dependency not resolvable '' @
                                      thin_HumanReadableString r))
                | None \<Rightarrow> detector_loop pinject n es queue'))"

type_synonym thin_sort = "(package_thin \<Rightarrow> package_thin \<Rightarrow> bool) \<Rightarrow> package_thin list \<Rightarrow> package_thin list"

definition depCycleDetector ::
    "thin_sort \<Rightarrow> (string list \<Rightarrow> string list) \<Rightarrow> nat \<Rightarrow> bool gomap \<Rightarrow> thin_queue \<Rightarrow> thin_queue res option" where
  "depCycleDetector srt it n pinject queue =
     detector_loop pinject n (SortPackageThinList4Requires srt (map snd (gm_range it queue))) queue"

section \<open>The sort by requires\<close>

definition all_injected :: "bool gomap \<Rightarrow> package_thin \<Rightarrow> bool" where
  "all_injected pinject p = list_all (\<lambda>r. gm_has pinject (thin_PackageName r)) (tRequires p)"

text \<open>
  The range over the queue of the first loop: a package whose requires are all injected is appended
  and its key recorded; the packages injected on the way count at once.
\<close>

type_synonym sort_state = "package_thin list \<times> bool gomap \<times> thin_queue"

fun drain_loop ::
    "(string \<times> package_thin) list \<Rightarrow> package_thin list \<Rightarrow> bool gomap \<Rightarrow> string list \<Rightarrow>
     package_thin list \<times> bool gomap \<times> string list" where
  "drain_loop [] ans pinject rm = (ans, pinject, rm)"
| "drain_loop ((k, pr) # es) ans pinject rm =
     (if all_injected pinject pr
      then drain_loop es (ans @ [pr]) (gm_set (thin_PackageName pr) True pinject) (rm @ [k])
      else drain_loop es ans pinject rm)"

definition first_step ::
    "(string list \<Rightarrow> string list) \<Rightarrow> package_thin \<Rightarrow> sort_state \<Rightarrow> sort_state" where
  "first_step it p st =
     (case st of (ans, pinject, queue) \<Rightarrow>
        if \<not> thin_HasRequires p \<or> all_injected pinject p then
          (case drain_loop (gm_range it queue) (ans @ [p]) (gm_set (thin_PackageName p) True pinject) [] of
             (ans', pinject', rm) \<Rightarrow> (ans', pinject', gm_del_all rm queue))
        else (ans, pinject, gm_set (thin_PackageName p) p queue))"

fun first_loop ::
    "(nat \<Rightarrow> string list \<Rightarrow> string list) \<Rightarrow> nat \<Rightarrow> package_thin list \<Rightarrow> sort_state \<Rightarrow> sort_state" where
  "first_loop it i [] st = st"
| "first_loop it i (p # ps) st = first_loop it (Suc i) ps (first_step (it i) p st)"

text \<open>
  The test of the second loop: the first requirement that is not injected decides, and it passes when
  the package of that name in the queue requires \<open>p\<close> back.
\<close>

fun second_ok :: "bool gomap \<Rightarrow> thin_queue \<Rightarrow> package_thin \<Rightarrow> package_thin list \<Rightarrow> bool" where
  "second_ok pinject queue p [] = True"
| "second_ok pinject queue p (r # rs) =
     (if \<not> gm_has pinject (thin_PackageName r) then
        (case gm_get queue (thin_PackageName r) of
           Some rr \<Rightarrow> RequirePackage rr p
         | None \<Rightarrow> False)
      else second_ok pinject queue p rs)"

fun second_drain ::
    "thin_queue \<Rightarrow> (string \<times> package_thin) list \<Rightarrow> package_thin list \<Rightarrow> bool gomap \<Rightarrow> string list \<Rightarrow>
     package_thin list \<times> bool gomap \<times> string list" where
  "second_drain queue [] ans pinject rm = (ans, pinject, rm)"
| "second_drain queue ((k, p) # es) ans pinject rm =
     (if second_ok pinject queue p (tRequires p)
      then second_drain queue es (ans @ [p]) (gm_set (thin_PackageName p) True pinject) (rm @ [k])
      else second_drain queue es ans pinject rm)"

text \<open>
  The second loop, with its three control variables; \<open>fuel\<close> bounds its rounds and \<open>n\<close> the depth of
  the detector.
\<close>

definition drain_round ::
    "(string list \<Rightarrow> string list) \<Rightarrow> sort_state \<Rightarrow> sort_state" where
  "drain_round it st =
     (case st of (ans, pinject, queue) \<Rightarrow>
        (case second_drain queue (gm_range it queue) ans pinject [] of
           (ans', pinject', rm) \<Rightarrow> (ans', pinject', gm_del_all rm queue)))"

fun second_loop ::
    "thin_sort \<Rightarrow> (nat \<Rightarrow> string list \<Rightarrow> string list) \<Rightarrow> nat \<Rightarrow> nat \<Rightarrow> nat \<Rightarrow> nat \<Rightarrow> nat \<Rightarrow> bool \<Rightarrow>
     sort_state \<Rightarrow> package_thin list res option" where
  "second_loop srt it n 0 i lastQueueSize counter detectorExecuted st = None"
| "second_loop srt it n (Suc fuel) i lastQueueSize counter detectorExecuted (ans, pinject, queue) =
     (if length queue = 0 then Some (Inr ans)
      else if length queue = lastQueueSize then
        (if counter > 3 then
           (if detectorExecuted then
              Some (Inl (''Unexpected error on sort queue of size '' @ show_nat (length queue)))
            else (case depCycleDetector srt (it (Suc i)) n pinject queue of
                    None \<Rightarrow> None
                  | Some (Inl e) \<Rightarrow> Some (Inl e)
                  | Some (Inr queue') \<Rightarrow>
                      second_loop srt it n fuel (i + 2) lastQueueSize counter True
                        (drain_round (it i) (ans, pinject, queue'))))
         else second_loop srt it n fuel (i + 2) lastQueueSize (Suc counter) detectorExecuted
                (drain_round (it i) (ans, pinject, queue)))
      else second_loop srt it n fuel (i + 2) (length queue) 0 detectorExecuted
             (drain_round (it i) (ans, pinject, queue)))"

definition sortPkgsThinArr ::
    "thin_sort \<Rightarrow> (nat \<Rightarrow> string list \<Rightarrow> string list) \<Rightarrow> nat \<Rightarrow> nat \<Rightarrow> package_thin list \<Rightarrow>
     package_thin list res option" where
  "sortPkgsThinArr srt it n fuel refarr =
     (let sorted = SortPackageThinList4Requires srt refarr;
          st = first_loop it 0 sorted ([], [], [])
      in if length (snd (snd st)) > 0
         then second_loop srt it n fuel (length sorted) 0 0 False st
         else Some (Inr (fst st)))"

end
