(* ===== verification/SolverSort.thy ===== *)
theory SolverSort
  imports SolverOrder
begin

text \<open>
  What \<open>sortPkgsThinArr\<close> guarantees.  Both of its passes over the queue are \<open>drain_gen\<close> with their
  tests, \<open>sort_inv\<close> is the invariant of its state, and \<open>deps_ordered\<close> the order it is there for.
  With acyclic requires the order is right, nothing is lost and the detector never runs; in general
  the loop ends within \<open>7 * length + 7\<close> rounds, the detector within a recursion depth of twice the
  queue, and a result names every package once.
\<close>


section \<open>One pass over the queue\<close>

abbreviation PN :: "package_thin \<Rightarrow> string" where "PN \<equiv> thin_PackageName"

text \<open>Both passes are the same loop with a different test.\<close>

fun drain_gen ::
    "(bool gomap \<Rightarrow> package_thin \<Rightarrow> bool) \<Rightarrow> (string \<times> package_thin) list \<Rightarrow> bool gomap \<Rightarrow>
     (string \<times> package_thin) list" where
  "drain_gen okf [] pin = []"
| "drain_gen okf ((k, p) # es) pin =
     (if okf pin p then (k, p) # drain_gen okf es (gm_set (PN p) True pin) else drain_gen okf es pin)"

fun inject_all :: "package_thin list \<Rightarrow> bool gomap \<Rightarrow> bool gomap" where
  "inject_all [] pin = pin"
| "inject_all (p # ps) pin = inject_all ps (gm_set (PN p) True pin)"

lemma drain_loop_gen:
  "drain_loop es ans pin rm =
     (let sel = drain_gen all_injected es pin
      in (ans @ map snd sel, inject_all (map snd sel) pin, rm @ map fst sel))"
  by (induction es ans pin rm rule: drain_loop.induct) (simp_all add: Let_def)

lemma second_drain_gen:
  "second_drain queue es ans pin rm =
     (let sel = drain_gen (\<lambda>pin p. second_ok pin queue p (tRequires p)) es pin
      in (ans @ map snd sel, inject_all (map snd sel) pin, rm @ map fst sel))"
  by (induction queue es ans pin rm rule: second_drain.induct) (simp_all add: Let_def)

lemma inject_all_has [simp]: "gm_has (inject_all ps pin) k \<longleftrightarrow> k \<in> PN ` set ps \<or> gm_has pin k"
  by (induction ps pin rule: inject_all.induct) auto

lemma drain_gen_set: "set (drain_gen okf es pin) \<subseteq> set es"
  by (induction okf es pin rule: drain_gen.induct) auto

lemma drain_gen_distinct:
  "distinct (map fst es) \<Longrightarrow> distinct (map fst (drain_gen okf es pin))"
  using drain_gen_set by (induction okf es pin rule: drain_gen.induct) fastforce+

lemma drain_gen_Nil: "drain_gen okf es pin = [] \<Longrightarrow> (k, p) \<in> set es \<Longrightarrow> \<not> okf pin p"
  by (induction okf es pin rule: drain_gen.induct) (auto split: if_splits)

text \<open>Every package comes after what it requires, given the names \<open>D\<close> before the list.\<close>

fun deps_ordered :: "string set \<Rightarrow> package_thin list \<Rightarrow> bool" where
  "deps_ordered D [] = True"
| "deps_ordered D (p # ps) =
     ((\<forall>r\<in>set (tRequires p). PN r \<in> D) \<and> deps_ordered (insert (PN p) D) ps)"

lemma deps_ordered_append:
  "deps_ordered D (xs @ ys) \<longleftrightarrow> deps_ordered D xs \<and> deps_ordered (PN ` set xs \<union> D) ys"
  by (induction xs arbitrary: D) auto

lemma drain_gen_ordered:
  assumes "\<forall>(k, p)\<in>set es. \<forall>pin. okf pin p \<longrightarrow> all_injected pin p"
  shows "deps_ordered {k. gm_has pin k} (map snd (drain_gen okf es pin))"
  using assms
proof (induction okf es pin rule: drain_gen.induct)
  case (2 okf k p es pin)
  have "{k. gm_has (gm_set (PN p) True pin) k} = insert (PN p) {k. gm_has pin k}" by auto
  then show ?case using 2 by (auto simp: all_injected_def list_all_iff)
qed simp

section \<open>The invariant of the sort\<close>

text \<open>The package \<open>p\<close> is \<open>q\<close> with some requires left out.\<close>

definition weaker :: "package_thin \<Rightarrow> package_thin \<Rightarrow> bool" where
  "weaker p q \<longleftrightarrow> tName p = tName q \<and> tCategory p = tCategory q \<and> tVersion p = tVersion q \<and>
     tConflicts p = tConflicts q \<and> tProvides p = tProvides q \<and> set (tRequires p) \<subseteq> set (tRequires q)"

lemma weaker_refl [simp]: "weaker p p"
  by (simp add: weaker_def)

lemma weaker_trans: "weaker p q \<Longrightarrow> weaker q r \<Longrightarrow> weaker p r"
  by (auto simp: weaker_def)

lemma weaker_PN: "weaker p q \<Longrightarrow> PN p = PN q"
  by (simp add: weaker_def thin_PackageName_def)

definition sort_inv :: "(package_thin \<Rightarrow> package_thin \<Rightarrow> bool) \<Rightarrow> package_thin set \<Rightarrow> package_thin list \<Rightarrow> sort_state \<Rightarrow> bool" where
  "sort_inv R S rest st \<longleftrightarrow> (case st of (ans, pin, queue) \<Rightarrow>
     gm_wf queue \<and> distinct (map PN ans) \<and> distinct (map PN rest) \<and>
     PN ` set ans \<inter> PN ` set rest = {} \<and>
     (\<forall>k. gm_has queue k \<longrightarrow> k \<notin> PN ` set ans \<and> k \<notin> PN ` set rest) \<and>
     (\<forall>k. gm_has pin k \<longleftrightarrow> k \<in> PN ` set ans) \<and>
     PN ` S = PN ` set ans \<union> {k. gm_has queue k} \<union> PN ` set rest \<and>
     (\<forall>k p. gm_get queue k = Some p \<longrightarrow> PN p = k \<and> (\<exists>q\<in>S. R p q)) \<and>
     (\<forall>p\<in>set ans \<union> set rest. \<exists>q\<in>S. R p q))"

lemma sort_invD:
  assumes "sort_inv R S rest (ans, pin, queue)"
  shows "gm_wf queue" "distinct (map PN ans)" "distinct (map PN rest)"
    "PN ` set ans \<inter> PN ` set rest = {}"
    "\<And>k. gm_has queue k \<Longrightarrow> k \<notin> PN ` set ans" "\<And>k. gm_has queue k \<Longrightarrow> k \<notin> PN ` set rest"
    "\<And>k. gm_has pin k \<longleftrightarrow> k \<in> PN ` set ans"
    "PN ` S = PN ` set ans \<union> {k. gm_has queue k} \<union> PN ` set rest"
    "\<And>k p. gm_get queue k = Some p \<Longrightarrow> PN p = k"
    "\<And>k p. gm_get queue k = Some p \<Longrightarrow> \<exists>q\<in>S. R p q"
    "\<And>p. p \<in> set ans \<Longrightarrow> \<exists>q\<in>S. R p q" "\<And>p. p \<in> set rest \<Longrightarrow> \<exists>q\<in>S. R p q"
  using assms unfolding sort_inv_def prod.case by (elim conjE; (assumption | simp))+

lemma sort_invI:
  assumes "gm_wf queue" "distinct (map PN ans)" "distinct (map PN rest)"
    "PN ` set ans \<inter> PN ` set rest = {}"
    "\<And>k. gm_has queue k \<Longrightarrow> k \<notin> PN ` set ans" "\<And>k. gm_has queue k \<Longrightarrow> k \<notin> PN ` set rest"
    "\<And>k. gm_has pin k \<longleftrightarrow> k \<in> PN ` set ans"
    "PN ` S = PN ` set ans \<union> {k. gm_has queue k} \<union> PN ` set rest"
    "\<And>k p. gm_get queue k = Some p \<Longrightarrow> PN p = k"
    "\<And>k p. gm_get queue k = Some p \<Longrightarrow> \<exists>q\<in>S. R p q"
    "\<And>p. p \<in> set ans \<Longrightarrow> \<exists>q\<in>S. R p q" "\<And>p. p \<in> set rest \<Longrightarrow> \<exists>q\<in>S. R p q"
  shows "sort_inv R S rest (ans, pin, queue)"
  unfolding sort_inv_def prod.case
  by (intro conjI allI impI ballI; (elim UnE)?; (rule assms; assumption)?)

lemma sort_inv_pass:
  assumes inv: "sort_inv R S rest (ans, pin, queue)"
    and sel: "\<forall>(k, p)\<in>set sel. gm_get queue k = Some p" "distinct (map fst sel)"
  shows "sort_inv R S rest (ans @ map snd sel, inject_all (map snd sel) pin, gm_del_all (map fst sel) queue)"
proof -
  note D = sort_invD [OF inv]
  have pn: "PN (snd x) = fst x" if "x \<in> set sel" for x
    using that sel(1) D(9) by (cases x) auto
  then have map_pn: "map PN (map snd sel) = map fst sel" by simp
  then have set_pn: "PN ` set (map snd sel) = fst ` set sel" by (metis list.set_map)
  have in_queue: "gm_has queue k" if "k \<in> fst ` set sel" for k
    using that sel(1) by (auto simp: gm_has_def)
  have has_del: "gm_has (gm_del_all (map fst sel) queue) k \<longleftrightarrow> gm_has queue k \<and> k \<notin> fst ` set sel" for k
    by (simp add: gm_has_def)
  have get_del: "gm_get (gm_del_all (map fst sel) queue) k = Some p \<Longrightarrow> gm_get queue k = Some p" for k p
    by (simp split: if_split_asm)
  have dis: "PN ` set ans \<inter> fst ` set sel = {}" "PN ` set rest \<inter> fst ` set sel = {}"
    using D(5,6) in_queue by blast+
  have sets: "PN ` set (ans @ map snd sel) = PN ` set ans \<union> fst ` set sel"
    using set_pn by (simp add: image_Un)
  have weak: "\<exists>q\<in>S. R p q" if "p \<in> set (map snd sel)" for p
    using that sel(1) D(10) by fastforce
  show ?thesis
  proof (rule sort_invI)
    show "gm_wf (gm_del_all (map fst sel) queue)" using D(1) by simp
    show "distinct (map PN (ans @ map snd sel))"
      using D(2) sel(2) dis(1) unfolding map_append map_pn distinct_append by simp
    show "distinct (map PN rest)" by (rule D(3))
    show "PN ` set (ans @ map snd sel) \<inter> PN ` set rest = {}"
      unfolding sets using D(4) dis(2) by blast
    show "gm_has (inject_all (map snd sel) pin) k \<longleftrightarrow> k \<in> PN ` set (ans @ map snd sel)" for k
      unfolding inject_all_has sets set_pn D(7) by blast
    show "PN ` S = PN ` set (ans @ map snd sel) \<union> {k. gm_has (gm_del_all (map fst sel) queue) k} \<union> PN ` set rest"
      unfolding sets has_del D(8) using in_queue by blast
  next
    fix k assume "gm_has (gm_del_all (map fst sel) queue) k"
    then show "k \<notin> PN ` set (ans @ map snd sel)" "k \<notin> PN ` set rest"
      unfolding sets has_del using D(5,6) by blast+
  next
    fix k p assume "gm_get (gm_del_all (map fst sel) queue) k = Some p"
    then show "PN p = k" "\<exists>q\<in>S. R p q" using get_del D(9,10) by blast+
  next
    fix p assume "p \<in> set (ans @ map snd sel)"
    then show "\<exists>q\<in>S. R p q" using D(11) weak by auto
  qed (rule D(12))
qed

lemma length_gm_del_all:
  assumes "gm_wf m"
  shows "length (gm_del_all ks m) \<le> length m \<and>
    (\<forall>k\<in>set ks. gm_has m k \<longrightarrow> length (gm_del_all ks m) < length m)"
  using assms
proof (induction ks m rule: gm_del_all.induct)
  case (2 k ks m)
  have IH: "length (gm_del_all ks (gm_del k m)) \<le> length (gm_del k m)"
    "\<forall>j\<in>set ks. gm_has (gm_del k m) j \<longrightarrow> length (gm_del_all ks (gm_del k m)) < length (gm_del k m)"
    using 2 by auto
  have len: "length (gm_del k m) = (if gm_has m k then length m - 1 else length m)"
    using 2(2) by (rule length_gm_del)
  have pos: "gm_has m k \<Longrightarrow> 0 < length m" by (cases m) auto
  show ?case
  proof (intro conjI ballI impI)
    show "length (gm_del_all (k # ks) m) \<le> length m" using IH(1) len by (auto split: if_splits)
    fix j assume j: "j \<in> set (k # ks)" "gm_has m j"
    show "length (gm_del_all (k # ks) m) < length m"
    proof (cases "gm_has m k")
      case True
      have "length (gm_del k m) < length m"
        using len pos [OF True] True by (simp del: length_greater_0_conv)
      then show ?thesis using IH(1) by simp
    next
      case False
      then have "j \<noteq> k" using j by auto
      then show ?thesis using IH(2) j len False by auto
    qed
  qed
qed simp

text \<open>The queue seen through the order of a range, and the selection of a pass over it.\<close>

lemma pass_selection:
  assumes "map_order it" "gm_wf queue"
  defines "sel okf pin \<equiv> drain_gen okf (gm_range it queue) pin"
  shows "\<forall>(k, p)\<in>set (sel okf pin). gm_get queue k = Some p"
    and "distinct (map fst (sel okf pin))"
    and "sel okf pin = [] \<Longrightarrow> gm_get queue k = Some p \<Longrightarrow> \<not> okf pin p"
proof -
  show "\<forall>(k, p)\<in>set (sel okf pin). gm_get queue k = Some p"
    using drain_gen_set map_order.range_iff [OF assms(1)] unfolding sel_def by fast
  have "distinct (map fst (gm_range it queue))"
    using assms(2) by (simp add: map_order.range_keys [OF assms(1)] map_order.it_distinct [OF assms(1)]
        gm_keys_def gm_wf_def)
  then show "distinct (map fst (sel okf pin))" unfolding sel_def by (rule drain_gen_distinct)
  assume "sel okf pin = []" "gm_get queue k = Some p"
  then have "drain_gen okf (gm_range it queue) pin = []" "(k, p) \<in> set (gm_range it queue)"
    by (simp_all add: sel_def map_order.range_iff [OF assms(1)])
  then show "\<not> okf pin p" by (rule drain_gen_Nil)
qed

lemma sort_inv_queue:
  assumes inv: "sort_inv R S (p # rest) (ans, pin, queue)"
  shows "sort_inv R S rest (ans, pin, gm_set (PN p) p queue)"
proof -
  note D = sort_invD [OF inv]
  have p: "PN p \<notin> PN ` set rest" "PN p \<notin> PN ` set ans" "\<exists>q\<in>S. R p q"
    using D(3,4) D(12) [of p] by simp_all
  show ?thesis
  proof (rule sort_invI)
    show "PN ` S = PN ` set ans \<union> {k. gm_has (gm_set (PN p) p queue) k} \<union> PN ` set rest"
      unfolding D(8) by auto
    show "gm_wf (gm_set (PN p) p queue)" using D(1) by simp
    show "PN ` set ans \<inter> PN ` set rest = {}" using D(4) by auto
    show "distinct (map PN rest)" using D(3) by simp
  next
    fix k assume "gm_has (gm_set (PN p) p queue) k"
    then have "k = PN p \<or> gm_has queue k" by simp
    moreover have "gm_has queue k \<Longrightarrow> k \<notin> PN ` set rest" using D(6) [of k] by simp
    ultimately show "k \<notin> PN ` set ans" "k \<notin> PN ` set rest"
      using D(5) [of k] p(1,2) by metis+
  next
    fix k q assume "gm_get (gm_set (PN p) p queue) k = Some q"
    then have "k = PN p \<and> q = p \<or> gm_get queue k = Some q" by (simp split: if_split_asm)
    then show "PN q = k" "\<exists>q'\<in>S. R q q'" using D(9,10) p(3) by blast+
  next
    fix q assume "q \<in> set rest"
    then show "\<exists>q'\<in>S. R q q'" using D(12) by simp
  qed (rule D(2) D(7) D(11); assumption?)+
qed

lemma sort_inv_inject:
  assumes inv: "sort_inv R S (p # rest) (ans, pin, queue)"
  shows "sort_inv R S rest (ans @ [p], gm_set (PN p) True pin, queue)"
proof -
  note D = sort_invD [OF inv]
  have p: "PN p \<notin> PN ` set rest" "PN p \<notin> PN ` set ans" "\<exists>q\<in>S. R p q"
    using D(3,4) D(12) [of p] by simp_all
  show ?thesis
  proof (rule sort_invI)
    show "PN ` S = PN ` set (ans @ [p]) \<union> {k. gm_has queue k} \<union> PN ` set rest"
      unfolding D(8) by auto
    show "PN ` set (ans @ [p]) \<inter> PN ` set rest = {}" using D(4) p(1) by auto
    show "distinct (map PN (ans @ [p]))" using D(2) p(2) by auto
    show "distinct (map PN rest)" using D(3) by simp
    show "gm_has (gm_set (PN p) True pin) k \<longleftrightarrow> k \<in> PN ` set (ans @ [p])" for k using D(7) by auto
  next
    fix k assume "gm_has queue k"
    then have "k \<notin> PN ` set (p # rest)" "k \<notin> PN ` set ans" using D(5,6) by blast+
    then show "k \<notin> PN ` set (ans @ [p])" "k \<notin> PN ` set rest" by auto
  next
    fix q assume "q \<in> set (ans @ [p])"
    then show "\<exists>q'\<in>S. R q q'" using D(11) p(3) by auto
  next
    fix q assume "q \<in> set rest"
    then show "\<exists>q'\<in>S. R q q'" using D(12) by simp
  qed (rule D(1) D(9) D(10); assumption?)+
qed

definition injects :: "package_thin \<Rightarrow> bool gomap \<Rightarrow> bool" where
  "injects p pin \<longleftrightarrow> \<not> thin_HasRequires p \<or> all_injected pin p"

lemma injects_iff: "injects p pin \<longleftrightarrow> (\<forall>r\<in>set (tRequires p). gm_has pin (PN r))"
  by (auto simp: injects_def thin_HasRequires_def all_injected_def list_all_iff)

lemma first_step_eq:
  "first_step it p (ans, pin, queue) =
     (if injects p pin then
        (let sel = drain_gen all_injected (gm_range it queue) (gm_set (PN p) True pin)
         in (ans @ [p] @ map snd sel, inject_all (map snd sel) (gm_set (PN p) True pin),
             gm_del_all (map fst sel) queue))
      else (ans, pin, gm_set (PN p) p queue))"
  by (simp add: first_step_def drain_loop_gen Let_def injects_def)

lemma drain_round_eq:
  "drain_round it (ans, pin, queue) =
     (let sel = drain_gen (\<lambda>pin p. second_ok pin queue p (tRequires p)) (gm_range it queue) pin
      in (ans @ map snd sel, inject_all (map snd sel) pin, gm_del_all (map fst sel) queue))"
  by (simp add: drain_round_def second_drain_gen Let_def)

lemma sort_inv_first_step:
  assumes "map_order it" "sort_inv R S (p # rest) (ans, pin, queue)"
  shows "sort_inv R S rest (first_step it p (ans, pin, queue))"
proof (cases "injects p pin")
  case True
  note sel = pass_selection(1,2) [OF assms(1) sort_invD(1) [OF assms(2)],
      of all_injected "gm_set (PN p) True pin"]
  from sort_inv_pass [OF sort_inv_inject [OF assms(2)] sel] True show ?thesis
    by (simp add: first_step_eq Let_def)
next
  case False
  then show ?thesis using sort_inv_queue [OF assms(2)] by (simp add: first_step_eq)
qed

lemma sort_inv_first_loop:
  assumes "\<forall>n. map_order (it n)" "sort_inv R S ps st"
  shows "sort_inv R S [] (first_loop it i ps st)"
  using assms(2)
proof (induction ps arbitrary: i st)
  case (Cons p ps)
  obtain ans pin queue where st: "st = (ans, pin, queue)" by (cases st) auto
  from Cons sort_inv_first_step [of "it i" R S p ps ans pin queue] assms(1) show ?case
    by (simp add: st)
qed simp

lemma sort_inv_round:
  assumes "map_order it" "sort_inv R S rest (ans, pin, queue)"
  shows "sort_inv R S rest (drain_round it (ans, pin, queue))"
  using sort_inv_pass [OF assms(2) pass_selection(1,2) [OF assms(1) sort_invD(1) [OF assms(2)]]]
  by (simp add: drain_round_eq Let_def)

lemma sort_inv_start:
  assumes "distinct (map PN ps)" "set ps = S" "\<And>p. R p p"
  shows "sort_inv R S ps ([], [], [])"
  by (rule sort_invI) (use assms in auto)

section \<open>Acyclic requires\<close>

text \<open>
  The requires stay within the list and have no cycle: \<open>rank\<close> is the length of the longest chain
  under a package, or any other number that goes down along the requires.
\<close>

definition acyclic_requires :: "(string \<Rightarrow> nat) \<Rightarrow> package_thin set \<Rightarrow> bool" where
  "acyclic_requires rank S \<longleftrightarrow>
     (\<forall>p\<in>S. \<forall>r\<in>set (tRequires p). PN r \<in> PN ` S \<and> rank (PN r) < rank (PN p))"

lemma AtomMatches_PN: "thin_AtomMatches x p \<Longrightarrow> PN x = PN p"
  by (auto simp: thin_AtomMatches_def thin_PackageName_def split: if_splits)

lemma RequirePackage_rank:
  assumes "acyclic_requires rank S" "rr \<in> S" "RequirePackage rr p"
  shows "rank (PN p) < rank (PN rr)"
  using assms AtomMatches_PN unfolding RequirePackage_def list_ex_iff acyclic_requires_def by metis

lemma second_ok_acyclic:
  assumes ac: "acyclic_requires rank S" and p: "p \<in> S" and rs: "set rs \<subseteq> set (tRequires p)"
    and q: "\<And>k rr. gm_get queue k = Some rr \<Longrightarrow> PN rr = k \<and> rr \<in> S"
  shows "second_ok pin queue p rs \<longleftrightarrow> (\<forall>r\<in>set rs. gm_has pin (PN r))"
  using rs
proof (induction rs)
  case (Cons r rs)
  have "rank (PN r) < rank (PN p)" using ac p Cons.prems by (auto simp: acyclic_requires_def)
  then have "\<not> RequirePackage rr p" if "gm_get queue (PN r) = Some rr" for rr
    using RequirePackage_rank [OF ac, of rr p] q [OF that] by auto
  then show ?case using Cons by (auto split: option.split)
qed simp

lemma queue_ready:
  assumes ac: "acyclic_requires rank S" and inv: "sort_inv (=) S [] (ans, pin, queue)" and "queue \<noteq> []"
  shows "\<exists>k p. gm_get queue k = Some p \<and> all_injected pin p"
proof -
  note D = sort_invD [OF inv]
  obtain x qs where "queue = x # qs" using assms(3) by (cases queue) auto
  then have "gm_has queue (fst x)" by (simp add: gm_has_iff)
  then obtain k where k: "gm_has queue k" and least: "\<And>j. gm_has queue j \<Longrightarrow> rank k \<le> rank j"
    using ex_has_least_nat [of "gm_has queue" "fst x" rank] by blast
  then obtain p where p: "gm_get queue k = Some p" by (auto simp: gm_has_def)
  have pS: "p \<in> S" and pn: "PN p = k" using D(10) [OF p] D(9) [OF p] by auto
  have "gm_has pin (PN r)" if r: "r \<in> set (tRequires p)" for r
  proof -
    have "PN r \<in> PN ` S" "rank (PN r) < rank k"
      using ac pS r pn by (auto simp: acyclic_requires_def)
    then have "PN r \<in> PN ` set ans" using D(8) least [of "PN r"] by auto
    then show ?thesis using D(7) by simp
  qed
  then show ?thesis using p by (auto simp: all_injected_def list_all_iff)
qed

lemma round_acyclic:
  assumes it: "map_order it" and ac: "acyclic_requires rank S"
    and inv: "sort_inv (=) S [] (ans, pin, queue)" and ord: "deps_ordered {} ans" and "queue \<noteq> []"
  obtains ans' pin' queue' where "drain_round it (ans, pin, queue) = (ans', pin', queue')"
    "sort_inv (=) S [] (ans', pin', queue')" "deps_ordered {} ans'" "length queue' < length queue"
proof -
  note D = sort_invD [OF inv]
  define okf where "okf = (\<lambda>pin p. second_ok pin queue p (tRequires p))"
  define sel where "sel = drain_gen okf (gm_range it queue) pin"
  have vals: "PN p = k \<and> p \<in> S" if "gm_get queue k = Some p" for k p
    using D(9,10) [OF that] by blast
  have okf: "okf pin p \<longleftrightarrow> all_injected pin p" if "p \<in> S" for pin p
    using second_ok_acyclic [OF ac that _ vals] by (simp add: okf_def all_injected_def list_all_iff)
  have "\<forall>(k, p)\<in>set (gm_range it queue). \<forall>pin. okf pin p \<longrightarrow> all_injected pin p"
    using okf vals by (auto simp: map_order.range_iff [OF it])
  then have "deps_ordered {k. gm_has pin k} (map snd sel)" unfolding sel_def by (rule drain_gen_ordered)
  moreover have "{k. gm_has pin k} = PN ` set ans" using D(7) by blast
  ultimately have ord': "deps_ordered {} (ans @ map snd sel)" using ord by (simp add: deps_ordered_append)
  obtain k p where kp: "gm_get queue k = Some p" "all_injected pin p"
    using queue_ready [OF ac inv \<open>queue \<noteq> []\<close>] by blast
  then have "okf pin p" using okf vals by blast
  note ps = pass_selection [OF it D(1), folded sel_def]
  have "sel \<noteq> []" using ps(3) [OF _ kp(1), of okf pin] \<open>okf pin p\<close> unfolding sel_def by blast
  then obtain j y sel' where sel: "sel = (j, y) # sel'" by (cases sel) auto
  then have "gm_get queue j = Some y" using ps(1) [of okf pin] unfolding sel_def [symmetric] by auto
  then have "length (gm_del_all (map fst sel) queue) < length queue"
    using length_gm_del_all [OF D(1), of "map fst sel"] by (auto simp: sel gm_has_def)
  moreover have "drain_round it (ans, pin, queue) =
      (ans @ map snd sel, inject_all (map snd sel) pin, gm_del_all (map fst sel) queue)"
    by (simp add: drain_round_eq Let_def sel_def okf_def)
  moreover have "sort_inv (=) S [] (drain_round it (ans, pin, queue))" by (rule sort_inv_round [OF it inv])
  ultimately show ?thesis using that ord' by simp
qed

lemma second_loop_acyclic:
  assumes it: "\<forall>n. map_order (it n)" and ac: "acyclic_requires rank S"
  shows "sort_inv (=) S [] (ans, pin, queue) \<Longrightarrow> deps_ordered {} ans \<Longrightarrow> length queue < fuel \<Longrightarrow>
    lq \<noteq> length queue \<Longrightarrow>
    \<exists>ans' pin'. second_loop srt it n fuel i lq c d (ans, pin, queue) = Some (Inr ans') \<and>
      sort_inv (=) S [] (ans', pin', []) \<and> deps_ordered {} ans'"
proof (induction fuel arbitrary: i lq c d ans pin queue)
  case (Suc fuel)
  show ?case
  proof (cases "queue = []")
    case True
    then show ?thesis using Suc.prems by auto
  next
    case False
    obtain ans' pin' queue' where st: "drain_round (it i) (ans, pin, queue) = (ans', pin', queue')"
      "sort_inv (=) S [] (ans', pin', queue')" "deps_ordered {} ans'" "length queue' < length queue"
      using round_acyclic [OF it [rule_format] ac Suc.prems(1,2) False] by metis
    have "\<exists>ans'' pin''. second_loop srt it n fuel (i + 2) (length queue) 0 d (ans', pin', queue') = Some (Inr ans'') \<and>
      sort_inv (=) S [] (ans'', pin'', []) \<and> deps_ordered {} ans''"
      using Suc.prems(3) st(4) by (intro Suc.IH [OF st(2,3)]) simp_all
    then show ?thesis using Suc.prems(4) [symmetric] False st(1) by simp
  qed
qed simp

lemma first_step_ordered:
  assumes it: "map_order it" and inv: "sort_inv R S (p # rest) (ans, pin, queue)" and ord: "deps_ordered {} ans"
  shows "deps_ordered {} (fst (first_step it p (ans, pin, queue)))"
proof (cases "injects p pin")
  case True
  note D = sort_invD [OF inv]
  have pin: "{k. gm_has pin k} = PN ` set ans" using D(7) by blast
  let ?pin = "gm_set (PN p) True pin"
  have "deps_ordered {k. gm_has ?pin k} (map snd (drain_gen all_injected (gm_range it queue) ?pin))"
    by (rule drain_gen_ordered) blast
  moreover have "{k. gm_has ?pin k} = PN ` set (ans @ [p])" using pin by auto
  moreover have "deps_ordered {} (ans @ [p])"
    using ord True pin by (auto simp: deps_ordered_append injects_iff)
  ultimately have "deps_ordered {} ((ans @ [p]) @ map snd (drain_gen all_injected (gm_range it queue) ?pin))"
    unfolding deps_ordered_append by simp
  then show ?thesis using True by (simp add: first_step_eq Let_def)
next
  case False
  then show ?thesis using ord by (simp add: first_step_eq)
qed

lemma first_loop_ordered:
  assumes it: "\<forall>n. map_order (it n)"
  shows "sort_inv R S ps st \<Longrightarrow> deps_ordered {} (fst st) \<Longrightarrow> deps_ordered {} (fst (first_loop it i ps st))"
proof (induction ps arbitrary: i st)
  case (Cons p ps)
  obtain ans pin queue where st: "st = (ans, pin, queue)" by (cases st) auto
  have "sort_inv R S ps (first_step (it i) p st)"
    using sort_inv_first_step it Cons.prems(1) unfolding st by blast
  moreover have "deps_ordered {} (fst (first_step (it i) p st))"
    using first_step_ordered it Cons.prems unfolding st by fastforce
  ultimately show ?case using Cons.IH by simp
qed simp

lemma sort_inv_done:
  assumes "sort_inv (=) (set ps) [] (ans, pin, [])" "distinct (map PN ps)"
  shows "mset ans = mset ps"
proof -
  note D = sort_invD [OF assms(1)]
  have "set ans = set ps"
  proof
    show "set ans \<subseteq> set ps" using D(11) by blast
    show "set ps \<subseteq> set ans"
    proof
      fix p assume p: "p \<in> set ps"
      then have "PN p \<in> PN ` set ans" using D(8) by auto
      then obtain q where q: "q \<in> set ans" "PN p = PN q" by auto
      then have "q \<in> set ps" using D(11) by blast
      then have "p = q" using q(2) p assms(2) by (auto simp: distinct_map inj_on_def)
      then show "p \<in> set ans" using q by simp
    qed
  qed
  moreover have "distinct ans" "distinct ps" using D(2) assms(2) by (simp_all add: distinct_map)
  ultimately show ?thesis by (simp add: set_eq_iff_mset_eq_distinct)
qed

lemma queue_length:
  assumes "sort_inv R (set ps) rest (ans, pin, queue)"
  shows "length queue \<le> length ps"
proof -
  note D = sort_invD [OF assms]
  have "set (map fst queue) \<subseteq> PN ` set ps"
    using D(8) gm_has_iff [of queue] by auto
  then have "card (set (map fst queue)) \<le> card (PN ` set ps)" by (intro card_mono) auto
  also have "\<dots> \<le> length ps" by (metis card_length length_map list.set_map)
  finally show ?thesis using D(1) by (metis distinct_card gm_wf_def length_map)
qed

lemma sort_acyclic:
  assumes srt: "go_sort srt" and it: "\<forall>n. map_order (it n)" and names: "distinct (map PN ps)"
    and ac: "acyclic_requires rank (set ps)" and fuel: "length ps < fuel"
  shows "\<exists>ans. sortPkgsThinArr srt it n fuel ps = Some (Inr ans) \<and> mset ans = mset ps \<and> deps_ordered {} ans"
proof -
  define sorted where "sorted = SortPackageThinList4Requires srt ps"
  have ms: "mset sorted = mset ps" "set sorted = set ps"
    by (simp_all add: sorted_def SortPackageThinList4Requires_def go_sort.srt_mset [OF srt] go_sort.srt_set [OF srt])
  have "distinct (map PN sorted)"
    using names unfolding sorted_def SortPackageThinList4Requires_def by (simp add: go_sort.srt_distinct_map [OF srt])
  then have start: "sort_inv (=) (set ps) sorted ([], [], [])" using ms(2) by (rule sort_inv_start) simp
  obtain ans pin queue where st: "first_loop it 0 sorted ([], [], []) = (ans, pin, queue)"
    by (cases "first_loop it 0 sorted ([], [], [])") auto
  have inv: "sort_inv (=) (set ps) [] (ans, pin, queue)"
    using sort_inv_first_loop [OF it start, of 0] by (simp add: st)
  have ord: "deps_ordered {} ans" using first_loop_ordered [OF it start, of 0] by (simp add: st)
  show ?thesis
  proof (cases "queue = []")
    case True
    then show ?thesis using sort_inv_done [OF _ names] inv ord
      by (simp add: sortPkgsThinArr_def sorted_def [symmetric] st Let_def)
  next
    case False
    have "length queue \<le> length ps" by (rule queue_length [OF inv])
    then obtain ans' pin' where
      "second_loop srt it n fuel (length sorted) 0 0 False (ans, pin, queue) = Some (Inr ans')"
      "sort_inv (=) (set ps) [] (ans', pin', [])" "deps_ordered {} ans'"
      using second_loop_acyclic [where fuel = fuel and lq = 0 and srt = srt and n = n and i = "length sorted"
          and c = 0 and d = False, OF it ac inv ord] fuel False by auto
    then show ?thesis using sort_inv_done [OF _ names] False
      by (auto simp: sortPkgsThinArr_def sorted_def [symmetric] st Let_def)
  qed
qed

section \<open>Depth of the detector\<close>

definition atom :: "package_thin \<Rightarrow> string \<times> string" where
  "atom p = (tName p, tCategory p)"

lemma AtomMatches_atom: "thin_AtomMatches p q \<longleftrightarrow> atom p = atom q"
  by (simp add: thin_AtomMatches_def atom_def)

lemma InList_atom: "PackageThinIsInList p ps \<longleftrightarrow> atom p \<in> atom ` set ps"
  by (auto simp: PackageThinIsInList_def list_ex_iff AtomMatches_atom)

lemma weaker_atom: "weaker p q \<Longrightarrow> atom p = atom q"
  by (simp add: weaker_def atom_def)

lemma Break_weaker: "weaker (BreakCyclesOnRequires stack p) p"
  by (auto simp: weaker_def BreakCyclesOnRequires_def)

lemma Break_requires:
  "r \<in> set (tRequires (BreakCyclesOnRequires stack p)) \<Longrightarrow> r \<in> set (tRequires p) \<and> atom r \<notin> atom ` set stack"
  by (auto simp: BreakCyclesOnRequires_def list_ex_iff AtomMatches_atom)

text \<open>
  Packages and requires of one name are of one atom.  It holds of names made of a category without
  slash and a name (\<open>proper_names\<close> below).
\<close>

definition required :: "package_thin set \<Rightarrow> package_thin set" where
  "required S = (\<Union>q\<in>S. set (tRequires q))"

definition names_ok :: "package_thin set \<Rightarrow> bool" where
  "names_ok S \<longleftrightarrow> (\<forall>x\<in>S \<union> required S. \<forall>y\<in>S \<union> required S. PN x = PN y \<longrightarrow> atom x = atom y)"

definition queue_inv :: "package_thin set \<Rightarrow> thin_queue \<Rightarrow> bool" where
  "queue_inv S queue \<longleftrightarrow> gm_wf queue \<and> (\<forall>k p. gm_get queue k = Some p \<longrightarrow> PN p = k \<and> (\<exists>q\<in>S. weaker p q))"

definition queue_atoms :: "thin_queue \<Rightarrow> (string \<times> string) set" where
  "queue_atoms queue = {atom p | p. \<exists>k. gm_get queue k = Some p}"

definition missing :: "thin_queue \<Rightarrow> package_thin list \<Rightarrow> nat" where
  "missing queue stack = card (queue_atoms queue - atom ` set stack)"

lemma queue_atoms_finite: "finite (queue_atoms queue)" "card (queue_atoms queue) \<le> length queue"
proof -
  have sub: "queue_atoms queue \<subseteq> set (map (atom \<circ> snd) queue)"
    by (auto simp: queue_atoms_def dest: map_of_SomeD intro: rev_image_eqI)
  then show "finite (queue_atoms queue)" by (rule finite_subset) simp
  have "card (queue_atoms queue) \<le> card (set (map (atom \<circ> snd) queue))"
    by (rule card_mono [OF _ sub]) simp
  also have "\<dots> \<le> length queue" using card_length [of "map (atom \<circ> snd) queue"] by simp
  finally show "card (queue_atoms queue) \<le> length queue" .
qed

definition stack_le :: "package_thin list \<Rightarrow> package_thin list \<Rightarrow> bool" where
  "stack_le s t \<longleftrightarrow> atom ` set s \<subseteq> atom ` set t"

lemma stack_le_refl [simp]: "stack_le s s" "stack_le s (s @ t)"
  by (auto simp: stack_le_def)

lemma stack_le_trans: "stack_le s t \<Longrightarrow> stack_le t u \<Longrightarrow> stack_le s u"
  unfolding stack_le_def by (rule subset_trans)

text \<open>What a call of the recursion leaves.\<close>

definition check_post ::
    "package_thin set \<Rightarrow> package_thin list \<Rightarrow> thin_queue \<Rightarrow> (package_thin list \<times> thin_queue) res option \<Rightarrow> bool" where
  "check_post S stack queue res \<longleftrightarrow> (case res of
     None \<Rightarrow> False
   | Some (Inl e) \<Rightarrow> True
   | Some (Inr (stack', queue')) \<Rightarrow>
       queue_inv S queue' \<and> (\<forall>k. gm_has queue' k \<longleftrightarrow> gm_has queue k) \<and>
       queue_atoms queue' = queue_atoms queue \<and> stack_le stack stack')"

lemma check_post_trans:
  "check_post S stack queue (Some (Inr (stack', queue'))) \<Longrightarrow> check_post S stack' queue' res \<Longrightarrow>
   check_post S stack queue res"
  by (auto simp: check_post_def intro: stack_le_trans split: option.splits sum.splits)

lemma check_post_refl: "queue_inv S queue \<Longrightarrow> check_post S stack queue (Some (Inr (stack, queue)))"
  by (simp add: check_post_def)

lemma missing_mono:
  "stack_le s t \<Longrightarrow> missing queue t \<le> missing queue s"
  unfolding missing_def stack_le_def using queue_atoms_finite(1) by (intro card_mono) auto

lemma missing_less:
  assumes "a \<in> queue_atoms queue" "a \<notin> atom ` set s" "a \<in> atom ` set t" "stack_le s t"
  shows "missing queue t < missing queue s"
  unfolding missing_def using assms [unfolded stack_le_def] queue_atoms_finite(1) by (intro psubset_card_mono) auto

lemma queue_break:
  assumes inv: "queue_inv S queue" and p: "gm_get queue (PN p) = Some p"
    and p': "p' = BreakCyclesOnRequires stack p"
  shows "check_post S stack queue (Some (Inr (stack @ [p'], gm_set (PN p) p' queue)))"
    and "PN p' = PN p"
proof -
  let ?q = "gm_set (PN p) p' queue"
  have w: "weaker p' p" unfolding p' by (rule Break_weaker)
  then show pn: "PN p' = PN p" by (rule weaker_PN)
  have at: "atom p' = atom p" using w by (rule weaker_atom)
  obtain q where q: "q \<in> S" "weaker p q" using inv p unfolding queue_inv_def by blast
  have "PN x = k \<and> (\<exists>q\<in>S. weaker x q)" if "gm_get ?q k = Some x" for k x
  proof (cases "k = PN p")
    case True
    then show ?thesis using that pn q weaker_trans [OF w] by auto
  next
    case False
    then show ?thesis using that inv unfolding queue_inv_def by simp
  qed
  moreover have "gm_wf ?q" using inv [unfolded queue_inv_def, THEN conjunct1] by (rule gm_wf_set)
  ultimately have "queue_inv S ?q" unfolding queue_inv_def by blast
  moreover have "queue_atoms ?q = queue_atoms queue"
  proof -
    have "(\<exists>k. gm_get ?q k = Some x) \<longleftrightarrow> x = p' \<or> (\<exists>k. k \<noteq> PN p \<and> gm_get queue k = Some x)" for x
      by (auto split: if_split_asm)
    moreover have "(\<exists>k. gm_get queue k = Some x) \<longleftrightarrow> x = p \<or> (\<exists>k. k \<noteq> PN p \<and> gm_get queue k = Some x)" for x
      using p by (metis option.inject)
    moreover have "{atom x | x. x = a \<or> R x} = insert (atom a) {atom x | x. R x}" for a R
      by blast
    ultimately show ?thesis unfolding queue_atoms_def by (simp only: at)
  qed
  moreover have "gm_has ?q k \<longleftrightarrow> gm_has queue k" for k
    using p by (auto simp: gm_has_def)
  ultimately show "check_post S stack queue (Some (Inr (stack @ [p'], ?q)))"
    by (simp add: check_post_def)
qed

lemma check_post_missing:
  "check_post S stack queue (Some (Inr (stack', queue'))) \<Longrightarrow>
   queue_inv S queue' \<and> missing queue' s = missing queue s \<and> stack_le stack stack'"
  by (simp add: check_post_def missing_def)

text \<open>
  The depth a call needs: twice the number of atoms of the queue not yet on the stack, one more when
  the package is on it already.  A package entered for the first time leaves one atom fewer; one that
  is on the stack keeps only requires that were not there, and each of those is entered for the first
  time or was entered by a call in between.
\<close>

definition need :: "thin_queue \<Rightarrow> package_thin list \<Rightarrow> package_thin \<Rightarrow> nat" where
  "need queue stack p = 2 * missing queue stack + (if atom p \<in> atom ` set stack then 1 else 0)"

lemma check_deps_total:
  assumes names: "names_ok S"
  shows "queue_inv S (snd st) \<Longrightarrow> gm_get (snd st) (PN p) = Some p \<Longrightarrow> need (snd st) (fst st) p < n \<Longrightarrow>
      check_post S (fst st) (snd st) (recursiveCheckDeps pin n p st)"
    and "queue_inv S (snd st) \<Longrightarrow> set rs \<subseteq> required S \<Longrightarrow> stack_le s0 (fst st) \<Longrightarrow>
      2 * missing (snd st) s0 < n \<Longrightarrow>
      (\<forall>r\<in>set rs. 2 * missing (snd st) s0 + 1 < n \<or> atom r \<notin> atom ` set s0) \<Longrightarrow>
      check_post S (fst st) (snd st) (requires_loop pin n p rs st)"
proof (induction pin n p st and pin n p rs st arbitrary: and s0
    rule: recursiveCheckDeps_requires_loop.induct)
  case (1 pin p st)
  then show ?case by simp
next
  case (2 pin n p stack queue)
  have inv: "queue_inv S queue" and get: "gm_get queue (PN p) = Some p"
    and need: "need queue stack p < Suc n" using "2.prems" by simp_all
  obtain q where "q \<in> S" "weaker p q" using inv get unfolding queue_inv_def by blast
  then have req: "set (tRequires p) \<subseteq> required S" by (auto simp: weaker_def required_def)
  have inq: "atom p \<in> queue_atoms queue" using get by (auto simp: queue_atoms_def)
  show ?case
  proof (cases "PackageThinIsInList p stack")
    case True
    define p' where "p' = BreakCyclesOnRequires stack p"
    let ?q = "gm_set (PN p) p' queue"
    note br = queue_break [OF inv get p'_def]
    note post = check_post_missing [OF br(1)]
    have "2 * missing queue stack < n" using need True by (simp add: need_def InList_atom)
    moreover have "set (tRequires p') \<subseteq> required S" "\<forall>r\<in>set (tRequires p'). atom r \<notin> atom ` set stack"
      using Break_requires req unfolding p'_def by blast+
    ultimately have "check_post S (stack @ [p']) ?q (requires_loop pin n p' (tRequires p') (stack @ [p'], ?q))"
      using "2.IH"(1) [OF True p'_def, of stack] post br(2) by simp
    from check_post_trans [OF br(1) this] True show ?thesis
      by (simp add: Let_def p'_def [symmetric] br(2))
  next
    case False
    then have "missing queue (stack @ [p]) < missing queue stack"
      using inq by (intro missing_less [of "atom p"]) (simp_all add: InList_atom)
    then have "2 * missing queue (stack @ [p]) + 1 < n"
      using need False by (simp add: need_def InList_atom)
    then have "check_post S (stack @ [p]) queue (requires_loop pin n p (tRequires p) (stack @ [p], queue))"
      using "2.IH"(2) [OF False, of "stack @ [p]"] inv req by simp
    moreover have "check_post S stack queue (Some (Inr (stack @ [p], queue)))"
      using inv by (simp add: check_post_def)
    ultimately show ?thesis using False check_post_trans by simp
  qed
next
  case (3 pin n p st)
  then show ?case by (cases st) (simp add: check_post_def)
next
  case (4 pin n p r rs stack queue)
  have inv: "queue_inv S queue" and le: "stack_le s0 stack" and m: "2 * missing queue s0 < n"
    and fresh: "2 * missing queue s0 + 1 < n \<or> atom r \<notin> atom ` set s0"
    and rS: "r \<in> required S" and rsS: "set rs \<subseteq> required S"
    and frs: "\<forall>r\<in>set rs. 2 * missing queue s0 + 1 < n \<or> atom r \<notin> atom ` set s0"
    using "4.prems" by auto
  show ?case
  proof (cases "gm_get queue (PN r)")
    case None
    show ?thesis
    proof (cases "gm_has pin (PN r)")
      case True
      then have "check_post S stack queue (requires_loop pin n p rs (stack, queue))"
        using "4.IH"(1) [OF None, of s0] inv le m frs rsS by simp
      then show ?thesis using None True by simp
    next
      case False
      then show ?thesis using None by (simp add: check_post_def)
    qed
  next
    case (Some rq)
    then have pn: "PN rq = PN r" and "\<exists>q\<in>S. weaker rq q" using inv unfolding queue_inv_def by blast+
    then obtain q where q: "q \<in> S" "weaker rq q" by blast
    then have "PN q = PN r" using weaker_PN pn by simp
    then have at: "atom rq = atom r"
      using names q rS weaker_atom unfolding names_ok_def by (metis UnI1 UnI2)
    have rq: "gm_get queue (PN rq) = Some rq" using Some pn by simp
    then have inq: "atom rq \<in> queue_atoms queue" by (auto simp: queue_atoms_def)
    have le2: "missing queue stack \<le> missing queue s0" using le by (rule missing_mono)
    have "need queue stack rq < n"
    proof (cases "atom rq \<in> atom ` set stack \<and> atom r \<notin> atom ` set s0")
      case True
      then have "missing queue stack < missing queue s0"
        using inq at le by (intro missing_less [of "atom rq"]) simp_all
      then show ?thesis using m by (simp add: need_def)
    next
      case False
      then show ?thesis using fresh le2 m at by (auto simp: need_def)
    qed
    then have post: "check_post S stack queue (recursiveCheckDeps pin n rq (stack, queue))"
      using "4.IH"(2) [OF Some] inv rq by simp
    show ?thesis
    proof (cases "recursiveCheckDeps pin n rq (stack, queue)")
      case None
      then show ?thesis using post by (simp add: check_post_def)
    next
      case res: (Some res)
      show ?thesis
      proof (cases res)
        case (Inl e)
        then show ?thesis using Some res by (simp add: check_post_def)
      next
        case (Inr st')
        obtain stack' queue' where st': "st' = (stack', queue')" by (cases st')
        have post': "check_post S stack queue (Some (Inr (stack', queue')))"
          using post res Inr st' by simp
        note pm = check_post_missing [OF post']
        have "check_post S stack' queue' (requires_loop pin n p rs (stack', queue'))"
          using "4.IH"(3) [OF Some res Inr, of s0] m frs rsS pm stack_le_trans [OF le] st' by simp
        from check_post_trans [OF post' this] show ?thesis using Some res Inr st' by simp
      qed
    qed
  qed
qed

section \<open>The sort ends\<close>

lemma length_keys:
  assumes "gm_wf m" "gm_wf m'" "\<forall>k. gm_has m' k \<longleftrightarrow> gm_has m k"
  shows "length m' = length m"
proof -
  have "set (map fst m') = set (map fst m)" using assms(3) by (auto simp: gm_has_iff)
  then show ?thesis
    using assms(1,2) unfolding gm_wf_def by (metis distinct_card length_map)
qed

definition detector_post :: "package_thin set \<Rightarrow> thin_queue \<Rightarrow> thin_queue res option \<Rightarrow> bool" where
  "detector_post S queue res \<longleftrightarrow> (case res of
     None \<Rightarrow> False
   | Some (Inl e) \<Rightarrow> True
   | Some (Inr queue') \<Rightarrow> queue_inv S queue' \<and> (\<forall>k. gm_has queue' k \<longleftrightarrow> gm_has queue k))"

lemma detector_post_trans:
  "(\<forall>k. gm_has queue' k \<longleftrightarrow> gm_has queue k) \<Longrightarrow> detector_post S queue' res \<Longrightarrow> detector_post S queue res"
  by (auto simp: detector_post_def split: option.splits sum.splits)

lemma detector_loop_total:
  assumes names: "names_ok S"
  shows "queue_inv S queue \<Longrightarrow> \<forall>e\<in>set es. gm_has queue (PN e) \<Longrightarrow> 2 * length queue < n \<Longrightarrow>
    detector_post S queue (detector_loop pin n es queue)"
proof (induction es arbitrary: queue)
  case Nil
  then show ?case by (simp add: detector_post_def)
next
  case (Cons e es)
  obtain p where p: "gm_get queue (PN e) = Some p" using Cons.prems(2) by (auto simp: gm_has_def)
  then have pn: "PN p = PN e" using Cons.prems(1) unfolding queue_inv_def by blast
  have "missing queue [] \<le> length queue"
    using queue_atoms_finite(2) by (simp add: missing_def)
  then have "check_post S [] queue (recursiveCheckDeps pin n p ([], queue))"
    using check_deps_total(1) [OF names, of "([], queue)" p n pin] Cons.prems(1,3) p pn
    by (simp add: need_def)
  note post = this
  show ?case
  proof (cases "recursiveCheckDeps pin n p ([], queue)")
    case None
    then show ?thesis using post by (simp add: check_post_def)
  next
    case res: (Some res)
    show ?thesis
    proof (cases res)
      case (Inl e')
      then show ?thesis using p res by (simp add: detector_post_def)
    next
      case (Inr st)
      obtain stack queue' where st: "st = (stack, queue')" by (cases st)
      have q': "queue_inv S queue'" "\<forall>k. gm_has queue' k \<longleftrightarrow> gm_has queue k"
        using post res Inr st by (simp_all add: check_post_def)
      have len: "length queue' = length queue"
        using q' Cons.prems(1) by (intro length_keys) (simp_all add: queue_inv_def)
      have rec: "detector_post S queue (detector_loop pin n es queue')"
        using Cons.prems(2,3) q' len by (intro detector_post_trans [OF q'(2) Cons.IH]) auto
      show ?thesis
        using p res Inr st rec by (auto simp: Let_def detector_post_def [of _ _ "Some (Inl _)"] split: option.split)
    qed
  qed
qed

lemma sort_inv_queue_inv:
  assumes "sort_inv weaker S rest (ans, pin, queue)"
  shows "queue_inv S queue"
proof -
  note D = sort_invD [OF assms]
  show ?thesis unfolding queue_inv_def using D(1,9,10) by blast
qed

lemma sort_inv_replace:
  assumes "sort_inv weaker S rest (ans, pin, queue)" "queue_inv S queue'"
    "\<forall>k. gm_has queue' k \<longleftrightarrow> gm_has queue k"
  shows "sort_inv weaker S rest (ans, pin, queue')"
proof -
  note D = sort_invD [OF assms(1)]
  show ?thesis
  proof (rule sort_invI)
    show "PN ` S = PN ` set ans \<union> {k. gm_has queue' k} \<union> PN ` set rest" using D(8) assms(3) by simp
    show "gm_wf queue'" using assms(2) unfolding queue_inv_def by blast
  next
    fix k assume "gm_has queue' k"
    then show "k \<notin> PN ` set ans" "k \<notin> PN ` set rest" using D(5,6) assms(3) by blast+
  next
    fix k p assume "gm_get queue' k = Some p"
    then show "PN p = k" "\<exists>q\<in>S. weaker p q" using assms(2) unfolding queue_inv_def by blast+
  qed (rule D(2) D(3) D(4) D(7) D(11) D(12); assumption?)+
qed

definition rounds_left :: "nat \<Rightarrow> nat \<Rightarrow> nat \<Rightarrow> bool \<Rightarrow> nat" where
  "rounds_left len lq c d = 7 * len + (if len \<noteq> lq then 6 else if c > 3 then (if d then 0 else 1) else 5 - c)"

lemma rounds_left_less:
  assumes "len' \<le> len"
  shows "len \<noteq> lq \<Longrightarrow> rounds_left len' len 0 d < rounds_left len lq c d"
    and "len = lq \<Longrightarrow> c \<le> 3 \<Longrightarrow> rounds_left len' lq (Suc c) d < rounds_left len lq c d"
    and "len = lq \<Longrightarrow> 3 < c \<Longrightarrow> rounds_left len' lq c True < rounds_left len lq c False"
  using assms by (auto simp: rounds_left_def)

lemma length_round:
  assumes "gm_wf queue" "drain_round it (ans, pin, queue) = (ans', pin', queue')"
  shows "length queue' \<le> length queue"
  using assms length_gm_del_all [OF assms(1)] by (auto simp: drain_round_eq Let_def)

definition loop_post :: "package_thin set \<Rightarrow> package_thin list res option \<Rightarrow> bool" where
  "loop_post S res \<longleftrightarrow> (case res of
     None \<Rightarrow> False
   | Some (Inl e) \<Rightarrow> True
   | Some (Inr ans) \<Rightarrow> \<exists>pin. sort_inv weaker S [] (ans, pin, []))"

lemma second_loop_total:
  assumes srt: "go_sort srt" and it: "\<forall>n. map_order (it n)" and names: "names_ok S"
  shows "sort_inv weaker S [] (ans, pin, queue) \<Longrightarrow> 2 * length queue < n \<Longrightarrow>
    rounds_left (length queue) lq c d < fuel \<Longrightarrow>
    loop_post S (second_loop srt it n fuel i lq c d (ans, pin, queue))"
proof (induction fuel arbitrary: i lq c d ans pin queue)
  case (Suc fuel)
  note inv = Suc.prems(1)
  have next_round: "loop_post S (second_loop srt it n fuel j lq' c' d' (drain_round (it i) (ans, pin, queue')))"
    if q': "sort_inv weaker S [] (ans, pin, queue')" "length queue' = length queue"
      and less: "\<And>len'. len' \<le> length queue \<Longrightarrow> rounds_left len' lq' c' d' < rounds_left (length queue) lq c d"
    for j lq' c' d' queue'
  proof -
    obtain ans'' pin'' queue'' where st: "drain_round (it i) (ans, pin, queue') = (ans'', pin'', queue'')"
      by (cases "drain_round (it i) (ans, pin, queue')") auto
    have "sort_inv weaker S [] (ans'', pin'', queue'')"
      using sort_inv_round [OF it [rule_format] q'(1), of i] st by simp
    moreover have "length queue'' \<le> length queue"
      using length_round [OF sort_invD(1) [OF q'(1)] st] q'(2) by simp
    ultimately show ?thesis
      unfolding st using Suc.prems(2,3) less [of "length queue''"] by (intro Suc.IH) simp_all
  qed
  show ?case
  proof (cases "queue = []")
    case True
    then show ?thesis using inv by (auto simp: loop_post_def)
  next
    case ne: False
    show ?thesis
    proof (cases "length queue = lq")
      case False
      have "loop_post S (second_loop srt it n fuel (i + 2) (length queue) 0 d (drain_round (it i) (ans, pin, queue)))"
        by (rule next_round [OF inv refl]) (rule rounds_left_less(1) [OF _ False])
      then show ?thesis using False ne by simp
    next
      case lq: True
      have lq0: "lq \<noteq> 0" using lq ne by auto
      show ?thesis
      proof (cases "c > 3")
        case False
        have "loop_post S (second_loop srt it n fuel (i + 2) lq (Suc c) d (drain_round (it i) (ans, pin, queue)))"
          by (rule next_round [OF inv refl]) (use rounds_left_less(2) lq False in simp)
        then show ?thesis using False ne lq lq0 by simp
      next
        case c: True
        show ?thesis
        proof (cases d)
          case True
          then show ?thesis using lq lq0 c ne by (simp add: loop_post_def)
        next
          case d: False
          define es where "es = SortPackageThinList4Requires srt (map snd (gm_range (it (Suc i)) queue))"
          have "gm_get queue (PN e) = Some e" if "e \<in> set es" for e
            using that sort_invD(9) [OF inv]
            by (auto simp: es_def SortPackageThinList4Requires_def go_sort.srt_set [OF srt]
                map_order.range_iff [OF it [rule_format]])
          then have "detector_post S queue (detector_loop pin n es queue)"
            using Suc.prems(2) by (intro detector_loop_total [OF names sort_inv_queue_inv [OF inv]]) (auto simp: gm_has_def)
          then have post: "detector_post S queue (depCycleDetector srt (it (Suc i)) n pin queue)"
            by (simp add: depCycleDetector_def es_def)
          show ?thesis
          proof (cases "depCycleDetector srt (it (Suc i)) n pin queue")
            case None
            then show ?thesis using post by (simp add: detector_post_def)
          next
            case res: (Some res)
            show ?thesis
            proof (cases res)
              case (Inl e)
              then show ?thesis using res lq lq0 c d ne by (simp add: loop_post_def)
            next
              case (Inr queue')
              have q': "queue_inv S queue'" "\<forall>k. gm_has queue' k \<longleftrightarrow> gm_has queue k"
                using post res Inr by (simp_all add: detector_post_def)
              have len: "length queue' = length queue"
                using q' sort_invD(1) [OF inv] by (intro length_keys) (simp_all add: queue_inv_def)
              have "loop_post S (second_loop srt it n fuel (i + 2) lq c True (drain_round (it i) (ans, pin, queue')))"
                by (rule next_round [OF sort_inv_replace [OF inv q'] len]) (use rounds_left_less(3) lq c d in simp)
              then show ?thesis using res Inr lq lq0 c d ne by simp
            qed
          qed
        qed
      qed
    qed
  qed
qed simp

lemma sort_total:
  assumes srt: "go_sort srt" and it: "\<forall>n. map_order (it n)" and names: "distinct (map PN ps)"
    and ok: "names_ok (set ps)" and fuel: "7 * length ps + 6 < fuel" and n: "2 * length ps < n"
  shows "loop_post (set ps) (sortPkgsThinArr srt it n fuel ps)"
proof -
  define sorted where "sorted = SortPackageThinList4Requires srt ps"
  have "distinct (map PN sorted)" "set sorted = set ps"
    using names unfolding sorted_def SortPackageThinList4Requires_def
    by (simp_all add: go_sort.srt_distinct_map [OF srt] go_sort.srt_set [OF srt])
  then have start: "sort_inv weaker (set ps) sorted ([], [], [])" by (rule sort_inv_start) simp
  obtain ans pin queue where st: "first_loop it 0 sorted ([], [], []) = (ans, pin, queue)"
    by (cases "first_loop it 0 sorted ([], [], [])") auto
  have inv: "sort_inv weaker (set ps) [] (ans, pin, queue)"
    using sort_inv_first_loop [OF it start, of 0] by (simp add: st)
  have len: "length queue \<le> length ps" by (rule queue_length [OF inv])
  show ?thesis
  proof (cases "queue = []")
    case True
    then show ?thesis using inv
      by (auto simp: sortPkgsThinArr_def sorted_def [symmetric] st Let_def loop_post_def)
  next
    case False
    have "loop_post (set ps) (second_loop srt it n fuel (length sorted) 0 0 False (ans, pin, queue))"
      by (rule second_loop_total [OF srt it ok inv]) (use len fuel n False in \<open>auto simp: rounds_left_def\<close>)
    then show ?thesis using False by (simp add: sortPkgsThinArr_def sorted_def [symmetric] st Let_def)
  qed
qed

section \<open>The theorems\<close>

text \<open>
  C14: when the requires of the packages to sort stay among them and have no cycle, \<open>sortPkgsThinArr\<close>
  succeeds and returns exactly those packages, unchanged, every one after all the packages it
  requires.  It holds for every order in which the maps are ranged over, every result of
  \<open>sort.Slice\<close>, any bound on the detector (which does not run), and one round of the second loop
  per package is enough.
\<close>

theorem sortPkgsThinArr_topological:
  assumes "go_sort srt" "\<forall>n. map_order (it n)" "distinct (map thin_PackageName ps)"
    and "acyclic_requires rank (set ps)" "length ps < fuel"
  shows "\<exists>ans. sortPkgsThinArr srt it n fuel ps = Some (Inr ans) \<and> mset ans = mset ps \<and>
    (\<forall>i<length ans. \<forall>r\<in>set (tRequires (ans ! i)). \<exists>j<i. thin_PackageName (ans ! j) = thin_PackageName r)"
proof -
  obtain ans where ans: "sortPkgsThinArr srt it n fuel ps = Some (Inr ans)" "mset ans = mset ps"
    "deps_ordered {} ans" using sort_acyclic [OF assms] by blast
  have "\<exists>j<i. PN (ans ! j) = PN r" if i: "i < length ans" and r: "r \<in> set (tRequires (ans ! i))" for i r
  proof -
    have "deps_ordered {} (take i ans @ ans ! i # drop (Suc i) ans)"
      using ans(3) id_take_nth_drop [OF i] by simp
    then have "PN r \<in> PN ` set (take i ans)" using r by (simp add: deps_ordered_append)
    then obtain j where "j < i" "PN r = PN (ans ! j)" using i by (auto simp: in_set_conv_nth)
    then show ?thesis by metis
  qed
  with ans show ?thesis by blast
qed

theorem sortPkgsThinArr_topological_witness:
  "\<exists>ans. sortPkgsThinArr insertion_sort (\<lambda>_. rev) 0 4
      [PackageThin ''c'' ''x'' ''1'' [PackageThin ''b'' ''x'' ''>=1'' [] [] []] [] [],
       PackageThin ''b'' ''x'' ''1'' [PackageThin ''a'' ''x'' ''>=1'' [] [] []] [] [],
       PackageThin ''a'' ''x'' ''1'' [] [] []] = Some (Inr ans) \<and> length ans = 3"
proof -
  let ?ps = "[PackageThin ''c'' ''x'' ''1'' [PackageThin ''b'' ''x'' ''>=1'' [] [] []] [] [],
       PackageThin ''b'' ''x'' ''1'' [PackageThin ''a'' ''x'' ''>=1'' [] [] []] [] [],
       PackageThin ''a'' ''x'' ''1'' [] [] []]"
  let ?rank = "\<lambda>k. if k = ''x/a'' then 0 else if k = ''x/b'' then 1 else 2 :: nat"
  have "acyclic_requires ?rank (set ?ps)"
    by (simp add: acyclic_requires_def thin_PackageName_def package_name_def)
  from sortPkgsThinArr_topological [OF isort.go_sort_axioms _ _ this, of "\<lambda>_. rev" 4 0]
  obtain ans where "sortPkgsThinArr insertion_sort (\<lambda>_. rev) 0 4 ?ps = Some (Inr ans)" "mset ans = mset ?ps"
    by (auto simp: rev_order.map_order_axioms thin_PackageName_def package_name_def)
  moreover from this(2) have "length ans = length ?ps" by (rule mset_eq_length)
  ultimately show ?thesis by simp
qed

text \<open>
  \<open>sortPkgsThinArr\<close> always returns, cycles or not: within \<open>7 * length + 7\<close> rounds of its second
  loop and a recursion of the detector of depth twice the length it has a result, an error or a list
  in which every package of the argument is once, with at most some of its requires left out to
  break a cycle.  The packages must have distinct names, and a name must determine the category and
  the name it is made of.
\<close>

theorem sortPkgsThinArr_returns:
  assumes "go_sort srt" "\<forall>n. map_order (it n)" "distinct (map thin_PackageName ps)"
    and "names_ok (set ps)" "7 * length ps + 6 < fuel" "2 * length ps < n"
  shows "\<exists>res. sortPkgsThinArr srt it n fuel ps = Some res \<and>
    (\<forall>ans. res = Inr ans \<longrightarrow>
      mset (map thin_PackageName ans) = mset (map thin_PackageName ps) \<and>
      (\<forall>p\<in>set ans. \<exists>q\<in>set ps. weaker p q))"
proof -
  have post: "loop_post (set ps) (sortPkgsThinArr srt it n fuel ps)" by (rule sort_total [OF assms])
  then obtain res where res: "sortPkgsThinArr srt it n fuel ps = Some res"
    by (cases "sortPkgsThinArr srt it n fuel ps") (auto simp: loop_post_def)
  have "mset (map PN ans) = mset (map PN ps) \<and> (\<forall>p\<in>set ans. \<exists>q\<in>set ps. weaker p q)"
    if r: "res = Inr ans" for ans
  proof -
    obtain pin where inv: "sort_inv weaker (set ps) [] (ans, pin, [])"
      using post res r by (auto simp: loop_post_def)
    note D = sort_invD [OF inv]
    have "set (map PN ans) = set (map PN ps)" using D(8) by auto
    then have "mset (map PN ans) = mset (map PN ps)"
      using set_eq_iff_mset_eq_distinct D(2) assms(3) by blast
    then show ?thesis using D(11) by blast
  qed
  with res show ?thesis by blast
qed

text \<open>Names made of a category without slash and a name determine both.\<close>

definition proper_name :: "package_thin \<Rightarrow> bool" where
  "proper_name p \<longleftrightarrow> tCategory p \<noteq> [] \<and> tName p \<noteq> [] \<and> CHR ''/'' \<notin> set (tCategory p)"

lemma slash_split:
  "CHR ''/'' \<notin> set a \<Longrightarrow> CHR ''/'' \<notin> set b \<Longrightarrow> a @ CHR ''/'' # x = b @ CHR ''/'' # y \<Longrightarrow> a = b \<and> x = y"
  by (induction a arbitrary: b) (case_tac b; auto)+

lemma proper_names_ok: "(\<forall>p\<in>S \<union> required S. proper_name p) \<Longrightarrow> names_ok S"
  unfolding names_ok_def
proof (intro ballI impI)
  fix x y assume a: "\<forall>p\<in>S \<union> required S. proper_name p" "x \<in> S \<union> required S" "y \<in> S \<union> required S" "PN x = PN y"
  then have "proper_name x" "proper_name y" by blast+
  then show "atom x = atom y"
    using a(4) slash_split [of "tCategory x" "tCategory y" "tName x" "tName y"]
    by (simp add: proper_name_def atom_def thin_PackageName_def package_name_def)
qed

theorem sortPkgsThinArr_returns_witness:
  "\<exists>res. sortPkgsThinArr insertion_sort (\<lambda>_ ks. ks) 5 21
      [PackageThin ''a'' ''x'' ''1'' [PackageThin ''b'' ''x'' ''>=1'' [] [] []] [] [],
       PackageThin ''b'' ''x'' ''1'' [PackageThin ''a'' ''x'' ''>=1'' [] [] []] [] []] = Some res"
proof -
  let ?ps = "[PackageThin ''a'' ''x'' ''1'' [PackageThin ''b'' ''x'' ''>=1'' [] [] []] [] [],
       PackageThin ''b'' ''x'' ''1'' [PackageThin ''a'' ''x'' ''>=1'' [] [] []] [] []]"
  have "names_ok (set ?ps)"
    by (rule proper_names_ok) (simp add: required_def proper_name_def)
  from sortPkgsThinArr_returns [OF isort.go_sort_axioms _ _ this, of "\<lambda>_ ks. ks" 21 5]
  show ?thesis
    by (auto simp: id_order.map_order_axioms thin_PackageName_def package_name_def)
qed

text \<open>
  without that condition the cycle detector does not return.  The requirement here has an empty
  category and the name \<open>a/b\<close>, so the map of the queue finds the package \<open>b\<close> of category \<open>a\<close> for it,
  but \<open>BreakCyclesOnRequires\<close>, which compares name and category, never removes it: no depth of the
  recursion is enough.
\<close>

theorem recursiveCheckDeps_diverges:
  "\<forall>n. recursiveCheckDeps []
     n (PackageThin ''b'' ''a'' ''1'' [PackageThin ''a/b'' [] [] [] [] []] [] [])
     ([], [(''a/b'', PackageThin ''b'' ''a'' ''1'' [PackageThin ''a/b'' [] [] [] [] []] [] [])]) = None"
proof
  fix n
  define r where "r = PackageThin ''a/b'' [] [] [] [] []"
  define p where "p = PackageThin ''b'' ''a'' ''1'' [r] [] []"
  have pn: "PN r = ''a/b''" "PN p = ''a/b''" by (simp_all add: r_def p_def thin_PackageName_def package_name_def)
  have "recursiveCheckDeps [] n p (stack, [(''a/b'', p)]) = None" if "\<forall>x\<in>set stack. x = p" for stack
    using that
  proof (induction n arbitrary: stack rule: less_induct)
    case (less n)
    have br: "BreakCyclesOnRequires stack p = p" using less.prems
      by (auto simp: BreakCyclesOnRequires_def p_def r_def list_ex_iff thin_AtomMatches_def filter_id_conv)
    have up: "gm_set (PN p) p [(''a/b'', p)] = [(''a/b'', p)]" by (simp add: pn)
    show ?case
    proof (cases n)
      case (Suc m)
      have "recursiveCheckDeps [] m p (stack @ [p], [(''a/b'', p)]) = None"
        using less Suc by auto
      then have "requires_loop [] m p [r] (stack @ [p], [(''a/b'', p)]) = None" by (simp add: pn)
      moreover have "tRequires p = [r]" by (simp add: p_def)
      ultimately show ?thesis using Suc br up by (simp add: Let_def)
    qed simp
  qed
  then show "recursiveCheckDeps [] n (PackageThin ''b'' ''a'' ''1'' [PackageThin ''a/b'' [] [] [] [] []] [] [])
     ([], [(''a/b'', PackageThin ''b'' ''a'' ''1'' [PackageThin ''a/b'' [] [] [] [] []] [] [])]) = None"
    by (simp add: p_def r_def)
qed

end
