(* ===== verification/OrderOps.thy ===== *)
theory OrderOps
  imports SolverSort "HOL-Library.Sublist"
begin

text \<open>
  \<open>Operation\<close> and \<open>SortOperationsByName\<close> of \<open>pkg/v2/solver/common.go\<close> and \<open>OrderOperations\<close> of
  \<open>pkg/v2/solver/solver.go\<close>, which turns the three packs the solver computed (installs, updates,
  removes) into one sequence of operations.
\<close>

section \<open>Operations\<close>

definition UpdatePackage :: string where "UpdatePackage = ''U''"
definition AddPackage :: string where "AddPackage = ''N''"
definition RemovePackage :: string where "RemovePackage = ''D''"
definition DowngradePackage :: string where "DowngradePackage = ''u''"

lemmas action_defs = UpdatePackage_def AddPackage_def RemovePackage_def

record operation =
  opAction :: string
  opArtifact :: artifact

record solver_opts =
  IgnoreConflicts :: bool
  Force :: bool
  NoDeps :: bool
  IgnoreMasks :: bool
  Deep :: bool

definition NewSolverOpts :: solver_opts where
  "NewSolverOpts = \<lparr>IgnoreConflicts = False, Force = False, NoDeps = False, IgnoreMasks = False, Deep = False\<rparr>"

definition NewOperation :: "string \<Rightarrow> artifact \<Rightarrow> operation" where
  "NewOperation action art = \<lparr>opAction = action, opArtifact = art\<rparr>"

lemma NewOperation_sel [simp]: "opAction (NewOperation x a) = x" "opArtifact (NewOperation x a) = a"
  by (simp_all add: NewOperation_def)

definition op_name_less :: "bool \<Rightarrow> operation \<Rightarrow> operation \<Rightarrow> bool" where
  "op_name_less reverse oi oj =
     (let pi = art_pkg (opArtifact oi); pj = art_pkg (opArtifact oj)
      in if PackageName pi = PackageName pj then
           (if reverse then opAction oi > opAction oj else opAction oi < opAction oj)
         else if reverse then PackageName pi > PackageName pj
         else PackageName pi < PackageName pj)"

definition SortOperationsByName ::
    "((operation \<Rightarrow> operation \<Rightarrow> bool) \<Rightarrow> operation list \<Rightarrow> operation list) \<Rightarrow> bool \<Rightarrow>
     operation list \<Rightarrow> operation list" where
  "SortOperationsByName srt reverse ops = srt (op_name_less reverse) ops"

section \<open>Installs and updates\<close>

text \<open>
  The head of the artifacts of a name; the code indexes the slice, which panics on a name that is not
  in the map.
\<close>

definition first_of :: "arts_map \<Rightarrow> string \<Rightarrow> artifact panics" where
  "first_of m k = (case gm_get m k of
     Some (a # as) \<Rightarrow> Returns a | _ \<Rightarrow> Panics ''index out of range [0] with length 0'')"

definition op_of :: "arts_map \<Rightarrow> arts_map \<Rightarrow> package_thin \<Rightarrow> operation panics" where
  "op_of p2imap p2umap p =
     (if gm_has p2imap (thin_PackageName p)
      then pbind (first_of p2imap (thin_PackageName p)) (\<lambda>a. Returns (NewOperation AddPackage a))
      else pbind (first_of p2umap (thin_PackageName p)) (\<lambda>a. Returns (NewOperation UpdatePackage a)))"

fun ops_of :: "arts_map \<Rightarrow> arts_map \<Rightarrow> package_thin list \<Rightarrow> operation list panics" where
  "ops_of p2imap p2umap [] = Returns []"
| "ops_of p2imap p2umap (p # ps) =
     pbind (op_of p2imap p2umap p) (\<lambda>op. pbind (ops_of p2imap p2umap ps) (\<lambda>ops. Returns (op # ops)))"

definition tmp_ops ::
    "thin_sort \<Rightarrow> (nat \<Rightarrow> string list \<Rightarrow> string list) \<Rightarrow> nat \<Rightarrow> nat \<Rightarrow> artifact list \<Rightarrow> artifact list \<Rightarrow>
     operation list panics res option" where
  "tmp_ops srt it n fuel p2i p2u =
     (let merged = p2i @ p2u; mergedMap = ToMap merged
      in if length merged = 1 then
           (if length p2i > 0 then Some (Inr (Returns [NewOperation AddPackage (merged ! 0)]))
            else Some (Inr (Returns [NewOperation UpdatePackage (merged ! 0)])))
         else if length merged > 1 then
           (case sortPkgsThinArr srt it n fuel (createThinPkgsPlist merged mergedMap) of
              None \<Rightarrow> None
            | Some (Inl e) \<Rightarrow> Some (Inl e)
            | Some (Inr pthinarr) \<Rightarrow> Some (Inr (ops_of (ToMap p2i) (ToMap p2u) pthinarr)))
         else Some (Inr (Returns [])))"

section \<open>Removes\<close>

text \<open>Only removes: one operation per thin package, with the first artifact of its name.\<close>

fun remove_ops :: "arts_map \<Rightarrow> package_thin list \<Rightarrow> operation list panics" where
  "remove_ops p2rmap [] = Returns []"
| "remove_ops p2rmap (a # as) =
     pbind (first_of p2rmap (thin_PackageName a))
       (\<lambda>v. pbind (remove_ops p2rmap as) (\<lambda>ops. Returns (NewOperation RemovePackage v # ops)))"

text \<open>
  The search of the point of insertion: \<open>idx\<close> runs down from \<open>idxOps - 1\<close> while it is greater than
  \<open>rmOps\<close>, and the last conflict found wins.  The first argument of \<open>conflict_loop\<close> is \<open>idx + 1\<close>; an
  error of \<open>Admit\<close> is logged and skipped.
\<close>

fun conflict_loop ::
    "lib \<Rightarrow> default_package \<Rightarrow> operation list \<Rightarrow> nat \<Rightarrow> nat \<Rightarrow> int \<Rightarrow> int" where
  "conflict_loop L p ans rmOps 0 idxConflict = idxConflict"
| "conflict_loop L p ans rmOps (Suc idx) idxConflict =
     (if idx > rmOps then
        conflict_loop L p ans rmOps idx
          (case Admit L (art_pkg (opArtifact (ans ! idx))) p of
             Inr admit \<Rightarrow> if \<not> admit then int idx else idxConflict
           | Inl _ \<Rightarrow> idxConflict)
      else idxConflict)"

definition place_op ::
    "lib \<Rightarrow> arts_map \<Rightarrow> nat \<Rightarrow> operation \<Rightarrow> operation list \<times> nat \<Rightarrow> (operation list \<times> nat) panics" where
  "place_op L p2rmap rmOps op st =
     (case st of (ans, idxOps) \<Rightarrow>
        let p = art_pkg (opArtifact op); k = PackageName p
        in if gm_has p2rmap k then
             pbind (first_of p2rmap k) (\<lambda>pr.
               let idxConflict = conflict_loop L p ans rmOps idxOps (-1)
               in if idxConflict = 0 then
                    Returns ([NewOperation RemovePackage pr] @ ans @ [op], idxOps + 2)
                  else if idxConflict < 0 then
                    Returns (ans @ [NewOperation RemovePackage pr, op], idxOps + 2)
                  else
                    Returns (take (nat idxConflict) ans @ [NewOperation RemovePackage pr] @
                             drop (nat idxConflict) ans @ [op], idxOps + 2))
           else Returns (ans @ [op], idxOps + 1))"

fun place_ops ::
    "lib \<Rightarrow> arts_map \<Rightarrow> nat \<Rightarrow> operation list \<Rightarrow> operation list \<times> nat \<Rightarrow> (operation list \<times> nat) panics" where
  "place_ops L p2rmap rmOps [] st = Returns st"
| "place_ops L p2rmap rmOps (op # ops) st =
     pbind (place_op L p2rmap rmOps op st) (place_ops L p2rmap rmOps ops)"

definition new_removes :: "arts_map \<Rightarrow> artifact list \<Rightarrow> operation list" where
  "new_removes mergedMap p2r =
     map (NewOperation RemovePackage)
       (filter (\<lambda>a. \<not> gm_has mergedMap (PackageName (art_pkg a))) p2r)"

definition with_removes ::
    "lib \<Rightarrow> arts_map \<Rightarrow> artifact list \<Rightarrow> operation list \<Rightarrow> operation list panics" where
  "with_removes L mergedMap p2r tmpOps =
     (if length p2r > 0 then
        (let p2rmap = ToMap p2r
         in if length tmpOps = 0 then remove_ops p2rmap (createThinPkgsPlist p2r p2rmap)
            else (let ans = new_removes mergedMap p2r
                  in pbind (place_ops L p2rmap (length ans) tmpOps (ans, length ans))
                       (\<lambda>st. Returns (fst st))))
      else Returns tmpOps)"

text \<open>A nil pack is None.\<close>

definition OrderOperations ::
    "lib \<Rightarrow> thin_sort \<Rightarrow> (nat \<Rightarrow> string list \<Rightarrow> string list) \<Rightarrow> nat \<Rightarrow> nat \<Rightarrow>
     artifact list option \<Rightarrow> artifact list option \<Rightarrow> artifact list option \<Rightarrow>
     operation list panics res option" where
  "OrderOperations L srt it n fuel p2i0 p2u0 p2r0 =
     (case (p2i0, p2u0, p2r0) of
        (Some p2i, Some p2u, Some p2r) \<Rightarrow>
          (case tmp_ops srt it n fuel p2i p2u of
             None \<Rightarrow> None
           | Some (Inl e) \<Rightarrow> Some (Inl e)
           | Some (Inr tmpOps) \<Rightarrow>
               Some (Inr (pbind tmpOps (with_removes L (ToMap (p2i @ p2u)) p2r))))
      | _ \<Rightarrow> Some (Inl ''Invalid parameters to OrderOperations''))"

section \<open>Names\<close>

abbreviation op_name :: "operation \<Rightarrow> string" where
  "op_name op \<equiv> PackageName (art_pkg (opArtifact op))"

definition has_pkgs :: "artifact list \<Rightarrow> bool" where
  "has_pkgs as \<longleftrightarrow> (\<forall>a\<in>set as. GetPackage a \<noteq> None)"

lemma has_pkgs_key: "has_pkgs as \<Longrightarrow> a \<in> set as \<Longrightarrow> art_key a = PackageName (art_pkg a)"
  by (simp add: has_pkgs_def art_key_pkg)

lemma ToPackageThin_sel:
  "tName (ToPackageThin p) = pName p" "tCategory (ToPackageThin p) = pCategory p"
  "tRequires (ToPackageThin p) = map ToPackageThin (PackageRequires p)"
  by (cases p; simp)+

lemma ToPackageThin_PN: "PN (ToPackageThin p) = PackageName p"
  by (simp add: thin_PackageName_def PackageName_def ToPackageThin_sel)

definition thin_of :: "arts_map \<Rightarrow> artifact \<Rightarrow> package_thin" where
  "thin_of m a = hd (createThinPkgsPlist [a] m)"

lemma createThin_map: "createThinPkgsPlist as m = map (thin_of m) as"
  by (simp add: createThinPkgsPlist_def thin_of_def)

lemma thin_of_PN: "PN (thin_of m a) = PackageName (art_pkg a)"
  by (simp add: thin_of_def createThinPkgsPlist_def Let_def thin_PackageName_def PackageName_def ToPackageThin_sel)

lemma thin_of_requires:
  "set (tRequires (thin_of m a)) = {ToPackageThin r | r. r \<in> set (PackageRequires (art_pkg a)) \<and> gm_has m (PackageName r)}"
  by (auto simp: thin_of_def createThinPkgsPlist_def Let_def ToPackageThin_sel ToPackageThin_PN)

lemma createThin_names: "has_pkgs as \<Longrightarrow> map PN (createThinPkgsPlist as m) = map art_key as"
  by (simp add: createThin_map thin_of_PN has_pkgs_key)

lemma key_unique: "distinct (map art_key as) \<Longrightarrow> a \<in> set as \<Longrightarrow> filter (\<lambda>b. art_key b = art_key a) as = [a]"
proof (induction as)
  case (Cons x as)
  then show ?case by (cases "x = a") (auto simp: filter_empty_conv image_iff)
qed simp

lemma first_of_ToMap: "distinct (map art_key as) \<Longrightarrow> a \<in> set as \<Longrightarrow> first_of (ToMap as) (art_key a) = Returns a"
  by (simp add: first_of_def ToMap_get Let_def key_unique)

text \<open>The artifact of a name, where the names of the list are distinct.\<close>

definition art_named :: "artifact list \<Rightarrow> string \<Rightarrow> artifact" where
  "art_named as k = hd (filter (\<lambda>b. art_key b = k) as)"

lemma art_named_key: "distinct (map art_key as) \<Longrightarrow> a \<in> set as \<Longrightarrow> art_named as (art_key a) = a"
  by (simp add: art_named_def key_unique)

lemma first_of_named:
  "distinct (map art_key as) \<Longrightarrow> gm_has (ToMap as) k \<Longrightarrow>
   first_of (ToMap as) k = Returns (art_named as k) \<and> art_named as k \<in> set as \<and> art_key (art_named as k) = k"
  by (auto simp: ToMap_has first_of_ToMap art_named_key)

section \<open>The operations on a name\<close>

definition new_op :: "artifact list \<Rightarrow> artifact list \<Rightarrow> string \<Rightarrow> operation" where
  "new_op p2i p2u k =
     (if gm_has (ToMap p2i) k then NewOperation AddPackage (art_named p2i k)
      else NewOperation UpdatePackage (art_named p2u k))"

lemma ops_of_names:
  assumes "distinct (map art_key (p2i @ p2u))"
  shows "\<forall>p\<in>set ps. PN p \<in> art_key ` set (p2i @ p2u) \<Longrightarrow>
    ops_of (ToMap p2i) (ToMap p2u) ps = Returns (map (new_op p2i p2u \<circ> PN) ps)"
proof (induction ps)
  case (Cons p ps)
  have d: "distinct (map art_key p2i)" "distinct (map art_key p2u)" using assms by simp_all
  have "op_of (ToMap p2i) (ToMap p2u) p = Returns (new_op p2i p2u (PN p))"
  proof (cases "gm_has (ToMap p2i) (PN p)")
    case True
    then show ?thesis using first_of_named [OF d(1)] by (simp add: op_of_def new_op_def)
  next
    case False
    then have "gm_has (ToMap p2u) (PN p)" using Cons.prems by (auto simp: ToMap_has)
    then show ?thesis using False first_of_named [OF d(2)] by (simp add: op_of_def new_op_def)
  qed
  then show ?case using Cons by simp
qed simp

lemma new_op_art:
  assumes "distinct (map art_key (p2i @ p2u))"
  shows "a \<in> set p2i \<Longrightarrow> new_op p2i p2u (art_key a) = NewOperation AddPackage a"
    and "a \<in> set p2u \<Longrightarrow> new_op p2i p2u (art_key a) = NewOperation UpdatePackage a"
proof -
  have d: "distinct (map art_key p2i)" "distinct (map art_key p2u)"
    "art_key ` set p2i \<inter> art_key ` set p2u = {}" using assms by auto
  show "a \<in> set p2i \<Longrightarrow> new_op p2i p2u (art_key a) = NewOperation AddPackage a"
    using d by (auto simp: new_op_def ToMap_has art_named_key)
  show "a \<in> set p2u \<Longrightarrow> new_op p2i p2u (art_key a) = NewOperation UpdatePackage a"
    using d by (auto simp: new_op_def ToMap_has art_named_key)
qed

lemma map_new_op:
  assumes "distinct (map art_key (p2i @ p2u))"
  shows "map (new_op p2i p2u \<circ> art_key) (p2i @ p2u) =
    map (NewOperation AddPackage) p2i @ map (NewOperation UpdatePackage) p2u"
  using new_op_art [OF assms] by simp

lemma tmp_ops_names:
  assumes names: "distinct (map art_key (p2i @ p2u))" and pk: "has_pkgs (p2i @ p2u)"
    and sort: "length (p2i @ p2u) > 1 \<Longrightarrow>
      sortPkgsThinArr srt it n fuel (createThinPkgsPlist (p2i @ p2u) (ToMap (p2i @ p2u))) = Some (Inr ps) \<and>
      mset (map PN ps) = mset (map art_key (p2i @ p2u))"
  defines "ops \<equiv> (if length (p2i @ p2u) > 1 then map (new_op p2i p2u \<circ> PN) ps
                  else map (new_op p2i p2u \<circ> art_key) (p2i @ p2u))"
  shows "tmp_ops srt it n fuel p2i p2u = Some (Inr (Returns ops))"
    and "mset ops = mset (map (NewOperation AddPackage) p2i @ map (NewOperation UpdatePackage) p2u)"
proof -
  note art = new_op_art [OF names]
  consider "length (p2i @ p2u) > 1" | a where "p2i = [a]" "p2u = []" | a where "p2i = []" "p2u = [a]"
    | "p2i = []" "p2u = []"
    by (cases p2i; cases p2u; cases "tl p2i"; cases "tl p2u") auto
  then show "tmp_ops srt it n fuel p2i p2u = Some (Inr (Returns ops))"
  proof cases
    case 1
    then have "set (map PN ps) = art_key ` set (p2i @ p2u)"
      using sort by (metis list.set_map mset_eq_setD)
    then have "\<forall>p\<in>set ps. PN p \<in> art_key ` set (p2i @ p2u)" by auto
    from ops_of_names [OF names this] show ?thesis
      using sort [OF 1] 1 by (simp add: tmp_ops_def Let_def ops_def)
  qed (use art in \<open>simp_all add: tmp_ops_def ops_def\<close>)
  show "mset ops = mset (map (NewOperation AddPackage) p2i @ map (NewOperation UpdatePackage) p2u)"
  proof (cases "length (p2i @ p2u) > 1")
    case True
    then have "mset ops = image_mset (new_op p2i p2u) (mset (map PN ps))"
      by (simp add: ops_def multiset.map_comp)
    also have "\<dots> = image_mset (new_op p2i p2u) (mset (map art_key (p2i @ p2u)))"
      using sort [OF True] by simp
    also have "\<dots> = mset (map (new_op p2i p2u \<circ> art_key) (p2i @ p2u))"
      by (simp add: multiset.map_comp)
    finally show ?thesis by (simp only: map_new_op [OF names])
  next
    case False
    then show ?thesis unfolding ops_def by (simp only: map_new_op [OF names] if_False)
  qed
qed

section \<open>The removes in their places\<close>

definition rm_op :: "artifact list \<Rightarrow> operation \<Rightarrow> operation" where
  "rm_op p2r op = NewOperation RemovePackage (art_named p2r (op_name op))"

lemma place_op_spec:
  assumes "distinct (map art_key p2r)"
  shows "\<exists>ans' i'. place_op L (ToMap p2r) rmOps op (ans, i) = Returns (ans', i') \<and>
    (if gm_has (ToMap p2r) (op_name op)
     then \<exists>u v. ans = u @ v \<and> ans' = u @ [rm_op p2r op] @ v @ [op]
     else ans' = ans @ [op])"
proof (cases "gm_has (ToMap p2r) (op_name op)")
  case True
  define c where "c = conflict_loop L (art_pkg (opArtifact op)) ans rmOps i (-1)"
  have f: "first_of (ToMap p2r) (op_name op) = Returns (art_named p2r (op_name op))"
    using first_of_named [OF assms True] by blast
  consider "c = 0" | "c < 0" | "c > 0" by linarith
  then show ?thesis
  proof cases
    case 1
    then show ?thesis using True f by (intro exI) (auto simp: place_op_def Let_def c_def rm_op_def)
  next
    case 2
    then have "ans = ans @ []" by simp
    then show ?thesis using True f 2 by (auto simp: place_op_def Let_def c_def rm_op_def)
  next
    case 3
    have "place_op L (ToMap p2r) rmOps op (ans, i) =
        Returns (take (nat c) ans @ [rm_op p2r op] @ drop (nat c) ans @ [op], i + 2)"
      using True f 3 by (simp add: place_op_def Let_def c_def [symmetric] rm_op_def)
    moreover have "\<exists>u v. ans = u @ v \<and> take (nat c) ans @ [rm_op p2r op] @ drop (nat c) ans @ [op] =
        u @ [rm_op p2r op] @ v @ [op]"
      by (intro exI [of _ "take (nat c) ans"] exI [of _ "drop (nat c) ans"]) simp
    ultimately show ?thesis using True by (simp only: if_True) blast
  qed
next
  case False
  then show ?thesis by (simp add: place_op_def Let_def)
qed

lemma place_ops_spec:
  assumes "distinct (map art_key p2r)" "\<forall>op\<in>set ops. opAction op \<noteq> RemovePackage"
  shows "\<exists>ans' i'. place_ops L (ToMap p2r) rmOps ops (ans, i) = Returns (ans', i') \<and>
    mset ans' = mset ans + mset ops + mset (map (rm_op p2r) (filter (\<lambda>op. gm_has (ToMap p2r) (op_name op)) ops)) \<and>
    subseq ans ans' \<and>
    filter (\<lambda>op. opAction op \<noteq> RemovePackage) ans' = filter (\<lambda>op. opAction op \<noteq> RemovePackage) ans @ ops \<and>
    (\<forall>op\<in>set ops. gm_has (ToMap p2r) (op_name op) \<longrightarrow> subseq [rm_op p2r op, op] ans')"
  using assms(2)
proof (induction ops arbitrary: ans i)
  case (Cons op ops)
  let ?nr = "filter (\<lambda>op. opAction op \<noteq> RemovePackage)"
  obtain ans1 i1 where st: "place_op L (ToMap p2r) rmOps op (ans, i) = Returns (ans1, i1)"
    and sp: "if gm_has (ToMap p2r) (op_name op)
     then \<exists>u v. ans = u @ v \<and> ans1 = u @ [rm_op p2r op] @ v @ [op] else ans1 = ans @ [op]"
    using place_op_spec [OF assms(1)] by blast
  obtain ans2 i2 where IH: "place_ops L (ToMap p2r) rmOps ops (ans1, i1) = Returns (ans2, i2)"
    "mset ans2 = mset ans1 + mset ops + mset (map (rm_op p2r) (filter (\<lambda>op. gm_has (ToMap p2r) (op_name op)) ops))"
    "subseq ans1 ans2" "?nr ans2 = ?nr ans1 @ ops"
    "\<forall>op\<in>set ops. gm_has (ToMap p2r) (op_name op) \<longrightarrow> subseq [rm_op p2r op, op] ans2"
    using Cons.IH [of ans1 i1] Cons.prems by auto
  have nr: "opAction (rm_op p2r op) = RemovePackage" "opAction op \<noteq> RemovePackage"
    using Cons.prems by (simp_all add: rm_op_def)
  have "mset ans1 = mset ans + {#op#} + (if gm_has (ToMap p2r) (op_name op) then {#rm_op p2r op#} else {#})"
    using sp by (auto split: if_splits)
  moreover have "subseq ans ans1" using sp by (auto split: if_splits intro: list_emb_append_mono)
  moreover have "?nr ans1 = ?nr ans @ [op]" using sp nr by (auto split: if_splits)
  moreover have "gm_has (ToMap p2r) (op_name op) \<Longrightarrow> subseq [rm_op p2r op, op] ans1"
    using sp by (auto intro!: list_emb_append2 [of _ "[rm_op p2r op, op]"] simp: subseq_singleton_left)
  ultimately show ?case using st IH subseq_order.order_trans
    by (intro exI [of _ ans2] exI [of _ i2]) auto
qed auto

lemma remove_ops_names:
  assumes "distinct (map art_key p2r)" "has_pkgs p2r"
  shows "set as \<subseteq> set p2r \<Longrightarrow>
    remove_ops (ToMap p2r) (map (thin_of m) as) = Returns (map (NewOperation RemovePackage) as)"
proof (induction as)
  case (Cons a as)
  have "PN (thin_of m a) = art_key a"
    using Cons.prems assms(2) by (simp add: thin_of_PN has_pkgs_key)
  then show ?case using Cons first_of_ToMap [OF assms(1)] by simp
qed simp

lemma removed_names:
  assumes "distinct (map art_key p2r)" "distinct (map art_key merged)"
    and "mset (map op_name tmpOps) = mset (map art_key merged)"
  shows "mset (map (rm_op p2r) (filter (\<lambda>op. gm_has (ToMap p2r) (op_name op)) tmpOps)) =
    mset (map (NewOperation RemovePackage) (filter (\<lambda>a. gm_has (ToMap merged) (art_key a)) p2r))"
proof -
  let ?h = "\<lambda>k. NewOperation RemovePackage (art_named p2r k)"
  let ?rs = "filter (\<lambda>a. gm_has (ToMap merged) (art_key a)) p2r"
  have "mset (map (rm_op p2r) (filter (\<lambda>op. gm_has (ToMap p2r) (op_name op)) tmpOps)) =
      image_mset ?h (filter_mset (gm_has (ToMap p2r)) (mset (map op_name tmpOps)))"
    by (induction tmpOps) (simp_all add: rm_op_def)
  also have "filter_mset (gm_has (ToMap p2r)) (mset (map op_name tmpOps)) =
      mset (filter (gm_has (ToMap p2r)) (map art_key merged))"
    unfolding assms(3) by simp
  also have "\<dots> = mset (map art_key ?rs)"
  proof -
    have "distinct (filter (gm_has (ToMap p2r)) (map art_key merged))" "distinct (map art_key ?rs)"
      using assms(1,2) by (simp_all add: distinct_map_filter)
    moreover have "set (filter (gm_has (ToMap p2r)) (map art_key merged)) = set (map art_key ?rs)"
      by (auto simp: ToMap_has) (metis (mono_tags, lifting) imageI mem_Collect_eq)
    ultimately show ?thesis using set_eq_iff_mset_eq_distinct by blast
  qed
  also have "image_mset ?h (mset (map art_key ?rs)) = mset (map (\<lambda>a. ?h (art_key a)) ?rs)"
    by (simp add: multiset.map_comp comp_def)
  also have "map (\<lambda>a. ?h (art_key a)) ?rs = map (NewOperation RemovePackage) ?rs"
    using art_named_key [OF assms(1)] by simp
  finally show ?thesis .
qed

lemma with_removes_spec:
  assumes d: "distinct (map art_key p2r)" and pk: "has_pkgs p2r" and dm: "distinct (map art_key merged)"
    and nr: "\<forall>op\<in>set tmpOps. opAction op \<noteq> RemovePackage"
    and names: "mset (map op_name tmpOps) = mset (map art_key merged)"
  shows "\<exists>ops. with_removes L (ToMap merged) p2r tmpOps = Returns ops \<and>
    mset ops = mset (map (NewOperation RemovePackage) p2r) + mset tmpOps \<and>
    filter (\<lambda>op. opAction op \<noteq> RemovePackage) ops = tmpOps \<and>
    (\<forall>r\<in>set p2r. \<forall>op\<in>set tmpOps. art_key r = op_name op \<longrightarrow>
       subseq [NewOperation RemovePackage r, op] ops)"
proof (cases "p2r = [] \<or> tmpOps = []")
  case True
  show ?thesis
  proof (cases "p2r = []")
    case True
    then show ?thesis using nr by (simp add: with_removes_def filter_id_conv)
  next
    case False
    then show ?thesis using True remove_ops_names [OF d pk subset_refl]
      by (auto simp: with_removes_def Let_def createThin_map)
  qed
next
  case False
  have key: "PackageName (art_pkg a) = art_key a" if "a \<in> set p2r" for a
    using that pk by (simp add: has_pkgs_key)
  let ?new = "new_removes (ToMap merged) p2r"
  have new: "?new = map (NewOperation RemovePackage) (filter (\<lambda>a. \<not> gm_has (ToMap merged) (art_key a)) p2r)"
    unfolding new_removes_def using key by (metis (mono_tags, lifting) filter_cong)
  obtain ops i where ops: "place_ops L (ToMap p2r) (length ?new) tmpOps (?new, length ?new) = Returns (ops, i)"
    "mset ops = mset ?new + mset tmpOps + mset (map (rm_op p2r) (filter (\<lambda>op. gm_has (ToMap p2r) (op_name op)) tmpOps))"
    "filter (\<lambda>op. opAction op \<noteq> RemovePackage) ops = filter (\<lambda>op. opAction op \<noteq> RemovePackage) ?new @ tmpOps"
    "\<forall>op\<in>set tmpOps. gm_has (ToMap p2r) (op_name op) \<longrightarrow> subseq [rm_op p2r op, op] ops"
    using place_ops_spec [OF d nr, of L "length ?new" ?new "length ?new"] by auto
  have "mset ops = mset (map (NewOperation RemovePackage) p2r) + mset tmpOps"
  proof -
    have split: "mset (map (NewOperation RemovePackage) p2r) =
        mset (map (NewOperation RemovePackage) (filter (\<lambda>a. \<not> gm_has (ToMap merged) (art_key a)) p2r)) +
        mset (map (NewOperation RemovePackage) (filter (\<lambda>a. gm_has (ToMap merged) (art_key a)) p2r))"
      by (induction p2r) auto
    show ?thesis unfolding ops(2) new removed_names [OF d dm names] split by simp
  qed
  moreover have "filter (\<lambda>op. opAction op \<noteq> RemovePackage) ?new = []" by (simp add: new filter_empty_conv)
  moreover have "subseq [NewOperation RemovePackage r, op] ops"
    if "r \<in> set p2r" "op \<in> set tmpOps" "art_key r = op_name op" for r op
  proof -
    have "rm_op p2r op = NewOperation RemovePackage r"
      using art_named_key [OF d that(1)] that(3) by (simp add: rm_op_def)
    moreover have "gm_has (ToMap p2r) (op_name op)" using that by (force simp: ToMap_has)
    ultimately show ?thesis using ops(4) that(2) by auto
  qed
  ultimately show ?thesis using False ops(1,3) by (simp add: with_removes_def Let_def)
qed

section \<open>The theorems\<close>

definition acyclic_arts :: "(string \<Rightarrow> nat) \<Rightarrow> artifact list \<Rightarrow> bool" where
  "acyclic_arts rank as \<longleftrightarrow>
     (\<forall>a\<in>set as. \<forall>r\<in>set (PackageRequires (art_pkg a)). \<forall>b\<in>set as.
        PackageName r = art_key b \<longrightarrow> rank (art_key b) < rank (art_key a))"

lemma acyclic_thin:
  assumes "acyclic_arts rank as" "has_pkgs as"
  shows "acyclic_requires rank (set (createThinPkgsPlist as (ToMap as)))"
proof -
  have "PN r \<in> PN ` set (createThinPkgsPlist as (ToMap as)) \<and> rank (PN r) < rank (PN (thin_of (ToMap as) a))"
    if a: "a \<in> set as" and r: "r \<in> set (tRequires (thin_of (ToMap as) a))" for a r
  proof -
    obtain q where q: "r = ToPackageThin q" "q \<in> set (PackageRequires (art_pkg a))" "gm_has (ToMap as) (PackageName q)"
      using r by (auto simp: thin_of_requires)
    then obtain b where b: "b \<in> set as" "PackageName q = art_key b" by (auto simp: ToMap_has)
    then have "rank (art_key b) < rank (art_key a)" using assms(1) a q(2) by (auto simp: acyclic_arts_def)
    moreover have "PN (thin_of (ToMap as) a) = art_key a" "PN (thin_of (ToMap as) b) = art_key b"
      using a b assms(2) by (simp_all add: thin_of_PN has_pkgs_key)
    ultimately show ?thesis
      using b by (auto simp: q(1) ToPackageThin_PN createThin_map intro!: rev_image_eqI [OF imageI [OF b(1)]])
  qed
  then show ?thesis unfolding acyclic_requires_def createThin_map by auto
qed

lemma new_op_name: 
  assumes "distinct (map art_key (p2i @ p2u))" "has_pkgs (p2i @ p2u)" "a \<in> set (p2i @ p2u)"
  shows "op_name (new_op p2i p2u (art_key a)) = art_key a"
    and "opAction (new_op p2i p2u (art_key a)) \<noteq> RemovePackage"
    and "opArtifact (new_op p2i p2u (art_key a)) = a"
  using new_op_art [OF assms(1)] assms(2,3) by (auto simp: has_pkgs_key action_defs)

text \<open>
  The common part of the two theorems: once the sort has returned every name, the operations are one
  for each artifact, and a remove comes before the install or update of its package.
\<close>

lemma OrderOperations_sorted:
  assumes names: "distinct (map art_key (p2i @ p2u))" "distinct (map art_key p2r)"
    and pk: "has_pkgs (p2i @ p2u)" "has_pkgs p2r"
    and sort: "length (p2i @ p2u) > 1 \<Longrightarrow>
      sortPkgsThinArr srt it n fuel (createThinPkgsPlist (p2i @ p2u) (ToMap (p2i @ p2u))) = Some (Inr ps) \<and>
      mset (map PN ps) = mset (map art_key (p2i @ p2u))"
  shows "\<exists>ops. OrderOperations L srt it n fuel (Some p2i) (Some p2u) (Some p2r) = Some (Inr (Returns ops)) \<and>
    mset ops = mset (map (NewOperation AddPackage) p2i) + mset (map (NewOperation UpdatePackage) p2u) +
      mset (map (NewOperation RemovePackage) p2r) \<and>
    filter (\<lambda>op. opAction op \<noteq> RemovePackage) ops =
      (if length (p2i @ p2u) > 1 then map (new_op p2i p2u \<circ> PN) ps
       else map (new_op p2i p2u \<circ> art_key) (p2i @ p2u)) \<and>
    (\<forall>r\<in>set p2r. \<forall>a\<in>set (p2i @ p2u). art_key r = art_key a \<longrightarrow>
       subseq [NewOperation RemovePackage r, new_op p2i p2u (art_key a)] ops)"
proof -
  define tmpOps where "tmpOps = (if length (p2i @ p2u) > 1 then map (new_op p2i p2u \<circ> PN) ps
       else map (new_op p2i p2u \<circ> art_key) (p2i @ p2u))"
  have tmp: "tmp_ops srt it n fuel p2i p2u = Some (Inr (Returns tmpOps))"
    "mset tmpOps = mset (map (NewOperation AddPackage) p2i @ map (NewOperation UpdatePackage) p2u)"
    unfolding tmpOps_def by (rule tmp_ops_names [OF names(1) pk(1) sort]; assumption)+
  have ms: "mset tmpOps = mset (map (new_op p2i p2u \<circ> art_key) (p2i @ p2u))"
    unfolding tmp(2) by (simp only: map_new_op [OF names(1)])
  then have set: "set tmpOps = (new_op p2i p2u \<circ> art_key) ` set (p2i @ p2u)"
    by (metis list.set_map mset_eq_setD)
  have nr: "\<forall>op\<in>set tmpOps. opAction op \<noteq> RemovePackage"
    using set new_op_name(2) [OF names(1) pk(1)] by auto
  have "mset (map op_name tmpOps) = image_mset op_name (mset (map (new_op p2i p2u \<circ> art_key) (p2i @ p2u)))"
    using ms by simp
  also have "\<dots> = mset (map (\<lambda>a. op_name (new_op p2i p2u (art_key a))) (p2i @ p2u))"
    by (simp add: multiset.map_comp comp_def)
  also have "map (\<lambda>a. op_name (new_op p2i p2u (art_key a))) (p2i @ p2u) = map art_key (p2i @ p2u)"
    using new_op_name(1) [OF names(1) pk(1)] by (intro map_cong) simp_all
  finally have nm: "mset (map op_name tmpOps) = mset (map art_key (p2i @ p2u))" .
  obtain ops where ops: "with_removes L (ToMap (p2i @ p2u)) p2r tmpOps = Returns ops"
    "mset ops = mset (map (NewOperation RemovePackage) p2r) + mset tmpOps"
    "filter (\<lambda>op. opAction op \<noteq> RemovePackage) ops = tmpOps"
    "\<forall>r\<in>set p2r. \<forall>op\<in>set tmpOps. art_key r = op_name op \<longrightarrow> subseq [NewOperation RemovePackage r, op] ops"
    using with_removes_spec [OF names(2) pk(2) names(1) nr nm] by blast
  have "subseq [NewOperation RemovePackage r, new_op p2i p2u (art_key a)] ops"
    if "r \<in> set p2r" "a \<in> set (p2i @ p2u)" "art_key r = art_key a" for r a
    using ops(4) that set new_op_name(1) [OF names(1) pk(1) that(2)] by auto
  moreover have "OrderOperations L srt it n fuel (Some p2i) (Some p2u) (Some p2r) = Some (Inr (Returns ops))"
    by (simp add: OrderOperations_def tmp(1) ops(1))
  ultimately show ?thesis using ops(2,3) tmp(2) unfolding tmpOps_def by (intro exI [of _ ops]) (simp add: add_ac)
qed

lemma subseq_filter_pair: "subseq [x, y] (filter P zs) \<Longrightarrow> subseq [x, y] zs"
  using subseq_filter_left subseq_order.order_trans by blast

lemma subseq_nth_pair: "i < j \<Longrightarrow> j < length xs \<Longrightarrow> subseq [xs ! i, xs ! j] xs"
proof -
  assume ij: "i < j" "j < length xs"
  have "xs ! j \<in> set (drop (Suc i) xs)" using ij by (auto simp: in_set_conv_nth intro!: exI [of _ "j - Suc i"])
  then have "subseq [xs ! j] (drop (Suc i) xs)" by (simp add: subseq_singleton_left)
  then have "subseq (xs ! i # [xs ! j]) (xs ! i # drop (Suc i) xs)" by simp
  then have "subseq [xs ! i, xs ! j] (drop i xs)" using ij by (simp add: Cons_nth_drop_Suc)
  then show ?thesis using list_emb_append2 [of _ "[xs ! i, xs ! j]" "drop i xs" "take i xs"] by simp
qed

text \<open>
  C13: when the packages to install and update have no cycle of requires among them, \<open>OrderOperations\<close>
  returns exactly one operation for each artifact of the three packs, the right one for its pack;
  every package is installed or updated after all those it requires; and where a package of the same
  name is removed, the remove comes first.  No order of a map, no unstable sort and no answer of the
  conflict check changes that.
\<close>

theorem OrderOperations_correct:
  assumes "go_sort srt" "\<forall>n. map_order (it n)"
    and names: "distinct (map art_key (p2i @ p2u))" "distinct (map art_key p2r)"
    and pk: "has_pkgs (p2i @ p2u)" "has_pkgs p2r"
    and ac: "acyclic_arts rank (p2i @ p2u)" and fuel: "length (p2i @ p2u) < fuel"
  shows "\<exists>ops. OrderOperations L srt it n fuel (Some p2i) (Some p2u) (Some p2r) = Some (Inr (Returns ops)) \<and>
    mset ops = mset (map (NewOperation AddPackage) p2i) + mset (map (NewOperation UpdatePackage) p2u) +
      mset (map (NewOperation RemovePackage) p2r) \<and>
    (\<forall>a\<in>set (p2i @ p2u). \<forall>b\<in>set (p2i @ p2u). \<forall>r\<in>set (PackageRequires (art_pkg a)).
       PackageName r = art_key b \<longrightarrow>
       subseq [new_op p2i p2u (art_key b), new_op p2i p2u (art_key a)] ops) \<and>
    (\<forall>r\<in>set p2r. \<forall>a\<in>set (p2i @ p2u). art_key r = art_key a \<longrightarrow>
       subseq [NewOperation RemovePackage r, new_op p2i p2u (art_key a)] ops)"
proof -
  let ?m = "p2i @ p2u"
  let ?thin = "createThinPkgsPlist ?m (ToMap ?m)"
  have thin_names: "map PN ?thin = map art_key ?m" by (rule createThin_names [OF pk(1)])
  have dthin: "distinct (map PN ?thin)" unfolding thin_names by (rule names(1))
  have fuel': "length ?thin < fuel" using fuel by (simp add: createThin_map)
  obtain ps where ps: "sortPkgsThinArr srt it n fuel ?thin = Some (Inr ps)" "mset ps = mset ?thin"
    "deps_ordered {} ps"
    using sort_acyclic [OF assms(1,2) dthin acyclic_thin [OF ac pk(1)] fuel'] by blast
  have "mset (map PN ps) = mset (map PN ?thin)" using ps(2) by simp
  then have sort: "length ?m > 1 \<Longrightarrow> sortPkgsThinArr srt it n fuel ?thin = Some (Inr ps) \<and>
      mset (map PN ps) = mset (map art_key ?m)"
    using ps(1) thin_names by simp
  obtain ops where ops: "OrderOperations L srt it n fuel (Some p2i) (Some p2u) (Some p2r) = Some (Inr (Returns ops))"
    "mset ops = mset (map (NewOperation AddPackage) p2i) + mset (map (NewOperation UpdatePackage) p2u) +
      mset (map (NewOperation RemovePackage) p2r)"
    "filter (\<lambda>op. opAction op \<noteq> RemovePackage) ops =
      (if length ?m > 1 then map (new_op p2i p2u \<circ> PN) ps else map (new_op p2i p2u \<circ> art_key) ?m)"
    "\<forall>r\<in>set p2r. \<forall>a\<in>set ?m. art_key r = art_key a \<longrightarrow>
       subseq [NewOperation RemovePackage r, new_op p2i p2u (art_key a)] ops"
    using OrderOperations_sorted [OF names pk sort] by blast
  have "subseq [new_op p2i p2u (art_key b), new_op p2i p2u (art_key a)] ops"
    if a: "a \<in> set ?m" and b: "b \<in> set ?m" and r: "r \<in> set (PackageRequires (art_pkg a))" "PackageName r = art_key b"
    for a b r
  proof -
    have less: "rank (art_key b) < rank (art_key a)" using ac a b r by (auto simp: acyclic_arts_def)
    have "length ?m > 1"
    proof (rule ccontr)
      assume "\<not> length ?m > 1"
      then have "a = b" using a b by (cases ?m) auto
      then show False using less by simp
    qed
    then have fl: "filter (\<lambda>op. opAction op \<noteq> RemovePackage) ops = map (new_op p2i p2u \<circ> PN) ps" using ops(3) by simp
    have pn: "PN (thin_of (ToMap ?m) a) = art_key a" using a pk(1) by (simp add: thin_of_PN has_pkgs_key)
    have "thin_of (ToMap ?m) a \<in> set ps" using a ps(2) by (metis createThin_map imageI list.set_map mset_eq_setD)
    then obtain i where i: "i < length ps" "ps ! i = thin_of (ToMap ?m) a" by (auto simp: in_set_conv_nth)
    have "ToPackageThin r \<in> set (tRequires (ps ! i))"
      using r b by (auto simp: i(2) thin_of_requires ToMap_has)
    moreover have "deps_ordered {} (take i ps @ ps ! i # drop (Suc i) ps)"
      using ps(3) id_take_nth_drop [OF i(1)] by simp
    ultimately have "PN (ToPackageThin r) \<in> PN ` set (take i ps)" by (simp add: deps_ordered_append)
    then have "art_key b \<in> PN ` set (take i ps)" using r(2) by (simp add: ToPackageThin_PN)
    then obtain j where j: "j < i" "PN (ps ! j) = art_key b" using i(1) by (auto simp: in_set_conv_nth)
    have "subseq [map (new_op p2i p2u \<circ> PN) ps ! j, map (new_op p2i p2u \<circ> PN) ps ! i] (map (new_op p2i p2u \<circ> PN) ps)"
      using i(1) j(1) by (intro subseq_nth_pair) simp_all
    then have "subseq [new_op p2i p2u (art_key b), new_op p2i p2u (art_key a)] (filter (\<lambda>op. opAction op \<noteq> RemovePackage) ops)"
      using i j pn fl by simp
    then show ?thesis by (rule subseq_filter_pair)
  qed
  with ops show ?thesis by blast
qed

text \<open>
  \<open>OrderOperations\<close> always returns, whatever cycles the requires have.  An error is the sort's;
  else there is exactly one operation for each artifact of the three packs and a package is removed
  before it is installed or updated again.
\<close>

theorem OrderOperations_returns:
  assumes "go_sort srt" "\<forall>n. map_order (it n)"
    and names: "distinct (map art_key (p2i @ p2u))" "distinct (map art_key p2r)"
    and pk: "has_pkgs (p2i @ p2u)" "has_pkgs p2r"
    and ok: "names_ok (set (createThinPkgsPlist (p2i @ p2u) (ToMap (p2i @ p2u))))"
    and fuel: "7 * length (p2i @ p2u) + 6 < fuel" "2 * length (p2i @ p2u) < n"
  shows "(\<exists>e. OrderOperations L srt it n fuel (Some p2i) (Some p2u) (Some p2r) = Some (Inl e)) \<or>
    (\<exists>ops. OrderOperations L srt it n fuel (Some p2i) (Some p2u) (Some p2r) = Some (Inr (Returns ops)) \<and>
      mset ops = mset (map (NewOperation AddPackage) p2i) + mset (map (NewOperation UpdatePackage) p2u) +
        mset (map (NewOperation RemovePackage) p2r) \<and>
      (\<forall>r\<in>set p2r. \<forall>a\<in>set (p2i @ p2u). art_key r = art_key a \<longrightarrow>
         subseq [NewOperation RemovePackage r, new_op p2i p2u (art_key a)] ops))"
proof -
  let ?m = "p2i @ p2u"
  let ?thin = "createThinPkgsPlist ?m (ToMap ?m)"
  have thin_names: "map PN ?thin = map art_key ?m" by (rule createThin_names [OF pk(1)])
  have len: "length ?thin = length ?m" by (simp add: createThin_map)
  have dthin: "distinct (map PN ?thin)" unfolding thin_names by (rule names(1))
  have post: "loop_post (set ?thin) (sortPkgsThinArr srt it n fuel ?thin)"
    by (rule sort_total [OF assms(1,2) dthin ok]) (use fuel len in simp_all)
  show ?thesis
  proof (cases "length ?m > 1 \<and> (\<exists>e. sortPkgsThinArr srt it n fuel ?thin = Some (Inl e))")
    case True
    then show ?thesis by (auto simp: OrderOperations_def tmp_ops_def Let_def)
  next
    case False
    obtain ps where sort: "length ?m > 1 \<Longrightarrow> sortPkgsThinArr srt it n fuel ?thin = Some (Inr ps) \<and>
      mset (map PN ps) = mset (map art_key ?m)"
    proof (cases "length ?m > 1")
      case True
      then obtain ps pin where ps: "sortPkgsThinArr srt it n fuel ?thin = Some (Inr ps)"
        "sort_inv weaker (set ?thin) [] (ps, pin, [])"
        using False post by (auto simp: loop_post_def split: option.splits sum.splits)
      note D = sort_invD [OF ps(2)]
      have "set (map PN ps) = set (map PN ?thin)" using D(8) by auto
      then have "set (map PN ps) = set (map art_key ?m)" by (simp only: thin_names)
      then have "mset (map PN ps) = mset (map art_key ?m)"
        using set_eq_iff_mset_eq_distinct D(2) names(1) by blast
      with ps(1) that show ?thesis by blast
    qed (use that in blast)
    show ?thesis using OrderOperations_sorted [OF names pk sort, of L] by blast
  qed
qed

section \<open>An example\<close>

definition ex_new :: artifact where
  "ex_new = art_of (NewPackageWithCat ''x'' ''a'' ''1'' [NewPackageWithCatThin ''x'' ''b'' ''>=1''] [])"

definition ex_upd :: artifact where
  "ex_upd = art_of (NewPackageWithCatThin ''x'' ''b'' ''2'')"

definition ex_old :: artifact where
  "ex_old = art_of (NewPackageWithCatThin ''x'' ''b'' ''1'')"

lemma ex_keys: "art_key ex_new = ''x/a''" "art_key ex_upd = ''x/b''" "art_key ex_old = ''x/b''"
  by code_simp+

lemma ex_pkgs: "has_pkgs [ex_new, ex_upd]" "has_pkgs [ex_old]"
  by (simp_all add: has_pkgs_def ex_new_def ex_upd_def ex_old_def)

lemma ex_requires:
  "PackageRequires (art_pkg ex_new) = [NewPackageWithCatThin ''x'' ''b'' ''>=1'']" "PackageRequires (art_pkg ex_upd) = []"
  by code_simp+

lemma ex_acyclic: "acyclic_arts (\<lambda>k. if k = ''x/a'' then 1 else 0) ([ex_new] @ [ex_upd])"
proof -
  have "PackageName (NewPackageWithCatThin ''x'' ''b'' ''>=1'') = ''x/b''" by code_simp
  then show ?thesis by (simp add: acyclic_arts_def ex_requires ex_keys)
qed

theorem OrderOperations_correct_witness:
  "\<exists>ops. OrderOperations plain_lib insertion_sort (\<lambda>_. rev) 0 3 (Some [ex_new]) (Some [ex_upd]) (Some [ex_old])
      = Some (Inr (Returns ops)) \<and> length ops = 3"
proof -
  have names: "distinct (map art_key ([ex_new] @ [ex_upd]))" "distinct (map art_key [ex_old])"
    by (simp_all add: ex_keys)
  have pk: "has_pkgs ([ex_new] @ [ex_upd])" "has_pkgs [ex_old]" using ex_pkgs by simp_all
  have it: "\<forall>n::nat. map_order rev" by (simp add: rev_order.map_order_axioms)
  have len: "length ([ex_new] @ [ex_upd]) < 3" by simp
  obtain ops where ops: "OrderOperations plain_lib insertion_sort (\<lambda>_. rev) 0 3 (Some [ex_new]) (Some [ex_upd]) (Some [ex_old])
      = Some (Inr (Returns ops))"
    and m: "mset ops = mset (map (NewOperation AddPackage) [ex_new]) + mset (map (NewOperation UpdatePackage) [ex_upd]) +
      mset (map (NewOperation RemovePackage) [ex_old])"
    using OrderOperations_correct [OF isort.go_sort_axioms it names pk ex_acyclic len, of plain_lib 0] by blast
  have "size (mset ops) = 3" unfolding m by simp
  then have "length ops = 3" by simp
  with ops show ?thesis by blast
qed

theorem OrderOperations_returns_witness:
  "OrderOperations plain_lib insertion_sort (\<lambda>_ ks. ks) 5 21 (Some [ex_new]) (Some [ex_upd]) (Some [ex_old]) \<noteq> None"
proof -
  have names: "distinct (map art_key ([ex_new] @ [ex_upd]))" "distinct (map art_key [ex_old])"
    by (simp_all add: ex_keys)
  have pk: "has_pkgs ([ex_new] @ [ex_upd])" "has_pkgs [ex_old]" using ex_pkgs by simp_all
  have it: "\<forall>n::nat. map_order (\<lambda>ks. ks)" by (simp add: id_order.map_order_axioms)
  have "\<forall>p\<in>set (createThinPkgsPlist ([ex_new] @ [ex_upd]) (ToMap ([ex_new] @ [ex_upd]))) \<union>
      required (set (createThinPkgsPlist ([ex_new] @ [ex_upd]) (ToMap ([ex_new] @ [ex_upd])))). proper_name p"
    by code_simp
  then have ok: "names_ok (set (createThinPkgsPlist ([ex_new] @ [ex_upd]) (ToMap ([ex_new] @ [ex_upd]))))"
    by (rule proper_names_ok)
  have "7 * length ([ex_new] @ [ex_upd]) + 6 < 21" "2 * length ([ex_new] @ [ex_upd]) < 5" by simp_all
  from OrderOperations_returns [OF isort.go_sort_axioms it names pk ok this, of plain_lib]
  show ?thesis by auto
qed

end
