(* ===== verification/SolverState.thy ===== *)
theory SolverState
  imports OrderOps
begin

text \<open>
  The state of the solver (\<open>Solver\<close> of \<open>pkg/v2/solver/solver.go\<close>), what it is given, and the queries
  on the installed system that installation and upgrade share: \<open>prepareConflictsAndSystemMap\<close>,
  \<open>artefactIsInConflict\<close>, \<open>artefactAdmitByQueue\<close> of \<open>solver.go\<close>, \<open>PkgsMapList\<close> of
  \<open>pkg/package/map.go\<close>, and the search options of \<open>pkg/v2/repository/wagon_stones.go\<close>.

  A function of the solver returns an outcome and the state; the state is also there after an error,
  since the code goes on with what it had changed.  \<open>Fuel\<close> is the outcome of a recursion deeper than
  the bound given.  The searcher over the repositories is a parameter, \<open>seSearch\<close>.
\<close>

section \<open>Outcomes\<close>

datatype 'a outcome = Ok 'a | Err err | Panic string | Fuel

fun of_res :: "'a res \<Rightarrow> 'a outcome" where
  "of_res (Inl e) = Err e"
| "of_res (Inr a) = Ok a"

fun of_panics :: "'a panics \<Rightarrow> 'a outcome" where
  "of_panics (Panics e) = Panic e"
| "of_panics (Returns a) = Ok a"

definition isErr :: "'a outcome \<Rightarrow> bool" where
  "isErr r = (case r of Err _ \<Rightarrow> True | _ \<Rightarrow> False)"

text \<open>
  Sequencing: a call's value goes on with the state it left, any other outcome ends with it.
  \<open>obind_err\<close> also gives the caller the error.
\<close>

fun obind :: "'a outcome \<times> 's \<Rightarrow> ('a \<Rightarrow> 's \<Rightarrow> 'b outcome \<times> 's) \<Rightarrow> 'b outcome \<times> 's" where
  "obind (Ok a, s) f = f a s"
| "obind (Err e, s) f = (Err e, s)"
| "obind (Panic e, s) f = (Panic e, s)"
| "obind (Fuel, s) f = (Fuel, s)"

fun obind_err ::
    "'a outcome \<times> 's \<Rightarrow> (err \<Rightarrow> 's \<Rightarrow> 'b outcome \<times> 's) \<Rightarrow> ('a \<Rightarrow> 's \<Rightarrow> 'b outcome \<times> 's) \<Rightarrow>
     'b outcome \<times> 's" where
  "obind_err (Ok a, s) g f = f a s"
| "obind_err (Err e, s) g f = g e s"
| "obind_err (Panic e, s) g f = (Panic e, s)"
| "obind_err (Fuel, s) g f = (Fuel, s)"

lemma obind_OkD: "obind m f = (Ok b, st') \<Longrightarrow> \<exists>a st1. m = (Ok a, st1) \<and> f a st1 = (Ok b, st')"
  by (cases m; cases "fst m") auto

lemma obind_err_OkD:
  "obind_err m g f = (Ok b, st') \<Longrightarrow>
   (\<exists>a st1. m = (Ok a, st1) \<and> f a st1 = (Ok b, st')) \<or> (\<exists>e st1. m = (Err e, st1) \<and> g e st1 = (Ok b, st'))"
  by (cases m; cases "fst m") auto

section \<open>Search options\<close>

record search_opts =
  soPackages :: "default_package list"
  soCategories :: "string list"
  soNames :: "string list"
  soLabels :: "string list"
  soLabelsMatches :: "string list"
  soMatches :: "string list"
  soFilesOwner :: "string list"
  soAnnotations :: "string list"
  soHidden :: bool
  soAndCondition :: bool
  soWithFiles :: bool
  soWithRootfsPrefix :: bool
  soFull :: bool
  soOnlyPackages :: bool
  soIgnoreMasks :: bool

definition pkgs_search :: "bool \<Rightarrow> bool \<Rightarrow> default_package list \<Rightarrow> search_opts" where
  "pkgs_search hidden ignoreMasks ps =
     \<lparr>soPackages = ps, soCategories = [], soNames = [], soLabels = [], soLabelsMatches = [],
      soMatches = [], soFilesOwner = [], soAnnotations = [], soHidden = hidden,
      soAndCondition = False, soWithFiles = True, soWithRootfsPrefix = False, soFull = True,
      soOnlyPackages = True, soIgnoreMasks = ignoreMasks\<rparr>"

section \<open>Maps of packages\<close>

type_synonym pkgs_map = "default_package list gomap"

definition pm_Add :: "string \<Rightarrow> default_package \<Rightarrow> pkgs_map \<Rightarrow> pkgs_map" where
  "pm_Add k p pm =
     (case gm_get pm k of Some val \<Rightarrow> gm_set k (val @ [p]) pm | None \<Rightarrow> gm_set k [p] pm)"

fun pm_add_keys :: "default_package list \<Rightarrow> default_package \<Rightarrow> pkgs_map \<Rightarrow> pkgs_map" where
  "pm_add_keys [] p pm = pm"
| "pm_add_keys (c # cs) p pm = pm_add_keys cs p (pm_Add (PackageName c) p pm)"

section \<open>State and environment\<close>

text \<open>
  \<open>rangeNo\<close> counts the ranges over maps, so that the order of each is its own; the code has no such
  field.  \<open>seRepos\<close> is the map of the repositories with their priorities, None while it is nil.
\<close>

record solver_state =
  conflictsMap :: pkgs_map
  systemMap :: pkgs_map
  providesMap :: pkgs_map
  requiresMap :: pkgs_map
  availableArtsMap :: arts_map
  candidatesMap :: arts_map
  seRepos :: "int gomap option"
  rangeNo :: nat

type_synonym gentoo_sort = "(gentoo_pkg \<Rightarrow> gentoo_pkg \<Rightarrow> bool) \<Rightarrow> gentoo_pkg list \<Rightarrow> gentoo_pkg list"

record solver_env =
  seLib :: lib
  seOrder :: "nat \<Rightarrow> string list \<Rightarrow> string list"
  seArtSort :: art_sort
  seGentooSort :: gentoo_sort
  seOpts :: solver_opts
  seSearch :: "search_opts \<Rightarrow> artifact list res"

definition NewSolver :: solver_state where
  "NewSolver = \<lparr>conflictsMap = [], systemMap = [], providesMap = [], requiresMap = [],
     availableArtsMap = [], candidatesMap = [], seRepos = None, rangeNo = 0\<rparr>"

definition st_range :: "solver_env \<Rightarrow> solver_state \<Rightarrow> 'v gomap \<Rightarrow> (string \<times> 'v) list" where
  "st_range E st m = gm_range (seOrder E (rangeNo st)) m"

definition next_range :: "solver_state \<Rightarrow> solver_state" where
  "next_range st = st\<lparr>rangeNo := Suc (rangeNo st)\<rparr>"

section \<open>The maps of the installed system\<close>

definition prepare_one :: "solver_env \<Rightarrow> bool \<Rightarrow> default_package \<Rightarrow> solver_state \<Rightarrow> solver_state" where
  "prepare_one E withReverseRequires p st =
     (let st = (if \<not> IgnoreConflicts (seOpts E)
                then st\<lparr>conflictsMap := pm_add_keys (PackageConflicts p) p (conflictsMap st)\<rparr> else st);
          st = st\<lparr>providesMap := pm_add_keys (Provides p) p (providesMap st)\<rparr>;
          st = (if withReverseRequires
                then st\<lparr>requiresMap := pm_add_keys (PackageRequires p) p (requiresMap st)\<rparr> else st)
      in st\<lparr>systemMap := pm_Add (PackageName p) p (systemMap st)\<rparr>)"

fun prepare_all :: "solver_env \<Rightarrow> bool \<Rightarrow> default_package list \<Rightarrow> solver_state \<Rightarrow> solver_state" where
  "prepare_all E w [] st = st"
| "prepare_all E w (p # ps) st = prepare_all E w ps (prepare_one E w p st)"

definition prepareConflictsAndSystemMap ::
    "solver_env \<Rightarrow> default_package list \<Rightarrow> bool \<Rightarrow> solver_state \<Rightarrow> solver_state" where
  "prepareConflictsAndSystemMap E systemPkgs withReverseRequires st =
     (let st = st\<lparr>conflictsMap := [], systemMap := [], providesMap := []\<rparr>;
          st = (if withReverseRequires then st\<lparr>requiresMap := []\<rparr> else st)
      in prepare_all E withReverseRequires systemPkgs st)"

section \<open>Queries\<close>

text \<open>The code reads \<open>val[0]\<close> of a list of a \<open>PkgsMapList\<close>; none of its lists is empty.\<close>

text \<open>The boolean of \<open>valid, _ := c.Admit(p)\<close>: false with an error.\<close>

definition admit_bool :: "bool res \<Rightarrow> bool" where
  "admit_bool r = (case r of Inl _ \<Rightarrow> False | Inr b \<Rightarrow> b)"

fun conflicts_loop :: "lib \<Rightarrow> default_package \<Rightarrow> default_package list \<Rightarrow> bool" where
  "conflicts_loop L p [] = False"
| "conflicts_loop L p (c # cc) = (if \<not> admit_bool (Admit L c p) then True else conflicts_loop L p cc)"

fun own_conflicts :: "lib \<Rightarrow> pkgs_map \<Rightarrow> default_package \<Rightarrow> default_package list \<Rightarrow> bool" where
  "own_conflicts L sys p [] = False"
| "own_conflicts L sys p (c # cs) =
     (case gm_get sys (PackageName c) of
        Some (v # vs) \<Rightarrow>
          if \<not> admit_bool (Admit L p v) then
            (if GetProvidePackage p (PackageName v) \<noteq> None then own_conflicts L sys p cs else True)
          else own_conflicts L sys p cs
      | _ \<Rightarrow> own_conflicts L sys p cs)"

definition artefactIsInConflict :: "solver_env \<Rightarrow> solver_state \<Rightarrow> artifact \<Rightarrow> bool" where
  "artefactIsInConflict E st art =
     (let p = art_pkg art
      in if (case gm_get (conflictsMap st) (PackageName p) of
               Some cc \<Rightarrow> conflicts_loop (seLib E) p cc | None \<Rightarrow> False) then True
         else own_conflicts (seLib E) (systemMap st) p (PackageConflicts p))"

fun queue_loop :: "lib \<Rightarrow> artifact \<Rightarrow> (string \<times> artifact list) list \<Rightarrow> bool outcome" where
  "queue_loop L art [] = Ok True"
| "queue_loop L art ((k, arts) # es) =
     (case arts of
        [] \<Rightarrow> Panic ''index out of range [0] with length 0''
      | artInQueue # _ \<Rightarrow>
          (case Admit L (art_pkg artInQueue) (art_pkg art) of
             Inl e \<Rightarrow> Err e
           | Inr admit \<Rightarrow> if \<not> admit then Ok admit else queue_loop L art es))"

definition artefactAdmitByQueue ::
    "solver_env \<Rightarrow> artifact \<Rightarrow> solver_state \<Rightarrow> bool outcome \<times> solver_state" where
  "artefactAdmitByQueue E art st =
     (if length (candidatesMap st) > 0
      then (queue_loop (seLib E) art (st_range E st (candidatesMap st)), next_range st)
      else (Ok True, st))"

end
