(* ===== verification/Mask.thy ===== *)
theory Mask
  imports SolverState
begin

text \<open>
  Package masks, \<open>pkg/v2/repository/mask\<close>: a file of rules indexed by category, slot and name
  (\<open>file.go\<close>), and the manager that loads the files and asks them in order (\<open>manager.go\<close>).  The
  directories, their files and the YAML decoder are parameters: a directory is a listing whose
  entries carry what reading and decoding them gives.
\<close>

section \<open>Files of rules\<close>

record mask_file =
  mfFile :: string
  mfEnabled :: bool
  mfRules :: "string list"
  mfMap :: "gentoo_pkg list gomap"

definition NewPackageMaskFile :: "string \<Rightarrow> mask_file" where
  "NewPackageMaskFile file = \<lparr>mfFile = file, mfEnabled = True, mfRules = [], mfMap = []\<rparr>"

definition getPkgStr :: "gentoo_pkg \<Rightarrow> string" where
  "getPkgStr p =
     gpCategory p @ (if gpSlot p \<noteq> [] \<and> gpSlot p \<noteq> ''0'' then ''-'' @ gpSlot p else []) @ ''/'' @ gpName p"

text \<open>The rules before the one that does not parse are in the map when \<open>BuildMap\<close> fails.\<close>

fun build_map ::
    "lib \<Rightarrow> string list \<Rightarrow> gentoo_pkg list gomap \<Rightarrow> err option \<times> gentoo_pkg list gomap" where
  "build_map L [] m = (None, m)"
| "build_map L (rule # rs) m =
     (case ParsePackageStr L rule of
        Inl e \<Rightarrow> (Some e, m)
      | Inr p \<Rightarrow> build_map L rs (gm_append (getPkgStr p) p m))"

definition BuildMap :: "lib \<Rightarrow> mask_file \<Rightarrow> err option \<times> mask_file" where
  "BuildMap L f = (let (e, m) = build_map L (mfRules f) (mfMap f) in (e, f\<lparr>mfMap := m\<rparr>))"

fun mask_loop :: "lib \<Rightarrow> string \<Rightarrow> gentoo_pkg \<Rightarrow> gentoo_pkg list \<Rightarrow> bool res" where
  "mask_loop L repo p [] = Inr False"
| "mask_loop L repo p (pm # pms) =
     (if gpRepository pm \<noteq> [] \<and> gpRepository pm \<noteq> repo then mask_loop L repo p pms
      else case gp_Admit L pm p of
        Inl e \<Rightarrow> Inl e
      | Inr admit \<Rightarrow> if admit then Inr True else mask_loop L repo p pms)"

text \<open>The package is None for a nil pointer.\<close>

definition Mask :: "lib \<Rightarrow> string \<Rightarrow> gentoo_pkg option \<Rightarrow> mask_file \<Rightarrow> bool res" where
  "Mask L repo p f =
     (case p of
        None \<Rightarrow> Inl ''Invalid package''
      | Some p \<Rightarrow>
         (case gm_get (mfMap f) (getPkgStr p) of
            Some pkgs \<Rightarrow> mask_loop L repo p pkgs
          | None \<Rightarrow> Inr False))"

section \<open>The manager\<close>

text \<open>
  The two results of \<open>IsMasked\<close>: \<open>(true, err)\<close> with an error.
\<close>

fun IsMasked :: "lib \<Rightarrow> string \<Rightarrow> gentoo_pkg option \<Rightarrow> mask_file list \<Rightarrow> bool \<times> err option" where
  "IsMasked L repo p [] = (False, None)"
| "IsMasked L repo p (f # fs) =
     (case Mask L repo p f of
        Inl e \<Rightarrow> (True, Some e)
      | Inr masked \<Rightarrow> if masked then (True, None) else IsMasked L repo p fs)"

text \<open>
  The regular expression \<open>.yml$|.yaml$\<close>, whose dot is any character but a newline.
\<close>

definition yaml_name :: "string \<Rightarrow> bool" where
  "yaml_name s =
     ((HasSuffix s ''yml'' \<and> length s \<ge> 4 \<and> s ! (length s - 4) \<noteq> CHR 0x0A) \<or>
      (HasSuffix s ''yaml'' \<and> length s \<ge> 5 \<and> s ! (length s - 5) \<noteq> CHR 0x0A))"

text \<open>
  An entry of a directory: its name, whether it is a directory, and the file read and decoded.
\<close>

record mask_entry =
  meName :: string
  meIsDir :: bool
  meContent :: "mask_file res res"

fun load_dir :: "lib \<Rightarrow> mask_entry list \<Rightarrow> mask_file list \<Rightarrow> mask_file list res" where
  "load_dir L [] files = Inr files"
| "load_dir L (e # es) files =
     (if meIsDir e then load_dir L es files
      else if \<not> yaml_name (meName e) then load_dir L es files
      else case meContent e of
        Inl err \<Rightarrow> load_dir L es files
      | Inr (Inl err) \<Rightarrow> load_dir L es files
      | Inr (Inr pmf) \<Rightarrow>
         (if \<not> mfEnabled pmf then load_dir L es files
          else case BuildMap L pmf of
            (Some err, f) \<Rightarrow> Inl err
          | (None, f) \<Rightarrow> load_dir L es (files @ [f])))"

fun load_dirs :: "lib \<Rightarrow> mask_entry list res list \<Rightarrow> mask_file list \<Rightarrow> mask_file list res" where
  "load_dirs L [] files = Inr files"
| "load_dirs L (d # ds) files =
     (case d of
        Inl err \<Rightarrow> load_dirs L ds files
      | Inr es \<Rightarrow>
         (case load_dir L es files of
            Inl err \<Rightarrow> Inl err
          | Inr files' \<Rightarrow> load_dirs L ds files'))"

text \<open>\<open>rootErr\<close> is the error of the absolute root, asked for unless the configuration is the host's.\<close>

definition LoadFiles ::
    "lib \<Rightarrow> bool \<Rightarrow> err option \<Rightarrow> mask_entry list res list \<Rightarrow> mask_file list res" where
  "LoadFiles L configFromHost rootErr dirs =
     (if \<not> configFromHost \<and> rootErr \<noteq> None then Inl (the rootErr)
      else if length dirs > 0 then load_dirs L dirs [] else Inr [])"

section \<open>What a mask hides\<close>

lemma build_map_get:
  "build_map L rules m = (None, m') \<Longrightarrow>
     (\<forall>r\<in>set rules. ok (ParsePackageStr L r)) \<and>
     (case gm_get m' k of Some v \<Rightarrow> v | None \<Rightarrow> []) =
       (case gm_get m k of Some v \<Rightarrow> v | None \<Rightarrow> []) @
       filter (\<lambda>p. getPkgStr p = k) (map (\<lambda>r. projr (ParsePackageStr L r)) rules)"
proof (induction rules arbitrary: m)
  case (Cons r rs)
  then obtain p where p: "ParsePackageStr L r = Inr p" by (auto split: sum.splits)
  with Cons.prems have "build_map L rs (gm_append (getPkgStr p) p m) = (None, m')" by simp
  from Cons.IH [OF this] p show ?case by (auto split: option.splits)
qed simp

text \<open>
  The rules of a file that concern a package in a repository, in the order of the file: those of its category,
  slot and name that name no other repository.
\<close>

definition rules_for :: "lib \<Rightarrow> string \<Rightarrow> gentoo_pkg \<Rightarrow> mask_file \<Rightarrow> gentoo_pkg list" where
  "rules_for L repo p f =
     filter (\<lambda>r. getPkgStr r = getPkgStr p \<and> (gpRepository r = [] \<or> gpRepository r = repo))
       (map (\<lambda>r. projr (ParsePackageStr L r)) (mfRules f))"

text \<open>What the first of some rules that does not pass the package over says.\<close>

definition first_says :: "lib \<Rightarrow> gentoo_pkg \<Rightarrow> gentoo_pkg list \<Rightarrow> bool res" where
  "first_says L p rs = (case find (\<lambda>r. gp_Admit L r p \<noteq> Inr False) rs of Some r \<Rightarrow> gp_Admit L r p | None \<Rightarrow> Inr False)"

lemma first_says_append:
  "first_says L p (rs @ ss) = (if first_says L p rs = Inr False then first_says L p ss else first_says L p rs)"
  by (induction rs) (auto simp: first_says_def)

lemma mask_loop_first:
  "mask_loop L repo p pms = first_says L p (filter (\<lambda>r. gpRepository r = [] \<or> gpRepository r = repo) pms)"
  by (induction pms) (auto simp: first_says_def split: sum.splits)

lemma Mask_first:
  assumes "mfMap f0 = []" "BuildMap L f0 = (None, f)"
  shows "Mask L repo (Some p) f = first_says L p (rules_for L repo p f0)"
proof -
  from assms obtain m where m: "build_map L (mfRules f0) [] = (None, m)" "mfMap f = m"
    by (auto simp: BuildMap_def split: prod.splits)
  let ?rs = "filter (\<lambda>q. getPkgStr q = getPkgStr p) (map (\<lambda>r. projr (ParsePackageStr L r)) (mfRules f0))"
  have "(case gm_get m (getPkgStr p) of Some v \<Rightarrow> v | None \<Rightarrow> []) = ?rs"
    using build_map_get [OF m(1), of "getPkgStr p"] by simp
  then have "Mask L repo (Some p) f = mask_loop L repo p ?rs"
    by (cases "gm_get m (getPkgStr p)") (auto simp: Mask_def m(2))
  also have "\<dots> = first_says L p (rules_for L repo p f0)"
    by (simp add: mask_loop_first rules_for_def conj_commute)
  finally show ?thesis .
qed

text \<open>
  C20: The mask of a package, for any files whose rules parse: of the rules of its category, slot and name that
  name no other repository, in the order of the files, the first that does not pass it over decides; the package
  is masked when that rule admits it, masked with an error when the two cannot be compared, and free when there
  is no such rule.
\<close>

theorem IsMasked_spec:
  assumes "list_all2 (\<lambda>f0 f. mfMap f0 = [] \<and> BuildMap L f0 = (None, f)) fs0 fs"
  shows "IsMasked L repo (Some p) fs =
    (case find (\<lambda>r. gp_Admit L r p \<noteq> Inr False) (concat (map (rules_for L repo p) fs0)) of
       None \<Rightarrow> (False, None)
     | Some r \<Rightarrow> (True, case gp_Admit L r p of Inl e \<Rightarrow> Some e | Inr _ \<Rightarrow> None))"
proof -
  have *: "IsMasked L repo (Some p) fs =
      (case first_says L p (concat (map (rules_for L repo p) fs0)) of Inl e \<Rightarrow> (True, Some e) | Inr b \<Rightarrow> (b, None))"
    using assms
  proof (induction rule: list_all2_induct)
    case Nil
    show ?case by (simp add: first_says_def)
  next
    case (Cons f0 fs0 f fs)
    then show ?case using Mask_first [of f0 L f repo p] by (auto simp: first_says_append split: sum.split)
  qed
  then show ?thesis
  proof (cases "find (\<lambda>r. gp_Admit L r p \<noteq> Inr False) (concat (map (rules_for L repo p) fs0))")
    case (Some r)
    then have "gp_Admit L r p \<noteq> Inr False" by (auto simp: find_Some_iff)
    with Some * show ?thesis by (cases "gp_Admit L r p") (simp_all add: first_says_def)
  qed (simp add: first_says_def)
qed

text \<open>
  A file with a rule for another package, one for another repository and one for the package.
\<close>

definition three_rules :: mask_file where
  "three_rules = (NewPackageMaskFile ''m'')\<lparr>mfRules := [''c/bar-1.0'', ''c/foo-2.0'', ''c/foo-1.0'']\<rparr>"

lemma three_rules_built: "fst (BuildMap plain_lib three_rules) = None"
  by code_simp

theorem IsMasked_spec_witness:
  "IsMasked plain_lib ''r'' (Some (projr (plain_parse ''c/foo-1.0''))) [snd (BuildMap plain_lib three_rules)] = (True, None) \<and>
   IsMasked plain_lib ''r'' (Some (projr (plain_parse ''c/foo-3.0''))) [snd (BuildMap plain_lib three_rules)] = (False, None)"
proof -
  have f: "find (\<lambda>r. gp_Admit plain_lib r (projr (plain_parse ''c/foo-1.0'')) \<noteq> Inr False)
      (concat (map (rules_for plain_lib ''r'' (projr (plain_parse ''c/foo-1.0''))) [three_rules])) =
      Some (projr (plain_parse ''c/foo-1.0''))"
    "gp_Admit plain_lib (projr (plain_parse ''c/foo-1.0'')) (projr (plain_parse ''c/foo-1.0'')) = Inr True"
    "find (\<lambda>r. gp_Admit plain_lib r (projr (plain_parse ''c/foo-3.0'')) \<noteq> Inr False)
      (concat (map (rules_for plain_lib ''r'' (projr (plain_parse ''c/foo-3.0''))) [three_rules])) = None"
    by code_simp+
  have "list_all2 (\<lambda>f0 f. mfMap f0 = [] \<and> BuildMap plain_lib f0 = (None, f)) [three_rules] [snd (BuildMap plain_lib three_rules)]"
    using three_rules_built by (simp add: prod_eq_iff three_rules_def NewPackageMaskFile_def)
  note masked = IsMasked_spec [OF this, of "''r''"]
  show ?thesis unfolding masked f by (simp add: f(2))
qed

end
