(* ===== verification/Stones.thy ===== *)
theory Stones
  imports Mask
begin

text \<open>
  The search over a repository, \<open>pkg/v2/repository/wagon_stones.go\<close>: the catalog in memory
  (\<open>SearchArtifactsFromCatalog\<close>), the tree of directories (\<open>SearchArtifacts\<close>, \<open>analyzeCatDir\<close>,
  \<open>analyzePackageDir\<close>, \<open>searchProvides\<close>), and the stones made of the artifacts found.

  Parameters: \<open>rx\<close>, the compiler of regular expressions (None where \<open>MustCompile\<close> panics), and
  \<open>repo_fs\<close>, what reading the directories and files of the repository gives, each file decoded.
  \<open>analyzeCatDir\<close> runs in one goroutine for each category, each with a channel of its own, and the
  answers are received in the order of the categories, so the search is a function.
\<close>

section \<open>Regular expressions\<close>

type_synonym rx = "string \<Rightarrow> (string \<Rightarrow> bool) option"

fun compile_all :: "rx \<Rightarrow> string list \<Rightarrow> (string \<Rightarrow> bool) list panics" where
  "compile_all R [] = Returns []"
| "compile_all R (m # ms) =
     (case R m of
        None \<Rightarrow> Panics (''regexp: Compile: '' @ m)
      | Some r \<Rightarrow> (case compile_all R ms of Panics e \<Rightarrow> Panics e | Returns rs \<Rightarrow> Returns (r # rs)))"

record search_regs =
  srRegs :: "(string \<Rightarrow> bool) list"
  srLabels :: "(string \<Rightarrow> bool) list"
  srCats :: "(string \<Rightarrow> bool) list"

definition compile_regs :: "rx \<Rightarrow> search_opts \<Rightarrow> search_regs panics" where
  "compile_regs R opts =
     (case compile_all R (soMatches opts) of
        Panics e \<Rightarrow> Panics e
      | Returns rs \<Rightarrow>
         (case compile_all R (soLabelsMatches opts) of
            Panics e \<Rightarrow> Panics e
          | Returns ls \<Rightarrow>
             (case compile_all R (soCategories opts) of
                Panics e \<Rightarrow> Panics e
              | Returns cs \<Rightarrow> Returns \<lparr>srRegs = rs, srLabels = ls, srCats = cs\<rparr>)))"

definition any_match :: "(string \<Rightarrow> bool) list \<Rightarrow> string \<Rightarrow> bool" where
  "any_match rs s = list_ex (\<lambda>r. r s) rs"

section \<open>Matching an artifact\<close>

text \<open>
  The filters that both searches end with: labels by regular expression, labels, categories,
  annotations and owned files.  Without \<open>AndCondition\<close> each of the first three jumps to the end with
  the match as it is; with it each starts from false.
\<close>

definition annotation_filter :: "search_opts \<Rightarrow> default_package \<Rightarrow> bool \<Rightarrow> bool" where
  "annotation_filter opts p match =
     (if length (soAnnotations opts) > 0 then
        (let match = (if soAndCondition opts then False else match)
         in if list_ex (HasAnnotation p) (soAnnotations opts) then True else match)
      else match)"

definition owner_filter :: "search_opts \<Rightarrow> string list \<Rightarrow> bool \<Rightarrow> bool" where
  "owner_filter opts files match =
     (if length (soFilesOwner opts) > 0 then
        (let match = (if soAndCondition opts then False else match)
         in if length files > 0 \<and> list_ex (\<lambda>f. list_ex (\<lambda>af. Contains af f) files) (soFilesOwner opts)
            then True else match)
      else match)"

definition category_filter :: "search_opts \<Rightarrow> search_regs \<Rightarrow> artifact \<Rightarrow> default_package \<Rightarrow> bool \<Rightarrow> bool" where
  "category_filter opts rs art p match =
     (if length (soCategories opts) > 0 \<and> \<not> soAndCondition opts then match
      else let match = (if length (soCategories opts) > 0 then any_match (srCats rs) (pCategory p) else match)
           in owner_filter opts (aFiles art) (annotation_filter opts p match))"

definition label_filter :: "search_opts \<Rightarrow> search_regs \<Rightarrow> artifact \<Rightarrow> default_package \<Rightarrow> bool \<Rightarrow> bool" where
  "label_filter opts rs art p match =
     (if length (soLabels opts) > 0 \<and> \<not> soAndCondition opts then match
      else category_filter opts rs art p
             (if length (soLabels opts) > 0 then list_ex (HasLabel p) (soLabels opts) else match))"

definition last_filters :: "search_opts \<Rightarrow> search_regs \<Rightarrow> artifact \<Rightarrow> default_package \<Rightarrow> bool \<Rightarrow> bool" where
  "last_filters opts rs art p match =
     (if length (soLabelsMatches opts) > 0 \<and> \<not> soAndCondition opts then match
      else label_filter opts rs art p
             (if length (soLabelsMatches opts) > 0 then list_ex (MatchLabel p) (srLabels rs) else match))"

text \<open>The package of an artifact with no runtime is the one of its specification.\<close>

definition with_runtime :: "artifact \<Rightarrow> artifact panics" where
  "with_runtime a =
     (if aRuntime a = None then
        (case aCompileSpec a of
           Some (Some p) \<Rightarrow> Returns (a\<lparr>aRuntime := Some p\<rparr>)
         | _ \<Rightarrow> Panics ''invalid memory address or nil pointer dereference'')
      else Returns a)"

definition runtime_pkg :: "artifact \<Rightarrow> default_package" where
  "runtime_pkg a = the (aRuntime a)"

definition set_repository :: "string \<Rightarrow> default_package \<Rightarrow> default_package" where
  "set_repository r = upd_info (\<lambda>i. i\<lparr>Repository := r\<rparr>)"

definition with_repo :: "string \<Rightarrow> artifact \<Rightarrow> artifact" where
  "with_repo repo a =
     a\<lparr>aRuntime := map_option (set_repository repo) (aRuntime a),
       aCompileSpec := map_option (map_option (set_repository repo)) (aCompileSpec a)\<rparr>"

section \<open>The catalog in memory\<close>

definition catalog_match :: "search_opts \<Rightarrow> search_regs \<Rightarrow> artifact \<Rightarrow> bool" where
  "catalog_match opts rs a =
     (let p = runtime_pkg a;
          match = (length (soNames opts) > 0 \<and> ContainsElem (soNames opts) (pName p));
          match = (if list_ex (\<lambda>q. pCategory p = pCategory q \<and> pName p = pName q) (soPackages opts)
                   then True else match);
          match = (if length (soMatches opts) > 0 \<and> any_match (srRegs rs) (PackageName p) then True else match)
      in last_filters opts rs a p match)"

text \<open>The artifacts found and the catalog, whose artifacts the search changes in place.\<close>

fun catalog_loop ::
    "search_opts \<Rightarrow> search_regs \<Rightarrow> string \<Rightarrow> artifact list \<Rightarrow> (artifact list \<times> artifact list) panics" where
  "catalog_loop opts rs repo [] = Returns ([], [])"
| "catalog_loop opts rs repo (a0 # as) =
     (case with_runtime a0 of
        Panics e \<Rightarrow> Panics e
      | Returns a \<Rightarrow>
         (case catalog_loop opts rs repo as of
            Panics e \<Rightarrow> Panics e
          | Returns (found, cat) \<Rightarrow>
             (if \<not> soHidden opts \<and> Hidden (pkg_data (runtime_pkg a)) then Returns (found, a # cat)
              else if catalog_match opts rs a then Returns (with_repo repo a # found, with_repo repo a # cat)
              else Returns (found, a # cat))))"

definition both_regex_err :: err where
  "both_regex_err = ''Searching for both regex and labels regex is not supported.''"

definition SearchArtifactsFromCatalog ::
    "rx \<Rightarrow> search_opts \<Rightarrow> string \<Rightarrow> artifact list option \<Rightarrow> artifact list outcome \<times> artifact list option" where
  "SearchArtifactsFromCatalog R opts repo catalog =
     (case catalog of
        None \<Rightarrow> (Ok [], None)
      | Some index \<Rightarrow>
         (if length (soLabelsMatches opts) > 0 \<and> length (soMatches opts) > 0 then (Err both_regex_err, catalog)
          else case compile_regs R opts of
            Panics e \<Rightarrow> (Panic e, catalog)
          | Returns rs \<Rightarrow>
             (case catalog_loop opts rs repo index of
                Panics e \<Rightarrow> (Panic e, catalog)
              | Returns (found, cat) \<Rightarrow> (Ok found, Some cat))))"

section \<open>The tree of directories\<close>

text \<open>
  A version's directory: whether it has a definition, \<open>metadata.json\<close> when it exists, and
  \<open>metadata.yaml\<close>; each read and parsed, or with the error of that.
\<close>

record version_dir =
  vdDefinition :: bool
  vdJson :: "artifact res option"
  vdYaml :: "artifact res"

type_synonym listing = "(string \<times> bool) list res"

record repo_fs =
  rfTree :: listing
  rfCategory :: "string \<Rightarrow> listing"
  rfPackage :: "string \<Rightarrow> string \<Rightarrow> listing"
  rfVersion :: "string \<Rightarrow> string \<Rightarrow> string \<Rightarrow> version_dir"
  rfProvides :: "default_package list gomap res"

text \<open>What a search needs: the library, the regular expressions and the masks.\<close>

record search_env =
  sxLib :: lib
  sxRx :: rx
  sxMasks :: "mask_file list"
  sxOrder :: "string list \<Rightarrow> string list"

text \<open>
  The loop over the packages searched: a provide of the name matches, and so does an artifact of the
  category and name that the selector admits.  A selector that does not parse is a nil pointer.
\<close>

fun packages_match :: "lib \<Rightarrow> artifact \<Rightarrow> default_package list \<Rightarrow> bool \<Rightarrow> bool outcome" where
  "packages_match L a [] match = Ok match"
| "packages_match L a (q # qs) match =
     (let p = runtime_pkg a;
          match = (if list_ex (\<lambda>prov. AtomMatches prov q) (Provides p) then True else match)
      in if pCategory p \<noteq> pCategory q then packages_match L a qs match
         else if pName p \<noteq> pName q then packages_match L a qs match
         else (case (ToGentooPackage L q, ToGentooPackage L (art_pkg a)) of
                 (Inr gS, Inr gP) \<Rightarrow>
                   (case gp_Admit L gS gP of
                      Inl e \<Rightarrow> Err (''Unexpected error on compare '' @ HumanReadableString q @ '' with '' @
                                    HumanReadableString (art_pkg a) @ '': '' @ e)
                    | Inr admit \<Rightarrow> if admit then Ok True else packages_match L a qs match)
               | _ \<Rightarrow> Panic ''invalid memory address or nil pointer dereference''))"

definition dir_match :: "lib \<Rightarrow> search_opts \<Rightarrow> search_regs \<Rightarrow> artifact \<Rightarrow> bool outcome" where
  "dir_match L opts rs a =
     (case packages_match L a (soPackages opts)
             (length (soNames opts) > 0 \<and> ContainsElem (soNames opts) (pName (runtime_pkg a))) of
        Ok match \<Rightarrow>
          Ok (last_filters opts rs a (runtime_pkg a)
                (if length (soMatches opts) > 0 \<and> any_match (srRegs rs) (PackageName (runtime_pkg a))
                 then True else match))
      | r \<Rightarrow> r)"

definition read_metadata :: "version_dir \<Rightarrow> artifact res" where
  "read_metadata d = (case vdJson d of Some r \<Rightarrow> r | None \<Rightarrow> vdYaml d)"

definition masked ::
    "search_env \<Rightarrow> search_opts \<Rightarrow> string \<Rightarrow> artifact \<Rightarrow> bool res" where
  "masked X opts repo a =
     (if \<not> soIgnoreMasks opts then
        (case IsMasked (sxLib X) repo
                (case ToGentooPackage (sxLib X) (art_pkg a) of Inr g \<Rightarrow> Some g | Inl _ \<Rightarrow> None) (sxMasks X) of
           (_, Some e) \<Rightarrow> Inl e
         | (b, None) \<Rightarrow> Inr b)
      else Inr False)"

definition analyzePackageDir ::
    "search_env \<Rightarrow> search_opts \<Rightarrow> search_regs \<Rightarrow> string \<Rightarrow> version_dir \<Rightarrow> artifact option outcome" where
  "analyzePackageDir X opts rs repo d =
     (if \<not> vdDefinition d then Ok None
      else case read_metadata d of
        Inl e \<Rightarrow> Err e
      | Inr a0 \<Rightarrow>
         (case with_runtime a0 of
            Panics e \<Rightarrow> Panic e
          | Returns a \<Rightarrow>
             (case masked X opts repo a of
                Inl e \<Rightarrow> Err e
              | Inr True \<Rightarrow> Ok None
              | Inr False \<Rightarrow>
                 (if \<not> soHidden opts \<and> Hidden (pkg_data (runtime_pkg a)) then Ok None
                  else case dir_match (sxLib X) opts rs a of
                    Ok match \<Rightarrow> Ok (if match then Some (with_repo repo a) else None)
                  | Err e \<Rightarrow> Err e
                  | Panic e \<Rightarrow> Panic e
                  | Fuel \<Rightarrow> Fuel))))"

text \<open>The artifacts collected so far are dropped when a directory fails.\<close>

fun versions_dirs ::
    "search_env \<Rightarrow> search_opts \<Rightarrow> search_regs \<Rightarrow> string \<Rightarrow> (string \<Rightarrow> version_dir) \<Rightarrow> (string \<times> bool) list \<Rightarrow>
     artifact list outcome" where
  "versions_dirs X opts rs repo dir [] = Ok []"
| "versions_dirs X opts rs repo dir ((v, isDir) # vs) =
     (if \<not> isDir then versions_dirs X opts rs repo dir vs
      else case analyzePackageDir X opts rs repo (dir v) of
        Ok art \<Rightarrow>
          (case versions_dirs X opts rs repo dir vs of
             Ok as \<Rightarrow> Ok (case art of Some a \<Rightarrow> a # as | None \<Rightarrow> as) | r \<Rightarrow> r)
      | Err e \<Rightarrow> Err (''Error on analyze directory '' @ v @ '': '' @ e)
      | Panic e \<Rightarrow> Panic e
      | Fuel \<Rightarrow> Fuel)"

definition skip_name :: "search_opts \<Rightarrow> search_regs \<Rightarrow> string \<Rightarrow> string \<Rightarrow> bool" where
  "skip_name opts rs cat name =
     (if length (soNames opts) > 0 \<and> \<not> ContainsElem (soNames opts) name then True
      else length (soMatches opts) > 0 \<and> soAndCondition opts \<and> \<not> any_match (srRegs rs) (cat @ ''/'' @ name))"

fun packages_dirs ::
    "search_env \<Rightarrow> search_opts \<Rightarrow> search_regs \<Rightarrow> string \<Rightarrow> repo_fs \<Rightarrow> string \<Rightarrow> (string \<times> bool) list \<Rightarrow>
     artifact list outcome" where
  "packages_dirs X opts rs repo fs cat [] = Ok []"
| "packages_dirs X opts rs repo fs cat ((name, isDir) # ns) =
     (if \<not> isDir then packages_dirs X opts rs repo fs cat ns
      else if skip_name opts rs cat name then packages_dirs X opts rs repo fs cat ns
      else case rfPackage fs cat name of
        Inl e \<Rightarrow> Err (''Error on read directory '' @ name @ '': '' @ e)
      | Inr vs \<Rightarrow>
         (case versions_dirs X opts rs repo (rfVersion fs cat name) vs of
            Ok as \<Rightarrow> (case packages_dirs X opts rs repo fs cat ns of Ok bs \<Rightarrow> Ok (as @ bs) | r \<Rightarrow> r)
          | r \<Rightarrow> r))"

definition analyzeCatDir ::
    "search_env \<Rightarrow> search_opts \<Rightarrow> search_regs \<Rightarrow> string \<Rightarrow> repo_fs \<Rightarrow> string \<Rightarrow> artifact list outcome" where
  "analyzeCatDir X opts rs repo fs cat =
     (case rfCategory fs cat of
        Inl e \<Rightarrow> Err (''Error on read directory '' @ cat @ '': '' @ e)
      | Inr ns \<Rightarrow> packages_dirs X opts rs repo fs cat ns)"

text \<open>The categories whose directory is searched.\<close>

definition search_category :: "search_opts \<Rightarrow> search_regs \<Rightarrow> string \<times> bool \<Rightarrow> bool" where
  "search_category opts rs f =
     (snd f \<and>
      \<not> (length (soCategories opts) > 0 \<and> soAndCondition opts \<and> \<not> any_match (srCats rs) (fst f)) \<and>
      \<not> (soOnlyPackages opts \<and> fst f \<notin> pCategory ` set (soPackages opts)))"

text \<open>The answers of the categories: the artifacts of those that ended well; an error is dropped.\<close>

fun categories_loop ::
    "search_env \<Rightarrow> search_opts \<Rightarrow> search_regs \<Rightarrow> string \<Rightarrow> repo_fs \<Rightarrow> string list \<Rightarrow> artifact list outcome" where
  "categories_loop X opts rs repo fs [] = Ok []"
| "categories_loop X opts rs repo fs (c # cs) =
     (case analyzeCatDir X opts rs repo fs c of
        Ok as \<Rightarrow> (case categories_loop X opts rs repo fs cs of Ok bs \<Rightarrow> Ok (as @ bs) | r \<Rightarrow> r)
      | Err e \<Rightarrow> categories_loop X opts rs repo fs cs
      | Panic e \<Rightarrow> Panic e
      | Fuel \<Rightarrow> Fuel)"

section \<open>Provides\<close>

text \<open>\<open>arts\<close> are the artifacts found before the provides are read; \<open>isInList\<close> looks among them only.\<close>

definition isInList :: "string \<Rightarrow> artifact list \<Rightarrow> bool" where
  "isInList pkgstr aa = list_ex (\<lambda>p. HumanReadableString (art_pkg p) = pkgstr) aa"

fun prov_arts_loop ::
    "search_env \<Rightarrow> search_opts \<Rightarrow> search_regs \<Rightarrow> string \<Rightarrow> repo_fs \<Rightarrow> artifact list \<Rightarrow> default_package list \<Rightarrow>
     artifact list outcome" where
  "prov_arts_loop X opts rs repo fs arts [] = Ok []"
| "prov_arts_loop X opts rs repo fs arts (p # ps) =
     (if isInList (HumanReadableString p) arts then prov_arts_loop X opts rs repo fs arts ps
      else case analyzePackageDir X opts rs repo (rfVersion fs (pCategory p) (pName p) (pVersion p)) of
        Ok art \<Rightarrow>
          (case prov_arts_loop X opts rs repo fs arts ps of
             Ok as \<Rightarrow> Ok (case art of Some a \<Rightarrow> a # as | None \<Rightarrow> as) | r \<Rightarrow> r)
      | Err e \<Rightarrow> Err (''Error on analyze directory '' @ HumanReadableString p @ '': '' @ e)
      | Panic e \<Rightarrow> Panic e
      | Fuel \<Rightarrow> Fuel)"

text \<open>
  The inner range over the map of the provides only acts on the entry of the package's name.
\<close>

fun provides_range ::
    "search_env \<Rightarrow> search_opts \<Rightarrow> search_regs \<Rightarrow> string \<Rightarrow> repo_fs \<Rightarrow> artifact list \<Rightarrow> string \<Rightarrow>
     (string \<times> default_package list) list \<Rightarrow> artifact list outcome" where
  "provides_range X opts rs repo fs arts name [] = Ok []"
| "provides_range X opts rs repo fs arts name ((provname, provArts) # es) =
     (if name = provname then
        (case prov_arts_loop X opts rs repo fs arts provArts of
           Ok as \<Rightarrow> (case provides_range X opts rs repo fs arts name es of Ok bs \<Rightarrow> Ok (as @ bs) | r \<Rightarrow> r)
         | r \<Rightarrow> r)
      else provides_range X opts rs repo fs arts name es)"

fun provides_pkgs ::
    "search_env \<Rightarrow> search_opts \<Rightarrow> search_regs \<Rightarrow> string \<Rightarrow> repo_fs \<Rightarrow> default_package list gomap \<Rightarrow>
     artifact list \<Rightarrow> default_package list \<Rightarrow> artifact list outcome" where
  "provides_pkgs X opts rs repo fs m arts [] = Ok []"
| "provides_pkgs X opts rs repo fs m arts (sp # sps) =
     (case provides_range X opts rs repo fs arts (PackageName sp) (gm_range (sxOrder X) m) of
        Ok as \<Rightarrow> (case provides_pkgs X opts rs repo fs m arts sps of Ok bs \<Rightarrow> Ok (as @ bs) | r \<Rightarrow> r)
      | r \<Rightarrow> r)"

definition searchProvides ::
    "search_env \<Rightarrow> search_opts \<Rightarrow> search_regs \<Rightarrow> string \<Rightarrow> repo_fs \<Rightarrow> artifact list \<Rightarrow> artifact list outcome" where
  "searchProvides X opts rs repo fs arts =
     (case rfProvides fs of
        Inl e \<Rightarrow> Err e
      | Inr m \<Rightarrow>
         (if length m > 0 then
            (case provides_pkgs X opts rs repo fs m arts (soPackages opts) of
               Ok as \<Rightarrow> Ok (arts @ as) | r \<Rightarrow> r)
          else Ok arts))"

definition SearchArtifacts ::
    "search_env \<Rightarrow> search_opts \<Rightarrow> string \<Rightarrow> repo_fs \<Rightarrow> artifact list outcome" where
  "SearchArtifacts X opts repo fs =
     (if length (soLabelsMatches opts) > 0 \<and> length (soMatches opts) > 0 then Err both_regex_err
      else case compile_regs (sxRx X) opts of
        Panics e \<Rightarrow> Panic e
      | Returns rs \<Rightarrow>
         (case rfTree fs of
            Inl e \<Rightarrow> Err (''Error on read directory '' @ repo @ '': '' @ e)
          | Inr files \<Rightarrow>
             (case categories_loop X opts rs repo fs (map fst (filter (search_category opts rs) files)) of
                Ok ans \<Rightarrow> if soOnlyPackages opts then searchProvides X opts rs repo fs ans else Ok ans
              | r \<Rightarrow> r)))"

end
