(* ===== verification/Searcher.thy ===== *)
theory Searcher
  imports Stones
begin

text \<open>
  Stones (\<open>NewStone\<close>, \<open>ToPackage\<close>, the maps of stones of \<open>wagon_stones.go\<close>), the searches that return
  them, the simple searcher over the enabled repositories (\<open>pkg/v2/repository/searcher.go\<close>) and the
  part of \<open>wagon.go\<close> it goes through.

  The searcher starts one goroutine for each enabled repository and collects their answers from one
  channel in the order of their arrival, an argument \<open>arrive\<close> of the functions here.
\<close>

section \<open>Paths\<close>

text \<open>\<open>filepath.Clean\<close> and \<open>filepath.Join\<close>; the components are kept with the last first.\<close>

fun clean_comps :: "bool \<Rightarrow> string list \<Rightarrow> string list \<Rightarrow> string list" where
  "clean_comps rooted [] acc = rev acc"
| "clean_comps rooted (c # cs) acc =
     (if c = [] \<or> c = ''.'' then clean_comps rooted cs acc
      else if c = ''..'' then
        (case acc of
           [] \<Rightarrow> clean_comps rooted cs (if rooted then [] else [c])
         | a # as \<Rightarrow> if a = ''..'' then clean_comps rooted cs (c # acc) else clean_comps rooted cs as)
      else clean_comps rooted cs (c # acc))"

definition Clean :: "string \<Rightarrow> string" where
  "Clean p =
     (let rooted = HasPrefix p ''/'';
          s = (if rooted then ''/'' else []) @ Join (clean_comps rooted (SplitChar CHR ''/'' p) []) ''/''
      in if s = [] then ''.'' else s)"

definition PathJoin :: "string list \<Rightarrow> string" where
  "PathJoin elems =
     (case dropWhile (\<lambda>e. e = []) elems of [] \<Rightarrow> [] | es \<Rightarrow> Clean (Join es ''/''))"

section \<open>Stones\<close>

record stone_info =
  stName :: string
  stCategory :: string
  stVersion :: string
  stLicense :: string
  stRepository :: string
  stHidden :: bool
  stFiles :: "string list"
  stAnnotations :: "ival gomap option"
  stLabels :: "string gomap"
  stUseFlags :: "string list"

datatype stone =
  Stone (st_data: stone_info) (st_Provides: "stone list") (st_Requires: "stone list")
    (st_Conflicts: "stone list")

definition no_stone :: stone_info where
  "no_stone = \<lparr>stName = [], stCategory = [], stVersion = [], stLicense = [], stRepository = [],
     stHidden = False, stFiles = [], stAnnotations = None, stLabels = [], stUseFlags = []\<rparr>"

definition ref_stone :: "default_package \<Rightarrow> stone" where
  "ref_stone p =
     Stone (no_stone\<lparr>stName := pName p, stCategory := pCategory p, stVersion := pVersion p\<rparr>) [] [] []"

definition NewStone :: "artifact \<Rightarrow> string \<Rightarrow> bool \<Rightarrow> bool \<Rightarrow> stone panics" where
  "NewStone a repo withFiles full =
     (case aRuntime a of
        None \<Rightarrow> Panics ''invalid memory address or nil pointer dereference''
      | Some p \<Rightarrow>
         (let i = \<lparr>stName = pName p, stCategory = pCategory p, stVersion = pVersion p,
                   stLicense = License (pkg_data p), stRepository = repo, stHidden = Hidden (pkg_data p),
                   stFiles = (if withFiles then aFiles a else []), stAnnotations = Annotations (pkg_data p),
                   stLabels = pLabels p, stUseFlags = (if full then pUseFlags p else [])\<rparr>
          in Returns (if full then Stone i (map ref_stone (Provides p)) (map ref_stone (PackageRequires p))
                                     (map ref_stone (PackageConflicts p))
                      else Stone i [] [] [])))"

definition st_ToPackage :: "stone \<Rightarrow> default_package" where
  "st_ToPackage s =
     upd_info (\<lambda>i. i\<lparr>Labels := stLabels (st_data s), Annotations := stAnnotations (st_data s),
                    Hidden := stHidden (st_data s), Category := stCategory (st_data s),
                    License := stLicense (st_data s), Repository := stRepository (st_data s)\<rparr>)
       (NewPackage (stName (st_data s)) (stVersion (st_data s)) [] [])"

definition st_HumanReadableString :: "stone \<Rightarrow> string" where
  "st_HumanReadableString s = stCategory (st_data s) @ ''/'' @ stName (st_data s) @ ''-'' @ stVersion (st_data s)"

definition st_GetName :: "stone \<Rightarrow> string" where
  "st_GetName s = package_name (stCategory (st_data s)) (stName (st_data s))"

type_synonym stones_map = "stone list gomap"

definition sm_Add :: "stone \<Rightarrow> stones_map \<Rightarrow> stones_map" where
  "sm_Add s sm =
     (case gm_get sm (st_GetName s) of
        Some val \<Rightarrow> gm_set (st_GetName s) (val @ [s]) sm | None \<Rightarrow> gm_set (st_GetName s) [s] sm)"

fun sm_AddPack :: "stone list \<Rightarrow> stones_map \<Rightarrow> stones_map" where
  "sm_AddPack [] sm = sm"
| "sm_AddPack (s # ss) sm = sm_AddPack ss (sm_Add s sm)"

definition stones_ToMap :: "stone list \<Rightarrow> stones_map" where
  "stones_ToMap ss = sm_AddPack ss []"

text \<open>\<open>CloneWithPkgs\<close> copies every option but the names.\<close>

definition CloneWithPkgs :: "search_opts \<Rightarrow> default_package list \<Rightarrow> search_opts" where
  "CloneWithPkgs so pkgs = so\<lparr>soPackages := pkgs, soNames := []\<rparr>"

section \<open>Searches that return stones\<close>

definition rootfs_stone :: "string \<Rightarrow> stone \<Rightarrow> stone" where
  "rootfs_stone rootfs s =
     (case s of Stone i p r c \<Rightarrow> Stone (i\<lparr>stFiles := map (\<lambda>f. PathJoin [rootfs, f]) (stFiles i)\<rparr>) p r c)"

fun stones_of :: "string \<Rightarrow> search_opts \<Rightarrow> string \<Rightarrow> artifact list \<Rightarrow> stone list outcome" where
  "stones_of rootfs opts repo [] = Ok []"
| "stones_of rootfs opts repo (a # as) =
     (case NewStone a repo (soWithFiles opts) (soFull opts) of
        Panics e \<Rightarrow> Panic e
      | Returns s \<Rightarrow>
         (case stones_of rootfs opts repo as of
            Ok ss \<Rightarrow> Ok ((if soWithRootfsPrefix opts then rootfs_stone rootfs s else s) # ss)
          | r \<Rightarrow> r))"

definition SearchFromCatalog ::
    "rx \<Rightarrow> string \<Rightarrow> search_opts \<Rightarrow> string \<Rightarrow> artifact list option \<Rightarrow> stone list outcome \<times> artifact list option" where
  "SearchFromCatalog R rootfs opts repo catalog =
     obind (SearchArtifactsFromCatalog R opts repo catalog) (\<lambda>matches cat.
       (stones_of rootfs opts repo matches, cat))"

definition Search :: "search_env \<Rightarrow> string \<Rightarrow> search_opts \<Rightarrow> string \<Rightarrow> repo_fs \<Rightarrow> stone list outcome" where
  "Search X rootfs opts repo fs =
     (case SearchArtifacts X opts repo fs of
        Ok matches \<Rightarrow> stones_of rootfs opts repo matches
      | Err e \<Rightarrow> Err e | Panic e \<Rightarrow> Panic e | Fuel \<Rightarrow> Fuel)"

text \<open>
  The packages installed: the catalog is made of the world of the database, \<open>files\<close> being the files of
  a package.
\<close>

definition installed_artifact ::
    "string \<Rightarrow> search_opts \<Rightarrow> (default_package \<Rightarrow> string list) \<Rightarrow> default_package \<Rightarrow> artifact" where
  "installed_artifact rootfs opts files p =
     (let a = (NewPackageArtifact (Path (pkg_data p)))\<lparr>aRuntime := Some p\<rparr>
      in if soWithFiles opts then
           a\<lparr>aFiles := (if soWithRootfsPrefix opts then map (\<lambda>f. PathJoin [rootfs, f]) (files p) else files p)\<rparr>
         else a)"

definition SearchInstalled ::
    "rx \<Rightarrow> string \<Rightarrow> search_opts \<Rightarrow> (default_package \<Rightarrow> string list) \<Rightarrow> default_package list \<Rightarrow> stone list outcome" where
  "SearchInstalled R rootfs opts files world =
     fst (SearchFromCatalog R rootfs opts ''system''
            (Some (map (installed_artifact rootfs opts files) world)))"

section \<open>The searcher over the repositories\<close>

text \<open>A repository: its configuration, the result of reading its identity file, its tree.\<close>

record repo_state =
  rsName :: string
  rsEnable :: bool
  rsCached :: bool
  rsIdentity :: "err option"
  rsFs :: repo_fs

definition searchOnRepoRoutine :: "(string \<Rightarrow> repo_fs \<Rightarrow> 'a list outcome) \<Rightarrow> repo_state \<Rightarrow> 'a list outcome" where
  "searchOnRepoRoutine search r =
     (if rsIdentity r \<noteq> None then Ok [] else search (rsName r) (rsFs r))"

text \<open>The answers in the order of arrival: what was found is appended, the last error is returned.\<close>

fun collect :: "'a list outcome list \<Rightarrow> 'a list \<Rightarrow> err option \<Rightarrow> 'a list outcome" where
  "collect [] acc e = (case e of None \<Rightarrow> Ok acc | Some x \<Rightarrow> Err x)"
| "collect (r # rs) acc e =
     (case r of
        Ok as \<Rightarrow> collect rs (acc @ as) e
      | Err x \<Rightarrow> collect rs acc (Some x)
      | Panic x \<Rightarrow> Panic x
      | Fuel \<Rightarrow> Fuel)"

definition not_cached_err :: err where
  "not_cached_err = ''Only cached repositories are supported.''"

definition search_repos ::
    "(string \<Rightarrow> repo_fs \<Rightarrow> 'a list outcome) \<Rightarrow> ('a list outcome list \<Rightarrow> 'a list outcome list) \<Rightarrow> repo_state list \<Rightarrow>
     'a list outcome" where
  "search_repos search arrive repos =
     (let enabled = filter rsEnable repos
      in if list_ex (\<lambda>r. \<not> rsCached r) enabled then Err not_cached_err
         else collect (arrive (map (searchOnRepoRoutine search) enabled)) [] None)"

definition searcher_SearchArtifacts ::
    "search_env \<Rightarrow> (artifact list outcome list \<Rightarrow> artifact list outcome list) \<Rightarrow> repo_state list \<Rightarrow> search_opts \<Rightarrow>
     artifact list outcome" where
  "searcher_SearchArtifacts X arrive repos opts = search_repos (SearchArtifacts X opts) arrive repos"

definition searcher_SearchStones ::
    "search_env \<Rightarrow> string \<Rightarrow> (stone list outcome list \<Rightarrow> stone list outcome list) \<Rightarrow> repo_state list \<Rightarrow> search_opts \<Rightarrow>
     stone list outcome" where
  "searcher_SearchStones X rootfs arrive repos opts = search_repos (Search X rootfs opts) arrive repos"

text \<open>One repository by name; an identity that cannot be read is an empty answer.\<close>

definition SearchArtifactsOnRepo ::
    "search_env \<Rightarrow> repo_state list \<Rightarrow> string \<Rightarrow> search_opts \<Rightarrow> artifact list outcome" where
  "SearchArtifactsOnRepo X repos name opts =
     (case find (\<lambda>r. rsName r = name) repos of
        None \<Rightarrow> Err (''Repository '' @ name @ '' not found'')
      | Some r \<Rightarrow> searchOnRepoRoutine (SearchArtifacts X opts) r)"

end
