(* ===== verification/Database.thy ===== *)
theory Database
  imports Stones
begin

text \<open>
  The databases of packages, \<open>pkg/package/database_mem.go\<close>, \<open>database_boltdb.go\<close> and
  \<open>database_common.go\<close>: packages with their files and finalizers, the packages that provide others,
  the reverse requirements, and the queries over them.

  \<open>db_env\<close> has what they use: the library, the order of a range over a map and the sort of the
  versioner, and the JSON codec.  The search through the provides calls itself on the package found;
  its first argument bounds the depth of these calls, None when it is not enough.
\<close>

record db_env =
  deLib :: lib
  deOrder :: "string list \<Rightarrow> string list"
  deSort :: "(string \<Rightarrow> string \<Rightarrow> bool) \<Rightarrow> string list \<Rightarrow> string list"
  deEnc :: "default_package \<Rightarrow> string res"
  deDec :: "string \<Rightarrow> default_package res"

type_synonym packages_map = "default_package gomap gomap"

definition pm2_get :: "packages_map \<Rightarrow> string \<Rightarrow> string \<Rightarrow> default_package option" where
  "pm2_get m k v = (case gm_get m k of Some vs \<Rightarrow> gm_get vs v | None \<Rightarrow> None)"

text \<open>\<open>m[k][v] = b\<close>, with the inner map made when it is missing.\<close>

definition pm2_set :: "string \<Rightarrow> string \<Rightarrow> default_package \<Rightarrow> packages_map \<Rightarrow> packages_map" where
  "pm2_set k v b m = gm_set k (gm_set v b (case gm_get m k of Some vs \<Rightarrow> vs | None \<Rightarrow> [])) m"

definition pm2_del :: "string \<Rightarrow> string \<Rightarrow> packages_map \<Rightarrow> packages_map" where
  "pm2_del k v m = (case gm_get m k of Some vs \<Rightarrow> gm_set k (gm_del v vs) m | None \<Rightarrow> m)"

lemma pm2_get_set [simp]: "pm2_get (pm2_set k v b m) k' v' = (if k' = k \<and> v' = v then Some b else pm2_get m k' v')"
  by (auto simp: pm2_get_def pm2_set_def split: option.split)

lemma pm2_get_del [simp]: "pm2_get (pm2_del k v m) k' v' = (if k' = k \<and> v' = v then None else pm2_get m k' v')"
  by (auto simp: pm2_get_def pm2_del_def split: option.split)

lemma pm2_get_Nil [simp]: "pm2_get [] k v = None"
  by (simp add: pm2_get_def)

section \<open>Provides\<close>

definition sel_match :: "db_env \<Rightarrow> default_package \<Rightarrow> string \<Rightarrow> bool res" where
  "sel_match D p ve =
     (if IsSelector p then SelectorMatchVersion (deLib D) (deOrder D) (deSort D) p ve
      else VersionMatchSelector (deLib D) (deOrder D) (deSort D) p ve)"

fun versions_scan :: "db_env \<Rightarrow> default_package \<Rightarrow> (string \<times> default_package) list \<Rightarrow> default_package res" where
  "versions_scan D p [] = Inl ''No package provides this''"
| "versions_scan D p ((ve, pa) # vs) =
     (case sel_match D p ve of
        Inl e \<Rightarrow> Inl (''Error on match version: '' @ e)
      | Inr m \<Rightarrow> if m then Inr pa else versions_scan D p vs)"

definition provide_scan :: "db_env \<Rightarrow> packages_map \<Rightarrow> default_package \<Rightarrow> default_package res" where
  "provide_scan D provides p =
     (case gm_get provides (GetPackageName p) of
        None \<Rightarrow> Inl ''No versions found for package''
      | Some versions \<Rightarrow> versions_scan D p (gm_range (deOrder D) versions))"

text \<open>
  \<open>getProvide\<close> and \<open>FindPackage\<close>, which call each other: \<open>look\<close> is the lookup of the package itself.
\<close>

fun getProvide ::
    "db_env \<Rightarrow> packages_map \<Rightarrow> (default_package \<Rightarrow> default_package res) \<Rightarrow> nat \<Rightarrow> default_package \<Rightarrow>
     default_package res option" where
  "getProvide D provides look n p =
     (case pm2_get provides (GetPackageName p) (pVersion p) of
        Some pa \<Rightarrow>
          (case n of
             0 \<Rightarrow> None
           | Suc m \<Rightarrow>
              (case getProvide D provides look m pa of
                 None \<Rightarrow> None
               | Some (Inr q) \<Rightarrow> Some (Inr q)
               | Some (Inl e) \<Rightarrow> Some (look pa)))
      | None \<Rightarrow> Some (provide_scan D provides p))"

declare getProvide.simps [simp del]

definition find_package ::
    "db_env \<Rightarrow> packages_map \<Rightarrow> (default_package \<Rightarrow> default_package res) \<Rightarrow> nat \<Rightarrow> default_package \<Rightarrow>
     default_package res option" where
  "find_package D provides look n p =
     (case getProvide D provides look n p of
        None \<Rightarrow> None
      | Some (Inr q) \<Rightarrow> Some (Inr q)
      | Some (Inl e) \<Rightarrow> Some (look p))"

fun add_provides_db :: "default_package list \<Rightarrow> default_package \<Rightarrow> packages_map \<Rightarrow> packages_map" where
  "add_provides_db [] p m = m"
| "add_provides_db (prov # ps) p m = add_provides_db ps p (pm2_set (GetPackageName prov) (pVersion prov) p m)"

section \<open>The database in memory\<close>

record pkg_finalizer =
  fzID :: int
  fzFingerprint :: string
  fzShell :: "string list"
  fzInstall :: "string list"
  fzUninstall :: "string list"

text \<open>
  The packages are encoded.  \<open>NewInMemoryDatabase\<close> leaves the map of the finalizers nil, but for the
  one shared instance.
\<close>

record mem_db =
  mdDatabase :: "string gomap"
  mdFiles :: "string list gomap"
  mdFinalizers :: "pkg_finalizer gomap option"
  mdCacheNoVersion :: packages_map
  mdProvides :: packages_map
  mdRevDeps :: packages_map
  mdCached :: "bool gomap"

definition NewInMemoryDatabase :: mem_db where
  "NewInMemoryDatabase =
     \<lparr>mdDatabase = [], mdFiles = [], mdFinalizers = None, mdCacheNoVersion = [], mdProvides = [],
      mdRevDeps = [], mdCached = []\<rparr>"

definition md_Get :: "string \<Rightarrow> mem_db \<Rightarrow> string res" where
  "md_Get s db = (case gm_get (mdDatabase db) s of None \<Rightarrow> Inl (''No key found for: '' @ s) | Some pa \<Rightarrow> Inr pa)"

definition md_Set :: "string \<Rightarrow> string \<Rightarrow> mem_db \<Rightarrow> mem_db" where
  "md_Set k v db = db\<lparr>mdDatabase := gm_set k v (mdDatabase db)\<rparr>"

text \<open>The base 64 of \<open>Create\<close> is undone by \<open>Retrieve\<close>.\<close>

definition md_GetPackage :: "db_env \<Rightarrow> string \<Rightarrow> mem_db \<Rightarrow> default_package res" where
  "md_GetPackage D k db = (case md_Get k db of Inl e \<Rightarrow> Inl e | Inr enc \<Rightarrow> deDec D enc)"

definition md_look :: "db_env \<Rightarrow> mem_db \<Rightarrow> default_package \<Rightarrow> default_package res" where
  "md_look D db p = md_GetPackage D (GetFingerPrint p) db"

definition md_getProvide :: "db_env \<Rightarrow> nat \<Rightarrow> mem_db \<Rightarrow> default_package \<Rightarrow> default_package res option" where
  "md_getProvide D n db p = getProvide D (mdProvides db) (md_look D db) n p"

definition md_FindPackage :: "db_env \<Rightarrow> nat \<Rightarrow> mem_db \<Rightarrow> default_package \<Rightarrow> default_package res option" where
  "md_FindPackage D n db p = find_package D (mdProvides db) (md_look D db) n p"

text \<open>All of a list, or the first error.\<close>

fun find_all ::
    "(default_package \<Rightarrow> default_package res option) \<Rightarrow> default_package list \<Rightarrow> default_package list res option" where
  "find_all f [] = Some (Inr [])"
| "find_all f (p # ps) =
     (case f p of
        None \<Rightarrow> None
      | Some (Inl e) \<Rightarrow> Some (Inl e)
      | Some (Inr q) \<Rightarrow> (case find_all f ps of Some (Inr qs) \<Rightarrow> Some (Inr (q # qs)) | r \<Rightarrow> r))"

text \<open>The versions of the cache that the selector admits.\<close>

definition cache_matches :: "db_env \<Rightarrow> default_package \<Rightarrow> (string \<times> default_package) list \<Rightarrow> default_package list" where
  "cache_matches D p vs =
     map (\<lambda>(ve, pa). NewPackageWithCatThin (pCategory p) (pName p) ve)
       (filter (\<lambda>(ve, pa). SelectorMatchVersion (deLib D) (deOrder D) (deSort D) p ve = Inr True) vs)"

definition md_versions :: "db_env \<Rightarrow> nat \<Rightarrow> mem_db \<Rightarrow> default_package \<Rightarrow> default_package list res option" where
  "md_versions D n db p =
     (case gm_get (mdCacheNoVersion db) (GetPackageName p) of
        None \<Rightarrow> Some (Inl (''No versions found for: '' @ HumanReadableString p))
      | Some versions \<Rightarrow>
         (case find_all (md_FindPackage D n db) (cache_matches D p (gm_range (deOrder D) versions)) of
            Some (Inl e) \<Rightarrow> Some (Inl (''Cache mismatch - this shouldn't happen: '' @ e))
          | r \<Rightarrow> r))"

definition md_FindPackages :: "db_env \<Rightarrow> nat \<Rightarrow> mem_db \<Rightarrow> default_package \<Rightarrow> default_package list res option" where
  "md_FindPackages D n db p =
     (if \<not> IsSelector p then
        map_option (map_sum id (\<lambda>q. [q])) (md_FindPackage D n db p)
      else case md_getProvide D n db p of
        None \<Rightarrow> None
      | Some (Inr provided) \<Rightarrow>
          if \<not> IsSelector provided then Some (Inr [provided]) else md_versions D n db provided
      | Some (Inl e) \<Rightarrow> md_versions D n db p)"

definition md_FindPackageVersions ::
    "db_env \<Rightarrow> nat \<Rightarrow> mem_db \<Rightarrow> default_package \<Rightarrow> default_package list res option" where
  "md_FindPackageVersions D n db p =
     (case md_getProvide D n db p of
        None \<Rightarrow> None
      | Some r \<Rightarrow>
         (let p = (case r of Inr provided \<Rightarrow> provided | Inl e \<Rightarrow> p)
          in case gm_get (mdCacheNoVersion db) (GetPackageName p) of
               None \<Rightarrow> Some (Inl ''No versions found for package'')
             | Some versions \<Rightarrow> Some (Inr (map snd (gm_range (deOrder D) versions)))))"

subsection \<open>Creation\<close>

definition updateRevDep :: "string \<Rightarrow> string \<Rightarrow> default_package \<Rightarrow> mem_db \<Rightarrow> mem_db" where
  "updateRevDep k v b db = db\<lparr>mdRevDeps := pm2_set k v b (mdRevDeps db)\<rparr>"

text \<open>The packages already known to require the name, whose requirement the new package meets.\<close>

fun rev_requires :: "db_env \<Rightarrow> default_package \<Rightarrow> default_package \<Rightarrow> default_package list \<Rightarrow> mem_db \<Rightarrow> mem_db" where
  "rev_requires D pd pp [] db = db"
| "rev_requires D pd pp (re # rs) db =
     rev_requires D pd pp rs
       (if VersionMatchSelector (deLib D) (deOrder D) (deSort D) pd (pVersion re) = Inr True
        then updateRevDep (GetFingerPrint pd) (GetFingerPrint pp) pp db else db)"

fun rev_update :: "db_env \<Rightarrow> default_package \<Rightarrow> (string \<times> default_package) list \<Rightarrow> mem_db \<Rightarrow> mem_db" where
  "rev_update D pd [] db = db"
| "rev_update D pd ((k, pp) # es) db = rev_update D pd es (rev_requires D pd pp (PackageRequires pp) db)"

fun rev_found :: "default_package \<Rightarrow> default_package list \<Rightarrow> mem_db \<Rightarrow> mem_db" where
  "rev_found pd [] db = db"
| "rev_found pd (pa # ps) db =
     rev_found pd ps
       (updateRevDep (GetPackageName pa) (GetPackageName pd) pd
         (updateRevDep (GetFingerPrint pa) (GetFingerPrint pd) pd db))"

fun rev_own :: "db_env \<Rightarrow> nat \<Rightarrow> default_package \<Rightarrow> default_package list \<Rightarrow> mem_db \<Rightarrow> mem_db option" where
  "rev_own D n pd [] db = Some db"
| "rev_own D n pd (re # rs) db =
     (case md_FindPackages D n db re of
        None \<Rightarrow> None
      | Some r \<Rightarrow>
          rev_own D n pd rs
            (updateRevDep (GetPackageName re) (GetPackageName pd) pd
              (updateRevDep (GetFingerPrint re) (GetFingerPrint pd) pd
                (rev_found pd (case r of Inr ps \<Rightarrow> ps | Inl _ \<Rightarrow> []) db))))"

definition populateCaches :: "db_env \<Rightarrow> nat \<Rightarrow> default_package \<Rightarrow> mem_db \<Rightarrow> mem_db option" where
  "populateCaches D n p db =
     (if gm_has (mdCached db) (GetFingerPrint p) then Some db
      else
        (let db = db\<lparr>mdCached := gm_set (GetFingerPrint p) True (mdCached db),
                    mdProvides := add_provides_db (Provides p) p (mdProvides db),
                    mdCacheNoVersion := pm2_set (GetPackageName p) (pVersion p) p (mdCacheNoVersion db)\<rparr>;
             db = (case gm_get (mdRevDeps db) (GetPackageName p) of
                     Some toUpdate \<Rightarrow> rev_update D p (gm_range (deOrder D) toUpdate) db
                   | None \<Rightarrow> db)
         in rev_own D n p (PackageRequires p) db))"

text \<open>None when the provides of the packages of the database chase each other.\<close>

definition md_CreatePackage :: "db_env \<Rightarrow> nat \<Rightarrow> default_package \<Rightarrow> mem_db \<Rightarrow> (string res \<times> mem_db) option" where
  "md_CreatePackage D n p db =
     (case deEnc D p of
        Inl e \<Rightarrow> Some (Inl e, db)
      | Inr enc \<Rightarrow>
          map_option (Pair (Inr (GetFingerPrint p))) (populateCaches D n p (md_Set (GetFingerPrint p) enc db)))"

definition md_UpdatePackage :: "db_env \<Rightarrow> default_package \<Rightarrow> mem_db \<Rightarrow> err option \<times> mem_db" where
  "md_UpdatePackage D p db =
     (case deEnc D p of Inl e \<Rightarrow> (Some e, db) | Inr enc \<Rightarrow> (None, md_Set (GetFingerPrint p) enc db))"

definition md_RemovePackage :: "default_package \<Rightarrow> mem_db \<Rightarrow> mem_db" where
  "md_RemovePackage p db =
     db\<lparr>mdCacheNoVersion := pm2_del (GetPackageName p) (pVersion p) (mdCacheNoVersion db),
        mdDatabase := gm_del (GetFingerPrint p) (mdDatabase db)\<rparr>"

definition md_Clean :: "mem_db \<Rightarrow> mem_db" where
  "md_Clean db = db\<lparr>mdDatabase := []\<rparr>"

subsection \<open>Files and finalizers\<close>

definition md_SetPackageFiles :: "string \<Rightarrow> string list \<Rightarrow> mem_db \<Rightarrow> mem_db" where
  "md_SetPackageFiles fp files db = db\<lparr>mdFiles := gm_set fp files (mdFiles db)\<rparr>"

definition md_GetPackageFiles :: "default_package \<Rightarrow> mem_db \<Rightarrow> string list res" where
  "md_GetPackageFiles p db =
     (case gm_get (mdFiles db) (GetFingerPrint p) of
        None \<Rightarrow> Inl (''No key found for: '' @ HumanReadableString p) | Some pa \<Rightarrow> Inr pa)"

definition md_RemovePackageFiles :: "default_package \<Rightarrow> mem_db \<Rightarrow> mem_db" where
  "md_RemovePackageFiles p db = db\<lparr>mdFiles := gm_del (GetFingerPrint p) (mdFiles db)\<rparr>"

definition md_SetPackageFinalizer :: "pkg_finalizer \<Rightarrow> mem_db \<Rightarrow> mem_db panics" where
  "md_SetPackageFinalizer p db =
     (case mdFinalizers db of
        None \<Rightarrow> Panics ''assignment to entry in nil map''
      | Some m \<Rightarrow> Returns (db\<lparr>mdFinalizers := Some (gm_set (fzFingerprint p) p m)\<rparr>))"

definition md_GetPackageFinalizer :: "default_package \<Rightarrow> mem_db \<Rightarrow> pkg_finalizer res" where
  "md_GetPackageFinalizer p db =
     (case gm_get (nil_map (mdFinalizers db)) (GetFingerPrint p) of
        None \<Rightarrow> Inl (''No key found for: '' @ HumanReadableString p) | Some pa \<Rightarrow> Inr pa)"

definition md_RemovePackageFinalizer :: "default_package \<Rightarrow> mem_db \<Rightarrow> mem_db" where
  "md_RemovePackageFinalizer p db =
     db\<lparr>mdFinalizers := map_option (gm_del (GetFingerPrint p)) (mdFinalizers db)\<rparr>"

subsection \<open>Queries\<close>

definition md_GetPackages :: "db_env \<Rightarrow> mem_db \<Rightarrow> string list" where
  "md_GetPackages D db = map fst (gm_range (deOrder D) (mdDatabase db))"

fun decoded :: "default_package res list \<Rightarrow> default_package list" where
  "decoded [] = []"
| "decoded (r # rs) = (case r of Inl _ \<Rightarrow> decoded rs | Inr p \<Rightarrow> p # decoded rs)"

definition md_World :: "db_env \<Rightarrow> mem_db \<Rightarrow> default_package list" where
  "md_World D db = decoded (map (\<lambda>k. md_GetPackage D k db) (md_GetPackages D db))"

text \<open>The searches by a predicate stop at a package that does not decode, with what they had found.\<close>

fun md_filter :: "(default_package \<Rightarrow> bool) \<Rightarrow> default_package res list \<Rightarrow> default_package list \<Rightarrow>
    err option \<times> default_package list" where
  "md_filter P [] ans = (None, ans)"
| "md_filter P (r # rs) ans =
     (case r of Inl e \<Rightarrow> (Some e, ans) | Inr p \<Rightarrow> md_filter P rs (if P p then ans @ [p] else ans))"

definition md_FindPackageLabel :: "db_env \<Rightarrow> string \<Rightarrow> mem_db \<Rightarrow> err option \<times> default_package list" where
  "md_FindPackageLabel D labelKey db =
     md_filter (\<lambda>p. HasLabel p labelKey) (map (\<lambda>k. md_GetPackage D k db) (md_GetPackages D db)) []"

definition md_FindPackageLabelMatch ::
    "db_env \<Rightarrow> rx \<Rightarrow> string \<Rightarrow> mem_db \<Rightarrow> (err option \<times> default_package list) panics" where
  "md_FindPackageLabelMatch D R pattern db =
     (case R pattern of
        None \<Rightarrow> Panics (''regexp: Compile: '' @ pattern)
      | Some re \<Rightarrow>
          Returns (md_filter (\<lambda>p. MatchLabel p re) (map (\<lambda>k. md_GetPackage D k db) (md_GetPackages D db)) []))"

definition md_FindPackageMatch ::
    "db_env \<Rightarrow> rx \<Rightarrow> string \<Rightarrow> mem_db \<Rightarrow> (err option \<times> default_package list) panics" where
  "md_FindPackageMatch D R pattern db =
     (case R pattern of
        None \<Rightarrow> Panics (''regexp: Compile: '' @ pattern)
      | Some re \<Rightarrow>
          Returns (md_filter (\<lambda>p. re (HumanReadableString p))
            (map (\<lambda>k. md_GetPackage D k db) (md_GetPackages D db)) []))"

text \<open>\<open>Expand\<close> of a package over the packages found for it.\<close>

fun expand_filter :: "db_env \<Rightarrow> default_package \<Rightarrow> default_package list \<Rightarrow> default_package list res" where
  "expand_filter D p [] = Inr []"
| "expand_filter D p (w # ws) =
     (case SelectorMatchVersion (deLib D) (deOrder D) (deSort D) p (pVersion w) of
        Inl e \<Rightarrow> Inl e
      | Inr m \<Rightarrow> map_sum id (\<lambda>vs. if m then w # vs else vs) (expand_filter D p ws))"

definition Expand ::
    "db_env \<Rightarrow> (default_package \<Rightarrow> default_package list res option) \<Rightarrow> default_package \<Rightarrow> default_package list res option" where
  "Expand D findPackages p =
     (case findPackages p of
        None \<Rightarrow> None
      | Some (Inl e) \<Rightarrow> Some (Inl e)
      | Some (Inr all) \<Rightarrow> Some (expand_filter D p all))"

text \<open>
  \<open>FindPackageCandidate\<close>: the error of \<open>Expand\<close> is wrapped and returned with the package asked for; with
  no error and nothing found the wrap is nil.  The best package is nil when the sort loses its version.
\<close>

definition find_candidate ::
    "db_env \<Rightarrow> (default_package \<Rightarrow> default_package res option) \<Rightarrow>
     (default_package \<Rightarrow> default_package list res option) \<Rightarrow> default_package \<Rightarrow>
     (default_package option \<times> err option) option" where
  "find_candidate D findPackage findPackages p =
     (case findPackage p of
        None \<Rightarrow> None
      | Some (Inr q) \<Rightarrow> Some (Some q, None)
      | Some (Inl _) \<Rightarrow>
         (case Expand D findPackages p of
            None \<Rightarrow> None
          | Some (Inl e) \<Rightarrow> Some (Some p, Some (''Candidate not found: '' @ e))
          | Some (Inr ps) \<Rightarrow>
             (case Best (deLib D) (deSort D) ps of
                Panics _ \<Rightarrow> Some (Some p, None)
              | Returns q \<Rightarrow> Some (q, None))))"

definition md_FindPackageCandidate ::
    "db_env \<Rightarrow> nat \<Rightarrow> mem_db \<Rightarrow> default_package \<Rightarrow> (default_package option \<times> err option) option" where
  "md_FindPackageCandidate D n db p = find_candidate D (md_FindPackage D n db) (md_FindPackages D n db) p"

subsection \<open>Reverse requirements\<close>

definition rev_deps_of :: "db_env \<Rightarrow> mem_db \<Rightarrow> default_package \<Rightarrow> default_package list" where
  "rev_deps_of D db pp =
     (case gm_get (mdRevDeps db) (GetFingerPrint pp) of
        None \<Rightarrow> [] | Some l \<Rightarrow> map snd (gm_range (deOrder D) l))"

text \<open>
  \<open>getRevdeps\<close> with the bound \<open>m\<close> on its own depth: what was found, the error, and the packages visited.
  With an error the packages found so far are returned too.
\<close>

fun md_getRevdeps ::
      "db_env \<Rightarrow> nat \<Rightarrow> nat \<Rightarrow> mem_db \<Rightarrow> default_package \<Rightarrow> string list \<Rightarrow>
       (default_package list \<times> err option \<times> string list) option"
  and md_revdeps_loop ::
      "db_env \<Rightarrow> nat \<Rightarrow> nat \<Rightarrow> mem_db \<Rightarrow> default_package list \<Rightarrow> default_package list \<Rightarrow> string list \<Rightarrow>
       (default_package list \<times> err option \<times> string list) option" where
  "md_getRevdeps D n 0 db p visited = None"
| "md_getRevdeps D n (Suc m) db p visited =
     (if HumanReadableString p \<in> set visited then Some ([], None, visited)
      else case md_FindPackages D n db p of
        None \<Rightarrow> None
      | Some (Inl e) \<Rightarrow> Some ([], Some e, HumanReadableString p # visited)
      | Some (Inr packs) \<Rightarrow>
          (case md_revdeps_loop D n m db (concat (map (rev_deps_of D db) packs)) [] (HumanReadableString p # visited) of
             None \<Rightarrow> None
           | Some (res, None, v) \<Rightarrow> Some (Unique (deOrder D) res, None, v)
           | r \<Rightarrow> r))"
| "md_revdeps_loop D n m db [] res visited = Some (res, None, visited)"
| "md_revdeps_loop D n m db (revdep # rs) res visited =
     (case md_FindPackage D n db revdep of
        None \<Rightarrow> None
      | Some (Inl e) \<Rightarrow> Some (res, Some e, visited)
      | Some (Inr dep) \<Rightarrow>
          (case md_getRevdeps D n m db dep visited of
             None \<Rightarrow> None
           | Some (packs, Some e, v) \<Rightarrow> Some (res @ [dep], Some e, v)
           | Some (packs, None, v) \<Rightarrow> md_revdeps_loop D n m db rs (res @ dep # packs) v))"

definition md_GetRevdeps ::
    "db_env \<Rightarrow> nat \<Rightarrow> nat \<Rightarrow> mem_db \<Rightarrow> default_package \<Rightarrow> (default_package list \<times> err option) option" where
  "md_GetRevdeps D n m db p =
     (case md_getRevdeps D n m db p [] of None \<Rightarrow> None | Some (res, e, v) \<Rightarrow> Some (res, e))"

section \<open>The database on disk\<close>

text \<open>
  A collection of storm: the last identifier given and the records, in the order of their identifiers.
  A record saved with the identifier 0 is given the next one; with another it replaces the record of
  that identifier; when another record has its value of a unique field, the save is undone.
\<close>

record 'a coll =
  clLast :: int
  clRecs :: "(int \<times> 'a) list"

definition empty_coll :: "'a coll" where
  "empty_coll = \<lparr>clLast = 0, clRecs = []\<rparr>"

fun rec_put :: "int \<Rightarrow> 'a \<Rightarrow> (int \<times> 'a) list \<Rightarrow> (int \<times> 'a) list" where
  "rec_put i x [] = [(i, x)]"
| "rec_put i x ((j, y) # rs) =
     (if j = i then (i, x) # rs else if j < i then (j, y) # rec_put i x rs else (i, x) # (j, y) # rs)"

definition coll_save :: "('a \<Rightarrow> string) \<Rightarrow> int \<Rightarrow> (int \<Rightarrow> 'a) \<Rightarrow> 'a coll \<Rightarrow> int res \<times> 'a coll" where
  "coll_save uniq i0 mk c =
     (let i = (if i0 = 0 then clLast c + 1 else i0); x = mk i
      in if list_ex (\<lambda>(j, y). j \<noteq> i \<and> uniq y \<noteq> [] \<and> uniq y = uniq x) (clRecs c) then (Inl ''already exists'', c)
         else (Inr i, \<lparr>clLast = (if i0 = 0 then i else clLast c), clRecs = rec_put i x (clRecs c)\<rparr>))"

definition not_found_err :: err where
  "not_found_err = ''not found''"

definition coll_first :: "('a \<Rightarrow> bool) \<Rightarrow> 'a coll \<Rightarrow> (int \<times> 'a) res" where
  "coll_first P c = (case find (\<lambda>(j, y). P y) (clRecs c) of None \<Rightarrow> Inl not_found_err | Some r \<Rightarrow> Inr r)"

definition coll_delete :: "int \<Rightarrow> 'a coll \<Rightarrow> 'a coll" where
  "coll_delete i c = c\<lparr>clRecs := filter (\<lambda>(j, y). j \<noteq> i) (clRecs c)\<rparr>"

record bolt_db =
  bdOpenErr :: "err option"
  bdPackages :: "default_package coll"
  bdFiles :: "(string \<times> string list) coll"
  bdFinalizers :: "pkg_finalizer coll"
  bdProvides :: packages_map

definition NewBoltDatabase :: bolt_db where
  "NewBoltDatabase =
     \<lparr>bdOpenErr = None, bdPackages = empty_coll, bdFiles = empty_coll, bdFinalizers = empty_coll, bdProvides = []\<rparr>"

definition open_err :: "bolt_db \<Rightarrow> err \<Rightarrow> err" where
  "open_err db e = ''Error open_err boltdb: '' @ e"

text \<open>The selection by name, category and version.\<close>

definition same_package :: "default_package \<Rightarrow> default_package \<Rightarrow> bool" where
  "same_package p q = (pName q = pName p \<and> pCategory q = pCategory p \<and> pVersion q = pVersion p)"

definition bd_look :: "bolt_db \<Rightarrow> default_package \<Rightarrow> default_package res" where
  "bd_look db p =
     (case bdOpenErr db of
        Some e \<Rightarrow> Inl e
      | None \<Rightarrow> map_sum id snd (coll_first (same_package p) (bdPackages db)))"

definition bd_getProvide :: "db_env \<Rightarrow> nat \<Rightarrow> bolt_db \<Rightarrow> default_package \<Rightarrow> default_package res option" where
  "bd_getProvide D n db p = getProvide D (bdProvides db) (bd_look db) n p"

definition bd_FindPackage :: "db_env \<Rightarrow> nat \<Rightarrow> bolt_db \<Rightarrow> default_package \<Rightarrow> default_package res option" where
  "bd_FindPackage D n db p = find_package D (bdProvides db) (bd_look db) n p"

definition bd_World :: "bolt_db \<Rightarrow> default_package list" where
  "bd_World db = (case bdOpenErr db of Some e \<Rightarrow> [] | None \<Rightarrow> map snd (clRecs (bdPackages db)))"

definition bd_GetPackages :: "bolt_db \<Rightarrow> int list" where
  "bd_GetPackages db = (case bdOpenErr db of Some e \<Rightarrow> [] | None \<Rightarrow> map fst (clRecs (bdPackages db)))"

definition bd_GetPackage :: "int \<Rightarrow> bolt_db \<Rightarrow> default_package res" where
  "bd_GetPackage i db =
     (case bdOpenErr db of
        Some e \<Rightarrow> Inl e
      | None \<Rightarrow> map_sum id snd (coll_first (\<lambda>p. ID (pkg_data p) = i) (bdPackages db)))"

definition set_ID :: "default_package \<Rightarrow> int \<Rightarrow> default_package" where
  "set_ID p i = upd_info (\<lambda>x. x\<lparr>ID := i\<rparr>) p"

text \<open>The package saved, a pointer, has the identifier it was given; so has the one in the provides.\<close>

definition bd_CreatePackage :: "default_package \<Rightarrow> bolt_db \<Rightarrow> int res \<times> bolt_db" where
  "bd_CreatePackage p db =
     (case bdOpenErr db of
        Some e \<Rightarrow> (Inl (open_err db e), db)
      | None \<Rightarrow>
         (case coll_save (\<lambda>_. []) (ID (pkg_data p)) (set_ID p) (bdPackages db) of
            (Inl e, c) \<Rightarrow> (Inl (''Error saving package: '' @ e), db)
          | (Inr i, c) \<Rightarrow>
              (Inr i, db\<lparr>bdPackages := c,
                         bdProvides := add_provides_db (Provides p) (set_ID p i) (bdProvides db)\<rparr>)))"

definition bd_RemovePackage :: "default_package \<Rightarrow> bolt_db \<Rightarrow> err option \<times> bolt_db" where
  "bd_RemovePackage p db =
     (case bdOpenErr db of
        Some e \<Rightarrow> (Some (open_err db e), db)
      | None \<Rightarrow>
         (case coll_first (same_package p) (bdPackages db) of
            Inl e \<Rightarrow> (Some (''Package not found: '' @ HumanReadableString p), db)
          | Inr (i, q) \<Rightarrow> (None, db\<lparr>bdPackages := coll_delete i (bdPackages db)\<rparr>)))"

definition bd_UpdatePackage :: "default_package \<Rightarrow> bolt_db \<Rightarrow> err option \<times> bolt_db" where
  "bd_UpdatePackage p db =
     (case bd_RemovePackage p db of
        (Some e, db) \<Rightarrow> (Some e, db)
      | (None, db) \<Rightarrow> (case bd_CreatePackage p db of (Inl e, db) \<Rightarrow> (Some e, db) | (Inr _, db) \<Rightarrow> (None, db)))"

text \<open>The record of the files is saved without an identifier, as every caller gives it.\<close>

definition bd_SetPackageFiles :: "string \<Rightarrow> string list \<Rightarrow> bolt_db \<Rightarrow> err option \<times> bolt_db" where
  "bd_SetPackageFiles fp files db =
     (case bdOpenErr db of
        Some e \<Rightarrow> (Some (open_err db e), db)
      | None \<Rightarrow>
         (case coll_save fst 0 (\<lambda>_. (fp, files)) (bdFiles db) of
            (Inl e, c) \<Rightarrow> (Some e, db)
          | (Inr i, c) \<Rightarrow> (None, db\<lparr>bdFiles := c\<rparr>)))"

definition bd_GetPackageFiles :: "default_package \<Rightarrow> bolt_db \<Rightarrow> string list res" where
  "bd_GetPackageFiles p db =
     (case bdOpenErr db of
        Some e \<Rightarrow> Inl (open_err db e)
      | None \<Rightarrow>
         (case coll_first (\<lambda>f. fst f = GetFingerPrint p) (bdFiles db) of
            Inl e \<Rightarrow> Inl (''While retrieving files: '' @ e) | Inr (i, f) \<Rightarrow> Inr (snd f)))"

definition bd_RemovePackageFiles :: "default_package \<Rightarrow> bolt_db \<Rightarrow> err option \<times> bolt_db" where
  "bd_RemovePackageFiles p db =
     (case bdOpenErr db of
        Some e \<Rightarrow> (Some (open_err db e), db)
      | None \<Rightarrow>
         (case coll_first (\<lambda>f. fst f = GetFingerPrint p) (bdFiles db) of
            Inl e \<Rightarrow> (Some (''While finding files: '' @ e), db)
          | Inr (i, f) \<Rightarrow> (None, db\<lparr>bdFiles := coll_delete i (bdFiles db)\<rparr>)))"

text \<open>A package with no finalizer is no error.\<close>

definition bd_GetPackageFinalizer :: "default_package \<Rightarrow> bolt_db \<Rightarrow> pkg_finalizer option res" where
  "bd_GetPackageFinalizer p db =
     (case bdOpenErr db of
        Some e \<Rightarrow> Inl (open_err db e)
      | None \<Rightarrow>
         (case coll_first (\<lambda>f. fzFingerprint f = GetFingerPrint p) (bdFinalizers db) of
            Inl e \<Rightarrow> if e = not_found_err then Inr None else Inl (''While finding finalizer: '' @ e)
          | Inr (i, f) \<Rightarrow> Inr (Some f)))"

definition bd_SetPackageFinalizer :: "pkg_finalizer \<Rightarrow> bolt_db \<Rightarrow> err option \<times> bolt_db" where
  "bd_SetPackageFinalizer f db =
     (case bdOpenErr db of
        Some e \<Rightarrow> (Some (open_err db e), db)
      | None \<Rightarrow>
         (case coll_save fzFingerprint (fzID f) (\<lambda>i. f\<lparr>fzID := i\<rparr>) (bdFinalizers db) of
            (Inl e, c) \<Rightarrow> (Some e, db)
          | (Inr i, c) \<Rightarrow> (None, db\<lparr>bdFinalizers := c\<rparr>)))"

definition bd_RemovePackageFinalizer :: "default_package \<Rightarrow> bolt_db \<Rightarrow> err option \<times> bolt_db" where
  "bd_RemovePackageFinalizer p db =
     (case bdOpenErr db of
        Some e \<Rightarrow> (Some (open_err db e), db)
      | None \<Rightarrow>
         (case coll_first (\<lambda>f. fzFingerprint f = GetFingerPrint p) (bdFinalizers db) of
            Inl e \<Rightarrow> (if e = not_found_err then None else Some (''While finding finalizer: '' @ e), db)
          | Inr (i, f) \<Rightarrow> (None, db\<lparr>bdFinalizers := coll_delete i (bdFinalizers db)\<rparr>)))"

text \<open>The packages of the name in the world, those of them that a selector admits.\<close>

fun world_versions :: "db_env \<Rightarrow> default_package \<Rightarrow> default_package list \<Rightarrow> default_package list res" where
  "world_versions D p [] = Inr []"
| "world_versions D p (w # ws) =
     (if pName w \<noteq> pName p \<or> pCategory w \<noteq> pCategory p then world_versions D p ws
      else case SelectorMatchVersion (deLib D) (deOrder D) (deSort D) p (pVersion w) of
        Inl e \<Rightarrow> Inl (''Error on match selector: '' @ e)
      | Inr m \<Rightarrow> map_sum id (\<lambda>vs. if m then w # vs else vs) (world_versions D p ws))"

definition bd_FindPackages :: "db_env \<Rightarrow> nat \<Rightarrow> bolt_db \<Rightarrow> default_package \<Rightarrow> default_package list res option" where
  "bd_FindPackages D n db p =
     (if \<not> IsSelector p then map_option (map_sum id (\<lambda>q. [q])) (bd_FindPackage D n db p)
      else case bd_getProvide D n db p of
        None \<Rightarrow> None
      | Some (Inr provided) \<Rightarrow>
          if \<not> IsSelector provided then Some (Inr [provided])
          else Some (world_versions D provided (bd_World db))
      | Some (Inl e) \<Rightarrow> Some (world_versions D p (bd_World db)))"

definition bd_FindPackageVersions ::
    "db_env \<Rightarrow> nat \<Rightarrow> bolt_db \<Rightarrow> default_package \<Rightarrow> default_package list option" where
  "bd_FindPackageVersions D n db p =
     (case bd_getProvide D n db p of
        None \<Rightarrow> None
      | Some r \<Rightarrow>
         (let p = (case r of Inr provided \<Rightarrow> provided | Inl e \<Rightarrow> p)
          in Some (filter (\<lambda>w. \<not> (pName w \<noteq> pName p \<or> pCategory w \<noteq> pCategory p)) (bd_World db))))"

definition bd_FindPackageCandidate ::
    "db_env \<Rightarrow> nat \<Rightarrow> bolt_db \<Rightarrow> default_package \<Rightarrow> (default_package option \<times> err option) option" where
  "bd_FindPackageCandidate D n db p = find_candidate D (bd_FindPackage D n db) (bd_FindPackages D n db) p"

definition bd_FindPackageLabel :: "string \<Rightarrow> bolt_db \<Rightarrow> default_package list" where
  "bd_FindPackageLabel labelKey db = filter (\<lambda>p. HasLabel p labelKey) (bd_World db)"

definition bd_FindPackageLabelMatch :: "rx \<Rightarrow> string \<Rightarrow> bolt_db \<Rightarrow> default_package list res" where
  "bd_FindPackageLabelMatch R pattern db =
     (case R pattern of
        None \<Rightarrow> Inl (''Invalid regex '' @ pattern @ ''!'')
      | Some re \<Rightarrow> Inr (filter (\<lambda>p. MatchLabel p re) (bd_World db)))"

definition bd_FindPackageMatch :: "rx \<Rightarrow> string \<Rightarrow> bolt_db \<Rightarrow> default_package list res" where
  "bd_FindPackageMatch R pattern db =
     (case R pattern of
        None \<Rightarrow> Inl (''Invalid regex '' @ pattern @ ''!'')
      | Some re \<Rightarrow> Inr (filter (\<lambda>p. re (HumanReadableString p)) (bd_World db)))"

section \<open>What both share\<close>

text \<open>\<open>files\<close> are the files of a package, an error when the database has none.\<close>

definition findPackageByFile ::
    "rx \<Rightarrow> (default_package \<Rightarrow> string list res) \<Rightarrow> string \<Rightarrow> default_package list \<Rightarrow> default_package list res" where
  "findPackageByFile R files pattern world =
     (case R pattern of
        None \<Rightarrow> Inl (''Invalid regex '' @ pattern @ ''!'')
      | Some re \<Rightarrow> Inr (filter (\<lambda>p. case files p of Inl _ \<Rightarrow> False | Inr fs \<Rightarrow> list_ex re fs) world))"

text \<open>\<open>clone\<close> into a database in memory, and \<open>Copy\<close>, which gives the new database with an error too.\<close>

fun clone_db :: "db_env \<Rightarrow> nat \<Rightarrow> default_package list \<Rightarrow> mem_db \<Rightarrow> (err option \<times> mem_db) option" where
  "clone_db D n [] dst = Some (None, dst)"
| "clone_db D n (p # ps) dst =
     (case md_CreatePackage D n p dst of
        None \<Rightarrow> None
      | Some (Inl e, dst) \<Rightarrow> Some (Some (''Failed create package '' @ HumanReadableString p @ '': '' @ e), dst)
      | Some (Inr _, dst) \<Rightarrow> clone_db D n ps dst)"

definition copy_db :: "db_env \<Rightarrow> nat \<Rightarrow> default_package list \<Rightarrow> (err option \<times> mem_db) option" where
  "copy_db D n world =
     map_option (map_prod (map_option (\<lambda>e. ''Failed create temporary in-memory db: '' @ e)) id)
       (clone_db D n world NewInMemoryDatabase)"

text \<open>The reverse requirements on disk are those of a copy in memory.\<close>

definition bd_GetRevdeps ::
    "db_env \<Rightarrow> nat \<Rightarrow> nat \<Rightarrow> bolt_db \<Rightarrow> default_package \<Rightarrow> (default_package list \<times> err option) option" where
  "bd_GetRevdeps D n m db p =
     (case copy_db D n (bd_World db) of
        None \<Rightarrow> None
      | Some (Some e, _) \<Rightarrow> Some ([], Some ''Failed copying bolt db to memory'')
      | Some (None, memory) \<Rightarrow> md_GetRevdeps D n m memory p)"

end
