(* ===== verification/Files.thy ===== *)
theory Files
  imports Searcher Database
begin

text \<open>
  Files of the target system: what the code uses of the file system of Go's standard library
  (\<open>os.Lstat\<close>, \<open>os.Stat\<close>, \<open>os.Remove\<close>, \<open>ioutil.ReadDir\<close>), \<open>OrderFiles\<close> of
  \<open>pkg/helpers/file/file.go\<close>, the protected files of \<open>pkg/config/config_protect.go\<close>, the directories of
  \<open>pkg/config/config.go\<close>, and \<open>removePackageFiles\<close> of \<open>pkg/v2/installer/manager.go\<close>.

  A disk has an entry under the path of each file, directory and symbolic link, a path being the list of
  its components; no path of an entry goes through a link.  A name is resolved as the kernel does it,
  through links and dots, with at most 40 links.  A relative name is taken from the root.  No file is
  refused for its permissions.
\<close>

section \<open>The disk\<close>

datatype node = NFile | NDir | NLink string

type_synonym path = "string list"
type_synonym disk = "(path \<times> node) list"

datatype errno = ENOENT | ENOTDIR | ELOOP

definition comps :: "string \<Rightarrow> path" where
  "comps p = filter (\<lambda>c. c \<noteq> []) (SplitChar CHR ''/'' p)"

definition entry :: "disk \<Rightarrow> path \<Rightarrow> node option" where
  "entry d p = (if p = [] then Some NDir else map_of d p)"

definition link_base :: "string \<Rightarrow> path \<Rightarrow> path" where
  "link_base t base = (if HasPrefix t ''/'' then [] else base)"

text \<open>
  The entry that a name stands for, from the directory \<open>base\<close>; the last component is followed when it is
  a link and \<open>fl\<close> holds.
\<close>

function walk :: "disk \<Rightarrow> bool \<Rightarrow> nat \<Rightarrow> path \<Rightarrow> path \<Rightarrow> errno + path" where
  "walk d fl n base [] = Inr base"
| "walk d fl n base (c # cs) =
     (if c = ''.'' then walk d fl n base cs
      else if c = ''..'' then walk d fl n (butlast base) cs
      else case entry d (base @ [c]) of
        None \<Rightarrow> Inl ENOENT
      | Some NFile \<Rightarrow> if cs = [] then Inr (base @ [c]) else Inl ENOTDIR
      | Some NDir \<Rightarrow> walk d fl n (base @ [c]) cs
      | Some (NLink t) \<Rightarrow>
          if cs = [] \<and> \<not> fl then Inr (base @ [c])
          else (case n of
                  0 \<Rightarrow> Inl ELOOP
                | Suc m \<Rightarrow> walk d fl m (link_base t base) (comps t @ cs)))"
  by pat_completeness auto

termination
  by (relation "measures [\<lambda>(d, fl, n, base, cs). n, \<lambda>(d, fl, n, base, cs). length cs]") auto

declare walk.simps [simp del]

definition max_links :: nat where
  "max_links = 40"

definition resolve :: "disk \<Rightarrow> bool \<Rightarrow> string \<Rightarrow> errno + path" where
  "resolve d fl p = walk d fl max_links [] (comps p)"

definition os_Lstat :: "disk \<Rightarrow> string \<Rightarrow> errno + node" where
  "os_Lstat d p = map_sum id (\<lambda>q. the (entry d q)) (resolve d False p)"

definition has_entries :: "disk \<Rightarrow> path \<Rightarrow> bool" where
  "has_entries d q = list_ex (\<lambda>(p, _). p \<noteq> [] \<and> butlast p = q) d"

text \<open>\<open>len(files) != 0\<close> after \<open>ReadDir\<close>, which has no files when it fails.\<close>

definition dir_has_files :: "disk \<Rightarrow> string \<Rightarrow> bool" where
  "dir_has_files d p = (case resolve d True p of Inl _ \<Rightarrow> False | Inr q \<Rightarrow> has_entries d q)"

text \<open>\<open>os.Remove\<close>: a file, a link, or an empty directory.\<close>

definition os_Remove :: "string \<Rightarrow> disk \<Rightarrow> disk" where
  "os_Remove p d =
     (case resolve d False p of
        Inl _ \<Rightarrow> d
      | Inr q \<Rightarrow> if q = [] \<or> entry d q = Some NDir \<and> has_entries d q then d else AList.delete q d)"

text \<open>\<open>Exists\<close>: every error but a missing file counts as existing.\<close>

definition Exists :: "disk \<Rightarrow> string \<Rightarrow> bool" where
  "Exists d p = (resolve d True p \<noteq> Inl ENOENT)"

text \<open>\<open>filepath.Dir\<close>.\<close>

definition PathDir :: "string \<Rightarrow> string" where
  "PathDir p = Clean (rev (dropWhile (\<lambda>c. c \<noteq> CHR ''/'') (rev p)))"

section \<open>The order of the files\<close>

fun order_loop :: "disk \<Rightarrow> string \<Rightarrow> string list \<Rightarrow> string list \<times> string list \<times> string list" where
  "order_loop d target [] = ([], [], [])"
| "order_loop d target (f # fs) =
     (let (newFiles, dirs, notPresent) = order_loop d target fs
      in case os_Lstat d (PathJoin [target, f]) of
           Inl _ \<Rightarrow> (newFiles, dirs, f # notPresent)
         | Inr NDir \<Rightarrow> (newFiles, f # dirs, notPresent)
         | Inr _ \<Rightarrow> (f # newFiles, dirs, notPresent))"

definition deeper :: "string \<Rightarrow> string \<Rightarrow> bool" where
  "deeper a b = (length (SplitChar CHR ''/'' a) > length (SplitChar CHR ''/'' b))"

type_synonym name_sort = "(string \<Rightarrow> string \<Rightarrow> bool) \<Rightarrow> string list \<Rightarrow> string list"

definition OrderFiles ::
    "name_sort \<Rightarrow> disk \<Rightarrow> string \<Rightarrow> string list \<Rightarrow> string list \<times> string list \<times> string list" where
  "OrderFiles srt d target files =
     (case order_loop d target files of (newFiles, dirs, notPresent) \<Rightarrow> (newFiles, srt deeper dirs, notPresent))"

section \<open>Protected files\<close>

text \<open>\<open>cpProtected\<close> are the keys of the map of the protected files.\<close>

record config_protect =
  cpAnnotationDir :: string
  cpProtected :: "string list"

definition NewConfigProtect :: "string \<Rightarrow> config_protect" where
  "NewConfigProtect annotationDir =
     \<lparr>cpAnnotationDir =
        (if length annotationDir > 0 \<and> take 1 annotationDir \<noteq> ''/'' then ''/'' @ annotationDir else annotationDir),
      cpProtected = []\<rparr>"

definition slashed :: "string \<Rightarrow> string" where
  "slashed f = (if take 1 f \<noteq> ''/'' then ''/'' @ f else f)"

text \<open>\<open>confs\<close> are the directories of each of the files of the configuration.\<close>

fun in_conf_dirs :: "string list list \<Rightarrow> string \<Rightarrow> bool" where
  "in_conf_dirs [] f = False"
| "in_conf_dirs (dirs # confs) f = (list_ex (\<lambda>dir. HasPrefix f (Clean dir)) dirs \<or> in_conf_dirs confs f)"

definition is_protected :: "string list list \<Rightarrow> config_protect \<Rightarrow> string \<Rightarrow> bool" where
  "is_protected confs c f =
     (in_conf_dirs confs f \<or> cpAnnotationDir c \<noteq> [] \<and> HasPrefix f (Clean (cpAnnotationDir c)))"

text \<open>\<open>file[0:1]\<close> panics on the empty name.\<close>

fun map_files :: "string list list \<Rightarrow> string list \<Rightarrow> config_protect \<Rightarrow> config_protect panics" where
  "map_files confs [] c = Returns c"
| "map_files confs (f # fs) c =
     (if f = [] then Panics ''slice bounds out of range''
      else
        (let f = slashed f
         in map_files confs fs
              (if is_protected confs c f then c\<lparr>cpProtected := cpProtected c @ [f]\<rparr> else c)))"

definition Map :: "bool \<Rightarrow> string list list \<Rightarrow> string list \<Rightarrow> config_protect \<Rightarrow> config_protect panics" where
  "Map skip confs files c = (if skip then Returns c else map_files confs files c)"

text \<open>\<open>Protected\<close> would panic on the empty name too; it is asked for names that \<open>Map\<close> has seen and for joins.\<close>

definition Protected :: "config_protect \<Rightarrow> string \<Rightarrow> bool" where
  "Protected c f = (slashed f \<in> set (cpProtected c))"

definition GetProtectFiles :: "(string list \<Rightarrow> string list) \<Rightarrow> config_protect \<Rightarrow> bool \<Rightarrow> string list" where
  "GetProtectFiles it c withSlash =
     (let keys = it (remdups (cpProtected c)) in if withSlash then keys else map (drop 1) keys)"

section \<open>Directories of the system\<close>

text \<open>\<open>scTemp\<close> is the temporary directory made when no cache of packages is configured.\<close>

record system_conf =
  scRootfs :: string
  scDatabasePath :: string
  scPkgsCachePath :: string
  scTemp :: string

definition GetSystemRepoDatabaseDirPath :: "system_conf \<Rightarrow> string" where
  "GetSystemRepoDatabaseDirPath s = PathJoin [scRootfs s, scDatabasePath s]"

definition GetSystemReposDirPath :: "system_conf \<Rightarrow> string" where
  "GetSystemReposDirPath s = PathJoin [scRootfs s, scDatabasePath s, ''repos'']"

definition GetRepoDatabaseDirPath :: "system_conf \<Rightarrow> string \<Rightarrow> string" where
  "GetRepoDatabaseDirPath s name = PathJoin [PathJoin [scRootfs s, scDatabasePath s], ''repos/'' @ name]"

definition GetSystemPkgsCacheDirPath :: "system_conf \<Rightarrow> string" where
  "GetSystemPkgsCacheDirPath s =
     (let cachepath = (if scPkgsCachePath s \<noteq> [] then scPkgsCachePath s else scTemp s)
      in if HasPrefix cachepath ''/'' then cachepath
         else PathJoin [GetSystemRepoDatabaseDirPath s, cachepath])"

section \<open>The removal of the files of a package\<close>

text \<open>The configuration of the manager and the one that \<open>Map\<close> reads are the same.\<close>

record inst_conf =
  icProtectSkip :: bool
  icProtectConfs :: "string list list"
  icSystem :: system_conf
  icDirSort :: name_sort

definition annotation_dir :: "default_package \<Rightarrow> string" where
  "annotation_dir p =
     (if HasAnnotation p ''config_protect'' then
        (case gm_get (pAnnotations p) ''config_protect'' of Some (IStr dir) \<Rightarrow> dir | _ \<Rightarrow> [])
      else [])"

definition essential :: "inst_conf \<Rightarrow> string \<Rightarrow> bool" where
  "essential C f =
     (HasPrefix f (GetSystemPkgsCacheDirPath (icSystem C)) \<or>
      HasPrefix f (GetSystemRepoDatabaseDirPath (icSystem C)))"

definition keep_protected :: "inst_conf \<Rightarrow> config_protect \<Rightarrow> string \<Rightarrow> bool" where
  "keep_protected C cp f = (\<not> icProtectSkip C \<and> Protected cp f)"

text \<open>The directories above the target, from the nearest up, to the rootfs.\<close>

fun parent_dirs :: "string \<Rightarrow> string list \<Rightarrow> nat \<Rightarrow> string list" where
  "parent_dirs root words i =
     (if i \<le> 1 then []
      else
        (let cpath = Join (take i words) ''/''
         in if cpath = root then [] else cpath # parent_dirs root words (i - 1)))"

declare parent_dirs.simps [simp del]

fun add_dirs :: "string list \<Rightarrow> int gomap \<Rightarrow> int gomap" where
  "add_dirs [] m = m"
| "add_dirs (c # cs) m = add_dirs cs (if gm_has m c then m else gm_set c 1 m)"

fun mark_dirs :: "string list \<Rightarrow> int gomap \<Rightarrow> int gomap" where
  "mark_dirs [] m = m"
| "mark_dirs (c # cs) m = mark_dirs cs (gm_set c 1 m)"

definition remove_file ::
    "inst_conf \<Rightarrow> config_protect \<Rightarrow> string \<Rightarrow> bool \<Rightarrow> string \<Rightarrow> disk \<Rightarrow> int gomap \<Rightarrow> disk \<times> int gomap" where
  "remove_file C cp root preserve f d mapDirs =
     (let target = PathJoin [root, f]
      in if keep_protected C cp f then (d, mapDirs)
         else if preserve \<and> essential C f then (d, mapDirs)
         else case os_Lstat d target of
           Inl _ \<Rightarrow> (d, mapDirs)
         | Inr fi \<Rightarrow>
             if fi = NDir \<and> dir_has_files d target then (d, mapDirs)
             else
               (let words = SplitChar CHR ''/'' (PathDir target)
                in (os_Remove target d, add_dirs (parent_dirs root words (length words)) mapDirs)))"

fun remove_files ::
    "inst_conf \<Rightarrow> config_protect \<Rightarrow> string \<Rightarrow> bool \<Rightarrow> string list \<Rightarrow> disk \<Rightarrow> int gomap \<Rightarrow> disk \<times> int gomap" where
  "remove_files C cp root preserve [] d mapDirs = (d, mapDirs)"
| "remove_files C cp root preserve (f # fs) d mapDirs =
     (case remove_file C cp root preserve f d mapDirs of
        (d, mapDirs) \<Rightarrow> remove_files C cp root preserve fs d mapDirs)"

fun remove_missing :: "inst_conf \<Rightarrow> config_protect \<Rightarrow> string \<Rightarrow> string list \<Rightarrow> disk \<Rightarrow> disk" where
  "remove_missing C cp root [] d = d"
| "remove_missing C cp root (f # fs) d =
     remove_missing C cp root fs (if keep_protected C cp f then d else os_Remove (PathJoin [root, f]) d)"

text \<open>
  The condition of the system's directories reads \<open>preserve && a || b\<close>.  Whatever is not a directory
  with files is removed.
\<close>

definition remove_dir :: "inst_conf \<Rightarrow> config_protect \<Rightarrow> string \<Rightarrow> bool \<Rightarrow> string \<Rightarrow> disk \<Rightarrow> disk" where
  "remove_dir C cp root preserve f0 d =
     (let f = PathJoin [root, f0]
      in if preserve \<and> HasPrefix f (GetSystemPkgsCacheDirPath (icSystem C)) \<or>
            HasPrefix f (GetSystemRepoDatabaseDirPath (icSystem C)) then d
         else if keep_protected C cp f then d
         else if os_Lstat d f = Inr NDir \<and> dir_has_files d f then d
         else os_Remove f d)"

fun remove_dirs :: "inst_conf \<Rightarrow> config_protect \<Rightarrow> string \<Rightarrow> bool \<Rightarrow> string list \<Rightarrow> disk \<Rightarrow> disk" where
  "remove_dirs C cp root preserve [] d = d"
| "remove_dirs C cp root preserve (f # fs) d = remove_dirs C cp root preserve fs (remove_dir C cp root preserve f d)"

definition package_files :: "bolt_db \<Rightarrow> stone \<Rightarrow> string list res" where
  "package_files db s =
     (if length (stFiles (st_data s)) > 0 then Inr (stFiles (st_data s))
      else case bd_GetPackageFiles (st_ToPackage s) db of
        Inl e \<Rightarrow>
          Inl (''error on retrieving files list of the package '' @ st_HumanReadableString s @ '': '' @ e)
      | Inr files \<Rightarrow> Inr files)"

definition protect_files :: "inst_conf \<Rightarrow> default_package \<Rightarrow> string list \<Rightarrow> config_protect panics" where
  "protect_files C p files =
     (if \<not> icProtectSkip C then
        Map (icProtectSkip C) (icProtectConfs C) files (NewConfigProtect (annotation_dir p))
      else Returns (NewConfigProtect []))"

definition remove_phases ::
    "inst_conf \<Rightarrow> config_protect \<Rightarrow> string \<Rightarrow> bool \<Rightarrow> string list \<Rightarrow> disk \<Rightarrow> disk" where
  "remove_phases C cp root preserve files d =
     (let (toRemove, dirs, notPresent) = OrderFiles (icDirSort C) d root files;
          (d1, mapDirs) = remove_files C cp root preserve (rev (sort toRemove)) d (mark_dirs dirs []);
          d2 = remove_missing C cp root notPresent d1
      in remove_dirs C cp root preserve (rev (sort (gm_keys mapDirs))) d2)"

definition removePackageFiles ::
    "inst_conf \<Rightarrow> bolt_db \<Rightarrow> stone \<Rightarrow> string \<Rightarrow> bool \<Rightarrow> disk \<Rightarrow> unit outcome \<times> disk" where
  "removePackageFiles C db s root preserve d =
     (case package_files db s of
        Inl e \<Rightarrow> (Err e, d)
      | Inr files \<Rightarrow>
         (case protect_files C (st_ToPackage s) files of
            Panics e \<Rightarrow> (Panic e, d)
          | Returns cp \<Rightarrow> (Ok (), remove_phases C cp root preserve files d)))"

end
