(* ===== verification/Wagon.thy ===== *)
theory Wagon
  imports Searcher
begin

text \<open>
  A repository of packages, \<open>pkg/v2/repository\<close>: its identity (\<open>wagon_identity.go\<close>), the paths of its
  tree, its synchronisation and the explosion of its metadata (\<open>wagon.go\<close>), and the map of provides
  (\<open>provides.go\<close>).

  The client, the file system and the YAML codecs are parameters (\<open>sync_io\<close>); what \<open>Sync\<close> does to the
  disk is the list of its actions in their order.
\<close>

section \<open>The identity\<close>

record wagon_document =
  wdFileName :: string
  wdCompression :: string
  wdChecksums :: "string gomap"

record wagon_identity =
  wiName :: string
  wiUrls :: "string list"
  wiPriority :: int
  wiAuthentication :: "string gomap"
  wiType :: string
  wiTreePath :: string
  wiMetaPath :: string
  wiRevision :: int
  wiLastUpdate :: string
  wiFile :: string
  wiFiles :: "wagon_document gomap"

definition PurgeFiles :: "wagon_identity \<Rightarrow> wagon_identity" where
  "PurgeFiles w = w\<lparr>wiFiles := []\<rparr>"

definition HasDocument :: "wagon_identity \<Rightarrow> string \<Rightarrow> bool" where
  "HasDocument w s = gm_has (wiFiles w) s"

definition Valid :: "wagon_identity \<Rightarrow> bool" where
  "Valid w =
     (if \<not> gm_has (wiFiles w) ''treev2'' then
        (if \<not> gm_has (wiFiles w) ''meta'' then False
         else if \<not> gm_has (wiFiles w) ''tree'' then False else True)
      else True)"

definition Is2Update :: "wagon_identity \<Rightarrow> wagon_identity \<Rightarrow> bool" where
  "Is2Update w new =
     (if wiRevision w = wiRevision new \<and> wiLastUpdate w = wiLastUpdate new then False else True)"

definition IncrementRevision :: "wagon_identity \<Rightarrow> wagon_identity" where
  "IncrementRevision w = w\<lparr>wiRevision := wiRevision w + 1\<rparr>"

text \<open>\<open>now\<close> is the time in seconds as a string.\<close>

definition BumpRevision :: "string \<Rightarrow> wagon_identity \<Rightarrow> wagon_identity" where
  "BumpRevision now w = (IncrementRevision w)\<lparr>wiLastUpdate := now\<rparr>"

text \<open>The load of the file overwrites the identity; what the configuration says is put back.\<close>

definition ReadWagonIdentify ::
    "(wagon_identity \<Rightarrow> wagon_identity res) \<Rightarrow> wagon_identity \<Rightarrow> wagon_identity res" where
  "ReadWagonIdentify load w =
     (case load w of
        Inl e \<Rightarrow> Inl e
      | Inr w' \<Rightarrow> Inr (w'\<lparr>wiName := wiName w, wiUrls := wiUrls w, wiPriority := wiPriority w,
                         wiAuthentication := wiAuthentication w, wiType := wiType w\<rparr>))"

definition GetTreePath :: "string \<Rightarrow> wagon_identity \<Rightarrow> string" where
  "GetTreePath repobasedir w =
     (if wiTreePath w = [] then PathJoin [PathJoin [repobasedir, wiName w], ''treefs'']
      else wiTreePath w)"

definition GetMetaPath :: "string \<Rightarrow> wagon_identity \<Rightarrow> string" where
  "GetMetaPath repobasedir w =
     (if wiTreePath w = [] then PathJoin [PathJoin [repobasedir, wiName w], ''metafs'']
      else wiTreePath w)"

section \<open>The map of provides\<close>

definition wp_Add :: "string \<Rightarrow> default_package \<Rightarrow> pkgs_map \<Rightarrow> pkgs_map" where
  "wp_Add provname p m =
     (case gm_get m provname of Some val \<Rightarrow> gm_set provname (val @ [p]) m | None \<Rightarrow> gm_set provname [p] m)"

fun add_prov_names :: "default_package list \<Rightarrow> default_package \<Rightarrow> pkgs_map \<Rightarrow> pkgs_map" where
  "add_prov_names [] p m = m"
| "add_prov_names (prov # ps) p m = add_prov_names ps p (wp_Add (PackageName prov) p m)"

text \<open>
  \<open>ExplodeMetadata\<close>: each artifact of the catalog whose directory exists is merged with its definition,
  and every provide of the definition is put in the map.  \<open>defs\<close> is the definition of the directory of
  a package, None when there is no directory.  The packages are pointers: the map holds the package as
  the merge leaves it.
\<close>

fun explode_loop ::
    "(default_package \<Rightarrow> default_package res option) \<Rightarrow> nat \<Rightarrow> artifact list \<Rightarrow> pkgs_map \<Rightarrow>
     (artifact list \<times> pkgs_map) outcome" where
  "explode_loop defs idx [] m = Ok ([], m)"
| "explode_loop defs idx (a # as) m =
     (case GetPackage a of
        None \<Rightarrow> Err (''Unexpected status on parse stone at pos '' @ show_nat idx)
      | Some p \<Rightarrow>
         (case defs p of
            None \<Rightarrow>
              (case explode_loop defs (Suc idx) as m of Ok (bs, m') \<Rightarrow> Ok (a # bs, m') | r \<Rightarrow> r)
          | Some (Inl e) \<Rightarrow> Err e
          | Some (Inr dp) \<Rightarrow>
              (case MergeDefinition dp a of
                 Panics e \<Rightarrow> Panic e
               | Returns a' \<Rightarrow>
                  (case explode_loop defs (Suc idx) as (add_prov_names (Provides dp) (art_pkg a') m) of
                     Ok (bs, m') \<Rightarrow> Ok (a' # bs, m') | r \<Rightarrow> r))))"

definition ExplodeMetadata ::
    "(default_package \<Rightarrow> default_package res option) \<Rightarrow> artifact list res \<Rightarrow> (artifact list \<times> pkgs_map) outcome" where
  "ExplodeMetadata defs catalog =
     (case catalog of Inl e \<Rightarrow> Err e | Inr index \<Rightarrow> explode_loop defs 0 index [])"

section \<open>Synchronisation\<close>

record sync_io =
  siClient :: bool
  siDownload :: "string \<Rightarrow> string res"
  siLoad :: "wagon_identity \<Rightarrow> wagon_identity res"
  siVerify :: "artifact \<Rightarrow> err option"
  siCopy :: "err option"
  siUnpackTree :: "err option"
  siUnpackMeta :: "err option"
  siCatalog :: "artifact list res"
  siDefs :: "default_package \<Rightarrow> default_package res option"

definition DownloadDocument :: "sync_io \<Rightarrow> wagon_identity \<Rightarrow> string \<Rightarrow> artifact res" where
  "DownloadDocument io w key =
     (case gm_get (wiFiles w) key of
        None \<Rightarrow> Inl (''key '' @ key @ '' not present in the repository'')
      | Some doc \<Rightarrow>
         (case siDownload io (wdFileName doc) of
            Inl e \<Rightarrow> Inl (''While downloading '' @ wdFileName doc @ '': '' @ e)
          | Inr f \<Rightarrow>
             (let a = (NewPackageArtifact f)\<lparr>aCachePath := f, aChecksums := wdChecksums doc,
                                           aCompressionType := wdCompression doc\<rparr>
              in case siVerify io a of
                   Some e \<Rightarrow> Inl (''file integrity check failure for repository '' @ wiName w @ '': '' @ e)
                 | None \<Rightarrow> Inr a)))"

text \<open>
  What \<open>Sync\<close> does to the disk: the file downloaded, here the identity it holds, is copied over the
  local one, the trees are removed, made and unpacked, the metadata exploded.
\<close>

datatype sync_act =
  CopyIdentity wagon_identity | RemoveAll string | UnpackTree artifact string | MkdirAll string
| UnpackMeta artifact string | Explode "(artifact list \<times> pkgs_map) outcome"

type_synonym synced = "unit outcome \<times> wagon_identity \<times> sync_act list"

text \<open>
  From the copy of the identity on: \<open>disk\<close> is the identity in the downloaded file, \<open>meta\<close> the tarball of
  the metadata of the old format.
\<close>

definition sync_install ::
    "sync_io \<Rightarrow> string \<Rightarrow> string \<Rightarrow> artifact \<Rightarrow> artifact option \<Rightarrow> wagon_identity \<Rightarrow> wagon_identity \<Rightarrow>
     wagon_identity \<Rightarrow> synced" where
  "sync_install io treefs metafs tree meta disk new w =
     (let acts = [CopyIdentity disk]
      in case siCopy io of
           Some e \<Rightarrow> (Err (''Error on update repository.yaml: '' @ e), w, [])
         | None \<Rightarrow>
            (let acts = acts @ [RemoveAll treefs, RemoveAll metafs, UnpackTree tree treefs]
             in case siUnpackTree io of
                  Some e \<Rightarrow> (Err (''Error met while unpacking tree: '' @ e), w, acts)
                | None \<Rightarrow>
                   (case meta of
                      None \<Rightarrow> (Ok (), new, acts)
                    | Some m \<Rightarrow>
                       (let acts = acts @ [MkdirAll metafs, UnpackMeta m metafs]
                        in case siUnpackMeta io of
                             Some e \<Rightarrow> (Err (''Error met while unpacking metadata: '' @ e), w, acts)
                           | None \<Rightarrow>
                              (let r = ExplodeMetadata (siDefs io) (siCatalog io)
                               in (case r of Ok _ \<Rightarrow> Ok () | Err e \<Rightarrow> Err e | Panic e \<Rightarrow> Panic e | Fuel \<Rightarrow> Fuel,
                                   new, acts @ [Explode r]))))))"

definition sync_update ::
    "sync_io \<Rightarrow> string \<Rightarrow> string \<Rightarrow> string \<Rightarrow> wagon_identity \<Rightarrow> wagon_identity \<Rightarrow> wagon_identity \<Rightarrow> synced" where
  "sync_update io repobasedir treefs metafs disk new w =
     (if HasDocument new ''treev2'' then
        (case DownloadDocument io new ''treev2'' of
           Inl e \<Rightarrow> (Err (''while fetching 'treev2': '' @ e), w, [])
         | Inr tree \<Rightarrow>
            sync_install io treefs metafs tree None disk
              (new\<lparr>wiFile := PathJoin [repobasedir, ''repository.yaml'']\<rparr>) w)
      else
        (case DownloadDocument io new ''tree'' of
           Inl e \<Rightarrow> (Err (''while fetching 'tree': '' @ e), w, [])
         | Inr tree \<Rightarrow>
           (case DownloadDocument io new ''meta'' of
              Inl e \<Rightarrow> (Err (''while fetching 'meta': '' @ e), w, [])
            | Inr meta \<Rightarrow>
               sync_install io treefs metafs tree (Some meta) disk
                 (new\<lparr>wiFile := PathJoin [repobasedir, ''repository.yaml'']\<rparr>) w)))"

text \<open>The load starts from a clone of the configuration, as the local identity does.\<close>

definition Sync :: "sync_io \<Rightarrow> string \<Rightarrow> bool \<Rightarrow> wagon_identity \<Rightarrow> synced" where
  "Sync io repobasedir force w =
     (if \<not> siClient io then (Err ''no client could be generated from repository'', w, [])
      else case siDownload io ''repository.yaml'' of
        Inl e \<Rightarrow> (Err (''While downloading repository.yaml: '' @ e), w, [])
      | Inr file \<Rightarrow>
         (case siLoad io w of
            Inl e \<Rightarrow> (Err e, w, [])
          | Inr new0 \<Rightarrow>
             (if \<not> Valid new0 then (Err ''Corrupted remote repository.yaml file'', w, [])
              else
                (let treefs = (if wiTreePath w = [] then PathJoin [repobasedir, ''treefs''] else wiTreePath w);
                     metafs = (if wiMetaPath w = [] then PathJoin [repobasedir, ''metafs''] else wiMetaPath w);
                     new = new0\<lparr>wiMetaPath := metafs, wiTreePath := treefs\<rparr>
                 in if Is2Update w new0 \<or> force then sync_update io repobasedir treefs metafs new0 new w
                    else (Ok (), w, [])))))"

section \<open>The synchronisation of the repositories\<close>

text \<open>
  \<open>processRepository\<close>: the local identity, when there is one, is read before the synchronisation; an
  error of the read ends it unless it is forced.  \<open>local\<close> is the load of the local file, None without
  the file.
\<close>

definition processRepository ::
    "(wagon_identity \<Rightarrow> wagon_identity res) option \<Rightarrow> sync_io \<Rightarrow> string \<Rightarrow> bool \<Rightarrow> wagon_identity \<Rightarrow> synced" where
  "processRepository local io repobasedir force w =
     (case local of
        None \<Rightarrow> Sync io repobasedir force w
      | Some load \<Rightarrow>
         (case ReadWagonIdentify load w of
            Inl e \<Rightarrow> if \<not> force then (Err e, w, []) else Sync io repobasedir force w
          | Inr w' \<Rightarrow> Sync io repobasedir force w'))"

text \<open>A repository of the configuration, and what \<open>processRepository\<close> does with it.\<close>

record sync_repo =
  syName :: string
  syEnable :: bool
  syProcess :: synced

text \<open>The repositories named, or the error of the first that the configuration does not have.\<close>

fun named_repos :: "sync_repo list \<Rightarrow> bool \<Rightarrow> string list \<Rightarrow> sync_repo list res" where
  "named_repos sys ignoreErrors [] = Inr []"
| "named_repos sys ignoreErrors (n # ns) =
     (case find (\<lambda>r. syName r = n) sys of
        None \<Rightarrow>
          (if \<not> ignoreErrors then Inl (''Repository '' @ n @ '' not found'') else named_repos sys ignoreErrors ns)
      | Some r \<Rightarrow> map_sum id (\<lambda>rs. r # rs) (named_repos sys ignoreErrors ns))"

text \<open>The answers are received in the order of arrival, which the verdict does not depend on.\<close>

fun sync_verdict :: "bool \<Rightarrow> unit outcome list \<Rightarrow> bool \<Rightarrow> unit outcome" where
  "sync_verdict ignoreErrors [] withErr = (if withErr then Err ''Not all repositories are been synced.'' else Ok ())"
| "sync_verdict ignoreErrors (r # rs) withErr =
     (case r of
        Ok _ \<Rightarrow> sync_verdict ignoreErrors rs withErr
      | Err e \<Rightarrow> sync_verdict ignoreErrors rs (if \<not> ignoreErrors then True else withErr)
      | Panic e \<Rightarrow> Panic e
      | Fuel \<Rightarrow> Fuel)"

definition SyncRepos ::
    "(unit outcome list \<Rightarrow> unit outcome list) \<Rightarrow> sync_repo list \<Rightarrow> string list \<Rightarrow> bool \<Rightarrow> unit outcome" where
  "SyncRepos arrive sys repos ignoreErrors =
     (if length repos > 0 then
        (case named_repos sys ignoreErrors repos of
           Inl e \<Rightarrow> Err e
         | Inr rs \<Rightarrow> sync_verdict ignoreErrors (arrive (map (\<lambda>r. fst (syProcess r)) rs)) False)
      else sync_verdict ignoreErrors (arrive (map (\<lambda>r. fst (syProcess r)) (filter syEnable sys))) False)"

end
