(* ===== verification/SolverInstall.thy ===== *)
theory SolverInstall
  imports SolverState
begin

text \<open>
  Installation, \<open>pkg/v2/solver/solver.go\<close>: \<open>Install\<close>, \<open>resolvePackage\<close>, \<open>processArtefactDeps\<close>.
  The two last call each other; their first argument is the depth of the calls of \<open>resolvePackage\<close>
  left, and \<open>resolve_total\<close> shows that one more than the number of the names that can occur is enough.
\<close>

section \<open>Resolving a package\<close>

definition version_of :: "artifact \<Rightarrow> string" where
  "version_of a = pVersion (art_pkg a)"

text \<open>The end of \<open>resolvePackage\<close>: the versions that were not banned, and the provides of the first.\<close>

fun add_provides :: "default_package list \<Rightarrow> default_package \<Rightarrow> pkgs_map \<Rightarrow> pkgs_map" where
  "add_provides [] p pm = pm"
| "add_provides (prov # ps) p pm = add_provides ps p (pm_Add (PackageName prov) p pm)"

definition valid_arts :: "artifact list \<Rightarrow> string list \<Rightarrow> artifact list" where
  "valid_arts selectedArts banned = filter (\<lambda>a. version_of a \<notin> set banned) selectedArts"

definition add_candidate :: "string \<Rightarrow> artifact list \<Rightarrow> solver_state \<Rightarrow> solver_state" where
  "add_candidate k validArts st =
     (let st = (case validArts of
                  [] \<Rightarrow> st
                | a # _ \<Rightarrow> st\<lparr>providesMap := add_provides (Provides (art_pkg a)) (art_pkg a) (providesMap st)\<rparr>)
      in st\<lparr>candidatesMap := gm_set k validArts (candidatesMap st)\<rparr>)"

text \<open>
  What \<open>processArtefactDeps\<close> does with a dependency before it looks for it: None when it goes on.
\<close>

definition provides_match :: "lib \<Rightarrow> default_package \<Rightarrow> default_package list \<Rightarrow> bool" where
  "provides_match L candidate provides =
     list_ex (\<lambda>prov. list_ex (\<lambda>x. admit_bool (Admit L candidate x)) (Provides prov)) provides"

definition dep_known ::
    "solver_env \<Rightarrow> default_package \<Rightarrow> string list \<Rightarrow> solver_state \<Rightarrow> default_package \<Rightarrow> bool outcome option" where
  "dep_known E candidate stack st p =
     (case gm_get (systemMap st) (PackageName p) of
        Some val \<Rightarrow>
          (case val of
             [] \<Rightarrow> Some (Panic ''index out of range [0] with length 0'')
           | v # _ \<Rightarrow> Some (of_res (Admit (seLib E) candidate v)))
      | None \<Rightarrow>
          if (case gm_get (providesMap st) (PackageName p) of
                Some provides \<Rightarrow> provides_match (seLib E) candidate provides | None \<Rightarrow> False)
          then Some (Ok True)
          else if gm_has (candidatesMap st) (PackageName p) then Some (Ok True)
          else if ContainsElem stack (PackageName p) then Some (Ok True)
          else None)"

text \<open>
  Looking for the dependency: the available artifacts of its name are sorted in place, or the
  repositories are searched and what they have is added.  The value is the name of the package that
  provides the dependency, empty when it is its own.
\<close>

definition sorted_versions ::
    "solver_env \<Rightarrow> string \<Rightarrow> solver_state \<Rightarrow> artifact list outcome \<times> solver_state" where
  "sorted_versions E k st =
     (case seRepos st of
        Some prios \<Rightarrow>
          (case GetArtifactsByKey (availableArtsMap st) k of
             Inl e \<Rightarrow> (Err e, st)
           | Inr arts \<Rightarrow>
               (case SortArtifactList4VersionAndRepos (seLib E) (seArtSort E) prios True arts of
                  Panics e \<Rightarrow> (Panic e, st)
                | Returns arts' \<Rightarrow> (Ok arts', st\<lparr>availableArtsMap := gm_set k arts' (availableArtsMap st)\<rparr>)))
      | None \<Rightarrow> (of_res (GetSortedArtifactsByKey (seLib E) (seGentooSort E) (availableArtsMap st) k), st))"

definition sort_available :: "solver_env \<Rightarrow> string \<Rightarrow> solver_state \<Rightarrow> string outcome \<times> solver_state" where
  "sort_available E k st = obind (sorted_versions E k st) (\<lambda>_ st. (Ok [], st))"

definition provider_name :: "string \<Rightarrow> artifact list \<Rightarrow> string" where
  "provider_name k arts =
     (case find (\<lambda>a. PackageName (art_pkg a) \<noteq> k) arts of
        Some a \<Rightarrow> PackageName (art_pkg a) | None \<Rightarrow> [])"

definition search_dep ::
    "solver_env \<Rightarrow> default_package \<Rightarrow> solver_state \<Rightarrow> string outcome \<times> solver_state" where
  "search_dep E p st =
     (case seSearch E (pkgs_search False (IgnoreMasks (seOpts E))
                         [NewPackageWithCatThin (pCategory p) (pName p) (pVersion p)]) of
        Inl e \<Rightarrow> (Err e, st)
      | Inr arts0 \<Rightarrow>
          (case (case seRepos st of
                   Some prios \<Rightarrow> SortArtifactList4VersionAndRepos (seLib E) (seArtSort E) prios True arts0
                 | None \<Rightarrow> Returns arts0) of
             Panics e \<Rightarrow> (Panic e, st)
           | Returns arts \<Rightarrow>
               (Ok (provider_name (PackageName p) arts),
                st\<lparr>availableArtsMap := am_add_all arts (availableArtsMap st)\<rparr>)))"

definition lookup_dep ::
    "solver_env \<Rightarrow> default_package \<Rightarrow> solver_state \<Rightarrow> string outcome \<times> solver_state" where
  "lookup_dep E p st =
     (if gm_has (availableArtsMap st) (PackageName p) then sort_available E (PackageName p) st
      else search_dep E p st)"

definition no_version_err :: "string \<Rightarrow> string list \<Rightarrow> err" where
  "no_version_err pkgstr stack =
     (if length stack > 0 then ''No valid or admitted version found for dependency '' @ pkgstr
      else ''No valid candidate or valid dependencies found for '' @ pkgstr)"

function (sequential) resolvePackage ::
      "solver_env \<Rightarrow> nat \<Rightarrow> string \<Rightarrow> string list \<Rightarrow> solver_state \<Rightarrow> unit outcome \<times> solver_state"
  and versions_loop ::
      "solver_env \<Rightarrow> nat \<Rightarrow> artifact list \<Rightarrow> string list \<Rightarrow> string list \<Rightarrow> solver_state \<Rightarrow>
       (bool \<times> string list) outcome \<times> solver_state"
  and deps_loop ::
      "solver_env \<Rightarrow> nat \<Rightarrow> default_package \<Rightarrow> default_package list \<Rightarrow> string list \<Rightarrow> solver_state \<Rightarrow>
       bool outcome \<times> solver_state" where
  "resolvePackage E 0 pkgstr stack st = (Fuel, st)"
| "resolvePackage E (Suc n) pkgstr stack st =
     (if ContainsElem stack pkgstr then (Ok (), st)
      else if gm_has (candidatesMap st) pkgstr then (Ok (), st)
      else (case GetSortedArtifactsByKey (seLib E) (seGentooSort E) (availableArtsMap st) pkgstr of
              Inl e \<Rightarrow> (Err e, st)
            | Inr selectedArts \<Rightarrow>
                obind (versions_loop E n selectedArts stack [] st) (\<lambda>fb st'.
                  if \<not> fst fb then (Err (no_version_err pkgstr stack), st')
                  else (Ok (), add_candidate pkgstr (valid_arts selectedArts (snd fb)) st'))))"
| "versions_loop E n [] stack banned st = (Ok (False, banned), st)"
| "versions_loop E n (art # arts) stack banned st =
     (if version_of art \<in> set banned then versions_loop E n arts stack banned st
      else if \<not> IgnoreConflicts (seOpts E) \<and> artefactIsInConflict E st art then
        versions_loop E n arts stack (version_of art # banned) st
      else obind (artefactAdmitByQueue E art st) (\<lambda>admit st1.
        if \<not> admit then versions_loop E n arts stack banned st1
        else obind (deps_loop E n (art_pkg art) (PackageRequires (art_pkg art))
                      (stack @ [PackageName (art_pkg art)]) st1) (\<lambda>admittedDeps st2.
          if \<not> admittedDeps then versions_loop E n arts stack banned st2
          else (Ok (True, banned), st2))))"
| "deps_loop E n candidate [] stack st = (Ok True, st)"
| "deps_loop E n candidate (p # ps) stack st =
     (case dep_known E candidate stack st p of
        Some r \<Rightarrow> obind (r, st) (\<lambda>admit st.
          if \<not> admit then (Ok False, st) else deps_loop E n candidate ps stack st)
      | None \<Rightarrow>
          obind (lookup_dep E p st) (\<lambda>provStr st1.
            obind_err (resolvePackage E n (if provStr \<noteq> [] then provStr else PackageName p) stack st1)
              (\<lambda>e st2. if HasPrefix e ''No valid'' then (Ok False, st2) else (Err e, st2))
              (\<lambda>_ st2. deps_loop E n candidate ps stack st2)))"
  by pat_completeness auto
termination
  by (relation "measures
    [\<lambda>x. case x of Inl (E, n, _) \<Rightarrow> n | Inr (Inl (E, n, _)) \<Rightarrow> n | Inr (Inr (E, n, _)) \<Rightarrow> n,
     \<lambda>x. case x of Inl _ \<Rightarrow> 0 | Inr (Inl _) \<Rightarrow> 2 | Inr (Inr _) \<Rightarrow> 1,
     \<lambda>x. case x of Inl _ \<Rightarrow> 0 | Inr (Inl (E, n, as, _)) \<Rightarrow> length as | Inr (Inr (E, n, c, ps, _)) \<Rightarrow> length ps]")
     auto

definition processArtefactDeps ::
    "solver_env \<Rightarrow> nat \<Rightarrow> artifact \<Rightarrow> string list \<Rightarrow> solver_state \<Rightarrow> bool outcome \<times> solver_state" where
  "processArtefactDeps E n art stack st = deps_loop E n (art_pkg art) (PackageRequires (art_pkg art)) stack st"

section \<open>Packages that provide the same name\<close>

text \<open>
  The map from a provided name to the packages that provide it, each with its artifacts, and the
  choice among them: when one is installed all are dropped, else only the first in the order of
  repositories and requires stays.
\<close>

type_synonym prov_maps = "arts_map gomap"

fun prov_names :: "default_package list \<Rightarrow> bool gomap \<Rightarrow> bool gomap" where
  "prov_names [] m = m"
| "prov_names (prov # ps) m = prov_names ps (gm_set (PackageName prov) True m)"

fun arts_prov_names :: "artifact list \<Rightarrow> bool gomap \<Rightarrow> bool gomap" where
  "arts_prov_names [] m = m"
| "arts_prov_names (a # as) m = arts_prov_names as (prov_names (Provides (art_pkg a)) m)"

definition add_prov :: "string \<Rightarrow> artifact list \<Rightarrow> string \<Rightarrow> prov_maps \<Rightarrow> prov_maps" where
  "add_prov nm arts k pm =
     (case gm_get pm k of
        Some val \<Rightarrow>
          gm_set k (case gm_get val nm of
                      Some pval \<Rightarrow> gm_set nm (pval @ arts) val | None \<Rightarrow> gm_set nm arts val) pm
      | None \<Rightarrow> gm_set k [(nm, arts)] pm)"

fun add_prov_all :: "string \<Rightarrow> artifact list \<Rightarrow> (string \<times> bool) list \<Rightarrow> prov_maps \<Rightarrow> prov_maps" where
  "add_prov_all nm arts [] pm = pm"
| "add_prov_all nm arts ((k, b) # ks) pm = add_prov_all nm arts ks (add_prov nm arts k pm)"

fun build_prov ::
    "solver_env \<Rightarrow> (string \<times> artifact list) list \<Rightarrow> prov_maps \<Rightarrow> solver_state \<Rightarrow> prov_maps \<times> solver_state" where
  "build_prov E [] pm st = (pm, st)"
| "build_prov E ((k, arts) # es) pm st =
     (let ppmap = arts_prov_names arts []
      in if length ppmap > 0 then
           build_prov E es
             (add_prov_all (PackageName (art_pkg (arts ! 0))) arts (st_range E st ppmap) pm) (next_range st)
         else build_prov E es pm st)"

fun collect_provs :: "pkgs_map \<Rightarrow> (string \<times> artifact list) list \<Rightarrow> artifact list \<Rightarrow> string \<times> artifact list" where
  "collect_provs sys [] arts = ([], arts)"
| "collect_provs sys ((k, pp) # es) arts =
     (if gm_has sys k then (k, arts) else collect_provs sys es (arts @ pp))"

definition choose_prov :: "solver_env \<Rightarrow> arts_map \<Rightarrow> solver_state \<Rightarrow> solver_state" where
  "choose_prov E m st0 =
     (if length m > 1 then
        (let (installedPkg, arts) = collect_provs (systemMap st0) (st_range E st0 m) [];
             st = next_range st0
         in if installedPkg \<noteq> [] then
              st\<lparr>availableArtsMap := gm_del_all (map fst m) (availableArtsMap st)\<rparr>
            else
              (let prios = (case seRepos st of Some x \<Rightarrow> x | None \<Rightarrow> []);
                   winner = PackageName (art_pkg (SortArtifactList4ReposAndRequires (seArtSort E) prios arts ! 0))
               in st\<lparr>availableArtsMap :=
                    gm_del_all (filter (\<lambda>k. k \<noteq> winner) (map fst m)) (availableArtsMap st)\<rparr>))
      else st0)"

fun choose_provs :: "solver_env \<Rightarrow> (string \<times> arts_map) list \<Rightarrow> solver_state \<Rightarrow> solver_state" where
  "choose_provs E [] st = st"
| "choose_provs E ((k, m) # es) st = choose_provs E es (choose_prov E m st)"

definition filter_provides :: "solver_env \<Rightarrow> solver_state \<Rightarrow> solver_state" where
  "filter_provides E st =
     (let (pm, st1) = build_prov E (st_range E st (availableArtsMap st)) [] (next_range st)
      in if length pm > 0 then choose_provs E (st_range E st1 pm) (next_range st1) else st1)"

section \<open>Install\<close>

text \<open>A repository of the configuration: its name, whether it is enabled, and its identity file read.\<close>

type_synonym repo_conf = "string \<times> bool \<times> int res"

fun read_repos :: "repo_conf list \<Rightarrow> int gomap \<Rightarrow> int gomap res" where
  "read_repos [] m = Inr m"
| "read_repos ((name, enable, prio) # rs) m =
     (if \<not> enable then read_repos rs m
      else case prio of
        Inl e \<Rightarrow> Inl (''Error on read repository identity file: '' @ e)
      | Inr p \<Rightarrow> read_repos rs (gm_set name p m))"

fun resolve_all :: "solver_env \<Rightarrow> nat \<Rightarrow> string list \<Rightarrow> solver_state \<Rightarrow> unit outcome \<times> solver_state" where
  "resolve_all E n [] st = (Ok (), st)"
| "resolve_all E n (pname # ks) st =
     obind_err (resolvePackage E n pname [] st)
       (\<lambda>e st1. if \<not> Force (seOpts E) then (Err e, st1) else resolve_all E n ks st1)
       (\<lambda>_ st1. resolve_all E n ks st1)"

definition cleanup :: "solver_state \<Rightarrow> solver_state" where
  "cleanup st = st\<lparr>systemMap := [], conflictsMap := [], providesMap := [], seRepos := None\<rparr>"

fun first_art :: "artifact list \<Rightarrow> artifact outcome" where
  "first_art [] = Panic ''index out of range [0] with length 0''"
| "first_art (a # as) = Ok a"

text \<open>The packages to install without the dependencies: a package with no candidate is skipped.\<close>

fun pick_named ::
    "solver_env \<Rightarrow> default_package list \<Rightarrow> solver_state \<Rightarrow> artifact list \<times> solver_state" where
  "pick_named E [] st = ([], st)"
| "pick_named E (p # ps) st =
     (case gm_get (candidatesMap st) (PackageName p) of
        Some (a # as) \<Rightarrow> (let (rest, st1) = pick_named E ps st in (a # rest, st1))
      | _ \<Rightarrow>
         (case am_GetProvides (seOrder E (rangeNo st)) (candidatesMap st) (PackageName p) of
            [] \<Rightarrow> pick_named E ps (next_range st)
          | a # as \<Rightarrow> (let (rest, st1) = pick_named E ps (next_range st) in (a # rest, st1))))"

fun pick_all_candidates :: "(string \<times> artifact list) list \<Rightarrow> artifact list outcome" where
  "pick_all_candidates [] = Ok []"
| "pick_all_candidates ((k, plist) # es) =
     (case first_art plist of
        Ok a \<Rightarrow> (case pick_all_candidates es of Ok as \<Rightarrow> Ok (a # as) | r \<Rightarrow> r)
      | Err e \<Rightarrow> Err e | Panic e \<Rightarrow> Panic e | Fuel \<Rightarrow> Fuel)"

definition select_install ::
    "solver_env \<Rightarrow> default_package list \<Rightarrow> solver_state \<Rightarrow> (artifact list \<times> artifact list) outcome \<times> solver_state" where
  "select_install E pkgs st =
     (if NoDeps (seOpts E) then
        (let (as, st1) = pick_named E pkgs st in (Ok (as, []), st1))
      else (case pick_all_candidates (st_range E st (candidatesMap st)) of
              Ok as \<Rightarrow> (Ok (as, []), next_range st)
            | Err e \<Rightarrow> (Err e, st) | Panic e \<Rightarrow> (Panic e, st) | Fuel \<Rightarrow> (Fuel, st)))"

text \<open>
  \<open>db\<close> is the world of the database, None when the solver has none; \<open>searcherErr\<close> the error of
  \<open>prepareSearcher\<close>.
\<close>

definition Install ::
    "solver_env \<Rightarrow> nat \<Rightarrow> default_package list option \<Rightarrow> err option \<Rightarrow> repo_conf list \<Rightarrow>
     default_package list \<Rightarrow> solver_state \<Rightarrow> (artifact list \<times> artifact list) outcome \<times> solver_state" where
  "Install E n db searcherErr repos pkgs st0 =
     (case db of
        None \<Rightarrow> (Err ''Solver Install requires Database'', st0)
      | Some world \<Rightarrow>
       (case searcherErr of
          Some e \<Rightarrow> (Err e, st0)
        | None \<Rightarrow>
         (case seSearch E (pkgs_search False (IgnoreMasks (seOpts E)) pkgs) of
            Inl e \<Rightarrow> (Err e, st0)
          | Inr arts \<Rightarrow>
             (let st1 = prepareConflictsAndSystemMap E world False (st0\<lparr>availableArtsMap := ToMap arts\<rparr>)
              in case read_repos repos [] of
                   Inl e \<Rightarrow> (Err e, st1)
                 | Inr prios \<Rightarrow>
                    (let st2 = filter_provides E (st1\<lparr>seRepos := Some prios\<rparr>);
                         pList = map fst (st_range E st2 (availableArtsMap st2))
                     in obind (resolve_all E n pList (next_range st2)) (\<lambda>_ st3.
                          select_install E pkgs (cleanup st3)))))))"

end
