(* ===== verification/InstallProofs.thy ===== *)
theory InstallProofs
  imports SolverInstall
begin

text \<open>
  What installation guarantees: \<open>resolvePackage\<close> returns within a depth of the number of names, the
  candidates it leaves are never empty and the first of each is not in conflict with the system, and
  \<open>Install\<close> selects at most one artifact of a name.
\<close>

section \<open>The invariant\<close>

definition avail_inv :: "string set \<Rightarrow> arts_map \<Rightarrow> bool" where
  "avail_inv U am \<longleftrightarrow>
     (\<forall>k as. gm_get am k = Some as \<longrightarrow> k \<in> U \<and> (\<forall>a\<in>set as. GetPackage a \<noteq> None \<and> art_key a = k))"

text \<open>
  \<open>C\<close> asks that each candidate has a version and that the first is not in conflict with the system:
  installation keeps that, an upgrade does not.
\<close>

definition cand_inv :: "bool \<Rightarrow> solver_env \<Rightarrow> solver_state \<Rightarrow> bool" where
  "cand_inv C E st \<longleftrightarrow>
     (\<forall>k as. gm_get (candidatesMap st) k = Some as \<longrightarrow>
        (\<forall>a\<in>set as. GetPackage a \<noteq> None \<and> art_key a = k) \<and>
        (C \<longrightarrow> as \<noteq> [] \<and> (\<not> IgnoreConflicts (seOpts E) \<longrightarrow> \<not> artefactIsInConflict E st (hd as))))"

definition solver_inv :: "bool \<Rightarrow> solver_env \<Rightarrow> string set \<Rightarrow> solver_state \<Rightarrow> bool" where
  "solver_inv C E U st \<longleftrightarrow> avail_inv U (availableArtsMap st) \<and> gm_wf (candidatesMap st) \<and> cand_inv C E st"

definition run_ok ::
    "bool \<Rightarrow> solver_env \<Rightarrow> string set \<Rightarrow> solver_state \<Rightarrow> 'a outcome \<times> solver_state \<Rightarrow> bool" where
  "run_ok C E U st x \<longleftrightarrow> fst x \<noteq> Fuel \<and> solver_inv C E U (snd x) \<and>
     conflictsMap (snd x) = conflictsMap st \<and> systemMap (snd x) = systemMap st \<and>
     (\<forall>k. gm_has (candidatesMap st) k \<longrightarrow> gm_has (candidatesMap (snd x)) k)"

text \<open>What the search over the repositories gives: artifacts with a package, of known names.\<close>

definition search_names :: "solver_env \<Rightarrow> string set \<Rightarrow> bool" where
  "search_names E U \<longleftrightarrow>
     (\<forall>opts arts. seSearch E opts = Inr arts \<longrightarrow> has_pkgs arts \<and> art_key ` set arts \<subseteq> U)"

lemma conflict_cong:
  "conflictsMap st' = conflictsMap st \<Longrightarrow> systemMap st' = systemMap st \<Longrightarrow>
   artefactIsInConflict E st' a = artefactIsInConflict E st a"
  by (simp add: artefactIsInConflict_def)

lemma run_ok_obind:
  assumes "run_ok C E U st m" "\<And>a st1. m = (Ok a, st1) \<Longrightarrow> run_ok C E U st1 m \<Longrightarrow> run_ok C E U st1 (f a st1)"
  shows "run_ok C E U st (obind m f)"
proof (cases m)
  case (Pair r st1)
  with assms show ?thesis by (cases r) (auto simp: run_ok_def)
qed

lemma run_ok_obind_err:
  assumes "run_ok C E U st m" "\<And>a st1. m = (Ok a, st1) \<Longrightarrow> run_ok C E U st1 m \<Longrightarrow> run_ok C E U st1 (f a st1)"
    "\<And>e st1. m = (Err e, st1) \<Longrightarrow> run_ok C E U st1 m \<Longrightarrow> run_ok C E U st1 (g e st1)"
  shows "run_ok C E U st (obind_err m g f)"
proof (cases m)
  case (Pair r st1)
  with assms show ?thesis by (cases r) (auto simp: run_ok_def)
qed

lemma run_ok_trans:
  "run_ok C E U st (r, st1) \<Longrightarrow> run_ok C E U st1 x \<Longrightarrow> run_ok C E U st x"
  by (simp add: run_ok_def)

lemma run_ok_return: "solver_inv C E U st \<Longrightarrow> r \<noteq> Fuel \<Longrightarrow> run_ok C E U st (r, st)"
  by (simp add: run_ok_def)

lemma run_ok_inv: "run_ok C E U st (r, st1) \<Longrightarrow> solver_inv C E U st1"
  by (simp add: run_ok_def)

section \<open>The steps keep it\<close>

text \<open>The invariant reads three maps of the state.\<close>

lemma cand_inv_cong:
  "candidatesMap st' = candidatesMap st \<Longrightarrow> conflictsMap st' = conflictsMap st \<Longrightarrow>
   systemMap st' = systemMap st \<Longrightarrow> cand_inv C E st' = cand_inv C E st"
  unfolding cand_inv_def by (simp only: conflict_cong [of st' st])

lemma run_okI:
  assumes "solver_inv C E U st" "r \<noteq> Fuel" "avail_inv U (availableArtsMap st')"
    "candidatesMap st' = candidatesMap st" "conflictsMap st' = conflictsMap st"
    "systemMap st' = systemMap st"
  shows "run_ok C E U st (r, st')"
  using assms cand_inv_cong [OF assms(4-6), of C E] by (simp add: run_ok_def solver_inv_def)

lemma solver_invD:
  "solver_inv C E U st \<Longrightarrow> avail_inv U (availableArtsMap st)"
  by (simp add: solver_inv_def)

lemma queue_loop_no_fuel: "queue_loop L a es \<noteq> Fuel"
  by (induction es) (auto split: list.splits sum.splits if_splits)

lemma run_ok_admit_queue:
  assumes "solver_inv C E U st"
  shows "run_ok C E U st (artefactAdmitByQueue E a st)"
proof (cases "length (candidatesMap st) > 0")
  case True
  show ?thesis
    unfolding artefactAdmitByQueue_def if_P [OF True]
    by (rule run_okI [OF assms]) (simp_all add: queue_loop_no_fuel next_range_def solver_invD [OF assms])
next
  case False
  then show ?thesis
    by (simp add: artefactAdmitByQueue_def run_okI [OF assms] solver_invD [OF assms])
qed

lemma avail_inv_set:
  assumes "avail_inv U am" "gm_get am k = Some as" "set bs = set as"
  shows "avail_inv U (gm_set k bs am)"
  using assms unfolding avail_inv_def by (auto split: if_split_asm)

lemma avail_inv_add_all:
  assumes "avail_inv U am" "has_pkgs as" "art_key ` set as \<subseteq> U"
  shows "avail_inv U (am_add_all as am)"
  unfolding avail_inv_def
proof (intro allI impI)
  fix k bs assume "gm_get (am_add_all as am) k = Some bs"
  then have "bs = (case gm_get am k of None \<Rightarrow> [] | Some cs \<Rightarrow> cs) @ filter (\<lambda>a. art_key a = k) as \<and>
      (gm_get am k \<noteq> None \<or> (\<exists>a\<in>set as. art_key a = k))"
    by (auto simp: am_add_all_get filter_empty_conv split: list.splits option.splits)
      (metis (mono_tags) filter_eq_Cons_iff in_set_conv_decomp)+
  then show "k \<in> U \<and> (\<forall>a\<in>set bs. GetPackage a \<noteq> None \<and> art_key a = k)"
    using assms by (auto simp: avail_inv_def has_pkgs_def split: option.splits)
qed

lemma sort_version_set:
  assumes "go_sort (seArtSort E)"
    "SortArtifactList4VersionAndRepos L (seArtSort E) prios rv as = Returns bs"
  shows "set bs = set as"
  using assms by (auto simp: SortArtifactList4VersionAndRepos_def go_sort.srt_set split: if_splits)

lemma of_res_no_fuel [simp]: "of_res r \<noteq> Fuel"
  by (cases r) auto

lemma run_ok_sorted_versions:
  assumes srt: "go_sort (seArtSort E)" and inv: "solver_inv C E U st"
  shows "run_ok C E U st (sorted_versions E k st)"
proof (cases "seRepos st")
  case None
  then show ?thesis
    by (auto simp: sorted_versions_def intro!: run_okI [OF inv] solver_invD [OF inv])
next
  case (Some prios)
  show ?thesis
  proof (cases "GetArtifactsByKey (availableArtsMap st) k")
    case (Inl e)
    then show ?thesis
      using Some by (auto simp: sorted_versions_def intro!: run_okI [OF inv] solver_invD [OF inv])
  next
    case (Inr as)
    then have get: "gm_get (availableArtsMap st) k = Some as"
      by (auto simp: GetArtifactsByKey_def split: option.splits)
    show ?thesis
      using Some Inr avail_inv_set [OF solver_invD [OF inv] get] sort_version_set [OF srt]
      by (auto simp: sorted_versions_def intro!: run_okI [OF inv] solver_invD [OF inv] split: panics.splits)
  qed
qed

lemma run_ok_sort_available:
  assumes "go_sort (seArtSort E)" "solver_inv C E U st"
  shows "run_ok C E U st (sort_available E k st)"
  unfolding sort_available_def
  by (rule run_ok_obind [OF run_ok_sorted_versions [OF assms]]) (auto intro: run_ok_return dest: run_ok_inv)

lemma run_ok_search_dep:
  assumes srt: "go_sort (seArtSort E)" and names: "search_names E U" and inv: "solver_inv C E U st"
  shows "run_ok C E U st (search_dep E p st)"
proof -
  have "avail_inv U (am_add_all bs (availableArtsMap st))"
    if "seSearch E opts = Inr as" "set bs = set as" for opts as bs
  proof (rule avail_inv_add_all)
    show "avail_inv U (availableArtsMap st)" using inv by (rule solver_invD)
    show "has_pkgs bs" "art_key ` set bs \<subseteq> U"
      using names that by (auto simp: search_names_def has_pkgs_def)
  qed
  then show ?thesis
    using sort_version_set [OF srt]
    by (auto simp: search_dep_def intro!: run_okI [OF inv] solver_invD [OF inv]
        split: sum.splits panics.splits option.splits)
qed

lemma run_ok_lookup:
  assumes "go_sort (seArtSort E)" "search_names E U" "solver_inv C E U st"
  shows "run_ok C E U st (lookup_dep E p st)"
  using assms by (simp add: lookup_dep_def run_ok_sort_available run_ok_search_dep)

section \<open>Resolving\<close>

lemma pick_all_subset: "set (pick_all gs val) \<subseteq> set val"
  by (induction gs) (auto simp: find_Some_iff split: option.splits)

lemma sorted_by_key_inv:
  assumes "avail_inv U am" "GetSortedArtifactsByKey L srt am k = Inr as"
  shows "k \<in> U \<and> (\<forall>a\<in>set as. GetPackage a \<noteq> None \<and> art_key a = k)"
proof -
  obtain val where val: "gm_get am k = Some val" and "set as \<subseteq> set val"
    using assms(2) pick_all_subset
    by (auto simp: GetSortedArtifactsByKey_def split: option.splits if_splits sum.splits)
  with assms(1) show ?thesis unfolding avail_inv_def by blast
qed

text \<open>The versions that stay: there is one, and the first is not in conflict with the system.\<close>

definition kept_ok :: "solver_env \<Rightarrow> solver_state \<Rightarrow> artifact list \<Rightarrow> string list \<Rightarrow> bool" where
  "kept_ok E st arts banned \<longleftrightarrow> valid_arts arts banned \<noteq> [] \<and>
     (\<not> IgnoreConflicts (seOpts E) \<longrightarrow> \<not> artefactIsInConflict E st (hd (valid_arts arts banned)))"

lemma kept_ok_skip:
  "version_of a \<in> set banned \<Longrightarrow> kept_ok E st (a # arts) banned = kept_ok E st arts banned"
  by (simp add: kept_ok_def valid_arts_def)

lemma kept_ok_more:
  "kept_ok E st arts banned \<Longrightarrow> \<not> IgnoreConflicts (seOpts E) \<longrightarrow> \<not> artefactIsInConflict E st a \<Longrightarrow>
   kept_ok E st (a # arts) banned"
  by (simp add: kept_ok_def valid_arts_def)

lemma kept_ok_first:
  "version_of a \<notin> set banned \<Longrightarrow> \<not> IgnoreConflicts (seOpts E) \<longrightarrow> \<not> artefactIsInConflict E st a \<Longrightarrow>
   kept_ok E st (a # arts) banned"
  by (simp add: kept_ok_def valid_arts_def)

lemma kept_ok_cong:
  "conflictsMap st' = conflictsMap st \<Longrightarrow> systemMap st' = systemMap st \<Longrightarrow>
   kept_ok E st' arts banned = kept_ok E st arts banned"
  by (simp add: kept_ok_def conflict_cong [of st' st])

lemma run_ok_add_candidate:
  assumes inv: "solver_inv C E U st" and as: "\<forall>a\<in>set as. GetPackage a \<noteq> None \<and> art_key a = k"
    and kept: "kept_ok E st as banned"
  shows "run_ok C E U st (Ok (), add_candidate k (valid_arts as banned) st)"
proof -
  let ?st = "add_candidate k (valid_arts as banned) st"
  have eq: "availableArtsMap ?st = availableArtsMap st" "conflictsMap ?st = conflictsMap st"
    "systemMap ?st = systemMap st" "candidatesMap ?st = gm_set k (valid_arts as banned) (candidatesMap st)"
    by (simp_all add: add_candidate_def split: list.splits)
  have "\<forall>a\<in>set (valid_arts as banned). GetPackage a \<noteq> None \<and> art_key a = k"
    using as by (simp add: valid_arts_def)
  with kept inv have "cand_inv C E ?st"
    unfolding cand_inv_def eq solver_inv_def kept_ok_def conflict_cong [OF eq(2,3)] gm_get_set by auto
  then show ?thesis
    using inv by (simp add: run_ok_def solver_inv_def eq)
qed

lemma card_push:
  assumes "finite U" "k \<in> U" "k \<notin> set stack"
  shows "card (U - set (stack @ [k])) < card (U - set stack)"
  using assms by (intro psubset_card_mono) auto

definition named :: "string \<Rightarrow> artifact list \<Rightarrow> bool" where
  "named k as \<longleftrightarrow> (\<forall>a\<in>set as. GetPackage a \<noteq> None \<and> art_key a = k)"

lemma named_simps [simp]:
  "named k []" "named k (a # as) \<longleftrightarrow> GetPackage a \<noteq> None \<and> art_key a = k \<and> named k as"
  by (auto simp: named_def)

definition env_ok :: "solver_env \<Rightarrow> string set \<Rightarrow> bool" where
  "env_ok E U \<longleftrightarrow> finite U \<and> go_sort (seArtSort E) \<and> search_names E U"

lemma run_ok_keep:
  "run_ok C E U st (r, st1) \<Longrightarrow> conflictsMap st1 = conflictsMap st \<and> systemMap st1 = systemMap st"
  by (simp add: run_ok_def)

definition loop_ok ::
    "bool \<Rightarrow> solver_env \<Rightarrow> string set \<Rightarrow> solver_state \<Rightarrow> artifact list \<Rightarrow> string list \<Rightarrow>
     (bool \<times> string list) outcome \<times> solver_state \<Rightarrow> bool" where
  "loop_ok C E U st arts banned x \<longleftrightarrow> run_ok C E U st x \<and>
     (\<forall>b'. fst x = Ok (True, b') \<longrightarrow> kept_ok E st arts b' \<and> set banned \<subseteq> set b')"

lemma loop_ok_skip:
  assumes "loop_ok C E U st arts banned x" "version_of a \<in> set banned"
  shows "loop_ok C E U st (a # arts) banned x"
  using assms kept_ok_skip unfolding loop_ok_def by blast

lemma loop_ok_ban:
  assumes "loop_ok C E U st arts (version_of a # banned) x"
  shows "loop_ok C E U st (a # arts) banned x"
  using assms kept_ok_skip unfolding loop_ok_def by auto

lemma loop_ok_reject:
  assumes "loop_ok C E U st1 arts banned x" "run_ok C E U st (r, st1)"
    "\<not> IgnoreConflicts (seOpts E) \<longrightarrow> \<not> artefactIsInConflict E st a"
  shows "loop_ok C E U st (a # arts) banned x"
  using assms run_ok_trans [OF assms(2)] run_ok_keep [OF assms(2)] kept_ok_cong [of st1 st E]
    kept_ok_more [OF _ assms(3)]
  unfolding loop_ok_def by blast

lemma loop_ok_accept:
  assumes "solver_inv C E U st2" "run_ok C E U st (r, st2)" "version_of a \<notin> set banned"
    "\<not> IgnoreConflicts (seOpts E) \<longrightarrow> \<not> artefactIsInConflict E st a"
  shows "loop_ok C E U st (a # arts) banned (Ok (True, banned), st2)"
  using assms kept_ok_first [OF assms(3,4)] unfolding loop_ok_def run_ok_def by auto

lemma loop_ok_obind:
  assumes run: "run_ok C E U st m"
    and step: "\<And>a st1. m = (Ok a, st1) \<Longrightarrow> run_ok C E U st (Ok a, st1) \<Longrightarrow>
      loop_ok C E U st arts banned (f a st1)"
  shows "loop_ok C E U st arts banned (obind m f)"
proof (cases m)
  case (Pair r st1)
  with run step show ?thesis by (cases r) (auto simp: loop_ok_def run_ok_def)
qed

lemma dep_known_no_fuel: "dep_known E candidate stack st p = Some r \<Longrightarrow> r \<noteq> Fuel"
  by (auto simp: dep_known_def split: option.splits list.splits if_splits)

lemma dep_step_ok:
  assumes inv: "solver_inv C E U st" and env: "env_ok E U"
    and res: "\<And>x st1. dep_known E candidate stack st p = None \<Longrightarrow> solver_inv C E U st1 \<Longrightarrow>
      run_ok C E U st1 (resolvePackage E n (if x \<noteq> [] then x else PackageName p) stack st1)"
    and rest: "\<And>st1. solver_inv C E U st1 \<Longrightarrow> run_ok C E U st1 (deps_loop E n candidate ps stack st1)"
  shows "run_ok C E U st (deps_loop E n candidate (p # ps) stack st)"
proof (cases "dep_known E candidate stack st p")
  case (Some r)
  have "run_ok C E U st (r, st)"
    by (rule run_ok_return [OF inv dep_known_no_fuel [OF Some]])
  then show ?thesis
    unfolding deps_loop.simps Some option.case
    by (rule run_ok_obind) (auto intro: run_ok_return inv rest run_ok_inv)
next
  case None
  have look: "run_ok C E U st (lookup_dep E p st)"
    using env by (intro run_ok_lookup inv) (auto simp: env_ok_def)
  show ?thesis
    unfolding deps_loop.simps None option.case
    by (rule run_ok_obind [OF look], rule run_ok_obind_err, rule res [OF None])
       (simp_all add: run_ok_return run_ok_inv rest)
qed

lemma resolve_ok:
  "env_ok E U \<Longrightarrow> solver_inv C E U st \<Longrightarrow> card (U - set stack) < n \<Longrightarrow>
     run_ok C E U st (resolvePackage E n pkgstr stack st)"
  "env_ok E U \<Longrightarrow> solver_inv C E U st \<Longrightarrow>
     k \<in> U \<Longrightarrow> k \<notin> set stack \<Longrightarrow> named k arts \<Longrightarrow> card (U - set stack) \<le> n \<Longrightarrow>
     loop_ok C E U st arts banned (versions_loop E n arts stack banned st)"
  "env_ok E U \<Longrightarrow> solver_inv C E U st \<Longrightarrow> card (U - set stack) < n \<Longrightarrow>
     run_ok C E U st (deps_loop E n candidate ps stack st)"
proof (induction E n pkgstr stack st and E n arts stack banned st and E n candidate ps stack st
    arbitrary: and k and rule: resolvePackage_versions_loop_deps_loop.induct)
  case (2 E n pkgstr stack st)
  show ?case
  proof (cases "ContainsElem stack pkgstr \<or> gm_has (candidatesMap st) pkgstr")
    case True
    then show ?thesis by (auto intro: run_ok_return 2)
  next
    case new: False
    show ?thesis
    proof (cases "GetSortedArtifactsByKey (seLib E) (seGentooSort E) (availableArtsMap st) pkgstr")
      case (Inl e)
      then show ?thesis using new by (auto intro: run_ok_return 2)
    next
      case (Inr arts)
      have k: "pkgstr \<in> U" "\<forall>a\<in>set arts. GetPackage a \<noteq> None \<and> art_key a = pkgstr"
        using sorted_by_key_inv [OF solver_invD [OF "2.prems"(2)] Inr] by auto
      have loop: "loop_ok C E U st arts [] (versions_loop E n arts stack [] st)"
        using new Inr 2 k by (intro "2.IH" [where k = pkgstr]) (auto simp: named_def)
      then have run: "run_ok C E U st (versions_loop E n arts stack [] st)" by (simp add: loop_ok_def)
      have "run_ok C E U st1 (if \<not> fst fb then (Err (no_version_err pkgstr stack), st1)
          else (Ok (), add_candidate pkgstr (valid_arts arts (snd fb)) st1))"
        if v: "versions_loop E n arts stack [] st = (Ok fb, st1)" for fb st1
      proof (cases "fst fb")
        case True
        then have "kept_ok E st arts (snd fb)"
          using loop v unfolding loop_ok_def by (cases fb) auto
        then have "kept_ok E st1 arts (snd fb)"
          using run_ok_keep kept_ok_cong run v by metis
        then show ?thesis
          using True run v by (auto intro!: run_ok_add_candidate k(2) dest: run_ok_inv)
      next
        case False
        then show ?thesis using run v by (auto intro!: run_ok_return dest: run_ok_inv)
      qed
      then show ?thesis
        using new Inr by (auto intro!: run_ok_obind run simp del: obind.simps)
    qed
  qed
next
  case (4 E n art arts stack banned st)
  have k: "named k arts" "PackageName (art_pkg art) = k"
    using "4.prems" art_key_pkg by auto
  show ?case
  proof (cases "version_of art \<in> set banned")
    case True
    then show ?thesis using 4 k by (auto intro: loop_ok_skip)
  next
    case fresh: False
    show ?thesis
    proof (cases "\<not> IgnoreConflicts (seOpts E) \<and> artefactIsInConflict E st art")
      case True
      then show ?thesis using 4 k fresh by (auto intro: loop_ok_ban)
    next
      case False
      then have free: "\<not> IgnoreConflicts (seOpts E) \<longrightarrow> \<not> artefactIsInConflict E st art" by blast
      have adm: "run_ok C E U st (artefactAdmitByQueue E art st)"
        using "4.prems" by (intro run_ok_admit_queue)
      have card: "card (U - set (stack @ [k])) < n"
        using card_push [of U k stack] "4.prems" by (auto simp: env_ok_def)
      have rest: "loop_ok C E U st1 arts banned (versions_loop E n arts stack banned st1)"
        if "solver_inv C E U st1" for st1
        using that "4.IH"(3) [OF fresh False, of False] "4.prems" k by auto
      have dep: "run_ok C E U st1 (deps_loop E n (art_pkg art) (PackageRequires (art_pkg art)) (stack @ [k]) st1)"
        if "solver_inv C E U st1" for st1
        using that "4.IH"(4) [OF fresh False, of True] "4.prems" k card by auto
      show ?thesis
        unfolding versions_loop.simps if_not_P [OF fresh] if_not_P [OF False] k(2)
      proof (rule loop_ok_obind [OF adm])
        fix admit st1
        assume a: "artefactAdmitByQueue E art st = (Ok admit, st1)" "run_ok C E U st (Ok admit, st1)"
        note inv1 = run_ok_inv [OF a(2)]
        show "loop_ok C E U st (art # arts) banned (if \<not> admit then versions_loop E n arts stack banned st1
            else obind (deps_loop E n (art_pkg art) (PackageRequires (art_pkg art)) (stack @ [k]) st1)
              (\<lambda>admittedDeps st2. if \<not> admittedDeps then versions_loop E n arts stack banned st2
                 else (Ok (True, banned), st2)))"
        proof (cases admit)
          case True
          have "run_ok C E U st (deps_loop E n (art_pkg art) (PackageRequires (art_pkg art)) (stack @ [k]) st1)"
            using run_ok_trans [OF a(2) dep [OF inv1]] .
          then show ?thesis
            using True by (auto intro!: loop_ok_obind loop_ok_reject [OF rest _ free]
                loop_ok_accept [OF _ _ fresh free] dest: run_ok_inv)
        next
          case False
          then show ?thesis by (auto intro: loop_ok_reject [OF rest [OF inv1] a(2) free])
        qed
      qed
    qed
  qed
next
  case (6 E n candidate p ps stack st)
  show ?case
  proof (rule dep_step_ok)
    fix x st1 assume "dep_known E candidate stack st p = None" "solver_inv C E U st1"
    then show "run_ok C E U st1 (resolvePackage E n (if x \<noteq> [] then x else PackageName p) stack st1)"
      using "6.IH"(1) [of st1 x] "6.prems" by blast
  next
    fix st1 assume "solver_inv C E U st1"
    then show "run_ok C E U st1 (deps_loop E n candidate ps stack st1)"
      using "6.IH"(2) [of st1] "6.IH"(3) [of _ True st1] "6.prems"
      by (cases "dep_known E candidate stack st p") auto
  qed (use 6 in auto)
qed (auto intro: run_ok_return simp: loop_ok_def)

section \<open>The maps of the system and the conflicts they stand for\<close>

definition pm_vals :: "pkgs_map \<Rightarrow> string \<Rightarrow> default_package list" where
  "pm_vals m k = (case gm_get m k of Some v \<Rightarrow> v | None \<Rightarrow> [])"

lemma pm_vals_Nil [simp]: "pm_vals [] k = []"
  by (simp add: pm_vals_def)

lemma pm_vals_Add [simp]: "pm_vals (pm_Add k p m) k' = pm_vals m k' @ (if k' = k then [p] else [])"
  by (simp add: pm_vals_def pm_Add_def split: option.splits)

lemma pm_vals_add_keys:
  "set (pm_vals (pm_add_keys cs p m) k) =
     set (pm_vals m k) \<union> (if k \<in> PackageName ` set cs then {p} else {})"
  by (induction cs p m rule: pm_add_keys.induct) auto

lemma prepare_all_system:
  "pm_vals (systemMap (prepare_all E w ps st)) k =
     pm_vals (systemMap st) k @ filter (\<lambda>q. PackageName q = k) ps"
  by (induction E w ps st rule: prepare_all.induct) (auto simp: prepare_one_def Let_def)

lemma prepare_all_conflicts:
  "set (pm_vals (conflictsMap (prepare_all E w ps st)) k) =
     set (pm_vals (conflictsMap st) k) \<union>
     {q \<in> set ps. \<not> IgnoreConflicts (seOpts E) \<and> k \<in> PackageName ` set (PackageConflicts q)}"
  by (induction E w ps st rule: prepare_all.induct)
     (auto simp: prepare_one_def Let_def pm_vals_add_keys)

lemma prepare_all_frame:
  "availableArtsMap (prepare_all E w ps st) = availableArtsMap st \<and>
   candidatesMap (prepare_all E w ps st) = candidatesMap st"
  by (induction E w ps st rule: prepare_all.induct) (auto simp: prepare_one_def Let_def)

lemma prepare_frame:
  "availableArtsMap (prepareConflictsAndSystemMap E ps w st) = availableArtsMap st"
  "candidatesMap (prepareConflictsAndSystemMap E ps w st) = candidatesMap st"
  by (simp_all add: prepareConflictsAndSystemMap_def Let_def prepare_all_frame)

lemma conflicts_loop_iff: "conflicts_loop L p cc \<longleftrightarrow> (\<exists>c\<in>set cc. \<not> admit_bool (Admit L c p))"
  by (induction cc) auto

lemma own_conflicts_iff:
  "own_conflicts L sys p cs \<longleftrightarrow>
     (\<exists>c\<in>set cs. \<exists>v vs. pm_vals sys (PackageName c) = v # vs \<and> \<not> admit_bool (Admit L p v) \<and>
        GetProvidePackage p (PackageName v) = None)"
  by (induction cs) (auto simp: pm_vals_def split: option.splits list.splits)

text \<open>
  What a conflict with the installed packages is: an installed package declares a conflict with the
  name and does not admit the package, or the package declares a conflict with the name of an
  installed one, does not admit the first of that name and does not provide it.
\<close>

definition system_conflict :: "solver_env \<Rightarrow> default_package list \<Rightarrow> default_package \<Rightarrow> bool" where
  "system_conflict E world p \<longleftrightarrow>
     (\<not> IgnoreConflicts (seOpts E) \<and>
        (\<exists>q\<in>set world. PackageName p \<in> PackageName ` set (PackageConflicts q) \<and>
           \<not> admit_bool (Admit (seLib E) q p))) \<or>
     (\<exists>c\<in>set (PackageConflicts p). \<exists>v. find (\<lambda>q. PackageName q = PackageName c) world = Some v \<and>
        \<not> admit_bool (Admit (seLib E) p v) \<and> GetProvidePackage p (PackageName v) = None)"

lemma filter_first:
  "(\<exists>v vs. filter P xs = v # vs \<and> Q v) \<longleftrightarrow> (\<exists>v. find P xs = Some v \<and> Q v)"
  by (induction xs) auto

lemma conflict_via_vals:
  "artefactIsInConflict E st a \<longleftrightarrow>
     conflicts_loop (seLib E) (art_pkg a) (pm_vals (conflictsMap st) (PackageName (art_pkg a))) \<or>
     own_conflicts (seLib E) (systemMap st) (art_pkg a) (PackageConflicts (art_pkg a))"
  by (simp add: artefactIsInConflict_def Let_def pm_vals_def split: option.splits)

text \<open>
  After \<open>prepareConflictsAndSystemMap\<close> on the installed packages, \<open>artefactIsInConflict\<close> decides
  the conflict with them, in both directions, whatever the maps held before.
\<close>

theorem artefactIsInConflict_iff:
  "artefactIsInConflict E (prepareConflictsAndSystemMap E world w st) a =
     system_conflict E world (art_pkg a)"
proof -
  let ?st = "prepareConflictsAndSystemMap E world w st"
  have "set (pm_vals (conflictsMap ?st) k) =
      {q \<in> set world. \<not> IgnoreConflicts (seOpts E) \<and> k \<in> PackageName ` set (PackageConflicts q)}" for k
    by (simp add: prepareConflictsAndSystemMap_def Let_def prepare_all_conflicts)
  moreover have "pm_vals (systemMap ?st) k = filter (\<lambda>q. PackageName q = k) world" for k
    by (simp add: prepareConflictsAndSystemMap_def Let_def prepare_all_system)
  ultimately show ?thesis
    unfolding conflict_via_vals conflicts_loop_iff own_conflicts_iff system_conflict_def
      filter_first [symmetric]
    by simp blast
qed

section \<open>The rivals that provide the same name\<close>

text \<open>Two artifacts of different names that provide a common name.\<close>

definition rivals :: "artifact \<Rightarrow> artifact \<Rightarrow> bool" where
  "rivals a b \<longleftrightarrow> art_key a \<noteq> art_key b \<and>
     PackageName ` set (Provides (art_pkg a)) \<inter> PackageName ` set (Provides (art_pkg b)) \<noteq> {}"

definition prov_group :: "artifact set \<Rightarrow> string \<Rightarrow> arts_map \<Rightarrow> bool" where
  "prov_group A k m \<longleftrightarrow> gm_wf m \<and>
     (\<forall>nm\<in>fst ` set m. \<exists>a\<in>A. art_key a = nm \<and> k \<in> PackageName ` set (Provides (art_pkg a)))"

definition prov_inv :: "artifact set \<Rightarrow> prov_maps \<Rightarrow> bool" where
  "prov_inv A pm \<longleftrightarrow> (\<forall>k m. gm_get pm k = Some m \<longrightarrow> prov_group A k m)"

lemma prov_names_has: "gm_has (prov_names ps m) k \<longleftrightarrow> gm_has m k \<or> k \<in> PackageName ` set ps"
  by (induction ps m rule: prov_names.induct) auto

lemma arts_prov_names_has:
  "gm_has (arts_prov_names as m) k \<longleftrightarrow>
     gm_has m k \<or> (\<exists>a\<in>set as. k \<in> PackageName ` set (Provides (art_pkg a)))"
  by (induction as m rule: arts_prov_names.induct) (auto simp: prov_names_has)

lemma keys_set: "fst ` set (gm_set k v m) = insert k (fst ` set m)"
  by (simp add: dom_map_of_conv_image_fst [symmetric] update_conv')

lemma prov_group_set:
  assumes "prov_group A k m" "\<exists>a\<in>A. art_key a = nm \<and> k \<in> PackageName ` set (Provides (art_pkg a))"
  shows "prov_group A k (gm_set nm v m)"
  using assms unfolding prov_group_def by (simp add: keys_set)

lemma prov_inv_add:
  assumes "prov_inv A pm" "\<exists>a\<in>A. art_key a = nm \<and> k \<in> PackageName ` set (Provides (art_pkg a))"
  shows "prov_inv A (add_prov nm as k pm)"
proof -
  have "prov_group A k []" by (simp add: prov_group_def)
  then have "prov_group A k [(nm, as)]"
    using prov_group_set [OF _ assms(2), of "[]" as] by simp
  then show ?thesis
    using assms prov_group_set [OF _ assms(2)]
    by (auto simp: add_prov_def prov_inv_def split: option.splits)
qed

lemma prov_inv_add_all:
  assumes "prov_inv A pm"
    "\<forall>(k, b)\<in>set ks. \<exists>a\<in>A. art_key a = nm \<and> k \<in> PackageName ` set (Provides (art_pkg a))"
  shows "prov_inv A (add_prov_all nm as ks pm)"
  using assms
  by (induction nm as ks pm rule: add_prov_all.induct) (auto intro!: prov_inv_add)

definition orders_ok :: "solver_env \<Rightarrow> bool" where
  "orders_ok E \<longleftrightarrow> (\<forall>i. map_order (seOrder E i))"

lemma st_range_iff: "orders_ok E \<Longrightarrow> (k, v) \<in> set (st_range E st m) \<longleftrightarrow> gm_get m k = Some v"
  by (simp add: orders_ok_def st_range_def map_order.range_iff)

lemma st_range_keys: "orders_ok E \<Longrightarrow> set (map fst (st_range E st m)) = {k. gm_has m k}"
  by (simp add: orders_ok_def st_range_def map_order.range_keys map_order.it_set del: set_map)
    (auto simp: map_order.it_set)

lemma build_prov_inv:
  assumes ord: "orders_ok E" and "prov_inv A pm"
    "\<forall>(k, as)\<in>set es. as \<noteq> [] \<longrightarrow> set as \<subseteq> A \<and> named k as"
  shows "prov_inv A (fst (build_prov E es pm st))"
  using assms
proof (induction E es pm st rule: build_prov.induct)
  case (2 E k as es pm st)
  note ord = "2.prems"(1)
  let ?pp = "arts_prov_names as []"
  show ?case
  proof (cases "length ?pp > 0")
    case True
    then have ne: "as \<noteq> []" by auto
    with "2.prems" have A: "set as \<subseteq> A" "named k as" by auto
    have nm: "PackageName (art_pkg (as ! 0)) = k"
      using ne A(2) by (cases as) (auto simp: art_key_pkg [symmetric])
    have "prov_inv A (add_prov_all k as (st_range E st ?pp) pm)"
    proof (rule prov_inv_add_all)
      show "\<forall>(k', b)\<in>set (st_range E st ?pp). \<exists>a\<in>A. art_key a = k \<and>
          k' \<in> PackageName ` set (Provides (art_pkg a))"
      proof safe
        fix k' b assume "(k', b) \<in> set (st_range E st ?pp)"
        then have "gm_has ?pp k'" by (simp add: st_range_iff [OF ord] gm_has_def)
        then show "\<exists>a\<in>A. art_key a = k \<and> k' \<in> PackageName ` set (Provides (art_pkg a))"
          using A unfolding arts_prov_names_has named_def by auto
      qed
    qed (use 2 in auto)
    then show ?thesis using 2 True nm by (simp add: Let_def)
  next
    case False
    then show ?thesis using 2 by (simp add: Let_def)
  qed
qed auto

lemma build_prov_frame:
  "availableArtsMap (snd (build_prov E es pm st)) = availableArtsMap st \<and>
   candidatesMap (snd (build_prov E es pm st)) = candidatesMap st \<and>
   systemMap (snd (build_prov E es pm st)) = systemMap st \<and>
   conflictsMap (snd (build_prov E es pm st)) = conflictsMap st"
  by (induction E es pm st rule: build_prov.induct) (auto simp: Let_def next_range_def)

text \<open>What the choice among rivals may do to the state: only available names with a rival go.\<close>

definition avail_less :: "artifact set \<Rightarrow> solver_state \<Rightarrow> solver_state \<Rightarrow> bool" where
  "avail_less A st st' \<longleftrightarrow>
     candidatesMap st' = candidatesMap st \<and> systemMap st' = systemMap st \<and>
     conflictsMap st' = conflictsMap st \<and>
     (\<forall>k. gm_get (availableArtsMap st') k = gm_get (availableArtsMap st) k \<or>
        gm_get (availableArtsMap st') k = None \<and> (\<exists>a\<in>A. \<exists>b\<in>A. art_key a = k \<and> rivals a b))"

lemma avail_less_refl: "avail_less A st st"
  by (simp add: avail_less_def)

lemma avail_less_trans: "avail_less A st st1 \<Longrightarrow> avail_less A st1 st2 \<Longrightarrow> avail_less A st st2"
  unfolding avail_less_def by metis

lemma prov_group_rival:
  assumes "prov_group A k m" "length m > 1" "nm \<in> fst ` set m"
  shows "\<exists>a\<in>A. \<exists>b\<in>A. art_key a = nm \<and> rivals a b"
proof -
  have "card (fst ` set m) > 1"
    using assms(1,2) by (simp add: prov_group_def gm_wf_def distinct_card flip: set_map)
  have "\<not> fst ` set m \<subseteq> {nm}"
  proof
    assume "fst ` set m \<subseteq> {nm}"
    from card_mono [OF _ this] \<open>card (fst ` set m) > 1\<close> show False by simp
  qed
  then obtain nm' where nm': "nm' \<in> fst ` set m" "nm' \<noteq> nm" by auto
  obtain a where a: "a \<in> A" "art_key a = nm" "k \<in> PackageName ` set (Provides (art_pkg a))"
    using assms(1,3) unfolding prov_group_def by blast
  obtain b where b: "b \<in> A" "art_key b = nm'" "k \<in> PackageName ` set (Provides (art_pkg b))"
    using assms(1) nm'(1) unfolding prov_group_def by blast
  have "rivals a b"
    unfolding rivals_def using a(2) b(2) nm'(2) IntI [OF a(3) b(3)] by auto
  with a b show ?thesis by blast
qed

lemma avail_less_del:
  assumes "set ks \<subseteq> fst ` set m" "prov_group A k m" "length m > 1"
  shows "avail_less A st (st\<lparr>availableArtsMap := gm_del_all ks (availableArtsMap st), rangeNo := i\<rparr>)"
  unfolding avail_less_def
proof (intro conjI allI)
  fix k
  let ?am = "availableArtsMap (st\<lparr>availableArtsMap := gm_del_all ks (availableArtsMap st), rangeNo := i\<rparr>)"
  show "gm_get ?am k = gm_get (availableArtsMap st) k \<or>
      gm_get ?am k = None \<and> (\<exists>a\<in>A. \<exists>b\<in>A. art_key a = k \<and> rivals a b)"
    using prov_group_rival [OF assms(2,3), of k] assms(1) by (cases "k \<in> set ks") (simp_all add: subset_iff)
qed simp_all

lemma choose_prov_less:
  assumes "prov_group A k m"
  shows "avail_less A st (choose_prov E m st)"
proof -
  obtain i arts where c: "collect_provs (systemMap st) (st_range E st m) [] = (i, arts)"
    by (metis surj_pair)
  have "\<exists>ks. set ks \<subseteq> fst ` set m \<and> choose_prov E m st =
      st\<lparr>availableArtsMap := gm_del_all ks (availableArtsMap st), rangeNo := Suc (rangeNo st)\<rparr>"
    if "length m > 1"
  proof (cases "i = []")
    case True
    let ?w = "PackageName (art_pkg (SortArtifactList4ReposAndRequires (seArtSort E)
      (case seRepos st of Some x \<Rightarrow> x | None \<Rightarrow> []) arts ! 0))"
    show ?thesis
      using that c True
      by (intro exI [of _ "filter (\<lambda>k. k \<noteq> ?w) (map fst m)"]) (auto simp: choose_prov_def next_range_def)
  next
    case False
    then show ?thesis
      using that c by (intro exI [of _ "map fst m"]) (auto simp: choose_prov_def next_range_def)
  qed
  moreover have "\<not> length m > 1 \<Longrightarrow> choose_prov E m st = st" by (simp add: choose_prov_def)
  ultimately show ?thesis
    using avail_less_del [OF _ assms, of _ st] avail_less_refl [of A st]
    by (cases "length m > 1") force+
qed

lemma choose_provs_less:
  assumes "\<forall>(k, m)\<in>set es. prov_group A k m"
  shows "avail_less A st (choose_provs E es st)"
  using assms
proof (induction E es st rule: choose_provs.induct)
  case (2 E k m es st)
  then show ?case using avail_less_trans [OF choose_prov_less] by auto
qed (simp add: avail_less_refl)

lemma filter_provides_less:
  assumes ord: "orders_ok E" and inv: "avail_inv U (availableArtsMap st)"
    and A: "\<And>k as. gm_get (availableArtsMap st) k = Some as \<Longrightarrow> set as \<subseteq> A"
  shows "avail_less A st (filter_provides E st)"
proof -
  let ?es = "st_range E st (availableArtsMap st)"
  obtain pm st1 where b: "build_prov E ?es [] (next_range st) = (pm, st1)" by (metis surj_pair)
  have "\<forall>(k, as)\<in>set ?es. as \<noteq> [] \<longrightarrow> set as \<subseteq> A \<and> named k as"
    using inv A unfolding avail_inv_def named_def by (force simp: st_range_iff [OF ord])
  then have "prov_inv A pm"
    using build_prov_inv [OF ord, of A "[]" ?es "next_range st"] b by (simp add: prov_inv_def)
  then have pm: "\<forall>(k, m)\<in>set (st_range E st1 pm). prov_group A k m"
    unfolding prov_inv_def by (auto simp: st_range_iff [OF ord])
  have st1: "avail_less A st st1" "avail_less A st (next_range st1)"
    using build_prov_frame [of E ?es "[]" "next_range st"] b by (simp_all add: avail_less_def next_range_def)
  show ?thesis
    unfolding filter_provides_def b Let_def prod.case
    using st1 avail_less_trans [OF st1(2) choose_provs_less [OF pm]] by simp
qed

section \<open>Install\<close>

lemma resolve_all_ok:
  assumes "env_ok E U" "card U < n" "solver_inv C E U st"
  shows "run_ok C E U st (resolve_all E n ks st)"
  using assms
proof (induction E n ks st rule: resolve_all.induct)
  case (2 E n k ks st)
  have "run_ok C E U st (resolvePackage E n k [] st)"
    using 2 by (intro resolve_ok(1)) auto
  then show ?case
    unfolding resolve_all.simps
  proof (rule run_ok_obind_err)
    fix e st1 assume "resolvePackage E n k [] st = (Err e, st1)" "run_ok C E U st1 (resolvePackage E n k [] st)"
    then show "run_ok C E U st1 (if \<not> Force (seOpts E) then (Err e, st1) else resolve_all E n ks st1)"
      using 2 by (auto dest: run_ok_inv intro!: run_ok_return)
  next
    fix a st1 assume "resolvePackage E n k [] st = (Ok a, st1)" "run_ok C E U st1 (resolvePackage E n k [] st)"
    then show "run_ok C E U st1 (resolve_all E n ks st1)"
      using 2 by (auto dest: run_ok_inv)
  qed
qed (simp add: run_ok_return)

lemma resolve_has:
  assumes "resolvePackage E n k [] st = (Ok u, st1)"
  shows "gm_has (candidatesMap st1) k"
  using assms
  by (cases n) (auto simp: add_candidate_def dest!: obind_OkD split: if_splits sum.splits list.splits)

lemma resolve_all_has:
  assumes "env_ok E U" "card U < n" "solver_inv C E U st" "\<not> Force (seOpts E)"
    "resolve_all E n ks st = (Ok u, st1)" "k \<in> set ks"
  shows "gm_has (candidatesMap st1) k"
  using assms
proof (induction E n ks st rule: resolve_all.induct)
  case (2 E n k' ks st)
  have run: "run_ok C E U st (resolvePackage E n k' [] st)"
    using 2 by (intro resolve_ok(1)) auto
  obtain v st2 where r: "resolvePackage E n k' [] st = (Ok v, st2)"
    and rest: "resolve_all E n ks st2 = (Ok u, st1)"
    using "2.prems" by (cases "resolvePackage E n k' [] st"; cases "fst (resolvePackage E n k' [] st)") auto
  have inv: "solver_inv C E U st2" using run r by (auto dest: run_ok_inv)
  have "run_ok C E U st2 (resolve_all E n ks st2)"
    using "2.prems" inv by (intro resolve_all_ok)
  then have "gm_has (candidatesMap st2) k' \<Longrightarrow> gm_has (candidatesMap st1) k'"
    by (simp add: run_ok_def rest)
  then show ?case
    using resolve_has [OF r] 2 r inv rest by auto
qed simp

text \<open>The state in which \<open>Install\<close> starts to resolve.\<close>

definition start_state ::
    "solver_env \<Rightarrow> default_package list \<Rightarrow> artifact list \<Rightarrow> int gomap \<Rightarrow> solver_state \<Rightarrow> solver_state" where
  "start_state E world arts prios st0 =
     filter_provides E ((prepareConflictsAndSystemMap E world False (st0\<lparr>availableArtsMap := ToMap arts\<rparr>))
        \<lparr>seRepos := Some prios\<rparr>)"

lemma start_state_ok:
  assumes env: "env_ok E U" and ord: "orders_ok E" and c0: "candidatesMap st0 = []"
    and arts: "seSearch E opts = Inr arts"
  shows "solver_inv True E U (start_state E world arts prios st0)"
    "artefactIsInConflict E (start_state E world arts prios st0) a = system_conflict E world (art_pkg a)"
    "x \<in> set arts \<Longrightarrow> gm_has (availableArtsMap (start_state E world arts prios st0)) (art_key x) \<or>
      (\<exists>a\<in>set arts. \<exists>b\<in>set arts. art_key a = art_key x \<and> rivals a b)"
proof -
  let ?st = "(prepareConflictsAndSystemMap E world False (st0\<lparr>availableArtsMap := ToMap arts\<rparr>))\<lparr>seRepos := Some prios\<rparr>"
  let ?st' = "start_state E world arts prios st0"
  have am: "availableArtsMap ?st = ToMap arts" and cm: "candidatesMap ?st = []"
    using c0 by (simp_all add: prepare_frame)
  have names: "has_pkgs arts" "art_key ` set arts \<subseteq> U"
    using env arts by (auto simp: env_ok_def search_names_def)
  have inv: "avail_inv U (ToMap arts)"
    using avail_inv_add_all [OF _ names, of "[]"] by (simp add: ToMap_def avail_inv_def)
  have less: "avail_less (set arts) ?st ?st'"
    unfolding start_state_def
    by (rule filter_provides_less [OF ord]) (use inv in \<open>auto simp: am ToMap_get Let_def split: if_splits\<close>)
  have "avail_inv U (availableArtsMap ?st')"
    using less inv unfolding avail_less_def am avail_inv_def by (metis option.distinct(1))
  moreover have "candidatesMap ?st' = []"
    using less cm by (simp add: avail_less_def)
  ultimately show "solver_inv True E U ?st'" by (simp add: solver_inv_def cand_inv_def)
  have "conflictsMap ?st' = conflictsMap ?st" "systemMap ?st' = systemMap ?st"
    using less unfolding avail_less_def by blast+
  then show "artefactIsInConflict E ?st' a = system_conflict E world (art_pkg a)"
    unfolding artefactIsInConflict_iff [of E world False "st0\<lparr>availableArtsMap := ToMap arts\<rparr>", symmetric]
    by (intro conflict_cong) simp_all
  assume "x \<in> set arts"
  then have "gm_has (availableArtsMap ?st) (art_key x)" by (simp only: am ToMap_has) blast
  then show "gm_has (availableArtsMap ?st') (art_key x) \<or>
      (\<exists>a\<in>set arts. \<exists>b\<in>set arts. art_key a = art_key x \<and> rivals a b)"
    using less unfolding avail_less_def gm_has_def by metis
qed

lemma Install_cases:
  assumes "Install E n db serr repos pkgs st0 = (Ok r, st')"
  obtains world arts prios u st3 where
    "db = Some world" "seSearch E (pkgs_search False (IgnoreMasks (seOpts E)) pkgs) = Inr arts"
    "resolve_all E n (map fst (st_range E (start_state E world arts prios st0)
        (availableArtsMap (start_state E world arts prios st0))))
      (next_range (start_state E world arts prios st0)) = (Ok u, st3)"
    "select_install E pkgs (cleanup st3) = (Ok r, st')"
  using assms
  by (auto simp: Install_def Let_def start_state_def split: option.splits sum.splits dest!: obind_OkD)

lemma pick_all_eq:
  "\<forall>(k, as)\<in>set es. as \<noteq> [] \<Longrightarrow> pick_all_candidates es = Ok (map (\<lambda>e. hd (snd e)) es)"
  by (induction es rule: pick_all_candidates.induct) (auto simp: neq_Nil_conv)

lemma provides_loop_mem:
  "provides_loop p es ans = ans \<or> (\<exists>k. (k, provides_loop p es ans) \<in> set es)"
proof (induction p es ans rule: provides_loop.induct)
  case (2 p k arts es ans)
  let ?a = "if list_ex (\<lambda>a. GetProvidePackage (art_pkg a) p \<noteq> None) arts then arts else ans"
  from 2 have "provides_loop p es ?a = arts \<or> provides_loop p es ?a = ans \<or>
      (\<exists>k. (k, provides_loop p es ?a) \<in> set es)"
    by (cases "list_ex (\<lambda>a. GetProvidePackage (art_pkg a) p \<noteq> None) arts") (simp_all only: if_True if_False, blast+)
  then show ?case by auto
qed simp

lemma am_GetProvides_mem:
  assumes "map_order it" "am_GetProvides it m p \<noteq> []"
  shows "\<exists>k. gm_get m k = Some (am_GetProvides it m p)"
  using assms provides_loop_mem [of p "gm_range it m" "[]"]
  by (auto simp: am_GetProvides_def map_order.range_iff)

lemma pick_named_hd:
  assumes "orders_ok E" "a \<in> set (fst (pick_named E pkgs st))"
  shows "\<exists>k as. gm_get (candidatesMap st) k = Some (a # as)"
  using assms
proof (induction E pkgs st rule: pick_named.induct)
  case (2 E p ps st)
  let ?g = "am_GetProvides (seOrder E (rangeNo st)) (candidatesMap st) (PackageName p)"
  have ord: "map_order (seOrder E (rangeNo st))" using 2 by (simp add: orders_ok_def)
  show ?case
  proof (cases "gm_get (candidatesMap st) (PackageName p)")
    case None
    with 2 am_GetProvides_mem [OF ord, of "candidatesMap st" "PackageName p"] show ?thesis
      by (cases ?g) (auto simp: next_range_def split: prod.splits)
  next
    case (Some as)
    with 2 am_GetProvides_mem [OF ord, of "candidatesMap st" "PackageName p"] show ?thesis
      by (cases as; cases ?g) (auto simp: next_range_def split: prod.splits)
  qed
qed simp

text \<open>What the candidates selected are.\<close>

lemma select_install_sound:
  assumes ord: "orders_ok E" and inv: "solver_inv True E U st"
    and sel: "select_install E pkgs (cleanup st) = (Ok (as, rm), st')"
  shows "rm = [] \<and> (\<forall>a\<in>set as. IgnoreConflicts (seOpts E) \<or> \<not> artefactIsInConflict E st a) \<and>
    (\<not> NoDeps (seOpts E) \<longrightarrow> distinct (map art_key as) \<and>
       art_key ` set as = {k. gm_has (candidatesMap st) k})"
proof -
  have hd: "as' \<noteq> [] \<and> art_key (hd as') = k \<and>
      (IgnoreConflicts (seOpts E) \<or> \<not> artefactIsInConflict E st (hd as'))"
    if "gm_get (candidatesMap st) k = Some as'" for k as'
    using inv that unfolding solver_inv_def cand_inv_def by (auto simp: neq_Nil_conv)
  show ?thesis
  proof (cases "NoDeps (seOpts E)")
    case True
    then have as: "as = fst (pick_named E pkgs (cleanup st))" "rm = []"
      using sel by (auto simp: select_install_def split: prod.splits)
    have "IgnoreConflicts (seOpts E) \<or> \<not> artefactIsInConflict E st a" if "a \<in> set as" for a
    proof -
      obtain k bs where "gm_get (candidatesMap (cleanup st)) k = Some (a # bs)"
        using pick_named_hd [OF ord] \<open>a \<in> set as\<close> unfolding as by blast
      then show ?thesis using hd [of k "a # bs"] by (simp add: cleanup_def)
    qed
    then show ?thesis using as True by simp
  next
    case False
    let ?es = "st_range E (cleanup st) (candidatesMap st)"
    have es: "as' \<noteq> [] \<and> art_key (hd as') = k \<and>
        (IgnoreConflicts (seOpts E) \<or> \<not> artefactIsInConflict E st (hd as'))"
      if "(k, as') \<in> set ?es" for k as'
      using hd that by (simp add: st_range_iff [OF ord])
    have "pick_all_candidates ?es = Ok (map (\<lambda>e. hd (snd e)) ?es)"
      using es by (intro pick_all_eq) blast
    then have as: "as = map (\<lambda>e. hd (snd e)) ?es" "rm = []"
      using sel False by (auto simp: select_install_def cleanup_def)
    have "map art_key as = map fst ?es"
      unfolding as using es by auto
    moreover have "distinct (map fst ?es)"
      using inv ord unfolding st_range_def orders_ok_def solver_inv_def gm_wf_def
      by (simp add: map_order.range_keys map_order.it_distinct gm_keys_def)
    moreover have "set (map fst ?es) = {k. gm_has (candidatesMap st) k}"
      by (rule st_range_keys [OF ord])
    moreover have "\<forall>a\<in>set as. IgnoreConflicts (seOpts E) \<or> \<not> artefactIsInConflict E st a"
      unfolding as using es by force
    ultimately show ?thesis using as(2) by (metis set_map)
  qed
qed

lemma Install_no_fuel:
  assumes "env_ok E U" "orders_ok E" "candidatesMap st0 = []" "card U < n"
  shows "fst (Install E n db serr repos pkgs st0) \<noteq> Fuel"
proof -
  have "fst (obind (resolve_all E n ks (next_range (start_state E world arts prios st0)))
      (\<lambda>_ st3. select_install E pkgs (cleanup st3))) \<noteq> Fuel"
    if "seSearch E opts = Inr arts" for ks world arts prios opts
  proof -
    let ?st = "next_range (start_state E world arts prios st0)"
    have "solver_inv True E U ?st"
      using start_state_ok(1) [OF assms(1-3) that, of world prios]
        cand_inv_cong [of ?st "start_state E world arts prios st0" True E]
      by (simp add: solver_inv_def next_range_def)
    then have run: "run_ok True E U ?st (resolve_all E n ks ?st)"
      using assms by (intro resolve_all_ok)
    have "pick_all_candidates es \<noteq> Fuel" for es
    proof (induction es rule: pick_all_candidates.induct)
      case (2 k p es)
      then show ?case by (cases p) (auto split: outcome.splits)
    qed simp
    then have "fst (select_install E pkgs st) \<noteq> Fuel" for st
      by (auto simp: select_install_def split: outcome.splits prod.splits)
    with run show ?thesis
      by (cases "resolve_all E n ks ?st"; cases "fst (resolve_all E n ks ?st)") (auto simp: run_ok_def)
  qed
  then show ?thesis
    by (auto simp: Install_def Let_def start_state_def split: option.splits sum.splits)
qed

text \<open>
  C12: \<open>Install\<close> returns: with a depth of the calls of \<open>resolvePackage\<close> above the number of package
  names in the repositories, no run exhausts it, whatever cycles the requires have.
\<close>

theorem Install_returns:
  assumes "env_ok E U" "orders_ok E" "candidatesMap st0 = []" "card U < n"
  shows "fst (Install E n db serr repos pkgs st0) \<noteq> Fuel"
  by (rule Install_no_fuel [OF assms])

text \<open>
  C1: What \<open>Install\<close> selects is safe: nothing is removed, and no artifact selected is in conflict
  with the installed packages unless the conflicts are ignored; with the dependencies, each name is
  selected once, and unless errors are forced every name the search found is selected, except those
  dropped because another found artifact provides the same package.
\<close>

theorem Install_sound:
  assumes "env_ok E U" "orders_ok E" "candidatesMap st0 = []" "card U < n"
    and "Install E n (Some world) serr repos pkgs st0 = (Ok (as, rm), st')"
    and "seSearch E (pkgs_search False (IgnoreMasks (seOpts E)) pkgs) = Inr arts"
  shows "rm = [] \<and> (IgnoreConflicts (seOpts E) \<or> (\<forall>a\<in>set as. \<not> system_conflict E world (art_pkg a))) \<and>
    (NoDeps (seOpts E) \<or> distinct (map art_key as)) \<and>
    (NoDeps (seOpts E) \<or> Force (seOpts E) \<or>
      (\<forall>x\<in>set arts. art_key x \<in> art_key ` set as \<or>
        (\<exists>a\<in>set arts. \<exists>b\<in>set arts. art_key a = art_key x \<and> rivals a b)))"
proof -
  obtain prios u st3 where
    res: "resolve_all E n (map fst (st_range E (start_state E world arts prios st0)
        (availableArtsMap (start_state E world arts prios st0))))
      (next_range (start_state E world arts prios st0)) = (Ok u, st3)"
    and sel: "select_install E pkgs (cleanup st3) = (Ok (as, rm), st')"
    using assms(5,6) by (elim Install_cases) simp
  let ?s = "start_state E world arts prios st0"
  let ?st = "next_range ?s"
  let ?ks = "map fst (st_range E ?s (availableArtsMap ?s))"
  note start = start_state_ok [OF assms(1-3,6), where world = world and prios = prios]
  have inv: "solver_inv True E U ?st"
    using start(1) cand_inv_cong [of ?st ?s True E] by (simp add: solver_inv_def next_range_def)
  then have run: "run_ok True E U ?st (Ok u, st3)"
    using assms res resolve_all_ok [of E U n True ?st ?ks] by simp
  have conf: "artefactIsInConflict E st3 a = system_conflict E world (art_pkg a)" for a
    using start(2) [of a] conflict_cong [of st3 ?s E a] run by (simp add: run_ok_def next_range_def)
  note sound = select_install_sound [OF assms(2) run_ok_inv [OF run] sel, unfolded conf]
  have "gm_has (candidatesMap st3) (art_key x) \<or>
      (\<exists>a\<in>set arts. \<exists>b\<in>set arts. art_key a = art_key x \<and> rivals a b)"
    if "x \<in> set arts" "\<not> Force (seOpts E)" for x
  proof -
    have "gm_has (candidatesMap st3) k" if "gm_has (availableArtsMap ?s) k" for k
      using that st_range_keys [OF assms(2), of ?s "availableArtsMap ?s"]
        resolve_all_has [OF assms(1,4) inv \<open>\<not> Force (seOpts E)\<close> res] by blast
    then show ?thesis using start(3) [OF \<open>x \<in> set arts\<close>] by blast
  qed
  then show ?thesis using sound by auto
qed

section \<open>A rejected version that is selected\<close>

lemma versions_loop_banned:
  "versions_loop E n as stack banned st = (Ok (b, banned'), st') \<Longrightarrow> set banned' \<subseteq> set banned \<union> version_of ` set as"
proof (induction as arbitrary: banned st)
  case (Cons a as)
  from Cons.prems consider st1 where "versions_loop E n as stack banned st1 = (Ok (b, banned'), st')"
    | "versions_loop E n as stack (version_of a # banned) st = (Ok (b, banned'), st')" | "banned' = banned"
    by (auto split: if_splits dest!: obind_OkD)
  then show ?case by cases (use Cons.IH in fastforce)+
qed simp

lemma build_prov_none:
  "\<forall>(k, as)\<in>set es. \<forall>x\<in>set as. Provides (art_pkg x) = [] \<Longrightarrow> fst (build_prov E es [] st) = []"
proof (induction es arbitrary: st)
  case (Cons e es)
  obtain k as where e: "e = (k, as)" by (cases e)
  have "arts_prov_names as m = m" if "\<forall>x\<in>set as. Provides (art_pkg x) = []" for m
    using that by (induction as arbitrary: m) auto
  with Cons show ?case by (auto simp: e)
qed simp

lemma start_state_plain:
  assumes ord: "orders_ok E" and none: "\<forall>x\<in>set arts. Provides (art_pkg x) = []"
  shows "availableArtsMap (start_state E world arts prios st0) = ToMap arts"
    "candidatesMap (start_state E world arts prios st0) = candidatesMap st0"
    "artefactIsInConflict E (start_state E world arts prios st0) a = system_conflict E world (art_pkg a)"
    "pm_vals (systemMap (start_state E world arts prios st0)) k = filter (\<lambda>q. PackageName q = k) world"
proof -
  let ?p = "prepareConflictsAndSystemMap E world False (st0\<lparr>availableArtsMap := ToMap arts\<rparr>)"
  let ?st = "?p\<lparr>seRepos := Some prios\<rparr>"
  let ?es = "st_range E ?st (ToMap arts)"
  have "\<forall>x\<in>set as. Provides (art_pkg x) = []" if "(k, as) \<in> set ?es" for k as
    using that none by (auto simp: st_range_iff [OF ord] ToMap_get Let_def split: if_splits)
  then have "fst (build_prov E ?es [] (next_range ?st)) = []" by (intro build_prov_none) blast
  then obtain st1 where "build_prov E ?es [] (next_range ?st) = ([], st1)" by (metis prod.collapse)
  then have s: "start_state E world arts prios st0 = snd (build_prov E ?es [] (next_range ?st))"
    by (simp add: start_state_def filter_provides_def prepare_frame)
  note frame = build_prov_frame [of E ?es "[]" "next_range ?st"]
  show "availableArtsMap (start_state E world arts prios st0) = ToMap arts"
    "candidatesMap (start_state E world arts prios st0) = candidatesMap st0"
    unfolding s using frame by (simp_all add: next_range_def prepare_frame)
  show "artefactIsInConflict E (start_state E world arts prios st0) a = system_conflict E world (art_pkg a)"
    unfolding s artefactIsInConflict_iff [of E world False "st0\<lparr>availableArtsMap := ToMap arts\<rparr>", symmetric]
    using frame by (intro conflict_cong) (simp_all add: next_range_def)
  show "pm_vals (systemMap (start_state E world arts prios st0)) k = filter (\<lambda>q. PackageName q = k) world"
    unfolding s using frame
    by (simp add: next_range_def prepareConflictsAndSystemMap_def Let_def prepare_all_system)
qed

lemma pick_all_mem: "pick_all_candidates es = Ok as \<Longrightarrow> (k, x # xs) \<in> set es \<Longrightarrow> x \<in> set as"
proof (induction es arbitrary: as)
  case (Cons e es)
  from Cons.prems(1) obtain y ys where "first_art (snd e) = Ok y" "pick_all_candidates es = Ok ys" "as = y # ys"
    by (cases e) (auto split: outcome.splits)
  with Cons.IH [of ys] Cons.prems(2) show ?case by auto
qed simp

lemma add_candidate_get: "gm_get (candidatesMap (add_candidate k vs st)) k = Some vs"
  by (simp add: add_candidate_def Let_def)

lemma singleton_list: "set xs = {k} \<Longrightarrow> distinct xs \<Longrightarrow> xs = [k]"
  by (cases xs rule: list.exhaust [case_product list.exhaust [of "tl xs"]]) auto

lemma find_filter: "find P xs = Some x \<Longrightarrow> \<exists>ys. filter P xs = x # ys"
  by (induction xs) (auto split: if_splits)

text \<open>A version free of conflicts whose first requirement the installed package does not meet stays first.\<close>

lemma resolve_keeps_rejected:
  assumes "resolvePackage E n k [] st = (Ok u, st')" "candidatesMap st = []"
    and "GetSortedArtifactsByKey (seLib E) (seGentooSort E) (availableArtsMap st) k = Inr (a # bs)"
    and "\<forall>b\<in>set bs. version_of b \<noteq> version_of a" "\<not> artefactIsInConflict E st a"
    and "PackageRequires (art_pkg a) = r # rs" "gm_get (systemMap st) (PackageName r) = Some (s # ss)"
    and "Admit (seLib E) (art_pkg a) s = Inr False"
  shows "\<exists>vs. gm_get (candidatesMap st') k = Some (a # vs)"
proof -
  obtain m where n: "n = Suc m" using assms(1) by (cases n) auto
  have dep: "deps_loop E m (art_pkg a) (PackageRequires (art_pkg a)) [PackageName (art_pkg a)] st = (Ok False, st)"
    by (simp add: assms(6) dep_known_def assms(7,8))
  have "versions_loop E m (a # bs) [] [] st = versions_loop E m bs [] [] st"
    by (simp add: assms(5) artefactAdmitByQueue_def assms(2) dep)
  with assms(1) obtain banned st1 where v: "versions_loop E m bs [] [] st = (Ok (True, banned), st1)"
    "st' = add_candidate k (valid_arts (a # bs) banned) st1"
    unfolding n by (auto simp: assms(2,3) gm_has_def split: if_splits dest!: obind_OkD)
  have "version_of a \<notin> set banned" using versions_loop_banned [OF v(1)] assms(4) by force
  then have "valid_arts (a # bs) banned = a # valid_arts bs banned" by (simp add: valid_arts_def)
  then show ?thesis by (simp add: v(2) add_candidate_get)
qed

text \<open>
  C17: A version whose requirements the installed system does not admit is passed over by
  \<open>resolvePackage\<close> but not banned, so that it stays in the list of candidates before the version that was
  accepted, and \<open>Install\<close> selects it.  For any request that finds artifacts of one name: when the newest
  requires first a package that is installed in a version it does not admit, and is in no conflict, every
  installation that ends well selects the newest.
\<close>

theorem Install_selects_rejected:
  assumes "orders_ok E" "candidatesMap st0 = []" "\<not> NoDeps (seOpts E)" "\<not> Force (seOpts E)"
    and "Install E n (Some world) serr repos pkgs st0 = (Ok (as, rm), st')"
    and "seSearch E (pkgs_search False (IgnoreMasks (seOpts E)) pkgs) = Inr arts"
    and "\<forall>x\<in>set arts. art_key x = k \<and> Provides (art_pkg x) = []"
    and "GetSortedArtifactsByKey (seLib E) (seGentooSort E) (ToMap arts) k = Inr (a # bs)"
    and "\<forall>b\<in>set bs. version_of b \<noteq> version_of a" "\<not> system_conflict E world (art_pkg a)"
    and "PackageRequires (art_pkg a) = r # rs" "find (\<lambda>q. PackageName q = PackageName r) world = Some s"
    and "Admit (seLib E) (art_pkg a) s = Inr False"
  shows "a \<in> set as"
proof -
  obtain prios u st3 where
    res: "resolve_all E n (map fst (st_range E (start_state E world arts prios st0)
        (availableArtsMap (start_state E world arts prios st0))))
      (next_range (start_state E world arts prios st0)) = (Ok u, st3)"
    and sel: "select_install E pkgs (cleanup st3) = (Ok (as, rm), st')"
    using assms(5,6) by (elim Install_cases) simp
  let ?s = "start_state E world arts prios st0" and ?st = "next_range (start_state E world arts prios st0)"
  have none: "\<forall>x\<in>set arts. Provides (art_pkg x) = []" using assms(7) by blast
  note start = start_state_plain [OF assms(1) none, of world prios st0]
  have "arts \<noteq> []" using assms(8) by (auto simp: GetSortedArtifactsByKey_def ToMap_def)
  then have "{k. gm_has (ToMap arts) k} = {k}" using assms(7) by (cases arts) (auto simp: ToMap_has)
  then have "set (map fst (st_range E ?s (ToMap arts))) = {k}" by (simp only: st_range_keys [OF assms(1)])
  moreover have "distinct (map fst (st_range E ?s (ToMap arts)))"
    using assms(1) ToMap_wf [of arts] unfolding st_range_def orders_ok_def gm_wf_def
    by (simp add: map_order.range_keys map_order.it_distinct gm_keys_def)
  ultimately have "map fst (st_range E ?s (ToMap arts)) = [k]" by (rule singleton_list)
  with res have run: "resolvePackage E n k [] ?st = (Ok u, st3)"
    using assms(4) by (auto simp: start(1) dest!: obind_err_OkD)
  obtain ss where "filter (\<lambda>q. PackageName q = PackageName r) world = s # ss"
    using assms(12) by (elim find_filter [THEN exE])
  then have ss: "gm_get (systemMap ?st) (PackageName r) = Some (s # ss)"
    using start(4) [of "PackageName r"] by (simp add: pm_vals_def next_range_def split: option.splits)
  obtain vs where "gm_get (candidatesMap st3) k = Some (a # vs)"
    using resolve_keeps_rejected [OF run _ _ assms(9) _ assms(11) ss assms(13)] start assms(2,8,10)
      conflict_cong [of ?st ?s E a]
    by (auto simp: next_range_def)
  then have "(k, a # vs) \<in> set (st_range E (cleanup st3) (candidatesMap st3))" by (simp add: st_range_iff [OF assms(1)])
  with sel assms(3) show ?thesis
    by (auto simp: select_install_def cleanup_def split: outcome.splits dest: pick_all_mem)
qed

section \<open>A concrete installation\<close>

text \<open>
  A system with \<open>c/bar-1.0\<close> installed and a repository with two versions of \<open>c/foo\<close>, the newer of
  which requires \<open>c/bar\<close> at least 2.0.
\<close>

definition demo_pkg :: "string \<Rightarrow> string \<Rightarrow> default_package list \<Rightarrow> default_package list \<Rightarrow> default_package" where
  "demo_pkg n v reqs confl = NewPackageWithCat ''c'' n v reqs confl"

definition demo_repo :: "artifact list" where
  "demo_repo = [art_of (demo_pkg ''foo'' ''1.0'' [] []),
     art_of (demo_pkg ''foo'' ''2.0'' [demo_pkg ''bar'' ''>=2.0'' [] []] [])]"

definition demo_env :: "artifact list \<Rightarrow> solver_env" where
  "demo_env arts =
     \<lparr>seLib = plain_lib, seOrder = (\<lambda>i ks. ks), seArtSort = insertion_sort, seGentooSort = insertion_sort,
      seOpts = NewSolverOpts,
      seSearch = (\<lambda>o1. Inr (filter (\<lambda>a. PackageName (art_pkg a) \<in> PackageName ` set (soPackages o1)) arts))\<rparr>"

definition demo_world :: "default_package list" where
  "demo_world = [demo_pkg ''bar'' ''1.0'' [] []]"

lemma demo_env_ok: "has_pkgs arts \<Longrightarrow> env_ok (demo_env arts) (art_key ` set arts)"
  by (auto simp: env_ok_def demo_env_def search_names_def has_pkgs_def isort.go_sort_axioms)

lemma demo_orders: "orders_ok (demo_env arts)"
  by (simp add: orders_ok_def demo_env_def id_order.map_order_axioms)

lemma demo_repo_pkgs: "has_pkgs demo_repo" "card (art_key ` set demo_repo) < 2"
  by (simp add: demo_repo_def has_pkgs_def art_of_def GetPackage_def NewPackageArtifact_def)
     (simp add: demo_repo_def art_key_def art_of_def NewPackageArtifact_def demo_pkg_def
        NewPackageWithCat_def PackageName_def package_name_def)

lemma demo_install:
  "fst (Install (demo_env demo_repo) 2 (Some demo_world) None [] [demo_pkg ''foo'' [] [] []] NewSolver) =
     Ok ([demo_repo ! 1], [])"
  by code_simp

theorem Install_returns_witness:
  "fst (Install (demo_env demo_repo) 2 (Some demo_world) None [] [demo_pkg ''foo'' [] [] []] NewSolver) \<noteq> Fuel"
  by (rule Install_returns [OF demo_env_ok [OF demo_repo_pkgs(1)] demo_orders _ demo_repo_pkgs(2)])
     (simp add: NewSolver_def)

theorem Install_sound_witness:
  "\<not> system_conflict (demo_env demo_repo) demo_world (art_pkg (demo_repo ! 1)) \<and>
   distinct (map art_key [demo_repo ! 1])"
proof -
  let ?E = "demo_env demo_repo"
  let ?r = "Install ?E 2 (Some demo_world) None [] [demo_pkg ''foo'' [] [] []] NewSolver"
  obtain st' where r: "?r = (Ok ([demo_repo ! 1], []), st')"
    using demo_install by (metis fst_conv surj_pair)
  have s: "seSearch ?E (pkgs_search False (IgnoreMasks (seOpts ?E)) [demo_pkg ''foo'' [] [] []]) = Inr demo_repo"
    by code_simp
  have "\<not> IgnoreConflicts (seOpts ?E)" "\<not> NoDeps (seOpts ?E)"
    by (simp_all add: demo_env_def NewSolverOpts_def)
  then show ?thesis
    using Install_sound [OF demo_env_ok [OF demo_repo_pkgs(1)] demo_orders _ demo_repo_pkgs(2) r s]
    by (simp add: NewSolver_def)
qed

theorem Install_selects_rejected_witness:
  "\<exists>as st'. Install (demo_env demo_repo) 2 (Some demo_world) None [] [demo_pkg ''foo'' [] [] []] NewSolver = (Ok (as, []), st') \<and>
     demo_repo ! 1 \<in> set as \<and> Admit plain_lib (art_pkg (demo_repo ! 1)) (demo_world ! 0) = Inr False"
proof -
  let ?E = "demo_env demo_repo"
  obtain as st' where run: "Install ?E 2 (Some demo_world) None [] [demo_pkg ''foo'' [] [] []] NewSolver = (Ok (as, []), st')"
    using demo_install by (metis fst_conv surj_pair)
  have s: "seSearch ?E (pkgs_search False (IgnoreMasks (seOpts ?E)) [demo_pkg ''foo'' [] [] []]) = Inr demo_repo"
    by code_simp
  have k: "\<forall>x\<in>set demo_repo. art_key x = ''c/foo'' \<and> Provides (art_pkg x) = []" by code_simp
  have sorted: "GetSortedArtifactsByKey (seLib ?E) (seGentooSort ?E) (ToMap demo_repo) ''c/foo'' = Inr [demo_repo ! 1, demo_repo ! 0]"
    by code_simp
  have v: "\<forall>b\<in>set [demo_repo ! 0]. version_of b \<noteq> version_of (demo_repo ! 1)" by code_simp
  have p: "PackageRequires (art_pkg (demo_repo ! 1)) = [demo_pkg ''bar'' ''>=2.0'' [] []]" by code_simp
  have c: "\<not> system_conflict ?E demo_world (art_pkg (demo_repo ! 1))"
    unfolding artefactIsInConflict_iff [of ?E demo_world False NewSolver, symmetric] by code_simp
  have f: "find (\<lambda>q. PackageName q = PackageName (demo_pkg ''bar'' ''>=2.0'' [] [])) demo_world = Some (demo_world ! 0)"
    by code_simp
  have adm: "Admit (seLib ?E) (art_pkg (demo_repo ! 1)) (demo_world ! 0) = Inr False" by code_simp
  have o: "\<not> NoDeps (seOpts ?E)" "\<not> Force (seOpts ?E)" "candidatesMap NewSolver = []"
    by (simp_all add: demo_env_def NewSolverOpts_def NewSolver_def)
  from Install_selects_rejected [OF demo_orders o(3,1,2) run s k sorted v c p f adm] run adm show ?thesis
    by (auto simp: demo_env_def)
qed

text \<open>
  C15: \<open>resolvePackage\<close> keeps the invariant of the solver's state: the available artifacts stand under
  their own names, and every name of the candidates has at least one version, all of that name, the
  first of them free of conflicts with the system; it changes neither the system nor the conflicts
  and forgets no candidate.
\<close>

theorem resolvePackage_invariant:
  assumes "env_ok E U" "solver_inv True E U st" "card (U - set stack) < n"
  shows "fst (resolvePackage E n pkgstr stack st) \<noteq> Fuel \<and>
    solver_inv True E U (snd (resolvePackage E n pkgstr stack st)) \<and>
    systemMap (snd (resolvePackage E n pkgstr stack st)) = systemMap st \<and>
    (\<forall>k. gm_has (candidatesMap st) k \<longrightarrow> gm_has (candidatesMap (snd (resolvePackage E n pkgstr stack st))) k)"
  using resolve_ok(1) [OF assms] by (simp add: run_ok_def)

theorem resolvePackage_invariant_witness:
  "solver_inv True (demo_env demo_repo) (art_key ` set demo_repo)
     (snd (resolvePackage (demo_env demo_repo) 2 ''c/foo'' [] (NewSolver\<lparr>availableArtsMap := ToMap demo_repo\<rparr>)))"
proof -
  have "avail_inv (art_key ` set demo_repo) (ToMap demo_repo)"
    using avail_inv_add_all [OF _ demo_repo_pkgs(1) subset_refl, of "[]"] by (simp add: ToMap_def avail_inv_def)
  then have "solver_inv True (demo_env demo_repo) (art_key ` set demo_repo) (NewSolver\<lparr>availableArtsMap := ToMap demo_repo\<rparr>)"
    by (simp add: solver_inv_def cand_inv_def NewSolver_def)
  then show ?thesis
    using resolvePackage_invariant [OF demo_env_ok [OF demo_repo_pkgs(1)], of _ "[]" 2 "''c/foo''"]
      demo_repo_pkgs(2) by simp
qed

end
