(* ===== verification/SolverUpgrade.thy ===== *)
theory SolverUpgrade
  imports InstallProofs
begin

text \<open>
  The upgrade of the system, \<open>pkg/v2/solver/solver_upgrade.go\<close>: the analysis of one installed package
  (\<open>checkInstalledPackage\<close>) and of all of them, the check of a candidate (\<open>checkCandidate2Upgrade\<close>,
  \<open>processArtefactDeps4Upgrade\<close>), and the packages to remove, to update and to install (\<open>Upgrade\<close>).

  \<open>analyzeInstalledPackages\<close> is the analysis run one package after the other; the goroutines of the
  code are the steps of \<open>Analysis\<close>, which shows that every run of them ends as this function does.
\<close>

section \<open>The analysis of an installed package\<close>

text \<open>\<open>candidate\<close> in the code: the package of the artifact, or what it provides of the name.\<close>

definition upgrade_target :: "default_package \<Rightarrow> artifact \<Rightarrow> default_package option" where
  "upgrade_target p a =
     (if AtomMatches (art_pkg a) p then Some (art_pkg a)
      else GetProvidePackage (art_pkg a) (PackageName p))"

definition set_version :: "string \<Rightarrow> default_package \<Rightarrow> default_package" where
  "set_version v = upd_info (\<lambda>i. i\<lparr>Version := v\<rparr>)"

definition installed_search :: "bool \<Rightarrow> default_package \<Rightarrow> search_opts" where
  "installed_search ignoreMasks p =
     (pkgs_search True ignoreMasks [set_version ''>=0'' p])\<lparr>soWithFiles := False\<rparr>"

text \<open>The boolean of a comparison whose error is dropped.\<close>

definition cmp_bool :: "bool res \<Rightarrow> bool" where
  "cmp_bool r = (case r of Inl _ \<Rightarrow> False | Inr b \<Rightarrow> b)"

text \<open>\<open>foundNewVersion\<close>; \<open>idx\<close> is the index of the artifact, \<open>elab\<close> the versions seen.\<close>

fun new_version_loop ::
    "solver_env \<Rightarrow> default_package \<Rightarrow> gentoo_pkg \<Rightarrow> nat \<Rightarrow> string list \<Rightarrow> artifact list \<Rightarrow> bool res" where
  "new_version_loop E p gpI idx elab [] = Inr False"
| "new_version_loop E p gpI idx elab (a # as) =
     (case upgrade_target p a of
        None \<Rightarrow> Inl (''For package '' @ HumanReadableString p @ '' found artefact '' @
                     HumanReadableString (art_pkg a) @ '' but without provides.'')
      | Some ap \<Rightarrow>
         (if pVersion ap \<in> set elab then new_version_loop E p gpI (Suc idx) elab as
          else case ToGentooPackage (seLib E) ap of
            Inl e \<Rightarrow> Inl e
          | Inr gpR \<Rightarrow>
             (case gp_GreaterThan (seLib E) gpR gpI of
                Inl e \<Rightarrow> Inl e
              | Inr val \<Rightarrow>
                  if val then Inr True
                  else if cmp_bool (gp_Equal (seLib E) gpR gpI) then
                    (if GetComparitionHash (seLib E) p \<noteq> GetComparitionHash (seLib E) (art_pkg a) then Inr True
                     else new_version_loop E p gpI (Suc idx) (pVersion ap # elab) as)
                  else if Deep (seOpts E) \<and> idx = 0 \<and> cmp_bool (gp_LessThan (seLib E) gpR gpI) then Inr True
                  else new_version_loop E p gpI (Suc idx) (pVersion ap # elab) as)))"

text \<open>What is stored under the name of the package, None for nothing.\<close>

definition checkInstalledPackage ::
    "solver_env \<Rightarrow> int gomap \<Rightarrow> default_package \<Rightarrow> artifact list option outcome" where
  "checkInstalledPackage E prios p =
     (case seSearch E (installed_search (IgnoreMasks (seOpts E)) p) of
        Inl e \<Rightarrow> Err e
      | Inr reposArtifacts \<Rightarrow>
         (if length reposArtifacts = 0 then Ok None
          else case ToGentooPackage (seLib E) p of
            Inl e \<Rightarrow> Err e
          | Inr gpI \<Rightarrow>
             (case SortArtifactList4VersionAndRepos (seLib E) (seArtSort E) prios True reposArtifacts of
                Panics e \<Rightarrow> Panic e
              | Returns arts \<Rightarrow>
                  (case new_version_loop E p gpI 0 [] arts of
                     Inl e \<Rightarrow> Err e
                   | Inr found \<Rightarrow> Ok (if found then Some arts else None)))))"

text \<open>The result of one goroutine stored under the name of its package.\<close>

definition store_found :: "default_package \<Rightarrow> artifact list option outcome \<Rightarrow> arts_map \<Rightarrow> arts_map" where
  "store_found p r am = (case r of Ok (Some arts) \<Rightarrow> gm_set (PackageName p) arts am | _ \<Rightarrow> am)"

fun analyze_loop ::
    "(default_package \<Rightarrow> artifact list option outcome) \<Rightarrow> default_package list \<Rightarrow> bool \<Rightarrow> arts_map \<Rightarrow>
     bool outcome \<times> arts_map" where
  "analyze_loop chk [] failed am = (Ok failed, am)"
| "analyze_loop chk (p # ps) failed am =
     (case chk p of
        Panic e \<Rightarrow> (Panic e, am)
      | Fuel \<Rightarrow> (Fuel, am)
      | Err e \<Rightarrow> analyze_loop chk ps True am
      | Ok r \<Rightarrow> analyze_loop chk ps failed (store_found p (Ok r) am))"

definition analysis_err :: err where
  "analysis_err = ''Unexpected error catched on packages analysis.''"

definition installed_firsts :: "(string \<times> default_package list) list \<Rightarrow> default_package list" where
  "installed_firsts es = map (\<lambda>e. hd (snd e)) es"

definition analyzeInstalledPackages ::
    "solver_env \<Rightarrow> err option \<Rightarrow> solver_state \<Rightarrow> unit outcome \<times> solver_state" where
  "analyzeInstalledPackages E searcherErr st =
     (case searcherErr of
        Some e \<Rightarrow> (Err e, st\<lparr>availableArtsMap := []\<rparr>)
      | None \<Rightarrow>
         (case analyze_loop (checkInstalledPackage E (nil_map (seRepos st)))
                 (installed_firsts (st_range E st (systemMap st))) False [] of
            (r, am) \<Rightarrow>
              obind (r, (next_range st)\<lparr>availableArtsMap := am\<rparr>) (\<lambda>failed st.
                (if failed then Err analysis_err else Ok (), st))))"

section \<open>The check of a candidate\<close>

text \<open>The users of a package that do not admit it may have a version that does.\<close>

fun versions_admit :: "lib \<Rightarrow> default_package \<Rightarrow> artifact list \<Rightarrow> bool \<Rightarrow> bool res" where
  "versions_admit L candidate [] found = Inr found"
| "versions_admit L candidate (uv # uvs) found =
     (case Admit L (art_pkg uv) candidate of
        Inl e \<Rightarrow> Inl e
      | Inr a \<Rightarrow> versions_admit L candidate uvs (if a then True else found))"

fun users_admit :: "lib \<Rightarrow> arts_map \<Rightarrow> default_package \<Rightarrow> default_package list \<Rightarrow> bool res" where
  "users_admit L am candidate [] = Inr True"
| "users_admit L am candidate (user # us) =
     (if admit_bool (Admit L user candidate) then users_admit L am candidate us
      else case gm_get am (PackageName user) of
        None \<Rightarrow> Inr False
      | Some newUserVersions \<Rightarrow>
          (case versions_admit L candidate newUserVersions False of
             Inl e \<Rightarrow> Inl e
           | Inr b \<Rightarrow> if \<not> b then Inr False else users_admit L am candidate us))"

definition dep4_known ::
    "solver_env \<Rightarrow> default_package \<Rightarrow> string list \<Rightarrow> solver_state \<Rightarrow> default_package \<Rightarrow> bool outcome option" where
  "dep4_known E candidate stack st p =
     (case gm_get (systemMap st) (PackageName p) of
        Some val \<Rightarrow>
          (case val of
             [] \<Rightarrow> Some (Panic ''index out of range [0] with length 0'')
           | v # _ \<Rightarrow>
              (case Admit (seLib E) candidate v of
                 Inl e \<Rightarrow> Some (Err e)
               | Inr admit \<Rightarrow>
                   if admit then Some (Ok True)
                   else (case gm_get (availableArtsMap st) (PackageName p) of
                           Some newDepsVersions \<Rightarrow>
                             Some (Ok (list_ex (\<lambda>dv. admit_bool (Admit (seLib E) (art_pkg dv) candidate)) newDepsVersions))
                         | None \<Rightarrow> Some (Ok False))))
      | None \<Rightarrow> dep_known E candidate stack st p)"

definition search_dep4 ::
    "solver_env \<Rightarrow> default_package \<Rightarrow> solver_state \<Rightarrow> string outcome \<times> solver_state" where
  "search_dep4 E p st =
     (case seSearch E (pkgs_search False (IgnoreMasks (seOpts E))
                         [NewPackageWithCatThin (pCategory p) (pName p) (pVersion p)]) of
        Inl e \<Rightarrow> (Err e, st)
      | Inr arts \<Rightarrow>
          (Ok (provider_name (PackageName p) arts),
           st\<lparr>availableArtsMap := am_add_all arts (availableArtsMap st)\<rparr>))"

fun deps4_loop ::
    "solver_env \<Rightarrow> nat \<Rightarrow> default_package \<Rightarrow> default_package list \<Rightarrow> string list \<Rightarrow> solver_state \<Rightarrow>
     bool outcome \<times> solver_state" where
  "deps4_loop E n candidate [] stack st = (Ok True, st)"
| "deps4_loop E n candidate (p # ps) stack st =
     (case dep4_known E candidate stack st p of
        Some r \<Rightarrow> obind (r, st) (\<lambda>admit st.
          if \<not> admit then (Ok False, st) else deps4_loop E n candidate ps stack st)
      | None \<Rightarrow>
          obind (search_dep4 E p st) (\<lambda>provStr st1.
            obind (resolvePackage E n (if provStr \<noteq> [] then provStr else PackageName p) stack st1) (\<lambda>_ st2.
              deps4_loop E n candidate ps stack st2)))"

definition processArtefactDeps4Upgrade ::
    "solver_env \<Rightarrow> nat \<Rightarrow> artifact \<Rightarrow> string list \<Rightarrow> solver_state \<Rightarrow> bool outcome \<times> solver_state" where
  "processArtefactDeps4Upgrade E n art stack st =
     deps4_loop E n (art_pkg art) (PackageRequires (art_pkg art)) stack st"

text \<open>
  What becomes of a version: the next one is tried (\<open>Next\<close>), after banning it (\<open>Ban\<close>), it is taken
  (\<open>Take\<close>), or it is banned and the search ends (\<open>Stop\<close>).
\<close>

datatype verdict = Next | Ban | Take | Stop

definition try_version ::
    "solver_env \<Rightarrow> nat \<Rightarrow> verdict \<Rightarrow> artifact \<Rightarrow> string list \<Rightarrow> solver_state \<Rightarrow> verdict outcome \<times> solver_state" where
  "try_version E n reject art stack st =
     (if \<not> IgnoreConflicts (seOpts E) \<and> artefactIsInConflict E st art then (Ok Ban, st)
      else obind (artefactAdmitByQueue E art st) (\<lambda>admit st1.
        if \<not> admit then (Ok reject, st1)
        else obind (processArtefactDeps4Upgrade E n art (stack @ [PackageName (art_pkg art)]) st1)
          (\<lambda>admittedDeps st2. (Ok (if \<not> admittedDeps then reject else Take), st2))))"

text \<open>One round of the loop over the versions of the installed package \<open>dp\<close>; the boolean is \<open>foundEqual\<close>.\<close>

definition consider_version ::
    "solver_env \<Rightarrow> nat \<Rightarrow> default_package \<Rightarrow> artifact \<Rightarrow> string list \<Rightarrow> string list \<Rightarrow> bool \<Rightarrow> solver_state \<Rightarrow>
     (verdict \<times> bool) outcome \<times> solver_state" where
  "consider_version E n dp art stack banned foundEqual st =
     (case upgrade_target dp art of
        None \<Rightarrow> (Ok (Next, foundEqual), st)
      | Some candidate \<Rightarrow>
       (case ToGentooPackage (seLib E) candidate of
          Inl e \<Rightarrow> (Err e, st)
        | Inr gpS \<Rightarrow>
         (if pVersion candidate \<in> set banned then (Ok (Next, foundEqual), st)
          else case ToGentooPackage (seLib E) dp of
            Inl e \<Rightarrow> (Panic ''invalid memory address or nil pointer dereference'', st)
          | Inr gpI \<Rightarrow>
           (case gp_GreaterThan (seLib E) gpS gpI of
              Inl e \<Rightarrow> (Err e, st)
            | Inr val \<Rightarrow>
               if val then
                 obind (of_res (case gm_get (requiresMap st) (PackageName candidate) of
                          Some users \<Rightarrow> users_admit (seLib E) (availableArtsMap st) candidate users
                        | None \<Rightarrow> Inr True), st) (\<lambda>usersAdmitNew st.
                   if \<not> usersAdmitNew then (Ok (Next, foundEqual), st)
                   else obind (try_version E n Next art stack st) (\<lambda>v st. (Ok (v, foundEqual), st)))
               else if cmp_bool (gp_Equal (seLib E) gpS gpI) then
                 (if GetComparitionHash (seLib E) dp \<noteq> GetComparitionHash (seLib E) candidate then
                    obind (processArtefactDeps4Upgrade E n art (stack @ [PackageName (art_pkg art)]) st)
                      (\<lambda>admittedDeps st. (Ok (if \<not> admittedDeps then Ban else Take, True), st))
                  else (Ok (Stop, True), st))
               else if Deep (seOpts E) \<and> \<not> foundEqual then
                 obind (try_version E n Ban art stack st) (\<lambda>v st. (Ok (v, foundEqual), st))
               else (Ok (Ban, foundEqual), st)))))"

definition ban_version :: "default_package \<Rightarrow> artifact \<Rightarrow> string list \<Rightarrow> string list" where
  "ban_version dp art banned =
     (case upgrade_target dp art of Some c \<Rightarrow> pVersion c # banned | None \<Rightarrow> banned)"

fun candidates_loop ::
    "solver_env \<Rightarrow> nat \<Rightarrow> default_package \<Rightarrow> artifact list \<Rightarrow> string list \<Rightarrow> string list \<Rightarrow> bool \<Rightarrow>
     solver_state \<Rightarrow> (bool \<times> string list) outcome \<times> solver_state" where
  "candidates_loop E n dp [] stack banned foundEqual st = (Ok (False, banned), st)"
| "candidates_loop E n dp (art # arts) stack banned foundEqual st =
     obind (consider_version E n dp art stack banned foundEqual st) (\<lambda>v st1.
       case fst v of
         Next \<Rightarrow> candidates_loop E n dp arts stack banned (snd v) st1
       | Ban \<Rightarrow> candidates_loop E n dp arts stack (ban_version dp art banned) (snd v) st1
       | Take \<Rightarrow> (Ok (True, banned), st1)
       | Stop \<Rightarrow> (Ok (False, ban_version dp art banned), st1))"

definition checkCandidate2Upgrade ::
    "solver_env \<Rightarrow> nat \<Rightarrow> string \<Rightarrow> string list \<Rightarrow> solver_state \<Rightarrow> unit outcome \<times> solver_state" where
  "checkCandidate2Upgrade E n pkgstr stack st =
     (if ContainsElem stack pkgstr then (Ok (), st)
      else if gm_has (candidatesMap st) pkgstr then (Ok (), st)
      else obind (sorted_versions E pkgstr st) (\<lambda>selectedArts st1.
        case gm_get (systemMap st1) pkgstr of
          Some (dp # _) \<Rightarrow>
            obind (candidates_loop E n dp selectedArts stack [] False st1) (\<lambda>fb st2.
              (Ok (), if fst fb then add_candidate pkgstr (valid_arts selectedArts (snd fb)) st2 else st2))
        | _ \<Rightarrow> (Err (''Unexpected condition on retrieve package for '' @ pkgstr), st1)))"

section \<open>Upgrade\<close>

text \<open>
  The names to check, in the order of requires and repositories.  The list of the artifacts is
  tagged with the keys of the map: \<open>GetKeyFromValue\<close> finds the key of an artifact by the identity of
  its pointer, and every artifact of a search is its own.
\<close>

type_synonym keyed_sort =
  "(string \<times> artifact \<Rightarrow> string \<times> artifact \<Rightarrow> bool) \<Rightarrow> (string \<times> artifact) list \<Rightarrow> (string \<times> artifact) list"

definition keyed_list :: "(string \<times> artifact list) list \<Rightarrow> (string \<times> artifact) list" where
  "keyed_list es = concat (map (\<lambda>(k, as). map (Pair k) as) es)"

fun plist_loop :: "arts_map \<Rightarrow> (string \<times> artifact) list \<Rightarrow> string list \<Rightarrow> string list" where
  "plist_loop am [] mapArt = []"
| "plist_loop am ((key, art) # kas) mapArt =
     (let pn = PackageName (art_pkg art); present = gm_has am pn
      in if \<not> present \<and> key = [] then plist_loop am kas mapArt
         else let pname = (if present then pn else key)
              in if pname \<in> set mapArt then plist_loop am kas mapArt
                 else pname # plist_loop am kas (pname # mapArt))"

definition upgrade_names :: "solver_env \<Rightarrow> keyed_sort \<Rightarrow> solver_state \<Rightarrow> string list" where
  "upgrade_names E ksort st =
     plist_loop (availableArtsMap st)
       (ksort (\<lambda>x y. requires_repo_less (nil_map (seRepos st)) (snd x) (snd y))
          (keyed_list (st_range E st (availableArtsMap st)))) []"

fun check_all :: "solver_env \<Rightarrow> nat \<Rightarrow> string list \<Rightarrow> solver_state \<Rightarrow> unit outcome \<times> solver_state" where
  "check_all E n [] st = (Ok (), st)"
| "check_all E n (pname # ks) st =
     obind (checkCandidate2Upgrade E n pname [] st) (\<lambda>_ st1. check_all E n ks st1)"

text \<open>What is removed, updated and installed.  An artifact to remove only has its runtime package.\<close>

record packs =
  pkRemove :: "artifact list"
  pkUpdate :: "artifact list"
  pkInstall :: "artifact list"

definition art_remove :: "default_package \<Rightarrow> artifact" where
  "art_remove p =
     \<lparr>aPath = [], aCachePath = [], aChecksums = [], aCompressionType = [], aFiles = [],
      aPackageCacheImage = [], aRuntime = Some p, aCompileSpec = None\<rparr>"

definition add_remove :: "default_package \<Rightarrow> packs \<Rightarrow> packs" where
  "add_remove p k =
     (if IsPresent (pkRemove k) (art_remove p) then k
      else k\<lparr>pkRemove := pkRemove k @ [art_remove p]\<rparr>)"

fun remove_provided :: "pkgs_map \<Rightarrow> default_package list \<Rightarrow> packs \<Rightarrow> packs" where
  "remove_provided sys [] k = k"
| "remove_provided sys (prov # ps) k =
     remove_provided sys ps
       (case gm_get sys (PackageName prov) of Some (pr # _) \<Rightarrow> add_remove pr k | _ \<Rightarrow> k)"

definition add_install :: "arts_map \<Rightarrow> artifact \<Rightarrow> packs \<Rightarrow> packs" where
  "add_install cands a k =
     (if gm_has cands (PackageName (art_pkg a)) then k else k\<lparr>pkInstall := pkInstall k @ [a]\<rparr>)"

definition upgrade_one :: "arts_map \<Rightarrow> pkgs_map \<Rightarrow> string \<Rightarrow> artifact \<Rightarrow> packs \<Rightarrow> packs" where
  "upgrade_one cands sys pname a k =
     (case gm_get sys pname of
        Some (v # _) \<Rightarrow>
          remove_provided sys (Provides (art_pkg a))
            (if PackageName (art_pkg a) \<noteq> pname then add_install cands a (add_remove v k)
             else k\<lparr>pkRemove := pkRemove k @ [art_remove v], pkUpdate := pkUpdate k @ [a]\<rparr>)
      | _ \<Rightarrow>
          (let k = remove_provided sys (Provides (art_pkg a)) k
           in k\<lparr>pkInstall := pkInstall k @ [a]\<rparr>))"

fun upgrade_all ::
    "arts_map \<Rightarrow> pkgs_map \<Rightarrow> (string \<times> artifact list) list \<Rightarrow> packs \<Rightarrow> packs outcome" where
  "upgrade_all cands sys [] k = Ok k"
| "upgrade_all cands sys ((pname, plist) # es) k =
     (case plist of
        [] \<Rightarrow> Panic ''index out of range [0] with length 0''
      | a # _ \<Rightarrow> upgrade_all cands sys es (upgrade_one cands sys pname a k))"

fun upgrade_nodeps :: "arts_map \<Rightarrow> pkgs_map \<Rightarrow> string list \<Rightarrow> packs \<Rightarrow> packs outcome" where
  "upgrade_nodeps cands sys [] k = Ok k"
| "upgrade_nodeps cands sys (pname # ks) k =
     (case gm_get cands pname of
        Some (a # _) \<Rightarrow>
          upgrade_nodeps cands sys ks
            (case gm_get sys pname of
               Some (v # _) \<Rightarrow>
                 (let k = k\<lparr>pkRemove := pkRemove k @ [art_remove v]\<rparr>
                  in if PackageName (art_pkg a) \<noteq> pname then add_install cands a k
                     else k\<lparr>pkUpdate := pkUpdate k @ [a]\<rparr>)
             | _ \<Rightarrow> k\<lparr>pkInstall := pkInstall k @ [a]\<rparr>)
      | _ \<Rightarrow> Panic ''index out of range [0] with length 0'')"

definition no_packs :: packs where
  "no_packs = \<lparr>pkRemove = [], pkUpdate = [], pkInstall = []\<rparr>"

definition select_upgrade ::
    "solver_env \<Rightarrow> string list \<Rightarrow> solver_state \<Rightarrow> packs outcome \<times> solver_state" where
  "select_upgrade E pList st =
     (if NoDeps (seOpts E)
      then (upgrade_nodeps (candidatesMap st) (systemMap st) pList no_packs, st)
      else (upgrade_all (candidatesMap st) (systemMap st) (st_range E st (candidatesMap st)) no_packs,
            next_range st))"

definition Upgrade ::
    "solver_env \<Rightarrow> nat \<Rightarrow> keyed_sort \<Rightarrow> default_package list option \<Rightarrow> err option \<Rightarrow> repo_conf list \<Rightarrow>
     solver_state \<Rightarrow> packs outcome \<times> solver_state" where
  "Upgrade E n ksort db searcherErr repos st0 =
     (case db of
        None \<Rightarrow> (Err ''Solver Install requires Database'', st0)
      | Some world \<Rightarrow>
         (let st1 = prepareConflictsAndSystemMap E world True st0
          in case read_repos repos [] of
               Inl e \<Rightarrow> (Err e, st1)
             | Inr prios \<Rightarrow>
                 obind (analyzeInstalledPackages E searcherErr (st1\<lparr>seRepos := Some prios\<rparr>)) (\<lambda>_ st2.
                   if length (availableArtsMap st2) = 0 then (Ok no_packs, st2)
                   else
                     (let pList = upgrade_names E ksort st2
                      in obind (check_all E n pList (next_range st2)) (\<lambda>_ st3.
                           select_upgrade E pList (st3\<lparr>seRepos := None\<rparr>))))))"

end
