(* ===== verification/Manager.thy ===== *)
theory Manager
  imports Files Wagon SolverUpgrade
begin

text \<open>
  The manager of the artifacts, \<open>pkg/v2/installer/manager.go\<close>: the removal, the unpack and the
  registration of a package, its finalizers (\<open>pkg/v2/repository/finalizer.go\<close>), the check of the file
  conflicts, and the index of the installed files.

  The host has the database of the installed packages, the disk, and the index \<open>fileIndex\<close> of the
  manager, nil until it is needed.  Parameters (\<open>inst_env\<close>) are the unpack of an archive, the commands of
  a finalizer, the render and decode of its file, the client of a repository and the hash of a file.
\<close>

record luet_finalizer =
  lfShell :: "string list"
  lfInstall :: "string list"
  lfUninstall :: "string list"

record host =
  hsDb :: bolt_db
  hsDisk :: disk
  hsFileIndex :: "default_package gomap option"

record inst_env =
  inConf :: inst_conf
  inDb :: db_env
  inOrder :: "string list \<Rightarrow> string list"
  inUnpack :: "artifact \<Rightarrow> string \<Rightarrow> disk \<Rightarrow> err option \<times> disk"
  inExec :: "string \<Rightarrow> string list \<Rightarrow> string \<Rightarrow> disk \<Rightarrow> err option \<times> disk"
  inFinalizer :: "disk \<Rightarrow> string \<Rightarrow> string \<Rightarrow> luet_finalizer res"
  inClient :: "wagon_identity \<Rightarrow> bool"
  inDownload :: "wagon_identity \<Rightarrow> artifact \<Rightarrow> disk \<Rightarrow> artifact res \<times> disk"
  inGenerate :: "artifact \<Rightarrow> disk \<Rightarrow> string gomap res"

section \<open>Steps\<close>

text \<open>An error ends the function unless it is forced.\<close>

definition unless_forced :: "bool \<Rightarrow> (err \<Rightarrow> err) \<Rightarrow> err option \<times> 's \<Rightarrow> unit outcome \<times> 's" where
  "unless_forced force msg r =
     (case r of (Some e, s) \<Rightarrow> (if \<not> force then Err (msg e) else Ok (), s) | (None, s) \<Rightarrow> (Ok (), s))"

definition on_db :: "(bolt_db \<Rightarrow> 'a \<times> bolt_db) \<Rightarrow> host \<Rightarrow> 'a \<times> host" where
  "on_db f h = (case f (hsDb h) of (a, db) \<Rightarrow> (a, h\<lparr>hsDb := db\<rparr>))"

definition on_disk :: "(disk \<Rightarrow> 'a \<times> disk) \<Rightarrow> host \<Rightarrow> 'a \<times> host" where
  "on_disk f h = (case f (hsDisk h) of (a, d) \<Rightarrow> (a, h\<lparr>hsDisk := d\<rparr>))"

section \<open>Finalizers\<close>

definition getShell :: "luet_finalizer \<Rightarrow> string \<times> string list" where
  "getShell f =
     (case lfShell f of [] \<Rightarrow> (''sh'', [''-c'']) | cmd # args \<Rightarrow> (cmd, args))"

text \<open>\<open>inExec\<close> is the command with its arguments, run on the rootfs or in a box under it.\<close>

fun run_commands :: "inst_env \<Rightarrow> string \<Rightarrow> string list \<Rightarrow> string list \<Rightarrow> string \<Rightarrow> disk \<Rightarrow> err option \<times> disk" where
  "run_commands M cmd args [] root d = (None, d)"
| "run_commands M cmd args (c # cs) root d =
     (case inExec M cmd (args @ [c]) root d of
        (Some e, d) \<Rightarrow> (Some (''Failed running command: '' @ e), d)
      | (None, d) \<Rightarrow> run_commands M cmd args cs root d)"

definition RunInstall :: "inst_env \<Rightarrow> luet_finalizer \<Rightarrow> string \<Rightarrow> disk \<Rightarrow> err option \<times> disk" where
  "RunInstall M f root d = (case getShell f of (cmd, args) \<Rightarrow> run_commands M cmd args (lfInstall f) root d)"

definition RunUninstall :: "inst_env \<Rightarrow> luet_finalizer \<Rightarrow> string \<Rightarrow> disk \<Rightarrow> err option \<times> disk" where
  "RunUninstall M f root d = (case getShell f of (cmd, args) \<Rightarrow> run_commands M cmd args (lfUninstall f) root d)"

section \<open>Removal\<close>

definition remove_finalizer_step :: "inst_env \<Rightarrow> default_package \<Rightarrow> string \<Rightarrow> bool \<Rightarrow> host \<Rightarrow> unit outcome \<times> host" where
  "remove_finalizer_step M p root force h =
     (case bd_GetPackageFinalizer p (hsDb h) of
        Inl e \<Rightarrow> (if \<not> force then Err (''Error on retrieve package finalizer: '' @ e) else Ok (), h)
      | Inr None \<Rightarrow> (Ok (), h)
      | Inr (Some pf) \<Rightarrow>
          unless_forced force id
            (on_disk (RunUninstall M \<lparr>lfShell = fzShell pf, lfInstall = [], lfUninstall = fzUninstall pf\<rparr> root) h))"

definition remove_files_step :: "inst_env \<Rightarrow> stone \<Rightarrow> string \<Rightarrow> bool \<Rightarrow> bool \<Rightarrow> host \<Rightarrow> unit outcome \<times> host" where
  "remove_files_step M s root preserve force h =
     (case on_disk (removePackageFiles (inConf M) (hsDb h) s root preserve) h of
        (Err e, h) \<Rightarrow> (if \<not> force then Err e else Ok (), h)
      | r \<Rightarrow> r)"

definition mgr_RemovePackage ::
    "inst_env \<Rightarrow> stone \<Rightarrow> string \<Rightarrow> bool \<Rightarrow> bool \<Rightarrow> bool \<Rightarrow> host \<Rightarrow> unit outcome \<times> host" where
  "mgr_RemovePackage M s root preserve skipFinalizer force h =
     (let p = st_ToPackage s
      in obind (remove_files_step M s root preserve force h) (\<lambda>_ h.
         obind (unless_forced force ((@) ''Failed removing package files from database: '')
                  (on_db (bd_RemovePackageFiles p) h)) (\<lambda>_ h.
         obind (if \<not> skipFinalizer then remove_finalizer_step M p root force h else (Ok (), h)) (\<lambda>_ h.
         obind (unless_forced force ((@) ''Failed removing package finalizer from database: '')
                  (on_db (bd_RemovePackageFinalizer p) h)) (\<lambda>_ h.
         unless_forced force ((@) ''Failed removing package from database: '')
           (on_db (bd_RemovePackage p) h))))))"

section \<open>Installation\<close>

definition InstallPackage :: "inst_env \<Rightarrow> artifact \<Rightarrow> string \<Rightarrow> host \<Rightarrow> unit outcome \<times> host" where
  "InstallPackage M a root h =
     (case aRuntime a of
        None \<Rightarrow> (Err ''Artifact without Runtime package definition'', h)
      | Some p \<Rightarrow>
          unless_forced False (\<lambda>e. ''Unpack package '' @ HumanReadableString p @ '' failed: '' @ e)
            (on_disk (inUnpack M a root) h))"

definition GetPackageTreePath :: "artifact \<Rightarrow> string \<Rightarrow> string panics" where
  "GetPackageTreePath a treefs =
     (case GetPackage a of
        None \<Rightarrow> Panics (''Unexpected status of the artifact '' @ aPath a)
      | Some p \<Rightarrow> Returns (PathJoin [treefs, pCategory p, pName p, pVersion p]))"

text \<open>The paths of the finalizer and of the definition of a package, in the tree of a repository.\<close>

definition finalizer_paths :: "inst_env \<Rightarrow> wagon_identity \<Rightarrow> artifact \<Rightarrow> (string \<times> string) panics" where
  "finalizer_paths M r a =
     (case GetPackageTreePath a (GetTreePath (GetSystemReposDirPath (icSystem (inConf M))) r) of
        Panics e \<Rightarrow> Panics e
      | Returns pkgdir \<Rightarrow> Returns (PathJoin [pkgdir, ''finalize.yaml''], PathJoin [pkgdir, ''definition.yaml'']))"

definition register_finalizer ::
    "inst_env \<Rightarrow> artifact \<Rightarrow> default_package \<Rightarrow> wagon_identity option \<Rightarrow> bool \<Rightarrow> host \<Rightarrow> unit outcome \<times> host" where
  "register_finalizer M a pp r force h =
     (case r of
        None \<Rightarrow> (Ok (), h)
      | Some repo \<Rightarrow>
         (case finalizer_paths M repo a of
            Panics e \<Rightarrow> (Panic e, h)
          | Returns (finalizeFile, defFile) \<Rightarrow>
             (if Exists (hsDisk h) finalizeFile then
                (case inFinalizer M (hsDisk h) finalizeFile defFile of
                   Inl e \<Rightarrow> (Err e, h)
                 | Inr f \<Rightarrow>
                    unless_forced force (\<lambda>e. ''Register package '' @ HumanReadableString pp @ '': '' @ e)
                      (on_db (bd_SetPackageFinalizer
                        \<lparr>fzID = 0, fzFingerprint = GetFingerPrint pp, fzShell = lfShell f,
                         fzInstall = lfInstall f, fzUninstall = lfUninstall f\<rparr>) h))
              else (Ok (), h))))"

definition RegisterPackage ::
    "inst_env \<Rightarrow> artifact \<Rightarrow> wagon_identity option \<Rightarrow> bool \<Rightarrow> host \<Rightarrow> unit outcome \<times> host" where
  "RegisterPackage M a r force h =
     (case GetPackage a of
        None \<Rightarrow> (Err ''Artifact without Runtime package definition'', h)
      | Some pp \<Rightarrow>
          obind (unless_forced force ((@) ''Register package files on database: '')
                   (on_db (bd_SetPackageFiles (GetFingerPrint pp) (aFiles a)) h)) (\<lambda>_ h.
          obind (register_finalizer M a pp r force h) (\<lambda>_ h.
          (case on_db (bd_CreatePackage pp) h of
             (Inl e, h) \<Rightarrow> (Err (''Failed register package: '' @ e), h)
           | (Inr _, h) \<Rightarrow> (Ok (), h)))))"

definition ReinstallPackage ::
    "inst_env \<Rightarrow> stone \<Rightarrow> artifact \<Rightarrow> wagon_identity option \<Rightarrow> string \<Rightarrow> bool \<Rightarrow> bool \<Rightarrow> host \<Rightarrow>
     unit outcome \<times> host" where
  "ReinstallPackage M s a r root preserve force h =
     (if aRuntime a = None then (Err ''Artifact without Runtime package definition'', h)
      else obind (remove_files_step M s root preserve force h) (\<lambda>_ h.
        obind (if force then
                 (let p = st_ToPackage s;
                      h = snd (on_db (bd_RemovePackageFiles p) h);
                      h = snd (on_db (bd_RemovePackageFinalizer p) h);
                      h = snd (on_db (bd_RemovePackage p) h)
                  in RegisterPackage M a r force h)
               else (Ok (), h)) (\<lambda>_ h.
        InstallPackage M a root h)))"

text \<open>The artifact with the path of the file downloaded is verified.\<close>

definition DownloadPackage :: "inst_env \<Rightarrow> artifact \<Rightarrow> wagon_identity \<Rightarrow> host \<Rightarrow> err option \<times> host" where
  "DownloadPackage M a r h =
     (if \<not> inClient M r then (Some ''No client could be generated from repository'', h)
      else case on_disk (inDownload M r a) h of
        (Inl e, h) \<Rightarrow> (Some (''Error on download artifact: '' @ e), h)
      | (Inr a, h) \<Rightarrow>
          (map_option (\<lambda>e. ''Artifact integrity check failure for file '' @ aCachePath a @ '': '' @ e)
             (Verify (inOrder M) (inGenerate M a (hsDisk h)) a), h))"

definition ExecuteFinalizer ::
    "inst_env \<Rightarrow> artifact \<Rightarrow> wagon_identity option \<Rightarrow> bool \<Rightarrow> string \<Rightarrow> host \<Rightarrow> unit outcome \<times> host" where
  "ExecuteFinalizer M a r postInstall root h =
     (case r of
        None \<Rightarrow> (Panic ''invalid memory address or nil pointer dereference'', h)
      | Some repo \<Rightarrow>
         (case finalizer_paths M repo a of
            Panics e \<Rightarrow> (Panic e, h)
          | Returns (finalizeFile, defFile) \<Rightarrow>
             (if Exists (hsDisk h) finalizeFile then
                (case inFinalizer M (hsDisk h) finalizeFile defFile of
                   Inl e \<Rightarrow> (Err e, h)
                 | Inr f \<Rightarrow>
                    unless_forced False id
                      (on_disk (if postInstall then RunInstall M f root else RunUninstall M f root) h))
              else (Ok (), h))))"

section \<open>Conflicts between files\<close>

fun index_files :: "string list \<Rightarrow> 'a \<Rightarrow> 'a gomap \<Rightarrow> 'a gomap" where
  "index_files [] p m = m"
| "index_files (f # fs) p m = index_files fs p (gm_set f p m)"

text \<open>The files of a package, none when the database has an error.\<close>

definition db_files :: "bolt_db \<Rightarrow> default_package \<Rightarrow> string list" where
  "db_files db p = (case bd_GetPackageFiles p db of Inl _ \<Rightarrow> [] | Inr fs \<Rightarrow> fs)"

fun index_world :: "bolt_db \<Rightarrow> default_package list \<Rightarrow> default_package gomap \<Rightarrow> default_package gomap" where
  "index_world db [] m = m"
| "index_world db (p # ps) m = index_world db ps (index_files (db_files db p) p m)"

definition buildIndexFiles :: "host \<Rightarrow> host" where
  "buildIndexFiles h =
     (case hsFileIndex h of
        None \<Rightarrow> h\<lparr>hsFileIndex := Some (index_world (hsDb h) (bd_World (hsDb h)) [])\<rparr>
      | Some _ \<Rightarrow> h)"

definition ExistsPackageFile :: "string \<Rightarrow> host \<Rightarrow> default_package option \<times> host" where
  "ExistsPackageFile f h = (let h = buildIndexFiles h in (gm_get (nil_map (hsFileIndex h)) f, h))"

fun files_to_remove :: "bolt_db \<Rightarrow> artifact list \<Rightarrow> string gomap \<Rightarrow> string gomap" where
  "files_to_remove db [] m = m"
| "files_to_remove db (a # as) m =
     (let pp = art_pkg a;
          files = (if length (aFiles a) = 0 then db_files db pp else aFiles a)
      in files_to_remove db as (index_files files (HumanReadableString pp) m))"

text \<open>Whether a file of the package \<open>pp\<close> on the target belongs to an installed package that stays.\<close>

definition check_system_file ::
    "bool \<Rightarrow> string \<Rightarrow> string gomap \<Rightarrow> string \<Rightarrow> string \<Rightarrow> bool \<Rightarrow> host \<Rightarrow> bool outcome \<times> host" where
  "check_system_file safeCheck root toRemove pp f found h =
     (if Exists (hsDisk h) (PathJoin [root, f]) \<and> \<not> gm_has toRemove f then
        (case ExistsPackageFile f h of
           (Some p, h) \<Rightarrow>
             (if safeCheck then Ok True
              else Err (''file conflict between '' @ HumanReadableString p @ '' and '' @ pp @ '' ( file: '' @ f @ '' )''), h)
         | (None, h) \<Rightarrow> (Ok found, h))
      else (Ok found, h))"

text \<open>The files of one artifact: the map of the files to install, and whether a conflict was passed over.\<close>

fun check_files ::
    "bool \<Rightarrow> bool \<Rightarrow> string \<Rightarrow> string gomap \<Rightarrow> string \<Rightarrow> string list \<Rightarrow> string gomap \<Rightarrow> bool \<Rightarrow> host \<Rightarrow>
     (string gomap \<times> bool) outcome \<times> host" where
  "check_files checkSystem safeCheck root toRemove pp [] m found h = (Ok (m, found), h)"
| "check_files checkSystem safeCheck root toRemove pp (f # fs) m found h =
     (case gm_get m f of
        Some pkg \<Rightarrow>
          if \<not> safeCheck then (Err (''file '' @ f @ '' conflict between package '' @ pkg @ '' and '' @ pp), h)
          else obind (if checkSystem then check_system_file safeCheck root toRemove pp f True h else (Ok True, h))
                 (\<lambda>found h. check_files checkSystem safeCheck root toRemove pp fs (gm_set f pp m) found h)
      | None \<Rightarrow>
          obind (if checkSystem then check_system_file safeCheck root toRemove pp f found h else (Ok found, h))
            (\<lambda>found h. check_files checkSystem safeCheck root toRemove pp fs (gm_set f pp m) found h))"

fun check_artifacts ::
    "bool \<Rightarrow> bool \<Rightarrow> string \<Rightarrow> string gomap \<Rightarrow> artifact list \<Rightarrow> string gomap \<Rightarrow> bool \<Rightarrow> host \<Rightarrow> bool outcome \<times> host" where
  "check_artifacts checkSystem safeCheck root toRemove [] m found h = (Ok found, h)"
| "check_artifacts checkSystem safeCheck root toRemove (a # as) m found h =
     obind (check_files checkSystem safeCheck root toRemove (HumanReadableString (art_pkg a)) (aFiles a) m found h)
       (\<lambda>(m, found) h. check_artifacts checkSystem safeCheck root toRemove as m found h)"

text \<open>The value is whether conflicts were passed over, which the code prints; then the index is dropped.\<close>

definition CheckFileConflicts ::
    "artifact list \<Rightarrow> artifact list \<Rightarrow> bool \<Rightarrow> bool \<Rightarrow> string \<Rightarrow> host \<Rightarrow> bool outcome \<times> host" where
  "CheckFileConflicts toInstall toRemove checkSystem safeCheck root h =
     (let rm = (if checkSystem then files_to_remove (hsDb h) toRemove [] else [])
      in obind (check_artifacts checkSystem safeCheck root rm toInstall [] False h)
           (\<lambda>found h. (Ok found, h\<lparr>hsFileIndex := None\<rparr>)))"

end
