(* ===== verification/Installer.thy ===== *)
theory Installer
  imports Manager
begin

text \<open>
  The commands of the manager of artifacts, \<open>pkg/v2/installer\<close>: the installation
  (\<open>manager_install.go\<close>), the upgrade (\<open>manager_upgrade.go\<close>), the removal with the packages that require
  the ones removed (\<open>manager_uninstall.go\<close>, \<open>rdepend.go\<close>).  They call the solver, the order of the
  operations and the steps of the manager as modelled.  What is only printed is left out; the answer to a
  question is an argument.
\<close>

section \<open>Packages that require others\<close>

record rdeps_task =
  rtResolved :: "bool gomap"
  rtRdeps :: pkgs_map
  rtMatches :: "default_package list"

definition NewResolveRdependsTask :: rdeps_task where
  "NewResolveRdependsTask = \<lparr>rtResolved = [], rtRdeps = [], rtMatches = []\<rparr>"

definition SetResolved :: "default_package \<Rightarrow> rdeps_task \<Rightarrow> rdeps_task" where
  "SetResolved p t = t\<lparr>rtResolved := gm_set (PackageName p) True (rtResolved t)\<rparr>"

definition IsResolved :: "rdeps_task \<Rightarrow> default_package \<Rightarrow> bool" where
  "IsResolved t p = gm_has (rtResolved t) (PackageName p)"

definition AddRdep2Map :: "default_package \<Rightarrow> default_package \<Rightarrow> rdeps_task \<Rightarrow> rdeps_task" where
  "AddRdep2Map p d t =
     t\<lparr>rtRdeps := (case gm_get (rtRdeps t) (PackageName d) of
                      Some val \<Rightarrow> gm_set (PackageName d) (val @ [p]) (rtRdeps t)
                    | None \<Rightarrow> gm_set (PackageName d) [p] (rtRdeps t))\<rparr>"

definition AddMatch :: "default_package \<Rightarrow> rdeps_task \<Rightarrow> rdeps_task" where
  "AddMatch p t = t\<lparr>rtMatches := rtMatches t @ [p]\<rparr>"

text \<open>\<open>recursiveResolveRdep\<close>, with a bound on the depth of its calls; the loop over the packages found.\<close>

fun recursiveResolveRdep :: "nat \<Rightarrow> default_package \<Rightarrow> rdeps_task \<Rightarrow> rdeps_task option"
  and rdeps_loop :: "nat \<Rightarrow> default_package list \<Rightarrow> rdeps_task \<Rightarrow> rdeps_task option" where
  "recursiveResolveRdep 0 p t = None"
| "recursiveResolveRdep (Suc n) p t =
     (if IsResolved t p then Some t
      else
        (let t = AddMatch p (SetResolved p t)
         in case gm_get (rtRdeps t) (PackageName p) of
              Some val \<Rightarrow> rdeps_loop n val t
            | None \<Rightarrow> Some t))"
| "rdeps_loop n [] t = Some t"
| "rdeps_loop n (d # ds) t =
     (if \<not> IsResolved t d then
        (case recursiveResolveRdep n d t of None \<Rightarrow> None | Some t \<Rightarrow> rdeps_loop n ds t)
      else rdeps_loop n ds t)"

fun add_rdeps :: "default_package \<Rightarrow> default_package list \<Rightarrow> rdeps_task \<Rightarrow> rdeps_task" where
  "add_rdeps p [] t = t"
| "add_rdeps p (d # ds) t = add_rdeps p ds (AddRdep2Map p d t)"

fun build_rdeps :: "default_package list \<Rightarrow> rdeps_task \<Rightarrow> rdeps_task" where
  "build_rdeps [] t = t"
| "build_rdeps (p # ps) t = build_rdeps ps (add_rdeps p (PackageRequires p) (add_rdeps p (Provides p) t))"

definition ResolveRuntime :: "nat \<Rightarrow> default_package list \<Rightarrow> default_package \<Rightarrow> rdeps_task \<Rightarrow> rdeps_task option" where
  "ResolveRuntime n system p t = recursiveResolveRdep n p (build_rdeps system (t\<lparr>rtRdeps := []\<rparr>))"

fun resolve_packages ::
    "nat \<Rightarrow> default_package list \<Rightarrow> default_package list \<Rightarrow> rdeps_task \<Rightarrow> rdeps_task option" where
  "resolve_packages n system [] t = Some t"
| "resolve_packages n system (p # ps) t =
     (case ResolveRuntime n system p t of None \<Rightarrow> None | Some t \<Rightarrow> resolve_packages n system ps t)"

section \<open>Removal\<close>

record uninstall_opts =
  uoForce :: bool
  uoNoDeps :: bool
  uoPreserve :: bool
  uoAsk :: bool
  uoSkipFinalizers :: bool

text \<open>The first package found for each of those asked for; an error of the search counts as nothing found.\<close>

fun match_packages ::
    "(default_package \<Rightarrow> default_package list res option) \<Rightarrow> bool \<Rightarrow> default_package list \<Rightarrow>
     default_package list outcome" where
  "match_packages findPackages force [] = Ok []"
| "match_packages findPackages force (p # ps) =
     (case findPackages p of
        None \<Rightarrow> Fuel
      | Some r \<Rightarrow>
         (case (case r of Inr found \<Rightarrow> found | Inl _ \<Rightarrow> []) of
            [] \<Rightarrow> if force then match_packages findPackages force ps
                  else Err (''Package '' @ HumanReadableString p @ '' not found in the system'')
          | q # _ \<Rightarrow>
              (case match_packages findPackages force ps of Ok qs \<Rightarrow> Ok (q # qs) | r \<Rightarrow> r)))"

definition removal_stone :: "string \<Rightarrow> default_package \<Rightarrow> stone" where
  "removal_stone repo p =
     Stone (no_stone\<lparr>stName := pName p, stCategory := pCategory p, stVersion := pVersion p,
        stAnnotations := Annotations (pkg_data p), stRepository := repo\<rparr>) [] [] []"

text \<open>\<open>lastErr\<close> is what the loop ends with.\<close>

fun uninstall_loop ::
    "inst_env \<Rightarrow> uninstall_opts \<Rightarrow> string \<Rightarrow> default_package list \<Rightarrow> err option \<Rightarrow> host \<Rightarrow> unit outcome \<times> host" where
  "uninstall_loop M opts root [] lastErr h = ((case lastErr of None \<Rightarrow> Ok () | Some e \<Rightarrow> Err e), h)"
| "uninstall_loop M opts root (p # ps) lastErr h =
     (case mgr_RemovePackage M (removal_stone (pRepository p) p) root (uoPreserve opts) (uoSkipFinalizers opts) (uoForce opts) h of
        (Ok _, h) \<Rightarrow> uninstall_loop M opts root ps lastErr h
      | (Err e, h) \<Rightarrow> if \<not> uoForce opts then (Err e, h) else uninstall_loop M opts root ps (Some e) h
      | r \<Rightarrow> r)"

definition removal_list ::
    "nat \<Rightarrow> uninstall_opts \<Rightarrow> bool \<Rightarrow> default_package list \<Rightarrow> default_package list \<Rightarrow> default_package list outcome" where
  "removal_list n opts answer matched world =
     (if matched = [] then Ok []
      else case (if uoNoDeps opts then Some matched
                 else map_option rtMatches (resolve_packages n world matched NewResolveRdependsTask)) of
        None \<Rightarrow> Fuel
      | Some ps \<Rightarrow> if uoAsk opts \<and> \<not> answer then Err ''Packages remove cancelled by user.'' else Ok ps)"

definition Uninstall ::
    "inst_env \<Rightarrow> nat \<Rightarrow> nat \<Rightarrow> uninstall_opts \<Rightarrow> bool \<Rightarrow> string \<Rightarrow> default_package list \<Rightarrow> host \<Rightarrow>
     unit outcome \<times> host" where
  "Uninstall M k n opts answer root packs h =
     obind (match_packages (\<lambda>p. bd_FindPackages (inDb M) k (hsDb h) p) (uoForce opts) packs, h) (\<lambda>matched h.
     obind (removal_list n opts answer matched (bd_World (hsDb h)), h) (\<lambda>ps h.
       uninstall_loop M opts root ps None h))"

section \<open>Installation and upgrade\<close>

record install_opts =
  ioForce :: bool
  ioIgnoreConflicts :: bool
  ioNoDeps :: bool
  ioPreserve :: bool
  ioAsk :: bool
  ioSkipFinalizers :: bool
  ioPretend :: bool
  ioDownloadOnly :: bool
  ioCheckSystemFiles :: bool
  ioShowInstallOrder :: bool
  ioDeep :: bool

text \<open>A repository of the configuration.\<close>

record sys_repo =
  srEnable :: bool
  srIdentity :: wagon_identity

text \<open>
  What the solver is given, the bounds of its recursions and of the order of the operations, and the
  repositories; \<open>cvLoad\<close> reads the identity of a repository in a directory.
\<close>

record command_env =
  cvSolver :: solver_env
  cvDepth :: nat
  cvThinSort :: thin_sort
  cvRounds :: nat
  cvFuel :: nat
  cvKeyedSort :: keyed_sort
  cvSearcherErr :: "err option"
  cvRepoConfs :: "repo_conf list"
  cvRepos :: "sys_repo list"
  cvLoad :: "string \<Rightarrow> wagon_identity \<Rightarrow> wagon_identity res"

fun ShowReposRevision :: "inst_env \<Rightarrow> command_env \<Rightarrow> sys_repo list \<Rightarrow> err option" where
  "ShowReposRevision M V [] = None"
| "ShowReposRevision M V (r # rs) =
     (if \<not> srEnable r then ShowReposRevision M V rs
      else case ReadWagonIdentify
             (cvLoad V (GetRepoDatabaseDirPath (icSystem (inConf M)) (wiName (srIdentity r)))) (srIdentity r) of
        Inl e \<Rightarrow> Some (''Error on read repository identity file: '' @ e)
      | Inr _ \<Rightarrow> ShowReposRevision M V rs)"

fun system_map :: "default_package list \<Rightarrow> default_package gomap \<Rightarrow> default_package gomap" where
  "system_map [] m = m"
| "system_map (p # ps) m = system_map ps (gm_set (PackageName p) p m)"

definition pkgs_ToMap :: "default_package list \<Rightarrow> default_package gomap" where
  "pkgs_ToMap ps = system_map ps []"

fun prov_map :: "default_package list \<Rightarrow> default_package gomap \<Rightarrow> default_package gomap" where
  "prov_map [] m = m"
| "prov_map (p # ps) m =
     prov_map ps (if HasProvides p then foldl (\<lambda>m pp. gm_set (PackageName pp) p m) m (Provides p) else m)"

definition install_s1 :: "default_package list \<Rightarrow> default_package list \<Rightarrow> default_package list" where
  "install_s1 syspkgs packs =
     (let spm = pkgs_ToMap syspkgs; provMap = prov_map syspkgs []
      in filter (\<lambda>p. if \<not> gm_has spm (PackageName p) then \<not> gm_has provMap (PackageName p) else False) packs)"

definition GetSystemRepository :: "sys_repo list \<Rightarrow> string \<Rightarrow> wagon_identity res" where
  "GetSystemRepository repos name =
     (case find (\<lambda>r. wiName (srIdentity r) = name) repos of
        None \<Rightarrow> Inl (''Repository '' @ name @ '' not found'')
      | Some r \<Rightarrow> Inr (srIdentity r))"

text \<open>The repositories of the artifacts downloaded.\<close>

type_synonym repos_map = "wagon_identity gomap"

definition open_repo :: "inst_env \<Rightarrow> command_env \<Rightarrow> string \<Rightarrow> repos_map \<Rightarrow> wagon_identity option \<times> repos_map" where
  "open_repo M V name m =
     (case gm_get m name of
        Some r \<Rightarrow> (Some r, m)
      | None \<Rightarrow>
         (case GetSystemRepository (cvRepos V) name of
            Inl e \<Rightarrow> (None, m)
          | Inr repo \<Rightarrow>
             (case ReadWagonIdentify (cvLoad V (GetRepoDatabaseDirPath (icSystem (inConf M)) name)) repo of
                Inl e \<Rightarrow> (None, m)
              | Inr r \<Rightarrow> (Some r, gm_set name r m))))"

text \<open>The value is whether a download failed, and the repositories.\<close>

fun download_loop ::
    "inst_env \<Rightarrow> command_env \<Rightarrow> artifact list \<Rightarrow> bool \<Rightarrow> repos_map \<Rightarrow> host \<Rightarrow> (bool \<times> repos_map) outcome \<times> host" where
  "download_loop M V [] fail m h = (Ok (fail, m), h)"
| "download_loop M V (a # as) fail m h =
     (if GetRepository a = [] then
        (Err (''Unexpected repository string for package '' @ PackageName (art_pkg a)), h)
      else case open_repo M V (GetRepository a) m of
        (None, m) \<Rightarrow> download_loop M V as True m h
      | (Some r, m) \<Rightarrow>
         (case DownloadPackage M a r h of
            (Some e, h) \<Rightarrow> download_loop M V as True m h
          | (None, h) \<Rightarrow> download_loop M V as fail m h))"

text \<open>\<open>path.Base\<close>, and the path of an artifact in the cache.\<close>

definition path_Base :: "string \<Rightarrow> string" where
  "path_Base p =
     (if p = [] then ''.''
      else
        (let q = rev (dropWhile (\<lambda>c. c = CHR ''/'') (rev p)); b = rev (takeWhile (\<lambda>c. c \<noteq> CHR ''/'') (rev q))
         in if b = [] then ''/'' else b))"

definition ResolveCachePath :: "inst_env \<Rightarrow> artifact \<Rightarrow> artifact" where
  "ResolveCachePath M a =
     a\<lparr>aCachePath := PathJoin [GetSystemPkgsCacheDirPath (icSystem (inConf M)), path_Base (aPath a)]\<rparr>"

definition sortPackages2Install ::
    "command_env \<Rightarrow> artifact list \<Rightarrow> artifact list \<Rightarrow> artifact list \<Rightarrow> operation list outcome" where
  "sortPackages2Install V p2i p2u p2r =
     (case OrderOperations (seLib (cvSolver V)) (cvThinSort V) (seOrder (cvSolver V)) (cvRounds V) (cvFuel V)
             (Some p2i) (Some p2u) (Some p2r) of
        None \<Rightarrow> Fuel
      | Some (Inl e) \<Rightarrow> Err e
      | Some (Inr r) \<Rightarrow> of_panics r)"

text \<open>\<open>opState\<close>: whether an operation failed, and the errors kept to be written at the end.\<close>

type_synonym op_state = "bool \<times> err list"

definition remove_op ::
    "inst_env \<Rightarrow> install_opts \<Rightarrow> string \<Rightarrow> operation \<Rightarrow> op_state \<Rightarrow> host \<Rightarrow> op_state outcome \<times> host" where
  "remove_op M opts root op s h =
     obind_err
       (mgr_RemovePackage M (removal_stone [] (art_pkg (opArtifact op))) root (ioPreserve opts) (ioSkipFinalizers opts)
          (ioForce opts) h)
       (\<lambda>e h. (if \<not> ioForce opts then Err e else Ok (True, snd s @ [e]), h))
       (\<lambda>_ h. (Ok s, h))"

definition op_error :: "artifact \<Rightarrow> err \<Rightarrow> err" where
  "op_error a e = PackageName (art_pkg a) @ ''::'' @ pRepository (art_pkg a) @ '' - error: '' @ e"

text \<open>The unpack, whose error is kept, and then the registration; \<open>onErr\<close> is what an error of the latter does.\<close>

definition add_op ::
    "inst_env \<Rightarrow> install_opts \<Rightarrow> string \<Rightarrow> repos_map \<Rightarrow> (artifact \<Rightarrow> err \<Rightarrow> op_state \<Rightarrow> op_state outcome) \<Rightarrow>
     operation \<Rightarrow> op_state \<Rightarrow> host \<Rightarrow> op_state outcome \<times> host" where
  "add_op M opts root m onErr op s h =
     (let a = ResolveCachePath M (opArtifact op); r = gm_get m (GetRepository a)
      in obind
           (obind_err (InstallPackage M a root h)
             (\<lambda>e h. (Ok (True, snd s @ [op_error a e]), h)) (\<lambda>_ h. (Ok s, h)))
           (\<lambda>s h. obind_err (RegisterPackage M a r (ioForce opts) h)
             (\<lambda>e h. (onErr a e s, h)) (\<lambda>_ h. (Ok s, h))))"

text \<open>The switches of \<open>Install\<close> and \<open>Upgrade\<close>: only the first ends at an error of the registration.\<close>

definition install_op ::
    "inst_env \<Rightarrow> install_opts \<Rightarrow> string \<Rightarrow> repos_map \<Rightarrow> operation \<Rightarrow> op_state \<Rightarrow> host \<Rightarrow> op_state outcome \<times> host" where
  "install_op M opts root m op s h =
     (if opAction op = RemovePackage then remove_op M opts root op s h
      else if opAction op = AddPackage then
        add_op M opts root m
          (\<lambda>a e s. if \<not> ioForce opts then Err e else Ok (True, snd s @ [e])) op s h
      else (Ok s, h))"

definition upgrade_op ::
    "inst_env \<Rightarrow> install_opts \<Rightarrow> string \<Rightarrow> repos_map \<Rightarrow> operation \<Rightarrow> op_state \<Rightarrow> host \<Rightarrow> op_state outcome \<times> host" where
  "upgrade_op M opts root m op s h =
     (if opAction op = RemovePackage then remove_op M opts root op s h
      else if opAction op = AddPackage \<or> opAction op = UpdatePackage \<or> opAction op = DowngradePackage then
        add_op M opts root m (\<lambda>a e s. Ok (True, snd s @ [op_error a e])) op s h
      else (Ok s, h))"

fun run_ops ::
    "(operation \<Rightarrow> op_state \<Rightarrow> host \<Rightarrow> op_state outcome \<times> host) \<Rightarrow> operation list \<Rightarrow> op_state \<Rightarrow> host \<Rightarrow>
     op_state outcome \<times> host" where
  "run_ops f [] s h = (Ok s, h)"
| "run_ops f (op # ops) s h = obind (f op s h) (\<lambda>s h. run_ops f ops s h)"

text \<open>The finalizers of the operations that install something.\<close>

fun run_finalizers ::
    "inst_env \<Rightarrow> string \<Rightarrow> repos_map \<Rightarrow> operation list \<Rightarrow> bool \<Rightarrow> host \<Rightarrow> bool outcome \<times> host" where
  "run_finalizers M root m [] fail h = (Ok fail, h)"
| "run_finalizers M root m (op # ops) fail h =
     (let a = ResolveCachePath M (opArtifact op)
      in obind_err (ExecuteFinalizer M a (gm_get m (GetRepository a)) True root h)
           (\<lambda>e h. run_finalizers M root m ops True h) (\<lambda>_ h. run_finalizers M root m ops fail h))"

text \<open>From the sorted operations on.\<close>

definition execute_ops ::
    "inst_env \<Rightarrow> install_opts \<Rightarrow> string \<Rightarrow> repos_map \<Rightarrow>
     (operation \<Rightarrow> op_state \<Rightarrow> host \<Rightarrow> op_state outcome \<times> host) \<Rightarrow> (string \<Rightarrow> bool) \<Rightarrow>
     operation list \<Rightarrow> host \<Rightarrow> unit outcome \<times> host" where
  "execute_ops M opts root m f finalize ops h =
     obind (run_ops f ops (False, []) h) (\<lambda>(fail, errs) h.
     obind (if \<not> ioSkipFinalizers opts then
              run_finalizers M root m (filter (\<lambda>op. finalize (opAction op)) ops) fail h
            else (Ok fail, h)) (\<lambda>fail h.
     (if fail then Err ''Something goes wrong.'' else Ok (), h)))"

text \<open>The downloads and what follows, for the packages to install, to update and to remove.\<close>

definition download_execute ::
    "inst_env \<Rightarrow> command_env \<Rightarrow> install_opts \<Rightarrow> string \<Rightarrow> artifact list \<Rightarrow> artifact list \<Rightarrow> artifact list \<Rightarrow>
     (repos_map \<Rightarrow> operation \<Rightarrow> op_state \<Rightarrow> host \<Rightarrow> op_state outcome \<times> host) \<Rightarrow> (string \<Rightarrow> bool) \<Rightarrow>
     host \<Rightarrow> unit outcome \<times> host" where
  "download_execute M V opts root p2i p2u p2r f finalize h =
     obind (download_loop M V (p2i @ p2u) False [] h) (\<lambda>(fail, m) h.
       if fail then (Err ''Error on download phase.'', h)
       else if ioDownloadOnly opts then (Ok (), h)
       else obind (sortPackages2Install V p2i p2u p2r, h) (\<lambda>ops h.
         if ioShowInstallOrder opts then (Ok (), h)
         else execute_ops M opts root m (f m) finalize ops h))"

definition solver_with :: "command_env \<Rightarrow> install_opts \<Rightarrow> bool \<Rightarrow> solver_env" where
  "solver_with V opts deep =
     (cvSolver V)\<lparr>seOpts := \<lparr>IgnoreConflicts = ioIgnoreConflicts opts, Force = ioForce opts,
                             NoDeps = ioNoDeps opts, IgnoreMasks = False, Deep = deep\<rparr>\<rparr>"

definition mgr_Install ::
    "inst_env \<Rightarrow> command_env \<Rightarrow> install_opts \<Rightarrow> bool \<Rightarrow> string \<Rightarrow> default_package list \<Rightarrow> host \<Rightarrow>
     unit outcome \<times> host" where
  "mgr_Install M V opts answer root packs h =
     (case ShowReposRevision M V (cvRepos V) of
        Some e \<Rightarrow> (Err e, h)
      | None \<Rightarrow>
         (let world = bd_World (hsDb h); pkgsToInstall = install_s1 world packs
          in if pkgsToInstall = [] then (Ok (), h)
             else
               obind (fst (Install (solver_with V opts False) (cvDepth V) (Some world) (cvSearcherErr V)
                        (cvRepoConfs V) pkgsToInstall NewSolver), h) (\<lambda>(p2i, p2r) h.
                 if p2i = [] then (Ok (), h)
                 else
                   obind (CheckFileConflicts p2i p2r (ioCheckSystemFiles opts) (ioPretend opts \<or> ioForce opts) root h)
                     (\<lambda>_ h.
                       if ioPretend opts then (Ok (), h)
                       else if ioAsk opts \<and> \<not> ioShowInstallOrder opts \<and> \<not> answer then
                         (Err ''Packages install cancelled by user.'', h)
                       else
                         download_execute M V opts root p2i [] p2r (install_op M opts root)
                           (\<lambda>action. action = AddPackage) h))))"

definition mgr_Upgrade ::
    "inst_env \<Rightarrow> command_env \<Rightarrow> install_opts \<Rightarrow> bool \<Rightarrow> string \<Rightarrow> host \<Rightarrow> unit outcome \<times> host" where
  "mgr_Upgrade M V opts answer root h =
     (case ShowReposRevision M V (cvRepos V) of
        Some e \<Rightarrow> (Err e, h)
      | None \<Rightarrow>
          obind (fst (Upgrade (solver_with V opts (ioDeep opts)) (cvDepth V) (cvKeyedSort V)
                   (Some (bd_World (hsDb h))) (cvSearcherErr V) (cvRepoConfs V) NewSolver), h) (\<lambda>packs h.
            if pkRemove packs = [] \<and> pkUpdate packs = [] \<and> pkInstall packs = [] then (Ok (), h)
            else
              obind (CheckFileConflicts (pkInstall packs @ pkUpdate packs) (pkRemove packs)
                       (ioCheckSystemFiles opts) (ioPretend opts \<or> ioForce opts) root h) (\<lambda>_ h.
                if ioPretend opts then (Ok (), h)
                else if ioAsk opts \<and> \<not> ioShowInstallOrder opts \<and> \<not> answer then
                  (Err ''Packages upgrade cancelled by user.'', h)
                else
                  download_execute M V opts root (pkInstall packs) (pkUpdate packs) (pkRemove packs)
                    (upgrade_op M opts root) (\<lambda>action. action \<noteq> RemovePackage) h)))"

end
