(* ===== verification/RdepsProofs.thy ===== *)
theory RdepsProofs
  imports Installer InstallProofs
begin

text \<open>
  The packages that a removal takes with it: the recursion over the packages that require others visits
  exactly the names reached, once each, and ends within one more call than there are names.
\<close>

section \<open>The packages that require others\<close>

definition resolved :: "rdeps_task \<Rightarrow> string set" where
  "resolved t = {k. gm_has (rtResolved t) k}"

text \<open>From a name to the names of the packages the map has for it.\<close>

definition rdep_step :: "pkgs_map \<Rightarrow> string \<Rightarrow> string \<Rightarrow> bool" where
  "rdep_step m x y \<longleftrightarrow> y \<in> PackageName ` set (pm_vals m x)"

text \<open>
  A resolution from the names \<open>xs\<close>: what it adds is reached from them, comes with the packages of the map,
  once each, and has everything that the map has for it resolved too.
\<close>

definition rdeps_post :: "default_package list \<Rightarrow> rdeps_task \<Rightarrow> rdeps_task \<Rightarrow> bool" where
  "rdeps_post ps t t' \<longleftrightarrow>
     rtRdeps t' = rtRdeps t \<and> resolved t \<subseteq> resolved t' \<and> PackageName ` set ps \<subseteq> resolved t' \<and>
     (\<forall>x y. x \<in> resolved t' - resolved t \<and> rdep_step (rtRdeps t) x y \<longrightarrow> y \<in> resolved t') \<and>
     (\<forall>x \<in> resolved t' - resolved t. \<exists>p\<in>set ps. (rdep_step (rtRdeps t))\<^sup>*\<^sup>* (PackageName p) x) \<and>
     (\<exists>ms. rtMatches t' = rtMatches t @ ms \<and> PackageName ` set ms = resolved t' - resolved t \<and>
        distinct (map PackageName ms) \<and> set ms \<subseteq> set ps \<union> (\<Union>x. set (pm_vals (rtRdeps t) x)))"

lemma IsResolved_iff [simp]: "IsResolved t p \<longleftrightarrow> PackageName p \<in> resolved t"
  by (simp add: IsResolved_def resolved_def)

lemma resolved_simps [simp]:
  "resolved (SetResolved p t) = insert (PackageName p) (resolved t)" "resolved (AddMatch p t) = resolved t"
  "rtRdeps (SetResolved p t) = rtRdeps t" "rtRdeps (AddMatch p t) = rtRdeps t"
  "rtMatches (SetResolved p t) = rtMatches t" "rtMatches (AddMatch p t) = rtMatches t @ [p]"
  by (auto simp: resolved_def SetResolved_def AddMatch_def gm_has_def)

lemma rdeps_post_refl: "PackageName ` set ps \<subseteq> resolved t \<Longrightarrow> rdeps_post ps t t"
  by (simp add: rdeps_post_def)

lemma rdeps_postD:
  assumes "rdeps_post ps t t'"
  shows "rtRdeps t' = rtRdeps t" "resolved t \<subseteq> resolved t'" "PackageName ` set ps \<subseteq> resolved t'"
    "x \<in> resolved t' \<Longrightarrow> x \<notin> resolved t \<Longrightarrow> rdep_step (rtRdeps t) x y \<Longrightarrow> y \<in> resolved t'"
    "x \<in> resolved t' \<Longrightarrow> x \<notin> resolved t \<Longrightarrow> \<exists>p\<in>set ps. (rdep_step (rtRdeps t))\<^sup>*\<^sup>* (PackageName p) x"
    "\<exists>ms. rtMatches t' = rtMatches t @ ms \<and> PackageName ` set ms = resolved t' - resolved t \<and>
        distinct (map PackageName ms) \<and> set ms \<subseteq> set ps \<union> (\<Union>x. set (pm_vals (rtRdeps t) x))"
proof -
  note all = assms [unfolded rdeps_post_def]
  show "rtRdeps t' = rtRdeps t" "resolved t \<subseteq> resolved t'" "PackageName ` set ps \<subseteq> resolved t'"
    "\<exists>ms. rtMatches t' = rtMatches t @ ms \<and> PackageName ` set ms = resolved t' - resolved t \<and>
        distinct (map PackageName ms) \<and> set ms \<subseteq> set ps \<union> (\<Union>x. set (pm_vals (rtRdeps t) x))"
    by (simp_all only: all)
  show "x \<in> resolved t' \<Longrightarrow> x \<notin> resolved t \<Longrightarrow> rdep_step (rtRdeps t) x y \<Longrightarrow> y \<in> resolved t'"
    using all by (elim conjE) simp
  show "x \<in> resolved t' \<Longrightarrow> x \<notin> resolved t \<Longrightarrow> \<exists>p\<in>set ps. (rdep_step (rtRdeps t))\<^sup>*\<^sup>* (PackageName p) x"
    using all by (elim conjE) simp
qed

lemma rdeps_post_trans:
  assumes a: "rdeps_post ps t t1" and b: "rdeps_post qs t1 t'"
  shows "rdeps_post (ps @ qs) t t'"
proof -
  note A = rdeps_postD [OF a] and B = rdeps_postD [OF b, unfolded rdeps_postD(1) [OF a]]
  from A(6) obtain ms where ms: "rtMatches t1 = rtMatches t @ ms" "PackageName ` set ms = resolved t1 - resolved t"
    "distinct (map PackageName ms)" "set ms \<subseteq> set ps \<union> (\<Union>x. set (pm_vals (rtRdeps t) x))" by blast
  from B(6) obtain ns where ns: "rtMatches t' = rtMatches t1 @ ns" "PackageName ` set ns = resolved t' - resolved t1"
    "distinct (map PackageName ns)" "set ns \<subseteq> set qs \<union> (\<Union>x. set (pm_vals (rtRdeps t) x))" by blast
  have "PackageName ` set (ms @ ns) = resolved t' - resolved t"
    unfolding set_append image_Un ms(2) ns(2) using A(2) B(2) by blast
  moreover have "distinct (map PackageName (ms @ ns))"
    using ms(3) ns(3) by (simp add: ms(2) ns(2)) blast
  moreover have "set (ms @ ns) \<subseteq> set (ps @ qs) \<union> (\<Union>x. set (pm_vals (rtRdeps t) x))" using ms(4) ns(4) by auto
  ultimately have "\<exists>ms. rtMatches t' = rtMatches t @ ms \<and> PackageName ` set ms = resolved t' - resolved t \<and>
      distinct (map PackageName ms) \<and> set ms \<subseteq> set (ps @ qs) \<union> (\<Union>x. set (pm_vals (rtRdeps t) x))"
    using ms(1) ns(1) by (intro exI [of _ "ms @ ns"]) simp
  moreover have "y \<in> resolved t'" if "x \<in> resolved t' - resolved t" "rdep_step (rtRdeps t) x y" for x y
  proof (cases "x \<in> resolved t1")
    case True
    with that A(4) B(2) show ?thesis by blast
  next
    case False
    with that B(4) show ?thesis by blast
  qed
  moreover have "\<exists>p\<in>set (ps @ qs). (rdep_step (rtRdeps t))\<^sup>*\<^sup>* (PackageName p) x" if "x \<in> resolved t' - resolved t" for x
  proof (cases "x \<in> resolved t1")
    case True
    with that A(5) [of x] show ?thesis by auto
  next
    case False
    with that B(5) [of x] show ?thesis by auto
  qed
  moreover have "rtRdeps t' = rtRdeps t" "resolved t \<subseteq> resolved t'"
    "PackageName ` set (ps @ qs) \<subseteq> resolved t'" using A(2,3) B(1,2,3) by auto
  ultimately show ?thesis unfolding rdeps_post_def by (intro conjI allI impI ballI) auto
qed

lemma rdeps_spec:
  "recursiveResolveRdep n p t = Some t' \<Longrightarrow> rdeps_post [p] t t'"
  "rdeps_loop n ds t = Some t' \<Longrightarrow> rdeps_post ds t t'"
proof (induction n p t and n ds t arbitrary: t' and t' rule: recursiveResolveRdep_rdeps_loop.induct)
  case (2 n p t)
  show ?case
  proof (cases "IsResolved t p")
    case True
    with 2 show ?thesis by (simp add: rdeps_post_refl)
  next
    case new: False
    let ?t = "AddMatch p (SetResolved p t)"
    have vals: "rdeps_post (pm_vals (rtRdeps t) (PackageName p)) ?t t'"
    proof (cases "gm_get (rtRdeps t) (PackageName p)")
      case None
      with 2 new show ?thesis by (simp add: pm_vals_def rdeps_post_refl)
    next
      case (Some val)
      with 2 new show ?thesis by (simp add: pm_vals_def)
    qed
    note V = rdeps_postD [OF vals, simplified]
    from V(6) obtain ms where ms: "rtMatches t' = rtMatches t @ p # ms"
      "PackageName ` set ms = resolved t' - insert (PackageName p) (resolved t)" "distinct (map PackageName ms)"
      "set ms \<subseteq> set (pm_vals (rtRdeps t) (PackageName p)) \<union> (\<Union>x. set (pm_vals (rtRdeps t) x))" by auto
    have own: "y \<in> resolved t'" if "rdep_step (rtRdeps t) (PackageName p) y" for y
      using that V(3) by (auto simp: rdep_step_def)
    have reach: "(rdep_step (rtRdeps t))\<^sup>*\<^sup>* (PackageName p) x" if "x \<in> resolved t' - resolved t" for x
    proof (cases "x = PackageName p")
      case False
      with that V(5) obtain q where q: "q \<in> set (pm_vals (rtRdeps t) (PackageName p))"
        "(rdep_step (rtRdeps t))\<^sup>*\<^sup>* (PackageName q) x" by blast
      from q(1) have "rdep_step (rtRdeps t) (PackageName p) (PackageName q)" by (simp add: rdep_step_def)
      from this q(2) show ?thesis by (rule converse_rtranclp_into_rtranclp)
    qed simp
    have "PackageName ` set (p # ms) = resolved t' - resolved t" using ms(2) V(2) new by auto
    moreover have "distinct (map PackageName (p # ms))" using ms(2,3) by auto
    moreover have "set (p # ms) \<subseteq> set [p] \<union> (\<Union>x. set (pm_vals (rtRdeps t) x))" using ms(4) by auto
    moreover have "y \<in> resolved t'" if "x \<in> resolved t' - resolved t" "rdep_step (rtRdeps t) x y" for x y
    proof (cases "x = PackageName p")
      case True
      with that own show ?thesis by simp
    next
      case False
      with that V(4) [of x y] show ?thesis by simp
    qed
    moreover have "\<exists>ms. rtMatches t' = rtMatches t @ ms \<and> PackageName ` set ms = resolved t' - resolved t \<and>
        distinct (map PackageName ms) \<and> set ms \<subseteq> set [p] \<union> (\<Union>x. set (pm_vals (rtRdeps t) x))"
      using calculation(1-3) ms(1) by (intro exI [of _ "p # ms"] conjI)
    ultimately show ?thesis
      unfolding rdeps_post_def using V(1,2) reach by (intro conjI allI impI ballI) auto
  qed
next
  case (4 n d ds t)
  show ?case
  proof (cases "IsResolved t d")
    case True
    with 4 have rest: "rdeps_post ds t t'" by simp
    have "rdeps_post [d] t t" using True by (simp add: rdeps_post_refl)
    from rdeps_post_trans [OF this rest] show ?thesis by simp
  next
    case False
    with "4.prems" obtain t1 where "recursiveResolveRdep n d t = Some t1" "rdeps_loop n ds t1 = Some t'"
      by (auto split: option.splits)
    with "4.IH" False rdeps_post_trans [of "[d]" t t1 ds t'] show ?thesis by simp
  qed
qed (simp_all add: rdeps_post_refl)

text \<open>The bound on the depth: one more than the names not resolved yet.\<close>

lemma rdeps_total:
  assumes "finite U"
  shows "PackageName p \<in> U \<Longrightarrow> (\<And>x. PackageName ` set (pm_vals (rtRdeps t) x) \<subseteq> U) \<Longrightarrow>
      card (U - resolved t) < n \<Longrightarrow> recursiveResolveRdep n p t \<noteq> None"
    "PackageName ` set ds \<subseteq> U \<Longrightarrow> (\<And>x. PackageName ` set (pm_vals (rtRdeps t) x) \<subseteq> U) \<Longrightarrow>
      card (U - resolved t) < n \<Longrightarrow> rdeps_loop n ds t \<noteq> None"
proof (induction n p t and n ds t rule: recursiveResolveRdep_rdeps_loop.induct)
  case (2 n p t)
  show ?case
  proof (cases "IsResolved t p")
    case new: False
    then have "U - insert (PackageName p) (resolved t) \<subset> U - resolved t" using "2.prems"(1) by auto
    then have "card (U - insert (PackageName p) (resolved t)) < card (U - resolved t)"
      using assms by (intro psubset_card_mono) auto
    with "2.prems"(3) have less: "card (U - resolved (AddMatch p (SetResolved p t))) < n" by simp
    show ?thesis
    proof (cases "gm_get (rtRdeps t) (PackageName p)")
      case (Some val)
      then have "PackageName ` set val \<subseteq> U" using "2.prems"(2) [of "PackageName p"] by (simp add: pm_vals_def)
      with "2.IH" [OF new refl] Some "2.prems"(2) less new show ?thesis by simp
    qed (use new in simp)
  qed simp
next
  case (4 n d ds t)
  show ?case
  proof (cases "IsResolved t d")
    case True
    with 4 show ?thesis by simp
  next
    case False
    with "4.IH"(1) "4.prems" obtain t1 where t1: "recursiveResolveRdep n d t = Some t1" by auto
    note post = rdeps_spec(1) [OF this]
    have "card (U - resolved t1) \<le> card (U - resolved t)"
      using rdeps_postD(2) [OF post] assms by (intro card_mono) auto
    with "4.IH"(2) [OF False t1] "4.prems" rdeps_postD(1) [OF post] False t1 show ?thesis by simp
  qed
qed simp_all

text \<open>The map built from the system: by the names a package provides or requires.\<close>

definition rdep :: "default_package list \<Rightarrow> string \<Rightarrow> string \<Rightarrow> bool" where
  "rdep system x y \<longleftrightarrow>
     (\<exists>w\<in>set system. PackageName w = y \<and> x \<in> PackageName ` (set (PackageRequires w) \<union> set (Provides w)))"

lemma AddRdep2Map_pm: "AddRdep2Map p d t = t\<lparr>rtRdeps := pm_Add (PackageName d) p (rtRdeps t)\<rparr>"
  by (simp add: AddRdep2Map_def pm_Add_def)

lemma add_rdeps_spec:
  "rtResolved (add_rdeps p ds t) = rtResolved t \<and> rtMatches (add_rdeps p ds t) = rtMatches t \<and>
   set (pm_vals (rtRdeps (add_rdeps p ds t)) x) =
     set (pm_vals (rtRdeps t) x) \<union> (if x \<in> PackageName ` set ds then {p} else {})"
proof (induction ds arbitrary: t)
  case (Cons d ds)
  from Cons.IH [of "AddRdep2Map p d t"] show ?case by (auto simp: AddRdep2Map_pm)
qed simp

lemma build_rdeps_spec:
  "rtResolved (build_rdeps ps t) = rtResolved t \<and> rtMatches (build_rdeps ps t) = rtMatches t \<and>
   set (pm_vals (rtRdeps (build_rdeps ps t)) x) =
     set (pm_vals (rtRdeps t) x) \<union> {p \<in> set ps. x \<in> PackageName ` (set (PackageRequires p) \<union> set (Provides p))}"
proof (induction ps arbitrary: t)
  case (Cons p ps)
  with Cons.IH [of "add_rdeps p (PackageRequires p) (add_rdeps p (Provides p) t)"] add_rdeps_spec [of p "PackageRequires p" "add_rdeps p (Provides p) t" x]
    add_rdeps_spec [of p "Provides p" t x] show ?case by auto
qed simp

lemma rdep_step_build:
  "rdep_step (rtRdeps (build_rdeps system (t\<lparr>rtRdeps := []\<rparr>))) = rdep system"
  by (intro ext) (auto simp: rdep_step_def rdep_def build_rdeps_spec)

lemma resolved_build [simp]: "resolved (build_rdeps system (t\<lparr>rtRdeps := []\<rparr>)) = resolved t"
  by (simp add: resolved_def build_rdeps_spec)

definition rdep_closure :: "default_package list \<Rightarrow> default_package list \<Rightarrow> string set" where
  "rdep_closure system ps = {y. \<exists>p\<in>set ps. (rdep system)\<^sup>*\<^sup>* (PackageName p) y}"

text \<open>A resolution run over all the packages asked for, from a task closed under the map.\<close>

lemma resolve_packages_spec:
  assumes U: "finite U" "PackageName ` (set system \<union> set ps) \<subseteq> U" "card U < n"
    and closed: "\<And>x y. x \<in> resolved t \<Longrightarrow> rdep system x y \<Longrightarrow> y \<in> resolved t"
  shows "\<exists>t' ms. resolve_packages n system ps t = Some t' \<and> rtMatches t' = rtMatches t @ ms \<and>
    resolved t' = resolved t \<union> rdep_closure system ps \<and> PackageName ` set ms = resolved t' - resolved t \<and>
    distinct (map PackageName ms) \<and> set ms \<subseteq> set ps \<union> set system"
  using U(2) closed
proof (induction ps arbitrary: t)
  case Nil
  then show ?case by (simp add: rdep_closure_def)
next
  case (Cons p ps)
  let ?t = "build_rdeps system (t\<lparr>rtRdeps := []\<rparr>)"
  have vals: "set (pm_vals (rtRdeps ?t) x) \<subseteq> set system" for x
    by (auto simp: build_rdeps_spec)
  have "card (U - resolved ?t) < n" using U(1,3) by (meson card_mono Diff_subset le_less_trans)
  then obtain t1 where t1: "recursiveResolveRdep n p ?t = Some t1"
    using rdeps_total(1) [OF U(1), of p ?t n] vals Cons.prems(1) by force
  note P = rdeps_postD [OF rdeps_spec(1) [OF t1], unfolded rdep_step_build, simplified]
  from P(6) obtain ms where ms: "rtMatches t1 = rtMatches t @ ms" "PackageName ` set ms = resolved t1 - resolved t"
    "distinct (map PackageName ms)" "set ms \<subseteq> insert p (set system)"
    using vals by (auto simp: build_rdeps_spec)
  have closed1: "y \<in> resolved t1" if "x \<in> resolved t1" "rdep system x y" for x y
    using that Cons.prems(2) P(2) P(4) by (cases "x \<in> resolved t") blast+
  have reach: "y \<in> resolved t1" if "(rdep system)\<^sup>*\<^sup>* (PackageName p) y" for y
    using that by induction (use P(3) closed1 in auto)
  have one: "resolved t1 = resolved t \<union> rdep_closure system [p]"
    using reach P(2) P(5) by (auto simp: rdep_closure_def)
  from Cons.IH [of t1] Cons.prems(1) closed1 obtain t' ns where
    t': "resolve_packages n system ps t1 = Some t'" "rtMatches t' = rtMatches t1 @ ns"
    "resolved t' = resolved t1 \<union> rdep_closure system ps" "PackageName ` set ns = resolved t' - resolved t1"
    "distinct (map PackageName ns)" "set ns \<subseteq> set ps \<union> set system" by auto
  have "PackageName ` set (ms @ ns) = resolved t' - resolved t"
    unfolding set_append image_Un ms(2) t'(4) using P(2) t'(3) by blast
  moreover have "distinct (map PackageName (ms @ ns))"
    using ms(3) t'(5) by (simp add: ms(2) t'(4)) blast
  moreover have "resolved t' = resolved t \<union> rdep_closure system (p # ps)"
    using t'(3) one by (auto simp: rdep_closure_def)
  moreover have "resolve_packages n system (p # ps) t = Some t'"
    using t1 t'(1) by (simp add: ResolveRuntime_def)
  moreover have "set (ms @ ns) \<subseteq> set (p # ps) \<union> set system" using ms(4) t'(6) by auto
  ultimately show ?case using ms(1) t'(2) by (intro exI [of _ t'] exI [of _ "ms @ ns"]) simp
qed

lemma resolve_new:
  assumes "card (PackageName ` (set system \<union> set ps)) < n"
  shows "\<exists>t. resolve_packages n system ps NewResolveRdependsTask = Some t \<and>
    PackageName ` set (rtMatches t) = rdep_closure system ps \<and>
    distinct (map PackageName (rtMatches t)) \<and> set (rtMatches t) \<subseteq> set ps \<union> set system"
proof -
  have "resolved NewResolveRdependsTask = {}" "rtMatches NewResolveRdependsTask = []"
    by (simp_all add: resolved_def NewResolveRdependsTask_def)
  with resolve_packages_spec [OF _ subset_refl assms, of NewResolveRdependsTask] show ?thesis by auto
qed

end
