(* ===== verification/FilesProofs.thy ===== *)
theory FilesProofs
  imports Files
begin

text \<open>
  What the removal of the files of a package does to the disk.
\<close>

section \<open>Disks\<close>

definition wf_disk :: "disk \<Rightarrow> bool" where
  "wf_disk d \<longleftrightarrow>
     (\<forall>p. p \<noteq> [] \<and> entry d p \<noteq> None \<longrightarrow>
        entry d (butlast p) = Some NDir \<and> List.last p \<noteq> ''.'' \<and> List.last p \<noteq> ''..'')"

definition disk_le :: "disk \<Rightarrow> disk \<Rightarrow> bool" where
  "disk_le d' d \<longleftrightarrow> (\<forall>p x. entry d' p = Some x \<longrightarrow> entry d p = Some x)"

lemma disk_le_refl [simp]: "disk_le d d"
  by (simp add: disk_le_def)

lemma disk_le_trans: "disk_le d'' d' \<Longrightarrow> disk_le d' d \<Longrightarrow> disk_le d'' d"
  by (simp add: disk_le_def)

lemma disk_leD: "disk_le d' d \<Longrightarrow> entry d' p = Some x \<Longrightarrow> entry d p = Some x"
  by (simp add: disk_le_def)

lemma has_entries_iff: "has_entries d q \<longleftrightarrow> (\<exists>p. p \<noteq> [] \<and> butlast p = q \<and> entry d p \<noteq> None)"
proof -
  have "has_entries d q \<longleftrightarrow> (\<exists>p\<in>fst ` set d. p \<noteq> [] \<and> butlast p = q)"
    by (simp add: has_entries_def list_ex_iff case_prod_unfold)
  also have "\<dots> \<longleftrightarrow> (\<exists>p. p \<noteq> [] \<and> butlast p = q \<and> entry d p \<noteq> None)"
    unfolding entry_def by (metis map_of_eq_None_iff)
  finally show ?thesis .
qed

lemma has_entries_mono: "disk_le d' d \<Longrightarrow> has_entries d' q \<Longrightarrow> has_entries d q"
  unfolding has_entries_iff disk_le_def by blast

lemma walk_Inr:
  assumes "c \<noteq> ''.''" "c \<noteq> ''..''"
  shows "walk d fl n b (c # cs) = Inr q \<longleftrightarrow>
    (\<exists>x. entry d (b @ [c]) = Some x \<and>
      (case x of
         NFile \<Rightarrow> cs = [] \<and> q = b @ [c]
       | NDir \<Rightarrow> walk d fl n (b @ [c]) cs = Inr q
       | NLink t \<Rightarrow> if cs = [] \<and> \<not> fl then q = b @ [c]
                  else \<exists>m. n = Suc m \<and> walk d fl m (link_base t b) (comps t @ cs) = Inr q))"
  using assms by (auto simp: walk.simps(2) split: option.splits node.splits nat.splits)

lemma walk_dot: "c = ''.'' \<or> c = ''..'' \<Longrightarrow> walk d fl n b (c # cs) = walk d fl n (if c = ''.'' then b else butlast b) cs"
  by (auto simp: walk.simps(2))

lemma walk_mono: "disk_le d' d \<Longrightarrow> walk d' fl n b cs = Inr q \<Longrightarrow> walk d fl n b cs = Inr q"
proof (induction d' fl n b cs rule: walk.induct)
  case (1 d' fl n b)
  then show ?case by (simp add: walk.simps)
next
  case (2 d' fl n b c cs)
  show ?case
  proof (cases "c = ''.'' \<or> c = ''..''")
    case True
    with 2 show ?thesis by (auto simp: walk_dot)
  next
    case False
    then have c: "c \<noteq> ''.''" "c \<noteq> ''..''" by auto
    from "2.prems"(2) obtain x where x: "entry d' (b @ [c]) = Some x" unfolding walk_Inr [OF c] by blast
    note y = disk_leD [OF "2.prems"(1) x]
    from "2.prems" x y c "2.IH"(3) [OF c x] "2.IH"(4) [OF c x] show ?thesis
      unfolding walk_Inr [OF c] by (cases x) (auto split: if_splits)
  qed
qed

lemma walk_entry: "walk d fl n b cs = Inr q \<Longrightarrow> entry d b = Some NDir \<Longrightarrow> wf_disk d \<Longrightarrow> entry d q \<noteq> None"
proof (induction d fl n b cs rule: walk.induct)
  case (1 d fl n b)
  then show ?case by (simp add: walk.simps)
next
  case (2 d fl n b c cs)
  have up: "entry d (butlast b) = Some NDir"
    using "2.prems"(2,3) by (cases "b = []") (auto simp: wf_disk_def)
  have base: "entry d (link_base t b) = Some NDir" for t
    using "2.prems"(2) by (cases "HasPrefix t ''/''") (simp_all add: link_base_def, simp add: entry_def)
  show ?case
  proof (cases "c = ''.'' \<or> c = ''..''")
    case True
    with 2 up show ?thesis by (auto simp: walk_dot)
  next
    case False
    then have c: "c \<noteq> ''.''" "c \<noteq> ''..''" by auto
    from "2.prems"(1) obtain x where x: "entry d (b @ [c]) = Some x" unfolding walk_Inr [OF c] by blast
    from "2.prems" x c base "2.IH"(3) [OF c x] "2.IH"(4) [OF c x] show ?thesis
      unfolding walk_Inr [OF c] by (cases x) (auto split: if_splits)
  qed
qed

lemma resolve_mono: "disk_le d' d \<Longrightarrow> resolve d' fl p = Inr q \<Longrightarrow> resolve d fl p = Inr q"
  unfolding resolve_def by (rule walk_mono)

lemma resolve_entry: "resolve d fl p = Inr q \<Longrightarrow> wf_disk d \<Longrightarrow> entry d q \<noteq> None"
  unfolding resolve_def by (erule walk_entry) (simp_all add: entry_def)

lemma wf_prefix: "wf_disk d \<Longrightarrow> entry d (p @ s) \<noteq> None \<Longrightarrow> s \<noteq> [] \<Longrightarrow> entry d p = Some NDir"
proof (induction s rule: rev_induct)
  case (snoc c s)
  then have "entry d (p @ s) = Some NDir" unfolding wf_disk_def by (metis append_assoc butlast_snoc snoc_eq_iff_butlast)
  with snoc show ?case by (cases "s = []") auto
qed simp

lemma wf_name: "wf_disk d \<Longrightarrow> entry d (b @ [c]) \<noteq> None \<Longrightarrow> c \<noteq> ''.'' \<and> c \<noteq> ''..''"
  unfolding wf_disk_def by (metis last_snoc snoc_eq_iff_butlast)

text \<open>A path of an entry stands for itself.\<close>

lemma walk_plain: "wf_disk d \<Longrightarrow> entry d (b @ cs) \<noteq> None \<Longrightarrow> walk d False n b cs = Inr (b @ cs)"
proof (induction cs arbitrary: b)
  case Nil
  then show ?case by (simp add: walk.simps)
next
  case (Cons c cs)
  have "entry d (b @ [c]) \<noteq> None"
    using Cons.prems wf_prefix [OF Cons.prems(1), of "b @ [c]" cs] by (cases "cs = []") auto
  from wf_name [OF Cons.prems(1) this] have c: "c \<noteq> ''.''" "c \<noteq> ''..''" by auto
  show ?case
  proof (cases "cs = []")
    case True
    with Cons.prems show ?thesis
      by (auto simp: walk_Inr [OF c] walk.simps(1) split: node.split)
  next
    case False
    with Cons.prems wf_prefix [OF Cons.prems(1), of "b @ [c]" cs] Cons.IH [of "b @ [c]"] show ?thesis
      by (simp add: walk_Inr [OF c])
  qed
qed

lemma resolve_plain: "wf_disk d \<Longrightarrow> entry d (comps p) \<noteq> None \<Longrightarrow> resolve d False p = Inr (comps p)"
  unfolding resolve_def using walk_plain [of d "[]"] by simp

section \<open>What is removed\<close>

text \<open>
  Only entries that a name of \<open>N\<close> stands for are gone, links among them not followed, and no entry is
  left without its directory.
\<close>

definition pruned :: "string set \<Rightarrow> disk \<Rightarrow> disk \<Rightarrow> bool" where
  "pruned N d d' \<longleftrightarrow> disk_le d' d \<and> wf_disk d' \<and>
     (\<forall>q. entry d q \<noteq> None \<and> entry d' q = None \<longrightarrow> (\<exists>f\<in>N. resolve d False f = Inr q))"

lemma prunedD:
  assumes "pruned N d d'"
  shows "disk_le d' d" "wf_disk d'"
    "entry d q \<noteq> None \<Longrightarrow> entry d' q = None \<Longrightarrow> \<exists>f\<in>N. resolve d False f = Inr q"
  using assms unfolding pruned_def by blast+

lemma pruned_refl: "wf_disk d \<Longrightarrow> pruned N d d"
  unfolding pruned_def by auto

lemma pruned_mono: "pruned N d d' \<Longrightarrow> N \<subseteq> N' \<Longrightarrow> pruned N' d d'"
  unfolding pruned_def by blast

lemma pruned_trans: "pruned N d d' \<Longrightarrow> pruned N d' d'' \<Longrightarrow> pruned N d d''"
  unfolding pruned_def by (metis disk_le_trans resolve_mono)

lemma wf_childless: "wf_disk d' \<Longrightarrow> entry d' q = None \<Longrightarrow> \<not> has_entries d' q"
  unfolding has_entries_iff wf_disk_def by fastforce

lemma entry_delete: "q \<noteq> [] \<Longrightarrow> entry (AList.delete q d) p = (if p = q then None else entry d p)"
  by (auto simp: entry_def delete_conv)

lemma os_Remove_pruned:
  assumes "wf_disk d"
  shows "pruned {f} d (os_Remove f d)"
proof (cases "resolve d False f")
  case (Inl e)
  then show ?thesis using assms by (simp add: os_Remove_def pruned_refl)
next
  case (Inr q)
  show ?thesis
  proof (cases "q = [] \<or> entry d q = Some NDir \<and> has_entries d q")
    case True
    then show ?thesis using assms Inr by (simp add: os_Remove_def pruned_refl)
  next
    case False
    then have q: "q \<noteq> []" and out: "os_Remove f d = AList.delete q d" using Inr by (auto simp: os_Remove_def)
    note del = entry_delete [OF q]
    have childless: "\<not> has_entries d q"
      using False assms unfolding has_entries_iff wf_disk_def by fastforce
    have "wf_disk (AList.delete q d)"
      using assms childless unfolding wf_disk_def has_entries_iff del by auto
    then show ?thesis using Inr unfolding pruned_def out disk_le_def del by auto
  qed
qed

lemma os_Remove_gone:
  assumes "resolve d False f = Inr q" "q \<noteq> []" "entry d q \<noteq> Some NDir \<or> \<not> has_entries d q"
  shows "entry (os_Remove f d) q = None"
  using assms by (auto simp: os_Remove_def entry_delete)

section \<open>The phases of the removal\<close>

lemma Lstat_Inr: "os_Lstat d p = Inr x \<Longrightarrow> \<exists>q. resolve d False p = Inr q \<and> the (entry d q) = x"
  by (cases "resolve d False p") (auto simp: os_Lstat_def)

definition removable :: "inst_conf \<Rightarrow> config_protect \<Rightarrow> string \<Rightarrow> bool \<Rightarrow> string list \<Rightarrow> string set" where
  "removable C cp root preserve files =
     (\<lambda>f. PathJoin [root, f]) ` {f \<in> set files. \<not> keep_protected C cp f \<and> \<not> (preserve \<and> essential C f)}"

text \<open>The directories above a file that the removal of the file adds to those looked at.\<close>

definition parents :: "string \<Rightarrow> string \<Rightarrow> string list" where
  "parents root f =
     (let words = SplitChar CHR ''/'' (PathDir (PathJoin [root, f])) in parent_dirs root words (length words))"

lemma gm_keys_set: "set (gm_keys (gm_set k v m)) = insert k (set (gm_keys m))"
  by (rule set_eqI) (simp add: gm_has_def)

lemma gm_keys_add_dirs: "set (gm_keys (add_dirs cs m)) = set cs \<union> set (gm_keys m)"
proof (induction cs arbitrary: m)
  case (Cons c cs)
  show ?case
  proof (cases "gm_has m c")
    case True
    then have "c \<in> set (gm_keys m)" by simp
    with True show ?thesis by (simp add: Cons.IH insert_absorb)
  next
    case False
    then show ?thesis by (simp add: Cons.IH gm_keys_set)
  qed
qed simp

lemma gm_keys_mark_dirs: "set (gm_keys (mark_dirs cs m)) = set cs \<union> set (gm_keys m)"
  by (induction cs arbitrary: m) (simp_all add: gm_keys_set del: set_gm_keys)

lemma remove_file_spec:
  assumes "wf_disk d"
  shows "pruned (removable C cp root preserve [f]) d (fst (remove_file C cp root preserve f d m)) \<and>
    set (gm_keys (snd (remove_file C cp root preserve f d m))) \<subseteq> set (gm_keys m) \<union> set (parents root f)"
proof (cases "keep_protected C cp f \<or> preserve \<and> essential C f")
  case True
  then have "remove_file C cp root preserve f d m = (d, m)" by (auto simp: remove_file_def Let_def)
  then show ?thesis using assms by (simp add: pruned_refl)
next
  case False
  then have rm: "removable C cp root preserve [f] = {PathJoin [root, f]}" by (auto simp: removable_def)
  show ?thesis
    using False assms os_Remove_pruned [OF assms, of "PathJoin [root, f]"] unfolding rm
    by (auto simp: remove_file_def pruned_refl parents_def Let_def gm_keys_add_dirs split: sum.split)
qed

lemma removable_mono: "set fs \<subseteq> set gs \<Longrightarrow> removable C cp root preserve fs \<subseteq> removable C cp root preserve gs"
  by (auto simp: removable_def)

lemma remove_files_spec:
  assumes "wf_disk d"
  shows "pruned (removable C cp root preserve fs) d (fst (remove_files C cp root preserve fs d m)) \<and>
    set (gm_keys (snd (remove_files C cp root preserve fs d m))) \<subseteq> set (gm_keys m) \<union> (\<Union>f\<in>set fs. set (parents root f))"
  using assms
proof (induction fs arbitrary: d m)
  case Nil
  then show ?case by (simp add: pruned_refl)
next
  case (Cons f fs)
  obtain d1 m1 where one: "remove_file C cp root preserve f d m = (d1, m1)" by (cases "remove_file C cp root preserve f d m")
  have first: "pruned (removable C cp root preserve [f]) d d1" "set (gm_keys m1) \<subseteq> set (gm_keys m) \<union> set (parents root f)"
    using remove_file_spec [OF Cons.prems, of C cp root preserve f m] one by auto
  have rest: "pruned (removable C cp root preserve fs) d1 (fst (remove_files C cp root preserve fs d1 m1))"
    "set (gm_keys (snd (remove_files C cp root preserve fs d1 m1))) \<subseteq> set (gm_keys m1) \<union> (\<Union>f\<in>set fs. set (parents root f))"
    using Cons.IH [OF prunedD(2) [OF first(1)]] by blast+
  have "pruned (removable C cp root preserve (f # fs)) d (fst (remove_files C cp root preserve fs d1 m1))"
    by (rule pruned_trans; rule pruned_mono, (rule first(1) rest(1))) (rule removable_mono, force)+
  with first(2) rest(2) one show ?case by auto
qed

lemma remove_missing_id:
  assumes "\<And>f. f \<in> set fs \<Longrightarrow> \<exists>e. resolve d False (PathJoin [root, f]) = Inl e"
  shows "remove_missing C cp root fs d = d"
  using assms
proof (induction fs)
  case (Cons f fs)
  have "os_Remove (PathJoin [root, f]) d = d" using Cons.prems [of f] by (auto simp: os_Remove_def)
  then show ?case using Cons by (simp add: if_distrib cong: if_cong)
qed simp

lemma remove_missing_le:
  "wf_disk d \<Longrightarrow> wf_disk (remove_missing C cp root fs d) \<and> disk_le (remove_missing C cp root fs d) d"
proof (induction fs arbitrary: d)
  case (Cons f fs)
  let ?d = "if keep_protected C cp f then d else os_Remove (PathJoin [root, f]) d"
  have "wf_disk ?d" "disk_le ?d d" using prunedD(1,2) [OF os_Remove_pruned [OF Cons.prems]] Cons.prems by auto
  with Cons.IH [of ?d] show ?case using disk_le_trans by (simp only: remove_missing.simps) blast
qed simp

text \<open>The names of the third phase that are not passed over.\<close>

definition prunable :: "inst_conf \<Rightarrow> config_protect \<Rightarrow> string \<Rightarrow> bool \<Rightarrow> string set \<Rightarrow> string set" where
  "prunable C cp root preserve cs =
     {f \<in> (\<lambda>c. PathJoin [root, c]) ` cs. \<not> keep_protected C cp f \<and>
        \<not> HasPrefix f (GetSystemRepoDatabaseDirPath (icSystem C)) \<and>
        \<not> (preserve \<and> HasPrefix f (GetSystemPkgsCacheDirPath (icSystem C)))}"

lemma remove_dir_pruned:
  assumes "wf_disk d"
  shows "pruned (prunable C cp root preserve {c}) d (remove_dir C cp root preserve c d)"
proof (cases "PathJoin [root, c] \<in> prunable C cp root preserve {c}")
  case True
  then have "pruned (prunable C cp root preserve {c}) d (os_Remove (PathJoin [root, c]) d)"
    using os_Remove_pruned [OF assms] pruned_mono by blast
  then show ?thesis using pruned_refl [OF assms] by (simp add: remove_dir_def Let_def)
next
  case False
  then have "remove_dir C cp root preserve c d = d" by (auto simp: remove_dir_def prunable_def Let_def)
  then show ?thesis using pruned_refl [OF assms] by simp
qed

lemma prunable_mono: "cs \<subseteq> cs' \<Longrightarrow> prunable C cp root preserve cs \<subseteq> prunable C cp root preserve cs'"
  unfolding prunable_def by blast

lemma remove_dirs_pruned:
  "wf_disk d \<Longrightarrow> pruned (prunable C cp root preserve (set cs)) d (remove_dirs C cp root preserve cs d)"
proof (induction cs arbitrary: d)
  case Nil
  then show ?case by (simp add: pruned_refl)
next
  case (Cons c cs)
  let ?d1 = "remove_dir C cp root preserve c d"
  have one: "pruned (prunable C cp root preserve {c}) d ?d1" by (rule remove_dir_pruned [OF Cons.prems])
  have rest: "pruned (prunable C cp root preserve (set cs)) ?d1 (remove_dirs C cp root preserve cs ?d1)"
    by (rule Cons.IH [OF prunedD(2) [OF one]])
  have "prunable C cp root preserve {c} \<subseteq> prunable C cp root preserve (set (c # cs))"
    "prunable C cp root preserve (set cs) \<subseteq> prunable C cp root preserve (set (c # cs))"
    using prunable_mono [of "{c}" "set (c # cs)" C cp root preserve]
      prunable_mono [of "set cs" "set (c # cs)" C cp root preserve] by (simp_all add: subset_insertI)
  with pruned_trans [OF pruned_mono [OF one] pruned_mono [OF rest]] show ?case by simp
qed

lemma order_loop_spec:
  assumes "order_loop d target files = (newFiles, dirs, absent)"
  shows "set dirs = {f \<in> set files. os_Lstat d (PathJoin [target, f]) = Inr NDir} \<and>
    set absent = {f \<in> set files. isl (os_Lstat d (PathJoin [target, f]))} \<and>
    set newFiles = set files - set dirs - set absent"
  using assms
proof (induction files arbitrary: newFiles dirs absent)
  case (Cons f fs)
  obtain ns ds ms where rec: "order_loop d target fs = (ns, ds, ms)" by (cases "order_loop d target fs")
  show ?case
  proof (cases "os_Lstat d (PathJoin [target, f])")
    case (Inl e)
    with Cons.prems rec Cons.IH [OF rec] show ?thesis by auto
  next
    case (Inr x)
    with Cons.prems rec Cons.IH [OF rec] show ?thesis by (cases x) auto
  qed
qed simp

lemma Lstat_missing: "isl (os_Lstat d p) \<longleftrightarrow> (\<exists>e. resolve d False p = Inl e)"
  by (cases "resolve d False p") (auto simp: os_Lstat_def)

definition pruned_names :: "inst_conf \<Rightarrow> config_protect \<Rightarrow> string \<Rightarrow> bool \<Rightarrow> string list \<Rightarrow> string set" where
  "pruned_names C cp root preserve files =
     prunable C cp root preserve (set files \<union> (\<Union>f\<in>set files. set (parents root f)))"

lemma removed_file_gone:
  assumes "wf_disk d" "f \<in> set fs" "\<not> keep_protected C cp f" "\<not> (preserve \<and> essential C f)"
    and "comps (PathJoin [root, f]) = q" "entry d q \<noteq> Some NDir"
  shows "entry (fst (remove_files C cp root preserve fs d m)) q = None"
  using assms
proof (induction fs arbitrary: d m)
  case (Cons g fs)
  obtain d1 m1 where one: "remove_file C cp root preserve g d m = (d1, m1)" by (cases "remove_file C cp root preserve g d m")
  have le: "pruned (removable C cp root preserve [g]) d d1"
    using remove_file_spec [OF Cons.prems(1), of C cp root preserve g m] one by simp
  have rest: "disk_le (fst (remove_files C cp root preserve fs d1 m1)) d1"
    using remove_files_spec [OF prunedD(2) [OF le], of C cp root preserve fs m1] prunedD(1) by blast
  note stays = disk_leD [OF rest, of q]
  show ?case
  proof (cases "entry d1 q")
    case None
    then show ?thesis using stays one by (cases "entry (fst (remove_files C cp root preserve fs d1 m1)) q") auto
  next
    case (Some x)
    then have old: "entry d q = Some x" using prunedD(1) [OF le] by (rule disk_leD [rotated])
    have "g \<noteq> f"
    proof
      assume "g = f"
      have root: "q \<noteq> []" using Cons.prems(6) by (auto simp: entry_def)
      have res: "resolve d False (PathJoin [root, f]) = Inr q"
        using resolve_plain [OF Cons.prems(1), of "PathJoin [root, f]"] old unfolding Cons.prems(5) by simp
      then have stat: "os_Lstat d (PathJoin [root, f]) = Inr x" using old by (simp add: os_Lstat_def)
      have "d1 = os_Remove (PathJoin [root, f]) d"
        using one Cons.prems(3,4,6) \<open>g = f\<close> stat old by (auto simp: remove_file_def Let_def)
      then have "entry d1 q = None" using os_Remove_gone [OF res root] Cons.prems(6) by simp
      with Some show False by simp
    qed
    then have "f \<in> set fs" using Cons.prems(2) by simp
    then show ?thesis
      using Cons.IH [OF prunedD(2) [OF le], of m1] Cons.prems Some old one by simp
  qed
qed simp

text \<open>The third phase looks at the package's own directories and those above the files removed.\<close>

lemma remove_phases_spec:
  assumes wf: "wf_disk d" and srt: "set (icDirSort C deeper (fst (snd (order_loop d root files)))) =
      set (fst (snd (order_loop d root files)))"
  shows "pruned (removable C cp root preserve files \<union> pruned_names C cp root preserve files) d
      (remove_phases C cp root preserve files d)"
proof -
  obtain toRemove dirs absent where ord: "order_loop d root files = (toRemove, dirs, absent)"
    by (cases "order_loop d root files")
  note spec = order_loop_spec [OF ord]
  define fs where "fs = rev (sort toRemove)"
  have fs: "set fs \<subseteq> set files" using spec by (auto simp: fs_def)
  obtain d1 m where one: "remove_files C cp root preserve fs d (mark_dirs (icDirSort C deeper dirs) []) = (d1, m)"
    by (cases "remove_files C cp root preserve fs d (mark_dirs (icDirSort C deeper dirs) [])")
  have p1: "pruned (removable C cp root preserve fs) d d1"
    and keys: "set (gm_keys m) \<subseteq> set (icDirSort C deeper dirs) \<union> (\<Union>f\<in>set fs. set (parents root f))"
    using remove_files_spec [OF wf, of C cp root preserve fs "mark_dirs (icDirSort C deeper dirs) []"] one
    by (simp_all add: gm_keys_mark_dirs del: set_gm_keys) (simp add: gm_keys_def)
  have "\<exists>e. resolve d1 False (PathJoin [root, f]) = Inl e" if "f \<in> set absent" for f
    using that spec Lstat_missing [of d "PathJoin [root, f]"] resolve_mono [OF prunedD(1) [OF p1]]
    by (cases "resolve d1 False (PathJoin [root, f])") force+
  then have two: "remove_missing C cp root absent d1 = d1" by (rule remove_missing_id)
  have "set (gm_keys m) \<subseteq> set files \<union> (\<Union>f\<in>set files. set (parents root f))"
    using keys fs srt spec by (auto simp: ord simp del: set_gm_keys)
  then have "pruned (pruned_names C cp root preserve files) d1
      (remove_dirs C cp root preserve (rev (sort (gm_keys m))) d1)"
    using remove_dirs_pruned [OF prunedD(2) [OF p1], of C cp root preserve "rev (sort (gm_keys m))"]
    unfolding pruned_names_def by (rule_tac pruned_mono, simp, rule_tac prunable_mono, simp)
  moreover have "remove_phases C cp root preserve files d = remove_dirs C cp root preserve (rev (sort (gm_keys m))) d1"
    using ord one two by (simp add: remove_phases_def OrderFiles_def fs_def)
  moreover have "pruned (removable C cp root preserve files) d d1" by (rule pruned_mono [OF p1 removable_mono [OF fs]])
  ultimately show ?thesis by (metis pruned_mono pruned_trans sup_ge1 sup_ge2)
qed

lemma phases_file_gone:
  assumes wf: "wf_disk d" and f: "f \<in> set files" "\<not> keep_protected C cp f" "\<not> (preserve \<and> essential C f)"
    and nodir: "entry d (comps (PathJoin [root, f])) \<noteq> Some NDir"
  shows "entry (remove_phases C cp root preserve files d) (comps (PathJoin [root, f])) = None"
proof (rule ccontr)
  let ?q = "comps (PathJoin [root, f])"
  assume "\<not> ?thesis"
  obtain toRemove dirs absent where ord: "order_loop d root files = (toRemove, dirs, absent)"
    by (cases "order_loop d root files")
  define fs where "fs = rev (sort toRemove)"
  obtain d1 m where one: "remove_files C cp root preserve fs d (mark_dirs (icDirSort C deeper dirs) []) = (d1, m)"
    by (cases "remove_files C cp root preserve fs d (mark_dirs (icDirSort C deeper dirs) [])")
  have p1: "pruned (removable C cp root preserve fs) d d1"
    using remove_files_spec [OF wf, of C cp root preserve fs "mark_dirs (icDirSort C deeper dirs) []"] one by simp
  have out: "remove_phases C cp root preserve files d =
      remove_dirs C cp root preserve (rev (sort (gm_keys m))) (remove_missing C cp root absent d1)"
    using ord one by (simp add: remove_phases_def OrderFiles_def fs_def)
  have le: "disk_le (remove_phases C cp root preserve files d) d1" "disk_le d1 d"
    using remove_dirs_pruned remove_missing_le prunedD p1 disk_le_trans unfolding out by metis+
  with \<open>\<not> ?thesis\<close> have d1: "entry d1 ?q \<noteq> None" and d: "entry d ?q \<noteq> None" unfolding disk_le_def by fastforce+
  have "resolve d False (PathJoin [root, f]) = Inr ?q" by (rule resolve_plain [OF wf d])
  with nodir d have "f \<in> set toRemove"
    using order_loop_spec [OF ord] f(1) by (auto simp: os_Lstat_def)
  then have "f \<in> set fs" by (simp add: fs_def)
  from removed_file_gone [OF wf this f(2,3) refl nodir] d1 one show False by (metis fst_conv)
qed

text \<open>
  C6: The removal of the files of a package takes from the disk only what a file of the package stands
  for, not protected and not part of the package manager's own data, or what a directory of the package
  or above one of its files stands for, not protected and outside the database; nothing is left without
  its directory, so that a directory goes only when it is empty; and each file of the package that is on
  the disk under its own name is gone unless it is protected.
\<close>

theorem removePackageFiles_safe:
  assumes "wf_disk d" "go_sort (icDirSort C)" "removePackageFiles C db s root preserve d = (Ok (), d')"
  shows "\<exists>files cp. package_files db s = Inr files \<and> protect_files C (st_ToPackage s) files = Returns cp \<and>
    wf_disk d' \<and> disk_le d' d \<and>
    (\<forall>q. entry d q \<noteq> None \<and> entry d' q = None \<longrightarrow>
       (\<exists>f \<in> removable C cp root preserve files \<union> pruned_names C cp root preserve files.
          resolve d False f = Inr q)) \<and>
    (\<forall>f\<in>set files. \<not> keep_protected C cp f \<and> \<not> (preserve \<and> essential C f) \<and>
       entry d (comps (PathJoin [root, f])) \<noteq> Some NDir \<longrightarrow> entry d' (comps (PathJoin [root, f])) = None)"
proof -
  from assms(3) obtain files cp where files: "package_files db s = Inr files"
    and cp: "protect_files C (st_ToPackage s) files = Returns cp"
    and d': "d' = remove_phases C cp root preserve files d"
    by (auto simp: removePackageFiles_def split: sum.splits panics.splits)
  have "set (icDirSort C deeper (fst (snd (order_loop d root files)))) = set (fst (snd (order_loop d root files)))"
    by (rule go_sort.srt_set [OF assms(2)])
  note pr = remove_phases_spec [OF assms(1) this, of cp preserve, folded d']
  have "entry d' (comps (PathJoin [root, f])) = None"
    if "f \<in> set files" "\<not> keep_protected C cp f" "\<not> (preserve \<and> essential C f)"
      "entry d (comps (PathJoin [root, f])) \<noteq> Some NDir" for f
    unfolding d' using assms(1) that by (rule phases_file_gone)
  with files cp prunedD [OF pr] show ?thesis by (intro exI [of _ files] exI [of _ cp]) auto
qed

section \<open>Examples\<close>

definition demo_conf :: inst_conf where
  "demo_conf =
     \<lparr>icProtectSkip = False, icProtectConfs = [[''/etc'']],
      icSystem = \<lparr>scRootfs = ''/'', scDatabasePath = ''var/luet'', scPkgsCachePath = ''packages'', scTemp = ''/tmp/c''\<rparr>,
      icDirSort = insertion_sort\<rparr>"

definition demo_stone :: "string list \<Rightarrow> stone" where
  "demo_stone files = Stone (no_stone\<lparr>stName := ''a'', stCategory := ''c'', stVersion := ''1'', stFiles := files\<rparr>) [] [] []"

definition demo_disk :: disk where
  "demo_disk = [([''etc''], NDir), ([''etc'', ''a''], NFile), ([''usr''], NDir), ([''usr'', ''x''], NFile)]"

lemma demo_wf: "wf_disk demo_disk"
  unfolding wf_disk_def demo_disk_def entry_def by (auto split: if_splits)

lemma demo_removed:
  "removePackageFiles demo_conf NewBoltDatabase (demo_stone [''etc/a'', ''usr/x'']) ''/'' True demo_disk =
     (Ok (), [([''etc''], NDir), ([''etc'', ''a''], NFile)])"
  by code_simp

lemma removePackageFiles_safe_witness:
  "\<exists>files. package_files NewBoltDatabase (demo_stone [''etc/a'', ''usr/x'']) = Inr files \<and>
     wf_disk [([''etc''], NDir), ([''etc'', ''a''], NFile)]"
  using removePackageFiles_safe [OF demo_wf _ demo_removed] isort.go_sort_axioms
  by (auto simp: demo_conf_def)

definition link_disk :: disk where
  "link_disk =
     [([''lib''], NLink ''usr/lib''), ([''usr''], NDir), ([''usr'', ''lib''], NDir),
      ([''usr'', ''lib'', ''x''], NFile), ([''usr'', ''lib'', ''y''], NFile)]"

definition mnt_disk :: disk where
  "mnt_disk = [([''mnt''], NDir), ([''mnt'', ''usr''], NDir), ([''mnt'', ''usr'', ''x''], NFile)]"

text \<open>
  When the directory above a file of the package is reached through a symbolic link, the removal of
  the file deletes the link, which is no file of the package and over which another file was reached;
  and under a rootfs other than the root a directory left empty stays, the rootfs being put twice before
  its name.
\<close>

theorem removePackageFiles_unlinks:
  "\<exists>d' m'. removePackageFiles demo_conf NewBoltDatabase (demo_stone [''lib/x'']) ''/'' True link_disk = (Ok (), d') \<and>
    os_Lstat link_disk ''/lib'' = Inr (NLink ''usr/lib'') \<and> os_Lstat d' ''/lib'' = Inl ENOENT \<and>
    os_Lstat link_disk ''/lib/y'' = Inr NFile \<and> os_Lstat d' ''/lib/y'' = Inl ENOENT \<and>
    removePackageFiles demo_conf NewBoltDatabase (demo_stone [''usr/x'']) ''/mnt'' True mnt_disk = (Ok (), m') \<and>
    os_Lstat m' ''/mnt/usr'' = Inr NDir \<and> \<not> dir_has_files m' ''/mnt/usr''"
proof -
  have "removePackageFiles demo_conf NewBoltDatabase (demo_stone [''lib/x'']) ''/'' True link_disk =
      (Ok (), [([''usr''], NDir), ([''usr'', ''lib''], NDir), ([''usr'', ''lib'', ''y''], NFile)])"
    "removePackageFiles demo_conf NewBoltDatabase (demo_stone [''usr/x'']) ''/mnt'' True mnt_disk =
      (Ok (), [([''mnt''], NDir), ([''mnt'', ''usr''], NDir)])"
    by code_simp+
  moreover have "os_Lstat link_disk ''/lib'' = Inr (NLink ''usr/lib'')" "os_Lstat link_disk ''/lib/y'' = Inr NFile"
    "os_Lstat [([''usr''], NDir), ([''usr'', ''lib''], NDir), ([''usr'', ''lib'', ''y''], NFile)] ''/lib'' = Inl ENOENT"
    "os_Lstat [([''usr''], NDir), ([''usr'', ''lib''], NDir), ([''usr'', ''lib'', ''y''], NFile)] ''/lib/y'' = Inl ENOENT"
    "os_Lstat [([''mnt''], NDir), ([''mnt'', ''usr''], NDir)] ''/mnt/usr'' = Inr NDir"
    "\<not> dir_has_files [([''mnt''], NDir), ([''mnt'', ''usr''], NDir)] ''/mnt/usr''"
    by code_simp+
  ultimately show ?thesis by blast
qed

end
