(* ===== verification/UpgradeProofs.thy ===== *)
theory UpgradeProofs
  imports SolverUpgrade
begin

text \<open>
  What an upgrade guarantees: the maps of the system are not touched while candidates are checked,
  only installed packages are removed, an update replaces the installed package of its name, and
  each candidate is acted on; and that it returns.
\<close>

section \<open>The maps of the system stay\<close>

definition keeps :: "solver_state \<Rightarrow> 'a outcome \<times> solver_state \<Rightarrow> bool" where
  "keeps st x \<longleftrightarrow> systemMap (snd x) = systemMap st \<and> conflictsMap (snd x) = conflictsMap st \<and>
     requiresMap (snd x) = requiresMap st"

named_theorems keeps_intros "operations that leave the maps of the system as they are"

lemma keeps_return [keeps_intros]: "keeps st (r, st)"
  by (simp add: keeps_def)

lemma keeps_trans: "keeps st (r, st1) \<Longrightarrow> keeps st1 x \<Longrightarrow> keeps st x"
  by (simp add: keeps_def)

lemma keeps_obind [keeps_intros]:
  assumes "keeps st m" "\<And>a st1. keeps st1 (f a st1)"
  shows "keeps st (obind m f)"
proof (cases m)
  case (Pair r st1)
  with assms keeps_trans show ?thesis by (cases r) (auto simp: keeps_def)
qed

lemma keeps_obind_err [keeps_intros]:
  assumes "keeps st m" "\<And>a st1. keeps st1 (f a st1)" "\<And>e st1. keeps st1 (g e st1)"
  shows "keeps st (obind_err m g f)"
proof (cases m)
  case (Pair r st1)
  with assms keeps_trans show ?thesis by (cases r) (auto simp: keeps_def)
qed

lemma keeps_avail [keeps_intros]: "keeps st (r, st\<lparr>availableArtsMap := am\<rparr>)"
  by (simp add: keeps_def)

lemma keeps_add_candidate [keeps_intros]: "keeps st (r, add_candidate k as st)"
  by (simp add: keeps_def add_candidate_def split: list.split)

lemma keeps_queue [keeps_intros]: "keeps st (artefactAdmitByQueue E a st)"
  by (simp add: keeps_def artefactAdmitByQueue_def next_range_def)

lemma keeps_sorted [keeps_intros]: "keeps st (sorted_versions E k st)"
  by (auto simp: sorted_versions_def intro!: keeps_intros split: option.splits sum.splits panics.splits)

lemma keeps_search [keeps_intros]: "keeps st (search_dep E p st)" "keeps st (search_dep4 E p st)"
  by (auto simp: search_dep_def search_dep4_def intro!: keeps_intros split: option.splits sum.splits panics.splits)

lemma keeps_lookup [keeps_intros]: "keeps st (lookup_dep E p st)"
  by (auto simp: lookup_dep_def sort_available_def intro!: keeps_intros)

lemma keeps_resolve [keeps_intros]:
  "keeps st (resolvePackage E n pkgstr stack st)"
  "keeps st (versions_loop E n arts stack banned st)"
  "keeps st (deps_loop E n candidate ps stack st)"
proof (induction E n pkgstr stack st and E n arts stack banned st and E n candidate ps stack st
    rule: resolvePackage_versions_loop_deps_loop.induct)
  case (2 E n pkgstr stack st)
  then show ?case
    by (auto intro!: keeps_intros split: sum.splits)
next
  case (4 E n art arts stack banned st)
  then show ?case by (auto intro!: keeps_intros)
next
  case (6 E n candidate p ps stack st)
  then show ?case by (auto intro!: keeps_intros split: option.splits)
qed (auto intro: keeps_intros)
lemma keeps_deps4 [keeps_intros]: "keeps st (deps4_loop E n candidate ps stack st)"
  by (induction E n candidate ps stack st rule: deps4_loop.induct)
     (auto intro!: keeps_intros split: option.splits)

lemma keeps_try [keeps_intros]: "keeps st (try_version E n reject art stack st)"
  by (auto simp: try_version_def processArtefactDeps4Upgrade_def intro!: keeps_intros)

lemma keeps_consider [keeps_intros]: "keeps st (consider_version E n dp art stack banned foundEqual st)"
  by (auto simp: consider_version_def processArtefactDeps4Upgrade_def intro!: keeps_intros
      split: option.splits sum.splits)

lemma keeps_candidates [keeps_intros]: "keeps st (candidates_loop E n dp arts stack banned foundEqual st)"
  by (induction E n dp arts stack banned foundEqual st rule: candidates_loop.induct)
     (auto intro!: keeps_intros split: verdict.split)

lemma keeps_if: "keeps st (r, st1) \<Longrightarrow> keeps st (r, st2) \<Longrightarrow> keeps st (r, if b then st1 else st2)"
  by simp

lemma keeps_check [keeps_intros]: "keeps st (checkCandidate2Upgrade E n k stack st)"
  by (auto simp: checkCandidate2Upgrade_def intro!: keeps_intros split: option.splits list.splits)

lemma keeps_check_all [keeps_intros]: "keeps st (check_all E n ks st)"
  by (induction E n ks st rule: check_all.induct) (auto intro!: keeps_intros)

lemma keeps_analyze: "keeps st (analyzeInstalledPackages E err1 st)"
  by (cases "analyze_loop (checkInstalledPackage E (nil_map (seRepos st)))
        (installed_firsts (st_range E st (systemMap st))) False []";
      cases "fst (analyze_loop (checkInstalledPackage E (nil_map (seRepos st)))
        (installed_firsts (st_range E st (systemMap st))) False [])")
     (auto simp: analyzeInstalledPackages_def keeps_def next_range_def split: option.splits)

section \<open>The plan of an upgrade\<close>

text \<open>
  Every removal is of an installed package and every update comes with the removal of the installed
  package of its name.
\<close>

definition plan_ok :: "default_package list \<Rightarrow> packs \<Rightarrow> bool" where
  "plan_ok world k \<longleftrightarrow>
     (\<forall>r\<in>set (pkRemove k). \<exists>p\<in>set world. r = art_remove p) \<and>
     (\<forall>u\<in>set (pkUpdate k). \<exists>p\<in>set world. PackageName p = PackageName (art_pkg u) \<and>
        art_remove p \<in> set (pkRemove k))"

definition sys_of :: "default_package list \<Rightarrow> pkgs_map \<Rightarrow> bool" where
  "sys_of world sys \<longleftrightarrow> (\<forall>k v vs. gm_get sys k = Some (v # vs) \<longrightarrow> v \<in> set world \<and> PackageName v = k)"

lemma sys_ofD: "sys_of world sys \<Longrightarrow> gm_get sys k = Some (v # vs) \<Longrightarrow> v \<in> set world \<and> PackageName v = k"
  unfolding sys_of_def by blast

lemma prepare_sys_of: "sys_of world (systemMap (prepareConflictsAndSystemMap E world w st))"
proof -
  have vals: "pm_vals (systemMap (prepareConflictsAndSystemMap E world w st)) k =
      filter (\<lambda>q. PackageName q = k) world" for k
    by (simp add: prepareConflictsAndSystemMap_def Let_def prepare_all_system)
  show ?thesis
    unfolding sys_of_def
  proof (intro allI impI)
    fix k v vs
    assume "gm_get (systemMap (prepareConflictsAndSystemMap E world w st)) k = Some (v # vs)"
    then have "filter (\<lambda>q. PackageName q = k) world = v # vs"
      using vals [of k] by (simp add: pm_vals_def)
    then have "v \<in> set (filter (\<lambda>q. PackageName q = k) world)" by simp
    then show "v \<in> set world \<and> PackageName v = k" by simp
  qed
qed

lemma plan_remove: "plan_ok world k \<Longrightarrow> v \<in> set world \<Longrightarrow> plan_ok world (add_remove v k)"
  by (auto simp: plan_ok_def add_remove_def)

lemma plan_install: "plan_ok world k \<Longrightarrow> plan_ok world (k\<lparr>pkInstall := as\<rparr>)"
  by (simp add: plan_ok_def)

lemma plan_add_install: "plan_ok world k \<Longrightarrow> plan_ok world (add_install cands a k)"
  by (simp add: add_install_def plan_install)

lemma plan_provided: "sys_of world sys \<Longrightarrow> plan_ok world k \<Longrightarrow> plan_ok world (remove_provided sys ps k)"
  by (induction sys ps k rule: remove_provided.induct)
     (auto simp: plan_remove sys_ofD split: option.splits list.splits)

lemma plan_update:
  "plan_ok world k \<Longrightarrow> v \<in> set world \<Longrightarrow> PackageName v = PackageName (art_pkg a) \<Longrightarrow>
   plan_ok world (k\<lparr>pkRemove := pkRemove k @ [art_remove v], pkUpdate := pkUpdate k @ [a]\<rparr>)"
  by (auto simp: plan_ok_def)

lemma plan_one:
  assumes "sys_of world sys" "plan_ok world k"
  shows "plan_ok world (upgrade_one cands sys pname a k)"
  using assms
  by (auto simp: upgrade_one_def Let_def intro!: plan_provided plan_add_install plan_remove plan_update plan_install
      dest: sys_ofD split: option.split list.split)

lemma plan_all:
  "upgrade_all cands sys es k = Ok r \<Longrightarrow> sys_of world sys \<Longrightarrow> plan_ok world k \<Longrightarrow> plan_ok world r"
  by (induction cands sys es k rule: upgrade_all.induct) (auto intro: plan_one split: list.splits)

text \<open>Nothing planned is dropped later, and each candidate is acted on.\<close>

definition grows :: "packs \<Rightarrow> packs \<Rightarrow> bool" where
  "grows k k' \<longleftrightarrow> set (pkRemove k) \<subseteq> set (pkRemove k') \<and> set (pkUpdate k) \<subseteq> set (pkUpdate k') \<and>
     set (pkInstall k) \<subseteq> set (pkInstall k')"

definition acted :: "arts_map \<Rightarrow> pkgs_map \<Rightarrow> string \<Rightarrow> artifact \<Rightarrow> packs \<Rightarrow> bool" where
  "acted cands sys pname a k \<longleftrightarrow>
     (a \<in> set (pkUpdate k) \<union> set (pkInstall k) \<or> gm_has cands (PackageName (art_pkg a))) \<and>
     (\<forall>v vs. gm_get sys pname = Some (v # vs) \<longrightarrow>
        (\<exists>r\<in>set (pkRemove k). PackageName (art_pkg r) = PackageName v))"

definition from_cands :: "(string \<times> artifact list) list \<Rightarrow> packs \<Rightarrow> packs \<Rightarrow> bool" where
  "from_cands es k k' \<longleftrightarrow>
     (\<forall>u\<in>set (pkUpdate k') \<union> set (pkInstall k').
        u \<in> set (pkUpdate k) \<union> set (pkInstall k) \<or> (\<exists>pname as. (pname, u # as) \<in> set es))"

lemma grows_refl [simp]: "grows k k"
  by (simp add: grows_def)

lemma grows_trans: "grows k1 k2 \<Longrightarrow> grows k2 k3 \<Longrightarrow> grows k1 k3"
  by (auto simp: grows_def)

lemma art_remove_pkg [simp]: "art_pkg (art_remove p) = p"
  by (simp add: art_remove_def art_pkg_def GetPackage_def)

lemma add_remove_grows: "grows k (add_remove v k)"
  by (auto simp: grows_def add_remove_def)

lemma add_remove_has: "\<exists>r\<in>set (pkRemove (add_remove v k)). PackageName (art_pkg r) = PackageName v"
  by (auto simp: add_remove_def IsPresent_def list_ex_iff)

lemma add_remove_frame [simp]:
  "pkUpdate (add_remove v k) = pkUpdate k" "pkInstall (add_remove v k) = pkInstall k"
  by (simp_all add: add_remove_def)

lemma remove_provided_grows: "grows k (remove_provided sys ps k)"
  by (induction sys ps k rule: remove_provided.induct)
     (auto intro: grows_trans add_remove_grows split: option.splits list.splits)

lemma remove_provided_frame [simp]:
  "pkUpdate (remove_provided sys ps k) = pkUpdate k" "pkInstall (remove_provided sys ps k) = pkInstall k"
  by (induction sys ps k rule: remove_provided.induct) (auto split: option.splits list.splits)

lemma add_install_grows: "grows k (add_install cands a k)"
  by (auto simp: grows_def add_install_def)

lemma upgrade_one_grows: "grows k (upgrade_one cands sys pname a k)"
proof -
  have upd: "grows k (k\<lparr>pkRemove := pkRemove k @ [r], pkUpdate := pkUpdate k @ [a]\<rparr>)" for r
    by (auto simp: grows_def)
  have ins: "grows k (k'\<lparr>pkInstall := pkInstall k @ [a]\<rparr>)" if "grows k k'" for k'
    using that by (auto simp: grows_def)
  note prov = remove_provided_grows [of _ sys "Provides (art_pkg a)"]
  show ?thesis
    by (auto simp: upgrade_one_def Let_def split: option.split list.split
        intro: ins [OF prov] grows_trans [OF upd prov]
          grows_trans [OF add_remove_grows grows_trans [OF add_install_grows prov]])
qed

lemma acted_grows: "acted cands sys pname a k \<Longrightarrow> grows k k' \<Longrightarrow> acted cands sys pname a k'"
  unfolding acted_def grows_def by blast

lemma upgrade_one_acted: "acted cands sys pname a (upgrade_one cands sys pname a k)"
proof (cases "gm_get sys pname")
  case None
  then show ?thesis by (simp add: acted_def upgrade_one_def Let_def)
next
  case (Some vs')
  show ?thesis
  proof (cases vs')
    case Nil
    then show ?thesis using Some by (simp add: acted_def upgrade_one_def Let_def)
  next
    case (Cons v vs)
    let ?k = "if PackageName (art_pkg a) \<noteq> pname then add_install cands a (add_remove v k)
      else k\<lparr>pkRemove := pkRemove k @ [art_remove v], pkUpdate := pkUpdate k @ [a]\<rparr>"
    have "acted cands sys pname a ?k"
      using Some Cons add_remove_has [of v k] by (auto simp: acted_def add_install_def)
    then show ?thesis
      using Some Cons acted_grows remove_provided_grows by (fastforce simp: upgrade_one_def)
  qed
qed

lemma upgrade_one_new:
  "set (pkUpdate (upgrade_one cands sys pname a k)) \<union> set (pkInstall (upgrade_one cands sys pname a k))
     \<subseteq> insert a (set (pkUpdate k) \<union> set (pkInstall k))"
  by (auto simp: upgrade_one_def Let_def add_install_def split: option.splits list.splits)

lemma upgrade_all_acts:
  "upgrade_all cands sys es k = Ok r \<Longrightarrow>
     grows k r \<and> from_cands es k r \<and> (\<forall>(pname, as)\<in>set es. as \<noteq> [] \<and> acted cands sys pname (hd as) r)"
proof (induction cands sys es k rule: upgrade_all.induct)
  case (2 cands sys pname plist es k)
  then obtain a as where p: "plist = a # as" by (cases plist) auto
  let ?k = "upgrade_one cands sys pname a k"
  have IH: "grows ?k r" "from_cands es ?k r"
    "\<forall>(pname, as)\<in>set es. as \<noteq> [] \<and> acted cands sys pname (hd as) r"
    using 2 p by auto
  have "grows k r" using IH(1) upgrade_one_grows grows_trans by blast
  moreover have "from_cands ((pname, plist) # es) k r"
    unfolding from_cands_def
  proof
    fix u assume "u \<in> set (pkUpdate r) \<union> set (pkInstall r)"
    then have "u \<in> set (pkUpdate ?k) \<union> set (pkInstall ?k) \<or> (\<exists>pname as. (pname, u # as) \<in> set es)"
      using IH(2) unfolding from_cands_def by blast
    then show "u \<in> set (pkUpdate k) \<union> set (pkInstall k) \<or>
        (\<exists>pname' as. (pname', u # as) \<in> set ((pname, plist) # es))"
      using upgrade_one_new [of cands sys pname a k] unfolding p by auto
  qed
  moreover have "acted cands sys pname a r"
    using acted_grows [OF upgrade_one_acted IH(1)] .
  ultimately show ?case using IH(3) p by auto
qed (simp add: from_cands_def)

lemma prepare_system_get:
  assumes "p \<in> set world" "PackageName p = k"
  shows "\<exists>v vs. gm_get (systemMap (prepareConflictsAndSystemMap E world w st)) k = Some (v # vs) \<and> PackageName v = k"
proof -
  have vals: "pm_vals (systemMap (prepareConflictsAndSystemMap E world w st)) k = filter (\<lambda>q. PackageName q = k) world"
    by (simp add: prepareConflictsAndSystemMap_def Let_def prepare_all_system)
  have "p \<in> set (filter (\<lambda>q. PackageName q = k) world)" using assms by simp
  then obtain v vs where f: "filter (\<lambda>q. PackageName q = k) world = v # vs"
    by (cases "filter (\<lambda>q. PackageName q = k) world") auto
  have "v \<in> set (filter (\<lambda>q. PackageName q = k) world)" unfolding f by simp
  then have "PackageName v = k" by simp
  have "pm_vals (systemMap (prepareConflictsAndSystemMap E world w st)) k = v # vs"
    unfolding vals by (rule f)
  then have "gm_get (systemMap (prepareConflictsAndSystemMap E world w st)) k = Some (v # vs)"
    unfolding pm_vals_def by (simp split: option.split_asm)
  with \<open>PackageName v = k\<close> show ?thesis by blast
qed

lemma analyze_candidates: "candidatesMap (snd (analyzeInstalledPackages E serr st)) = candidatesMap st"
  by (cases "analyze_loop (checkInstalledPackage E (nil_map (seRepos st)))
        (installed_firsts (st_range E st (systemMap st))) False []";
      cases "fst (analyze_loop (checkInstalledPackage E (nil_map (seRepos st)))
        (installed_firsts (st_range E st (systemMap st))) False [])")
     (auto simp: analyzeInstalledPackages_def next_range_def split: option.splits)

text \<open>A run of \<open>Upgrade\<close> that ends well: nothing to do, or the candidates checked and selected.\<close>

lemma Upgrade_cases:
  assumes "Upgrade E n ksort (Some world) serr repos st0 = (Ok k, st')"
  shows "(k = no_packs \<and> candidatesMap st' = candidatesMap st0) \<or>
    (\<exists>pList st3. systemMap st3 = systemMap (prepareConflictsAndSystemMap E world True st0) \<and>
       select_upgrade E pList st3 = (Ok k, st'))"
proof -
  let ?st1 = "prepareConflictsAndSystemMap E world True st0"
  obtain prios where "read_repos repos [] = Inr prios"
    using assms by (auto simp: Upgrade_def Let_def split: sum.splits)
  with assms obtain u st2 where
    an: "analyzeInstalledPackages E serr (?st1\<lparr>seRepos := Some prios\<rparr>) = (Ok u, st2)" and
    rest: "(if length (availableArtsMap st2) = 0 then (Ok no_packs, st2)
       else obind (check_all E n (upgrade_names E ksort st2) (next_range st2))
         (\<lambda>_ st3. select_upgrade E (upgrade_names E ksort st2) (st3\<lparr>seRepos := None\<rparr>))) = (Ok k, st')"
    unfolding Upgrade_def Let_def option.case sum.case by (auto dest!: obind_OkD)
  have sys: "systemMap st2 = systemMap ?st1"
    using keeps_analyze [of "?st1\<lparr>seRepos := Some prios\<rparr>" E serr] an by (simp add: keeps_def)
  have cand: "candidatesMap st2 = candidatesMap st0"
    using analyze_candidates [of E serr "?st1\<lparr>seRepos := Some prios\<rparr>"] an by (simp add: prepare_frame)
  show ?thesis
  proof (cases "length (availableArtsMap st2) = 0")
    case True
    then show ?thesis using rest cand by simp
  next
    case False
    then obtain v st3 where
      c: "check_all E n (upgrade_names E ksort st2) (next_range st2) = (Ok v, st3)" and
      s: "select_upgrade E (upgrade_names E ksort st2) (st3\<lparr>seRepos := None\<rparr>) = (Ok k, st')"
      using rest by (auto dest!: obind_OkD)
    have "systemMap st3 = systemMap ?st1"
      using keeps_check_all [of "next_range st2" E n "upgrade_names E ksort st2"] c sys
      by (simp add: keeps_def next_range_def)
    then show ?thesis using s by force
  qed
qed

text \<open>
  C2: The plan of an upgrade: only installed packages are removed; every update comes with the removal
  of the installed package of its name; what is updated or installed is the first version of a
  candidate; and every candidate has a version and is acted on, by an update or an install of that
  version or, when the version only provides the name, by the candidate of its own name, an
  installed package of the candidate's name being removed.
\<close>

theorem Upgrade_plan:
  assumes "Upgrade E n ksort (Some world) serr repos st0 = (Ok k, st')"
    and "orders_ok E" "candidatesMap st0 = []" "\<not> NoDeps (seOpts E)"
  shows "(\<forall>r\<in>set (pkRemove k). \<exists>p\<in>set world. r = art_remove p) \<and>
    (\<forall>u\<in>set (pkUpdate k). \<exists>p\<in>set world. PackageName p = PackageName (art_pkg u) \<and>
       art_remove p \<in> set (pkRemove k)) \<and>
    (\<forall>u\<in>set (pkUpdate k) \<union> set (pkInstall k). \<exists>pname as. gm_get (candidatesMap st') pname = Some (u # as)) \<and>
    (\<forall>pname as. gm_get (candidatesMap st') pname = Some as \<longrightarrow> as \<noteq> [] \<and>
       (hd as \<in> set (pkUpdate k) \<union> set (pkInstall k) \<or>
        gm_has (candidatesMap st') (PackageName (art_pkg (hd as)))) \<and>
       (pname \<in> PackageName ` set world \<longrightarrow> (\<exists>r\<in>set (pkRemove k). PackageName (art_pkg r) = pname)))"
  using Upgrade_cases [OF assms(1)]
proof (elim disjE exE conjE)
  assume "k = no_packs" "candidatesMap st' = candidatesMap st0"
  then show ?thesis using assms(3) by (simp add: no_packs_def)
next
  fix pList st3
  assume sys: "systemMap st3 = systemMap (prepareConflictsAndSystemMap E world True st0)"
    and sel: "select_upgrade E pList st3 = (Ok k, st')"
  let ?es = "st_range E st3 (candidatesMap st3)"
  have all: "upgrade_all (candidatesMap st3) (systemMap st3) ?es no_packs = Ok k"
    and cand: "candidatesMap st' = candidatesMap st3"
    using sel assms(4) by (auto simp: select_upgrade_def next_range_def)
  have "plan_ok world k"
    using plan_all [OF all] prepare_sys_of [of world E True st0]
    by (simp add: sys plan_ok_def no_packs_def)
  moreover have acts: "from_cands ?es no_packs k"
    "\<forall>(pname, as)\<in>set ?es. as \<noteq> [] \<and> acted (candidatesMap st3) (systemMap st3) pname (hd as) k"
    using upgrade_all_acts [OF all] by blast+
  have "\<forall>u\<in>set (pkUpdate k) \<union> set (pkInstall k). \<exists>pname as. gm_get (candidatesMap st') pname = Some (u # as)"
    using acts(1) unfolding from_cands_def cand st_range_iff [OF assms(2)] by (simp add: no_packs_def)
  moreover have "as \<noteq> [] \<and>
       (hd as \<in> set (pkUpdate k) \<union> set (pkInstall k) \<or>
        gm_has (candidatesMap st') (PackageName (art_pkg (hd as)))) \<and>
       (pname \<in> PackageName ` set world \<longrightarrow> (\<exists>r\<in>set (pkRemove k). PackageName (art_pkg r) = pname))"
    if "gm_get (candidatesMap st') pname = Some as" for pname as
  proof -
    have a: "as \<noteq> []" "acted (candidatesMap st3) (systemMap st3) pname (hd as) k"
      using acts(2) that [unfolded cand, folded st_range_iff [OF assms(2), where st = st3]] by blast+
    have "\<exists>r\<in>set (pkRemove k). PackageName (art_pkg r) = pname" if "pname \<in> PackageName ` set world"
    proof -
      from that obtain p where "p \<in> set world" "PackageName p = pname" by blast
      then obtain v vs where v: "gm_get (systemMap st3) pname = Some (v # vs)" "PackageName v = pname"
        using prepare_system_get [of p world pname E True st0] unfolding sys by blast
      with a(2) show ?thesis unfolding acted_def by blast
    qed
    then show ?thesis using a unfolding acted_def cand by blast
  qed
  ultimately show ?thesis unfolding plan_ok_def by blast
qed

section \<open>Concrete upgrades\<close>

text \<open>The insertion sort of the prelude as the sort of the tagged list.\<close>

definition demo_upgrade ::
    "solver_env \<Rightarrow> default_package list \<Rightarrow> packs outcome" where
  "demo_upgrade E world = fst (Upgrade E 10 insertion_sort (Some world) None [] NewSolver)"

definition prov_pkg :: "string \<Rightarrow> string \<Rightarrow> default_package list \<Rightarrow> default_package" where
  "prov_pkg n v provs = set_provides provs (demo_pkg n v [] [])"

text \<open>Both packages have a newer version, and the new \<open>c/foo\<close> provides \<open>c/bar\<close>.\<close>

definition dup_world :: "default_package list" where
  "dup_world = [demo_pkg ''foo'' ''1.0'' [] [], demo_pkg ''bar'' ''1.0'' [] []]"

definition dup_repo :: "artifact list" where
  "dup_repo = [art_of (prov_pkg ''foo'' ''2.0'' [demo_pkg ''bar'' ''1.0'' [] []]), art_of (demo_pkg ''bar'' ''2.0'' [] [])]"

definition removed_names :: "packs outcome \<Rightarrow> string list" where
  "removed_names r = (case r of Ok k \<Rightarrow> map (HumanReadableString \<circ> art_pkg) (pkRemove k) | _ \<Rightarrow> [])"

lemma dup_remove: "removed_names (demo_upgrade (demo_env dup_repo) dup_world) = [''c/foo-1.0'', ''c/bar-1.0'', ''c/bar-1.0'']"
  by code_simp

text \<open>
  \<open>Upgrade\<close> may remove a package twice, depending on the order in which the range over the
  candidates visits them: the removal of a package that an update replaces is looked for among the
  removals only when it is due to a provide.  With a new \<open>c/foo\<close> that provides the installed \<open>c/bar\<close>,
  which has a new version too, one order removes \<open>c/bar-1.0\<close> twice and the other once.
\<close>

theorem Upgrade_removes_twice:
  "removed_names (demo_upgrade (demo_env dup_repo) dup_world) = [''c/foo-1.0'', ''c/bar-1.0'', ''c/bar-1.0''] \<and>
   removed_names (demo_upgrade ((demo_env dup_repo)\<lparr>seOrder := \<lambda>i. rev\<rparr>) dup_world) =
     [''c/bar-1.0'', ''c/foo-1.0'']"
proof
  show "removed_names (demo_upgrade ((demo_env dup_repo)\<lparr>seOrder := \<lambda>i. rev\<rparr>) dup_world) =
     [''c/bar-1.0'', ''c/foo-1.0'']"
    by code_simp
qed (rule dup_remove)

text \<open>
  Without dependencies \<open>Upgrade\<close> takes the first candidate of every name with a new version, also
  of a name whose new versions were all refused: it reads the first of an empty slice and panics.
  Here \<open>c/bar-2.0\<close> is refused since the installed \<open>c/baz\<close> requires \<open>c/bar\<close> below 2.0.
\<close>

theorem Upgrade_nodeps_panics:
  "demo_upgrade ((demo_env dup_repo)\<lparr>seOpts := NewSolverOpts\<lparr>NoDeps := True\<rparr>\<rparr>)
     [demo_pkg ''bar'' ''1.0'' [] [], demo_pkg ''baz'' ''1.0'' [demo_pkg ''bar'' ''<2.0'' [] []] []] =
   Panic ''index out of range [0] with length 0''"
  by code_simp

theorem Upgrade_plan_witness:
  "\<exists>k st'. Upgrade (demo_env dup_repo) 10 insertion_sort (Some dup_world) None [] NewSolver = (Ok k, st') \<and>
     pkRemove k \<noteq> [] \<and> (\<forall>r\<in>set (pkRemove k). \<exists>p\<in>set dup_world. r = art_remove p)"
proof -
  let ?r = "Upgrade (demo_env dup_repo) 10 insertion_sort (Some dup_world) None [] NewSolver"
  have "fst ?r \<noteq> Fuel" "removed_names (fst ?r) \<noteq> []"
    using dup_remove unfolding demo_upgrade_def by (auto simp: removed_names_def)
  then obtain k st' where r: "?r = (Ok k, st')" and k: "pkRemove k \<noteq> []"
    by (cases ?r; cases "fst ?r") (auto simp: removed_names_def)
  have "\<not> NoDeps (seOpts (demo_env dup_repo))" by (simp add: demo_env_def NewSolverOpts_def)
  then show ?thesis
    using Upgrade_plan [OF r demo_orders] r k by (simp add: NewSolver_def)
qed

section \<open>An upgrade returns\<close>

text \<open>
  The search for a newer version of an installed package may also find packages of other names that
  provide it; \<open>own_names\<close> says it does not.
\<close>

definition own_names :: "solver_env \<Rightarrow> bool" where
  "own_names E \<longleftrightarrow>
     (\<forall>b p arts. seSearch E (installed_search b p) = Inr arts \<longrightarrow> (\<forall>a\<in>set arts. art_key a = PackageName p))"

abbreviation upg_ok :: "solver_env \<Rightarrow> string set \<Rightarrow> solver_state \<Rightarrow> 'a outcome \<times> solver_state \<Rightarrow> bool" where
  "upg_ok E U st x \<equiv> run_ok False E U st x"

lemma run_ok_search_dep4:
  assumes names: "search_names E U" and inv: "solver_inv C E U st"
  shows "run_ok C E U st (search_dep4 E p st)"
proof -
  have "avail_inv U (am_add_all as (availableArtsMap st))" if "seSearch E opts = Inr as" for opts as
    using names that by (intro avail_inv_add_all solver_invD [OF inv]) (auto simp: search_names_def)
  then show ?thesis
    by (auto simp: search_dep4_def intro!: run_okI [OF inv] solver_invD [OF inv] split: sum.splits)
qed

lemma dep4_known_no_fuel: "dep4_known E candidate stack st p = Some r \<Longrightarrow> r \<noteq> Fuel"
  using dep_known_no_fuel [of E candidate stack st p r]
  by (auto simp: dep4_known_def split: option.splits list.splits if_splits sum.splits)

lemma run_ok_deps4:
  assumes "env_ok E U" "solver_inv C E U st" "card (U - set stack) < n"
  shows "run_ok C E U st (deps4_loop E n candidate ps stack st)"
  using assms
proof (induction E n candidate ps stack st rule: deps4_loop.induct)
  case (2 E n candidate p ps stack st)
  show ?case
  proof (cases "dep4_known E candidate stack st p")
    case (Some r)
    have "run_ok C E U st (r, st)"
      by (rule run_ok_return [OF "2.prems"(2) dep4_known_no_fuel [OF Some]])
    then show ?thesis
      unfolding deps4_loop.simps Some option.case
      by (rule run_ok_obind) (use 2 Some in \<open>auto intro: run_ok_return dest: run_ok_inv\<close>)
  next
    case None
    have look: "run_ok C E U st (search_dep4 E p st)"
      using "2.prems" by (intro run_ok_search_dep4) (auto simp: env_ok_def)
    have step: "run_ok C E U st1 (resolvePackage E n k stack st1)" if "solver_inv C E U st1" for k st1
      using "2.prems" that by (intro resolve_ok(1))
    have rest: "run_ok C E U st1 (deps4_loop E n candidate ps stack st1)" if "solver_inv C E U st1" for st1
      using 2 None that by blast
    show ?thesis
      unfolding deps4_loop.simps None option.case
      by (rule run_ok_obind [OF look], rule run_ok_obind, rule step) (auto intro: rest dest: run_ok_inv)
  qed
qed (simp add: run_ok_return)

lemma card_stack: "finite U \<Longrightarrow> card U < n \<Longrightarrow> card (U - set stack) < n"
  by (meson Diff_subset card_mono le_less_trans)

lemma run_ok_process4:
  assumes "env_ok E U" "card U < n" "solver_inv C E U st"
  shows "run_ok C E U st (processArtefactDeps4Upgrade E n art stack st)"
  unfolding processArtefactDeps4Upgrade_def
  using assms by (intro run_ok_deps4 card_stack) (auto simp: env_ok_def)

lemma run_ok_try:
  assumes "env_ok E U" "card U < n" "solver_inv C E U st"
  shows "run_ok C E U st (try_version E n reject art stack st)"
proof (cases "\<not> IgnoreConflicts (seOpts E) \<and> artefactIsInConflict E st art")
  case True
  then show ?thesis by (simp add: try_version_def run_ok_return assms)
next
  case False
  show ?thesis
    unfolding try_version_def if_not_P [OF False]
  proof (rule run_ok_obind [OF run_ok_admit_queue [OF assms(3)]])
    fix a st1 assume "run_ok C E U st1 (artefactAdmitByQueue E art st)" "artefactAdmitByQueue E art st = (Ok a, st1)"
    then have inv: "solver_inv C E U st1" by (auto dest: run_ok_inv)
    show "run_ok C E U st1 (if \<not> a then (Ok reject, st1)
        else obind (processArtefactDeps4Upgrade E n art (stack @ [PackageName (art_pkg art)]) st1)
          (\<lambda>admittedDeps st2. (Ok (if \<not> admittedDeps then reject else Take), st2)))"
      using inv
      by (auto intro!: run_ok_return run_ok_obind [OF run_ok_process4 [OF assms(1,2) inv]] dest: run_ok_inv)
  qed
qed

lemma run_ok_consider:
  assumes "env_ok E U" "card U < n" "solver_inv C E U st"
  shows "run_ok C E U st (consider_version E n dp art stack banned foundEqual st)"
proof -
  have ret: "run_ok C E U st (r, st)" if "r \<noteq> Fuel" for r :: "(verdict \<times> bool) outcome"
    using run_ok_return [OF assms(3) that] .
  have trial: "run_ok C E U st1 (obind (try_version E n reject art stack st1) (\<lambda>v st. (Ok (v, foundEqual), st)))"
    if "solver_inv C E U st1" for reject st1
    by (rule run_ok_obind [OF run_ok_try [OF assms(1,2) that]]) (auto intro!: run_ok_return dest: run_ok_inv)
  have deps: "run_ok C E U st (obind (processArtefactDeps4Upgrade E n art s st)
      (\<lambda>admittedDeps st. (Ok (if \<not> admittedDeps then Ban else Take, True), st)))" for s
    by (rule run_ok_obind [OF run_ok_process4 [OF assms]]) (auto intro!: run_ok_return dest: run_ok_inv)
  have users: "run_ok C E U st (obind (of_res r, st) (\<lambda>usersAdmitNew st.
      if \<not> usersAdmitNew then (Ok (Next, foundEqual), st)
      else obind (try_version E n Next art stack st) (\<lambda>v st. (Ok (v, foundEqual), st))))" for r
    by (rule run_ok_obind) (auto intro!: run_ok_return trial assms(3) dest: run_ok_inv)
  show ?thesis
    using users deps trial [OF assms(3)]
    by (auto simp: consider_version_def intro!: ret split: option.splits sum.splits)
qed

lemma run_ok_candidates:
  assumes "env_ok E U" "card U < n" "solver_inv C E U st"
  shows "run_ok C E U st (candidates_loop E n dp arts stack banned foundEqual st)"
  using assms
proof (induction E n dp arts stack banned foundEqual st rule: candidates_loop.induct)
  case (2 E n dp art arts stack banned foundEqual st)
  show ?case
    unfolding candidates_loop.simps
  proof (rule run_ok_obind [OF run_ok_consider [OF "2.prems"]])
    fix v st1
    assume "consider_version E n dp art stack banned foundEqual st = (Ok v, st1)"
      "run_ok C E U st1 (consider_version E n dp art stack banned foundEqual st)"
    then have inv: "solver_inv C E U st1" by (auto dest: run_ok_inv)
    show "run_ok C E U st1 (case fst v of
         Next \<Rightarrow> candidates_loop E n dp arts stack banned (snd v) st1
       | Ban \<Rightarrow> candidates_loop E n dp arts stack (ban_version dp art banned) (snd v) st1
       | Take \<Rightarrow> (Ok (True, banned), st1)
       | Stop \<Rightarrow> (Ok (False, ban_version dp art banned), st1))"
      using 2 inv by (cases "fst v") (auto intro: run_ok_return)
  qed
qed (simp add: run_ok_return)

lemma run_ok_add_valid:
  assumes inv: "solver_inv False E U st" and as: "\<forall>a\<in>set as. GetPackage a \<noteq> None \<and> art_key a = k"
  shows "upg_ok E U st (Ok (), add_candidate k (valid_arts as banned) st)"
proof -
  let ?st = "add_candidate k (valid_arts as banned) st"
  have eq: "availableArtsMap ?st = availableArtsMap st" "conflictsMap ?st = conflictsMap st"
    "systemMap ?st = systemMap st" "candidatesMap ?st = gm_set k (valid_arts as banned) (candidatesMap st)"
    by (simp_all add: add_candidate_def split: list.splits)
  have "\<forall>a\<in>set (valid_arts as banned). GetPackage a \<noteq> None \<and> art_key a = k"
    using as by (simp add: valid_arts_def)
  with inv have "cand_inv False E ?st"
    unfolding cand_inv_def eq solver_inv_def gm_get_set by (auto split: if_split_asm)
  then show ?thesis
    using inv by (simp add: run_ok_def solver_inv_def eq)
qed

lemma sorted_versions_named:
  assumes "env_ok E U" "solver_inv C E U st" "sorted_versions E k st = (Ok as, st1)"
  shows "\<forall>a\<in>set as. GetPackage a \<noteq> None \<and> art_key a = k"
proof (cases "seRepos st")
  case None
  then have "GetSortedArtifactsByKey (seLib E) (seGentooSort E) (availableArtsMap st) k = Inr as"
    using assms(3) by (cases "GetSortedArtifactsByKey (seLib E) (seGentooSort E) (availableArtsMap st) k")
      (auto simp: sorted_versions_def)
  then show ?thesis using sorted_by_key_inv [OF solver_invD [OF assms(2)]] by blast
next
  case (Some prios)
  then obtain bs where get: "gm_get (availableArtsMap st) k = Some bs"
    and srt: "SortArtifactList4VersionAndRepos (seLib E) (seArtSort E) prios True bs = Returns as"
    using assms(3) by (auto simp: sorted_versions_def GetArtifactsByKey_def split: sum.splits panics.splits option.splits)
  have "go_sort (seArtSort E)" using assms(1) by (simp add: env_ok_def)
  from sort_version_set [OF this srt] get solver_invD [OF assms(2)] show ?thesis
    unfolding avail_inv_def by blast
qed

lemma run_ok_check:
  assumes env: "env_ok E U" and n: "card U < n" and inv: "solver_inv False E U st"
  shows "upg_ok E U st (checkCandidate2Upgrade E n k stack st)"
proof (cases "ContainsElem stack k \<or> gm_has (candidatesMap st) k")
  case True
  then show ?thesis by (auto simp: checkCandidate2Upgrade_def run_ok_return inv)
next
  case False
  have srt: "go_sort (seArtSort E)" using env by (simp add: env_ok_def)
  have "upg_ok E U st (obind (sorted_versions E k st) (\<lambda>selectedArts st1.
        case gm_get (systemMap st1) k of
          Some (dp # _) \<Rightarrow>
            obind (candidates_loop E n dp selectedArts stack [] False st1) (\<lambda>fb st2.
              (Ok (), if fst fb then add_candidate k (valid_arts selectedArts (snd fb)) st2 else st2))
        | _ \<Rightarrow> (Err (''Unexpected condition on retrieve package for '' @ k), st1)))"
  proof (rule run_ok_obind [OF run_ok_sorted_versions [OF srt inv]])
    fix as st1
    assume s: "sorted_versions E k st = (Ok as, st1)" and r: "upg_ok E U st1 (sorted_versions E k st)"
    from r s have inv1: "solver_inv False E U st1" by (auto dest: run_ok_inv)
    note named = sorted_versions_named [OF env inv s]
    have loop: "upg_ok E U st1 (obind (candidates_loop E n dp as stack [] False st1) (\<lambda>fb st2.
              (Ok (), if fst fb then add_candidate k (valid_arts as (snd fb)) st2 else st2)))" for dp
      by (rule run_ok_obind [OF run_ok_candidates [OF env n inv1]])
        (auto intro: run_ok_add_valid [OF _ named] run_ok_return dest: run_ok_inv)
    show "upg_ok E U st1 (case gm_get (systemMap st1) k of
          Some (dp # _) \<Rightarrow>
            obind (candidates_loop E n dp as stack [] False st1) (\<lambda>fb st2.
              (Ok (), if fst fb then add_candidate k (valid_arts as (snd fb)) st2 else st2))
        | _ \<Rightarrow> (Err (''Unexpected condition on retrieve package for '' @ k), st1))"
      using loop by (auto intro: run_ok_return inv1 split: option.splits list.splits)
  qed
  with False show ?thesis by (simp add: checkCandidate2Upgrade_def)
qed

lemma run_ok_check_all:
  assumes "env_ok E U" "card U < n" "solver_inv False E U st"
  shows "upg_ok E U st (check_all E n ks st)"
  using assms
proof (induction E n ks st rule: check_all.induct)
  case (2 E n k ks st)
  show ?case
    unfolding check_all.simps
    by (rule run_ok_obind [OF run_ok_check [OF "2.prems"]]) (use 2 in \<open>auto dest: run_ok_inv\<close>)
qed (simp add: run_ok_return)

lemma checkInstalled_names:
  assumes "env_ok E U" "own_names E" "checkInstalledPackage E prios p = Ok (Some arts)"
  shows "PackageName p \<in> U \<and> (\<forall>a\<in>set arts. GetPackage a \<noteq> None \<and> art_key a = PackageName p)"
proof -
  from assms(3) obtain as0 where as0: "seSearch E (installed_search (IgnoreMasks (seOpts E)) p) = Inr as0" "as0 \<noteq> []"
    and srt: "SortArtifactList4VersionAndRepos (seLib E) (seArtSort E) prios True as0 = Returns arts"
    by (auto simp: checkInstalledPackage_def split: sum.splits panics.splits if_splits)
  have set: "set arts = set as0"
    using assms(1) sort_version_set [OF _ srt] by (simp add: env_ok_def)
  have own: "\<forall>a\<in>set as0. art_key a = PackageName p"
    using assms(2) as0(1) unfolding own_names_def by blast
  have "has_pkgs as0" "art_key ` set as0 \<subseteq> U"
    using assms(1) as0(1) unfolding env_ok_def search_names_def by blast+
  with own as0(2) show ?thesis
    unfolding has_pkgs_def set by (metis image_subset_iff list.set_sel(1))
qed

lemma avail_store:
  assumes "avail_inv U am" "\<And>arts. r = Ok (Some arts) \<Longrightarrow>
    PackageName p \<in> U \<and> (\<forall>a\<in>set arts. GetPackage a \<noteq> None \<and> art_key a = PackageName p)"
  shows "avail_inv U (store_found p r am)"
proof (cases "\<exists>arts. r = Ok (Some arts)")
  case True
  with assms show ?thesis by (auto simp: store_found_def avail_inv_def split: if_split_asm)
next
  case False
  then have "store_found p r am = am" by (auto simp: store_found_def split: outcome.split option.split)
  then show ?thesis using assms(1) by simp
qed

lemma analyze_loop_inv:
  assumes "\<And>p. chk p \<noteq> Fuel" "\<And>p arts. chk p = Ok (Some arts) \<Longrightarrow>
    PackageName p \<in> U \<and> (\<forall>a\<in>set arts. GetPackage a \<noteq> None \<and> art_key a = PackageName p)"
  shows "avail_inv U am \<Longrightarrow> avail_inv U (snd (analyze_loop chk ps failed am)) \<and>
    fst (analyze_loop chk ps failed am) \<noteq> Fuel"
proof (induction ps arbitrary: failed am)
  case (Cons p ps)
  have "avail_inv U (store_found p (chk p) am)"
    using Cons.prems assms(2) by (intro avail_store) auto
  with Cons assms(1) [of p] show ?case by (auto split: outcome.splits)
qed simp

lemma checkInstalled_no_fuel: "checkInstalledPackage E prios p \<noteq> Fuel"
  by (auto simp: checkInstalledPackage_def split: sum.splits panics.splits)

text \<open>
  \<open>Upgrade\<close> returns when the search for an installed package only finds artifacts of its name: with
  a depth above the number of the names in the repositories no run of it exhausts the depth.
\<close>

theorem Upgrade_returns:
  assumes env: "env_ok E U" and own: "own_names E" and c0: "candidatesMap st0 = []" and n: "card U < n"
  shows "fst (Upgrade E n ksort db serr repos st0) \<noteq> Fuel"
proof -
  have sel: "fst (select_upgrade E pl st) \<noteq> Fuel" for pl st
  proof -
    have "upgrade_all cands sys es k \<noteq> Fuel" for cands sys es k
      by (induction cands sys es k rule: upgrade_all.induct) (auto split: list.splits)
    moreover have "upgrade_nodeps cands sys es k \<noteq> Fuel" for cands sys es k
      by (induction cands sys es k rule: upgrade_nodeps.induct) (auto split: list.splits option.splits)
    ultimately show ?thesis by (simp add: select_upgrade_def)
  qed
  have "fst (obind (analyzeInstalledPackages E serr st) f) \<noteq> Fuel"
    if "candidatesMap st = []" and f: "\<And>st2. solver_inv False E U st2 \<Longrightarrow> fst (f () st2) \<noteq> Fuel"
    for st and f :: "unit \<Rightarrow> solver_state \<Rightarrow> packs outcome \<times> solver_state"
  proof -
    let ?a = "analyze_loop (checkInstalledPackage E (nil_map (seRepos st)))
        (installed_firsts (st_range E st (systemMap st))) False []"
    have "avail_inv U (snd ?a) \<and> fst ?a \<noteq> Fuel"
      by (rule analyze_loop_inv [OF checkInstalled_no_fuel checkInstalled_names [OF env own]])
        (simp_all add: avail_inv_def)
    moreover have "candidatesMap (snd (analyzeInstalledPackages E serr st)) = []"
      using that(1) by (simp add: analyze_candidates)
    ultimately show ?thesis
      using f by (cases ?a; cases "fst ?a")
        (auto simp: analyzeInstalledPackages_def solver_inv_def cand_inv_def next_range_def split: option.splits)
  qed
  note an = this
  have "fst (obind (check_all E n pl (next_range st2)) (\<lambda>_ st3. select_upgrade E pl (st3\<lparr>seRepos := None\<rparr>))) \<noteq> Fuel"
    if "solver_inv False E U st2" for pl st2
  proof -
    have "solver_inv False E U (next_range st2)"
      using that cand_inv_cong [of "next_range st2" st2 False E] by (simp add: solver_inv_def next_range_def)
    then have "upg_ok E U (next_range st2) (check_all E n pl (next_range st2))"
      by (rule run_ok_check_all [OF env n])
    then show ?thesis
      using sel by (cases "check_all E n pl (next_range st2)"; cases "fst (check_all E n pl (next_range st2))")
        (auto simp: run_ok_def)
  qed
  then have "fst (obind (analyzeInstalledPackages E serr
      ((prepareConflictsAndSystemMap E world True st0)\<lparr>seRepos := Some prios\<rparr>)) (\<lambda>_ st2.
      if length (availableArtsMap st2) = 0 then (Ok no_packs, st2)
      else let pList = upgrade_names E ksort st2
           in obind (check_all E n pList (next_range st2))
                (\<lambda>_ st3. select_upgrade E pList (st3\<lparr>seRepos := None\<rparr>)))) \<noteq> Fuel" for world prios
    using c0 by (intro an) (simp_all add: prepare_frame Let_def)
  then show ?thesis
    unfolding Upgrade_def Let_def by (simp split: option.split sum.split)
qed

lemma demo_own_names: "has_pkgs arts \<Longrightarrow> own_names (demo_env arts)"
  by (auto simp: own_names_def demo_env_def installed_search_def pkgs_search_def set_version_def
      PackageName_def has_pkgs_key)

theorem Upgrade_returns_witness:
  "fst (Upgrade (demo_env dup_repo) 3 insertion_sort (Some dup_world) None [] NewSolver) \<noteq> Fuel"
proof -
  have pk: "has_pkgs dup_repo"
    by (simp add: dup_repo_def has_pkgs_def art_of_def GetPackage_def NewPackageArtifact_def)
  have "card (art_key ` set dup_repo) \<le> length dup_repo" by (metis card_length length_map set_map)
  then have n: "card (art_key ` set dup_repo) < 3" by (simp add: dup_repo_def)
  show ?thesis
    by (rule Upgrade_returns [OF demo_env_ok [OF pk] demo_own_names [OF pk] _ n]) (simp add: NewSolver_def)
qed

end
