(* ===== verification/Analysis.thy ===== *)
theory Analysis
  imports UpgradeProofs
begin

text \<open>
  The goroutines of \<open>analyzeInstalledPackages\<close> and \<open>checkInstalledPackageWrapper\<close>
  (\<open>pkg/v2/solver/solver_upgrade.go\<close>) as a step relation: one goroutine for each installed package takes
  one unit of a semaphore, checks the package and stores what it found, sends whether it failed on a
  channel, and gives the unit back; what the code does under its mutex is one step.  The caller receives as
  many answers as there are goroutines and then waits for all of them.  The semaphore has as many units as
  the channel has places, \<open>cap\<close>, the configured concurrency.

  The theorems: no run is stuck while the concurrency is positive and no run goes on for ever; a run that
  ends has the result of \<open>analyze_loop\<close>, which checks one package after the other.
\<close>

section \<open>State and steps\<close>

text \<open>
  \<open>anIdle\<close> are the packages of the goroutines before the semaphore, \<open>anHeld\<close> those being checked,
  \<open>anReady\<close> the answers (did the check fail) not yet sent, \<open>anLeaving\<close> the number of goroutines that have
  sent and not yet released, \<open>anGone\<close> the packages checked, which the code does not keep.
\<close>

record analysis =
  anIdle :: "default_package list"
  anHeld :: "default_package list"
  anReady :: "bool list"
  anLeaving :: nat
  anChan :: "bool list"
  anRecv :: nat
  anFailed :: bool
  anMap :: arts_map
  anCrashed :: bool
  anGone :: "default_package list"

definition an_init :: "default_package list \<Rightarrow> analysis" where
  "an_init ps =
     \<lparr>anIdle = ps, anHeld = [], anReady = [], anLeaving = 0, anChan = [], anRecv = 0, anFailed = False,
      anMap = [], anCrashed = False, anGone = []\<rparr>"

definition an_units :: "analysis \<Rightarrow> nat" where
  "an_units s = length (anHeld s) + length (anReady s) + anLeaving s"

definition is_panic :: "'a outcome \<Rightarrow> bool" where
  "is_panic r = (case r of Panic _ \<Rightarrow> True | _ \<Rightarrow> False)"

inductive an_step ::
    "(default_package \<Rightarrow> artifact list option outcome) \<Rightarrow> nat \<Rightarrow> nat \<Rightarrow> analysis \<Rightarrow> analysis \<Rightarrow> bool"
  for chk cap n where
  acquire: "anIdle s = xs @ p # ys \<Longrightarrow> an_units s < cap \<Longrightarrow> \<not> anCrashed s \<Longrightarrow>
    an_step chk cap n s (s\<lparr>anIdle := xs @ ys, anHeld := p # anHeld s\<rparr>)"
| check: "anHeld s = xs @ p # ys \<Longrightarrow> \<not> is_panic (chk p) \<Longrightarrow> \<not> anCrashed s \<Longrightarrow>
    an_step chk cap n s
      (s\<lparr>anHeld := xs @ ys, anReady := isErr (chk p) # anReady s, anMap := store_found p (chk p) (anMap s),
         anGone := p # anGone s\<rparr>)"
| crash: "anHeld s = xs @ p # ys \<Longrightarrow> is_panic (chk p) \<Longrightarrow> \<not> anCrashed s \<Longrightarrow>
    an_step chk cap n s (s\<lparr>anCrashed := True\<rparr>)"
| send: "anReady s = xs @ e # ys \<Longrightarrow> length (anChan s) < cap \<Longrightarrow> \<not> anCrashed s \<Longrightarrow>
    an_step chk cap n s (s\<lparr>anReady := xs @ ys, anChan := anChan s @ [e], anLeaving := Suc (anLeaving s)\<rparr>)"
| release: "anLeaving s = Suc k \<Longrightarrow> \<not> anCrashed s \<Longrightarrow> an_step chk cap n s (s\<lparr>anLeaving := k\<rparr>)"
| receive: "anChan s = e # es \<Longrightarrow> anRecv s < n \<Longrightarrow> \<not> anCrashed s \<Longrightarrow>
    an_step chk cap n s (s\<lparr>anChan := es, anRecv := Suc (anRecv s), anFailed := (anFailed s \<or> e)\<rparr>)"

abbreviation an_steps where
  "an_steps chk cap n \<equiv> (an_step chk cap n)\<^sup>*\<^sup>*"

text \<open>The caller has all answers and every goroutine has ended.\<close>

definition an_final :: "nat \<Rightarrow> analysis \<Rightarrow> bool" where
  "an_final n s \<longleftrightarrow> anRecv s = n \<and> anIdle s = [] \<and> anHeld s = [] \<and> anReady s = [] \<and> anLeaving s = 0"

section \<open>Progress\<close>

definition an_count :: "nat \<Rightarrow> analysis \<Rightarrow> bool" where
  "an_count n s \<longleftrightarrow>
     length (anIdle s) + length (anHeld s) + length (anReady s) + length (anChan s) + anRecv s = n"

lemma an_step_count: "an_step chk cap n s s' \<Longrightarrow> an_count m s \<Longrightarrow> an_count m s'"
  by (induction rule: an_step.induct) (auto simp: an_count_def)

lemma an_steps_count: "an_steps chk cap n s s' \<Longrightarrow> an_count m s \<Longrightarrow> an_count m s'"
  by (induction rule: rtranclp_induct) (auto intro: an_step_count)

lemma an_init_count: "an_count (length ps) (an_init ps)"
  by (simp add: an_init_def an_count_def)

text \<open>Each goroutine takes five steps.\<close>

definition an_weight :: "analysis \<Rightarrow> nat" where
  "an_weight s = 5 * length (anIdle s) + 4 * length (anHeld s) + 3 * length (anReady s) + anLeaving s +
     length (anChan s) + (if anCrashed s then 0 else 1)"

lemma an_step_weight: "an_step chk cap n s s' \<Longrightarrow> an_weight s' < an_weight s"
  by (induction rule: an_step.induct) (auto simp: an_weight_def)

lemma an_steps_weight: "(an_step chk cap n ^^ k) s s' \<Longrightarrow> k + an_weight s' \<le> an_weight s"
proof (induction k arbitrary: s')
  case (Suc k)
  then obtain t where "(an_step chk cap n ^^ k) s t" "an_step chk cap n t s'" by auto
  with Suc.IH an_step_weight show ?case by fastforce
qed simp

text \<open>
  C11: The analysis of the installed packages neither stops half way nor goes on for ever: with a
  positive concurrency a state that is reached has ended, has crashed, or has a step; and no run takes
  more than five steps for each package and one more.
\<close>

theorem analysis_progress:
  assumes "cap > 0" "(an_step chk cap (length ps) ^^ k) (an_init ps) s"
  shows "(an_final (length ps) s \<or> anCrashed s \<or> (\<exists>s'. an_step chk cap (length ps) s s')) \<and>
    k \<le> 5 * length ps + 1"
proof
  have reach: "an_steps chk cap (length ps) (an_init ps) s"
    using assms(2) by (simp add: relpowp_imp_rtranclp)
  have count: "an_count (length ps) s" by (rule an_steps_count [OF reach an_init_count])
  show "k \<le> 5 * length ps + 1"
    using an_steps_weight [OF assms(2)] by (simp add: an_weight_def an_init_def)
  show "an_final (length ps) s \<or> anCrashed s \<or> (\<exists>s'. an_step chk cap (length ps) s s')"
  proof (rule ccontr)
    assume stuck: "\<not> ?thesis"
    then have alive: "\<not> anCrashed s" and no: "\<And>s'. \<not> an_step chk cap (length ps) s s'" by blast+
    have held: "anHeld s = []"
    proof (cases "anHeld s")
      case (Cons p ys)
      then show ?thesis
        using no check [of s "[]" p ys chk] crash [of s "[]" p ys chk] alive by (cases "is_panic (chk p)") auto
    qed
    have leaving: "anLeaving s = 0"
      using no release [of s] alive by (cases "anLeaving s") blast+
    have chan: "anChan s = []"
    proof (cases "anChan s")
      case (Cons e es)
      then have "anRecv s < length ps" using count by (simp add: an_count_def)
      with Cons show ?thesis using no receive alive by blast
    qed
    have ready: "anReady s = []"
    proof (cases "anReady s")
      case (Cons e es)
      then show ?thesis using no send [of s "[]" e es cap chk "length ps"] alive chan assms(1) by simp
    qed
    have idle: "anIdle s = []"
    proof (cases "anIdle s")
      case (Cons p ys)
      then show ?thesis
        using no acquire [of s "[]" p ys cap chk "length ps"] alive held ready leaving assms(1) by (simp add: an_units_def)
    qed
    have "anRecv s = length ps"
      using count by (simp add: an_count_def held ready chan idle)
    then show False using stuck held ready leaving idle by (simp add: an_final_def)
  qed
qed
section \<open>The result\<close>

definition stored_by ::
    "(default_package \<Rightarrow> artifact list option outcome) \<Rightarrow> default_package set \<Rightarrow> arts_map \<Rightarrow> bool" where
  "stored_by chk P am \<longleftrightarrow>
     (\<forall>k as. gm_get am k = Some as \<longleftrightarrow> (\<exists>p\<in>P. PackageName p = k \<and> chk p = Ok (Some as)))"

lemma stored_by_Nil: "stored_by chk {} []"
  by (simp add: stored_by_def)

lemma stored_by_unique:
  assumes "stored_by chk P m" "stored_by chk P m'"
  shows "gm_get m k = gm_get m' k"
proof -
  have eq: "gm_get m k = Some as \<longleftrightarrow> gm_get m' k = Some as" for as
    using assms unfolding stored_by_def by blast
  show ?thesis
  proof (cases "gm_get m' k")
    case None
    then have "gm_get m k \<noteq> Some as" for as using eq [of as] by simp
    then have "gm_get m k = None" by (cases "gm_get m k") blast+
    then show ?thesis using None by simp
  next
    case (Some as)
    then show ?thesis using eq [of as] by simp
  qed
qed

lemma stored_by_store:
  assumes "stored_by chk P am" "PackageName p \<notin> PackageName ` P"
  shows "stored_by chk (insert p P) (store_found p (chk p) am)"
proof (cases "\<exists>as. chk p = Ok (Some as)")
  case True
  then obtain as where as: "chk p = Ok (Some as)" by blast
  show ?thesis
    unfolding stored_by_def
  proof (intro allI)
    fix k bs
    have "gm_get am k = Some bs \<longleftrightarrow> (\<exists>q\<in>P. PackageName q = k \<and> chk q = Ok (Some bs))"
      using assms(1) unfolding stored_by_def by blast
    moreover have "PackageName q \<noteq> PackageName p" if "q \<in> P" for q
      using imageI [OF that, of PackageName] assms(2) by metis
    ultimately show "gm_get (store_found p (chk p) am) k = Some bs \<longleftrightarrow>
        (\<exists>q\<in>insert p P. PackageName q = k \<and> chk q = Ok (Some bs))"
      using as by (cases "k = PackageName p") (auto simp: store_found_def)
  qed
next
  case False
  then have "store_found p (chk p) am = am"
    by (auto simp: store_found_def split: outcome.split option.split)
  moreover have "(\<exists>q\<in>insert p P. PackageName q = k \<and> chk q = Ok (Some as)) \<longleftrightarrow>
      (\<exists>q\<in>P. PackageName q = k \<and> chk q = Ok (Some as))" for k as
    using False by simp
  ultimately show ?thesis using assms(1) unfolding stored_by_def by presburger
qed

lemma analyze_loop_result:
  assumes "\<forall>p\<in>set ps. \<not> is_panic (chk p) \<and> chk p \<noteq> Fuel" "distinct (map PackageName ps)"
    "stored_by chk P am" "PackageName ` set ps \<inter> PackageName ` P = {}"
  shows "stored_by chk (P \<union> set ps) (snd (analyze_loop chk ps failed am)) \<and>
    fst (analyze_loop chk ps failed am) = Ok (failed \<or> (\<exists>p\<in>set ps. isErr (chk p)))"
  using assms
proof (induction ps arbitrary: P failed am)
  case (Cons p ps)
  have st: "stored_by chk (insert p P) (store_found p (chk p) am)"
    using Cons.prems by (intro stored_by_store) auto
  have IH: "stored_by chk (insert p P \<union> set ps) (snd (analyze_loop chk ps f (store_found p (chk p) am))) \<and>
      fst (analyze_loop chk ps f (store_found p (chk p) am)) = Ok (f \<or> (\<exists>p\<in>set ps. isErr (chk p)))" for f
    using Cons.prems by (intro Cons.IH st) auto
  have ok: "\<not> is_panic (chk p)" "chk p \<noteq> Fuel" using Cons.prems(1) by auto
  show ?case
  proof (cases "chk p")
    case (Ok r)
    then show ?thesis using IH [of failed] by (simp add: isErr_def)
  next
    case (Err e)
    then have "store_found p (chk p) am = am" by (simp add: store_found_def)
    then show ?thesis using IH [of True] Err by (simp add: isErr_def)
  qed (use ok in \<open>auto simp: is_panic_def\<close>)
qed simp

lemma analyze_loop_panic:
  assumes "\<exists>p\<in>set ps. is_panic (chk p)" "\<forall>p\<in>set ps. chk p \<noteq> Fuel"
  shows "is_panic (fst (analyze_loop chk ps failed am))"
  using assms
proof (induction ps arbitrary: failed am)
  case (Cons p ps)
  then show ?case by (cases "chk p") (auto simp: is_panic_def)
qed simp

definition an_rep ::
    "(default_package \<Rightarrow> artifact list option outcome) \<Rightarrow> default_package list \<Rightarrow> analysis \<Rightarrow> bool" where
  "an_rep chk ps s \<longleftrightarrow>
     mset (anGone s) + mset (anHeld s) + mset (anIdle s) = mset ps \<and>
     stored_by chk (set (anGone s)) (anMap s) \<and>
     (\<forall>p\<in>set (anGone s). \<not> is_panic (chk p)) \<and>
     ((anFailed s \<or> True \<in> set (anReady s) \<or> True \<in> set (anChan s)) \<longleftrightarrow> (\<exists>p\<in>set (anGone s). isErr (chk p))) \<and>
     (anCrashed s \<longrightarrow> (\<exists>p\<in>set ps. is_panic (chk p)))"

lemma an_rep_step:
  assumes "an_step chk cap n s s'" "an_rep chk ps s" "distinct (map PackageName ps)"
  shows "an_rep chk ps s'"
  using assms
proof (induction rule: an_step.induct)
  case (check s xs p ys)
  have ms: "mset (anGone s) + mset (xs @ p # ys) + mset (anIdle s) = mset ps"
    using check by (simp add: an_rep_def)
  then have "mset (map PackageName (p # anGone s @ xs @ ys @ anIdle s)) = mset (map PackageName ps)"
    by (metis (no_types, lifting) add.assoc mset.simps(2) mset_append mset_map union_mset_add_mset_right
        union_mset_add_mset_left)
  then have "distinct (map PackageName (p # anGone s @ xs @ ys @ anIdle s))"
    using check.prems(2) mset_eq_imp_distinct_iff by blast
  then have "PackageName p \<notin> PackageName ` set (anGone s)" by auto
  then have "stored_by chk (insert p (set (anGone s))) (store_found p (chk p) (anMap s))"
    using check.prems(1) by (intro stored_by_store) (simp_all add: an_rep_def)
  then show ?case using check ms by (auto simp: an_rep_def)
next
  case (crash s xs p ys)
  then have "p \<in># mset (anGone s) + mset (anHeld s) + mset (anIdle s)" by simp
  then have "p \<in> set ps" using crash.prems(1) by (metis an_rep_def set_mset_mset)
  with crash show ?case by (auto simp: an_rep_def)
qed (auto simp: an_rep_def)

lemma an_rep_steps:
  "an_steps chk cap n s s' \<Longrightarrow> an_rep chk ps s \<Longrightarrow> distinct (map PackageName ps) \<Longrightarrow> an_rep chk ps s'"
  by (induction rule: rtranclp_induct) (auto intro: an_rep_step)

text \<open>
  C10: The goroutines of the analysis compute what checking the installed packages one after the other
  does, whatever their interleaving: a run that has ended reports a failure exactly when one check
  failed and has the same map of available artifacts, and a run crashes only if that panics.
\<close>

theorem analysis_refines:
  assumes "an_steps (checkInstalledPackage E prios) cap (length ps) (an_init ps) s"
    and "distinct (map PackageName ps)"
  shows "(an_final (length ps) s \<and> \<not> anCrashed s \<longrightarrow>
      fst (analyze_loop (checkInstalledPackage E prios) ps False []) = Ok (anFailed s) \<and>
      (\<forall>k. gm_get (anMap s) k = gm_get (snd (analyze_loop (checkInstalledPackage E prios) ps False [])) k)) \<and>
    (anCrashed s \<longrightarrow> is_panic (fst (analyze_loop (checkInstalledPackage E prios) ps False [])))"
proof -
  let ?chk = "checkInstalledPackage E prios"
  let ?r = "analyze_loop ?chk ps False []"
  have "an_rep ?chk ps (an_init ps)"
    by (simp add: an_rep_def an_init_def stored_by_def)
  then have rep: "an_rep ?chk ps s" by (rule an_rep_steps [OF assms(1) _ assms(2)])
  have "an_count (length ps) s" by (rule an_steps_count [OF assms(1) an_init_count])
  then have end_chan: "an_final (length ps) s \<Longrightarrow> anChan s = []"
    by (simp add: an_count_def an_final_def)
  have "fst ?r = Ok (anFailed s) \<and> (\<forall>k. gm_get (anMap s) k = gm_get (snd ?r) k)"
    if fin: "an_final (length ps) s"
  proof -
    have "mset (anGone s) = mset ps" using rep fin by (simp add: an_rep_def an_final_def)
    then have gone: "set (anGone s) = set ps" by (rule mset_eq_setD)
    have nop: "\<forall>p\<in>set ps. \<not> is_panic (?chk p) \<and> ?chk p \<noteq> Fuel"
      using rep checkInstalled_no_fuel unfolding an_rep_def gone by blast
    have run: "stored_by ?chk (set ps) (snd ?r)" "fst ?r = Ok (\<exists>p\<in>set ps. isErr (?chk p))"
      using analyze_loop_result [OF nop assms(2) stored_by_Nil, of False] by simp_all
    have st: "stored_by ?chk (set ps) (anMap s)"
      using rep unfolding an_rep_def gone by blast
    have "anFailed s = (\<exists>p\<in>set ps. isErr (?chk p))"
      using rep fin end_chan [OF fin] unfolding an_rep_def gone an_final_def by simp
    then show ?thesis using run(2) stored_by_unique [OF st run(1)] by simp
  qed
  moreover have "is_panic (fst ?r)" if "anCrashed s"
    using rep that checkInstalled_no_fuel by (intro analyze_loop_panic) (auto simp: an_rep_def)
  ultimately show ?thesis by blast
qed

section \<open>A run\<close>

lemma relpowp_five: "R a b \<Longrightarrow> R b c \<Longrightarrow> R c d \<Longrightarrow> R d e \<Longrightarrow> R e f \<Longrightarrow> (R ^^ 5) a f"
  by (simp add: eval_nat_numeral) blast

text \<open>One package on a concurrency of one, from the semaphore to the end.\<close>

lemma demo_run:
  "\<exists>s. (an_step (checkInstalledPackage (demo_env dup_repo) []) 1 1 ^^ 5) (an_init [demo_pkg ''bar'' ''1.0'' [] []]) s \<and>
     an_final 1 s \<and> \<not> anCrashed s \<and> anMap s = [(''c/bar'', [dup_repo ! 1])]"
proof -
  let ?p = "demo_pkg ''bar'' ''1.0'' [] []"
  let ?chk = "checkInstalledPackage (demo_env dup_repo) []"
  let ?R = "an_step ?chk 1 1"
  have found: "?chk ?p = Ok (Some [dup_repo ! 1])" by code_simp
  have key: "PackageName ?p = ''c/bar''" by code_simp
  let ?s0 = "an_init [?p]"
  let ?s1 = "?s0\<lparr>anIdle := [], anHeld := [?p]\<rparr>"
  let ?s2 = "?s1\<lparr>anHeld := [], anReady := [False], anMap := [(''c/bar'', [dup_repo ! 1])], anGone := [?p]\<rparr>"
  let ?s3 = "?s2\<lparr>anReady := [], anChan := [False], anLeaving := 1\<rparr>"
  let ?s4 = "?s3\<lparr>anLeaving := 0\<rparr>"
  let ?s5 = "?s4\<lparr>anChan := [], anRecv := 1, anFailed := False\<rparr>"
  have r1: "?R ?s0 ?s1"
    using acquire [of ?s0 "[]" ?p "[]" 1 ?chk 1] by (simp add: an_init_def an_units_def)
  have r2: "?R ?s1 ?s2"
    using check [of ?s1 "[]" ?p "[]" ?chk 1 1]
    by (simp add: an_init_def found is_panic_def isErr_def store_found_def key)
  have r3: "?R ?s2 ?s3"
    using send [of ?s2 "[]" False "[]" 1 ?chk 1] by (simp add: an_init_def)
  have r4: "?R ?s3 ?s4"
    using release [of ?s3 0 ?chk 1 1] by (simp add: an_init_def)
  have r5: "?R ?s4 ?s5"
    using receive [of ?s4 False "[]" 1 ?chk 1] by (simp add: an_init_def)
  have "(?R ^^ 5) ?s0 ?s5" by (rule relpowp_five [where R = ?R, OF r1 r2 r3 r4 r5])
  moreover have "an_final 1 ?s5 \<and> \<not> anCrashed ?s5 \<and> anMap ?s5 = [(''c/bar'', [dup_repo ! 1])]"
    by (simp add: an_final_def an_init_def)
  ultimately show ?thesis by blast
qed

theorem analysis_progress_witness:
  "\<exists>s. (an_step (checkInstalledPackage (demo_env dup_repo) []) 1 1 ^^ 5)
      (an_init [demo_pkg ''bar'' ''1.0'' [] []]) s \<and> (5::nat) \<le> 5 * 1 + 1"
proof -
  obtain s where s: "(an_step (checkInstalledPackage (demo_env dup_repo) []) 1 1 ^^ 5)
      (an_init [demo_pkg ''bar'' ''1.0'' [] []]) s"
    using demo_run by blast
  then have "(an_step (checkInstalledPackage (demo_env dup_repo) []) 1 (length [demo_pkg ''bar'' ''1.0'' [] []]) ^^ 5)
      (an_init [demo_pkg ''bar'' ''1.0'' [] []]) s" by simp
  from analysis_progress [OF _ this] s show ?thesis by auto
qed

theorem analysis_refines_witness:
  "gm_get (snd (analyze_loop (checkInstalledPackage (demo_env dup_repo) []) [demo_pkg ''bar'' ''1.0'' [] []] False []))
     ''c/bar'' = Some [dup_repo ! 1]"
proof -
  obtain s where s: "(an_step (checkInstalledPackage (demo_env dup_repo) []) 1 1 ^^ 5)
      (an_init [demo_pkg ''bar'' ''1.0'' [] []]) s" "an_final 1 s" "\<not> anCrashed s"
      "anMap s = [(''c/bar'', [dup_repo ! 1])]"
    using demo_run by blast
  then have "an_steps (checkInstalledPackage (demo_env dup_repo) []) 1 (length [demo_pkg ''bar'' ''1.0'' [] []])
      (an_init [demo_pkg ''bar'' ''1.0'' [] []]) s"
    by (simp add: relpowp_imp_rtranclp)
  note ref = analysis_refines [OF this]
  have "an_final (length [demo_pkg ''bar'' ''1.0'' [] []]) s" using s(2) by simp
  with ref s(3) have "gm_get (anMap s) ''c/bar'' = gm_get (snd (analyze_loop
      (checkInstalledPackage (demo_env dup_repo) []) [demo_pkg ''bar'' ''1.0'' [] []] False [])) ''c/bar''"
    by (simp del: analyze_loop.simps)
  then show ?thesis using s(4) by simp
qed

end
