(* ===== verification/Orphans.thy ===== *)
theory Orphans
  imports Analysis
begin

text \<open>
  The search for the installed packages that no repository has, \<open>pkg/v2/solver/orphans.go\<close>.  One
  goroutine for each installed package takes a unit of a semaphore, searches the repositories for the
  package, sends its answer on a channel and gives the unit back; the caller receives as many answers
  as there are packages, in the order of their arrival, and reads the result off them.

  The answers are of any type in the step relation (\<open>pool_step\<close>), whose theorems say that a run with a
  positive concurrency is never stuck, ends within five steps a package, and receives each answer once.
\<close>

section \<open>Goroutines that answer on a channel\<close>

text \<open>
  \<open>poIdle\<close> are the goroutines before the semaphore, \<open>poHeld\<close> those at work, \<open>poReady\<close> the answers not yet
  sent, \<open>poLeaving\<close> the number of goroutines that have sent and not yet released.
\<close>

record ('p, 'm) pool =
  poIdle :: "'p list"
  poHeld :: "'p list"
  poReady :: "'m list"
  poChan :: "'m list"
  poLeaving :: nat
  poRecv :: "'m list"

definition po_init :: "'p list \<Rightarrow> ('p, 'm) pool" where
  "po_init ps = \<lparr>poIdle = ps, poHeld = [], poReady = [], poChan = [], poLeaving = 0, poRecv = []\<rparr>"

definition po_units :: "('p, 'm) pool \<Rightarrow> nat" where
  "po_units s = length (poHeld s) + length (poReady s) + poLeaving s"

inductive pool_step :: "('p \<Rightarrow> 'm) \<Rightarrow> nat \<Rightarrow> nat \<Rightarrow> ('p, 'm) pool \<Rightarrow> ('p, 'm) pool \<Rightarrow> bool" for f cap n where
  po_acquire: "poIdle s = xs @ p # ys \<Longrightarrow> po_units s < cap \<Longrightarrow>
    pool_step f cap n s (s\<lparr>poIdle := xs @ ys, poHeld := p # poHeld s\<rparr>)"
| po_check: "poHeld s = xs @ p # ys \<Longrightarrow>
    pool_step f cap n s (s\<lparr>poHeld := xs @ ys, poReady := f p # poReady s\<rparr>)"
| po_send: "poReady s = xs @ m # ys \<Longrightarrow> length (poChan s) < cap \<Longrightarrow>
    pool_step f cap n s (s\<lparr>poReady := xs @ ys, poChan := poChan s @ [m], poLeaving := Suc (poLeaving s)\<rparr>)"
| po_release: "poLeaving s = Suc k \<Longrightarrow> pool_step f cap n s (s\<lparr>poLeaving := k\<rparr>)"
| po_receive: "poChan s = m # ms \<Longrightarrow> length (poRecv s) < n \<Longrightarrow>
    pool_step f cap n s (s\<lparr>poChan := ms, poRecv := poRecv s @ [m]\<rparr>)"

inductive_cases pool_stepE: "pool_step f cap n s s'"

definition po_final :: "nat \<Rightarrow> ('p, 'm) pool \<Rightarrow> bool" where
  "po_final n s \<longleftrightarrow>
     length (poRecv s) = n \<and> poIdle s = [] \<and> poHeld s = [] \<and> poReady s = [] \<and> poLeaving s = 0"

text \<open>Every answer is in one place: still to be computed, ready, on the channel, or received.\<close>

definition po_answers :: "('p \<Rightarrow> 'm) \<Rightarrow> ('p, 'm) pool \<Rightarrow> 'm multiset" where
  "po_answers f s = image_mset f (mset (poIdle s) + mset (poHeld s)) + mset (poReady s) + mset (poChan s) +
     mset (poRecv s)"

definition po_weight :: "('p, 'm) pool \<Rightarrow> nat" where
  "po_weight s = 5 * length (poIdle s) + 4 * length (poHeld s) + 3 * length (poReady s) + poLeaving s +
     length (poChan s)"

lemma pool_step_inv:
  "pool_step f cap n s s' \<Longrightarrow>
   po_answers f s' = po_answers f s \<and> po_weight s' < po_weight s \<and>
   (po_units s \<le> cap \<longrightarrow> po_units s' \<le> cap) \<and> (length (poChan s) \<le> cap \<longrightarrow> length (poChan s') \<le> cap)"
  by (induction rule: pool_step.induct) (auto simp: po_answers_def po_weight_def po_units_def)

lemma pool_run_inv:
  "(pool_step f cap n ^^ k) s s' \<Longrightarrow>
   po_answers f s' = po_answers f s \<and> k + po_weight s' \<le> po_weight s \<and>
   (po_units s \<le> cap \<longrightarrow> po_units s' \<le> cap) \<and> (length (poChan s) \<le> cap \<longrightarrow> length (poChan s') \<le> cap)"
proof (induction k arbitrary: s')
  case (Suc k)
  then obtain t where "(pool_step f cap n ^^ k) s t" "pool_step f cap n t s'" by auto
  with Suc.IH [of t] pool_step_inv [of f cap n t s'] show ?case by fastforce
qed simp

lemma po_answers_init [simp]: "po_answers f (po_init ps) = mset (map f ps)"
  by (simp add: po_answers_def po_init_def)

lemma po_count:
  assumes "po_answers f s = mset (map f ps)"
  shows "length (poIdle s) + length (poHeld s) + length (poReady s) + length (poChan s) + length (poRecv s) = length ps"
proof -
  have "size (po_answers f s) = length ps" unfolding assms by simp
  then show ?thesis by (simp add: po_answers_def)
qed

lemma pool_run_final:
  assumes "(pool_step f cap (length ps) ^^ k) (po_init ps) s" "po_final (length ps) s"
  shows "mset (poRecv s) = mset (map f ps)"
proof -
  have a: "po_answers f s = mset (map f ps)" using pool_run_inv [OF assms(1)] by simp
  have "poChan s = []" using po_count [OF a] assms(2) by (simp add: po_final_def)
  with a show ?thesis using assms(2) by (simp add: po_answers_def po_final_def)
qed

lemma pool_run_progress:
  assumes "cap > 0" "(pool_step f cap (length ps) ^^ k) (po_init ps) s"
  shows "(po_final (length ps) s \<or> (\<exists>s'. pool_step f cap (length ps) s s')) \<and> k \<le> 5 * length ps"
proof
  note inv = pool_run_inv [OF assms(2)]
  show "k \<le> 5 * length ps" using inv by (simp add: po_weight_def po_init_def)
  have count: "length (poIdle s) + length (poHeld s) + length (poReady s) + length (poChan s) + length (poRecv s) =
      length ps"
    using inv by (intro po_count [where f = f]) simp
  show "po_final (length ps) s \<or> (\<exists>s'. pool_step f cap (length ps) s s')"
  proof (rule ccontr)
    assume stuck: "\<not> ?thesis"
    then have no: "\<And>s'. \<not> pool_step f cap (length ps) s s'" by blast
    have held: "poHeld s = []"
      using no po_check [of s "[]" _ _ f cap "length ps"] by (cases "poHeld s") auto
    have leaving: "poLeaving s = 0"
      using no po_release [of s] by (cases "poLeaving s") blast+
    have chan: "poChan s = []"
    proof (cases "poChan s")
      case (Cons m ms)
      then have "length (poRecv s) < length ps" using count by simp
      with Cons show ?thesis using no po_receive [of s m ms "length ps" f cap] by blast
    qed
    have ready: "poReady s = []"
      using no po_send [of s "[]" _ _ cap f "length ps"] chan assms(1) by (cases "poReady s") auto
    have idle: "poIdle s = []"
      using no po_acquire [of s "[]" _ _ cap f "length ps"] held ready leaving assms(1)
      by (cases "poIdle s") (auto simp: po_units_def)
    have "length (poRecv s) = length ps" using count held ready chan idle by simp
    then show False using stuck held ready leaving idle by (simp add: po_final_def)
  qed
qed

section \<open>Orphans\<close>

definition orphan_search :: "bool \<Rightarrow> default_package \<Rightarrow> search_opts" where
  "orphan_search ignoreMasks p = (pkgs_search True ignoreMasks [p])\<lparr>soWithFiles := False, soFull := False\<rparr>"

text \<open>The answer of a goroutine: an error, and the package when it failed or was not found.\<close>

type_synonym channel_error = "err option \<times> default_package option"

definition checkOrphanPackage :: "solver_env \<Rightarrow> default_package \<Rightarrow> channel_error" where
  "checkOrphanPackage E p =
     (case seSearch E (orphan_search (IgnoreMasks (seOpts E)) p) of
        Inl e \<Rightarrow> (Some e, Some p)
      | Inr reposArtifacts \<Rightarrow> if length reposArtifacts = 0 then (None, Some p) else (None, None))"

text \<open>What the caller makes of the answers it receives.\<close>

fun orphans_recv :: "channel_error list \<Rightarrow> default_package list \<Rightarrow> bool \<Rightarrow> default_package list res" where
  "orphans_recv [] ans failed = (if failed then Inl ''Orphans research interrupted for errors.'' else Inr ans)"
| "orphans_recv (r # rs) ans failed =
     (case r of
        (Some e, _) \<Rightarrow> orphans_recv rs ans True
      | (None, Some p) \<Rightarrow> orphans_recv rs (ans @ [p]) failed
      | (None, None) \<Rightarrow> orphans_recv rs ans failed)"

text \<open>
  What \<open>Orphans\<close> may return: the installed packages are checked in a run of the goroutines to its end.
\<close>

inductive Orphans ::
    "solver_env \<Rightarrow> nat \<Rightarrow> default_package list \<Rightarrow> err option \<Rightarrow> solver_state \<Rightarrow> default_package list res \<Rightarrow> bool" where
  "st = prepareConflictsAndSystemMap E world False st0 \<Longrightarrow> Orphans E cap world (Some e) st0 (Inl e)"
| "st = prepareConflictsAndSystemMap E world False st0 \<Longrightarrow>
   ps = installed_firsts (st_range E st (systemMap st)) \<Longrightarrow>
   (pool_step (checkOrphanPackage E) cap (length ps) ^^ k) (po_init ps) s \<Longrightarrow> po_final (length ps) s \<Longrightarrow>
   Orphans E cap world None st0 (orphans_recv (poRecv s) [] False)"


section \<open>What the search for the orphans returns\<close>

lemma orphans_recv_spec:
  "orphans_recv rs ans failed =
     (if failed \<or> (\<exists>r\<in>set rs. fst r \<noteq> None) then Inl ''Orphans research interrupted for errors.''
      else Inr (ans @ map (the \<circ> snd) (filter (\<lambda>r. snd r \<noteq> None) rs)))"
  by (induction rs ans failed rule: orphans_recv.induct) (auto split: prod.splits option.splits)

lemma checkOrphanPackage_err:
  "fst (checkOrphanPackage E p) \<noteq> None \<longleftrightarrow> \<not> ok (seSearch E (orphan_search (IgnoreMasks (seOpts E)) p))"
  by (simp add: checkOrphanPackage_def split: sum.split)

definition orphan :: "solver_env \<Rightarrow> default_package \<Rightarrow> bool" where
  "orphan E p \<longleftrightarrow> seSearch E (orphan_search (IgnoreMasks (seOpts E)) p) = Inr []"

lemma checkOrphanPackage_none:
  "ok (seSearch E (orphan_search (IgnoreMasks (seOpts E)) p)) \<Longrightarrow>
   snd (checkOrphanPackage E p) = (if orphan E p then Some p else None)"
  by (auto simp: checkOrphanPackage_def orphan_def split: sum.split)

definition nonempty_lists :: "pkgs_map \<Rightarrow> bool" where
  "nonempty_lists m \<longleftrightarrow> (\<forall>k. gm_get m k \<noteq> Some [])"

lemma prepare_all_wf:
  "gm_wf (systemMap st) \<and> nonempty_lists (systemMap st) \<Longrightarrow>
   gm_wf (systemMap (prepare_all E w ps st)) \<and> nonempty_lists (systemMap (prepare_all E w ps st))"
  by (induction E w ps st rule: prepare_all.induct)
     (auto simp: prepare_one_def Let_def pm_Add_def nonempty_lists_def split: option.splits)

lemma one_of_name:
  "distinct (map PackageName ps) \<Longrightarrow> p \<in> set ps \<Longrightarrow> filter (\<lambda>q. PackageName q = PackageName p) ps = [p]"
  by (induction ps) (auto simp: filter_empty_conv intro: rev_image_eqI)

lemma system_firsts:
  assumes "orders_ok E" "distinct (map PackageName world)"
    and st: "st = prepareConflictsAndSystemMap E world w st0"
  shows "mset (installed_firsts (st_range E st (systemMap st))) = mset world"
proof -
  let ?r = "st_range E st (systemMap st)"
  let ?fs = "installed_firsts ?r"
  have vals: "pm_vals (systemMap st) k = filter (\<lambda>q. PackageName q = k) world" for k
    by (simp add: st prepareConflictsAndSystemMap_def Let_def prepare_all_system)
  have wf: "gm_wf (systemMap st)" "nonempty_lists (systemMap st)"
    using prepare_all_wf [of "st0\<lparr>conflictsMap := [], systemMap := [], providesMap := []\<rparr>" E w world]
      prepare_all_wf [of "st0\<lparr>conflictsMap := [], systemMap := [], providesMap := [], requiresMap := []\<rparr>" E w world]
    by (auto simp: st prepareConflictsAndSystemMap_def Let_def nonempty_lists_def)
  have get: "gm_get (systemMap st) k = Some ps \<longleftrightarrow> ps \<noteq> [] \<and> ps = filter (\<lambda>q. PackageName q = k) world" for k ps
    using vals [of k] wf(2) unfolding nonempty_lists_def pm_vals_def by (cases "gm_get (systemMap st) k") auto
  have entry: "(k, ps) \<in> set ?r \<longleftrightarrow> (\<exists>p\<in>set world. ps = [p] \<and> k = PackageName p)" for k ps
    unfolding st_range_iff [OF assms(1)] get
    using one_of_name [OF assms(2)] by (auto simp: filter_empty_conv)
  have names: "map PackageName ?fs = map fst ?r"
    unfolding installed_firsts_def by (auto simp: entry)
  have "distinct (map fst ?r)"
    using assms(1) wf(1)
    by (simp add: orders_ok_def st_range_def map_order.range_keys map_order.it_distinct gm_wf_def gm_keys_def)
  then have "distinct ?fs" unfolding names [symmetric] by (simp add: distinct_map)
  moreover have "distinct world" using assms(2) by (simp add: distinct_map)
  moreover have "set ?fs = set world"
  proof
    show "set ?fs \<subseteq> set world" unfolding installed_firsts_def using entry by auto
    show "set world \<subseteq> set ?fs"
    proof
      fix p assume "p \<in> set world"
      then have "(PackageName p, [p]) \<in> set ?r" using entry by blast
      then show "p \<in> set ?fs" unfolding installed_firsts_def by force
    qed
  qed
  ultimately show ?thesis by (simp add: set_eq_iff_mset_eq_distinct)
qed

text \<open>
  C21: Whatever the interleaving of its goroutines, the search for the orphans reports an error exactly
  when the search for some installed package fails, and otherwise returns each installed package for
  which the repositories have nothing exactly once.
\<close>

theorem Orphans_correct:
  assumes "Orphans E cap world None st0 r" "orders_ok E" "distinct (map PackageName world)"
  shows "case r of
      Inl e \<Rightarrow> \<exists>p\<in>set world. \<not> ok (seSearch E (orphan_search (IgnoreMasks (seOpts E)) p))
    | Inr ans \<Rightarrow> (\<forall>p\<in>set world. ok (seSearch E (orphan_search (IgnoreMasks (seOpts E)) p))) \<and>
        mset ans = mset (filter (orphan E) world)"
proof -
  obtain st ps k s where st: "st = prepareConflictsAndSystemMap E world False st0"
    and ps: "ps = installed_firsts (st_range E st (systemMap st))"
    and run: "(pool_step (checkOrphanPackage E) cap (length ps) ^^ k) (po_init ps) s" "po_final (length ps) s"
    and r: "r = orphans_recv (poRecv s) [] False"
    using assms(1) by (cases rule: Orphans.cases) auto
  have m: "mset (poRecv s) = image_mset (checkOrphanPackage E) (mset world)"
    using pool_run_final [OF run] system_firsts [OF assms(2,3) st] ps by simp
  have set: "set (poRecv s) = checkOrphanPackage E ` set world"
    using arg_cong [OF m, of set_mset] by simp
  show ?thesis
  proof (cases "\<forall>p\<in>set world. ok (seSearch E (orphan_search (IgnoreMasks (seOpts E)) p))")
    case False
    then have "\<exists>r\<in>set (poRecv s). fst r \<noteq> None" unfolding set using checkOrphanPackage_err by blast
    then show ?thesis using False r by (simp add: orphans_recv_spec)
  next
    case True
    then have "\<not> (\<exists>r\<in>set (poRecv s). fst r \<noteq> None)" unfolding set using checkOrphanPackage_err by blast
    then have ans: "r = Inr (map (the \<circ> snd) (filter (\<lambda>r. snd r \<noteq> None) (poRecv s)))"
      using r by (simp add: orphans_recv_spec)
    have "mset (map (the \<circ> snd) (filter (\<lambda>r. snd r \<noteq> None) (poRecv s))) =
        image_mset (the \<circ> snd) (filter_mset (\<lambda>r. snd r \<noteq> None) (image_mset (checkOrphanPackage E) (mset world)))"
      by (simp only: mset_map mset_filter m)
    also have "\<dots> = mset (filter (orphan E) world)"
      using True by (induction world) (auto simp: checkOrphanPackage_none)
    finally show ?thesis using ans True by simp
  qed
qed

text \<open>
  The search for the orphans returns: with a positive concurrency no run of the goroutines is stuck
  and none takes more than five steps for each package.
\<close>

theorem Orphans_progress:
  assumes "cap > 0" "(pool_step (checkOrphanPackage E) cap (length ps) ^^ k) (po_init ps) s"
  shows "(po_final (length ps) s \<or> (\<exists>s'. pool_step (checkOrphanPackage E) cap (length ps) s s')) \<and> k \<le> 5 * length ps"
  by (rule pool_run_progress [OF assms])


section \<open>A concrete run\<close>

lemma pool_single: "\<exists>s. (pool_step f 1 1 ^^ 5) (po_init [p]) s \<and> po_final 1 s \<and> poRecv s = [f p]"
proof -
  let ?R = "pool_step f 1 1"
  let ?s0 = "po_init [p] :: ('a, 'b) pool"
  let ?s1 = "?s0\<lparr>poIdle := [], poHeld := [p]\<rparr>"
  let ?s2 = "?s1\<lparr>poHeld := [], poReady := [f p]\<rparr>"
  let ?s3 = "?s2\<lparr>poReady := [], poChan := [f p], poLeaving := 1\<rparr>"
  let ?s4 = "?s3\<lparr>poLeaving := 0\<rparr>"
  let ?s5 = "?s4\<lparr>poChan := [], poRecv := [f p]\<rparr>"
  have r1: "?R ?s0 ?s1"
    using po_acquire [of ?s0 "[]" p "[]" 1 f 1] by (simp add: po_init_def po_units_def)
  have r2: "?R ?s1 ?s2"
    using po_check [of ?s1 "[]" p "[]" f 1 1] by (simp add: po_init_def)
  have r3: "?R ?s2 ?s3"
    using po_send [of ?s2 "[]" "f p" "[]" 1 f 1] by (simp add: po_init_def)
  have r4: "?R ?s3 ?s4"
    using po_release [of ?s3 0 f 1 1] by simp
  have r5: "?R ?s4 ?s5"
    using po_receive [of ?s4 "f p" "[]" 1 f 1] by (simp add: po_init_def)
  have "(?R ^^ 5) ?s0 ?s5"
    by (rule relpowp_five [where R = ?R, OF r1 r2 r3 r4 r5])
  moreover have "po_final 1 ?s5" by (simp add: po_final_def po_init_def)
  ultimately show ?thesis by (intro exI [of _ ?s5]) simp
qed

definition lone :: default_package where
  "lone = demo_pkg ''bar'' ''1.0'' [] []"

lemma lone_run: "Orphans (demo_env demo_repo) 1 [lone] None NewSolver (Inr [lone])"
proof -
  let ?E = "demo_env demo_repo"
  let ?st = "prepareConflictsAndSystemMap ?E [lone] False NewSolver"
  have ps: "[lone] = installed_firsts (st_range ?E ?st (systemMap ?st))" by code_simp
  have c: "checkOrphanPackage ?E lone = (None, Some lone)" by code_simp
  obtain s where s: "(pool_step (checkOrphanPackage ?E) 1 1 ^^ 5) (po_init [lone]) s" "po_final 1 s"
    "poRecv s = [checkOrphanPackage ?E lone]"
    using pool_single [of "checkOrphanPackage ?E" lone] by (elim exE conjE)
  have "Orphans ?E 1 [lone] None NewSolver (orphans_recv (poRecv s) [] False)"
    using Orphans.intros(2) [OF refl ps, where cap = 1 and k = 5 and s = s] s(1,2) by simp
  then show ?thesis using s(3) c by simp
qed

theorem Orphans_correct_witness: "mset [lone] = mset (filter (orphan (demo_env demo_repo)) [lone])"
  using Orphans_correct [OF lone_run demo_orders] by simp

theorem Orphans_progress_witness:
  "\<exists>s. (pool_step (checkOrphanPackage (demo_env demo_repo)) 1 1 ^^ 5) (po_init [lone]) s \<and> (5::nat) \<le> 5 * 1"
proof -
  obtain s where "(pool_step (checkOrphanPackage (demo_env demo_repo)) 1 1 ^^ 5) (po_init [lone]) s"
    using pool_single [of "checkOrphanPackage (demo_env demo_repo)" lone] by (elim exE conjE)
  then show ?thesis
    using Orphans_progress [where cap = 1 and E = "demo_env demo_repo" and ps = "[lone]" and k = 5 and s = s] by auto
qed

end
