(* ===== verification/DatabaseProofs.thy ===== *)
theory DatabaseProofs
  imports Database Orphans
begin

text \<open>
  The databases: the collections on disk are well formed and every operation keeps them so; the search
  through the provides ends unless packages provide each other in a circle; a copy in memory answers the
  queries as the database on disk does; and what the database in memory forgets.
\<close>

section \<open>Collections\<close>

definition coll_wf :: "('a \<Rightarrow> string) \<Rightarrow> 'a coll \<Rightarrow> bool" where
  "coll_wf uniq c \<longleftrightarrow>
     sorted_wrt (<) (map fst (clRecs c)) \<and>
     (\<forall>(i, x)\<in>set (clRecs c). \<forall>(j, y)\<in>set (clRecs c). uniq x \<noteq> [] \<and> uniq x = uniq y \<longrightarrow> i = j)"

lemma coll_wf_uniqueD:
  assumes "coll_wf uniq c" "(i, x) \<in> set (clRecs c)" "(j, y) \<in> set (clRecs c)" "uniq x \<noteq> []" "uniq x = uniq y"
  shows "i = j"
  using bspec [OF bspec [OF conjunct2 [OF assms(1) [unfolded coll_wf_def]] assms(2), unfolded prod.case] assms(3)]
    assms(4,5) by simp

lemma rec_put_keys: "fst ` set (rec_put i x rs) = insert i (fst ` set rs)"
proof (induction rs)
  case (Cons r rs)
  then show ?case by (cases r) (simp add: insert_commute)
qed simp

lemma rec_put_sorted: "sorted_wrt (<) (map fst rs) \<Longrightarrow> sorted_wrt (<) (map fst (rec_put i x rs))"
proof (induction rs)
  case (Cons r rs)
  obtain j y where r: "r = (j, y)" by force
  have "k \<in> fst ` set (rec_put i x rs) \<Longrightarrow> j < i \<Longrightarrow> j < k" for k
    using Cons.prems unfolding rec_put_keys r by auto
  with Cons show ?case by (auto simp: r)
qed simp

lemma rec_put_set:
  "sorted_wrt (<) (map fst rs) \<Longrightarrow> set (rec_put i x rs) = insert (i, x) {r \<in> set rs. fst r \<noteq> i}"
proof (induction rs)
  case (Cons r rs)
  obtain j y where r: "r = (j, y)" by force
  have "\<forall>q\<in>set rs. j < fst q" using Cons.prems by (simp add: r)
  then have "i \<le> j \<Longrightarrow> {q \<in> set rs. fst q \<noteq> i} = set rs" by force
  with Cons show ?case by (auto simp: r)
qed simp

lemma coll_wf_empty [simp]: "coll_wf uniq empty_coll"
  by (simp add: coll_wf_def empty_coll_def)

lemma coll_wf_save:
  assumes "coll_wf uniq c" "coll_save uniq i mk c = (r, c')"
  shows "coll_wf uniq c'"
proof -
  let ?i = "if i = 0 then clLast c + 1 else i"
  show ?thesis
  proof (cases "list_ex (\<lambda>(j, y). j \<noteq> ?i \<and> uniq y \<noteq> [] \<and> uniq y = uniq (mk ?i)) (clRecs c)")
    case True
    then show ?thesis using assms by (simp add: coll_save_def Let_def split: if_splits)
  next
    case False
    then have c': "clRecs c' = rec_put ?i (mk ?i) (clRecs c)"
      using assms(2) by (auto simp: coll_save_def Let_def split: if_splits)
    have s: "sorted_wrt (<) (map fst (clRecs c))" using assms(1) by (simp add: coll_wf_def)
    have free: "\<And>j y. (j, y) \<in> set (clRecs c) \<Longrightarrow> uniq y \<noteq> [] \<Longrightarrow> uniq y = uniq (mk ?i) \<Longrightarrow> j = ?i"
      using False unfolding list_ex_iff by blast
    have u: "\<And>j y k z. (j, y) \<in> set (clRecs c) \<Longrightarrow> (k, z) \<in> set (clRecs c) \<Longrightarrow> uniq y \<noteq> [] \<Longrightarrow>
        uniq y = uniq z \<Longrightarrow> j = k"
      using assms(1) unfolding coll_wf_def by blast
    show ?thesis
      unfolding coll_wf_def c' using rec_put_sorted [OF s] rec_put_set [OF s] free u by fastforce
  qed
qed

lemma coll_wf_delete: "coll_wf uniq c \<Longrightarrow> coll_wf uniq (coll_delete i c)"
  unfolding coll_wf_def coll_delete_def
  by (auto simp: sorted_wrt_map intro: sorted_wrt_filter)

lemma find_unique:
  assumes "x \<in> set xs" "P x" "\<And>y. y \<in> set xs \<Longrightarrow> P y \<Longrightarrow> y = x"
  shows "find P xs = Some x"
proof (cases "find P xs")
  case None
  then show ?thesis using assms(1,2) by (simp add: find_None_iff)
next
  case (Some y)
  from find_SomeD [OF this] assms(3) have "y = x" by blast
  with Some show ?thesis by simp
qed

lemma coll_first_iff:
  assumes "coll_wf uniq c" "k \<noteq> []"
  shows "coll_first (\<lambda>x. uniq x = k) c = Inr (i, x) \<longleftrightarrow> (i, x) \<in> set (clRecs c) \<and> uniq x = k"
proof
  assume "coll_first (\<lambda>x. uniq x = k) c = Inr (i, x)"
  then have "find (\<lambda>(j, y). uniq y = k) (clRecs c) = Some (i, x)"
    by (auto simp: coll_first_def split: option.splits)
  from find_SomeD [OF this] show "(i, x) \<in> set (clRecs c) \<and> uniq x = k" by simp
next
  assume x: "(i, x) \<in> set (clRecs c) \<and> uniq x = k"
  have d: "distinct (map fst (clRecs c))"
    using assms(1) unfolding coll_wf_def by (auto simp: strict_sorted_iff)
  have ji: "j = i" if "(j, y) \<in> set (clRecs c)" "uniq y = k" for j y
    using coll_wf_uniqueD [OF assms(1) that(1), of i x] x that(2) assms(2) by simp
  have "r = (i, x)" if "r \<in> set (clRecs c)" "case r of (j, y) \<Rightarrow> uniq y = k" for r
  proof -
    obtain j y where r: "r = (j, y)" by (cases r)
    have j: "j = i" using ji [of j y] that r by simp
    have "y = x" using eq_key_imp_eq_value [OF d, of i y x] that(1) x r j by simp
    then show ?thesis using r j by simp
  qed
  then have "find (\<lambda>(j, y). uniq y = k) (clRecs c) = Some (i, x)"
    using x by (intro find_unique) auto
  then show "coll_first (\<lambda>x. uniq x = k) c = Inr (i, x)" by (simp add: coll_first_def)
qed

section \<open>The database on disk\<close>

definition ids_below :: "'a coll \<Rightarrow> bool" where
  "ids_below c \<longleftrightarrow> (\<forall>i\<in>fst ` set (clRecs c). i \<le> clLast c)"

lemma ids_below_save: "ids_below c \<Longrightarrow> ids_below (snd (coll_save uniq 0 mk c))"
proof -
  assume "ids_below c"
  then have "\<forall>i\<in>fst ` set (rec_put (clLast c + 1) x (clRecs c)). i \<le> clLast c + 1" for x
    unfolding rec_put_keys by (auto simp: ids_below_def)
  then show ?thesis using \<open>ids_below c\<close> by (simp add: ids_below_def coll_save_def Let_def)
qed

lemma ids_below_delete: "ids_below c \<Longrightarrow> ids_below (coll_delete i c)"
  by (auto simp: ids_below_def coll_delete_def)

definition packages_ok :: "default_package coll \<Rightarrow> bool" where
  "packages_ok c \<longleftrightarrow> coll_wf (\<lambda>_. []) c \<and> (\<forall>(i, p)\<in>set (clRecs c). i \<noteq> 0 \<and> ID (pkg_data p) = i \<and> i \<le> clLast c)"

text \<open>
  Every record has the identifier it is under, at most the last given; no two records of the files or of
  the finalizers are of the same package.
\<close>

definition bolt_ok :: "bolt_db \<Rightarrow> bool" where
  "bolt_ok db \<longleftrightarrow> packages_ok (bdPackages db) \<and> 0 \<le> clLast (bdPackages db) \<and> coll_wf fst (bdFiles db) \<and>
     ids_below (bdFiles db) \<and>     coll_wf fzFingerprint (bdFinalizers db)"

lemma packages_okD:
  assumes "packages_ok c" "(i, p) \<in> set (clRecs c)"
  shows "i \<noteq> 0 \<and> ID (pkg_data p) = i \<and> i \<le> clLast c"
  using bspec [OF conjunct2 [OF assms(1) [unfolded packages_ok_def]] assms(2)] by simp

lemma set_ID_sel [simp]:
  "ID (pkg_data (set_ID p i)) = i" "pName (set_ID p i) = pName p" "pCategory (set_ID p i) = pCategory p"
  "pVersion (set_ID p i) = pVersion p"
  by (simp_all add: set_ID_def)

lemma create_cases:
  assumes "bd_CreatePackage p db = (r, db')"
  obtains e where "r = Inl e" "db' = db"
  | i c where "r = Inr i" "bdOpenErr db = None" "coll_save (\<lambda>_. []) (ID (pkg_data p)) (set_ID p) (bdPackages db) = (Inr i, c)"
    "db' = db\<lparr>bdPackages := c, bdProvides := add_provides_db (Provides p) (set_ID p i) (bdProvides db)\<rparr>"
  using assms by (auto simp: bd_CreatePackage_def split: option.splits prod.splits sum.splits)

lemma save_package:
  assumes "coll_save (\<lambda>_. []) i0 mk c = (Inr i, c')"
  shows "i = (if i0 = 0 then clLast c + 1 else i0)" "clRecs c' = rec_put i (mk i) (clRecs c)"
    "clLast c' = (if i0 = 0 then i else clLast c)"
  using assms by (auto simp: coll_save_def Let_def split: if_splits)

lemma packages_ok_save:
  assumes "packages_ok c" "0 \<le> clLast c" "coll_save (\<lambda>_. []) (ID (pkg_data p)) (set_ID p) c = (Inr i, c')"
    and "ID (pkg_data p) \<le> clLast c"
  shows "packages_ok c' \<and> 0 \<le> clLast c'"
proof -
  note s = save_package [OF assms(3)]
  have wf: "coll_wf (\<lambda>_. []) c" using assms(1) by (simp add: packages_ok_def)
  have "sorted_wrt (<) (map fst (clRecs c))" using wf by (simp add: coll_wf_def)
  then have recs: "set (clRecs c') = insert (i, set_ID p i) {r \<in> set (clRecs c). fst r \<noteq> i}"
    unfolding s(2) by (rule rec_put_set)
  have "i \<noteq> 0" "i \<le> clLast c'" "clLast c \<le> clLast c'" using s(1,3) assms(2,4) by (auto split: if_splits)
  then have "\<forall>(j, q)\<in>set (clRecs c'). j \<noteq> 0 \<and> ID (pkg_data q) = j \<and> j \<le> clLast c'"
    unfolding recs using packages_okD [OF assms(1)] by fastforce
  then show ?thesis
    using coll_wf_save [OF wf assms(3)] assms(2) \<open>clLast c \<le> clLast c'\<close> by (simp add: packages_ok_def)
qed

lemma packages_ok_delete: "packages_ok c \<Longrightarrow> packages_ok (coll_delete i c)"
  using coll_wf_delete [of "\<lambda>_. []" c i] by (auto simp: packages_ok_def coll_delete_def)

lemma bolt_create_ok:
  assumes "bolt_ok db" "ID (pkg_data p) \<le> clLast (bdPackages db)" "bd_CreatePackage p db = (r, db')"
  shows "bolt_ok db'"
  using assms(3)
proof (cases rule: create_cases)
  case (2 i c)
  then show ?thesis using packages_ok_save [of "bdPackages db" p i c] assms(1,2) by (simp add: bolt_ok_def)
qed (use assms(1) in simp)

lemma coll_save_Inl: "coll_save uniq i mk c = (Inl e, c') \<Longrightarrow> c' = c"
  by (auto simp: coll_save_def Let_def split: if_splits)

lemma bolt_remove_ok: "bolt_ok db \<Longrightarrow> bolt_ok (snd (bd_RemovePackage p db))"
  using packages_ok_delete
  by (auto simp: bd_RemovePackage_def bolt_ok_def coll_delete_def split: option.splits sum.splits prod.splits)

lemma bolt_files_ok:
  assumes "bolt_ok db"
  shows "bolt_ok (snd (bd_SetPackageFiles fp files db)) \<and> bolt_ok (snd (bd_RemovePackageFiles p db))"
  using assms coll_wf_save [of fst "bdFiles db" 0 "\<lambda>_. (fp, files)"] coll_wf_delete [of fst "bdFiles db"]
    ids_below_save [of "bdFiles db" fst "\<lambda>_. (fp, files)"] ids_below_delete [of "bdFiles db"]
  by (auto simp: bd_SetPackageFiles_def bd_RemovePackageFiles_def bolt_ok_def split: option.splits prod.splits sum.splits)

lemma bolt_finalizer_ok:
  assumes "bolt_ok db"
  shows "bolt_ok (snd (bd_SetPackageFinalizer f db)) \<and> bolt_ok (snd (bd_RemovePackageFinalizer p db))"
  using assms coll_wf_save [of fzFingerprint "bdFinalizers db" "fzID f" "\<lambda>i. f\<lparr>fzID := i\<rparr>"]
    coll_wf_delete [of fzFingerprint "bdFinalizers db"]
  by (auto simp: bd_SetPackageFinalizer_def bd_RemovePackageFinalizer_def bolt_ok_def
      split: option.splits prod.splits sum.splits if_splits)

text \<open>
  C22: The database on disk stays well formed under all its operations, as long as a package is created
  with an identifier that is new (zero) or was given before: every package is under its own identifier,
  the identifiers are in order, and a package has at most one record of files and one finalizer.
\<close>

theorem bolt_db_wf:
  "bolt_ok NewBoltDatabase \<and>
   (bolt_ok db \<longrightarrow>
      (ID (pkg_data p) \<le> clLast (bdPackages db) \<longrightarrow>
         bolt_ok (snd (bd_CreatePackage p db)) \<and> bolt_ok (snd (bd_UpdatePackage p db))) \<and>
      bolt_ok (snd (bd_RemovePackage p db)) \<and> bolt_ok (snd (bd_SetPackageFiles fp files db)) \<and>
      bolt_ok (snd (bd_RemovePackageFiles p db)) \<and> bolt_ok (snd (bd_SetPackageFinalizer f db)) \<and>
      bolt_ok (snd (bd_RemovePackageFinalizer p db)))"
proof -
  have new: "bolt_ok NewBoltDatabase"
    by (simp add: bolt_ok_def NewBoltDatabase_def packages_ok_def) (simp add: empty_coll_def ids_below_def)
  have create: "bolt_ok (snd (bd_CreatePackage p db))" if "bolt_ok db" "ID (pkg_data p) \<le> clLast (bdPackages db)" for db
    using bolt_create_ok [OF that] by (cases "bd_CreatePackage p db") simp
  have "bolt_ok (snd (bd_UpdatePackage p db))" if "bolt_ok db" "ID (pkg_data p) \<le> clLast (bdPackages db)"
  proof -
    obtain e db1 where r: "bd_RemovePackage p db = (e, db1)" by force
    obtain i db2 where c: "bd_CreatePackage p db1 = (i, db2)" by force
    have "clLast (bdPackages db1) = clLast (bdPackages db)"
      using r by (auto simp: bd_RemovePackage_def coll_delete_def split: option.splits sum.splits prod.splits)
    moreover have "bolt_ok db1" using bolt_remove_ok [OF that(1), of p] r by simp
    ultimately have "bolt_ok db2" using bolt_create_ok [OF _ _ c] that(2) by simp
    then show ?thesis using \<open>bolt_ok db1\<close> by (cases e; cases i) (simp_all add: bd_UpdatePackage_def r c)
  qed
  with new create show ?thesis by (simp add: bolt_remove_ok bolt_files_ok bolt_finalizer_ok)
qed

theorem bolt_db_wf_witness:
  "bolt_ok (snd (bd_CreatePackage (demo_pkg ''foo'' ''1.0'' [] []) NewBoltDatabase))"
  using bolt_db_wf [of NewBoltDatabase "demo_pkg ''foo'' ''1.0'' [] []"]
  by (simp add: NewBoltDatabase_def empty_coll_def demo_pkg_def NewPackageWithCat_def empty_info_def)

subsection \<open>A package registered and removed\<close>

lemma rec_put_last: "\<forall>j\<in>fst ` set rs. j < i \<Longrightarrow> rec_put i x rs = rs @ [(i, x)]"
  by (induction rs) auto

lemma filter_fst_neq: "\<forall>j\<in>fst ` set rs. j \<noteq> i \<Longrightarrow> filter (\<lambda>(j, y). j \<noteq> i) rs = rs"
  by (induction rs) auto

lemma find_append_last: "\<not> list_ex P xs \<Longrightarrow> P x \<Longrightarrow> find P (xs @ [x]) = Some x"
  by (induction xs) auto

text \<open>A new record is the last one, is found by what is only its own, and its removal leaves the others.\<close>

lemma coll_save_new:
  assumes "ids_below c" "\<not> list_ex (\<lambda>(j, y). uniq y \<noteq> [] \<and> uniq y = uniq (mk (clLast c + 1))) (clRecs c)"
  shows "coll_save uniq 0 mk c =
    (Inr (clLast c + 1), \<lparr>clLast = clLast c + 1, clRecs = clRecs c @ [(clLast c + 1, mk (clLast c + 1))]\<rparr>)"
proof -
  have "\<forall>j\<in>fst ` set (clRecs c). j < clLast c + 1" using assms(1) by (auto simp: ids_below_def)
  then show ?thesis
    using assms(2) by (auto simp: coll_save_def Let_def rec_put_last list_ex_iff)
qed

lemma coll_new_first:
  "\<not> list_ex (\<lambda>(j, y). P y) (clRecs c) \<Longrightarrow> P x \<Longrightarrow>
   coll_first P \<lparr>clLast = l, clRecs = clRecs c @ [(i, x)]\<rparr> = Inr (i, x)"
  using find_append_last [of "\<lambda>(j, y). P y" "clRecs c" "(i, x)"] by (simp add: coll_first_def)

lemma coll_new_delete:
  "ids_below c \<Longrightarrow> clRecs (coll_delete (clLast c + 1) \<lparr>clLast = l, clRecs = clRecs c @ [(clLast c + 1, x)]\<rparr>) = clRecs c"
  by (auto simp: coll_delete_def ids_below_def intro!: filter_fst_neq)

lemma packages_ids_below: "packages_ok c \<Longrightarrow> ids_below c"
  unfolding ids_below_def using packages_okD by fastforce

text \<open>
  C23: A new package with its files, registered on disk, is the last of the world with those files; when it
  is removed again the world and the files are what they were.
\<close>

theorem bolt_register_remove:
  assumes "bolt_ok db" "bdOpenErr db = None" "ID (pkg_data p) = 0"
    and new: "\<not> list_ex (same_package p) (bd_World db)" "\<not> ok (bd_GetPackageFiles p db)"
  shows "\<exists>i db1 db2 db3 db4. bd_SetPackageFiles (GetFingerPrint p) files db = (None, db1) \<and>
    bd_CreatePackage p db1 = (Inr i, db2) \<and>
    bd_World db2 = bd_World db @ [set_ID p i] \<and> bd_GetPackageFiles p db2 = Inr files \<and>
    bd_RemovePackageFiles p db2 = (None, db3) \<and> bd_RemovePackage p db3 = (None, db4) \<and>
    bd_World db4 = bd_World db \<and> clRecs (bdFiles db4) = clRecs (bdFiles db)"
proof -
  let ?P = "bdPackages db" and ?F = "bdFiles db"
  let ?i = "clLast ?P + 1" and ?j = "clLast ?F + 1"
  let ?p = "set_ID p ?i" and ?f = "(GetFingerPrint p, files)"
  let ?P' = "\<lparr>clLast = ?i, clRecs = clRecs ?P @ [(?i, ?p)]\<rparr>"
  let ?F' = "\<lparr>clLast = ?j, clRecs = clRecs ?F @ [(?j, ?f)]\<rparr>"
  let ?db1 = "db\<lparr>bdFiles := ?F'\<rparr>"
  let ?db2 = "?db1\<lparr>bdPackages := ?P', bdProvides := add_provides_db (Provides p) ?p (bdProvides db)\<rparr>"
  let ?db3 = "?db2\<lparr>bdFiles := coll_delete ?j ?F'\<rparr>"
  let ?db4 = "?db3\<lparr>bdPackages := coll_delete ?i ?P'\<rparr>"
  have below: "ids_below ?P" "ids_below ?F"
    using assms(1) packages_ids_below by (auto simp: bolt_ok_def)
  have nf: "\<not> list_ex (\<lambda>(j, y). fst y = GetFingerPrint p) (clRecs ?F)"
    using new(2) assms(2) find_None_iff [of "\<lambda>(j, y). fst y = GetFingerPrint p" "clRecs ?F"]
    by (auto simp: bd_GetPackageFiles_def coll_first_def list_ex_iff split: option.splits sum.splits prod.splits)
  have np: "\<not> list_ex (\<lambda>(j, y). same_package p y) (clRecs ?P)"
    using new(1) assms(2) by (auto simp: bd_World_def list_ex_iff)
  have 1: "bd_SetPackageFiles (GetFingerPrint p) files db = (None, ?db1)"
  proof -
    have "\<not> list_ex (\<lambda>(j, y). fst y \<noteq> [] \<and> fst y = fst ?f) (clRecs ?F)" using nf by (auto simp: list_ex_iff)
    then show ?thesis
      using coll_save_new [OF below(2), of fst "\<lambda>_. ?f"] assms(2) by (simp add: bd_SetPackageFiles_def)
  qed
  have 2: "bd_CreatePackage p ?db1 = (Inr ?i, ?db2)"
    using coll_save_new [OF below(1), of "\<lambda>_. []" "set_ID p"] assms(2,3) by (simp add: bd_CreatePackage_def list_ex_iff)
  have f: "coll_first (\<lambda>f. fst f = GetFingerPrint p) ?F' = Inr (?j, ?f)"
    by (rule coll_new_first [OF nf]) simp
  have 3: "bd_RemovePackageFiles p ?db2 = (None, ?db3)"
    using assms(2) by (simp add: bd_RemovePackageFiles_def f)
  have "coll_first (same_package p) ?P' = Inr (?i, ?p)"
    by (rule coll_new_first [OF np]) (simp add: same_package_def)
  then have 4: "bd_RemovePackage p ?db3 = (None, ?db4)"
    using assms(2) by (simp add: bd_RemovePackage_def)
  have "bd_World ?db2 = bd_World db @ [?p]" "bd_GetPackageFiles p ?db2 = Inr files"
    using assms(2) by (simp_all add: bd_World_def bd_GetPackageFiles_def f)
  moreover have "bd_World ?db4 = bd_World db" "clRecs (bdFiles ?db4) = clRecs ?F"
    using assms(2) coll_new_delete [OF below(1)] coll_new_delete [OF below(2)] by (simp_all add: bd_World_def)
  ultimately show ?thesis using 1 2 3 4 by blast
qed

theorem bolt_register_remove_witness:
  "\<exists>i db1 db2. bd_SetPackageFiles ''foo-c-1.0'' [''usr/bin/foo''] NewBoltDatabase = (None, db1) \<and>
     bd_CreatePackage (demo_pkg ''foo'' ''1.0'' [] []) db1 = (Inr i, db2) \<and>
     bd_World db2 = [set_ID (demo_pkg ''foo'' ''1.0'' [] []) i]"
proof -
  let ?p = "demo_pkg ''foo'' ''1.0'' [] []"
  have fp: "GetFingerPrint ?p = ''foo-c-1.0''" by code_simp
  have w: "bd_World NewBoltDatabase = []" "bdOpenErr NewBoltDatabase = None" by code_simp+
  have ok: "bolt_ok NewBoltDatabase"
    by (simp add: bolt_ok_def NewBoltDatabase_def packages_ok_def) (simp add: empty_coll_def ids_below_def)
  have id: "ID (pkg_data ?p) = 0" by code_simp
  have nf: "\<not> ok (bd_GetPackageFiles ?p NewBoltDatabase)"
    by (simp add: bd_GetPackageFiles_def NewBoltDatabase_def coll_first_def empty_coll_def)
  show ?thesis
    using bolt_register_remove [OF ok w(2) id _ nf, of "[''usr/bin/foo'']"] unfolding fp w(1) by auto
qed

section \<open>The search through the provides\<close>

lemma getProvide_None:
  "pm2_get provides (GetPackageName p) (pVersion p) = None \<Longrightarrow>
   getProvide D provides look n p = Some (provide_scan D provides p)"
  by (subst getProvide.simps) simp

text \<open>A package that has a provider is ranked above it: no circle of provides.\<close>

definition provides_ranked :: "(default_package \<Rightarrow> nat) \<Rightarrow> packages_map \<Rightarrow> bool" where
  "provides_ranked rank m \<longleftrightarrow>
     (\<forall>p pa. pm2_get m (GetPackageName p) (pVersion p) = Some pa \<longrightarrow> rank pa < rank p)"

lemma getProvide_returns:
  assumes "provides_ranked rank m"
  shows "rank p \<le> n \<Longrightarrow> getProvide D m look n p \<noteq> None"
proof (induction n arbitrary: p)
  case 0
  then have "pm2_get m (GetPackageName p) (pVersion p) = None"
    using assms unfolding provides_ranked_def by (metis not_less_zero le_zero_eq not_None_eq)
  then show ?case by (simp add: getProvide_None)
next
  case (Suc n)
  show ?case
  proof (cases "pm2_get m (GetPackageName p) (pVersion p)")
    case None
    then show ?thesis by (simp add: getProvide_None)
  next
    case (Some pa)
    then have "rank pa \<le> n" using assms Suc.prems unfolding provides_ranked_def by fastforce
    from Suc.IH [OF this] Some show ?thesis
      by (subst getProvide.simps) (auto split: option.splits sum.splits)
  qed
qed

lemma getProvide_self:
  assumes "pm2_get m (GetPackageName p) (pVersion p) = Some p"
  shows "getProvide D m look n p = None"
proof (induction n)
  case 0
  then show ?case using assms by (subst getProvide.simps) simp
next
  case (Suc n)
  then show ?case using assms by (subst getProvide.simps) simp
qed

lemma add_provides_get:
  "pm2_get (add_provides_db ps p m) k v =
     (if \<exists>prov\<in>set ps. GetPackageName prov = k \<and> pVersion prov = v then Some p else pm2_get m k v)"
  by (induction ps p m rule: add_provides_db.induct) auto

definition provides_itself :: "default_package \<Rightarrow> bool" where
  "provides_itself p \<longleftrightarrow> (\<exists>prov\<in>set (Provides p). GetPackageName prov = GetPackageName p \<and> pVersion prov = pVersion p)"

text \<open>
  Looking for a package ends when no packages provide each other in a circle, within as many calls as
  the circle-free rank of the package; but once a package that provides its own name and version is
  created, looking for it calls itself for ever.
\<close>

theorem FindPackage_returns:
  "(provides_ranked rank (bdProvides db) \<and> rank p \<le> n \<longrightarrow> bd_FindPackage D n db p \<noteq> None) \<and>
   (provides_ranked rank (mdProvides mem) \<and> rank p \<le> n \<longrightarrow> md_FindPackage D n mem p \<noteq> None) \<and>
   (bd_CreatePackage p db = (Inr i, db') \<and> provides_itself p \<longrightarrow> bd_FindPackage D n db' (set_ID p i) = None)"
proof (intro conjI impI; (elim conjE)?)
  assume "provides_ranked rank (bdProvides db)" "rank p \<le> n"
  from getProvide_returns [OF this, where D = D and look = "bd_look db"] show "bd_FindPackage D n db p \<noteq> None"
    by (auto simp: bd_FindPackage_def find_package_def split: option.splits sum.splits)
next
  assume "provides_ranked rank (mdProvides mem)" "rank p \<le> n"
  from getProvide_returns [OF this, where D = D and look = "md_look D mem"] show "md_FindPackage D n mem p \<noteq> None"
    by (auto simp: md_FindPackage_def find_package_def split: option.splits sum.splits)
next
  assume "bd_CreatePackage p db = (Inr i, db')" "provides_itself p"
  then have "pm2_get (bdProvides db') (GetPackageName (set_ID p i)) (pVersion (set_ID p i)) = Some (set_ID p i)"
    by (elim create_cases) (auto simp: add_provides_get provides_itself_def GetPackageName_def)
  from getProvide_self [OF this] show "bd_FindPackage D n db' (set_ID p i) = None"
    by (simp add: bd_FindPackage_def find_package_def)
qed

definition plain_db_env :: db_env where
  "plain_db_env =
     \<lparr>deLib = plain_lib, deOrder = (\<lambda>ks. ks), deSort = insertion_sort,
      deEnc = (\<lambda>p. Inr (HumanReadableString p)), deDec = (\<lambda>s. Inr (demo_pkg s [] [] []))\<rparr>"

theorem FindPackage_returns_witness:
  "bd_FindPackage plain_db_env 0 NewBoltDatabase (demo_pkg ''foo'' ''1.0'' [] []) \<noteq> None"
proof -
  have "provides_ranked (\<lambda>_. 0) (bdProvides NewBoltDatabase)"
    by (simp add: provides_ranked_def NewBoltDatabase_def)
  then show ?thesis
    using FindPackage_returns [of "\<lambda>_. 0" NewBoltDatabase _ 0 plain_db_env NewInMemoryDatabase] by simp
qed

section \<open>A copy in memory\<close>

text \<open>What the queries read: the reverse requirements aside.\<close>

definition same_core :: "mem_db \<Rightarrow> mem_db \<Rightarrow> bool" where
  "same_core a b \<longleftrightarrow> mdDatabase a = mdDatabase b \<and> mdCacheNoVersion a = mdCacheNoVersion b \<and>
     mdProvides a = mdProvides b \<and> mdCached a = mdCached b"

lemma rev_requires_core: "same_core (rev_requires D pd pp rs db) db"
  by (induction D pd pp rs db rule: rev_requires.induct) (auto simp: same_core_def updateRevDep_def)

lemma rev_update_core: "same_core (rev_update D pd es db) db"
proof (induction D pd es db rule: rev_update.induct)
  case (2 D pd k pp es db)
  then show ?case using rev_requires_core [of D pd pp "PackageRequires pp" db] by (simp add: same_core_def)
qed (simp add: same_core_def)

lemma rev_found_core: "same_core (rev_found pd ps db) db"
  by (induction pd ps db rule: rev_found.induct) (simp_all add: same_core_def updateRevDep_def)

lemma find_all_some: "\<forall>p. f p \<noteq> None \<Longrightarrow> find_all f ps \<noteq> None"
  by (induction ps) (auto split: option.splits sum.splits)

lemma no_provides_find:
  assumes "mdProvides db = []"
  shows "md_getProvide D n db p = Some (Inl ''No versions found for package'')"
    "md_FindPackage D n db p = Some (md_look D db p)"
proof -
  show g: "md_getProvide D n db p = Some (Inl ''No versions found for package'')"
    by (simp add: md_getProvide_def assms getProvide_None provide_scan_def)
  then show "md_FindPackage D n db p = Some (md_look D db p)"
    by (simp add: md_FindPackage_def find_package_def md_getProvide_def)
qed

lemma no_provides_packages:
  assumes "mdProvides db = []"
  shows "md_FindPackages D n db p \<noteq> None"
proof -
  have "\<not> find_all (md_FindPackage D n db) ps = None" for ps
    using no_provides_find(2) [OF assms] by (intro find_all_some) simp
  then have "md_versions D n db p \<noteq> None"
    by (auto simp: md_versions_def simp del: not_None_eq split: option.split sum.split)
  then show ?thesis by (simp add: md_FindPackages_def no_provides_find [OF assms])
qed

lemma rev_own_core:
  "mdProvides db = [] \<Longrightarrow> \<exists>db'. rev_own D n pd rs db = Some db' \<and> same_core db' db"
proof (induction rs arbitrary: db)
  case (Cons re rs)
  obtain r where r: "md_FindPackages D n db re = Some r" using no_provides_packages [OF Cons.prems] by blast
  let ?db = "updateRevDep (GetPackageName re) (GetPackageName pd) pd
    (updateRevDep (GetFingerPrint re) (GetFingerPrint pd) pd
      (rev_found pd (case r of Inr ps \<Rightarrow> ps | Inl _ \<Rightarrow> []) db))"
  have c: "same_core ?db db"
    using rev_found_core [of pd "case r of Inr ps \<Rightarrow> ps | Inl _ \<Rightarrow> []" db] by (simp add: same_core_def updateRevDep_def)
  then have "mdProvides ?db = []" using Cons.prems by (simp add: same_core_def)
  from Cons.IH [OF this] show ?case using r c by (auto simp: same_core_def)
qed (simp add: same_core_def)

text \<open>
  The database in memory holds the packages: its store by their fingerprints, its cache by their names
  and versions.
\<close>

definition holds :: "db_env \<Rightarrow> mem_db \<Rightarrow> default_package list \<Rightarrow> bool" where
  "holds D db ps \<longleftrightarrow>
     mdProvides db = [] \<and>
     (\<forall>k. gm_get (mdDatabase db) k = map_option (\<lambda>p. projr (deEnc D p)) (find (\<lambda>p. GetFingerPrint p = k) ps)) \<and>
     (\<forall>k v. pm2_get (mdCacheNoVersion db) k v = find (\<lambda>p. GetPackageName p = k \<and> pVersion p = v) ps) \<and>
     (\<forall>k. gm_has (mdCacheNoVersion db) k \<longrightarrow> (\<exists>p\<in>set ps. GetPackageName p = k)) \<and>
     (\<forall>k. gm_has (mdCached db) k \<longleftrightarrow> k \<in> GetFingerPrint ` set ps)"

lemma fingerprint_name_version: "GetFingerPrint p = GetPackageName p @ ''-'' @ pVersion p"
  by (simp add: GetFingerPrint_def GetPackageName_def)

lemma find_append: "find P (xs @ ys) = (case find P xs of Some x \<Rightarrow> Some x | None \<Rightarrow> find P ys)"
  by (induction xs) auto

lemma holds_create:
  assumes h: "holds D db ps" and p: "Provides p = []" "GetFingerPrint p \<notin> GetFingerPrint ` set ps" "ok (deEnc D p)"
  shows "\<exists>k db'. md_CreatePackage D n p db = Some (Inr k, db') \<and> holds D db' (ps @ [p])"
proof -
  obtain enc where enc: "deEnc D p = Inr enc" using p(3) by (cases "deEnc D p") auto
  let ?db1 = "md_Set (GetFingerPrint p) enc db"
  let ?db2 = "?db1\<lparr>mdCached := gm_set (GetFingerPrint p) True (mdCached ?db1),
      mdProvides := add_provides_db (Provides p) p (mdProvides ?db1),
      mdCacheNoVersion := pm2_set (GetPackageName p) (pVersion p) p (mdCacheNoVersion ?db1)\<rparr>"
  let ?db3 = "case gm_get (mdRevDeps ?db2) (GetPackageName p) of
      Some toUpdate \<Rightarrow> rev_update D p (gm_range (deOrder D) toUpdate) ?db2 | None \<Rightarrow> ?db2"
  have c3: "same_core ?db3 ?db2"
    using rev_update_core by (auto simp: same_core_def split: option.split)
  have prov: "mdProvides ?db3 = []"
    using c3 h p(1) by (simp add: same_core_def holds_def md_Set_def)
  obtain db' where db': "rev_own D n p (PackageRequires p) ?db3 = Some db'" "same_core db' ?db3"
    using rev_own_core [OF prov] by blast
  have "\<not> gm_has (mdCached ?db1) (GetFingerPrint p)"
    using h p(2) by (simp add: holds_def md_Set_def)
  then have "md_CreatePackage D n p db = Some (Inr (GetFingerPrint p), db')"
    using db'(1) by (simp add: enc md_CreatePackage_def populateCaches_def Let_def)
  moreover have "holds D db' (ps @ [p])"
  proof -
    have core: "mdDatabase db' = gm_set (GetFingerPrint p) enc (mdDatabase db)"
      "mdCached db' = gm_set (GetFingerPrint p) True (mdCached db)" "mdProvides db' = []"
      "mdCacheNoVersion db' = pm2_set (GetPackageName p) (pVersion p) p (mdCacheNoVersion db)"
      using c3 db'(2) prov by (simp_all add: same_core_def md_Set_def)
    have fresh: "find (\<lambda>q. GetFingerPrint q = GetFingerPrint p) ps = None"
      unfolding find_None_iff using p(2) by (metis imageI)
    have fresh2: "find (\<lambda>q. GetPackageName q = GetPackageName p \<and> pVersion q = pVersion p) ps = None"
      unfolding find_None_iff using p(2) by (metis imageI fingerprint_name_version)
    show ?thesis
      unfolding holds_def core
    proof (intro conjI allI)
      show "gm_get (gm_set (GetFingerPrint p) enc (mdDatabase db)) k =
          map_option (\<lambda>p. projr (deEnc D p)) (find (\<lambda>p. GetFingerPrint p = k) (ps @ [p]))" for k
        using h fresh enc by (auto simp: holds_def find_append split: option.split)
      show "pm2_get (pm2_set (GetPackageName p) (pVersion p) p (mdCacheNoVersion db)) k v =
          find (\<lambda>p. GetPackageName p = k \<and> pVersion p = v) (ps @ [p])" for k v
        using h fresh2 by (auto simp: holds_def find_append split: option.split)
      show "gm_has (pm2_set (GetPackageName p) (pVersion p) p (mdCacheNoVersion db)) k \<longrightarrow>
          (\<exists>p\<in>set (ps @ [p]). GetPackageName p = k)" for k
        using h by (auto simp: holds_def pm2_set_def)
      show "gm_has (gm_set (GetFingerPrint p) True (mdCached db)) k = (k \<in> GetFingerPrint ` set (ps @ [p]))" for k
        using h by (auto simp: holds_def)
    qed simp
  qed
  ultimately show ?thesis by blast
qed

lemma holds_new [simp]: "holds D NewInMemoryDatabase []"
  by (simp add: holds_def NewInMemoryDatabase_def gm_has_def)

definition copyable :: "db_env \<Rightarrow> default_package list \<Rightarrow> bool" where
  "copyable D ps \<longleftrightarrow> distinct (map GetFingerPrint ps) \<and>
     (\<forall>p\<in>set ps. Provides p = [] \<and> (\<exists>enc. deEnc D p = Inr enc \<and> deDec D enc = Inr p))"

lemma clone_holds:
  "copyable D (qs @ ps) \<Longrightarrow> holds D db qs \<Longrightarrow>
   \<exists>db'. clone_db D n ps db = Some (None, db') \<and> holds D db' (qs @ ps)"
proof (induction ps arbitrary: qs db)
  case (Cons p ps)
  have "GetFingerPrint p \<notin> GetFingerPrint ` set qs" "Provides p = []" "ok (deEnc D p)"
    using Cons.prems(1) by (auto simp: copyable_def)
  then obtain k db1 where 1: "md_CreatePackage D n p db = Some (Inr k, db1)" "holds D db1 (qs @ [p])"
    using holds_create [OF Cons.prems(2)] by blast
  then show ?case using Cons.IH [of "qs @ [p]" db1] Cons.prems(1) by auto
qed auto

lemma copy_holds:
  assumes "copyable D ps"
  shows "\<exists>db. copy_db D n ps = Some (None, db) \<and> holds D db ps"
  using clone_holds [of D "[]" ps NewInMemoryDatabase n] assms by (auto simp: copy_db_def)

text \<open>Names and categories are not confused by the dash between them.\<close>

definition names_apart :: "default_package list \<Rightarrow> default_package \<Rightarrow> bool" where
  "names_apart ps s \<longleftrightarrow>
     (\<forall>p\<in>set ps. GetPackageName p = GetPackageName s \<longrightarrow> pName p = pName s \<and> pCategory p = pCategory s)"

lemma world_versions_spec:
  "IsSelector s \<Longrightarrow> world_versions D s ws =
     Inr (filter (\<lambda>w. pName w = pName s \<and> pCategory w = pCategory s \<and>
       SelectorMatchVersion (deLib D) (deOrder D) (deSort D) s (pVersion w) = Inr True) ws)"
  by (induction ws) (auto simp: SelectorMatchVersion_def)

lemma find_all_map:
  "\<forall>x\<in>set xs. f (g x) = Some (Inr (h x)) \<Longrightarrow> find_all f (map g xs) = Some (Inr (map h xs))"
  by (induction xs) auto

lemma holds_FindPackages:
  assumes h: "holds D db ps" and c: "copyable D ps" and s: "IsSelector s"
    and order: "map_order (deOrder D)"
  shows "\<exists>r. md_FindPackages D n db s = Some r \<and>
    (case r of
       Inl _ \<Rightarrow> \<forall>p\<in>set ps. GetPackageName p \<noteq> GetPackageName s
     | Inr qs \<Rightarrow> set qs = {p \<in> set ps. GetPackageName p = GetPackageName s \<and>
         SelectorMatchVersion (deLib D) (deOrder D) (deSort D) s (pVersion p) = Inr True})"
proof -
  let ?m = "\<lambda>v. SelectorMatchVersion (deLib D) (deOrder D) (deSort D) s v = Inr True"
  have prov: "mdProvides db = []" using h by (simp add: holds_def)
  have fp: "md_FindPackages D n db s = md_versions D n db s"
    using s by (simp add: md_FindPackages_def no_provides_find [OF prov])
  have cache: "pm2_get (mdCacheNoVersion db) k v = Some p \<longleftrightarrow> p \<in> set ps \<and> GetPackageName p = k \<and> pVersion p = v" for k v p
  proof -
    have d: "distinct (map GetFingerPrint ps)" using c by (simp add: copyable_def)
    have u: "q = r" if "q \<in> set ps" "r \<in> set ps" "GetPackageName q = GetPackageName r" "pVersion q = pVersion r" for q r
    proof -
      have e: "GetFingerPrint q = GetFingerPrint r" using that by (simp add: fingerprint_name_version)
      have i: "inj_on GetFingerPrint (set ps)" using d by (simp add: distinct_map)
      show ?thesis by (rule inj_onD [OF i e that(1,2)])
    qed
    have "find (\<lambda>p. GetPackageName p = k \<and> pVersion p = v) ps = Some p \<longleftrightarrow> p \<in> set ps \<and> GetPackageName p = k \<and> pVersion p = v"
    proof
      assume "p \<in> set ps \<and> GetPackageName p = k \<and> pVersion p = v"
      then show "find (\<lambda>p. GetPackageName p = k \<and> pVersion p = v) ps = Some p"
        using u by (intro find_unique) simp_all
    qed (drule find_SomeD, simp)
    then show ?thesis using h by (simp add: holds_def)
  qed
  have look: "md_look D db q = Inr p" if "p \<in> set ps" "GetFingerPrint q = GetFingerPrint p" for p q
  proof -
    have "find (\<lambda>r. GetFingerPrint r = GetFingerPrint p) ps = Some p"
      using c that(1) by (intro find_unique) (auto simp: copyable_def distinct_map dest: inj_onD)
    then have "gm_get (mdDatabase db) (GetFingerPrint p) = Some (projr (deEnc D p))" using h by (simp add: holds_def)
    moreover have "deDec D (projr (deEnc D p)) = Inr p" using c that(1) by (auto simp: copyable_def)
    ultimately show ?thesis by (simp add: md_look_def md_GetPackage_def md_Get_def that(2))
  qed
  show ?thesis
  proof (cases "gm_get (mdCacheNoVersion db) (GetPackageName s)")
    case None
    then have "\<forall>p\<in>set ps. GetPackageName p \<noteq> GetPackageName s"
      using cache by (metis option.simps(3) option.simps(4) pm2_get_def)
    then show ?thesis using None by (simp add: fp md_versions_def)
  next
    case (Some vs)
    let ?qs = "cache_matches D s (gm_range (deOrder D) vs)"
    have vs: "(v, p) \<in> set (gm_range (deOrder D) vs) \<longleftrightarrow> p \<in> set ps \<and> GetPackageName p = GetPackageName s \<and> pVersion p = v" for v p
      using cache [of "GetPackageName s" v p] Some by (simp add: map_order.range_iff [OF order] pm2_get_def)
    have fps: "GetFingerPrint (NewPackageWithCatThin (pCategory s) (pName s) (pVersion p)) = GetFingerPrint p"
      if "GetPackageName p = GetPackageName s" for p
      using that by (simp add: fingerprint_name_version NewPackageWithCatThin_def GetPackageName_def)
    have "find_all (md_FindPackage D n db) ?qs =
        Some (Inr (map snd (filter (\<lambda>(ve, pa). ?m ve) (gm_range (deOrder D) vs))))"
      unfolding cache_matches_def
    proof (rule find_all_map, rule ballI)
      fix x assume "x \<in> set (filter (\<lambda>(ve, pa). ?m ve) (gm_range (deOrder D) vs))"
      moreover obtain v p where vp: "x = (v, p)" by force
      ultimately have x: "x = (v, p)" "p \<in> set ps" "GetPackageName p = GetPackageName s" "pVersion p = v"
        using vs [of v p] by simp_all
      show "md_FindPackage D n db (case x of (ve, pa) \<Rightarrow> NewPackageWithCatThin (pCategory s) (pName s) ve) =
          Some (Inr (snd x))"
        using look [OF x(2) fps [OF x(3)]] by (simp add: no_provides_find [OF prov] x(1,4))
    qed
    then have "md_FindPackages D n db s = Some (Inr (map snd (filter (\<lambda>(ve, pa). ?m ve) (gm_range (deOrder D) vs))))"
      using Some by (simp add: fp md_versions_def)
    moreover have "set (map snd (filter (\<lambda>(ve, pa). ?m ve) (gm_range (deOrder D) vs))) =
        {p \<in> set ps. GetPackageName p = GetPackageName s \<and> ?m (pVersion p)}"
    proof
      show "set (map snd (filter (\<lambda>(ve, pa). ?m ve) (gm_range (deOrder D) vs))) \<subseteq>
          {p \<in> set ps. GetPackageName p = GetPackageName s \<and> ?m (pVersion p)}"
        using vs by auto
      show "{p \<in> set ps. GetPackageName p = GetPackageName s \<and> ?m (pVersion p)} \<subseteq>
          set (map snd (filter (\<lambda>(ve, pa). ?m ve) (gm_range (deOrder D) vs)))"
      proof
        fix p assume "p \<in> {p \<in> set ps. GetPackageName p = GetPackageName s \<and> ?m (pVersion p)}"
        then have "(pVersion p, p) \<in> set (filter (\<lambda>(ve, pa). ?m ve) (gm_range (deOrder D) vs))"
          using vs by simp
        then show "p \<in> set (map snd (filter (\<lambda>(ve, pa). ?m ve) (gm_range (deOrder D) vs)))" by force
      qed
    qed
    ultimately show ?thesis by simp
  qed
qed

text \<open>
  A copy of the database on disk made in memory answers a query for the versions that a selector
  admits with the same packages: the packages being encoded faithfully, told apart by their fingerprints,
  and providing nothing.  Only where the disk has no version of the name at all the copy has an error.
\<close>

theorem copy_FindPackages:
  assumes "copyable D (bd_World db)" "bdProvides db = []" "IsSelector s" "names_apart (bd_World db) s"
    and "map_order (deOrder D)"
  shows "\<exists>mem r qs. copy_db D n (bd_World db) = Some (None, mem) \<and> md_FindPackages D n mem s = Some r \<and>
    bd_FindPackages D n db s = Some (Inr qs) \<and>
    (case r of Inl _ \<Rightarrow> qs = [] | Inr ps \<Rightarrow> set ps = set qs)"
proof -
  let ?qs = "filter (\<lambda>w. pName w = pName s \<and> pCategory w = pCategory s \<and>
      SelectorMatchVersion (deLib D) (deOrder D) (deSort D) s (pVersion w) = Inr True) (bd_World db)"
  obtain mem where mem: "copy_db D n (bd_World db) = Some (None, mem)" "holds D mem (bd_World db)"
    using copy_holds [OF assms(1)] by blast
  have names: "GetPackageName p = GetPackageName s \<longleftrightarrow> pName p = pName s \<and> pCategory p = pCategory s"
    if "p \<in> set (bd_World db)" for p
    using assms(4) that by (auto simp: names_apart_def GetPackageName_def)
  have "bd_getProvide D n db s = Some (Inl ''No versions found for package'')"
    by (simp add: bd_getProvide_def assms(2) getProvide_None provide_scan_def)
  then have disk: "bd_FindPackages D n db s = Some (Inr ?qs)"
    using assms(3) by (simp add: bd_FindPackages_def world_versions_spec)
  obtain r where r: "md_FindPackages D n mem s = Some r"
    "case r of
       Inl _ \<Rightarrow> \<forall>p\<in>set (bd_World db). GetPackageName p \<noteq> GetPackageName s
     | Inr qs \<Rightarrow> set qs = {p \<in> set (bd_World db). GetPackageName p = GetPackageName s \<and>
         SelectorMatchVersion (deLib D) (deOrder D) (deSort D) s (pVersion p) = Inr True}"
    using holds_FindPackages [OF mem(2) assms(1,3,5), of n] by blast
  have "case r of Inl _ \<Rightarrow> ?qs = [] | Inr ps \<Rightarrow> set ps = set ?qs"
  proof (cases r)
    case (Inl e)
    then show ?thesis using r(2) names by (auto simp: filter_empty_conv)
  next
    case (Inr ps)
    then show ?thesis using r(2) names by auto
  qed
  with mem(1) r(1) disk show ?thesis by blast
qed

definition lone_disk :: bolt_db where
  "lone_disk = snd (bd_CreatePackage lone NewBoltDatabase)"

definition lone_db_env :: db_env where
  "lone_db_env = plain_db_env\<lparr>deDec := \<lambda>s. Inr (set_ID lone 1)\<rparr>"

theorem copy_FindPackages_witness:
  "\<exists>mem ps. copy_db lone_db_env 0 (bd_World lone_disk) = Some (None, mem) \<and>
     md_FindPackages lone_db_env 0 mem (demo_pkg ''bar'' ''>=1.0'' [] []) = Some (Inr ps) \<and> set ps = {set_ID lone 1}"
proof -
  let ?s = "demo_pkg ''bar'' ''>=1.0'' [] []"
  have w: "bd_World lone_disk = [set_ID lone 1]" "bdProvides lone_disk = []" by code_simp+
  have c: "copyable lone_db_env (bd_World lone_disk)"
    unfolding w by (simp add: copyable_def lone_db_env_def plain_db_env_def lone_def demo_pkg_def NewPackageWithCat_def set_ID_def)
  have sel: "IsSelector ?s" by code_simp
  have apart: "names_apart (bd_World lone_disk) ?s"
    unfolding w by (simp add: names_apart_def lone_def demo_pkg_def NewPackageWithCat_def)
  have order: "map_order (deOrder lone_db_env)"
    by (simp add: lone_db_env_def plain_db_env_def id_order.map_order_axioms)
  have disk: "bd_FindPackages lone_db_env 0 lone_disk ?s = Some (Inr [set_ID lone 1])" by code_simp
  obtain mem r qs where r: "copy_db lone_db_env 0 (bd_World lone_disk) = Some (None, mem)"
    "md_FindPackages lone_db_env 0 mem ?s = Some r"
    and qs: "bd_FindPackages lone_db_env 0 lone_disk ?s = Some (Inr qs)"
    and same: "case r of Inl _ \<Rightarrow> qs = [] | Inr ps \<Rightarrow> set ps = set qs"
    using copy_FindPackages [OF c w(2) sel apart order, of 0] by (elim exE conjE)
  have "qs = [set_ID lone 1]" using qs disk by simp
  with r same show ?thesis by (cases r) auto
qed

section \<open>What the database in memory forgets\<close>

lemma create_database:
  assumes "md_CreatePackage D n p db = Some (Inr k, db')" "mdProvides db = []" "Provides p = []" "deEnc D p = Inr enc"
  shows "mdDatabase db' = gm_set (GetFingerPrint p) enc (mdDatabase db)"
proof -
  let ?db2 = "(md_Set (GetFingerPrint p) enc db)\<lparr>mdCached := gm_set (GetFingerPrint p) True (mdCached db),
      mdProvides := [], mdCacheNoVersion := pm2_set (GetPackageName p) (pVersion p) p (mdCacheNoVersion db)\<rparr>"
  let ?db3 = "case gm_get (mdRevDeps db) (GetPackageName p) of
      Some toUpdate \<Rightarrow> rev_update D p (gm_range (deOrder D) toUpdate) ?db2 | None \<Rightarrow> ?db2"
  have c3: "same_core ?db3 ?db2"
    using rev_update_core by (auto simp: same_core_def split: option.split)
  then have prov: "mdProvides ?db3 = []" by (simp add: same_core_def)
  obtain db2 where db2: "rev_own D n p (PackageRequires p) ?db3 = Some db2" "same_core db2 ?db3"
    using rev_own_core [OF prov] by blast
  have "populateCaches D n p (md_Set (GetFingerPrint p) enc db) =
      (if gm_has (mdCached db) (GetFingerPrint p) then Some (md_Set (GetFingerPrint p) enc db) else Some db2)"
    unfolding db2(1) [symmetric] by (simp add: populateCaches_def md_Set_def Let_def assms(2,3) split: option.split)
  then have "db' = md_Set (GetFingerPrint p) enc db \<or> db' = db2"
    using assms(1,4) by (auto simp: md_CreatePackage_def split: if_splits)
  then show ?thesis using c3 db2(2) by (auto simp: same_core_def md_Set_def)
qed

text \<open>
  A package that is removed from the database in memory and created again is in its world, but a
  query with a selector does not find it: the removal empties the cache of the versions, and the creation
  does not fill it again since the package is still marked as cached.
\<close>

theorem mem_forgets_recreated:
  assumes "Provides p = []" "deEnc D p = Inr enc" "deDec D enc = Inr p" "map_order (deOrder D)"
    and "IsSelector s" "GetPackageName s = GetPackageName p"
  shows "\<exists>k db1 db3. md_CreatePackage D n p NewInMemoryDatabase = Some (Inr k, db1) \<and>
    md_CreatePackage D n p (md_RemovePackage p db1) = Some (Inr k, db3) \<and>
    md_World D db3 = [p] \<and> md_FindPackages D n db3 s = Some (Inr [])"
proof -
  obtain k db1 where c: "md_CreatePackage D n p NewInMemoryDatabase = Some (Inr k, db1)" and h: "holds D db1 [p]"
    using holds_create [of D NewInMemoryDatabase "[]" p n] assms(1,2) by auto
  have k: "k = GetFingerPrint p"
    using c assms(2) by (auto simp: md_CreatePackage_def split: option.splits)
  let ?fp = "GetFingerPrint p"
  let ?db3 = "md_Set ?fp enc (md_RemovePackage p db1)"
  have cached: "gm_has (mdCached ?db3) ?fp" using h by (simp add: holds_def md_Set_def md_RemovePackage_def)
  then have c3: "md_CreatePackage D n p (md_RemovePackage p db1) = Some (Inr k, ?db3)"
    using assms(2) k by (simp add: md_CreatePackage_def populateCaches_def)
  have prov: "mdProvides ?db3 = []" using h by (simp add: holds_def md_Set_def md_RemovePackage_def)
  have "mdDatabase db1 = [(?fp, enc)]"
    using create_database [OF c _ assms(1,2)] by (simp add: NewInMemoryDatabase_def)
  then have "mdDatabase ?db3 = [(?fp, enc)]" by (simp add: md_Set_def md_RemovePackage_def)
  moreover have "deOrder D [?fp] = [?fp]"
    using map_order.it_mset [OF assms(4), of "[?fp]"] by simp
  ultimately have world: "md_World D ?db3 = [p]"
    using assms(3) by (simp add: md_World_def md_GetPackages_def gm_range_def gm_keys_def md_GetPackage_def md_Get_def)
  have get: "pm2_get (mdCacheNoVersion ?db3) (GetPackageName p) v = None" for v
    using h by (simp add: holds_def md_Set_def md_RemovePackage_def)
  have "pm2_get (mdCacheNoVersion db1) (GetPackageName p) (pVersion p) = Some p" using h by (simp add: holds_def)
  then obtain vs where vs: "gm_get (mdCacheNoVersion ?db3) (GetPackageName p) = Some vs"
    by (auto simp: md_Set_def md_RemovePackage_def pm2_del_def pm2_get_def split: option.splits)
  have none: "gm_get vs v = None" for v using get [of v] by (simp add: pm2_get_def vs)
  have "vs = []"
  proof (cases vs)
    case (Cons a l)
    then show ?thesis using none [of "fst a"] by simp
  qed
  moreover have "deOrder D [] = []" using map_order.it_mset [OF assms(4), of "[]"] by simp
  ultimately have "md_FindPackages D n ?db3 s = Some (Inr [])"
    using assms(5,6) vs
    by (simp add: md_FindPackages_def no_provides_find [OF prov] md_versions_def cache_matches_def gm_range_def gm_keys_def)
  then show ?thesis using c c3 world by blast
qed

theorem mem_forgets_recreated_witness:
  "\<exists>k db1 db3. md_CreatePackage (lone_db_env\<lparr>deDec := \<lambda>_. Inr lone\<rparr>) 0 lone NewInMemoryDatabase = Some (Inr k, db1) \<and>
     md_CreatePackage (lone_db_env\<lparr>deDec := \<lambda>_. Inr lone\<rparr>) 0 lone (md_RemovePackage lone db1) = Some (Inr k, db3) \<and>
     md_World (lone_db_env\<lparr>deDec := \<lambda>_. Inr lone\<rparr>) db3 = [lone] \<and>
     md_FindPackages (lone_db_env\<lparr>deDec := \<lambda>_. Inr lone\<rparr>) 0 db3 (demo_pkg ''bar'' ''>=1.0'' [] []) = Some (Inr [])"
proof (rule mem_forgets_recreated)
  show "IsSelector (demo_pkg ''bar'' ''>=1.0'' [] [])" by code_simp
  show "GetPackageName (demo_pkg ''bar'' ''>=1.0'' [] []) = GetPackageName lone" by code_simp
  show "deEnc (lone_db_env\<lparr>deDec := \<lambda>_. Inr lone\<rparr>) lone = Inr (HumanReadableString lone)"
    by (simp add: lone_db_env_def plain_db_env_def)
qed (simp_all add: lone_db_env_def plain_db_env_def id_order.map_order_axioms lone_def demo_pkg_def NewPackageWithCat_def)

section \<open>The files of a package\<close>

text \<open>
  What a database promises of the files: those put are there until they are deleted, and nothing is
  known of another package's.  \<open>valid\<close> is what the database keeps of itself.
\<close>

locale file_store =
  fixes put :: "string \<Rightarrow> string list \<Rightarrow> 'db \<Rightarrow> err option \<times> 'db"
    and get :: "default_package \<Rightarrow> 'db \<Rightarrow> string list res"
    and del :: "default_package \<Rightarrow> 'db \<Rightarrow> err option \<times> 'db"
    and valid :: "'db \<Rightarrow> bool"
  assumes valid_put: "valid db \<Longrightarrow> put k fs db = (e, db') \<Longrightarrow> valid db'"
    and valid_del: "valid db \<Longrightarrow> del p db = (e, db') \<Longrightarrow> valid db'"
    and get_put: "valid db \<Longrightarrow> put (GetFingerPrint p) fs db = (None, db') \<Longrightarrow> get p db' = Inr fs"
    and get_put_other: "valid db \<Longrightarrow> put k fs db = (e, db') \<Longrightarrow> k \<noteq> GetFingerPrint q \<Longrightarrow> get q db' = Inr x \<longleftrightarrow> get q db = Inr x"
    and get_del: "valid db \<Longrightarrow> del p db = (None, db') \<Longrightarrow> get p db' \<noteq> Inr x"
    and get_del_other: "valid db \<Longrightarrow> del p db = (e, db') \<Longrightarrow> GetFingerPrint p \<noteq> GetFingerPrint q \<Longrightarrow>
      get q db' = Inr x \<longleftrightarrow> get q db = Inr x"
begin

definition files_of :: "'db \<Rightarrow> default_package \<Rightarrow> string list option" where
  "files_of db p = (case get p db of Inr fs \<Rightarrow> Some fs | Inl _ \<Rightarrow> None)"

lemma files_of_iff: "files_of db p = Some fs \<longleftrightarrow> get p db = Inr fs"
  by (simp add: files_of_def split: sum.split)

lemma files_put:
  assumes "valid db" "put (GetFingerPrint p) fs db = (None, db')"
  shows "files_of db' q = (if GetFingerPrint q = GetFingerPrint p then Some fs else files_of db q)"
proof (cases "GetFingerPrint q = GetFingerPrint p")
  case True
  then have "put (GetFingerPrint q) fs db = (None, db')" using assms(2) by simp
  then show ?thesis using get_put [OF assms(1)] True by (simp add: files_of_iff)
next
  case False
  then have "files_of db' q = Some x \<longleftrightarrow> files_of db q = Some x" for x
    using get_put_other [OF assms] by (simp add: files_of_iff)
  then show ?thesis using False by (cases "files_of db q"; cases "files_of db' q") auto
qed

lemma files_del:
  assumes "valid db" "del p db = (None, db')" "GetFingerPrint q \<noteq> GetFingerPrint p"
  shows "files_of db' q = files_of db q"
proof -
  have "files_of db' q = Some x \<longleftrightarrow> files_of db q = Some x" for x
    using get_del_other [OF assms(1,2)] assms(3) by (simp add: files_of_iff)
  then show ?thesis by (cases "files_of db q"; cases "files_of db' q") auto
qed

text \<open>What is put for a new package and deleted again leaves no trace.\<close>

lemma put_del:
  assumes "valid db" "put (GetFingerPrint p) fs db = (None, db1)" "del p db1 = (None, db2)"
    and "\<And>q. GetFingerPrint q = GetFingerPrint p \<Longrightarrow> q = p" "files_of db p = None"
  shows "files_of db2 = files_of db"
proof
  fix q
  have v: "valid db1" using valid_put [OF assms(1,2)] .
  show "files_of db2 q = files_of db q"
  proof (cases "GetFingerPrint q = GetFingerPrint p")
    case True
    then have "q = p" by (rule assms(4))
    then show ?thesis
      using get_del [OF v assms(3)] assms(5) files_of_iff [of db2 p] by (cases "files_of db2 p") auto
  next
    case False
    then show ?thesis using files_del [OF v assms(3) False] files_put [OF assms(1,2)] by simp
  qed
qed

end

lemma fingerprint_nonempty [simp]: "GetFingerPrint p \<noteq> []"
  by (simp add: GetFingerPrint_def)

definition bolt_valid :: "bolt_db \<Rightarrow> bool" where
  "bolt_valid db \<longleftrightarrow> bolt_ok db \<and> bdOpenErr db = None"

lemma bolt_files_iff:
  assumes "bolt_valid db"
  shows "bd_GetPackageFiles p db = Inr fs \<longleftrightarrow> (\<exists>i. (i, (GetFingerPrint p, fs)) \<in> set (clRecs (bdFiles db)))"
proof -
  have wf: "coll_wf fst (bdFiles db)" using assms by (simp add: bolt_valid_def bolt_ok_def)
  have "bd_GetPackageFiles p db = Inr fs \<longleftrightarrow>
      (\<exists>i f. coll_first (\<lambda>f. fst f = GetFingerPrint p) (bdFiles db) = Inr (i, f) \<and> snd f = fs)"
    using assms by (auto simp: bd_GetPackageFiles_def bolt_valid_def split: sum.splits prod.splits)
  then show ?thesis unfolding coll_first_iff [OF wf fingerprint_nonempty] by auto
qed

lemma coll_save_new_set:
  assumes "coll_save uniq 0 mk c = (Inr i, c')" "ids_below c"
  shows "set (clRecs c') = insert (i, mk i) (set (clRecs c))"
proof -
  have "\<forall>j\<in>fst ` set (clRecs c). j < clLast c + 1" using assms(2) by (auto simp: ids_below_def)
  then show ?thesis using assms(1) by (auto simp: coll_save_def Let_def rec_put_last split: if_splits)
qed

lemma bolt_put:
  assumes "bolt_valid db" "bd_SetPackageFiles k fs db = (e, db')"
  shows "bolt_valid db' \<and> (e = None \<longrightarrow> (\<exists>i. set (clRecs (bdFiles db')) = insert (i, (k, fs)) (set (clRecs (bdFiles db))))) \<and>
    (e \<noteq> None \<longrightarrow> db' = db)"
proof -
  have "bolt_ok db'" using bolt_files_ok [of db k fs] assms by (simp add: bolt_valid_def)
  moreover have "ids_below (bdFiles db)" using assms(1) by (simp add: bolt_valid_def bolt_ok_def)
  ultimately show ?thesis
    using assms coll_save_new_set [of fst "\<lambda>_. (k, fs)" "bdFiles db"]
    by (auto simp: bd_SetPackageFiles_def bolt_valid_def split: prod.splits sum.splits)
qed

lemma bolt_del:
  assumes "bolt_valid db" "bd_RemovePackageFiles p db = (e, db')"
  shows "bolt_valid db' \<and>
    (e = None \<longrightarrow> set (clRecs (bdFiles db')) = {r \<in> set (clRecs (bdFiles db)). fst (snd r) \<noteq> GetFingerPrint p}) \<and>
    (e \<noteq> None \<longrightarrow> db' = db)"
proof -
  have wf: "coll_wf fst (bdFiles db)" using assms(1) by (simp add: bolt_valid_def bolt_ok_def)
  have okdb: "bolt_ok db'" using bolt_files_ok [of db _ _ p] assms by (simp add: bolt_valid_def)
  have del: "set (clRecs (coll_delete i (bdFiles db))) = {r \<in> set (clRecs (bdFiles db)). fst (snd r) \<noteq> GetFingerPrint p}"
    if "coll_first (\<lambda>f. fst f = GetFingerPrint p) (bdFiles db) = Inr (i, f)" for i f
  proof -
    have m: "(i, f) \<in> set (clRecs (bdFiles db))" "fst f = GetFingerPrint p"
      using that unfolding coll_first_iff [OF wf fingerprint_nonempty] by auto
    have "fst (snd r) = GetFingerPrint p \<longleftrightarrow> fst r = i" if "r \<in> set (clRecs (bdFiles db))" for r
    proof
      assume "fst (snd r) = GetFingerPrint p"
      then show "fst r = i" using coll_wf_uniqueD [OF wf, of "fst r" "snd r" i f] that m by simp
    next
      assume "fst r = i"
      moreover have "distinct (map fst (clRecs (bdFiles db)))"
        using wf unfolding coll_wf_def by (auto simp: strict_sorted_iff)
      ultimately have "snd r = f" using eq_key_imp_eq_value [of "clRecs (bdFiles db)" i "snd r" f] that m by auto
      then show "fst (snd r) = GetFingerPrint p" using m by simp
    qed
    then show ?thesis by (auto simp: coll_delete_def)
  qed
  have opened: "bdOpenErr db = None" using assms(1) by (simp add: bolt_valid_def)
  show ?thesis
  proof (cases "coll_first (\<lambda>f. fst f = GetFingerPrint p) (bdFiles db)")
    case (Inl x)
    then have "db' = db \<and> e \<noteq> None" using assms(2) opened by (auto simp: bd_RemovePackageFiles_def)
    then show ?thesis using assms(1) by auto
  next
    case (Inr r)
    obtain i f where r: "r = (i, f)" by (cases r)
    then have "db' = db\<lparr>bdFiles := coll_delete i (bdFiles db)\<rparr> \<and> e = None"
      using assms(2) opened Inr by (auto simp: bd_RemovePackageFiles_def)
    then show ?thesis using del [OF Inr [unfolded r]] okdb opened by (simp add: bolt_valid_def)
  qed
qed

interpretation disk_files: file_store bd_SetPackageFiles bd_GetPackageFiles bd_RemovePackageFiles bolt_valid
proof
  fix db db' :: bolt_db and k fs e p q x
  assume v: "bolt_valid db"
  { assume s: "bd_SetPackageFiles k fs db = (e, db')"
    note b = bolt_put [OF v s]
    show "bolt_valid db'" using b by blast
    assume "k \<noteq> GetFingerPrint q"
    then show "bd_GetPackageFiles q db' = Inr x \<longleftrightarrow> bd_GetPackageFiles q db = Inr x"
      using b v by (cases e) (auto simp: bolt_files_iff) }
  { assume s: "bd_SetPackageFiles (GetFingerPrint p) fs db = (None, db')"
    from bolt_put [OF v s] show "bd_GetPackageFiles p db' = Inr fs" by (auto simp: bolt_files_iff) }
  { assume s: "bd_RemovePackageFiles p db = (e, db')"
    note b = bolt_del [OF v s]
    show "bolt_valid db'" using b by blast
    assume "GetFingerPrint p \<noteq> GetFingerPrint q"
    then show "bd_GetPackageFiles q db' = Inr x \<longleftrightarrow> bd_GetPackageFiles q db = Inr x"
      using b v by (cases e) (auto simp: bolt_files_iff) }
  { assume s: "bd_RemovePackageFiles p db = (None, db')"
    from bolt_del [OF v s] show "bd_GetPackageFiles p db' \<noteq> Inr x" by (auto simp: bolt_files_iff) }
qed

interpretation mem_files: file_store "\<lambda>k fs db. (None, md_SetPackageFiles k fs db)" md_GetPackageFiles
    "\<lambda>p db. (None, md_RemovePackageFiles p db)" "\<lambda>_. True"
  by unfold_locales
     (auto simp: md_SetPackageFiles_def md_GetPackageFiles_def md_RemovePackageFiles_def split: option.splits)

end
