(* ===== verification/InstallerProofs.thy ===== *)
theory InstallerProofs
  imports RdepsProofs FilesProofs DatabaseProofs UpgradeProofs
begin

text \<open>
  What the commands of the manager do to the packages of the database: a removal, and the operations of
  an installation or an upgrade against a plan over categories, names and versions.
\<close>

section \<open>The world of the database\<close>

definition pkey :: "default_package \<Rightarrow> string \<times> string \<times> string" where
  "pkey p = (pCategory p, pName p, pVersion p)"

definition wkeys :: "bolt_db \<Rightarrow> (string \<times> string \<times> string) list" where
  "wkeys db = map pkey (bd_World db)"

lemma same_package_pkey: "same_package p q \<longleftrightarrow> pkey q = pkey p"
  by (auto simp: same_package_def pkey_def)

lemma find_delete:
  assumes "distinct (map fst rs)" "find (\<lambda>(j, y). P y) rs = Some (i, q)"
  shows "\<exists>xs ys. map snd rs = xs @ q # ys \<and> (\<forall>x\<in>set xs. \<not> P x) \<and> P q \<and>
    map snd (filter (\<lambda>(j, y). j \<noteq> i) rs) = xs @ ys"
  using assms
proof (induction rs)
  case (Cons r rs)
  obtain j y where r: "r = (j, y)" by (cases r)
  show ?case
  proof (cases "P y")
    case True
    then have "j = i" "y = q" using Cons.prems(2) r by auto
    moreover have "filter (\<lambda>(j, y). j \<noteq> i) rs = rs"
      using Cons.prems(1) r \<open>j = i\<close> by (intro filter_True) force
    ultimately show ?thesis using r True by (intro exI [of _ "[]"] exI [of _ "map snd rs"]) simp
  next
    case False
    then have f: "find (\<lambda>(j, y). P y) rs = Some (i, q)" using Cons.prems(2) r by simp
    then have "(i, q) \<in> set rs" using find_SomeD by fastforce
    then have "j \<noteq> i" using Cons.prems(1) r by force
    from Cons.IH [OF _ f] Cons.prems(1) obtain xs ys where "map snd rs = xs @ q # ys"
      "\<forall>x\<in>set xs. \<not> P x" "P q" "map snd (filter (\<lambda>(j, y). j \<noteq> i) rs) = xs @ ys" by auto
    with r False \<open>j \<noteq> i\<close> show ?thesis by (intro exI [of _ "y # xs"] exI [of _ ys]) simp
  qed
qed simp

lemma bolt_remove_world:
  assumes "bolt_valid db" "bd_RemovePackage p db = (None, db')"
  shows "bolt_valid db'" "\<exists>xs q ys. bd_World db = xs @ q # ys \<and> (\<forall>x\<in>set xs. pkey x \<noteq> pkey p) \<and>
    pkey q = pkey p \<and> bd_World db' = xs @ ys"
proof -
  have openok: "bdOpenErr db = None" and ok: "bolt_ok db" using assms(1) by (simp_all add: bolt_valid_def)
  from assms(2) openok obtain i q where f: "find (\<lambda>(j, y). same_package p y) (clRecs (bdPackages db)) = Some (i, q)"
    and db': "db' = db\<lparr>bdPackages := coll_delete i (bdPackages db)\<rparr>"
    by (auto simp: bd_RemovePackage_def coll_first_def split: sum.splits option.splits prod.splits)
  show "bolt_valid db'" using bolt_remove_ok [OF ok, of p] assms(2) openok db' by (simp add: bolt_valid_def)
  have "sorted_wrt (<) (map fst (clRecs (bdPackages db)))"
    using ok by (simp add: bolt_ok_def packages_ok_def coll_wf_def)
  then have "distinct (map fst (clRecs (bdPackages db)))" by (simp add: strict_sorted_iff)
  from find_delete [OF this f] show "\<exists>xs q ys. bd_World db = xs @ q # ys \<and> (\<forall>x\<in>set xs. pkey x \<noteq> pkey p) \<and>
      pkey q = pkey p \<and> bd_World db' = xs @ ys"
    unfolding db' same_package_pkey using openok by (auto simp: bd_World_def coll_delete_def)
qed

lemma bolt_create_world:
  assumes "bolt_valid db" "ID (pkg_data p) = 0" "bd_CreatePackage p db = (Inr i, db')"
  shows "bolt_valid db'" "bd_World db' = bd_World db @ [set_ID p i]"
proof -
  have below: "ids_below (bdPackages db)"
    using assms(1) packages_ids_below by (auto simp: bolt_valid_def bolt_ok_def)
  have "bolt_valid db' \<and> bd_World db' = bd_World db @ [set_ID p i]"
    using assms(3)
  proof (cases rule: create_cases)
    case (2 j c)
    note new = coll_save_new [OF below, of "\<lambda>_. []" "set_ID p"]
    have "bolt_ok db'" using bolt_create_ok [OF _ _ assms(3)] assms(1,2) by (simp add: bolt_valid_def bolt_ok_def)
    with 2 assms(2) new show ?thesis by (auto simp: bolt_valid_def bd_World_def list_ex_iff)
  qed simp
  then show "bolt_valid db'" "bd_World db' = bd_World db @ [set_ID p i]" by blast+
qed

section \<open>Steps of the manager\<close>

text \<open>A step that leaves the packages of the database.\<close>

definition keeps_world :: "host \<Rightarrow> host \<Rightarrow> bool" where
  "keeps_world h h' \<longleftrightarrow> (bolt_valid (hsDb h) \<longrightarrow> bolt_valid (hsDb h')) \<and> bdPackages (hsDb h') = bdPackages (hsDb h)"

lemma keeps_world_refl [simp]: "keeps_world h h"
  by (simp add: keeps_world_def)

lemma keeps_world_trans: "keeps_world h h1 \<Longrightarrow> keeps_world h1 h2 \<Longrightarrow> keeps_world h h2"
  by (simp add: keeps_world_def)

lemma keeps_world_World: "keeps_world h h' \<Longrightarrow> bolt_valid (hsDb h) \<Longrightarrow> bd_World (hsDb h') = bd_World (hsDb h)"
  by (simp add: keeps_world_def bd_World_def bolt_valid_def)

lemma on_disk_keeps: "on_disk f h = (a, h') \<Longrightarrow> keeps_world h h'"
  by (auto simp: on_disk_def keeps_world_def split: prod.splits)

lemma unless_forced_state: "snd (unless_forced force msg r) = snd r"
  by (cases r) (auto simp: unless_forced_def split: option.splits)

lemma unless_forced_cases:
  assumes "unless_forced force msg r = (r', h')"
  obtains e where "r = (Some e, h')" "r' = (if force then Ok () else Err (msg e))" | "r = (None, h')" "r' = Ok ()"
  using assms by (cases r) (auto simp: unless_forced_def split: option.splits if_splits)

lemma on_db_keeps:
  assumes "on_db f h = (a, h')" "\<And>db. bolt_ok db \<Longrightarrow> bolt_ok (snd (f db))"
    "\<And>db. bdPackages (snd (f db)) = bdPackages db" "\<And>db. bdOpenErr (snd (f db)) = bdOpenErr db"
  shows "keeps_world h h'"
  using assms(1) assms(2) [of "hsDb h"] assms(3) [of "hsDb h"] assms(4) [of "hsDb h"]
  by (auto simp: on_db_def keeps_world_def bolt_valid_def split: prod.splits)

lemma db_frames [simp]:
  "bdPackages (snd (bd_SetPackageFiles k fs db)) = bdPackages db"
  "bdPackages (snd (bd_RemovePackageFiles p db)) = bdPackages db"
  "bdPackages (snd (bd_SetPackageFinalizer f db)) = bdPackages db"
  "bdPackages (snd (bd_RemovePackageFinalizer p db)) = bdPackages db"
  "bdOpenErr (snd (bd_SetPackageFiles k fs db)) = bdOpenErr db"
  "bdOpenErr (snd (bd_RemovePackageFiles p db)) = bdOpenErr db"
  "bdOpenErr (snd (bd_SetPackageFinalizer f db)) = bdOpenErr db"
  "bdOpenErr (snd (bd_RemovePackageFinalizer p db)) = bdOpenErr db"
  by (simp_all add: bd_SetPackageFiles_def bd_RemovePackageFiles_def bd_SetPackageFinalizer_def
      bd_RemovePackageFinalizer_def split: option.split prod.split sum.split)

lemma on_db_files_keeps:
  "on_db (bd_SetPackageFiles k fs) h = (a, h') \<Longrightarrow> keeps_world h h'"
  "on_db (bd_RemovePackageFiles p) h = (a, h') \<Longrightarrow> keeps_world h h'"
  "on_db (bd_SetPackageFinalizer f) h = (a, h') \<Longrightarrow> keeps_world h h'"
  "on_db (bd_RemovePackageFinalizer p) h = (a, h') \<Longrightarrow> keeps_world h h'"
  using bolt_files_ok bolt_finalizer_ok by (auto elim!: on_db_keeps)

lemma remove_files_keeps: "remove_files_step M s root preserve force h = (r, h') \<Longrightarrow> keeps_world h h'"
  unfolding remove_files_step_def
  by (cases "on_disk (removePackageFiles (inConf M) (hsDb h) s root preserve) h")
     (auto split: outcome.splits if_splits dest: on_disk_keeps)

lemma remove_finalizer_keeps: "remove_finalizer_step M p root force h = (r, h') \<Longrightarrow> keeps_world h h'"
  unfolding remove_finalizer_step_def
  by (auto split: sum.splits option.splits elim!: unless_forced_cases dest: on_disk_keeps)

lemma register_finalizer_keeps: "register_finalizer M a pp r force h = (r', h') \<Longrightarrow> keeps_world h h'"
  unfolding register_finalizer_def
  by (auto split: option.splits panics.splits if_splits sum.splits elim!: unless_forced_cases dest: on_db_files_keeps)

lemma InstallPackage_keeps: "InstallPackage M a root h = (r, h') \<Longrightarrow> keeps_world h h'"
  unfolding InstallPackage_def
  by (auto split: option.splits elim!: unless_forced_cases dest: on_disk_keeps)

lemma ExecuteFinalizer_keeps: "ExecuteFinalizer M a r b root h = (r', h') \<Longrightarrow> keeps_world h h'"
  unfolding ExecuteFinalizer_def
  by (auto split: option.splits panics.splits if_splits sum.splits elim!: unless_forced_cases dest: on_disk_keeps)

lemma mgr_RemovePackage_ok:
  assumes "mgr_RemovePackage M s root preserve skip False h = (Ok u, h')"
  shows "\<exists>h1. keeps_world h h1 \<and> bd_RemovePackage (st_ToPackage s) (hsDb h1) = (None, hsDb h')"
proof -
  from assms [unfolded mgr_RemovePackage_def Let_def] obtain h1 h2 h3 h4 where
    1: "remove_files_step M s root preserve False h = (Ok (), h1)"
    and 2: "unless_forced False ((@) ''Failed removing package files from database: '')
        (on_db (bd_RemovePackageFiles (st_ToPackage s)) h1) = (Ok (), h2)"
    and 3: "(if \<not> skip then remove_finalizer_step M (st_ToPackage s) root False h2 else (Ok (), h2)) = (Ok (), h3)"
    and 4: "unless_forced False ((@) ''Failed removing package finalizer from database: '')
        (on_db (bd_RemovePackageFinalizer (st_ToPackage s)) h3) = (Ok (), h4)"
    and 5: "unless_forced False ((@) ''Failed removing package from database: '')
        (on_db (bd_RemovePackage (st_ToPackage s)) h4) = (Ok (), h')"
    by (auto dest!: obind_OkD)
  have "keeps_world h h1" by (rule remove_files_keeps [OF 1])
  moreover have "keeps_world h1 h2" using 2 by (auto elim!: unless_forced_cases dest: on_db_files_keeps)
  moreover have "keeps_world h2 h3" using 3 remove_finalizer_keeps by (auto split: if_splits)
  moreover have "keeps_world h3 h4" using 4 by (auto elim!: unless_forced_cases dest: on_db_files_keeps)
  ultimately have "keeps_world h h4" using keeps_world_trans by blast
  moreover have "bd_RemovePackage (st_ToPackage s) (hsDb h4) = (None, hsDb h')"
    using 5 by (auto elim!: unless_forced_cases simp: on_db_def split: prod.splits)
  ultimately show ?thesis by blast
qed

lemma RegisterPackage_ok:
  assumes "RegisterPackage M a r force h = (Ok u, h')"
  shows "\<exists>pp h1 i. GetPackage a = Some pp \<and> keeps_world h h1 \<and> bd_CreatePackage pp (hsDb h1) = (Inr i, hsDb h')"
proof -
  from assms obtain pp h1 h2 where pp: "GetPackage a = Some pp"
    and 1: "unless_forced force ((@) ''Register package files on database: '')
        (on_db (bd_SetPackageFiles (GetFingerPrint pp) (aFiles a)) h) = (Ok (), h1)"
    and 2: "register_finalizer M a pp r force h1 = (Ok (), h2)"
    and 3: "(case on_db (bd_CreatePackage pp) h2 of
        (Inl e, h) \<Rightarrow> (Err (''Failed register package: '' @ e), h) | (Inr _, h) \<Rightarrow> (Ok (), h)) = (Ok u, h')"
    by (auto simp: RegisterPackage_def split: option.splits dest!: obind_OkD)
  have "keeps_world h h1" using 1 by (auto elim!: unless_forced_cases dest: on_db_files_keeps)
  then have "keeps_world h h2" using register_finalizer_keeps [OF 2] keeps_world_trans by blast
  moreover obtain i where "bd_CreatePackage pp (hsDb h2) = (Inr i, hsDb h')"
    using 3 by (auto simp: on_db_def split: prod.splits sum.splits)
  ultimately show ?thesis using pp by blast
qed

lemma removal_stone_pkey [simp]: "pkey (st_ToPackage (removal_stone repo p)) = pkey p"
  by (simp add: pkey_def removal_stone_def st_ToPackage_def NewPackage_def)

lemma pkey_PN: "pkey p = pkey q \<Longrightarrow> PackageName p = PackageName q"
  by (simp add: pkey_def PackageName_def)

text \<open>
  A function that removes a package from the host: its success means that the database had the package and
  lost it, and nothing else of the packages has changed.
\<close>

locale package_removal =
  fixes rm :: "default_package \<Rightarrow> host \<Rightarrow> unit outcome \<times> host"
  assumes rm_ok: "rm p h = (Ok u, h') \<Longrightarrow>
    \<exists>h1 p'. keeps_world h h1 \<and> pkey p' = pkey p \<and> bd_RemovePackage p' (hsDb h1) = (None, hsDb h')"
begin

lemma rm_splits:
  assumes "bolt_valid (hsDb h)" "rm p h = (Ok u, h')"
  shows "bolt_valid (hsDb h')" "\<exists>xs q ys. bd_World (hsDb h) = xs @ q # ys \<and> (\<forall>x\<in>set xs. pkey x \<noteq> pkey p) \<and>
    pkey q = pkey p \<and> bd_World (hsDb h') = xs @ ys"
proof -
  from rm_ok [OF assms(2)] obtain h1 p' where h1: "keeps_world h h1" "pkey p' = pkey p"
    and rm: "bd_RemovePackage p' (hsDb h1) = (None, hsDb h')" by blast
  have "bolt_valid (hsDb h1)" using h1 assms(1) by (simp add: keeps_world_def)
  from bolt_remove_world [OF this rm] keeps_world_World [OF h1(1) assms(1)]
  show "bolt_valid (hsDb h')" "\<exists>xs q ys. bd_World (hsDb h) = xs @ q # ys \<and> (\<forall>x\<in>set xs. pkey x \<noteq> pkey p) \<and>
    pkey q = pkey p \<and> bd_World (hsDb h') = xs @ ys" by (simp_all add: h1(2))
qed

lemma rm_filters:
  assumes "bolt_valid (hsDb h)" "distinct (map pkey (bd_World (hsDb h)))" "rm p h = (Ok u, h')"
  shows "bolt_valid (hsDb h')" "distinct (map pkey (bd_World (hsDb h')))"
    "bd_World (hsDb h') = filter (\<lambda>w. pkey w \<noteq> pkey p) (bd_World (hsDb h))" "pkey p \<in> pkey ` set (bd_World (hsDb h))"
proof -
  from rm_splits(2) [OF assms(1,3)] obtain xs q ys where split: "bd_World (hsDb h) = xs @ q # ys" "pkey q = pkey p"
    and w1: "bd_World (hsDb h') = xs @ ys" by blast
  have "\<forall>x\<in>set (xs @ ys). pkey x \<noteq> pkey p" using assms(2) split by (auto simp: image_iff)
  then have "filter (\<lambda>w. pkey w \<noteq> pkey p) (xs @ ys) = xs @ ys" unfolding filter_id_conv .
  then show "bd_World (hsDb h') = filter (\<lambda>w. pkey w \<noteq> pkey p) (bd_World (hsDb h))" using split w1 by simp
  show "distinct (map pkey (bd_World (hsDb h')))" using assms(2) split(1) w1 by auto
  show "pkey p \<in> pkey ` set (bd_World (hsDb h))" using split by (metis image_eqI in_set_conv_decomp)
qed (rule rm_splits(1) [OF assms(1,3)])

text \<open>A loop that removes the packages of a list and ends at an error.\<close>

lemma rm_all:
  assumes "\<And>h u h'. loop [] h = (Ok u, h') \<Longrightarrow> h' = h"
    and "\<And>p ps h u h'. loop (p # ps) h = (Ok u, h') \<Longrightarrow> \<exists>v h1. rm p h = (Ok v, h1) \<and> loop ps h1 = (Ok u, h')"
  shows "loop ps h = (Ok u, h') \<Longrightarrow> bolt_valid (hsDb h) \<Longrightarrow> distinct (map pkey (bd_World (hsDb h))) \<Longrightarrow>
    bolt_valid (hsDb h') \<and> pkey ` set ps \<subseteq> pkey ` set (bd_World (hsDb h)) \<and>
    bd_World (hsDb h') = filter (\<lambda>w. pkey w \<notin> pkey ` set ps) (bd_World (hsDb h))"
proof (induction ps arbitrary: h)
  case (Cons p ps)
  from assms(2) [OF Cons.prems(1)] obtain v h1 where one: "rm p h = (Ok v, h1)" and rest: "loop ps h1 = (Ok u, h')" by blast
  note w = rm_filters [OF Cons.prems(2,3) one]
  from Cons.IH [OF rest w(1,2)] w(3,4) show ?case by (auto simp: filter_filter intro: filter_cong)
qed (auto dest: assms(1))

end

interpretation mgr: package_removal "\<lambda>p. mgr_RemovePackage M (removal_stone (repo p) p) root preserve skip False"
  for M root preserve skip and repo :: "default_package \<Rightarrow> string"
proof
  fix p h u h'
  assume "mgr_RemovePackage M (removal_stone (repo p) p) root preserve skip False h = (Ok u, h')"
  from mgr_RemovePackage_ok [OF this] removal_stone_pkey
  show "\<exists>h1 p'. keeps_world h h1 \<and> pkey p' = pkey p \<and> bd_RemovePackage p' (hsDb h1) = (None, hsDb h')" by blast
qed

section \<open>Uninstall\<close>

lemma uninstall_loop_world:
  assumes "\<not> uoForce opts" "bolt_valid (hsDb h)" "distinct (map pkey (bd_World (hsDb h)))"
    and "uninstall_loop M opts root ps None h = (Ok u, h')"
  shows "bd_World (hsDb h') = filter (\<lambda>w. pkey w \<notin> pkey ` set ps) (bd_World (hsDb h)) \<and>
    pkey ` set ps \<subseteq> pkey ` set (bd_World (hsDb h))"
proof -
  let ?rm = "\<lambda>p. mgr_RemovePackage M (removal_stone (pRepository p) p) root (uoPreserve opts) (uoSkipFinalizers opts) False"
  have "\<exists>v h1. ?rm p h = (Ok v, h1) \<and> uninstall_loop M opts root ps None h1 = (Ok u, h')"
    if "uninstall_loop M opts root (p # ps) None h = (Ok u, h')" for p ps h u h'
    using that assms(1) by (auto split: prod.splits outcome.splits if_splits)
  from mgr.rm_all [where repo = pRepository and loop = "\<lambda>ps. uninstall_loop M opts root ps None", OF _ this assms(4,2,3)] show ?thesis by auto
qed

lemma match_packages_length: "match_packages f force ps = Ok qs \<Longrightarrow> length qs \<le> length ps"
proof (induction ps arbitrary: qs)
  case (Cons p ps)
  then show ?case by (fastforce split: option.splits sum.splits list.splits outcome.splits if_splits)
qed simp

lemma card_names: "card (PackageName ` (set ws \<union> set ps)) \<le> length ws + length ps"
proof -
  have "card (PackageName ` (set ws \<union> set ps)) \<le> card (set (map PackageName (ws @ ps)))"
    by (intro card_mono) auto
  also have "\<dots> \<le> length ws + length ps" using card_length [of "map PackageName (ws @ ps)"] by simp
  finally show ?thesis .
qed

lemma pkey_PN_mem:
  assumes "distinct (map PackageName ws)" "pkey ` set ms \<subseteq> pkey ` set ws" "w \<in> set ws"
  shows "pkey w \<in> pkey ` set ms \<longleftrightarrow> PackageName w \<in> PackageName ` set ms"
proof
  assume "pkey w \<in> pkey ` set ms"
  then show "PackageName w \<in> PackageName ` set ms" using pkey_PN by blast
next
  assume "PackageName w \<in> PackageName ` set ms"
  then obtain m where m: "m \<in> set ms" "PackageName w = PackageName m" by blast
  then obtain v where v: "v \<in> set ws" "pkey v = pkey m" using assms(2) by (metis image_iff subsetD)
  then have "PackageName v = PackageName w" using pkey_PN m(2) by metis
  moreover have "inj_on PackageName (set ws)" using assms(1) by (simp add: distinct_map)
  ultimately have "v = w" using assms(3) v(1) by (simp add: inj_onD)
  then show "pkey w \<in> pkey ` set ms" using v m by auto
qed

lemma distinct_pkey: "distinct (map PackageName ws) \<Longrightarrow> distinct (map pkey ws)"
  unfolding distinct_map inj_on_def using pkey_PN by metis

lemma rdep_closure_step: "x \<in> rdep_closure ws ms \<Longrightarrow> rdep ws x y \<Longrightarrow> y \<in> rdep_closure ws ms"
  unfolding rdep_closure_def using rtranclp.rtrancl_into_rtrancl by fastforce

text \<open>What a completed removal leaves of the installed packages.\<close>

lemma Uninstall_leaves:
  assumes "bolt_valid (hsDb h)" "distinct (map PackageName (bd_World (hsDb h)))"
    and "\<not> uoForce opts" "\<not> uoNoDeps opts" "length (bd_World (hsDb h)) + length packs < n"
    and "Uninstall M k n opts answer root packs h = (Ok u, h')"
  obtains matched where
    "match_packages (\<lambda>p. bd_FindPackages (inDb M) k (hsDb h) p) False packs = Ok matched"
    "bd_World (hsDb h') =
      filter (\<lambda>w. PackageName w \<notin> rdep_closure (bd_World (hsDb h)) matched) (bd_World (hsDb h))"
proof -
  let ?W = "bd_World (hsDb h)" and ?W' = "bd_World (hsDb h')"
  from assms(6) [unfolded Uninstall_def] assms(3) obtain matched ms where
    m: "match_packages (\<lambda>p. bd_FindPackages (inDb M) k (hsDb h) p) False packs = Ok matched"
    and l: "removal_list n opts answer matched ?W = Ok ms"
    and u: "uninstall_loop M opts root ms None h = (Ok u, h')"
    by (auto dest!: obind_OkD)
  have "card (PackageName ` (set ?W \<union> set matched)) < n"
    using card_names [of ?W matched] match_packages_length [OF m] assms(5) by linarith
  from resolve_new [OF this] l assms(4) have closure: "PackageName ` set ms = rdep_closure ?W matched"
    by (auto simp: removal_list_def rdep_closure_def split: if_splits)
  from uninstall_loop_world [OF assms(3,1) distinct_pkey [OF assms(2)] u]
  have W': "?W' = filter (\<lambda>w. pkey w \<notin> pkey ` set ms) ?W" "pkey ` set ms \<subseteq> pkey ` set ?W" by auto
  have "?W' = filter (\<lambda>w. PackageName w \<notin> rdep_closure ?W matched) ?W"
    unfolding W'(1) using pkey_PN_mem [OF assms(2) W'(2)] closure by (intro filter_cong) auto
  with m show thesis by (rule that)
qed

text \<open>
  C5: A removal that ends well removes from the installed packages exactly those that the walk over the reverse
  dependencies reaches by name from the packages matched: from a name to every installed package that requires
  it or that provides it, and on from the name of that package.  So no package that stays requires the name of
  a package that is gone.
\<close>

theorem Uninstall_closure:
  assumes "bolt_valid (hsDb h)" "distinct (map PackageName (bd_World (hsDb h)))"
    and "\<not> uoForce opts" "\<not> uoNoDeps opts" "length (bd_World (hsDb h)) + length packs < n"
    and "Uninstall M k n opts answer root packs h = (Ok u, h')"
  shows "\<exists>matched.
    match_packages (\<lambda>p. bd_FindPackages (inDb M) k (hsDb h) p) False packs = Ok matched \<and>
    bd_World (hsDb h') =
      filter (\<lambda>w. PackageName w \<notin> rdep_closure (bd_World (hsDb h)) matched) (bd_World (hsDb h)) \<and>
    (\<forall>w\<in>set (bd_World (hsDb h')). \<forall>r\<in>set (PackageRequires w).
       PackageName r \<notin> PackageName ` (set (bd_World (hsDb h)) - set (bd_World (hsDb h'))))"
proof -
  let ?W = "bd_World (hsDb h)" and ?W' = "bd_World (hsDb h')"
  obtain matched where
    m: "match_packages (\<lambda>p. bd_FindPackages (inDb M) k (hsDb h) p) False packs = Ok matched"
    and eq: "?W' = filter (\<lambda>w. PackageName w \<notin> rdep_closure ?W matched) ?W"
    by (rule Uninstall_leaves [OF assms])
  have "PackageName r \<noteq> PackageName v"
    if "w \<in> set ?W'" "r \<in> set (PackageRequires w)" "v \<in> set ?W" "v \<notin> set ?W'" for w r v
  proof
    assume "PackageName r = PackageName v"
    with that(2) have "PackageName v \<in> PackageName ` set (PackageRequires w)" by (metis imageI)
    moreover have "w \<in> set ?W" using that(1) unfolding eq by simp
    ultimately have "rdep ?W (PackageName v) (PackageName w)" unfolding rdep_def by blast
    moreover have "PackageName v \<in> rdep_closure ?W matched" using that(3,4) unfolding eq by simp
    ultimately have "PackageName w \<in> rdep_closure ?W matched" by (rule rdep_closure_step [rotated])
    with that(1) show False unfolding eq by simp
  qed
  with m eq show ?thesis by blast
qed

section \<open>Examples of removals\<close>

definition demo_inst :: inst_env where
  "demo_inst =
     \<lparr>inConf = demo_conf, inDb = plain_db_env, inOrder = (\<lambda>ks. ks), inUnpack = (\<lambda>a root d. (None, d)),
      inExec = (\<lambda>cmd args root d. (None, d)), inFinalizer = (\<lambda>d f def. Inl ''no finalizer''),
      inClient = (\<lambda>w. True), inDownload = (\<lambda>w a d. (Inr a, d)), inGenerate = (\<lambda>a d. Inr [])\<rparr>"

fun demo_db :: "default_package list \<Rightarrow> bolt_db" where
  "demo_db [] = NewBoltDatabase"
| "demo_db (p # ps) =
     snd (bd_CreatePackage p (snd (bd_SetPackageFiles (GetFingerPrint p) [''usr/'' @ pName p] (demo_db ps))))"

definition demo_host :: "default_package list \<Rightarrow> host" where
  "demo_host ps = \<lparr>hsDb = demo_db ps, hsDisk = [([''usr''], NDir)], hsFileIndex = None\<rparr>"

definition demo_uninstall :: uninstall_opts where
  "demo_uninstall = \<lparr>uoForce = False, uoNoDeps = False, uoPreserve = True, uoAsk = False, uoSkipFinalizers = False\<rparr>"

lemma demo_db_valid: "\<forall>p\<in>set ps. ID (pkg_data p) = 0 \<Longrightarrow> bolt_valid (demo_db ps)"
proof (induction ps)
  case Nil
  show ?case
    by (simp add: bolt_valid_def bolt_ok_def packages_ok_def coll_wf_def ids_below_def NewBoltDatabase_def empty_coll_def)
next
  case (Cons p ps)
  let ?db = "snd (bd_SetPackageFiles (GetFingerPrint p) [''usr/'' @ pName p] (demo_db ps))"
  have v: "bolt_valid ?db" using Cons bolt_files_ok by (simp add: bolt_valid_def)
  obtain r db' where c: "bd_CreatePackage p ?db = (r, db')" by (cases "bd_CreatePackage p ?db")
  then have "bolt_valid db'"
  proof (cases r)
    case (Inl e)
    with c v show ?thesis by (auto elim!: create_cases)
  next
    case (Inr i)
    with c have "bd_CreatePackage p ?db = (Inr i, db')" by simp
    from bolt_create_world(1) [OF v _ this] Cons.prems show ?thesis by simp
  qed
  with c show ?case by simp
qed

definition pair_world :: "default_package list" where
  "pair_world = [demo_pkg ''bar'' ''1.0'' [demo_pkg ''foo'' ''>=1.0'' [] []] [], demo_pkg ''foo'' ''1.0'' [] []]"

lemma pair_removed:
  "fst (Uninstall demo_inst 1 4 demo_uninstall True ''/'' [demo_pkg ''foo'' ''1.0'' [] []] (demo_host pair_world)) = Ok ()"
  "bd_World (hsDb (snd (Uninstall demo_inst 1 4 demo_uninstall True ''/'' [demo_pkg ''foo'' ''1.0'' [] []]
     (demo_host pair_world)))) = []"
  by code_simp+

theorem Uninstall_closure_witness:
  "\<exists>matched. match_packages (\<lambda>p. bd_FindPackages (inDb demo_inst) 1 (demo_db pair_world) p) False
     [demo_pkg ''foo'' ''1.0'' [] []] = Ok matched \<and>
     filter (\<lambda>w. PackageName w \<notin> rdep_closure (bd_World (demo_db pair_world)) matched)
       (bd_World (demo_db pair_world)) = []"
proof -
  let ?r = "Uninstall demo_inst 1 4 demo_uninstall True ''/'' [demo_pkg ''foo'' ''1.0'' [] []] (demo_host pair_world)"
  have run: "?r = (Ok (), snd ?r)" using pair_removed(1) by (metis prod.collapse)
  have v: "bolt_valid (hsDb (demo_host pair_world))"
  proof -
    have "\<forall>p\<in>set pair_world. ID (pkg_data p) = 0" by code_simp
    from demo_db_valid [OF this] show ?thesis by (simp add: demo_host_def)
  qed
  have d: "distinct (map PackageName (bd_World (hsDb (demo_host pair_world))))" by code_simp
  have o: "\<not> uoForce demo_uninstall" "\<not> uoNoDeps demo_uninstall" by (simp_all add: demo_uninstall_def)
  have n: "length (bd_World (hsDb (demo_host pair_world))) + length [demo_pkg ''foo'' ''1.0'' [] []] < 4" by code_simp
  have db: "hsDb (demo_host pair_world) = demo_db pair_world" by (simp add: demo_host_def)
  from Uninstall_closure [OF v d o n run, unfolded pair_removed(2) db] show ?thesis
    by (elim exE conjE) (rule exI, rule conjI, assumption, erule sym)
qed

definition mta_world :: "default_package list" where
  "mta_world =
     [demo_pkg ''mail'' ''1.0'' [demo_pkg ''mta'' ''>=0'' [] []] [],
      DefaultPackage (pkg_data (demo_pkg ''exim'' ''4.0'' [] [])) [] [] [demo_pkg ''mta'' ''1.0'' [] []]]"

definition offers :: "default_package \<Rightarrow> default_package \<Rightarrow> bool" where
  "offers v r \<longleftrightarrow> PackageName r \<in> insert (PackageName v) (PackageName ` set (Provides v))"

lemma rdep_closure_names:
  assumes "\<forall>w\<in>set W. PackageName w \<in> PackageName ` set ms \<or>
      PackageName ` (set (PackageRequires w) \<union> set (Provides w)) \<inter> PackageName ` set ms = {}"
  shows "rdep_closure W ms = PackageName ` set ms"
proof -
  have "y \<in> PackageName ` set ms" if "(rdep W)\<^sup>*\<^sup>* x y" "x \<in> PackageName ` set ms" for x y
    using that
  proof induction
    case (step y z)
    then show ?case using assms by (auto simp: rdep_def)
  qed
  then show ?thesis unfolding rdep_closure_def by blast
qed

text \<open>
  C24: A removal does not look at what the removed packages provide.  When the packages matched are named by no
  requirement and no provide of the other installed packages, they alone are removed, without an error; so a
  package that stays and requires a name that only they provide is left without any installed package of that
  name or that provides it.
\<close>

theorem Uninstall_breaks_provides:
  assumes "bolt_valid (hsDb h)" "distinct (map PackageName (bd_World (hsDb h)))"
    and "\<not> uoForce opts" "\<not> uoNoDeps opts" "length (bd_World (hsDb h)) + length packs < n"
    and "Uninstall M k n opts answer root packs h = (Ok u, h')"
    and "match_packages (\<lambda>p. bd_FindPackages (inDb M) k (hsDb h) p) False packs = Ok matched"
    and "\<forall>w\<in>set (bd_World (hsDb h)). PackageName w \<in> PackageName ` set matched \<or>
      PackageName ` (set (PackageRequires w) \<union> set (Provides w)) \<inter> PackageName ` set matched = {}"
    and "w \<in> set (bd_World (hsDb h))" "PackageName w \<notin> PackageName ` set matched" "r \<in> set (PackageRequires w)"
    and "\<forall>v\<in>set (bd_World (hsDb h)). offers v r \<longrightarrow> PackageName v \<in> PackageName ` set matched"
  shows "bd_World (hsDb h') = filter (\<lambda>v. PackageName v \<notin> PackageName ` set matched) (bd_World (hsDb h)) \<and>
    w \<in> set (bd_World (hsDb h')) \<and> \<not> (\<exists>v\<in>set (bd_World (hsDb h')). offers v r)"
proof -
  have "bd_World (hsDb h') =
      filter (\<lambda>w. PackageName w \<notin> rdep_closure (bd_World (hsDb h)) matched) (bd_World (hsDb h))"
    using Uninstall_leaves [OF assms(1-6)] assms(7) by (metis outcome.inject(1))
  then have W': "bd_World (hsDb h') = filter (\<lambda>v. PackageName v \<notin> PackageName ` set matched) (bd_World (hsDb h))"
    by (simp only: rdep_closure_names [OF assms(8)])
  show ?thesis unfolding W' using assms(9,10,12) by auto
qed

theorem Uninstall_breaks_provides_witness:
  "\<exists>h' w r. Uninstall demo_inst 1 4 demo_uninstall True ''/'' [demo_pkg ''exim'' ''4.0'' [] []] (demo_host mta_world) =
      (Ok (), h') \<and> w \<in> set (bd_World (hsDb h')) \<and> r \<in> set (PackageRequires w) \<and>
      (\<exists>v\<in>set (bd_World (hsDb (demo_host mta_world))). offers v r) \<and> \<not> (\<exists>v\<in>set (bd_World (hsDb h')). offers v r)"
proof -
  let ?q = "demo_pkg ''exim'' ''4.0'' [] []" and ?h = "demo_host mta_world"
  let ?r = "Uninstall demo_inst 1 4 demo_uninstall True ''/'' [?q] ?h" and ?W = "bd_World (hsDb (demo_host mta_world))"
  have "fst ?r = Ok ()" by code_simp
  then have run: "?r = (Ok (), snd ?r)" by (metis prod.collapse)
  have v: "bolt_valid (hsDb ?h)"
  proof -
    have "\<forall>p\<in>set mta_world. ID (pkg_data p) = 0" by code_simp
    from demo_db_valid [OF this] show ?thesis by (simp add: demo_host_def)
  qed
  have "length ?W = 2" by code_simp
  then obtain e w where W: "?W = [e, w]" by (auto simp: length_Suc_conv numeral_2_eq_2)
  have "match_packages (\<lambda>p. bd_FindPackages (inDb demo_inst) 1 (hsDb ?h) p) False [?q] = Ok [?W ! 0]" by code_simp
  then have m: "match_packages (\<lambda>p. bd_FindPackages (inDb demo_inst) 1 (hsDb ?h) p) False [?q] = Ok [e]" by (simp add: W)
  have "map PackageName ?W = [''c/exim'', ''c/mail'']" "map (map PackageName \<circ> PackageRequires) ?W = [[], [''c/mta'']]"
    "map (map PackageName \<circ> Provides) ?W = [[''c/mta''], []]"
    by code_simp+
  then obtain r m1 where facts: "PackageName e = ''c/exim''" "PackageName w = ''c/mail''" "PackageRequires e = []"
    "PackageRequires w = [r]" "PackageName r = ''c/mta''" "Provides e = [m1]" "PackageName m1 = ''c/mta''" "Provides w = []"
    by (auto simp: W)
  have d: "distinct (map PackageName ?W)" by code_simp
  have o: "\<not> uoForce demo_uninstall" "\<not> uoNoDeps demo_uninstall" by (simp_all add: demo_uninstall_def)
  have n: "length ?W + length [?q] < 4" by code_simp
  have named: "\<forall>v\<in>set ?W. PackageName v \<in> PackageName ` set [e] \<or>
      PackageName ` (set (PackageRequires v) \<union> set (Provides v)) \<inter> PackageName ` set [e] = {}"
    by (simp add: W facts)
  have only: "\<forall>v\<in>set ?W. offers v r \<longrightarrow> PackageName v \<in> PackageName ` set [e]"
    by (simp add: W facts offers_def)
  have w: "w \<in> set ?W" "PackageName w \<notin> PackageName ` set [e]" "r \<in> set (PackageRequires w)" by (simp_all add: W facts)
  from Uninstall_breaks_provides [OF v d o n run m named w only]
  have "w \<in> set (bd_World (hsDb (snd ?r))) \<and> \<not> (\<exists>v\<in>set (bd_World (hsDb (snd ?r))). offers v r)" by blast
  moreover have "\<exists>v\<in>set ?W. offers v r" by (simp add: W facts offers_def)
  ultimately show ?thesis using run w(3) by (intro exI [of _ "snd ?r"] exI [of _ w] exI [of _ r] conjI) simp_all
qed

end
