(* ===== verification/SearchProofs.thy ===== *)
theory SearchProofs
  imports Wagon Analysis
begin

text \<open>
  What the searches find: every artifact comes from a directory of the repository, matches the search
  and is not masked; the names that can be found are finitely many, so that the solver on the real
  searcher returns.  And where a search goes wrong: a broken directory hides its category, and the
  conditions on labels.
\<close>

section \<open>Directories\<close>

text \<open>The directories of versions a search may look into: those listed and those of the provides.\<close>

definition listed :: "listing \<Rightarrow> string set" where
  "listed l = (case l of Inl _ \<Rightarrow> {} | Inr es \<Rightarrow> fst ` set es)"

definition version_paths :: "repo_fs \<Rightarrow> (string \<times> string \<times> string) set" where
  "version_paths fs =
     (\<Union>c\<in>listed (rfTree fs). \<Union>n\<in>listed (rfCategory fs c). (\<lambda>v. (c, n, v)) ` listed (rfPackage fs c n)) \<union>
     (case rfProvides fs of
        Inl _ \<Rightarrow> {}
      | Inr m \<Rightarrow> (\<lambda>p. (pCategory p, pName p, pVersion p)) ` (\<Union>(k, ps)\<in>set m. set ps))"

lemma finite_listed [simp]: "finite (listed l)"
  by (simp add: listed_def split: sum.split)

lemma finite_version_paths: "finite (version_paths fs)"
  by (auto simp: version_paths_def split: sum.split)

definition dir_at :: "repo_fs \<Rightarrow> string \<times> string \<times> string \<Rightarrow> version_dir" where
  "dir_at fs t = rfVersion fs (fst t) (fst (snd t)) (snd (snd t))"

text \<open>An artifact that \<open>analyzePackageDir\<close> gives for a directory of the repository.\<close>

definition found_in ::
    "search_env \<Rightarrow> search_opts \<Rightarrow> search_regs \<Rightarrow> string \<Rightarrow> repo_fs \<Rightarrow> artifact \<Rightarrow> bool" where
  "found_in X opts rs repo fs b \<longleftrightarrow>
     (\<exists>t\<in>version_paths fs. analyzePackageDir X opts rs repo (dir_at fs t) = Ok (Some b))"

lemma listed_mem: "l = Inr es \<Longrightarrow> (x, d) \<in> set es \<Longrightarrow> x \<in> listed l"
  by (force simp: listed_def)

lemma versions_dirs_found:
  "versions_dirs X opts rs repo dir vs = Ok as \<Longrightarrow> b \<in> set as \<Longrightarrow>
   \<exists>v\<in>fst ` set vs. analyzePackageDir X opts rs repo (dir v) = Ok (Some b)"
proof (induction X opts rs repo dir vs arbitrary: as rule: versions_dirs.induct)
  case (2 X opts rs repo dir v isDir vs)
  then show ?case
    by (force split: if_splits outcome.splits option.splits)
qed simp

lemma packages_dirs_found:
  "packages_dirs X opts rs repo fs cat ns = Ok as \<Longrightarrow> b \<in> set as \<Longrightarrow>
   \<exists>n\<in>fst ` set ns. \<exists>v\<in>listed (rfPackage fs cat n).
     analyzePackageDir X opts rs repo (rfVersion fs cat n v) = Ok (Some b)"
proof (induction X opts rs repo fs cat ns arbitrary: as rule: packages_dirs.induct)
  case (2 X opts rs repo fs cat name isDir ns)
  show ?case
  proof (cases "isDir \<and> \<not> skip_name opts rs cat name")
    case False
    then show ?thesis using 2 by (auto split: if_splits)
  next
    case True
    with "2.prems"(1) obtain vs as1 as2 where vs: "rfPackage fs cat name = Inr vs"
      and a: "versions_dirs X opts rs repo (rfVersion fs cat name) vs = Ok as1"
      and b: "packages_dirs X opts rs repo fs cat ns = Ok as2" "as = as1 @ as2"
      by (auto split: sum.splits outcome.splits)
    show ?thesis
    proof (cases "b \<in> set as1")
      case True
      from versions_dirs_found [OF a this] vs show ?thesis by (auto simp: listed_def)
    next
      case False
      then have "b \<in> set as2" using b(2) "2.prems"(2) by simp
      from "2.IH"(3) [OF _ _ vs a b(1) this] True show ?thesis by auto
    qed
  qed
qed simp

lemma categories_found:
  "categories_loop X opts rs repo fs cs = Ok as \<Longrightarrow> set cs \<subseteq> listed (rfTree fs) \<Longrightarrow> b \<in> set as \<Longrightarrow>
   found_in X opts rs repo fs b"
proof (induction X opts rs repo fs cs arbitrary: as rule: categories_loop.induct)
  case (2 X opts rs repo fs c cs)
  have one: "found_in X opts rs repo fs b" if cat: "analyzeCatDir X opts rs repo fs c = Ok as1" and b: "b \<in> set as1" for as1
  proof -
    from cat obtain ns where ns: "rfCategory fs c = Inr ns" "packages_dirs X opts rs repo fs c ns = Ok as1"
      by (auto simp: analyzeCatDir_def split: sum.splits)
    obtain n v where nv: "n \<in> fst ` set ns" "v \<in> listed (rfPackage fs c n)"
      "analyzePackageDir X opts rs repo (rfVersion fs c n v) = Ok (Some b)"
      using packages_dirs_found [OF ns(2) b] by blast
    have "c \<in> listed (rfTree fs)" "n \<in> listed (rfCategory fs c)"
      using nv(1) "2.prems"(2) ns(1) by (auto simp: listed_def)
    then have "(c, n, v) \<in> version_paths fs"
      using nv(2) unfolding version_paths_def by blast
    then show ?thesis using nv(3) unfolding found_in_def dir_at_def by force
  qed
  show ?case
  proof (cases "analyzeCatDir X opts rs repo fs c")
    case (Ok as1)
    with 2 one [OF Ok] show ?thesis by (auto split: outcome.splits)
  next
    case (Err e)
    with 2 show ?thesis by auto
  qed (use 2 in auto)
qed simp

lemma prov_arts_found:
  "prov_arts_loop X opts rs repo fs arts ps = Ok as \<Longrightarrow> b \<in> set as \<Longrightarrow>
   \<exists>p\<in>set ps. analyzePackageDir X opts rs repo (rfVersion fs (pCategory p) (pName p) (pVersion p)) = Ok (Some b)"
proof (induction X opts rs repo fs arts ps arbitrary: as rule: prov_arts_loop.induct)
  case (2 X opts rs repo fs arts p ps)
  then show ?case by (force split: if_splits outcome.splits option.splits)
qed simp

lemma provides_range_found:
  "provides_range X opts rs repo fs arts name es = Ok as \<Longrightarrow> b \<in> set as \<Longrightarrow>
   \<exists>(k, ps)\<in>set es. \<exists>p\<in>set ps.
     analyzePackageDir X opts rs repo (rfVersion fs (pCategory p) (pName p) (pVersion p)) = Ok (Some b)"
proof (induction X opts rs repo fs arts name es arbitrary: as rule: provides_range.induct)
  case (2 X opts rs repo fs arts name k ps es)
  show ?case
  proof (cases "name = k")
    case True
    with "2.prems"(1) obtain as1 as2 where a: "prov_arts_loop X opts rs repo fs arts ps = Ok as1"
      and b: "provides_range X opts rs repo fs arts name es = Ok as2" "as = as1 @ as2"
      by (auto split: outcome.splits)
    show ?thesis
    proof (cases "b \<in> set as1")
      case True
      from prov_arts_found [OF a this] show ?thesis by auto
    next
      case False
      then have "b \<in> set as2" using b(2) "2.prems"(2) by simp
      from "2.IH"(1) [OF True a b(1) this] show ?thesis by auto
    qed
  qed (use 2 in auto)
qed simp

lemma provides_pkgs_found:
  assumes ord: "map_order (sxOrder X)"
  shows "provides_pkgs X opts rs repo fs m arts qs = Ok as \<Longrightarrow> b \<in> set as \<Longrightarrow>
   \<exists>(k, ps)\<in>set m. \<exists>p\<in>set ps.
     analyzePackageDir X opts rs repo (rfVersion fs (pCategory p) (pName p) (pVersion p)) = Ok (Some b)"
  using ord
proof (induction X opts rs repo fs m arts qs arbitrary: as rule: provides_pkgs.induct)
  case (2 X opts rs repo fs m arts sp sps)
  then obtain as1 as2 where
    a: "provides_range X opts rs repo fs arts (PackageName sp) (gm_range (sxOrder X) m) = Ok as1"
    and b: "provides_pkgs X opts rs repo fs m arts sps = Ok as2" "as = as1 @ as2"
    by (auto split: outcome.splits)
  have sub: "set (gm_range (sxOrder X) m) \<subseteq> set m"
    by (auto simp: map_order.range_iff [OF "2.prems"(3)] dest: map_of_SomeD)
  show ?case
  proof (cases "b \<in> set as1")
    case True
    from provides_range_found [OF a this] sub show ?thesis by blast
  next
    case False
    then have "b \<in> set as2" using b(2) "2.prems"(2) by simp
    from "2.IH" [OF a b(1) this "2.prems"(3)] show ?thesis .
  qed
qed simp

lemma SearchArtifacts_found:
  assumes ord: "map_order (sxOrder X)" and search: "SearchArtifacts X opts repo fs = Ok as" and b: "b \<in> set as"
  obtains rs where "compile_regs (sxRx X) opts = Returns rs" "found_in X opts rs repo fs b"
proof -
  obtain rs files ans where rs: "compile_regs (sxRx X) opts = Returns rs" and files: "rfTree fs = Inr files"
    and cats: "categories_loop X opts rs repo fs (map fst (filter (search_category opts rs) files)) = Ok ans"
    and end_: "(if soOnlyPackages opts then searchProvides X opts rs repo fs ans else Ok ans) = Ok as"
    using search by (auto simp: SearchArtifacts_def split: if_splits panics.splits sum.splits outcome.splits)
  have ans: "found_in X opts rs repo fs b" if "b \<in> set ans"
    using that by (intro categories_found [OF cats]) (auto simp: files listed_def)
  have "found_in X opts rs repo fs b"
  proof (cases "b \<in> set ans")
    case False
    then have "as \<noteq> ans" using b by auto
    then obtain m as2 where m: "rfProvides fs = Inr m"
      "provides_pkgs X opts rs repo fs m ans (soPackages opts) = Ok as2" "as = ans @ as2"
      using end_ by (auto simp: searchProvides_def split: if_splits sum.splits outcome.splits)
    then have "b \<in> set as2" using b False by simp
    from provides_pkgs_found [OF ord m(2) this] obtain k ps p where p: "(k, ps) \<in> set m" "p \<in> set ps"
      "analyzePackageDir X opts rs repo (rfVersion fs (pCategory p) (pName p) (pVersion p)) = Ok (Some b)"
      by blast
    then have "(pCategory p, pName p, pVersion p) \<in> version_paths fs"
      using m(1) by (force simp: version_paths_def)
    then show ?thesis using p(3) unfolding found_in_def dir_at_def by force
  qed (rule ans)
  with rs that show thesis by blast
qed
section \<open>What is found\<close>

text \<open>A package searched for: it is provided, or it is the artifact's own and its version admitted.\<close>

definition wanted :: "lib \<Rightarrow> default_package \<Rightarrow> default_package list \<Rightarrow> bool" where
  "wanted L p qs \<longleftrightarrow>
     (\<exists>q\<in>set qs. (\<exists>prov\<in>set (Provides p). AtomMatches prov q) \<or>
        (pCategory p = pCategory q \<and> pName p = pName q \<and>
         (\<exists>g h. ToGentooPackage L q = Inr g \<and> ToGentooPackage L p = Inr h \<and> gp_Admit L g h = Inr True)))"

lemma wanted_Cons: "wanted L p (q # qs) \<longleftrightarrow> wanted L p [q] \<or> wanted L p qs"
  by (auto simp: wanted_def)

lemma packages_match_wanted:
  assumes "art_pkg a = runtime_pkg a"
  shows "packages_match L a qs m = Ok b \<Longrightarrow> b \<longleftrightarrow> m \<or> wanted L (runtime_pkg a) qs"
proof (induction qs arbitrary: m)
  case Nil
  then show ?case by (simp add: wanted_def)
next
  case (Cons q qs)
  let ?p = "runtime_pkg a"
  let ?prov = "list_ex (\<lambda>prov. AtomMatches prov q) (Provides ?p)"
  show ?case
  proof (cases "pCategory ?p = pCategory q \<and> pName ?p = pName q")
    case False
    then have "packages_match L a qs (if ?prov then True else m) = Ok b"
      using Cons.prems by (cases "pCategory ?p = pCategory q") (simp_all add: Let_def)
    moreover have "wanted L ?p [q] \<longleftrightarrow> ?prov" using False by (auto simp: wanted_def list_ex_iff)
    ultimately show ?thesis
      using Cons.IH [of "if ?prov then True else m"] unfolding wanted_Cons [of L ?p q qs] by (simp split: if_split_asm)
  next
    case True
    then obtain g h ad where g: "ToGentooPackage L q = Inr g" "ToGentooPackage L ?p = Inr h"
      "gp_Admit L g h = Inr ad"
      using Cons.prems assms by (simp add: Let_def split: sum.split_asm)
    have w: "wanted L ?p [q] \<longleftrightarrow> ?prov \<or> ad"
      using True g by (auto simp: wanted_def list_ex_iff)
    show ?thesis
    proof (cases ad)
      case True
      then have "b" using Cons.prems assms g \<open>pCategory ?p = pCategory q \<and> pName ?p = pName q\<close>
        by (simp add: Let_def)
      then show ?thesis using w True unfolding wanted_Cons [of L ?p q qs] by simp
    next
      case False
      then have "packages_match L a qs (if ?prov then True else m) = Ok b"
        using Cons.prems assms g True by (simp add: Let_def)
      then show ?thesis
        using Cons.IH [of "if ?prov then True else m"] w False unfolding wanted_Cons [of L ?p q qs]
        by (simp split: if_split_asm)
    qed
  qed
qed

text \<open>The searches of the solver only give packages.\<close>

definition packages_only :: "search_opts \<Rightarrow> bool" where
  "packages_only o1 \<longleftrightarrow> soNames o1 = [] \<and> soMatches o1 = [] \<and> soLabelsMatches o1 = [] \<and> soLabels o1 = [] \<and>
     soCategories o1 = [] \<and> soAnnotations o1 = [] \<and> soFilesOwner o1 = []"

lemma pkgs_search_only: "packages_only (pkgs_search h m ps)" "packages_only (installed_search m p)"
  by (simp_all add: packages_only_def pkgs_search_def installed_search_def)

lemma last_filters_only: "packages_only opts \<Longrightarrow> last_filters opts rs a p m = m"
  by (simp add: packages_only_def last_filters_def label_filter_def category_filter_def
      owner_filter_def annotation_filter_def)

lemma with_runtime_props:
  "with_runtime a0 = Returns a \<Longrightarrow> aRuntime a \<noteq> None \<and> art_pkg a = runtime_pkg a \<and> art_pkg a = art_pkg a0"
  by (auto simp: with_runtime_def art_pkg_def runtime_pkg_def GetPackage_def split: if_splits option.splits)

lemma set_repository_simps [simp]:
  "PackageName (set_repository r p) = PackageName p" "pName (set_repository r p) = pName p"
  "pCategory (set_repository r p) = pCategory p" "pVersion (set_repository r p) = pVersion p"
  "Provides (set_repository r p) = Provides p" "pRepository (set_repository r p) = r"
  "Hidden (pkg_data (set_repository r p)) = Hidden (pkg_data p)"
  by (simp_all add: set_repository_def PackageName_def)

lemma with_repo_pkg: "aRuntime a \<noteq> None \<Longrightarrow> art_pkg (with_repo repo a) = set_repository repo (runtime_pkg a)"
  by (auto simp: with_repo_def art_pkg_def GetPackage_def runtime_pkg_def)

lemma analyzed:
  assumes "analyzePackageDir X opts rs repo d = Ok (Some b)"
  obtains a0 a where "vdDefinition d" "read_metadata d = Inr a0" "with_runtime a0 = Returns a"
    "masked X opts repo a = Inr False" "soHidden opts \<or> \<not> Hidden (pkg_data (runtime_pkg a))"
    "dir_match (sxLib X) opts rs a = Ok True" "b = with_repo repo a"
  using assms
  by (auto simp: analyzePackageDir_def split: if_splits sum.splits panics.splits bool.splits outcome.splits)

lemma dir_match_only:
  assumes "packages_only opts" "dir_match L opts rs a = Ok b" "art_pkg a = runtime_pkg a"
  shows "b \<longleftrightarrow> wanted L (runtime_pkg a) (soPackages opts)"
proof -
  have o: "soNames opts = []" "soMatches opts = []" using assms(1) by (simp_all add: packages_only_def)
  have "packages_match L a (soPackages opts) False = Ok b"
    using assms(2) by (simp add: dir_match_def o last_filters_only [OF assms(1)] split: outcome.split_asm)
  from packages_match_wanted [OF assms(3) this] show ?thesis by simp
qed

text \<open>
  C18: What the search for packages over a repository finds is right: each artifact found is the metadata read
  from a directory of the repository that has a definition, with its package, stamped with the name of the
  repository and otherwise as read; it is hidden only when hidden ones are asked for, and not masked unless the
  masks are ignored; and it provides one of the packages searched, or is of its category and name with a
  version the selector admits.
\<close>

theorem SearchArtifacts_sound:
  assumes "map_order (sxOrder X)" "packages_only opts" "SearchArtifacts X opts repo fs = Ok as" "b \<in> set as"
  shows "\<exists>t\<in>version_paths fs. \<exists>a0 a. vdDefinition (dir_at fs t) \<and> read_metadata (dir_at fs t) = Inr a0 \<and>
    with_runtime a0 = Returns a \<and> b = with_repo repo a \<and> pRepository (art_pkg b) = repo \<and>
    (soHidden opts \<or> \<not> Hidden (pkg_data (art_pkg b))) \<and> masked X opts repo a = Inr False \<and>
    wanted (sxLib X) (art_pkg a0) (soPackages opts)"
proof -
  obtain rs where "found_in X opts rs repo fs b"
    using SearchArtifacts_found [OF assms(1,3,4)] .
  then obtain t where t: "t \<in> version_paths fs" "analyzePackageDir X opts rs repo (dir_at fs t) = Ok (Some b)"
    by (auto simp: found_in_def)
  from t(2) obtain a0 a where r: "vdDefinition (dir_at fs t)" "read_metadata (dir_at fs t) = Inr a0"
    and w: "with_runtime a0 = Returns a"
    and m: "masked X opts repo a = Inr False" and h: "soHidden opts \<or> \<not> Hidden (pkg_data (runtime_pkg a))"
    and dm: "dir_match (sxLib X) opts rs a = Ok True" and b: "b = with_repo repo a"
    by (rule analyzed)
  note p = with_runtime_props [OF w]
  have "wanted (sxLib X) (art_pkg a0) (soPackages opts)"
    using dir_match_only [OF assms(2) dm] p by metis
  moreover have "art_pkg b = set_repository repo (runtime_pkg a)" using p b with_repo_pkg by blast
  ultimately show ?thesis
    by (intro bexI [OF _ t(1)] exI [of _ a0] exI [of _ a]) (use r w m h b in auto)
qed

section \<open>The solver on the searcher\<close>

text \<open>The names of the packages in the trees of the repositories.\<close>

definition repo_names :: "repo_state list \<Rightarrow> string set" where
  "repo_names repos =
     (\<Union>r\<in>set repos. (\<lambda>t. case read_metadata (dir_at (rsFs r) t) of
        Inr a \<Rightarrow> PackageName (art_pkg a) | Inl _ \<Rightarrow> []) ` version_paths (rsFs r))"

lemma finite_repo_names: "finite (repo_names repos)"
  by (simp add: repo_names_def finite_version_paths)

lemma collect_found:
  "collect rs acc e = Ok as \<Longrightarrow> b \<in> set as \<Longrightarrow> b \<in> set acc \<or> (\<exists>bs. Ok bs \<in> set rs \<and> b \<in> set bs)"
proof (induction rs acc e rule: collect.induct)
  case (1 acc e)
  then show ?case by (auto split: option.splits)
next
  case (2 r rs acc e)
  then show ?case by (cases r) auto
qed

lemma searcher_found:
  assumes "searcher_SearchArtifacts X arrive repos opts = Ok as" "\<And>xs. set (arrive xs) = set xs" "b \<in> set as"
  obtains r bs where "r \<in> set repos" "SearchArtifacts X opts (rsName r) (rsFs r) = Ok bs" "b \<in> set bs"
proof -
  have "collect (arrive (map (searchOnRepoRoutine (SearchArtifacts X opts)) (filter rsEnable repos))) [] None = Ok as"
    using assms(1) by (auto simp: searcher_SearchArtifacts_def search_repos_def Let_def split: if_splits)
  from collect_found [OF this assms(3)] obtain bs where
    "Ok bs \<in> set (arrive (map (searchOnRepoRoutine (SearchArtifacts X opts)) (filter rsEnable repos)))" "b \<in> set bs"
    by auto
  then obtain r where "r \<in> set repos" "searchOnRepoRoutine (SearchArtifacts X opts) r = Ok bs"
    unfolding assms(2) by auto
  with \<open>b \<in> set bs\<close> that show thesis by (auto simp: searchOnRepoRoutine_def split: if_splits)
qed

text \<open>The searcher of the solver is the simple searcher over the repositories.\<close>

definition uses_searcher ::
    "solver_env \<Rightarrow> search_env \<Rightarrow> (artifact list outcome list \<Rightarrow> artifact list outcome list) \<Rightarrow> repo_state list \<Rightarrow> bool" where
  "uses_searcher E X arrive repos \<longleftrightarrow>
     (\<forall>opts as. seSearch E opts = Inr as \<longrightarrow> searcher_SearchArtifacts X arrive repos opts = Ok as)"

lemma searcher_names:
  assumes "uses_searcher E X arrive repos" "map_order (sxOrder X)" "\<And>xs. set (arrive xs) = set xs"
  shows "search_names E (repo_names repos)"
proof -
  have "GetPackage b \<noteq> None \<and> art_key b \<in> repo_names repos"
    if search: "seSearch E opts = Inr as" and b: "b \<in> set as" for opts as b
  proof -
    have "searcher_SearchArtifacts X arrive repos opts = Ok as"
      using assms(1) search unfolding uses_searcher_def by blast
    from searcher_found [OF this assms(3) b] obtain r bs where r: "r \<in> set repos"
      "SearchArtifacts X opts (rsName r) (rsFs r) = Ok bs" "b \<in> set bs" .
    from SearchArtifacts_found [OF assms(2) r(2,3)] obtain rs where
      "found_in X opts rs (rsName r) (rsFs r) b" .
    then obtain t where t: "t \<in> version_paths (rsFs r)"
      "analyzePackageDir X opts rs (rsName r) (dir_at (rsFs r) t) = Ok (Some b)"
      by (auto simp: found_in_def)
    from t(2) obtain a0 a where a0: "read_metadata (dir_at (rsFs r) t) = Inr a0"
      and w: "with_runtime a0 = Returns a" and ba: "b = with_repo (rsName r) a"
      by (rule analyzed)
    note p = with_runtime_props [OF w]
    have pk: "art_pkg b = set_repository (rsName r) (runtime_pkg a)" using p ba with_repo_pkg by blast
    have g: "GetPackage b \<noteq> None" using p ba by (auto simp: GetPackage_def with_repo_def)
    have "art_key b = PackageName (art_pkg a0)"
      using art_key_pkg [OF g] pk p by (metis set_repository_simps(1))
    moreover have "PackageName (art_pkg a0) \<in> repo_names repos"
      using r(1) t(1) a0 unfolding repo_names_def by force
    ultimately show ?thesis using g by simp
  qed
  then show ?thesis unfolding search_names_def has_pkgs_def by blast
qed

text \<open>
  Installation over the repositories returns: with the searcher over the enabled repositories, in
  whatever order they answer, a depth of one more than the number of package names in their trees is
  enough for every run of \<open>Install\<close>.
\<close>

theorem Install_on_repositories:
  assumes "uses_searcher E X arrive repos" "map_order (sxOrder X)" "\<And>xs. set (arrive xs) = set xs"
    and "go_sort (seArtSort E)" "orders_ok E" "candidatesMap st0 = []"
  shows "fst (Install E (Suc (card (repo_names repos))) db serr confs pkgs st0) \<noteq> Fuel"
proof (rule Install_no_fuel)
  show "env_ok E (repo_names repos)"
    using assms(4) searcher_names [OF assms(1-3)] by (simp add: env_ok_def finite_repo_names)
qed (use assms in simp_all)

section \<open>The catalog\<close>

lemma catalog_loop_filter:
  assumes "\<forall>a\<in>set as. aRuntime a \<noteq> None"
  shows "catalog_loop opts rs repo as =
    (let sel = (\<lambda>a. (soHidden opts \<or> \<not> Hidden (pkg_data (runtime_pkg a))) \<and> catalog_match opts rs a)
     in Returns (map (with_repo repo) (filter sel as), map (\<lambda>a. if sel a then with_repo repo a else a) as))"
  using assms
  by (induction as) (auto simp: with_runtime_def Let_def)

text \<open>
  The search of the catalog in memory selects, in order, the artifacts that are not hidden (unless
  hidden ones are asked for) and match, with their repository set, there and in the catalog.
\<close>

theorem SearchArtifactsFromCatalog_spec:
  assumes "\<forall>a\<in>set index. aRuntime a \<noteq> None" "compile_regs R opts = Returns rs"
    and "soLabelsMatches opts = [] \<or> soMatches opts = []"
  shows "SearchArtifactsFromCatalog R opts repo (Some index) =
    (let sel = (\<lambda>a. (soHidden opts \<or> \<not> Hidden (pkg_data (runtime_pkg a))) \<and> catalog_match opts rs a)
     in (Ok (map (with_repo repo) (filter sel index)),
         Some (map (\<lambda>a. if sel a then with_repo repo a else a) index)))"
  using assms(2,3) catalog_loop_filter [OF assms(1), of opts rs repo]
  by (auto simp: SearchArtifactsFromCatalog_def Let_def)

text \<open>
  A search with labels ignores one of its conditions: with \<open>AndCondition\<close> only the labels decide, the
  names, packages and expressions given with them do not, and without it the labels do not, so that a
  search by labels alone finds nothing.
\<close>

theorem label_search_ignores:
  assumes "soLabels opts \<noteq> []" "soLabelsMatches opts = []" "soCategories opts = []"
    and "soAnnotations opts = []" "soFilesOwner opts = []"
  shows "catalog_match opts rs a =
    (if soAndCondition opts then list_ex (HasLabel (runtime_pkg a)) (soLabels opts)
     else catalog_match (opts\<lparr>soLabels := []\<rparr>) rs a) \<and>
    (soNames opts = [] \<and> soPackages opts = [] \<and> soMatches opts = [] \<and> \<not> soAndCondition opts \<longrightarrow>
       \<not> catalog_match opts rs a)"
  using assms
  by (auto simp: catalog_match_def last_filters_def label_filter_def category_filter_def owner_filter_def
      annotation_filter_def Let_def)

section \<open>A concrete repository\<close>

text \<open>
  One category with \<open>c/foo-1.0\<close>, and \<open>c/bar-1.0\<close> whose metadata is readable or not.
\<close>

definition demo_fs :: "bool \<Rightarrow> repo_fs" where
  "demo_fs good =
     \<lparr>rfTree = Inr [(''c'', True), (''provides.yaml'', False)],
      rfCategory = (\<lambda>c. Inr [(''bar'', True), (''foo'', True)]),
      rfPackage = (\<lambda>c n. Inr [(''1.0'', True)]),
      rfVersion = (\<lambda>c n v. \<lparr>vdDefinition = (c = ''c'' \<and> n \<in> {''foo'', ''bar''} \<and> v = ''1.0''), vdJson = None,
        vdYaml = (if n = ''bar'' \<and> \<not> good then Inl ''Error on parse file''
                  else Inr (art_of (demo_pkg n v [] [])))\<rparr>),
      rfProvides = Inr []\<rparr>"

definition demo_search_env :: search_env where
  "demo_search_env = \<lparr>sxLib = plain_lib, sxRx = (\<lambda>s. None), sxMasks = [], sxOrder = (\<lambda>ks. ks)\<rparr>"

definition demo_repos :: "repo_state list" where
  "demo_repos = [\<lparr>rsName = ''r'', rsEnable = True, rsCached = True, rsIdentity = None, rsFs = demo_fs True\<rparr>]"

definition found_names :: "artifact list outcome \<Rightarrow> string list outcome" where
  "found_names r = (case r of Ok as \<Rightarrow> Ok (map (HumanReadableString \<circ> art_pkg) as) | Err e \<Rightarrow> Err e
     | Panic e \<Rightarrow> Panic e | Fuel \<Rightarrow> Fuel)"

definition foo_search :: search_opts where
  "foo_search = pkgs_search False False [demo_pkg ''foo'' ''>=0'' [] []]"

lemma demo_found: "found_names (SearchArtifacts demo_search_env foo_search ''r'' (demo_fs True)) = Ok [''c/foo-1.0'']"
  by code_simp

text \<open>
  A directory whose metadata cannot be read hides its whole category without an error: the answer of
  the category is dropped and so is its error, and a search for \<open>c/foo\<close>, which is there, finds nothing
  because \<open>c/bar\<close> is broken.
\<close>

theorem SearchArtifacts_drops_errors:
  "found_names (SearchArtifacts demo_search_env foo_search ''r'' (demo_fs True)) = Ok [''c/foo-1.0''] \<and>
   found_names (SearchArtifacts demo_search_env foo_search ''r'' (demo_fs False)) = Ok [] \<and>
   isErr (analyzeCatDir demo_search_env foo_search \<lparr>srRegs = [], srLabels = [], srCats = []\<rparr> ''r'' (demo_fs False) ''c'')"
proof (intro conjI)
  show "found_names (SearchArtifacts demo_search_env foo_search ''r'' (demo_fs False)) = Ok []" by code_simp
  show "isErr (analyzeCatDir demo_search_env foo_search \<lparr>srRegs = [], srLabels = [], srCats = []\<rparr> ''r'' (demo_fs False) ''c'')"
    by code_simp
qed (rule demo_found)

theorem SearchArtifacts_sound_witness:
  "\<exists>b as. SearchArtifacts demo_search_env foo_search ''r'' (demo_fs True) = Ok as \<and> b \<in> set as \<and>
     (\<exists>t\<in>version_paths (demo_fs True). \<exists>a0 a. read_metadata (dir_at (demo_fs True) t) = Inr a0 \<and>
        with_runtime a0 = Returns a \<and> b = with_repo ''r'' a)"
proof -
  obtain as where as: "SearchArtifacts demo_search_env foo_search ''r'' (demo_fs True) = Ok as" "as \<noteq> []"
    using demo_found by (cases "SearchArtifacts demo_search_env foo_search ''r'' (demo_fs True)")
      (auto simp: found_names_def)
  have "map_order (sxOrder demo_search_env)" "packages_only foo_search"
    by (simp_all add: demo_search_env_def id_order.map_order_axioms foo_search_def pkgs_search_only)
  from SearchArtifacts_sound [OF this as(1) hd_in_set [OF as(2)]] as show ?thesis
    using hd_in_set [OF as(2)] by blast
qed

definition demo_repo_env :: solver_env where
  "demo_repo_env = (demo_env [])\<lparr>seSearch :=
     (\<lambda>o1. case searcher_SearchArtifacts demo_search_env (\<lambda>x. x) demo_repos o1 of
        Ok as \<Rightarrow> Inr as | Err e \<Rightarrow> Inl e | _ \<Rightarrow> Inl [])\<rparr>"

theorem Install_on_repositories_witness:
  "fst (Install demo_repo_env (Suc (card (repo_names demo_repos))) (Some []) None []
     [demo_pkg ''foo'' ''>=0'' [] []] NewSolver) \<noteq> Fuel"
proof (rule Install_on_repositories)
  show "uses_searcher demo_repo_env demo_search_env (\<lambda>x. x) demo_repos"
    by (auto simp: uses_searcher_def demo_repo_env_def split: outcome.splits)
  show "map_order (sxOrder demo_search_env)"
    by (simp add: demo_search_env_def id_order.map_order_axioms)
  show "go_sort (seArtSort demo_repo_env)"
    by (simp add: demo_repo_env_def demo_env_def isort.go_sort_axioms)
  show "orders_ok demo_repo_env"
    by (simp add: orders_ok_def demo_repo_env_def demo_env_def id_order.map_order_axioms)
qed (simp_all add: NewSolver_def)

text \<open>A catalog with a labelled package and another.\<close>

definition label_catalog :: "artifact list" where
  "label_catalog = [art_of (AddLabel ''x'' ''1'' (demo_pkg ''foo'' ''1.0'' [] [])), art_of (demo_pkg ''bar'' ''1.0'' [] [])]"

definition label_opts :: "bool \<Rightarrow> string list \<Rightarrow> search_opts" where
  "label_opts cond names = (pkgs_search False False [])\<lparr>soLabels := [''x''], soNames := names, soAndCondition := cond\<rparr>"

theorem SearchArtifactsFromCatalog_spec_witness:
  "fst (SearchArtifactsFromCatalog (\<lambda>s. None) (label_opts True [''bar'']) ''r'' (Some label_catalog)) =
     Ok [with_repo ''r'' (label_catalog ! 0)]"
proof -
  let ?o = "label_opts True [''bar'']"
  let ?rs = "\<lparr>srRegs = [], srLabels = [], srCats = []\<rparr>"
  have "\<forall>a\<in>set label_catalog. aRuntime a \<noteq> None" by (simp add: label_catalog_def art_of_def)
  moreover have "compile_regs (\<lambda>s. None) ?o = Returns ?rs"
    by (simp add: compile_regs_def label_opts_def pkgs_search_def)
  moreover have "soLabelsMatches ?o = [] \<or> soMatches ?o = []" by (simp add: label_opts_def pkgs_search_def)
  moreover have "filter (\<lambda>a. (soHidden ?o \<or> \<not> Hidden (pkg_data (runtime_pkg a))) \<and> catalog_match ?o ?rs a)
      label_catalog = [label_catalog ! 0]"
    by code_simp
  ultimately show ?thesis
    using SearchArtifactsFromCatalog_spec [of label_catalog "\<lambda>s. None" ?o ?rs "''r''"] by (simp add: Let_def)
qed

theorem label_search_ignores_witness:
  "catalog_match (label_opts True [''bar'']) rs0 (label_catalog ! 0) \<and>
   \<not> catalog_match (label_opts False []) rs0 (label_catalog ! 0)"
proof -
  have has: "list_ex (HasLabel (runtime_pkg (label_catalog ! 0))) [''x'']" by code_simp
  have a: "catalog_match (label_opts True [''bar'']) rs0 (label_catalog ! 0)"
    using label_search_ignores [of "label_opts True [''bar'']" rs0 "label_catalog ! 0"] has
    by (simp add: label_opts_def pkgs_search_def)
  have o: "soLabels (label_opts False []) \<noteq> []" "soLabelsMatches (label_opts False []) = []"
    "soCategories (label_opts False []) = []" "soAnnotations (label_opts False []) = []"
    "soFilesOwner (label_opts False []) = []" "soNames (label_opts False []) = []"
    "soPackages (label_opts False []) = []" "soMatches (label_opts False []) = []"
    "\<not> soAndCondition (label_opts False [])"
    by (simp_all add: label_opts_def pkgs_search_def)
  have "\<not> catalog_match (label_opts False []) rs0 (label_catalog ! 0)"
    using label_search_ignores [OF o(1-5)] o(6-9) by blast
  with a show ?thesis ..
qed

end
