(* ===== verification/WagonProofs.thy ===== *)
theory WagonProofs
  imports SearchProofs
begin

text \<open>
  What a synchronisation may do to the disk and when, what is left when it fails half way, and the map
  of provides that the explosion of the metadata writes.
\<close>

section \<open>Synchronisation\<close>

text \<open>Everything a synchronisation needs has been downloaded and verified.\<close>

definition fetched :: "sync_io \<Rightarrow> wagon_identity \<Rightarrow> bool" where
  "fetched io new \<longleftrightarrow>
     (if HasDocument new ''treev2'' then ok (DownloadDocument io new ''treev2'')
      else ok (DownloadDocument io new ''tree'') \<and> ok (DownloadDocument io new ''meta''))"

definition with_paths :: "string \<Rightarrow> wagon_identity \<Rightarrow> wagon_identity \<Rightarrow> wagon_identity" where
  "with_paths repobasedir w new =
     new\<lparr>wiMetaPath := (if wiMetaPath w = [] then PathJoin [repobasedir, ''metafs''] else wiMetaPath w),
         wiTreePath := (if wiTreePath w = [] then PathJoin [repobasedir, ''treefs''] else wiTreePath w)\<rparr>"

lemma sync_install_acts:
  assumes "sync_install io treefs metafs tree meta disk new w = (r, w', acts)"
  shows "(acts \<noteq> [] \<longrightarrow> siCopy io = None) \<and> (r = Ok () \<longrightarrow> acts \<noteq> [] \<and> w' = new)"
  using assms by (auto simp: sync_install_def Let_def split: option.splits)

lemma sync_update_acts:
  assumes "sync_update io base treefs metafs disk new w = (r, w', acts)"
  shows "(acts \<noteq> [] \<longrightarrow> fetched io new \<and> siCopy io = None) \<and>
    (r = Ok () \<longrightarrow> acts \<noteq> [] \<and> w' = new\<lparr>wiFile := PathJoin [base, ''repository.yaml'']\<rparr>)"
proof -
  have "(acts \<noteq> [] \<longrightarrow> siCopy io = None) \<and> (r = Ok () \<longrightarrow> acts \<noteq> [] \<and> w' = new')"
    if "sync_install io treefs metafs tree meta disk new' w = (r, w', acts)" for tree meta new'
    using sync_install_acts [OF that] by auto
  then show ?thesis
    using assms by (auto simp: sync_update_def fetched_def split: if_splits sum.splits)
qed

lemma sync_update_fetched:
  assumes "fetched io new"
  shows "\<exists>tree meta. sync_update io base treefs metafs disk new w =
    sync_install io treefs metafs tree meta disk (new\<lparr>wiFile := PathJoin [base, ''repository.yaml'']\<rparr>) w"
proof (cases "HasDocument new ''treev2''")
  case True
  then obtain t where "DownloadDocument io new ''treev2'' = Inr t"
    using assms by (cases "DownloadDocument io new ''treev2''") (auto simp: fetched_def)
  then show ?thesis using True by (auto simp: sync_update_def)
next
  case False
  then obtain t m where "DownloadDocument io new ''tree'' = Inr t" "DownloadDocument io new ''meta'' = Inr m"
    using assms by (cases "DownloadDocument io new ''tree''"; cases "DownloadDocument io new ''meta''")
      (auto simp: fetched_def)
  then show ?thesis using False by (auto simp: sync_update_def)
qed

lemma Sync_alt:
  "Sync io base force w =
     (if \<not> siClient io then (Err ''no client could be generated from repository'', w, [])
      else case siDownload io ''repository.yaml'' of
        Inl e \<Rightarrow> (Err (''While downloading repository.yaml: '' @ e), w, [])
      | Inr rfile \<Rightarrow>
         (case siLoad io w of
            Inl e \<Rightarrow> (Err e, w, [])
          | Inr new \<Rightarrow>
             (if \<not> Valid new then (Err ''Corrupted remote repository.yaml file'', w, [])
              else if Is2Update w new \<or> force then
                sync_update io base (wiTreePath (with_paths base w new)) (wiMetaPath (with_paths base w new))
                  new (with_paths base w new) w
              else (Ok (), w, []))))"
  by (simp add: Sync_def Let_def with_paths_def split: sum.split)

text \<open>
  C19: \<open>Sync\<close> touches the disk only when the new identity was downloaded and is valid, differs in revision
  or date (or it is forced), and all its documents were downloaded and passed their checksums; when it
  reports no error and has touched the disk the repository has the new identity, and when it has not
  touched the disk the identity is the old one.
\<close>

theorem Sync_safe:
  assumes "Sync io base force w = (r, w', acts)"
  shows "(acts \<noteq> [] \<longrightarrow>
      (\<exists>rfile new. siClient io \<and> siDownload io ''repository.yaml'' = Inr rfile \<and> siLoad io w = Inr new \<and>
         Valid new \<and> (Is2Update w new \<or> force) \<and> fetched io (with_paths base w new))) \<and>
    (r = Ok () \<longrightarrow>
      (if acts = [] then w' = w
       else \<exists>new. siLoad io w = Inr new \<and>
         w' = (with_paths base w new)\<lparr>wiFile := PathJoin [base, ''repository.yaml'']\<rparr>))"
proof -
  have upd: "(acts \<noteq> [] \<longrightarrow> fetched io (with_paths base w new)) \<and>
      (r = Ok () \<longrightarrow> acts \<noteq> [] \<and> w' = (with_paths base w new)\<lparr>wiFile := PathJoin [base, ''repository.yaml'']\<rparr>)"
    if "sync_update io base t m disk (with_paths base w new) w = (r, w', acts)" for t m disk new
    using sync_update_acts [OF that] by blast
  show ?thesis
  proof (cases "siClient io \<and> ok (siDownload io ''repository.yaml'') \<and> ok (siLoad io w)")
    case False
    then have "acts = [] \<and> r \<noteq> Ok ()"
      using assms by (cases "siClient io"; cases "siDownload io ''repository.yaml''"; cases "siLoad io w")
        (auto simp: Sync_alt)
    then show ?thesis by auto
  next
    case True
    then obtain rfile new where f: "siClient io" "siDownload io ''repository.yaml'' = Inr rfile" "siLoad io w = Inr new"
      by (cases "siDownload io ''repository.yaml''"; cases "siLoad io w") auto
    show ?thesis
    proof (cases "Valid new \<and> (Is2Update w new \<or> force)")
      case True
      then have s: "sync_update io base (wiTreePath (with_paths base w new)) (wiMetaPath (with_paths base w new))
          new (with_paths base w new) w = (r, w', acts)"
        using assms f by (simp add: Sync_alt)
      show ?thesis using upd [OF s] True f by auto
    next
      case False
      then show ?thesis using assms f by (auto simp: Sync_alt split: if_splits)
    qed
  qed
qed

text \<open>
  A synchronisation that fails to unpack the tree leaves the repository without one and the new
  identity on the disk, so that the next one, not forced, finds the same revision and date and reports
  that the repository is up to date.
\<close>

theorem Sync_stale:
  assumes "siClient io" "siDownload io ''repository.yaml'' = Inr rfile" "siLoad io w = Inr new" "Valid new"
    and "Is2Update w new" "fetched io (with_paths base w new)" "siCopy io = None" "siUnpackTree io = Some x"
    and "siClient io'" "siDownload io' ''repository.yaml'' = Inr rfile'"
    and same_remote: "\<And>v. \<exists>new'. siLoad io' v = Inr new' \<and> Valid new' \<and> wiRevision new' = wiRevision new \<and>
        wiLastUpdate new' = wiLastUpdate new"
  shows "\<exists>onDisk e acts. processRepository None io base False w = (Err e, w, acts) \<and>
    CopyIdentity onDisk \<in> set acts \<and> RemoveAll (wiTreePath (with_paths base w new)) \<in> set acts \<and>
    (\<exists>v. processRepository (Some (\<lambda>_. Inr onDisk)) io' base False w = (Ok (), v, []))"
proof -
  let ?new = "with_paths base w new"
  have s1: "\<exists>e acts. Sync io base False w = (Err e, w, acts) \<and> CopyIdentity new \<in> set acts \<and>
      RemoveAll (wiTreePath ?new) \<in> set acts"
  proof -
    obtain tree meta where "sync_update io base (wiTreePath ?new) (wiMetaPath ?new) new ?new w =
        sync_install io (wiTreePath ?new) (wiMetaPath ?new) tree meta new
          (?new\<lparr>wiFile := PathJoin [base, ''repository.yaml'']\<rparr>) w"
      using sync_update_fetched [OF assms(6)] by blast
    moreover have "Sync io base False w = sync_update io base (wiTreePath ?new) (wiMetaPath ?new) new ?new w"
      using assms(1-5) by (simp add: Sync_alt)
    ultimately show ?thesis using assms(7,8) by (simp add: sync_install_def)
  qed
  obtain v where v: "ReadWagonIdentify (\<lambda>_. Inr new) w = Inr v"
    "wiRevision v = wiRevision new" "wiLastUpdate v = wiLastUpdate new"
    by (simp add: ReadWagonIdentify_def)
  obtain new' where new': "siLoad io' v = Inr new'" "Valid new'" "wiRevision new' = wiRevision new"
    "wiLastUpdate new' = wiLastUpdate new"
    using same_remote by blast
  have "\<not> Is2Update v new'" using v new' by (simp add: Is2Update_def)
  then have "processRepository (Some (\<lambda>_. Inr new)) io' base False w = (Ok (), v, [])"
    using assms(9,10) new' v(1) by (simp add: Sync_alt processRepository_def)
  with s1 show ?thesis by (simp add: processRepository_def) blast
qed

section \<open>The map of provides\<close>

lemma pm_vals_wp_Add [simp]: "pm_vals (wp_Add k p m) k' = pm_vals m k' @ (if k' = k then [p] else [])"
  by (simp add: wp_Add_def pm_vals_def split: option.split)

lemma pm_vals_prov_names:
  "set (pm_vals (add_prov_names ps p m) k) =
     set (pm_vals m k) \<union> (if k \<in> PackageName ` set ps then {p} else {})"
  by (induction ps p m rule: add_prov_names.induct) auto

definition exploded :: "(default_package \<Rightarrow> default_package res option) \<Rightarrow> artifact \<Rightarrow> artifact \<Rightarrow> bool" where
  "exploded defs a b \<longleftrightarrow>
     (case defs (art_pkg a) of None \<Rightarrow> b = a | Some (Inl e) \<Rightarrow> False
      | Some (Inr dp) \<Rightarrow> MergeDefinition dp a = Returns b)"

lemma explode_loop_spec:
  "explode_loop defs i as m = Ok (bs, m') \<Longrightarrow>
     list_all2 (exploded defs) as bs \<and>
     (\<forall>k. set (pm_vals m' k) = set (pm_vals m k) \<union>
        {art_pkg b |a b dp. (a, b) \<in> set (zip as bs) \<and> defs (art_pkg a) = Some (Inr dp) \<and>
           k \<in> PackageName ` set (Provides dp)})"
proof (induction as arbitrary: i m bs)
  case (Cons a as)
  then obtain p where p: "GetPackage a = Some p" "art_pkg a = p"
    by (auto simp: art_pkg_def split: option.splits)
  show ?case
  proof (cases "defs p")
    case None
    then obtain cs where c: "explode_loop defs (Suc i) as m = Ok (cs, m')" "bs = a # cs"
      using Cons.prems p by (auto split: outcome.splits)
    then show ?thesis using Cons.IH [OF c(1)] None p by (auto simp: exploded_def)
  next
    case (Some r)
    then obtain dp where dp: "r = Inr dp" using Cons.prems p by (cases r) auto
    then obtain a' cs where a': "MergeDefinition dp a = Returns a'"
      and c: "explode_loop defs (Suc i) as (add_prov_names (Provides dp) (art_pkg a') m) = Ok (cs, m')" "bs = a' # cs"
      using Cons.prems p Some by (auto split: outcome.splits panics.splits)
    from Cons.IH [OF c(1)] show ?thesis
      using Some dp p a' c(2) unfolding pm_vals_prov_names by (auto simp: exploded_def)
  qed
qed simp

text \<open>
  The map of provides that \<open>ExplodeMetadata\<close> writes gives for a name exactly the packages, as merged
  with their definitions, whose definition provides it; artifacts without a directory are left alone.
\<close>

theorem ExplodeMetadata_spec:
  assumes "ExplodeMetadata defs (Inr index) = Ok (bs, m)"
  shows "list_all2 (exploded defs) index bs \<and>
    (\<forall>k. set (pm_vals m k) =
      {art_pkg b |a b dp. (a, b) \<in> set (zip index bs) \<and> defs (art_pkg a) = Some (Inr dp) \<and>
         k \<in> PackageName ` set (Provides dp)})"
  using explode_loop_spec [of defs 0 index "[]"] assms by (simp add: ExplodeMetadata_def)

section \<open>A concrete repository\<close>

definition demo_identity :: "int \<Rightarrow> wagon_identity" where
  "demo_identity n =
     \<lparr>wiName = ''r'', wiUrls = [], wiPriority = 0, wiAuthentication = [], wiType = ''http'', wiTreePath = [],
      wiMetaPath = [], wiRevision = n, wiLastUpdate = ''0'', wiFile = [],
      wiFiles = [(''treev2'', \<lparr>wdFileName = ''treev2.tar'', wdCompression = ''none'', wdChecksums = []\<rparr>)]\<rparr>"

definition demo_io :: "err option \<Rightarrow> sync_io" where
  "demo_io x =
     \<lparr>siClient = True, siDownload = Inr, siLoad = (\<lambda>w. Inr (demo_identity 2)), siVerify = (\<lambda>a. None),
      siCopy = None, siUnpackTree = x, siUnpackMeta = None, siCatalog = Inr [],
      siDefs = (\<lambda>p. None)\<rparr>"

lemma demo_fetched: "fetched (demo_io x) (with_paths base w (demo_identity 2))"
  by (simp add: fetched_def with_paths_def demo_identity_def HasDocument_def gm_has_def DownloadDocument_def demo_io_def)

theorem Sync_safe_witness:
  "\<exists>w' acts. Sync (demo_io None) ''/db'' False (demo_identity 1) = (Ok (), w', acts) \<and> acts \<noteq> [] \<and>
     wiRevision w' = 2"
proof -
  obtain r w' acts where s: "Sync (demo_io None) ''/db'' False (demo_identity 1) = (r, w', acts)"
    by (metis prod_cases3)
  moreover have a: "acts \<noteq> [] \<and> r = Ok ()"
    using s by (auto simp: Sync_def Let_def demo_io_def demo_identity_def Valid_def gm_has_def Is2Update_def
        sync_update_def HasDocument_def DownloadDocument_def sync_install_def)
  moreover have "wiRevision w' = 2"
    using Sync_safe [OF s] a by (auto simp: demo_io_def demo_identity_def with_paths_def)
  ultimately show ?thesis by blast
qed

theorem Sync_stale_witness:
  "\<exists>onDisk e acts. processRepository None (demo_io (Some ''disk full'')) ''/db'' False (demo_identity 1) =
       (Err e, demo_identity 1, acts) \<and> CopyIdentity onDisk \<in> set acts \<and>
     (\<exists>v. processRepository (Some (\<lambda>_. Inr onDisk)) (demo_io None) ''/db'' False (demo_identity 1) = (Ok (), v, []))"
proof -
  let ?io = "demo_io (Some ''disk full'')"
  have "Valid (demo_identity 2)" by (simp add: Valid_def demo_identity_def gm_has_def)
  moreover have "Is2Update (demo_identity 1) (demo_identity 2)" by (simp add: Is2Update_def demo_identity_def)
  ultimately show ?thesis
    using Sync_stale [of ?io "''repository.yaml''" "demo_identity 1" "demo_identity 2" "''/db''" "''disk full''"
        "demo_io None" "''repository.yaml''"] demo_fetched [of "Some ''disk full''" "''/db''" "demo_identity 1"]
    by (fastforce simp: demo_io_def)
qed

theorem ExplodeMetadata_spec_witness:
  "\<exists>bs m. ExplodeMetadata (\<lambda>p. Some (Inr (prov_pkg ''foo'' ''1.0'' [demo_pkg ''baz'' [] [] []])))
       (Inr [art_of (demo_pkg ''foo'' ''1.0'' [] [])]) = Ok (bs, m) \<and> pm_vals m ''c/baz'' \<noteq> []"
proof -
  let ?dp = "prov_pkg ''foo'' ''1.0'' [demo_pkg ''baz'' [] [] []]"
  let ?x = "ExplodeMetadata (\<lambda>p. Some (Inr ?dp)) (Inr [art_of (demo_pkg ''foo'' ''1.0'' [] [])])"
  have "(case ?x of Ok y \<Rightarrow> True | _ \<Rightarrow> False)" by code_simp
  then obtain bs m where x: "?x = Ok (bs, m)" by (auto split: outcome.splits)
  note spec = ExplodeMetadata_spec [OF x]
  then obtain b where b: "bs = [b]" by (auto simp: list_all2_Cons1)
  have "''c/baz'' \<in> PackageName ` set (Provides ?dp)" by code_simp
  then have "art_pkg b \<in> set (pm_vals m ''c/baz'')" using spec b by auto
  then show ?thesis using x by force
qed

end
