(* ===== verification/CommandProofs.thy ===== *)
theory CommandProofs
  imports InstallerProofs WagonProofs
begin

text \<open>
  The commands as a whole: the operations of an installation or an upgrade against a plan over the
  categories, names and versions installed, dry runs, the check of the file conflicts, and a package whose
  archive cannot be unpacked.
\<close>

section \<open>Operations and plan\<close>

type_synonym pkeys = "(string \<times> string \<times> string) list"

fun plan :: "(string \<Rightarrow> bool) \<Rightarrow> operation list \<Rightarrow> pkeys \<Rightarrow> pkeys" where
  "plan adds [] ks = ks"
| "plan adds (op # ops) ks =
     plan adds ops
       (if opAction op = RemovePackage then remove1 (pkey (art_pkg (opArtifact op))) ks
        else if adds (opAction op) then ks @ [pkey (art_pkg (opArtifact op))] else ks)"

definition new_ids :: "operation list \<Rightarrow> bool" where
  "new_ids ops \<longleftrightarrow> (\<forall>op\<in>set ops. ID (pkg_data (art_pkg (opArtifact op))) = 0)"

definition install_adds :: "string \<Rightarrow> bool" where
  "install_adds action \<longleftrightarrow> action = AddPackage"

definition upgrade_adds :: "string \<Rightarrow> bool" where
  "upgrade_adds action \<longleftrightarrow> action = AddPackage \<or> action = UpdatePackage \<or> action = DowngradePackage"

text \<open>What an operation that does not fail does to the database.\<close>

definition op_follows :: "(operation \<Rightarrow> op_state \<Rightarrow> host \<Rightarrow> op_state outcome \<times> host) \<Rightarrow> (string \<Rightarrow> bool) \<Rightarrow> bool" where
  "op_follows f adds \<longleftrightarrow>
     (\<forall>op s h s' h'. f op s h = (Ok s', h') \<and> \<not> fst s' \<longrightarrow> \<not> fst s \<and>
        (bolt_valid (hsDb h) \<and> ID (pkg_data (art_pkg (opArtifact op))) = 0 \<longrightarrow>
           bolt_valid (hsDb h') \<and> wkeys (hsDb h') = plan adds [op] (wkeys (hsDb h))))"

lemma remove_op_follows:
  assumes "\<not> ioForce opts" "remove_op M opts root op s h = (Ok s', h')"
  shows "s' = s \<and> (bolt_valid (hsDb h) \<longrightarrow>
    bolt_valid (hsDb h') \<and> wkeys (hsDb h') = remove1 (pkey (art_pkg (opArtifact op))) (wkeys (hsDb h)))"
proof -
  from assms(1,2) obtain u where rm: "mgr_RemovePackage M (removal_stone [] (art_pkg (opArtifact op))) root
      (ioPreserve opts) (ioSkipFinalizers opts) False h = (Ok u, h')" and "s' = s"
    by (auto simp: remove_op_def dest!: obind_err_OkD)
  have "bolt_valid (hsDb h') \<and> wkeys (hsDb h') = remove1 (pkey (art_pkg (opArtifact op))) (wkeys (hsDb h))"
    if "bolt_valid (hsDb h)"
  proof -
    from mgr.rm_splits [where repo = "\<lambda>_. []", OF that rm] obtain xs q ys where v: "bolt_valid (hsDb h')"
      and w: "bd_World (hsDb h) = xs @ q # ys" "\<forall>x\<in>set xs. pkey x \<noteq> pkey (art_pkg (opArtifact op))"
        "pkey q = pkey (art_pkg (opArtifact op))" "bd_World (hsDb h') = xs @ ys" by blast
    from w have "wkeys (hsDb h') = remove1 (pkey (art_pkg (opArtifact op))) (wkeys (hsDb h))"
      by (auto simp: wkeys_def remove1_append image_iff)
    with v show ?thesis by simp
  qed
  with \<open>s' = s\<close> show ?thesis by simp
qed

lemma ResolveCachePath_spec [simp]: "spec_pkg (ResolveCachePath M a) = spec_pkg a" "aRuntime (ResolveCachePath M a) = aRuntime a"
  by (simp_all add: ResolveCachePath_def spec_pkg_def)

lemma ResolveCachePath_pkg [simp]:
  "GetPackage (ResolveCachePath M a) = GetPackage a" "art_pkg (ResolveCachePath M a) = art_pkg a"
  "GetRepository (ResolveCachePath M a) = GetRepository a"
proof -
  show "GetPackage (ResolveCachePath M a) = GetPackage a" by (simp add: ResolveCachePath_def GetPackage_def)
  then show "art_pkg (ResolveCachePath M a) = art_pkg a" by (simp add: art_pkg_def)
  show "GetRepository (ResolveCachePath M a) = GetRepository a" unfolding GetRepository_def ResolveCachePath_spec ..
qed

lemma pkey_set_ID [simp]: "pkey (set_ID p i) = pkey p"
  by (simp add: pkey_def)

lemma add_op_follows:
  assumes "add_op M opts root m onErr op s h = (Ok s', h')" "\<not> fst s'"
    and onErr: "\<And>a e s s'. onErr a e s = Ok s' \<Longrightarrow> fst s'"
  shows "\<not> fst s \<and> (bolt_valid (hsDb h) \<and> ID (pkg_data (art_pkg (opArtifact op))) = 0 \<longrightarrow>
    bolt_valid (hsDb h') \<and> wkeys (hsDb h') = wkeys (hsDb h) @ [pkey (art_pkg (opArtifact op))])"
proof -
  let ?a = "ResolveCachePath M (opArtifact op)"
  from assms(1) obtain s1 h1 where
    1: "obind_err (InstallPackage M ?a root h) (\<lambda>e h. (Ok (True, snd s @ [op_error ?a e]), h)) (\<lambda>_ h. (Ok s, h)) = (Ok s1, h1)"
    and 2: "obind_err (RegisterPackage M ?a (gm_get m (GetRepository (opArtifact op))) (ioForce opts) h1)
      (\<lambda>e h. (onErr ?a e s1, h)) (\<lambda>_ h. (Ok s1, h)) = (Ok s', h')"
    by (auto simp: add_op_def Let_def dest!: obind_OkD)
  from 2 assms(2) onErr obtain u where reg: "s' = s1"
    "RegisterPackage M ?a (gm_get m (GetRepository (opArtifact op))) (ioForce opts) h1 = (Ok u, h')"
    by (fastforce dest!: obind_err_OkD)
  from 1 assms(2) reg(1) obtain v where ins: "s1 = s" "InstallPackage M ?a root h = (Ok v, h1)"
    by (auto dest!: obind_err_OkD)
  note k1 = InstallPackage_keeps [OF ins(2)]
  from RegisterPackage_ok [OF reg(2)] obtain pp h2 i where pp: "GetPackage (opArtifact op) = Some pp"
    and k2: "keeps_world h1 h2" and c: "bd_CreatePackage pp (hsDb h2) = (Inr i, hsDb h')" by auto
  have k: "keeps_world h h2" using k1 k2 keeps_world_trans by blast
  have pkg: "art_pkg (opArtifact op) = pp" using pp by (simp add: art_pkg_def)
  have "bolt_valid (hsDb h') \<and> wkeys (hsDb h') = wkeys (hsDb h) @ [pkey pp]"
    if v: "bolt_valid (hsDb h)" and i: "ID (pkg_data pp) = 0"
  proof -
    have "bolt_valid (hsDb h2)" using v k by (simp add: keeps_world_def)
    from bolt_create_world [OF this i c] keeps_world_World [OF k v] show ?thesis by (simp add: wkeys_def)
  qed
  then show ?thesis using assms(2) reg(1) ins(1) pkg by simp
qed

lemma install_op_follows: "\<not> ioForce opts \<Longrightarrow> op_follows (install_op M opts root m) install_adds"
  unfolding op_follows_def
proof (intro allI impI, elim conjE)
  fix op s h s' h'
  assume f: "\<not> ioForce opts" "install_op M opts root m op s h = (Ok s', h')" "\<not> fst s'"
  have ne: "AddPackage \<noteq> RemovePackage" by (simp add: action_defs)
  consider "opAction op = RemovePackage" | "opAction op = AddPackage" | "opAction op \<noteq> RemovePackage \<and> opAction op \<noteq> AddPackage"
    by blast
  then show "\<not> fst s \<and> (bolt_valid (hsDb h) \<and> ID (pkg_data (art_pkg (opArtifact op))) = 0 \<longrightarrow>
      bolt_valid (hsDb h') \<and> wkeys (hsDb h') = plan install_adds [op] (wkeys (hsDb h)))"
  proof cases
    case 1
    with f remove_op_follows [of opts M root op s h s' h'] show ?thesis by (simp add: install_op_def)
  next
    case 2
    with f ne have "add_op M opts root m (\<lambda>a e s. if \<not> ioForce opts then Err e else Ok (True, snd s @ [e])) op s h = (Ok s', h')"
      by (simp add: install_op_def)
    from add_op_follows [OF this f(3)] f(1) 2 ne show ?thesis by (simp add: install_adds_def)
  next
    case 3
    with f show ?thesis by (auto simp: install_op_def install_adds_def)
  qed
qed

lemma upgrade_op_follows: "\<not> ioForce opts \<Longrightarrow> op_follows (upgrade_op M opts root m) upgrade_adds"
  unfolding op_follows_def
proof (intro allI impI, elim conjE)
  fix op s h s' h'
  assume f: "\<not> ioForce opts" "upgrade_op M opts root m op s h = (Ok s', h')" "\<not> fst s'"
  consider "opAction op = RemovePackage" | "opAction op \<noteq> RemovePackage \<and> upgrade_adds (opAction op)"
    | "opAction op \<noteq> RemovePackage \<and> \<not> upgrade_adds (opAction op)" by blast
  then show "\<not> fst s \<and> (bolt_valid (hsDb h) \<and> ID (pkg_data (art_pkg (opArtifact op))) = 0 \<longrightarrow>
      bolt_valid (hsDb h') \<and> wkeys (hsDb h') = plan upgrade_adds [op] (wkeys (hsDb h)))"
  proof cases
    case 1
    with f remove_op_follows [of opts M root op s h s' h'] show ?thesis by (simp add: upgrade_op_def)
  next
    case 2
    with f have "add_op M opts root m (\<lambda>a e s. Ok (True, snd s @ [op_error a e])) op s h = (Ok s', h')"
      by (simp add: upgrade_op_def upgrade_adds_def)
    from add_op_follows [OF this f(3)] 2 show ?thesis by auto
  next
    case 3
    with f show ?thesis by (simp add: upgrade_op_def upgrade_adds_def)
  qed
qed

lemma run_ops_follows:
  assumes f: "op_follows f adds"
  shows "run_ops f ops s h = (Ok s', h') \<Longrightarrow> \<not> fst s' \<Longrightarrow> \<not> fst s \<and>
    (bolt_valid (hsDb h) \<and> new_ids ops \<longrightarrow> bolt_valid (hsDb h') \<and> wkeys (hsDb h') = plan adds ops (wkeys (hsDb h)))"
proof (induction ops arbitrary: s h)
  case (Cons op ops)
  from Cons.prems(1) obtain s1 h1 where one: "f op s h = (Ok s1, h1)" "run_ops f ops s1 h1 = (Ok s', h')"
    by (auto dest!: obind_OkD)
  note rest = Cons.IH [OF one(2) Cons.prems(2)]
  with f one(1) have first: "\<not> fst s \<and> (bolt_valid (hsDb h) \<and> ID (pkg_data (art_pkg (opArtifact op))) = 0 \<longrightarrow>
      bolt_valid (hsDb h1) \<and> wkeys (hsDb h1) = plan adds [op] (wkeys (hsDb h)))"
    unfolding op_follows_def by blast
  with rest show ?case by (auto simp: new_ids_def)
qed simp

text \<open>The finalizers leave the packages as they are.\<close>

lemma run_finalizers_keeps: "run_finalizers M root m ops fail h = (Ok fail', h') \<Longrightarrow> keeps_world h h'"
proof (induction ops arbitrary: fail h)
  case (Cons op ops)
  let ?a = "ResolveCachePath M (opArtifact op)"
  from Cons.prems obtain r h1 fail1 where "ExecuteFinalizer M ?a (gm_get m (GetRepository ?a)) True root h = (r, h1)"
    "run_finalizers M root m ops fail1 h1 = (Ok fail', h')"
    by (fastforce simp: Let_def dest!: obind_err_OkD)
  with Cons.IH ExecuteFinalizer_keeps show ?case using keeps_world_trans by blast
qed simp

lemma run_finalizers_flag: "run_finalizers M root m ops fail h = (Ok fail', h') \<Longrightarrow> fail \<Longrightarrow> fail'"
proof (induction ops arbitrary: fail h)
  case (Cons op ops)
  then show ?case by (fastforce simp: Let_def dest!: obind_err_OkD)
qed simp

lemma execute_ops_follows:
  assumes "op_follows f adds" "bolt_valid (hsDb h)" "new_ids ops"
    and "execute_ops M opts root m f finalize ops h = (Ok u, h')"
  shows "bolt_valid (hsDb h') \<and> wkeys (hsDb h') = plan adds ops (wkeys (hsDb h))"
proof -
  from assms(4) obtain fail errs h1 fail1 h2 where
    1: "run_ops f ops (False, []) h = (Ok (fail, errs), h1)"
    and 2: "(if \<not> ioSkipFinalizers opts then
        run_finalizers M root m (filter (\<lambda>op. finalize (opAction op)) ops) fail h1 else (Ok fail, h1)) = (Ok fail1, h2)"
    and 3: "(if fail1 then Err ''Something goes wrong.'' else Ok (), h2) = (Ok u, h')"
    unfolding execute_ops_def by (auto dest!: obind_OkD)
  have k: "keeps_world h1 h2" using 2 run_finalizers_keeps by (auto split: if_splits)
  have "\<not> fail" using 2 3 run_finalizers_flag by (auto split: if_splits)
  with run_ops_follows [OF assms(1) 1] assms(2,3) have
    "bolt_valid (hsDb h1) \<and> wkeys (hsDb h1) = plan adds ops (wkeys (hsDb h))" by simp
  with k keeps_world_World [OF k] 3 show ?thesis by (auto simp: wkeys_def keeps_world_def split: if_splits)
qed

text \<open>
  C3: The operations of an installation and of an upgrade that end well, without force, do to the installed
  packages what the plan says: in their order, each removal takes the first package of its category, name
  and version, each other operation of the command adds its own, and unpacks and finalizers change nothing.
\<close>

theorem execute_ops_refines:
  assumes "bolt_valid (hsDb h)" "new_ids ops" "\<not> ioForce opts"
  shows "(execute_ops M opts root m (install_op M opts root m) finalize ops h = (Ok u, h') \<longrightarrow>
      bolt_valid (hsDb h') \<and> wkeys (hsDb h') = plan install_adds ops (wkeys (hsDb h))) \<and>
    (execute_ops M opts root m (upgrade_op M opts root m) finalize ops h = (Ok u, h') \<longrightarrow>
      bolt_valid (hsDb h') \<and> wkeys (hsDb h') = plan upgrade_adds ops (wkeys (hsDb h)))"
  using execute_ops_follows [OF install_op_follows [OF assms(3)] assms(1,2)]
    execute_ops_follows [OF upgrade_op_follows [OF assms(3)] assms(1,2)] by blast

section \<open>The installation\<close>

lemma plan_adds:
  "\<forall>op\<in>set ops. opAction op = AddPackage \<Longrightarrow>
   plan install_adds ops ks = ks @ map (\<lambda>op. pkey (art_pkg (opArtifact op))) ops"
  by (induction ops arbitrary: ks) (auto simp: install_adds_def action_defs)

lemma pbind_Returns: "pbind m f = Returns b \<longleftrightarrow> (\<exists>a. m = Returns a \<and> f a = Returns b)"
  by (cases m) auto

lemma op_of_install: "op_of (ToMap p2i) (ToMap []) p = Returns op \<Longrightarrow> opAction op = AddPackage \<and> opArtifact op \<in> set p2i"
proof -
  assume r: "op_of (ToMap p2i) (ToMap []) p = Returns op"
  have "x \<in> set p2i" if f: "first_of (ToMap p2i) k = Returns x" for k x
  proof -
    from f obtain as where "gm_get (ToMap p2i) k = Some (x # as)"
      by (auto simp: first_of_def split: option.splits list.splits)
    then have "filter (\<lambda>a. art_key a = k) p2i = x # as" by (simp add: ToMap_get Let_def split: if_splits)
    then have "x \<in> set (filter (\<lambda>a. art_key a = k) p2i)" by simp
    then show ?thesis by simp
  qed
  moreover have "first_of (ToMap []) k \<noteq> Returns x" for k x by (simp add: first_of_def ToMap_def)
  ultimately show ?thesis using r by (auto simp: op_of_def pbind_Returns split: if_splits)
qed

lemma ops_of_install:
  "ops_of (ToMap p2i) (ToMap []) ps = Returns ops \<Longrightarrow> op \<in> set ops \<Longrightarrow> opAction op = AddPackage \<and> opArtifact op \<in> set p2i"
proof (induction ps arbitrary: ops)
  case (Cons p ps)
  then show ?case using op_of_install by (fastforce simp: pbind_Returns)
qed simp

text \<open>Without updates and removals every operation adds one of the artifacts.\<close>

lemma sort_install:
  assumes "sortPackages2Install V p2i [] [] = Ok ops" "op \<in> set ops"
  shows "opAction op = AddPackage \<and> opArtifact op \<in> set p2i"
proof -
  from assms(1) have r: "OrderOperations (seLib (cvSolver V)) (cvThinSort V) (seOrder (cvSolver V)) (cvRounds V)
      (cvFuel V) (Some p2i) (Some []) (Some []) = Some (Inr (Returns ops))"
    by (auto simp: sortPackages2Install_def split: option.splits sum.splits elim: of_panics.elims)
  then have "tmp_ops (cvThinSort V) (seOrder (cvSolver V)) (cvRounds V) (cvFuel V) p2i [] = Some (Inr (Returns ops))"
    by (auto simp: OrderOperations_def with_removes_def pbind_Returns split: option.splits sum.splits)
  with assms(2) ops_of_install [of p2i _ ops op] show ?thesis
    by (auto simp: tmp_ops_def Let_def split: if_splits option.splits sum.splits)
qed

lemma Install_removes_nothing: "fst (Install E n db serr repos pkgs st0) = Ok (as, rm) \<Longrightarrow> rm = []"
proof -
  assume "fst (Install E n db serr repos pkgs st0) = Ok (as, rm)"
  then obtain st' where "Install E n db serr repos pkgs st0 = (Ok (as, rm), st')" by (metis prod.collapse)
  then show "rm = []"
    by (elim Install_cases) (auto simp: select_install_def split: if_splits prod.splits outcome.splits)
qed

lemma check_system_frame:
  "hsDb (snd (check_system_file sc root rm pp f found h)) = hsDb h"
  "hsDisk (snd (check_system_file sc root rm pp f found h)) = hsDisk h"
  by (simp_all add: check_system_file_def ExistsPackageFile_def buildIndexFiles_def Let_def
      split: option.split if_split prod.split)

lemma obind_frame:
  assumes "g (snd m) = g h" "\<And>a s. g s = g h \<Longrightarrow> g (snd (f a s)) = g h"
  shows "g (snd (obind m f)) = g h"
  using assms by (cases m; cases "fst m") auto

lemma check_files_frame:
  "hsDb (snd (check_files cs sc root rm pp fs m found h)) = hsDb h \<and>
   hsDisk (snd (check_files cs sc root rm pp fs m found h)) = hsDisk h"
proof (induction fs arbitrary: m found h)
  case (Cons f fs)
  have db: "hsDb (snd (obind (if cs then check_system_file sc root rm pp f b h else (Ok b, h))
      (\<lambda>found h. check_files cs sc root rm pp fs (gm_set f pp m) found h))) = hsDb h" for b
    by (rule obind_frame) (use Cons.IH in \<open>simp_all add: check_system_frame\<close>)
  have disk: "hsDisk (snd (obind (if cs then check_system_file sc root rm pp f b h else (Ok b, h))
      (\<lambda>found h. check_files cs sc root rm pp fs (gm_set f pp m) found h))) = hsDisk h" for b
    by (rule obind_frame) (use Cons.IH in \<open>simp_all add: check_system_frame\<close>)
  show ?case
  proof (cases "gm_get m f")
    case None
    then show ?thesis by (simp only: check_files.simps option.case db disk simp_thms)
  next
    case (Some q)
    then show ?thesis using db [of True] disk [of True]
      by (cases sc) (simp_all only: check_files.simps option.case simp_thms if_True if_False snd_conv)
  qed
qed simp

lemma check_artifacts_frame:
  "hsDb (snd (check_artifacts cs sc root rm as m found h)) = hsDb h \<and>
   hsDisk (snd (check_artifacts cs sc root rm as m found h)) = hsDisk h"
proof (induction as arbitrary: m found h)
  case (Cons a as)
  have "hsDb (snd (check_artifacts cs sc root rm (a # as) m found h)) = hsDb h"
    unfolding check_artifacts.simps by (rule obind_frame) (use Cons.IH in \<open>auto simp: check_files_frame\<close>)
  moreover have "hsDisk (snd (check_artifacts cs sc root rm (a # as) m found h)) = hsDisk h"
    unfolding check_artifacts.simps by (rule obind_frame) (use Cons.IH in \<open>auto simp: check_files_frame\<close>)
  ultimately show ?case by simp
qed simp

lemma CheckFileConflicts_frame:
  "hsDb (snd (CheckFileConflicts p2i p2r cs sc root h)) = hsDb h"
  "hsDisk (snd (CheckFileConflicts p2i p2r cs sc root h)) = hsDisk h"
proof -
  show "hsDb (snd (CheckFileConflicts p2i p2r cs sc root h)) = hsDb h"
    unfolding CheckFileConflicts_def Let_def by (rule obind_frame) (simp_all add: check_artifacts_frame)
  show "hsDisk (snd (CheckFileConflicts p2i p2r cs sc root h)) = hsDisk h"
    unfolding CheckFileConflicts_def Let_def by (rule obind_frame) (simp_all add: check_artifacts_frame)
qed

lemma same_db_keeps: "hsDb h' = hsDb h \<Longrightarrow> keeps_world h h'"
  by (simp add: keeps_world_def)

lemma download_keeps: "download_loop M V as fail m h = (r, h') \<Longrightarrow> hsDb h' = hsDb h"
proof (induction M V as fail m h arbitrary: r rule: download_loop.induct)
  case (2 M V a as fail m h)
  have d: "hsDb (snd (DownloadPackage M a w h)) = hsDb h" for w
    by (simp add: DownloadPackage_def on_disk_def split: prod.split sum.split)
  show ?case
  proof (cases "GetRepository a = []")
    case False
    obtain o1 m1 where o1: "open_repo M V (GetRepository a) m = (o1, m1)" by (cases "open_repo M V (GetRepository a) m")
    show ?thesis
    proof (cases o1)
      case None
      with 2 False o1 show ?thesis by simp
    next
      case (Some w)
      obtain e h1 where e: "DownloadPackage M a w h = (e, h1)" by (cases "DownloadPackage M a w h")
      with d [of w] have "hsDb h1 = hsDb h" by simp
      with 2 False o1 Some e show ?thesis by (cases e) simp_all
    qed
  qed (use 2 in simp)
qed simp

text \<open>
  C4: An installation that ends well, not forced and no dry run, either has nothing to install, or adds to
  the installed packages the artifacts of the operations, in their order and after those installed before;
  the operations are on artifacts the solver selected among what was neither installed nor provided, and
  nothing is removed.
\<close>

theorem mgr_Install_adds:
  assumes "bolt_valid (hsDb h)" "\<not> ioForce opts" "\<not> ioPretend opts" "\<not> ioDownloadOnly opts" "\<not> ioShowInstallOrder opts"
    and "mgr_Install M V opts answer root packs h = (Ok u, h')"
  shows "(install_s1 (bd_World (hsDb h)) packs = [] \<and> h' = h) \<or>
    (\<exists>p2i. fst (Install (solver_with V opts False) (cvDepth V) (Some (bd_World (hsDb h))) (cvSearcherErr V)
        (cvRepoConfs V) (install_s1 (bd_World (hsDb h)) packs) NewSolver) = Ok (p2i, []) \<and>
      (p2i = [] \<and> h' = h \<or>
       (\<exists>ops. sortPackages2Install V p2i [] [] = Ok ops \<and> set (map opArtifact ops) \<subseteq> set p2i \<and>
          (new_ids ops \<longrightarrow> bolt_valid (hsDb h') \<and>
             wkeys (hsDb h') = wkeys (hsDb h) @ map (\<lambda>op. pkey (art_pkg (opArtifact op))) ops))))"
proof (cases "install_s1 (bd_World (hsDb h)) packs = []")
  case True
  with assms(6) show ?thesis by (auto simp: mgr_Install_def Let_def split: option.splits)
next
  case False
  with assms(6) obtain p2i p2r h1 where
    i: "fst (Install (solver_with V opts False) (cvDepth V) (Some (bd_World (hsDb h))) (cvSearcherErr V)
        (cvRepoConfs V) (install_s1 (bd_World (hsDb h)) packs) NewSolver) = Ok (p2i, p2r)"
    and rest: "(if p2i = [] then (Ok (), h)
       else obind (CheckFileConflicts p2i p2r (ioCheckSystemFiles opts) (ioPretend opts \<or> ioForce opts) root h)
         (\<lambda>_ h. if ioPretend opts then (Ok (), h)
           else if ioAsk opts \<and> \<not> ioShowInstallOrder opts \<and> \<not> answer then
             (Err ''Packages install cancelled by user.'', h)
           else download_execute M V opts root p2i [] p2r (install_op M opts root)
             (\<lambda>action. action = AddPackage) h)) = (Ok u, h')"
    by (auto simp: mgr_Install_def Let_def split: option.splits dest!: obind_OkD)
  have rm: "p2r = []" by (rule Install_removes_nothing [OF i])
  show ?thesis
  proof (cases "p2i = []")
    case True
    with i rm rest show ?thesis by simp
  next
    case some: False
    with rest assms(3,5) obtain b h1 where
      c: "CheckFileConflicts p2i p2r (ioCheckSystemFiles opts) (ioPretend opts \<or> ioForce opts) root h = (Ok b, h1)"
      and d: "download_execute M V opts root p2i [] p2r (install_op M opts root) (\<lambda>action. action = AddPackage) h1 = (Ok u, h')"
      by (auto dest!: obind_OkD split: if_splits)
    have db1: "hsDb h1 = hsDb h" using CheckFileConflicts_frame(1) c by (metis snd_conv)
    from d assms(4,5) obtain m h2 ops where
      dl: "download_loop M V (p2i @ []) False [] h1 = (Ok (False, m), h2)"
      and ops: "sortPackages2Install V p2i [] p2r = Ok ops"
      and ex: "execute_ops M opts root m (install_op M opts root m) (\<lambda>action. action = AddPackage) ops h2 = (Ok u, h')"
      unfolding download_execute_def by (auto dest!: obind_OkD split: if_splits)
    have db2: "hsDb h2 = hsDb h" using download_keeps [OF dl] db1 by simp
    have adds: "\<forall>op\<in>set ops. opAction op = AddPackage" "set (map opArtifact ops) \<subseteq> set p2i"
      using sort_install [of V p2i ops] ops rm by auto
    have "bolt_valid (hsDb h') \<and> wkeys (hsDb h') = wkeys (hsDb h) @ map (\<lambda>op. pkey (art_pkg (opArtifact op))) ops"
      if "new_ids ops"
      using execute_ops_follows [OF install_op_follows [OF assms(2)] _ that ex] assms(1) db2 plan_adds [OF adds(1)] by simp
    with i rm ops adds(2) show ?thesis by blast
  qed
qed

text \<open>
  A dry run changes neither the database nor the disk, whatever it ends with.
\<close>

theorem pretend_changes_nothing:
  assumes "ioPretend opts"
  shows "hsDb (snd (mgr_Install M V opts answer root packs h)) = hsDb h \<and>
    hsDisk (snd (mgr_Install M V opts answer root packs h)) = hsDisk h \<and>
    hsDb (snd (mgr_Upgrade M V opts answer root h)) = hsDb h \<and>
    hsDisk (snd (mgr_Upgrade M V opts answer root h)) = hsDisk h"
proof (intro conjI)
  have pack: "g (snd (obind (r, h) f)) = g h" if "\<And>a. g (snd (f a h)) = g h" for g r and f :: "'c \<Rightarrow> host \<Rightarrow> 'd outcome \<times> host"
    using that by (cases r) simp_all
  show "hsDb (snd (mgr_Install M V opts answer root packs h)) = hsDb h"
    using assms by (auto simp: mgr_Install_def Let_def split: option.split prod.split
        intro!: pack obind_frame simp: CheckFileConflicts_frame)
  show "hsDisk (snd (mgr_Install M V opts answer root packs h)) = hsDisk h"
    using assms by (auto simp: mgr_Install_def Let_def split: option.split prod.split
        intro!: pack obind_frame simp: CheckFileConflicts_frame)
  show "hsDb (snd (mgr_Upgrade M V opts answer root h)) = hsDb h"
    using assms by (auto simp: mgr_Upgrade_def Let_def split: option.split
        intro!: pack obind_frame simp: CheckFileConflicts_frame)
  show "hsDisk (snd (mgr_Upgrade M V opts answer root h)) = hsDisk h"
    using assms by (auto simp: mgr_Upgrade_def Let_def split: option.split
        intro!: pack obind_frame simp: CheckFileConflicts_frame)
qed

section \<open>The check of the file conflicts\<close>

lemma index_files_has [simp]: "gm_has (index_files fs p m) k \<longleftrightarrow> k \<in> set fs \<or> gm_has m k"
  by (induction fs arbitrary: m) (auto simp: gm_has_def)

lemma index_world_has: "gm_has (index_world db ps m) k \<longleftrightarrow> (\<exists>p\<in>set ps. k \<in> set (db_files db p)) \<or> gm_has m k"
  by (induction ps arbitrary: m) auto

text \<open>The files of the packages to remove: those of the artifact, or else of the database.\<close>

definition leaving_files :: "bolt_db \<Rightarrow> artifact list \<Rightarrow> string set" where
  "leaving_files db as = (\<Union>a\<in>set as. set (if aFiles a = [] then db_files db (art_pkg a) else aFiles a))"

lemma files_to_remove_has: "gm_has (files_to_remove db as m) k \<longleftrightarrow> k \<in> leaving_files db as \<or> gm_has m k"
  by (induction as arbitrary: m) (auto simp: leaving_files_def Let_def)

text \<open>A file on the target that a package of the database has, and that does not leave.\<close>

definition owned_file :: "string \<Rightarrow> string set \<Rightarrow> host \<Rightarrow> string \<Rightarrow> bool" where
  "owned_file root leaving h f \<longleftrightarrow> Exists (hsDisk h) (PathJoin [root, f]) \<and> f \<notin> leaving \<and>
     (\<exists>w\<in>set (bd_World (hsDb h)). f \<in> set (db_files (hsDb h) w))"

definition index_ok :: "host \<Rightarrow> bool" where
  "index_ok h \<longleftrightarrow> hsFileIndex h = None \<or> hsFileIndex h = Some (index_world (hsDb h) (bd_World (hsDb h)) [])"

definition same_host :: "host \<Rightarrow> host \<Rightarrow> bool" where
  "same_host h h' \<longleftrightarrow> hsDb h' = hsDb h \<and> hsDisk h' = hsDisk h \<and> index_ok h'"

lemma owned_same: "same_host h h' \<Longrightarrow> owned_file root leaving h' f = owned_file root leaving h f"
  by (simp add: same_host_def owned_file_def)

lemma ExistsPackageFile_spec:
  assumes "index_ok h"
  shows "same_host h (snd (ExistsPackageFile f h))"
    "fst (ExistsPackageFile f h) = None \<longleftrightarrow> \<not> (\<exists>w\<in>set (bd_World (hsDb h)). f \<in> set (db_files (hsDb h) w))"
  using assms index_world_has [of "hsDb h" "bd_World (hsDb h)" "[]" f]
  by (auto simp: ExistsPackageFile_def buildIndexFiles_def same_host_def index_ok_def nil_map_def gm_has_def Let_def)

lemma check_system_spec:
  assumes "index_ok h" "check_system_file False root rm pp f found h = (r, h')"
  shows "same_host h h'" "if owned_file root {k. gm_has rm k} h f then \<exists>e. r = Err e else r = Ok found"
  using assms ExistsPackageFile_spec [OF assms(1), of f]
  by (auto simp: check_system_file_def owned_file_def same_host_def split: if_splits option.splits prod.splits)

lemma same_host_trans: "same_host h h1 \<Longrightarrow> same_host h1 h2 \<Longrightarrow> same_host h h2"
  by (simp add: same_host_def)

lemma check_files_spec:
  assumes "index_ok h" "check_files cs False root rm pp fs m found h = (r, h')"
  shows "same_host h h' \<and>
    (if distinct fs \<and> (\<forall>f\<in>set fs. \<not> gm_has m f \<and> \<not> (cs \<and> owned_file root {k. gm_has rm k} h f))
     then \<exists>m'. r = Ok (m', found) \<and> (\<forall>k. gm_has m' k \<longleftrightarrow> k \<in> set fs \<or> gm_has m k) else \<exists>e. r = Err e)"
  using assms
proof (induction fs arbitrary: m h)
  case Nil
  then show ?case by (auto simp: same_host_def)
next
  case (Cons f fs)
  show ?case
  proof (cases "gm_get m f")
    case (Some q)
    with Cons.prems show ?thesis by (auto simp: gm_has_def same_host_def)
  next
    case None
    let ?one = "if cs then check_system_file False root rm pp f found h else (Ok found, h)"
    obtain r1 h1 where one: "?one = (r1, h1)" by (cases ?one)
    have first: "same_host h h1" "if cs \<and> owned_file root {k. gm_has rm k} h f then \<exists>e. r1 = Err e else r1 = Ok found"
      using one check_system_spec [OF Cons.prems(1), of root rm pp f found r1 h1] Cons.prems(1)
      by (auto simp: same_host_def split: if_splits)
    have run: "obind (r1, h1) (\<lambda>found h. check_files cs False root rm pp fs (gm_set f pp m) found h) = (r, h')"
      using Cons.prems(2) None one by simp
    show ?thesis
    proof (cases "cs \<and> owned_file root {k. gm_has rm k} h f")
      case True
      with first run show ?thesis by auto
    next
      case False
      then have "r1 = Ok found" using first(2) by (simp split: if_splits)
      with run have "check_files cs False root rm pp fs (gm_set f pp m) found h1 = (r, h')" by simp
      note step = this
      have idx: "index_ok h1" using first(1) by (simp add: same_host_def)
      have IH: "same_host h1 h' \<and>
        (if distinct fs \<and> (\<forall>g\<in>set fs. \<not> gm_has (gm_set f pp m) g \<and> \<not> (cs \<and> owned_file root {k. gm_has rm k} h1 g))
         then \<exists>m'. r = Ok (m', found) \<and> (\<forall>k. gm_has m' k \<longleftrightarrow> k \<in> set fs \<or> gm_has (gm_set f pp m) k) else \<exists>e. r = Err e)"
        by (rule Cons.IH [OF idx step])
      have has: "gm_has (gm_set f pp m) k \<longleftrightarrow> k = f \<or> gm_has m k" for k by (auto simp: gm_has_def)
      have cond: "distinct (f # fs) \<and> (\<forall>g\<in>set (f # fs). \<not> gm_has m g \<and> \<not> (cs \<and> owned_file root {k. gm_has rm k} h g)) \<longleftrightarrow>
          distinct fs \<and> (\<forall>g\<in>set fs. \<not> gm_has (gm_set f pp m) g \<and> \<not> (cs \<and> owned_file root {k. gm_has rm k} h1 g))"
        using False None by (auto simp: owned_same [OF first(1)] has) (auto simp: gm_has_def)
      have eqv: "(\<forall>k. gm_has m' k \<longleftrightarrow> k \<in> set (f # fs) \<or> gm_has m k) \<longleftrightarrow>
          (\<forall>k. gm_has m' k \<longleftrightarrow> k \<in> set fs \<or> gm_has (gm_set f pp m) k)" for m'
        by (auto simp: has)
      show ?thesis
        unfolding cond eqv using IH same_host_trans [OF first(1)] by blast
    qed
  qed
qed

lemma distinct_append_has: "distinct (xs @ ys) \<longleftrightarrow> distinct xs \<and> distinct ys \<and> (\<forall>y\<in>set ys. y \<notin> set xs)"
  by auto

lemma check_artifacts_spec:
  assumes "index_ok h" "check_artifacts cs False root rm as m found h = (r, h')"
  shows "same_host h h' \<and>
    (if distinct (concat (map aFiles as)) \<and>
        (\<forall>f\<in>set (concat (map aFiles as)). \<not> gm_has m f \<and> \<not> (cs \<and> owned_file root {k. gm_has rm k} h f))
     then r = Ok found else \<exists>e. r = Err e)"
  using assms
proof (induction as arbitrary: m h)
  case Nil
  then show ?case by (auto simp: same_host_def)
next
  case (Cons a as)
  let ?pp = "HumanReadableString (art_pkg a)"
  let ?bad = "\<lambda>h f. cs \<and> owned_file root {k. gm_has rm k} h f"
  obtain r1 h1 where one: "check_files cs False root rm ?pp (aFiles a) m found h = (r1, h1)"
    by (cases "check_files cs False root rm ?pp (aFiles a) m found h")
  note files = check_files_spec [OF Cons.prems(1) one]
  then have h1: "same_host h h1" by blast
  show ?case
  proof (cases "distinct (aFiles a) \<and> (\<forall>f\<in>set (aFiles a). \<not> gm_has m f \<and> \<not> ?bad h f)")
    case True
    obtain m' where r1: "r1 = Ok (m', found)"
      and m': "\<forall>k. gm_has m' k \<longleftrightarrow> k \<in> set (aFiles a) \<or> gm_has m k" using files unfolding if_P [OF True] by blast
    have "check_artifacts cs False root rm as m' found h1 = (r, h')"
      using Cons.prems(2) one r1 by simp
    note step = this
    have idx: "index_ok h1" using h1 by (simp add: same_host_def)
    have IH: "same_host h1 h' \<and>
      (if distinct (concat (map aFiles as)) \<and> (\<forall>f\<in>set (concat (map aFiles as)). \<not> gm_has m' f \<and> \<not> ?bad h1 f)
       then r = Ok found else \<exists>e. r = Err e)" by (rule Cons.IH [OF idx step])
    have "distinct (concat (map aFiles (a # as))) \<and> (\<forall>f\<in>set (concat (map aFiles (a # as))). \<not> gm_has m f \<and> \<not> ?bad h f) \<longleftrightarrow>
      distinct (concat (map aFiles as)) \<and> (\<forall>f\<in>set (concat (map aFiles as)). \<not> gm_has m' f \<and> \<not> ?bad h1 f)"
      unfolding list.map concat.simps distinct_append_has set_append ball_Un owned_same [OF h1]
      using True m' by blast
    with IH same_host_trans [OF h1] show ?thesis by presburger
  next
    case False
    obtain e where "r1 = Err e" using files unfolding if_not_P [OF False] by blast
    moreover from this have "r = Err e \<and> h' = h1" using Cons.prems(2) one by simp
    moreover have "\<not> (distinct (concat (map aFiles (a # as))) \<and> (\<forall>f\<in>set (concat (map aFiles (a # as))). \<not> gm_has m f \<and> \<not> ?bad h f))"
      using False by (simp only: list.map concat.simps distinct_append set_append) blast
    ultimately show ?thesis using h1 by (simp only: if_False) (blast intro: exI)
  qed
qed

text \<open>
  C9: With an index that is not built and no conflict to pass over, CheckFileConflicts succeeds exactly when no
  file is in two of the packages to install (or twice in one) and, if the system is checked, no file of
  theirs that is on the target belongs to an installed package that keeps it. It changes neither the
  database nor the disk.
\<close>
theorem CheckFileConflicts_iff:
  assumes "hsFileIndex h = None"
  shows "((\<exists>found h'. CheckFileConflicts p2i p2r cs False root h = (Ok found, h')) \<longleftrightarrow>
      distinct (concat (map aFiles p2i)) \<and>
      (cs \<longrightarrow> (\<forall>f\<in>set (concat (map aFiles p2i)). \<not> owned_file root (leaving_files (hsDb h) p2r) h f))) \<and>
    hsDb (snd (CheckFileConflicts p2i p2r cs False root h)) = hsDb h \<and>
    hsDisk (snd (CheckFileConflicts p2i p2r cs False root h)) = hsDisk h"
proof -
  let ?rm = "if cs then files_to_remove (hsDb h) p2r [] else []"
  obtain r h' where run: "check_artifacts cs False root ?rm p2i [] False h = (r, h')"
    by (cases "check_artifacts cs False root ?rm p2i [] False h")
  have ok: "index_ok h" using assms by (simp add: index_ok_def)
  have keys: "cs \<Longrightarrow> {k. gm_has ?rm k} = leaving_files (hsDb h) p2r"
    by (simp add: files_to_remove_has)
  from check_artifacts_spec [OF ok run]
  have spec: "same_host h h'" "if distinct (concat (map aFiles p2i)) \<and>
      (cs \<longrightarrow> (\<forall>f\<in>set (concat (map aFiles p2i)). \<not> owned_file root (leaving_files (hsDb h) p2r) h f))
      then r = Ok False else \<exists>e. r = Err e"
    using keys by (auto simp: gm_has_def split: if_splits)
  show ?thesis
    using spec run by (cases h') (auto simp: CheckFileConflicts_def Let_def same_host_def split: if_splits)
qed

section \<open>Concrete commands\<close>

definition in_repo :: "string \<Rightarrow> default_package \<Rightarrow> default_package" where
  "in_repo r p = DefaultPackage (pkg_data p\<lparr>Repository := r\<rparr>) (PackageRequires p) (PackageConflicts p) (Provides p)"

definition demo_foo :: artifact where
  "demo_foo =
     (art_of (in_repo ''r'' (demo_pkg ''foo'' ''1.0'' [demo_pkg ''bar'' ''>=1.0'' [] []] [])))\<lparr>aFiles := [''usr/foo'']\<rparr>"

definition demo_bar :: artifact where
  "demo_bar = (art_of (in_repo ''r'' (demo_pkg ''bar'' ''1.0'' [] [])))\<lparr>aFiles := [''usr/bar'']\<rparr>"

definition demo_command :: command_env where
  "demo_command =
     \<lparr>cvSolver = demo_env [demo_foo, demo_bar], cvDepth = 5, cvThinSort = insertion_sort, cvRounds = 0, cvFuel = 30,
      cvKeyedSort = insertion_sort, cvSearcherErr = None, cvRepoConfs = [],
      cvRepos = [\<lparr>srEnable = True, srIdentity = demo_identity 1\<rparr>], cvLoad = (\<lambda>d. Inr)\<rparr>"

definition demo_opts :: install_opts where
  "demo_opts =
     \<lparr>ioForce = False, ioIgnoreConflicts = False, ioNoDeps = False, ioPreserve = False, ioAsk = False,
      ioSkipFinalizers = False, ioPretend = False, ioDownloadOnly = False, ioCheckSystemFiles = True,
      ioShowInstallOrder = False, ioDeep = False\<rparr>"

definition full_disk :: inst_env where
  "full_disk = demo_inst\<lparr>inUnpack := (\<lambda>a root d. (Some ''no space left on device'', d))\<rparr>"

definition demo_run :: "inst_env \<Rightarrow> unit outcome \<times> host" where
  "demo_run M = mgr_Install M demo_command demo_opts True ''/'' [demo_pkg ''foo'' ''1.0'' [] []] (demo_host [])"

text \<open>
  An archive that cannot be unpacked is registered all the same: the installation says that something
  went wrong, its packages are in the database of those installed, and an installation of the same packages
  then has nothing to do.
\<close>

theorem install_registers_failed:
  "fst (demo_run full_disk) = Err ''Something goes wrong.'' \<and>
   map PackageName (bd_World (hsDb (snd (demo_run full_disk)))) = [''c/bar'', ''c/foo''] \<and>
   install_s1 (bd_World (hsDb (snd (demo_run full_disk)))) [demo_pkg ''foo'' ''1.0'' [] []] = []"
proof (intro conjI)
  show "fst (demo_run full_disk) = Err ''Something goes wrong.''" by code_simp
  show "map PackageName (bd_World (hsDb (snd (demo_run full_disk)))) = [''c/bar'', ''c/foo'']" by code_simp
  show "install_s1 (bd_World (hsDb (snd (demo_run full_disk)))) [demo_pkg ''foo'' ''1.0'' [] []] = []" by code_simp
qed

lemma demo_empty_valid: "bolt_valid (hsDb (demo_host []))"
  using demo_db_valid [of "[]"] by (simp add: demo_host_def)

lemma demo_runs: "fst (demo_run demo_inst) = Ok ()" "wkeys (hsDb (snd (demo_run demo_inst))) \<noteq> []"
  "install_s1 (bd_World (hsDb (demo_host []))) [demo_pkg ''foo'' ''1.0'' [] []] \<noteq> []"
  "wkeys (hsDb (demo_host [])) = []"
  by code_simp+

theorem mgr_Install_adds_witness:
  "\<exists>p2i ops. sortPackages2Install demo_command p2i [] [] = Ok ops \<and> set (map opArtifact ops) \<subseteq> set p2i \<and>
     (new_ids ops \<longrightarrow> wkeys (hsDb (snd (demo_run demo_inst))) = map (\<lambda>op. pkey (art_pkg (opArtifact op))) ops)"
proof -
  have o: "\<not> ioForce demo_opts" "\<not> ioPretend demo_opts" "\<not> ioDownloadOnly demo_opts" "\<not> ioShowInstallOrder demo_opts"
    by (simp_all add: demo_opts_def)
  have run: "mgr_Install demo_inst demo_command demo_opts True ''/'' [demo_pkg ''foo'' ''1.0'' [] []] (demo_host []) =
      (Ok (), snd (demo_run demo_inst))"
    using demo_runs(1) unfolding demo_run_def by (metis prod.collapse)
  have "snd (demo_run demo_inst) \<noteq> demo_host []" using demo_runs(2,4) by metis
  with mgr_Install_adds [OF demo_empty_valid o run] demo_runs(3,4) show ?thesis by auto
qed

definition demo_ops :: "operation list" where
  "demo_ops = [NewOperation RemovePackage demo_bar, NewOperation AddPackage demo_foo]"

definition demo_executed :: "unit outcome \<times> host" where
  "demo_executed = execute_ops demo_inst demo_opts ''/'' [(''r'', demo_identity 1)]
     (install_op demo_inst demo_opts ''/'' [(''r'', demo_identity 1)]) (\<lambda>_. True) demo_ops
     (demo_host [art_pkg demo_bar])"

lemma demo_executes: "fst demo_executed = Ok ()" "plan install_adds demo_ops (wkeys (hsDb (demo_host [art_pkg demo_bar]))) =
    [pkey (art_pkg demo_foo)]"
  by code_simp+

theorem execute_ops_refines_witness: "wkeys (hsDb (snd demo_executed)) = [pkey (art_pkg demo_foo)]"
proof -
  have v: "bolt_valid (hsDb (demo_host [art_pkg demo_bar]))"
  proof -
    have "\<forall>p\<in>set [art_pkg demo_bar]. ID (pkg_data p) = 0" by code_simp
    from demo_db_valid [OF this] show ?thesis by (simp add: demo_host_def)
  qed
  have n: "new_ids demo_ops" by code_simp
  have o: "\<not> ioForce demo_opts" by (simp add: demo_opts_def)
  have run: "demo_executed = (Ok (), snd demo_executed)" using demo_executes(1) by (metis prod.collapse)
  from execute_ops_refines [OF v n o, THEN conjunct1, rule_format, OF run [unfolded demo_executed_def],
      folded demo_executed_def] demo_executes(2) show ?thesis by simp
qed

theorem pretend_changes_nothing_witness:
  "hsDisk (snd (mgr_Install demo_inst demo_command (demo_opts\<lparr>ioPretend := True\<rparr>) True ''/''
     [demo_pkg ''foo'' ''1.0'' [] []] (demo_host []))) = [([''usr''], NDir)]"
  using pretend_changes_nothing [of "demo_opts\<lparr>ioPretend := True\<rparr>" demo_inst demo_command True "''/''"
      "[demo_pkg ''foo'' ''1.0'' [] []]" "demo_host []"]
  by (simp add: demo_host_def)

theorem CheckFileConflicts_iff_witness:
  "\<not> (\<exists>found h'. CheckFileConflicts [demo_foo, demo_foo] [] True False ''/'' (demo_host []) = (Ok found, h'))"
  using CheckFileConflicts_iff [of "demo_host []" "[demo_foo, demo_foo]" "[]" True "''/''"]
  by (simp add: demo_host_def demo_foo_def)

end
