(* ===== verification/Formulas.thy ===== *)
theory Formulas
  imports Database SolverState
begin

text \<open>
  The formulas over packages of the solver of \<open>luet-build\<close>: \<open>buildFormula\<close>, \<open>walkPackage\<close>,
  \<open>scanRequires\<close>, \<open>Revdeps\<close> and \<open>LabelDeps\<close> of \<open>pkg/package/package.go\<close>, and the \<open>buildFormula\<close> of
  \<open>pkg/solver/solver_v2.go\<close>.

  A formula is a term of the package \<open>bf\<close> of gophersat: variables, negation, conjunction and disjunction
  of lists.  The database of the definitions is read only through the queries of the interface
  \<open>PackageDatabase\<close> (\<open>queries\<close>); the variable of a package is the key under which the database of the
  solver, one in memory, has it: encoding a package creates it there.
\<close>

section \<open>Formulas\<close>

datatype formula = FTrue | FVar string | FNot formula | FAnd "formula list" | FOr "formula list"

fun eval :: "(string \<Rightarrow> bool) \<Rightarrow> formula \<Rightarrow> bool" where
  "eval v FTrue = True"
| "eval v (FVar x) = v x"
| "eval v (FNot f) = (\<not> eval v f)"
| "eval v (FAnd fs) = list_all (eval v) fs"
| "eval v (FOr fs) = list_ex (eval v) fs"

fun vars :: "formula \<Rightarrow> string list" where
  "vars FTrue = []"
| "vars (FVar x) = [x]"
| "vars (FNot f) = vars f"
| "vars (FAnd fs) = concat (map vars fs)"
| "vars (FOr fs) = concat (map vars fs)"

lemma eval_cong: "(\<And>x. x \<in> set (vars f) \<Longrightarrow> v x = w x) \<Longrightarrow> eval v f = eval w f"
proof (induction f)
  case (FAnd fs)
  have "eval v f = eval w f" if "f \<in> set fs" for f
    using that FAnd.prems by (intro FAnd.IH) auto
  then show ?case by (simp add: list_all_iff)
next
  case (FOr fs)
  have "eval v f = eval w f" if "f \<in> set fs" for f
    using that FOr.prems by (intro FOr.IH) auto
  then show ?case by (simp add: list_ex_iff)
qed auto

section \<open>Queries\<close>

fun of_query :: "'a res option \<Rightarrow> 'a outcome" where
  "of_query None = Fuel"
| "of_query (Some (Inl e)) = Err e"
| "of_query (Some (Inr a)) = Ok a"

record queries =
  quFind :: "default_package \<Rightarrow> default_package outcome"
  quFinds :: "default_package \<Rightarrow> default_package list outcome"
  quVersions :: "default_package \<Rightarrow> default_package list outcome"
  quRevdeps :: "default_package \<Rightarrow> (default_package list \<times> err option) outcome"
  quWorld :: "default_package list"

text \<open>The queries of both databases; \<open>k\<close> bounds the depth of the provides, \<open>m\<close> the reverse requirements.\<close>

definition mem_queries :: "db_env \<Rightarrow> nat \<Rightarrow> nat \<Rightarrow> mem_db \<Rightarrow> queries" where
  "mem_queries D k m db =
     \<lparr>quFind = (\<lambda>p. of_query (md_FindPackage D k db p)), quFinds = (\<lambda>p. of_query (md_FindPackages D k db p)),
      quVersions = (\<lambda>p. of_query (md_FindPackageVersions D k db p)),
      quRevdeps = (\<lambda>p. of_query (map_option Inr (md_GetRevdeps D k m db p))), quWorld = md_World D db\<rparr>"

definition bolt_queries :: "db_env \<Rightarrow> nat \<Rightarrow> nat \<Rightarrow> bolt_db \<Rightarrow> queries" where
  "bolt_queries D k m db =
     \<lparr>quFind = (\<lambda>p. of_query (bd_FindPackage D k db p)), quFinds = (\<lambda>p. of_query (bd_FindPackages D k db p)),
      quVersions = (\<lambda>p. of_query (map_option Inr (bd_FindPackageVersions D k db p))),
      quRevdeps = (\<lambda>p. of_query (map_option Inr (bd_GetRevdeps D k m db p))), quWorld = bd_World db\<rparr>"

text \<open>The value of a query or, with an error, another one.\<close>

fun or_else :: "'a outcome \<Rightarrow> 'a \<Rightarrow> 'a outcome" where
  "or_else (Err e) a = Ok a"
| "or_else r a = r"

section \<open>Encoding\<close>

text \<open>The database of the solver and the packages visited.\<close>

record sat_state =
  saVisited :: "string list"
  saDb :: mem_db

record sat_env =
  seDb :: db_env
  seProvides :: nat

definition Encode :: "sat_env \<Rightarrow> default_package \<Rightarrow> sat_state \<Rightarrow> string outcome \<times> sat_state" where
  "Encode E p s =
     (case md_CreatePackage (seDb E) (seProvides E) p (saDb s) of
        None \<Rightarrow> (Fuel, s)
      | Some (r, db) \<Rightarrow> (of_res r, s\<lparr>saDb := db\<rparr>))"

section \<open>The formulas of a package\<close>

text \<open>\<open>Or(Not A, B)\<close> and \<open>Or(Not A, Not B)\<close>.\<close>

definition implies :: "string \<Rightarrow> formula \<Rightarrow> formula" where
  "implies a f = FOr [FNot (FVar a), f]"

text \<open>The other versions of a package; the two solvers encode them before and after the test.\<close>

fun version_rules ::
    "sat_env \<Rightarrow> default_package \<Rightarrow> string \<Rightarrow> default_package list \<Rightarrow> sat_state \<Rightarrow> formula list outcome \<times> sat_state" where
  "version_rules E p a [] s = (Ok [], s)"
| "version_rules E p a (cp # cps) s =
     obind (Encode E cp s) (\<lambda>b s.
     obind (version_rules E p a cps s) (\<lambda>fs s.
       (Ok ((if \<not> Matches p cp then [implies a (implies a (FNot (FVar b)))] else []) @ fs), s)))"

fun version_rules2 ::
    "sat_env \<Rightarrow> default_package \<Rightarrow> string \<Rightarrow> default_package list \<Rightarrow> sat_state \<Rightarrow> formula list outcome \<times> sat_state" where
  "version_rules2 E p a [] s = (Ok [], s)"
| "version_rules2 E p a (cp # cps) s =
     (if \<not> Matches p cp then
        obind (Encode E cp s) (\<lambda>b s.
        obind (version_rules2 E p a cps s) (\<lambda>fs s.
          (Ok (implies a (implies a (FNot (FVar b))) # fs), s)))
      else version_rules2 E p a cps s)"

text \<open>At most one of the packages found for a requirement.\<close>

fun at_most ::
    "sat_env \<Rightarrow> string \<Rightarrow> default_package \<Rightarrow> string \<Rightarrow> default_package list \<Rightarrow> sat_state \<Rightarrow>
     formula list outcome \<times> sat_state" where
  "at_most E a p b [] s = (Ok [], s)"
| "at_most E a p b (i # is) s =
     obind (Encode E i s) (\<lambda>k s.
     obind (at_most E a p b is s) (\<lambda>fs s.
       (Ok ((if \<not> Matches p i then [implies a (FOr [FNot (FVar k), FNot (FVar b)])] else []) @ fs), s)))"

fun at_most2 ::
    "sat_env \<Rightarrow> string \<Rightarrow> default_package \<Rightarrow> string \<Rightarrow> default_package list \<Rightarrow> sat_state \<Rightarrow>
     formula list outcome \<times> sat_state" where
  "at_most2 E a p b [] s = (Ok [], s)"
| "at_most2 E a p b (i # is) s =
     (if \<not> Matches p i then
        obind (Encode E i s) (\<lambda>k s.
        obind (at_most2 E a p b is s) (\<lambda>fs s.
          (Ok (implies a (FOr [FNot (FVar k), FNot (FVar b)]) # fs), s)))
      else at_most2 E a p b is s)"

text \<open>The value is the formulas and the variables of the packages; \<open>amo\<close> is the inner loop.\<close>

fun alternatives ::
    "sat_env \<Rightarrow> (default_package \<Rightarrow> string \<Rightarrow> sat_state \<Rightarrow> formula list outcome \<times> sat_state) \<Rightarrow>
     default_package list \<Rightarrow> sat_state \<Rightarrow> (formula list \<times> string list) outcome \<times> sat_state" where
  "alternatives E amo [] s = (Ok ([], []), s)"
| "alternatives E amo (p # ps) s =
     obind (Encode E p s) (\<lambda>b s.
     obind (amo p b s) (\<lambda>fs s.
     obind (alternatives E amo ps s) (\<lambda>(gs, alo) s. (Ok (fs @ gs, b # alo), s))))"

text \<open>What a requirement or a conflict stands for: one package, or those found for it.\<close>

datatype target = One default_package | Many "default_package list"

definition found_for :: "queries \<Rightarrow> default_package \<Rightarrow> target outcome" where
  "found_for Q r =
     (case or_else (quFinds Q r) [] of
        Ok ps \<Rightarrow> Ok (if ps = [] then One r else Many ps) | Err e \<Rightarrow> Err e | Panic e \<Rightarrow> Panic e | Fuel \<Rightarrow> Fuel)"

definition require_target :: "queries \<Rightarrow> default_package \<Rightarrow> target outcome" where
  "require_target Q r =
     (case quFind Q r of
        Ok q \<Rightarrow> if IsSelector r then found_for Q q else Ok (One q)
      | Err e \<Rightarrow> found_for Q r
      | Panic e \<Rightarrow> Panic e | Fuel \<Rightarrow> Fuel)"

definition conflict_target :: "queries \<Rightarrow> default_package \<Rightarrow> target outcome" where
  "conflict_target Q r =
     (case require_target Q r of Ok (Many [p]) \<Rightarrow> Ok (One p) | t \<Rightarrow> t)"

text \<open>
  The two functions share their loops.  They differ in the lookup of the package itself (\<open>fsSelf\<close>), the
  formulas of its other versions and the inner loop over the packages found for a requirement.
\<close>

record formula_style =
  fsSelf :: "default_package \<Rightarrow> default_package outcome"
  fsVersions :: "default_package \<Rightarrow> string \<Rightarrow> sat_state \<Rightarrow> formula list outcome \<times> sat_state"
  fsAtMost :: "string \<Rightarrow> default_package list \<Rightarrow> default_package \<Rightarrow> string \<Rightarrow> sat_state \<Rightarrow>
     formula list outcome \<times> sat_state"

function (sequential) build_with ::
      "sat_env \<Rightarrow> queries \<Rightarrow> formula_style \<Rightarrow> nat \<Rightarrow> default_package \<Rightarrow> sat_state \<Rightarrow> formula list outcome \<times> sat_state"
  and requires_rules ::
      "sat_env \<Rightarrow> queries \<Rightarrow> formula_style \<Rightarrow> nat \<Rightarrow> string \<Rightarrow> default_package list \<Rightarrow> sat_state \<Rightarrow>
       formula list outcome \<times> sat_state"
  and conflicts_rules ::
      "sat_env \<Rightarrow> queries \<Rightarrow> formula_style \<Rightarrow> nat \<Rightarrow> string \<Rightarrow> default_package list \<Rightarrow> sat_state \<Rightarrow>
       formula list outcome \<times> sat_state"
  and each_rules ::
      "sat_env \<Rightarrow> queries \<Rightarrow> formula_style \<Rightarrow> nat \<Rightarrow> string \<Rightarrow> default_package list \<Rightarrow> sat_state \<Rightarrow>
       formula list outcome \<times> sat_state" where
  "build_with E Q S 0 pack s = (Fuel, s)"
| "build_with E Q S (Suc n) pack s =
     (if HumanReadableString pack \<in> set (saVisited s) then (Ok [], s)
      else
        obind (fsSelf S pack, s\<lparr>saVisited := HumanReadableString pack # saVisited s\<rparr>) (\<lambda>p s.
        obind (Encode E p s) (\<lambda>a s.
        obind (fsVersions S p a s) (\<lambda>fs s.
        obind (requires_rules E Q S n a (PackageRequires p) s) (\<lambda>gs s.
        obind (conflicts_rules E Q S n a (PackageConflicts p) s) (\<lambda>hs s.
          (Ok (fs @ gs @ hs), s)))))))"
| "requires_rules E Q S n a [] s = (Ok [], s)"
| "requires_rules E Q S n a (r # rs) s =
     obind (require_target Q r, s) (\<lambda>t s. case t of
       One q \<Rightarrow>
         obind (Encode E q s) (\<lambda>b s.
         obind (build_with E Q S n q s) (\<lambda>fs s.
         obind (requires_rules E Q S n a rs s) (\<lambda>gs s. (Ok (implies a (FVar b) # fs @ gs), s))))
     | Many ps \<Rightarrow>
         obind (alternatives E (fsAtMost S a ps) ps s) (\<lambda>(fs, alo) s.
         obind (requires_rules E Q S n a rs s) (\<lambda>gs s.
           (Ok (fs @ implies a (FOr (map FVar alo)) # gs), s))))"
| "conflicts_rules E Q S n a [] s = (Ok [], s)"
| "conflicts_rules E Q S n a (c # cs) s =
     obind (conflict_target Q c, s) (\<lambda>t s.
     obind (each_rules E Q S n a (case t of One q \<Rightarrow> [q] | Many ps \<Rightarrow> ps) s) (\<lambda>fs s.
     obind (conflicts_rules E Q S n a cs s) (\<lambda>gs s. (Ok (fs @ gs), s))))"
| "each_rules E Q S n a [] s = (Ok [], s)"
| "each_rules E Q S n a (p # ps) s =
     obind (Encode E p s) (\<lambda>b s.
     obind (build_with E Q S n p s) (\<lambda>fs s.
     obind (each_rules E Q S n a ps s) (\<lambda>gs s. (Ok (implies a (FNot (FVar b)) # fs @ gs), s))))"
  by pat_completeness auto

termination
  by (relation "measures [\<lambda>x. case x of
        Inl (Inl (E, Q, S, n, p, s)) \<Rightarrow> n | Inl (Inr (E, Q, S, n, a, rs, s)) \<Rightarrow> n
      | Inr (Inl (E, Q, S, n, a, rs, s)) \<Rightarrow> n | Inr (Inr (E, Q, S, n, a, rs, s)) \<Rightarrow> n,
      \<lambda>x. case x of Inl (Inl _) \<Rightarrow> 0 | Inl (Inr _) \<Rightarrow> 2 | Inr (Inl _) \<Rightarrow> 2 | Inr (Inr _) \<Rightarrow> 1,
      \<lambda>x. case x of
        Inl (Inl _) \<Rightarrow> 0 | Inl (Inr (E, Q, S, n, a, rs, s)) \<Rightarrow> length rs
      | Inr (Inl (E, Q, S, n, a, rs, s)) \<Rightarrow> length rs | Inr (Inr (E, Q, S, n, a, rs, s)) \<Rightarrow> length rs]") auto

definition style1 :: "sat_env \<Rightarrow> queries \<Rightarrow> formula_style" where
  "style1 E Q =
     \<lparr>fsSelf = (\<lambda>pack. or_else (quFind Q pack) pack),
      fsVersions = (\<lambda>p a s. obind (or_else (quVersions Q p) [], s) (\<lambda>packages s. version_rules E p a packages s)),
      fsAtMost = (\<lambda>a ps p b s. at_most E a p b ps s)\<rparr>"

definition style2 :: "sat_env \<Rightarrow> queries \<Rightarrow> formula_style" where
  "style2 E Q =
     \<lparr>fsSelf = Ok,
      fsVersions = (\<lambda>p a s. obind (or_else (quVersions Q p) [], s) (\<lambda>packages s.
         if length packages > 1 then version_rules2 E p a packages s else (Ok [], s))),
      fsAtMost = (\<lambda>a ps p b s. at_most2 E a p b ps s)\<rparr>"

definition package_buildFormula ::
    "sat_env \<Rightarrow> queries \<Rightarrow> nat \<Rightarrow> default_package \<Rightarrow> sat_state \<Rightarrow> formula list outcome \<times> sat_state" where
  "package_buildFormula E Q n pack s = build_with E Q (style1 E Q) n pack s"

definition v2_buildFormula ::
    "sat_env \<Rightarrow> queries \<Rightarrow> nat \<Rightarrow> default_package \<Rightarrow> sat_state \<Rightarrow> formula list outcome \<times> sat_state" where
  "v2_buildFormula E Q n pack s = build_with E Q (style2 E Q) n pack s"

text \<open>With no package visited yet.\<close>

definition BuildFormula ::
    "sat_env \<Rightarrow> queries \<Rightarrow> nat \<Rightarrow> default_package \<Rightarrow> sat_state \<Rightarrow> formula list outcome \<times> sat_state" where
  "BuildFormula E Q n pack s = package_buildFormula E Q n pack (s\<lparr>saVisited := []\<rparr>)"

end
