(* ===== verification/SatSolver.thy ===== *)
theory SatSolver
  imports Formulas
begin

text \<open>
  The solver of \<open>luet-build\<close>, \<open>pkg/solver\<close>: the decoder of models and its lists of assertions
  (\<open>decoder.go\<close>), \<open>Solver\<close> (\<open>solver.go\<close>), \<open>SolverV2\<close> (\<open>solver_v2.go\<close>), the helpers of \<open>common.go\<close>, and
  the recursions over packages of \<open>pkg/package/package.go\<close> they use.

  Parameters (\<open>sat_config\<close>) are the codec and orders of the databases, gophersat's \<open>bf.Solve\<close>, which gives
  a model or nil, and the resolver asked when there is none.  The numbers bound recursions: the depth of
  the provides (\<open>seProvides\<close>), of the reverse requirements, of the formulas and walks, and the rounds
  of an upgrade; \<open>Fuel\<close> is the outcome when one is not enough.
\<close>

section \<open>Assertions\<close>

record assertion =
  paPackage :: default_package
  paValue :: bool

record sat_config =
  scEnv :: sat_env
  scRevdeps :: nat
  scFormulas :: nat
  scSolve :: "formula \<Rightarrow> (string \<times> bool) list option"
  scResolver :: "(formula \<Rightarrow> assertion list outcome) option"

abbreviation scDb :: "sat_config \<Rightarrow> db_env" where
  "scDb C \<equiv> seDb (scEnv C)"

definition queries_of :: "sat_config \<Rightarrow> mem_db \<Rightarrow> queries" where
  "queries_of C db = mem_queries (scDb C) (seProvides (scEnv C)) (scRevdeps C) db"

fun DecodeModel :: "db_env \<Rightarrow> (string \<times> bool) list \<Rightarrow> mem_db \<Rightarrow> assertion list outcome" where
  "DecodeModel D [] db = Ok []"
| "DecodeModel D ((k, v) # m) db =
     (case md_GetPackage D k db of
        Inl e \<Rightarrow> Err e
      | Inr p \<Rightarrow>
         (case DecodeModel D m db of Ok as \<Rightarrow> Ok (\<lparr>paPackage = p, paValue = v\<rparr> # as) | r \<Rightarrow> r))"

definition assertion_ToString :: "assertion \<Rightarrow> string" where
  "assertion_ToString a =
     pCategory (paPackage a) @ ''/'' @ pName (paPackage a) @ '' '' @ pVersion (paPackage a) @ '' '' @
     (if paValue a then ''installed'' else ''not installed'')"

fun SearchByName :: "assertion list \<Rightarrow> string \<Rightarrow> assertion option" where
  "SearchByName [] f = None"
| "SearchByName (a # as) f =
     (if paValue a \<and> GetPackageName (paPackage a) = f then Some a else SearchByName as f)"

fun assertions_Search :: "assertion list \<Rightarrow> string \<Rightarrow> assertion option" where
  "assertions_Search [] f = None"
| "assertions_Search (a # as) f =
     (if paValue a \<and> GetFingerPrint (paPackage a) = f then Some a else assertions_Search as f)"

definition TrueLen :: "assertion list \<Rightarrow> nat" where
  "TrueLen as = length (filter paValue as)"

definition assertions_Drop :: "assertion list \<Rightarrow> default_package \<Rightarrow> assertion list" where
  "assertions_Drop as p = filter (\<lambda>a. \<not> Matches (paPackage a) p) as"

fun assertions_Cut :: "assertion list \<Rightarrow> default_package \<Rightarrow> assertion list" where
  "assertions_Cut [] p = []"
| "assertions_Cut (a # as) p =
     (if paValue a then (if Matches (paPackage a) p then [a] else a # assertions_Cut as p)
      else assertions_Cut as p)"

definition assertions_Mark :: "assertion list \<Rightarrow> default_package \<Rightarrow> assertion list" where
  "assertions_Mark as p = map (\<lambda>a. if Matches (paPackage a) p then a\<lparr>paPackage := Mark (paPackage a)\<rparr> else a) as"

text \<open>What is hashed; the hash itself is a parameter.\<close>

fun salted_text :: "assertion list \<Rightarrow> string gomap \<Rightarrow> string" where
  "salted_text [] salts = []"
| "salted_text (a # as) salts =
     (if paValue a then
        assertion_ToString a @
        (case gm_get salts (GetFingerPrint (paPackage a)) of Some salt \<Rightarrow> salt | None \<Rightarrow> []) @ [CHR 0x0A]
      else []) @ salted_text as salts"

definition SaltedAssertionHash :: "(string \<Rightarrow> string) \<Rightarrow> assertion list \<Rightarrow> string gomap \<Rightarrow> string" where
  "SaltedAssertionHash sha as salts = sha (salted_text as salts)"

text \<open>The salts are a map of the caller, which gets the salt of the marked package.\<close>

definition SaltedHashFrom ::
    "(string \<Rightarrow> string) \<Rightarrow> assertion list \<Rightarrow> default_package \<Rightarrow> string gomap \<Rightarrow> string \<times> string gomap" where
  "SaltedHashFrom sha as p salts =
     (let latestsolution = assertions_Drop as p
      in if TrueLen latestsolution = 0 then
           (let salts = (case gm_get salts (GetFingerPrint p) of
                           Some h \<Rightarrow> gm_set (GetFingerPrint (Mark p)) h salts | None \<Rightarrow> salts)
            in (SaltedAssertionHash sha (assertions_Mark as p) salts, salts))
         else (SaltedAssertionHash sha latestsolution salts, salts))"

definition HashFrom :: "(string \<Rightarrow> string) \<Rightarrow> assertion list \<Rightarrow> default_package \<Rightarrow> string" where
  "HashFrom sha as p = fst (SaltedHashFrom sha as p [])"

definition AssertionHash :: "(string \<Rightarrow> string) \<Rightarrow> assertion list \<Rightarrow> string" where
  "AssertionHash sha as = SaltedAssertionHash sha as []"

text \<open>A package that cannot be created is passed over.\<close>

fun create_all :: "sat_env \<Rightarrow> default_package list \<Rightarrow> mem_db \<Rightarrow> mem_db outcome" where
  "create_all E [] db = Ok db"
| "create_all E (p # ps) db =
     (case md_CreatePackage (seDb E) (seProvides E) p db of
        None \<Rightarrow> Fuel | Some (r, db) \<Rightarrow> create_all E ps db)"

definition ToDB :: "sat_env \<Rightarrow> assertion list \<Rightarrow> mem_db outcome" where
  "ToDB E as = create_all E (map paPackage (filter paValue as)) NewInMemoryDatabase"

section \<open>Helpers\<close>

definition inPackage :: "default_package list \<Rightarrow> default_package \<Rightarrow> bool" where
  "inPackage ps p = list_ex (\<lambda>l. AtomMatches l p) ps"

definition mergePackage :: "default_package list \<Rightarrow> default_package \<Rightarrow> default_package list" where
  "mergePackage ps p = (if list_ex (\<lambda>e. Matches e p) ps then ps else ps @ [p])"

text \<open>Sequencing of outcomes without a state, and over a list.\<close>

fun oseq :: "'a outcome \<Rightarrow> ('a \<Rightarrow> 'b outcome) \<Rightarrow> 'b outcome" where
  "oseq (Ok a) f = f a"
| "oseq (Err e) f = Err e"
| "oseq (Panic e) f = Panic e"
| "oseq Fuel f = Fuel"

fun omap :: "('a \<Rightarrow> 'b outcome) \<Rightarrow> 'a list \<Rightarrow> 'b list outcome" where
  "omap f [] = Ok []"
| "omap f (x # xs) = oseq (f x) (\<lambda>y. oseq (omap f xs) (\<lambda>ys. Ok (y # ys)))"

fun omap_st :: "('a \<Rightarrow> 's \<Rightarrow> 'b outcome \<times> 's) \<Rightarrow> 'a list \<Rightarrow> 's \<Rightarrow> 'b list outcome \<times> 's" where
  "omap_st f [] s = (Ok [], s)"
| "omap_st f (x # xs) s = obind (f x s) (\<lambda>y s. obind (omap_st f xs s) (\<lambda>ys s. (Ok (y # ys), s)))"

definition expand_in :: "db_env \<Rightarrow> queries \<Rightarrow> default_package \<Rightarrow> default_package list outcome" where
  "expand_in D Q p = oseq (quFinds Q p) (\<lambda>all. of_res (expand_filter D p all))"

text \<open>The best package; a nil package has no method that does not panic.\<close>

definition best_of :: "db_env \<Rightarrow> default_package list \<Rightarrow> default_package outcome" where
  "best_of D ps =
     (case Best (deLib D) (deSort D) ps of
        Panics e \<Rightarrow> Panic e
      | Returns None \<Rightarrow> Panic ''invalid memory address or nil pointer dereference''
      | Returns (Some p) \<Rightarrow> Ok p)"

definition find_or_best :: "db_env \<Rightarrow> queries \<Rightarrow> default_package \<Rightarrow> default_package outcome" where
  "find_or_best D Q pp =
     (case quFind Q pp of
        Err e \<Rightarrow> oseq (or_else (expand_in D Q pp) []) (\<lambda>packages. if packages = [] then Ok pp else best_of D packages)
      | r \<Rightarrow> r)"

definition getList :: "db_env \<Rightarrow> queries \<Rightarrow> default_package list \<Rightarrow> default_package list outcome" where
  "getList D Q lsp = omap (find_or_best D Q) lsp"

text \<open>Both \<open>noRulesWorld\<close> and \<open>noRulesInstalled\<close>.\<close>

definition noRules :: "queries \<Rightarrow> bool" where
  "noRules Q = list_all (\<lambda>p. \<not> (length (PackageConflicts p) \<noteq> 0 \<or> length (PackageRequires p) \<noteq> 0)) (quWorld Q)"

section \<open>Walks over the packages\<close>

fun walkPackage ::
      "db_env \<Rightarrow> queries \<Rightarrow> nat \<Rightarrow> default_package \<Rightarrow> string list \<Rightarrow> default_package list outcome \<times> string list"
  and walk_deps ::
      "db_env \<Rightarrow> queries \<Rightarrow> nat \<Rightarrow> default_package list \<Rightarrow> string list \<Rightarrow> default_package list outcome \<times> string list"
  and walk_found ::
      "db_env \<Rightarrow> queries \<Rightarrow> nat \<Rightarrow> default_package list \<Rightarrow> string list \<Rightarrow> default_package list outcome \<times> string list" where
  "walkPackage D Q 0 p visited = (Fuel, visited)"
| "walkPackage D Q (Suc n) p visited =
     (if HumanReadableString p \<in> set visited then (Ok [], visited)
      else
        obind (quRevdeps Q p, HumanReadableString p # visited) (\<lambda>(revdeps, e) visited.
        obind (walk_deps D Q n (PackageRequires p) visited) (\<lambda>ps visited.
        obind (walk_deps D Q n (PackageConflicts p) visited) (\<lambda>qs visited.
          (Ok (Unique (deOrder D) (revdeps @ (if \<not> IsSelector p then [p] else []) @ ps @ qs)), visited)))))"
| "walk_deps D Q n [] visited = (Ok [], visited)"
| "walk_deps D Q n (re # rs) visited =
     obind (or_else (expand_in D Q re) [], visited) (\<lambda>versions visited.
     obind (walk_found D Q n versions visited) (\<lambda>ps visited.
     obind (walk_deps D Q n rs visited) (\<lambda>qs visited. (Ok (ps @ qs), visited))))"
| "walk_found D Q n [] visited = (Ok [], visited)"
| "walk_found D Q n (r # rs) visited =
     obind (walkPackage D Q n r visited) (\<lambda>ps visited.
     obind (walk_found D Q n rs visited) (\<lambda>qs visited. (Ok (r # ps @ qs), visited)))"

definition Related :: "db_env \<Rightarrow> queries \<Rightarrow> nat \<Rightarrow> default_package \<Rightarrow> default_package list outcome" where
  "Related D Q n p = fst (walkPackage D Q n p [])"

fun scanRequires ::
      "db_env \<Rightarrow> queries \<Rightarrow> nat \<Rightarrow> default_package \<Rightarrow> default_package \<Rightarrow> string list \<Rightarrow> bool outcome \<times> string list"
  and scan_loop ::
      "db_env \<Rightarrow> queries \<Rightarrow> nat \<Rightarrow> default_package \<Rightarrow> default_package list \<Rightarrow> string list \<Rightarrow>
       bool outcome \<times> string list" where
  "scanRequires D Q 0 s pack visited = (Fuel, visited)"
| "scanRequires D Q (Suc n) s pack visited =
     (if HumanReadableString pack \<in> set visited then (Ok False, visited)
      else
        obind (or_else (quFind Q pack) pack, HumanReadableString pack # visited) (\<lambda>p visited.
          scan_loop D Q n s (PackageRequires p) visited))"
| "scan_loop D Q n s [] visited = (Ok False, visited)"
| "scan_loop D Q n s (re # rs) visited =
     (if Matches re s then (Ok True, visited)
      else
        obind (or_else (expand_in D Q re) [], visited) (\<lambda>packages visited.
          if list_ex (\<lambda>pa. Matches pa s) packages then (Ok True, visited)
          else obind (scanRequires D Q n s re visited) (\<lambda>contains visited.
            if contains then (Ok True, visited) else scan_loop D Q n s rs visited)))"

definition RequiresContains :: "db_env \<Rightarrow> queries \<Rightarrow> nat \<Rightarrow> default_package \<Rightarrow> default_package \<Rightarrow> bool outcome" where
  "RequiresContains D Q n pack s = fst (scanRequires D Q n s pack [])"

text \<open>\<open>Revdeps\<close> of a package does not remember what it has seen; None when it goes round in a circle.\<close>

fun package_Revdeps :: "default_package list \<Rightarrow> nat \<Rightarrow> default_package \<Rightarrow> default_package list option"
  and revdeps_world ::
      "default_package list \<Rightarrow> nat \<Rightarrow> default_package \<Rightarrow> default_package list \<Rightarrow> default_package list option"
  and revdeps_requires ::
      "default_package list \<Rightarrow> nat \<Rightarrow> default_package \<Rightarrow> default_package \<Rightarrow> default_package list \<Rightarrow>
       default_package list option" where
  "package_Revdeps world 0 p = None"
| "package_Revdeps world (Suc n) p = revdeps_world world n p world"
| "revdeps_world world n p [] = Some []"
| "revdeps_world world n p (w # ws) =
     (case (if Matches w p then Some [] else revdeps_requires world n p w (PackageRequires w)) of
        None \<Rightarrow> None
      | Some ps \<Rightarrow> map_option ((@) ps) (revdeps_world world n p ws))"
| "revdeps_requires world n p w [] = Some []"
| "revdeps_requires world n p w (re # rs) =
     (case (if Matches re p then map_option ((#) w) (package_Revdeps world n w) else Some []) of
        None \<Rightarrow> None
      | Some ps \<Rightarrow> map_option ((@) ps) (revdeps_requires world n p w rs))"

definition LabelDeps :: "default_package list \<Rightarrow> string \<Rightarrow> default_package list" where
  "LabelDeps world labelKey = filter (\<lambda>w. HasLabel w labelKey) world"

section \<open>Formulas of the solver\<close>

text \<open>A solver: its databases of definitions and of the packages installed.\<close>

record solver =
  slDefs :: queries
  slInstalled :: queries

definition new_state :: sat_state where
  "new_state = \<lparr>saVisited = [], saDb = NewInMemoryDatabase\<rparr>"

definition formulas_of ::
    "sat_config \<Rightarrow> queries \<Rightarrow> default_package list \<Rightarrow> sat_state \<Rightarrow> formula list outcome \<times> sat_state" where
  "formulas_of C Q ps s =
     obind (omap_st (\<lambda>p s. BuildFormula (scEnv C) Q (scFormulas C) p s) ps s) (\<lambda>fss s. (Ok (concat fss), s))"

definition BuildInstalled :: "sat_config \<Rightarrow> solver \<Rightarrow> sat_state \<Rightarrow> formula outcome \<times> sat_state" where
  "BuildInstalled C sv s =
     obind (omap (\<lambda>p. oseq (Related (scDb C) (slInstalled sv) (scFormulas C) p) (\<lambda>deps. Ok (p # deps)))
              (quWorld (slInstalled sv)), s) (\<lambda>pss s.
     obind (formulas_of C (slInstalled sv) (concat pss) s) (\<lambda>fs s. (Ok (FAnd fs), s)))"

definition BuildWorld :: "sat_config \<Rightarrow> solver \<Rightarrow> bool \<Rightarrow> sat_state \<Rightarrow> formula outcome \<times> sat_state" where
  "BuildWorld C sv includeInstalled s =
     obind (if includeInstalled then obind (BuildInstalled C sv s) (\<lambda>f s. (Ok [f], s)) else (Ok [], s)) (\<lambda>fs s.
     obind (formulas_of C (slDefs sv) (quWorld (slDefs sv)) s) (\<lambda>gs s. (Ok (FAnd (fs @ gs)), s)))"

definition BuildPartialWorld ::
    "sat_config \<Rightarrow> solver \<Rightarrow> default_package list \<Rightarrow> bool \<Rightarrow> sat_state \<Rightarrow> formula outcome \<times> sat_state" where
  "BuildPartialWorld C sv wanted includeInstalled s =
     obind (if includeInstalled then obind (BuildInstalled C sv s) (\<lambda>f s. (Ok [f], s)) else (Ok [], s)) (\<lambda>fs s.
     obind (omap (Related (scDb C) (slDefs sv) (scFormulas C)) wanted, s) (\<lambda>pss s.
     obind (formulas_of C (slDefs sv) (concat pss) s) (\<lambda>gs s.
       (Ok (if length (fs @ gs) \<noteq> 0 then FAnd (fs @ gs) else FTrue), s))))"

text \<open>The wanted packages, each with all the installed ones.\<close>

fun wanted_formulas ::
    "sat_env \<Rightarrow> default_package list \<Rightarrow> default_package list \<Rightarrow> sat_state \<Rightarrow> formula list outcome \<times> sat_state" where
  "wanted_formulas E installed [] s = (Ok [], s)"
| "wanted_formulas E installed (w # ws) s =
     obind (Encode E w s) (\<lambda>a s.
     obind (if length installed = 0 then (Ok [FVar a], s)
            else omap_st (\<lambda>i s. obind (Encode E i s) (\<lambda>b s. (Ok (FAnd [FVar a, FVar b]), s))) installed s) (\<lambda>fs s.
     obind (wanted_formulas E installed ws s) (\<lambda>gs s. (Ok (fs @ gs), s))))"

definition solver_BuildFormula ::
    "sat_config \<Rightarrow> solver \<Rightarrow> default_package list \<Rightarrow> sat_state \<Rightarrow> formula outcome \<times> sat_state" where
  "solver_BuildFormula C sv wanted s =
     obind (BuildWorld C sv False s) (\<lambda>r s.
     obind (wanted_formulas (scEnv C) (quWorld (slInstalled sv)) wanted s) (\<lambda>fs s.
       (Ok (FAnd (fs @ [r])), s)))"

text \<open>The model, or what the resolver makes of a formula that has none.\<close>

definition solve_formula :: "sat_config \<Rightarrow> formula \<Rightarrow> sat_state \<Rightarrow> assertion list outcome \<times> sat_state" where
  "solve_formula C f s =
     (case scSolve C f of
        None \<Rightarrow> (case scResolver C of Some resolve \<Rightarrow> (resolve f, s) | None \<Rightarrow> (Err ''Unsolvable'', s))
      | Some model \<Rightarrow> (DecodeModel (scDb C) model (saDb s), s))"

definition solver_Solve ::
    "sat_config \<Rightarrow> solver \<Rightarrow> default_package list \<Rightarrow> sat_state \<Rightarrow> assertion list outcome \<times> sat_state" where
  "solver_Solve C sv wanted s = obind (solver_BuildFormula C sv wanted s) (\<lambda>f s. solve_formula C f s)"

definition all_true :: "default_package list \<Rightarrow> assertion list" where
  "all_true ps = map (\<lambda>p. \<lparr>paPackage = p, paValue = True\<rparr>) ps"

definition RelaxedInstall ::
    "sat_config \<Rightarrow> solver \<Rightarrow> default_package list \<Rightarrow> sat_state \<Rightarrow> assertion list outcome \<times> sat_state" where
  "RelaxedInstall C sv c s =
     obind (getList (scDb C) (slDefs sv) c, s) (\<lambda>wanted s.
       if noRules (slDefs sv) then (Ok (all_true (quWorld (slInstalled sv)) @ all_true wanted), s)
       else solver_Solve C sv wanted s)"

section \<open>Conflicts\<close>

text \<open>The value is whether there are reverse requirements, and the error that names them.\<close>

definition solver_Conflicts ::
    "sat_config \<Rightarrow> solver \<Rightarrow> default_package \<Rightarrow> default_package list \<Rightarrow> (bool \<times> err option) outcome" where
  "solver_Conflicts C sv pack lsp =
     oseq (or_else (quFind (slDefs sv) pack) pack) (\<lambda>p.
     oseq (getList (scDb C) (slDefs sv) lsp) (\<lambda>ls.
       if noRules (slDefs sv) then Ok (False, None)
       else
         oseq (create_all (scEnv C) ls NewInMemoryDatabase) (\<lambda>temporarySet.
         oseq (quRevdeps (queries_of C temporarySet) p) (\<lambda>(revdeps, e).
           case e of
             Some e \<Rightarrow> Ok (False, Some (''error scanning revdeps: '' @ e))
           | None \<Rightarrow>
               Ok (length revdeps \<noteq> 0,
                 if revdeps = [] then None
                 else Some (concat (map (\<lambda>r. [CHR 0x0A] @ HumanReadableString r) revdeps)))))))"

definition ConflictsWith ::
    "sat_config \<Rightarrow> solver \<Rightarrow> default_package \<Rightarrow> default_package list \<Rightarrow> sat_state \<Rightarrow> bool outcome \<times> sat_state" where
  "ConflictsWith C sv pack lsp s =
     obind (or_else (quFind (slDefs sv) pack) pack, s) (\<lambda>p s.
     obind (getList (scDb C) (slDefs sv) lsp, s) (\<lambda>ls s.
       if noRules (slDefs sv) then (Ok False, s)
       else
         obind (Encode (scEnv C) p s) (\<lambda>a s.
         obind (BuildWorld C sv False s) (\<lambda>r s.
         obind (omap_st (\<lambda>i s. obind (Encode (scEnv C) i s) (\<lambda>b s. (Ok (FAnd [FVar b, r]), s)))
                  (filter (\<lambda>i. \<not> Matches i p) ls) s) (\<lambda>fs s.
           (Ok (scSolve C (FAnd (FAnd [FNot (FVar a), r] # fs)) = None), s))))))"

definition ConflictsWithInstalled ::
    "sat_config \<Rightarrow> solver \<Rightarrow> default_package \<Rightarrow> sat_state \<Rightarrow> bool outcome \<times> sat_state" where
  "ConflictsWithInstalled C sv p s = ConflictsWith C sv p (quWorld (slInstalled sv)) s"

section \<open>Removal\<close>

definition candidates_of :: "sat_config \<Rightarrow> solver \<Rightarrow> default_package list \<Rightarrow> default_package list outcome" where
  "candidates_of C sv packs = omap (find_or_best (scDb C) (slInstalled sv)) packs"

text \<open>A conflict ends the removal with its error; an error without a conflict does not.\<close>

fun conflicts_check :: "sat_config \<Rightarrow> solver \<Rightarrow> default_package list \<Rightarrow> unit outcome" where
  "conflicts_check C sv [] = Ok ()"
| "conflicts_check C sv (c # cs) =
     oseq (solver_Conflicts C sv c (quWorld (slInstalled sv))) (\<lambda>(conflicts, e).
       if conflicts then
         Err (''while searching for '' @ HumanReadableString c @ '' conflicts: '' @ (case e of Some e \<Rightarrow> e | None \<Rightarrow> []))
       else conflicts_check C sv cs)"

text \<open>Whether an installed package is kept: some candidate is another package and does not require it.\<close>

fun kept_by :: "sat_config \<Rightarrow> mem_db \<Rightarrow> default_package list \<Rightarrow> default_package \<Rightarrow> bool outcome" where
  "kept_by C db [] i = Ok False"
| "kept_by C db (c # cs) i =
     oseq (if \<not> Matches i c then
             oseq (RequiresContains (scDb C) (queries_of C db) (scFormulas C) c i) (\<lambda>contains. Ok (\<not> contains))
           else Ok False) (\<lambda>matched.
     oseq (kept_by C db cs i) (\<lambda>rest. Ok (matched \<or> rest)))"

definition minus_candidates ::
    "sat_config \<Rightarrow> solver \<Rightarrow> default_package list \<Rightarrow> mem_db \<Rightarrow> default_package list outcome" where
  "minus_candidates C sv cs db =
     oseq (omap (\<lambda>i. oseq (kept_by C db cs i) (\<lambda>k. Ok (i, k))) (quWorld (slInstalled sv))) (\<lambda>ks.
       Ok (map fst (filter snd ks)))"

text \<open>The packages of the assertions that can go.\<close>

fun removable ::
    "sat_config \<Rightarrow> solver \<Rightarrow> bool \<Rightarrow> default_package list \<Rightarrow> assertion list \<Rightarrow> sat_state \<Rightarrow>
     default_package list outcome \<times> sat_state" where
  "removable C sv checkconflicts kept [] s = (Ok [], s)"
| "removable C sv checkconflicts kept (a # as) s =
     obind (if \<not> paValue a then (Ok False, s)
            else if \<not> checkconflicts then (Ok True, s)
            else
              obind (ConflictsWithInstalled C sv (paPackage a) s) (\<lambda>c s.
                if \<not> c then (Ok True, s)
                else obind (ConflictsWith C sv (paPackage a) kept s) (\<lambda>c s. (Ok (\<not> c), s)))) (\<lambda>gone s.
     obind (removable C sv checkconflicts kept as s) (\<lambda>ps s.
       (Ok (if gone then paPackage a # ps else ps), s)))"

text \<open>
  The body both solvers share; \<open>install\<close> is the relaxed installation, by a solver with nothing installed,
  of the candidates over the installed packages.
\<close>

definition uninstall_with ::
    "sat_config \<Rightarrow> solver \<Rightarrow> (solver \<Rightarrow> default_package list \<Rightarrow> sat_state \<Rightarrow> assertion list outcome \<times> sat_state) \<Rightarrow>
     bool \<Rightarrow> bool \<Rightarrow> default_package list \<Rightarrow> sat_state \<Rightarrow> default_package list outcome \<times> sat_state" where
  "uninstall_with C sv install checkconflicts full toRemove s =
     (if \<not> full \<and> checkconflicts then (oseq (conflicts_check C sv toRemove) (\<lambda>_. Ok toRemove), s)
      else
        obind (minus_candidates C sv toRemove (saDb s), s) (\<lambda>kept s.
        obind (fst (install \<lparr>slDefs = slInstalled sv, slInstalled = queries_of C NewInMemoryDatabase\<rparr> toRemove
                 new_state), s) (\<lambda>asserts s.
          removable C sv checkconflicts kept asserts s)))"

definition solver_Uninstall ::
    "sat_config \<Rightarrow> solver \<Rightarrow> bool \<Rightarrow> bool \<Rightarrow> default_package list \<Rightarrow> sat_state \<Rightarrow>
     default_package list outcome \<times> sat_state" where
  "solver_Uninstall C sv checkconflicts full packs s =
     (if length packs = 0 then (Ok [], s)
      else obind (candidates_of C sv packs, s) (\<lambda>toRemove s.
        uninstall_with C sv (RelaxedInstall C) checkconflicts full toRemove s))"

section \<open>Upgrade\<close>

definition wants_upgrade :: "default_package list \<Rightarrow> default_package list \<Rightarrow> default_package \<Rightarrow> default_package \<Rightarrow> bool" where
  "wants_upgrade up notUp best p =
     (\<not> Matches best p \<and>
      ((length up = 0 \<and> length notUp = 0) \<or> (inPackage up p \<and> \<not> inPackage notUp p) \<or>
       (length up = 0 \<and> \<not> inPackage notUp p)))"

text \<open>The packages with a better version, to uninstall, and that version, to install.\<close>

fun upgrade_pairs ::
    "db_env \<Rightarrow> queries \<Rightarrow> default_package list \<Rightarrow> default_package list \<Rightarrow> default_package list \<Rightarrow>
     (default_package list \<times> default_package list) outcome" where
  "upgrade_pairs D universe up notUp [] = Ok ([], [])"
| "upgrade_pairs D universe up notUp (p # ps) =
     oseq (or_else (quVersions universe p) []) (\<lambda>packages.
     oseq (if packages = [] then Ok None else oseq (best_of D packages) (\<lambda>best. Ok (Some best))) (\<lambda>best.
     oseq (upgrade_pairs D universe up notUp ps) (\<lambda>(us, is).
       Ok (case best of
             Some best \<Rightarrow> if wants_upgrade up notUp best p then (p # us, best # is) else (us, is)
           | None \<Rightarrow> (us, is)))))"

definition copy_of :: "sat_env \<Rightarrow> default_package list \<Rightarrow> mem_db outcome" where
  "copy_of E ps = (case copy_db (seDb E) (seProvides E) ps of None \<Rightarrow> Fuel | Some (e, db) \<Rightarrow> Ok db)"

text \<open>With the copy of the installed packages; the new versions are looked up in a copy of the definitions.\<close>

definition computeUpgrade ::
    "sat_config \<Rightarrow> default_package list \<Rightarrow> default_package list \<Rightarrow> queries \<Rightarrow> mem_db \<Rightarrow>
     (default_package list \<times> default_package list \<times> mem_db) outcome" where
  "computeUpgrade C up notUp defs installDB =
     oseq (copy_of (scEnv C) (quWorld defs)) (\<lambda>universe.
     oseq (create_all (scEnv C) (md_World (scDb C) installDB) NewInMemoryDatabase) (\<lambda>installedcopy.
     oseq (upgrade_pairs (scDb C) (queries_of C universe) up notUp (md_World (scDb C) installDB)) (\<lambda>(us, is).
       Ok (us, is, installedcopy))))"

fun remove_all :: "default_package list \<Rightarrow> mem_db \<Rightarrow> mem_db" where
  "remove_all [] db = db"
| "remove_all (z # zs) db = remove_all zs (md_RemovePackage z db)"

text \<open>An error of the relaxed installation counts as no assertion until the end.\<close>

fun solver_upgrade ::
    "sat_config \<Rightarrow> solver \<Rightarrow> nat \<Rightarrow> default_package list \<Rightarrow> default_package list \<Rightarrow>
     default_package list \<Rightarrow> default_package list \<Rightarrow> mem_db \<Rightarrow> bool \<Rightarrow> sat_state \<Rightarrow>
     (default_package list \<times> assertion list) outcome \<times> sat_state" where
  "solver_upgrade C sv 0 psUp psNot up notUp installDB checkconflicts s = (Fuel, s)"
| "solver_upgrade C sv (Suc n) psUp psNot up notUp installDB checkconflicts s =
     obind (computeUpgrade C up notUp (slDefs sv) installDB, s) (\<lambda>(toUninstall, toInstall, installedcopy) s.
     obind (obind_err (solver_Uninstall C sv checkconflicts False (Unique (deOrder (scDb C)) toUninstall) s)
              (\<lambda>e s. (Err (''Could not compute upgrade - couldn't uninstall candidates : '' @ e), s)) (\<lambda>r s. (Ok r, s))) (\<lambda>r s.
       if length toInstall = 0 then (Ok (toUninstall, all_true (md_World (scDb C) installDB)), s)
       else
         (let found = fst (RelaxedInstall C \<lparr>slDefs = slDefs sv, slInstalled = queries_of C (remove_all r installedcopy)\<rparr>
                        (Unique (deOrder (scDb C)) toInstall) new_state)
          in obind (or_else found [], s) (\<lambda>assertions s.
             obind (ToDB (scEnv C) assertions, s) (\<lambda>wantedSystem s.
             let selected = map paPackage (filter (\<lambda>p. paValue p \<and> \<not> inPackage psUp (paPackage p)) assertions);
                 up' = (if length up > 0 then selected else []);
                 notUp' = (if length up > 0 then psNot else [])
             in obind (computeUpgrade C up' notUp' (slDefs sv) wantedSystem, s) (\<lambda>(_, toInstall, _) s.
                  if length toInstall > 0 then
                    obind (solver_upgrade C sv n psUp psNot up' notUp' wantedSystem checkconflicts s) (\<lambda>(_, as) s.
                      (Ok (toUninstall, as), s))
                  else obind (found, s) (\<lambda>as s. (Ok (toUninstall, as), s))))))))"

definition solver_Upgrade ::
    "sat_config \<Rightarrow> solver \<Rightarrow> nat \<Rightarrow> bool \<Rightarrow> sat_state \<Rightarrow> (default_package list \<times> assertion list) outcome \<times> sat_state" where
  "solver_Upgrade C sv n checkconflicts s =
     (case clone_db (scDb C) (seProvides (scEnv C)) (quWorld (slInstalled sv)) NewInMemoryDatabase of
        None \<Rightarrow> (Fuel, s)
      | Some (Some e, _) \<Rightarrow> (Err e, s)
      | Some (None, installedcopy) \<Rightarrow> solver_upgrade C sv n [] [] [] [] installedcopy checkconflicts s)"

section \<open>Installation\<close>

definition any_version :: "default_package \<Rightarrow> bool" where
  "any_version p = (pVersion p = ''>=0'' \<or> pVersion p = ''>0'')"

text \<open>The packages to upgrade: those asked for in any version, and those that come with the solution.\<close>

fun solution_upgrades ::
    "default_package list \<Rightarrow> default_package list \<Rightarrow> default_package list \<Rightarrow> default_package list \<Rightarrow> default_package list" where
  "solution_upgrades c notUp [] up = up"
| "solution_upgrades c notUp (p # ps) up =
     solution_upgrades c notUp ps
       (if \<not> inPackage c p \<and> \<not> inPackage up p \<and> \<not> inPackage notUp p then up @ [p] else up)"

definition solver_Install ::
    "sat_config \<Rightarrow> solver \<Rightarrow> nat \<Rightarrow> default_package list \<Rightarrow> sat_state \<Rightarrow> assertion list outcome \<times> sat_state" where
  "solver_Install C sv n c s =
     obind (RelaxedInstall C sv c s) (\<lambda>assertions s.
       let toNotUpgrade = filter (\<lambda>p. \<not> any_version p) c;
           toUpgrade = solution_upgrades c toNotUpgrade (map paPackage (filter paValue assertions)) (filter any_version c)
       in obind (ToDB (scEnv C) assertions, s) (\<lambda>systemAfterInstall s.
            if length toUpgrade = 0 then (Ok assertions, s)
            else
              obind (computeUpgrade C toUpgrade toNotUpgrade (slDefs sv) systemAfterInstall, s) (\<lambda>(toUninstall, _, _) s.
                if length toUninstall > 0 then
                  obind_err (solver_upgrade C sv n toUpgrade toNotUpgrade toUpgrade toNotUpgrade systemAfterInstall False s)
                    (\<lambda>e s. (Ok assertions, s))
                    (\<lambda>(_, newassertions) s.
                      (Ok (if length newassertions = 0 \<and> length assertions > 0 then assertions else newassertions), s))
                else (Ok assertions, s))))"

section \<open>The second solver\<close>

text \<open>One map of the packages visited for the whole world.\<close>

definition v2_formulas ::
    "sat_config \<Rightarrow> queries \<Rightarrow> default_package list \<Rightarrow> sat_state \<Rightarrow> formula list outcome \<times> sat_state" where
  "v2_formulas C Q ps s =
     obind (omap_st (\<lambda>p s. v2_buildFormula (scEnv C) Q (scFormulas C) p s) ps (s\<lparr>saVisited := []\<rparr>)) (\<lambda>fss s.
       (Ok (concat fss), s))"

fun merge_installed :: "default_package list \<Rightarrow> default_package list gomap \<Rightarrow> default_package list gomap" where
  "merge_installed [] m = m"
| "merge_installed (p # ps) m =
     merge_installed ps
       (gm_set (GetPackageName p)
         (case gm_get m (GetPackageName p) of Some val \<Rightarrow> mergePackage val p | None \<Rightarrow> [p]) m)"

definition v2_BuildInstalled :: "sat_config \<Rightarrow> solver \<Rightarrow> sat_state \<Rightarrow> formula outcome \<times> sat_state" where
  "v2_BuildInstalled C sv s =
     (let m = merge_installed (quWorld (slInstalled sv)) []
      in obind (v2_formulas C (slDefs sv) (concat (map snd (gm_range (deOrder (scDb C)) m))) s) (\<lambda>fs s.
           (Ok (FAnd fs), s)))"

definition v2_BuildWorld :: "sat_config \<Rightarrow> solver \<Rightarrow> bool \<Rightarrow> sat_state \<Rightarrow> formula outcome \<times> sat_state" where
  "v2_BuildWorld C sv includeInstalled s =
     obind (if includeInstalled then obind (v2_BuildInstalled C sv s) (\<lambda>f s. (Ok [f], s)) else (Ok [], s)) (\<lambda>fs s.
     obind (v2_formulas C (slDefs sv) (quWorld (slDefs sv)) s) (\<lambda>gs s. (Ok (FAnd (fs @ gs)), s)))"

definition v2_BuildFormula ::
    "sat_config \<Rightarrow> solver \<Rightarrow> default_package list \<Rightarrow> sat_state \<Rightarrow> formula outcome \<times> sat_state" where
  "v2_BuildFormula C sv wanted s =
     obind (v2_BuildWorld C sv False s) (\<lambda>r s.
     obind (wanted_formulas (scEnv C) (quWorld (slInstalled sv)) wanted s) (\<lambda>fs s.
       (Ok (FAnd (fs @ [r])), s)))"

definition v2_Solve ::
    "sat_config \<Rightarrow> solver \<Rightarrow> default_package list \<Rightarrow> sat_state \<Rightarrow> assertion list outcome \<times> sat_state" where
  "v2_Solve C sv wanted s = obind (v2_BuildFormula C sv wanted s) (\<lambda>f s. solve_formula C f s)"

definition v2_relaxedInstall ::
    "sat_config \<Rightarrow> solver \<Rightarrow> default_package list \<Rightarrow> sat_state \<Rightarrow> assertion list outcome \<times> sat_state" where
  "v2_relaxedInstall C sv wanted s =
     (if noRules (slDefs sv) then (Ok (all_true (quWorld (slInstalled sv)) @ all_true wanted), s)
      else v2_Solve C sv wanted s)"

definition v2_RelaxedInstall ::
    "sat_config \<Rightarrow> solver \<Rightarrow> default_package list \<Rightarrow> sat_state \<Rightarrow> assertion list outcome \<times> sat_state" where
  "v2_RelaxedInstall C sv c s =
     obind (getList (scDb C) (slDefs sv) c, s) (\<lambda>coll s. v2_relaxedInstall C sv coll s)"

definition computeUpgradeNew ::
    "sat_config \<Rightarrow> solver \<Rightarrow> default_package list \<Rightarrow> default_package list \<Rightarrow>
     (default_package list \<times> default_package list) outcome" where
  "computeUpgradeNew C sv up notUp = upgrade_pairs (scDb C) (slDefs sv) up notUp (quWorld (slInstalled sv))"

definition v2_Uninstall ::
    "sat_config \<Rightarrow> solver \<Rightarrow> bool \<Rightarrow> bool \<Rightarrow> default_package list \<Rightarrow> sat_state \<Rightarrow>
     default_package list outcome \<times> sat_state" where
  "v2_Uninstall C sv checkconflicts full packs s =
     (if length packs = 0 then (Ok [], s)
      else obind (candidates_of C sv packs, s) (\<lambda>toRemove s.
        uninstall_with C sv (v2_relaxedInstall C) checkconflicts full toRemove s))"

text \<open>The system reached is upgraded by a solver of its own.\<close>

fun v2_upgrade ::
    "sat_config \<Rightarrow> nat \<Rightarrow> solver \<Rightarrow> default_package list \<Rightarrow> default_package list \<Rightarrow> bool \<Rightarrow> sat_state \<Rightarrow>
     (default_package list \<times> assertion list) outcome \<times> sat_state" where
  "v2_upgrade C 0 sv psUp psNot checkconflicts s = (Fuel, s)"
| "v2_upgrade C (Suc n) sv psUp psNot checkconflicts s =
     (case clone_db (scDb C) (seProvides (scEnv C)) (quWorld (slInstalled sv)) NewInMemoryDatabase of
        None \<Rightarrow> (Fuel, s)
      | Some (Some e, _) \<Rightarrow> (Err e, s)
      | Some (None, installedcopy) \<Rightarrow>
          obind (computeUpgradeNew C sv psUp psNot, s) (\<lambda>(toUninstall, toInstall) s.
            if length toUninstall = 0 \<and> length toInstall = 0 then (Ok ([], []), s)
            else
              obind (obind_err (uninstall_with C sv (v2_relaxedInstall C) checkconflicts False toUninstall s)
                       (\<lambda>e s. (Err (''Could not compute upgrade - couldn't uninstall candidates: '' @ e), s))
                       (\<lambda>r s. (Ok r, s))) (\<lambda>r s.
                if length toInstall = 0 then (Ok (toUninstall, all_true (quWorld (slInstalled sv))), s)
                else
                  (let found = fst (v2_relaxedInstall C
                                 \<lparr>slDefs = slDefs sv, slInstalled = queries_of C (remove_all r installedcopy)\<rparr>
                                 (Unique (deOrder (scDb C)) toInstall) new_state)
                   in obind (or_else found [], s) (\<lambda>assertions s.
                      obind (ToDB (scEnv C) assertions, s) (\<lambda>wantedSystem s.
                      let solvInstall = \<lparr>slDefs = slDefs sv, slInstalled = queries_of C wantedSystem\<rparr>;
                          selected = map paPackage (filter (\<lambda>p. paValue p \<and> \<not> inPackage psUp (paPackage p)) assertions)
                      in obind (if length psNot > 0 then computeUpgradeNew C solvInstall selected psNot
                                else computeUpgradeNew C solvInstall [] [], s) (\<lambda>(_, toInstall) s.
                           if length toInstall > 0 then
                             obind (fst (v2_upgrade C n solvInstall psUp psNot checkconflicts new_state), s) (\<lambda>(_, as) s.
                               (Ok (toUninstall, as), s))
                           else obind (found, s) (\<lambda>as s. (Ok (toUninstall, as), s)))))))))"

definition v2_Upgrade ::
    "sat_config \<Rightarrow> nat \<Rightarrow> solver \<Rightarrow> bool \<Rightarrow> sat_state \<Rightarrow> (default_package list \<times> assertion list) outcome \<times> sat_state" where
  "v2_Upgrade C n sv checkconflicts s = v2_upgrade C n sv [] [] checkconflicts s"

text \<open>The upgrade is that of the installed packages: the system after the installation is built and not used.\<close>

definition v2_Install ::
    "sat_config \<Rightarrow> nat \<Rightarrow> solver \<Rightarrow> default_package list \<Rightarrow> sat_state \<Rightarrow> assertion list outcome \<times> sat_state" where
  "v2_Install C n sv c s =
     obind (v2_RelaxedInstall C sv c s) (\<lambda>assertions s.
       let toNotUpgrade = filter (\<lambda>p. \<not> any_version p) c;
           toUpgrade = solution_upgrades c toNotUpgrade (map paPackage (filter paValue assertions)) (filter any_version c)
       in obind (ToDB (scEnv C) assertions, s) (\<lambda>systemAfterInstall s.
            if length toUpgrade = 0 then (Ok assertions, s)
            else
              obind (computeUpgradeNew C sv toUpgrade toNotUpgrade, s) (\<lambda>(toUninstall, _) s.
                if length toUninstall > 0 then
                  obind_err (v2_upgrade C n sv toUpgrade toNotUpgrade False s)
                    (\<lambda>e s. (Ok assertions, s))
                    (\<lambda>(_, newassertions) s.
                      (Ok (if length newassertions = 0 \<and> length assertions > 0 then assertions else newassertions), s))
                else (Ok assertions, s))))"

end
