(* ===== verification/Universe.thy ===== *)
theory Universe
  imports SatSolver
begin

text \<open>
  What the solver by formulas does with whole worlds, \<open>pkg/solver\<close>: the order of the assertions of a
  solution (\<open>decoder.go\<close>), and \<open>UninstallUniverse\<close> and \<open>UpgradeUniverse\<close> (\<open>solver.go\<close>).  The graph and
  its topological sort are those of the vendored \<open>mudler/topsort\<close>.
\<close>

section \<open>Topological sort\<close>

type_synonym graph = "string list gomap"

definition AddNode :: "string \<Rightarrow> graph \<Rightarrow> graph" where
  "AddNode name g = (if gm_has g name then g else gm_set name [] g)"

text \<open>An edge between names that are no nodes is an error, which the callers drop.\<close>

definition AddEdge :: "string \<Rightarrow> string \<Rightarrow> graph \<Rightarrow> err option \<times> graph" where
  "AddEdge from to g =
     (case gm_get g from of
        None \<Rightarrow> (Some (''Node '' @ from @ '' not found''), g)
      | Some es \<Rightarrow>
          if \<not> gm_has g to then (Some (''Node '' @ to @ '' not found''), g)
          else (None, gm_set from (if to \<in> set es then es else es @ [to]) g))"

definition edges :: "graph \<Rightarrow> string \<Rightarrow> string list" where
  "edges g name = (case gm_get g name of None \<Rightarrow> [] | Some es \<Rightarrow> sort es)"

definition cycle_err :: "string \<Rightarrow> string list \<Rightarrow> err" where
  "cycle_err name visited = ''Cycle error: '' @ Join (dropWhile (\<lambda>x. x \<noteq> name) visited @ [name]) '' -> ''"

definition ordered_add :: "string \<Rightarrow> string list \<Rightarrow> string list" where
  "ordered_add x xs = (if x \<in> set xs then xs else xs @ [x])"

function (sequential) visit :: "graph \<Rightarrow> string \<Rightarrow> string list \<Rightarrow> string list \<Rightarrow> string list res"
  and visit_all :: "graph \<Rightarrow> string list \<Rightarrow> string list \<Rightarrow> string list \<Rightarrow> string list res" where
  "visit g name results visited =
     (if name \<in> set visited then Inl (cycle_err name visited)
      else case visit_all g (edges g name) results (visited @ [name]) of
        Inl e \<Rightarrow> Inl e
      | Inr results \<Rightarrow> Inr (ordered_add name results))"
| "visit_all g [] results visited = Inr results"
| "visit_all g (edge # es) results visited =
     (case visit g edge results visited of
        Inl e \<Rightarrow> Inl e
      | Inr results \<Rightarrow> visit_all g es results visited)"
  by pat_completeness auto

text \<open>Each name on the path is a node not yet on it, or has no edges.\<close>

termination
proof (relation "measures
    [\<lambda>x. case x of Inl (g, name, results, visited) \<Rightarrow> card (fst ` set g - set visited)
                 | Inr (g, es, results, visited) \<Rightarrow> card (fst ` set g - set visited),
     \<lambda>x. case x of Inl _ \<Rightarrow> 1 | Inr (g, es, results, visited) \<Rightarrow> (if es = [] then 0 else length es + 1)]",
    goal_cases)
  case (2 g name results visited)
  show ?case
  proof (cases "name \<in> fst ` set g")
    case True
    have "card (fst ` set g - set (visited @ [name])) < card (fst ` set g - set visited)"
      by (rule psubset_card_mono) (use True 2 in auto)
    then show ?thesis by simp
  next
    case False
    then have "gm_get g name = None" by (simp add: map_of_eq_None_iff)
    moreover have "fst ` set g - insert name (set visited) = fst ` set g - set visited" using False by auto
    ultimately show ?thesis by (simp add: edges_def)
  qed
qed auto

definition TopSort :: "graph \<Rightarrow> string \<Rightarrow> string list res" where
  "TopSort g name = visit g name [] []"

section \<open>The order of the assertions\<close>

text \<open>The order of the names (of ASCII letters), by letters without case first; a name and its prefix are not ordered.\<close>

definition rune_ToLower :: "char \<Rightarrow> char" where
  "rune_ToLower c = (if CHR ''A'' \<le> c \<and> c \<le> CHR ''Z'' then char_of (of_char c + 32 :: nat) else c)"

fun name_less :: "string \<Rightarrow> string \<Rightarrow> bool" where
  "name_less (c # cs) (d # ds) =
     (if rune_ToLower c \<noteq> rune_ToLower d then rune_ToLower c < rune_ToLower d
      else if c \<noteq> d then c < d else name_less cs ds)"
| "name_less _ _ = False"

definition assertion_Less :: "assertion \<Rightarrow> assertion \<Rightarrow> bool" where
  "assertion_Less a b = name_less (pName (paPackage a)) (pName (paPackage b))"

text \<open>What a requirement stands for: the definition found for it, then the assertion of its name.\<close>

definition required_def :: "queries \<Rightarrow> assertion list \<Rightarrow> default_package \<Rightarrow> default_package outcome" where
  "required_def Q as r =
     oseq (or_else (quFind Q r) r) (\<lambda>d.
       Ok (case SearchByName as (GetPackageName d) of Some a \<Rightarrow> paPackage a | None \<Rightarrow> d))"

text \<open>\<open>added\<close> are the requirements already seen.\<close>

fun requires_edges ::
    "queries \<Rightarrow> assertion list \<Rightarrow> string \<Rightarrow> default_package list \<Rightarrow> string list \<Rightarrow> graph \<Rightarrow> graph outcome" where
  "requires_edges Q as f [] added g = Ok g"
| "requires_edges Q as f (r # rs) added g =
     oseq (required_def Q as r) (\<lambda>d.
       if GetFingerPrint d \<in> set added then requires_edges Q as f rs added g
       else requires_edges Q as f rs (GetFingerPrint d # added) (snd (AddEdge f (GetFingerPrint d) g)))"

fun assertions_edges :: "queries \<Rightarrow> assertion list \<Rightarrow> assertion list \<Rightarrow> graph \<Rightarrow> graph outcome" where
  "assertions_edges Q as [] g = Ok g"
| "assertions_edges Q as (a # bs) g =
     oseq (requires_edges Q as (GetFingerPrint (paPackage a)) (PackageRequires (paPackage a)) [] g)
       (\<lambda>g. assertions_edges Q as bs g)"

fun add_nodes :: "assertion list \<Rightarrow> graph \<Rightarrow> graph" where
  "add_nodes [] g = g"
| "add_nodes (a # as) g = add_nodes as (AddNode (GetFingerPrint (paPackage a)) g)"

fun by_fingerprint :: "assertion list \<Rightarrow> assertion gomap \<Rightarrow> assertion gomap" where
  "by_fingerprint [] m = m"
| "by_fingerprint (a # as) m = by_fingerprint as (gm_set (GetFingerPrint (paPackage a)) a m)"

definition assertions_Order ::
    "((assertion \<Rightarrow> assertion \<Rightarrow> bool) \<Rightarrow> assertion list \<Rightarrow> assertion list) \<Rightarrow>
     queries \<Rightarrow> assertion list \<Rightarrow> string \<Rightarrow> assertion list outcome" where
  "assertions_Order srt Q as fingerprint =
     oseq (assertions_edges Q as (srt assertion_Less as) (add_nodes as [])) (\<lambda>g.
       case TopSort g fingerprint of
         Inl e \<Rightarrow> Err (''fail on sorting '' @ fingerprint @ '': '' @ e)
       | Inr result \<Rightarrow> Ok (List.map_filter (\<lambda>f. gm_get (by_fingerprint as []) f) result))"

section \<open>Removal from the world\<close>

fun wrapped :: "string \<Rightarrow> 'a outcome \<Rightarrow> 'a outcome" where
  "wrapped m (Err e) = Err (m @ '': '' @ e)"
| "wrapped m r = r"

text \<open>For each package, that it is absent and what else has to hold.\<close>

fun absent_formulas ::
    "sat_env \<Rightarrow> formula \<Rightarrow> default_package list \<Rightarrow> sat_state \<Rightarrow> formula list outcome \<times> sat_state" where
  "absent_formulas E r [] u = (Ok [], u)"
| "absent_formulas E r (p # ps) u =
     obind (Encode E p u) (\<lambda>a u.
     obind (absent_formulas E r ps u) (\<lambda>fs u. (Ok (FAnd [FNot (FVar a), r] # fs), u)))"

text \<open>The packages of the assertions that do not hold, where they are installed.\<close>

fun marked_for_removal :: "queries \<Rightarrow> assertion list \<Rightarrow> default_package list outcome" where
  "marked_for_removal Q [] = Ok []"
| "marked_for_removal Q (a # as) =
     (if \<not> paValue a then
        (case quFind Q (paPackage a) of
           Ok p \<Rightarrow> oseq (marked_for_removal Q as) (\<lambda>ps. Ok (p # ps))
         | Err e \<Rightarrow> marked_for_removal Q as
         | Panic e \<Rightarrow> Panic e | Fuel \<Rightarrow> Fuel)
      else marked_for_removal Q as)"

text \<open>A database of installed packages in memory, in which the packages to remove are encoded.\<close>

definition db_state :: "mem_db \<Rightarrow> sat_state" where
  "db_state db = \<lparr>saVisited = [], saDb = db\<rparr>"

definition UninstallUniverse ::
    "sat_config \<Rightarrow> mem_db \<Rightarrow> default_package list \<Rightarrow> sat_state \<Rightarrow> default_package list outcome \<times> sat_state" where
  "UninstallUniverse C idb toremove s =
     (let D = scDb C; Q = queries_of C idb; sv = \<lparr>slDefs = Q, slInstalled = Q\<rparr>
      in if noRules Q then (getList D Q toremove, s)
         else
           obind (wrapped ''Package not found in definition db'' (getList D Q toremove), s) (\<lambda>toRemove s.
           obind (map_prod (wrapped ''Package not found in definition db'') id (BuildInstalled C sv s)) (\<lambda>r s.
             (case absent_formulas (scEnv C) r (Unique (deOrder D) toRemove) (db_state idb) of (fs, u) \<Rightarrow>
                oseq (wrapped ''Package not found in definition db'' fs) (\<lambda>fs.
                  case scSolve C (FAnd fs) of
                    None \<Rightarrow> Err ''Failed finding a solution''
                  | Some model \<Rightarrow>
                      oseq (wrapped ''while decoding model from solution'' (DecodeModel D model (saDb u)))
                        (marked_for_removal (queries_of C (saDb u)))), s))))"

section \<open>Upgrade of the world\<close>

text \<open>
  The installed packages: those without a definition, and those with a better one.  The range over the
  replacements, a map from pointers, is in the order of \<open>shuffle\<close>.
\<close>

fun universe_pairs ::
    "db_env \<Rightarrow> queries \<Rightarrow> default_package list \<Rightarrow>
     (default_package list \<times> (default_package \<times> default_package) list) outcome" where
  "universe_pairs D Q [] = Ok ([], [])"
| "universe_pairs D Q (p # ps) =
     oseq (or_else (quVersions Q p) []) (\<lambda>available.
     oseq (if available = [] then Ok None else oseq (best_of D available) (\<lambda>best. Ok (Some best))) (\<lambda>best.
     oseq (universe_pairs D Q ps) (\<lambda>(removed, replacements).
       Ok (case best of
             None \<Rightarrow> (p # removed, replacements)
           | Some best \<Rightarrow> if \<not> Matches best p then (removed, (p, best) # replacements) else (removed, replacements)))))"

text \<open>The two databases: the universe, where packages are encoded, and the solver's.\<close>

fun replace_formulas ::
    "sat_config \<Rightarrow> queries \<Rightarrow> (default_package \<times> default_package) list \<Rightarrow> sat_state \<Rightarrow> sat_state \<Rightarrow>
     formula list outcome \<times> sat_state \<times> sat_state" where
  "replace_formulas C Q [] u s = (Ok [], u, s)"
| "replace_formulas C Q ((old, new) # rs) u s =
     (case Encode (scEnv C) old u of
        (Ok a, u) \<Rightarrow>
         (case Encode (scEnv C) new u of
            (Ok b, u) \<Rightarrow>
             (case BuildFormula (scEnv C) Q (scFormulas C) new s of (r, s) \<Rightarrow>
               (case or_else r [] of
                  Ok gs \<Rightarrow>
                   (case replace_formulas C Q rs u s of
                      (Ok fs, us) \<Rightarrow> (Ok (FAnd [FNot (FVar a), FAnd (gs @ [FVar b])] # fs), us)
                    | r \<Rightarrow> r)
                | Err e \<Rightarrow> (Err e, u, s) | Panic e \<Rightarrow> (Panic e, u, s) | Fuel \<Rightarrow> (Fuel, u, s)))
          | (r, u) \<Rightarrow> (oseq (wrapped ''couldn't encode package'' r) (\<lambda>_. Ok []), u, s))
      | (r, u) \<Rightarrow> (oseq (wrapped ''couldn't encode package'' r) (\<lambda>_. Ok []), u, s))"

text \<open>The formulas, and the universe they are decoded with.\<close>

definition universe_formulas ::
    "sat_config \<Rightarrow> ((default_package \<times> default_package) list \<Rightarrow> (default_package \<times> default_package) list) \<Rightarrow>
     solver \<Rightarrow> bool \<Rightarrow> mem_db \<Rightarrow> sat_state \<Rightarrow> (formula list \<times> mem_db) outcome \<times> sat_state" where
  "universe_formulas C shuffle sv dropremoved universe s =
     (let D = scDb C
      in obind (universe_pairs D (slDefs sv) (quWorld (slInstalled sv)), s) (\<lambda>(removed, replacements) s.
         obind (map_prod (wrapped ''couldn't build world constraints'') id (BuildWorld C sv True s)) (\<lambda>r s.
           (case (if dropremoved then absent_formulas (scEnv C) r (Unique (deOrder D) removed) (db_state universe)
                  else (Ok [], db_state universe)) of (fs, u) \<Rightarrow>
              obind (wrapped ''couldn't encode package'' fs, s) (\<lambda>fs s.
                (case replace_formulas C (slDefs sv) (shuffle replacements) u s of (gs, u, s) \<Rightarrow>
                   (oseq gs (\<lambda>gs. Ok (fs @ gs, saDb u)), s)))))))"

definition UpgradeUniverse ::
    "sat_config \<Rightarrow> ((default_package \<times> default_package) list \<Rightarrow> (default_package \<times> default_package) list) \<Rightarrow>
     solver \<Rightarrow> bool \<Rightarrow> sat_state \<Rightarrow> (default_package list \<times> assertion list) outcome \<times> sat_state" where
  "UpgradeUniverse C shuffle sv dropremoved s =
     (case copy_db (scDb C) (seProvides (scEnv C)) (quWorld (slDefs sv)) of
        None \<Rightarrow> (Fuel, s)
      | Some (Some e, _) \<Rightarrow> (Err (''Failed copying db: '' @ e), s)
      | Some (None, universe) \<Rightarrow>
         obind (create_all (scEnv C) (quWorld (slInstalled sv)) universe, s) (\<lambda>universe s.
         obind (universe_formulas C shuffle sv dropremoved universe s) (\<lambda>(fs, udb) s.
           (if fs = [] then Ok ([], [])
            else case scSolve C (FAnd fs) of
              None \<Rightarrow> Err ''Failed finding a solution''
            | Some model \<Rightarrow>
                oseq (wrapped ''while decoding model from solution'' (DecodeModel (scDb C) model udb)) (\<lambda>as.
                oseq (marked_for_removal (slInstalled sv) as) (\<lambda>removal. Ok (removal, as))), s))))"

end
