(* ===== verification/BuildRepos.thy ===== *)
theory BuildRepos
  imports Universe Manager
begin

text \<open>
  The repositories of \<open>luet-build\<close>'s installer, \<open>luet-build/pkg/installer/repository.go\<close>: the one world of
  several repositories, the packages found in them by priority, the candidates of selectors and the
  searches.  A repository has its packages in memory (\<open>brTree\<close>) and the index of its artifacts.

  \<open>sort.Sort\<close> puts the slice of the repositories in order in place, so what it sorted is returned.
\<close>

text \<open>The compilation spec of an artifact, and the package of the spec, may be nil.\<close>

record pkg_artifact =
  baSpec :: "default_package option option"
  baFiles :: "string list"
  baPath :: string

record build_repo =
  brName :: string
  brPriority :: int
  brCached :: bool
  brTree :: mem_db
  brIndex :: "pkg_artifact list"

type_synonym repositories = "build_repo list"

definition repo_Less :: "build_repo \<Rightarrow> build_repo \<Rightarrow> bool" where
  "repo_Less r s = (brPriority r < brPriority s)"

type_synonym repo_sort = "(build_repo \<Rightarrow> build_repo \<Rightarrow> bool) \<Rightarrow> build_repo list \<Rightarrow> build_repo list"

definition nil_deref :: string where
  "nil_deref = ''invalid memory address or nil pointer dereference''"

section \<open>Artifacts\<close>

definition spec_package :: "pkg_artifact \<Rightarrow> default_package outcome" where
  "spec_package a = (case baSpec a of Some (Some p) \<Rightarrow> Ok p | _ \<Rightarrow> Panic nil_deref)"

text \<open>Nil when no artifact is found, an error the callers drop.\<close>

fun SearchArtefact :: "pkg_artifact list \<Rightarrow> default_package \<Rightarrow> pkg_artifact option outcome" where
  "SearchArtefact [] p = Ok None"
| "SearchArtefact (a # as) p =
     oseq (spec_package a) (\<lambda>q. if Matches q p then Ok (Some a) else SearchArtefact as p)"

text \<open>A package of an artifact without one is a nil pointer in the result.\<close>

fun file_matches :: "(string \<Rightarrow> bool) \<Rightarrow> pkg_artifact list \<Rightarrow> default_package option list outcome" where
  "file_matches re [] = Ok []"
| "file_matches re (a # as) =
     (if list_ex re (baFiles a) then
        (case baSpec a of
           None \<Rightarrow> Panic nil_deref
         | Some p \<Rightarrow> oseq (file_matches re as) (\<lambda>ps. Ok (p # ps)))
      else file_matches re as)"

definition repo_FileSearch :: "rx \<Rightarrow> build_repo \<Rightarrow> string \<Rightarrow> default_package option list outcome" where
  "repo_FileSearch R r pattern =
     (case R pattern of None \<Rightarrow> Err ''error parsing regexp'' | Some re \<Rightarrow> file_matches re (brIndex r))"

section \<open>The world of the repositories\<close>

fun cache_world :: "default_package list \<Rightarrow> default_package gomap \<Rightarrow> default_package gomap" where
  "cache_world [] m = m"
| "cache_world (p # ps) m = cache_world ps (gm_set (GetFingerPrint p) p m)"

definition repo_World :: "sat_config \<Rightarrow> build_repo \<Rightarrow> default_package list" where
  "repo_World C r = md_World (scDb C) (brTree r)"

definition repositories_World :: "sat_config \<Rightarrow> repositories \<Rightarrow> default_package list" where
  "repositories_World C re =
     map snd (gm_range (deOrder (scDb C)) (cache_world (concat (map (repo_World C) (rev re))) []))"

text \<open>From the last repository to the first, each fingerprint once.\<close>

fun sync_packages :: "sat_env \<Rightarrow> default_package list \<Rightarrow> string list \<Rightarrow> mem_db \<Rightarrow> mem_db outcome" where
  "sync_packages E [] cache d = Ok d"
| "sync_packages E (p # ps) cache d =
     (if GetFingerPrint p \<in> set cache then sync_packages E ps cache d
      else
        (case md_CreatePackage (seDb E) (seProvides E) p d of
           None \<Rightarrow> Fuel
         | Some (r, d) \<Rightarrow> sync_packages E ps (GetFingerPrint p # cache) d))"

definition SyncDatabase :: "sat_config \<Rightarrow> repositories \<Rightarrow> mem_db \<Rightarrow> mem_db outcome" where
  "SyncDatabase C re d = sync_packages (scEnv C) (concat (map (repo_World C) (rev re))) [] d"

section \<open>Matches\<close>

record pkg_match =
  pmRepo :: build_repo
  pmArtifact :: "pkg_artifact option"
  pmPackage :: default_package

text \<open>The first repository that has the package.\<close>

fun match_in :: "sat_config \<Rightarrow> repositories \<Rightarrow> default_package \<Rightarrow> pkg_match option outcome" where
  "match_in C [] p = Ok None"
| "match_in C (r # rs) p =
     (case quFind (queries_of C (brTree r)) p of
        Ok c \<Rightarrow>
          oseq (SearchArtefact (brIndex r) p) (\<lambda>a. Ok (Some \<lparr>pmRepo = r, pmArtifact = a, pmPackage = c\<rparr>))
      | Err e \<Rightarrow> match_in C rs p
      | Panic e \<Rightarrow> Panic e | Fuel \<Rightarrow> Fuel)"

fun matches_in :: "sat_config \<Rightarrow> repositories \<Rightarrow> default_package list \<Rightarrow> pkg_match list outcome" where
  "matches_in C re [] = Ok []"
| "matches_in C re (p # ps) =
     oseq (match_in C re p) (\<lambda>m.
     oseq (matches_in C re ps) (\<lambda>ms. Ok ((case m of None \<Rightarrow> [] | Some m \<Rightarrow> [m]) @ ms)))"

definition PackageMatches ::
    "sat_config \<Rightarrow> repo_sort \<Rightarrow> repositories \<Rightarrow> default_package list \<Rightarrow> pkg_match list outcome \<times> repositories" where
  "PackageMatches C srt re ps = (let re = srt repo_Less re in (matches_in C re ps, re))"

text \<open>
  A selector is replaced by the candidate of the first repository that has one (a nil candidate is a
  panic where it is used); any other package is appended once for each repository.
\<close>

fun resolve_in :: "sat_config \<Rightarrow> repositories \<Rightarrow> default_package \<Rightarrow> default_package list outcome" where
  "resolve_in C [] pack = Ok []"
| "resolve_in C (r # rs) pack =
     (if IsSelector pack then
        (case md_FindPackageCandidate (scDb C) (seProvides (scEnv C)) (brTree r) pack of
           None \<Rightarrow> Fuel
         | Some (c, Some e) \<Rightarrow> resolve_in C rs pack
         | Some (Some c, None) \<Rightarrow> Ok [c]
         | Some (None, None) \<Rightarrow> Panic nil_deref)
      else oseq (resolve_in C rs pack) (\<lambda>ps. Ok (pack # ps)))"

definition ResolveSelectors ::
    "sat_config \<Rightarrow> repo_sort \<Rightarrow> repositories \<Rightarrow> default_package list \<Rightarrow> default_package list outcome \<times> repositories" where
  "ResolveSelectors C srt re ps =
     (let re = srt repo_Less re in (oseq (omap (resolve_in C re) ps) (\<lambda>pss. Ok (concat pss)), re))"

section \<open>Searches\<close>

datatype search_mode = SRegexPkg | SLabel | SRegexLabel | FileSearch

definition db_search :: "err option \<times> default_package list \<Rightarrow> default_package option list outcome" where
  "db_search r = (case r of (Some e, ps) \<Rightarrow> Err e | (None, ps) \<Rightarrow> Ok (map Some ps))"

definition repo_search :: "sat_config \<Rightarrow> rx \<Rightarrow> search_mode \<Rightarrow> string \<Rightarrow> build_repo \<Rightarrow> default_package option list outcome" where
  "repo_search C R t p r =
     (let D = scDb C; db = brTree r
      in case t of
           SRegexPkg \<Rightarrow> (case md_FindPackageMatch D R p db of Panics e \<Rightarrow> Panic e | Returns r \<Rightarrow> db_search r)
         | SLabel \<Rightarrow> db_search (md_FindPackageLabel D p db)
         | SRegexLabel \<Rightarrow> (case md_FindPackageLabelMatch D R p db of Panics e \<Rightarrow> Panic e | Returns r \<Rightarrow> db_search r)
         | FileSearch \<Rightarrow> repo_FileSearch R r p)"

text \<open>A nil package panics in \<open>SearchArtefact\<close>, when the index is not empty.\<close>

fun with_artifacts :: "build_repo \<Rightarrow> default_package option list \<Rightarrow> pkg_match list outcome" where
  "with_artifacts r [] = Ok []"
| "with_artifacts r (None # ps) = Panic nil_deref"
| "with_artifacts r (Some p # ps) =
     oseq (SearchArtefact (brIndex r) p) (\<lambda>a.
     oseq (with_artifacts r ps) (\<lambda>ms. Ok (\<lparr>pmRepo = r, pmArtifact = a, pmPackage = p\<rparr> # ms)))"

fun search_all :: "sat_config \<Rightarrow> rx \<Rightarrow> search_mode \<Rightarrow> string \<Rightarrow> repositories \<Rightarrow> pkg_match list outcome" where
  "search_all C R t p [] = Ok []"
| "search_all C R t p (r # rs) =
     (case repo_search C R t p r of
        Ok ps \<Rightarrow> oseq (with_artifacts r ps) (\<lambda>ms. oseq (search_all C R t p rs) (\<lambda>ns. Ok (ms @ ns)))
      | Err e \<Rightarrow> search_all C R t p rs
      | Panic e \<Rightarrow> Panic e | Fuel \<Rightarrow> Fuel)"

definition SearchPackages ::
    "sat_config \<Rightarrow> repo_sort \<Rightarrow> rx \<Rightarrow> repositories \<Rightarrow> string \<Rightarrow> search_mode \<Rightarrow> pkg_match list outcome \<times> repositories" where
  "SearchPackages C srt R re p t = (let re = srt repo_Less re in (search_all C R t p re, re))"

definition repos_Search ::
    "sat_config \<Rightarrow> repo_sort \<Rightarrow> rx \<Rightarrow> repositories \<Rightarrow> string \<Rightarrow> pkg_match list outcome \<times> repositories" where
  "repos_Search C srt R re s = SearchPackages C srt R re s SRegexPkg"

definition SearchLabel ::
    "sat_config \<Rightarrow> repo_sort \<Rightarrow> rx \<Rightarrow> repositories \<Rightarrow> string \<Rightarrow> pkg_match list outcome \<times> repositories" where
  "SearchLabel C srt R re s = SearchPackages C srt R re s SLabel"

definition SearchLabelMatch ::
    "sat_config \<Rightarrow> repo_sort \<Rightarrow> rx \<Rightarrow> repositories \<Rightarrow> string \<Rightarrow> pkg_match list outcome \<times> repositories" where
  "SearchLabelMatch C srt R re s = SearchPackages C srt R re s SRegexLabel"

end
