(* ===== verification/BuildInstaller.thy ===== *)
theory BuildInstaller
  imports BuildRepos
begin

text \<open>
  The installer of \<open>luet-build\<close>, \<open>luet-build/pkg/installer/installer.go\<close> with \<open>system.go\<close> and
  \<open>finalizer.go\<close>: what is to install, to remove and to replace by the solver of formulas, and the
  operations on the system, a \<open>host\<close> as for the manager of artifacts.

  Ranges over maps are in the order \<open>deOrder\<close>.  The workers that take operations, downloads and packages
  from a channel are one worker, which takes them in the order they are sent; with none the program is
  deadlocked.  \<open>Fatal\<close> ends the program: a panic here.  Parameters are the archives, the client and the
  render of finalizers; \<open>beLoad\<close> and \<open>beSync\<close> read a repository from its directory or the network.
\<close>

record build_opts =
  loV2 :: bool
  loResolver :: bool
  loConcurrency :: nat
  loNoDeps :: bool
  loOnlyDeps :: bool
  loForce :: bool
  loPreserve :: bool
  loFullUninstall :: bool
  loFullCleanUninstall :: bool
  loCheckConflicts :: bool
  loSolverUpgrade :: bool
  loRemoveUnavailable :: bool
  loUpgradeNewRevisions :: bool
  loAsk :: bool
  loDownloadOnly :: bool
  loRelaxed :: bool
  loSkipFinalizers :: bool
  loSyncRepositories :: bool

text \<open>\<open>Option\<close>, the options of one operation.\<close>

record op_option =
  ooForce :: bool
  ooNoDeps :: bool
  ooCheckConflicts :: bool
  ooFullUninstall :: bool
  ooFullCleanUninstall :: bool
  ooOnlyDeps :: bool
  ooRunFinalizers :: bool
  ooCheckFileConflicts :: bool

definition no_option :: op_option where
  "no_option =
     \<lparr>ooForce = False, ooNoDeps = False, ooCheckConflicts = False, ooFullUninstall = False,
      ooFullCleanUninstall = False, ooOnlyDeps = False, ooRunFinalizers = False, ooCheckFileConflicts = False\<rparr>"

record art_match =
  amPackage :: default_package
  amArtifact :: pkg_artifact
  amRepository :: build_repo

record build_env =
  beSat :: sat_config
  beInst :: inst_env
  beRounds :: nat
  beFetch :: nat
  beRepoSort :: repo_sort
  beSort :: "(assertion \<Rightarrow> assertion \<Rightarrow> bool) \<Rightarrow> assertion list \<Rightarrow> assertion list"
  beShuffle :: "(default_package \<times> default_package) list \<Rightarrow> (default_package \<times> default_package) list"
  beLoad :: "build_repo \<Rightarrow> build_repo res"
  beSync :: "build_repo \<Rightarrow> build_repo res"
  beFileList :: "pkg_artifact \<Rightarrow> disk \<Rightarrow> string list res"
  beDownload :: "build_repo \<Rightarrow> pkg_artifact \<Rightarrow> disk \<Rightarrow> pkg_artifact res \<times> disk"
  beVerify :: "pkg_artifact \<Rightarrow> disk \<Rightarrow> err option"
  beUnpack :: "pkg_artifact \<Rightarrow> string \<Rightarrow> disk \<Rightarrow> err option \<times> disk"
  beRender :: "disk \<Rightarrow> string \<Rightarrow> string \<Rightarrow> string res"
  beDecode :: "string \<Rightarrow> luet_finalizer res"

abbreviation beDb :: "build_env \<Rightarrow> db_env" where
  "beDb B \<equiv> scDb (beSat B)"

abbreviation beProvides :: "build_env \<Rightarrow> nat" where
  "beProvides B \<equiv> seProvides (scEnv (beSat B))"

abbreviation beIter :: "build_env \<Rightarrow> string list \<Rightarrow> string list" where
  "beIter B \<equiv> deOrder (beDb B)"

definition system_queries :: "build_env \<Rightarrow> host \<Rightarrow> queries" where
  "system_queries B h = bolt_queries (beDb B) (beProvides B) (scRevdeps (beSat B)) (hsDb h)"

definition deadlock :: string where
  "deadlock = ''all goroutines are asleep - deadlock!''"

text \<open>Whether a query finds something; only an error of the query says no.\<close>

definition found :: "'a outcome \<Rightarrow> bool outcome" where
  "found r = (case r of Ok a \<Rightarrow> Ok True | Err e \<Rightarrow> Ok False | Panic e \<Rightarrow> Panic e | Fuel \<Rightarrow> Fuel)"

fun ofilter :: "('a \<Rightarrow> bool outcome) \<Rightarrow> 'a list \<Rightarrow> 'a list outcome" where
  "ofilter P [] = Ok []"
| "ofilter P (x # xs) = oseq (P x) (\<lambda>b. oseq (ofilter P xs) (\<lambda>ys. Ok (if b then x # ys else ys)))"

section \<open>Repositories\<close>

definition AreThereNotCachedRepos :: "build_repo list \<Rightarrow> bool" where
  "AreThereNotCachedRepos rs = list_ex (\<lambda>r. \<not> brCached r) rs"

fun each_repo :: "(build_repo \<Rightarrow> build_repo res) \<Rightarrow> string \<Rightarrow> build_repo list \<Rightarrow> repositories outcome" where
  "each_repo get msg [] = Ok []"
| "each_repo get msg (r # rs) =
     (case get r of
        Inl e \<Rightarrow> Err (msg @ brName r @ '': '' @ e)
      | Inr repo \<Rightarrow> oseq (each_repo get msg rs) (\<lambda>repos. Ok (repo # repos)))"

definition LoadRepositories :: "build_env \<Rightarrow> build_repo list \<Rightarrow> repositories outcome" where
  "LoadRepositories B rs =
     oseq (each_repo (beLoad B) ''Failed load repository: '' rs) (\<lambda>repos. Ok (beRepoSort B repo_Less repos))"

definition SyncRepositories :: "build_env \<Rightarrow> build_repo list \<Rightarrow> repositories outcome" where
  "SyncRepositories B rs =
     oseq (each_repo (beSync B) ''Failed syncing repository: '' rs) (\<lambda>repos. Ok (beRepoSort B repo_Less repos))"

definition GetRepositoriesInstances :: "build_env \<Rightarrow> build_opts \<Rightarrow> build_repo list \<Rightarrow> repositories outcome" where
  "GetRepositoriesInstances B L rs =
     (if AreThereNotCachedRepos rs \<or> loSyncRepositories L then SyncRepositories B rs else LoadRepositories B rs)"

section \<open>What to uninstall\<close>

definition solver_tip :: string where
  "solver_tip = ''Could not solve the uninstall constraints. Tip: try with --solver-type qlearning or with --force, '' @
     ''or by removing packages excluding their dependencies with --nodeps''"

definition b_Uninstall_solver ::
    "build_env \<Rightarrow> build_opts \<Rightarrow> solver \<Rightarrow> bool \<Rightarrow> bool \<Rightarrow> default_package list \<Rightarrow> default_package list outcome" where
  "b_Uninstall_solver B L sv checkconflicts full packs =
     fst (if loV2 L then v2_Uninstall (beSat B) sv checkconflicts full packs new_state
          else solver_Uninstall (beSat B) sv checkconflicts full packs new_state)"

definition computeUninstall ::
    "build_env \<Rightarrow> build_opts \<Rightarrow> op_option \<Rightarrow> default_package list \<Rightarrow> default_package list \<Rightarrow>
     default_package list outcome" where
  "computeUninstall B L opt world packs =
     (case copy_db (beDb B) (beProvides B) world of
        None \<Rightarrow> Fuel
      | Some (Some e, _) \<Rightarrow> Err (''Failed create temporary in-memory db: '' @ e)
      | Some (None, idb) \<Rightarrow>
          (let Q = queries_of (beSat B) idb
           in if ooNoDeps opt then Ok packs
              else if ooFullCleanUninstall opt then
                wrapped solver_tip (fst (UninstallUniverse (beSat B) idb packs new_state))
              else
                (case b_Uninstall_solver B L \<lparr>slDefs = Q, slInstalled = Q\<rparr> (ooCheckConflicts opt) (ooFullUninstall opt) packs of
                   Err e \<Rightarrow> if \<not> loForce L then Err (solver_tip @ '': '' @ e) else Ok []
                 | r \<Rightarrow> r)))"

section \<open>Removal of a package\<close>

text \<open>\<open>PreserveSystemEssentialData && a || b\<close>.\<close>

definition b_essential :: "inst_conf \<Rightarrow> build_opts \<Rightarrow> string \<Rightarrow> bool" where
  "b_essential I L f =
     (loPreserve L \<and> HasPrefix f (GetSystemPkgsCacheDirPath (icSystem I)) \<or>
      HasPrefix f (GetSystemRepoDatabaseDirPath (icSystem I)))"

text \<open>The directories above a file from the nearest up to the one below the root of the host.\<close>

fun all_parents :: "string list \<Rightarrow> nat \<Rightarrow> string list" where
  "all_parents words i = (if i \<le> 1 then [] else Join (take i words) ''/'' # all_parents words (i - 1))"

declare all_parents.simps [simp del]

definition b_remove_file ::
    "inst_conf \<Rightarrow> build_opts \<Rightarrow> config_protect \<Rightarrow> string \<Rightarrow> string \<Rightarrow> disk \<Rightarrow> int gomap \<Rightarrow> disk \<times> int gomap" where
  "b_remove_file I L cp root f d mapDirs =
     (let target = PathJoin [root, f]
      in if keep_protected I cp f then (d, mapDirs)
         else if b_essential I L f then (d, mapDirs)
         else case os_Lstat d target of
           Inl _ \<Rightarrow> (d, mapDirs)
         | Inr fi \<Rightarrow>
             if fi = NDir \<and> dir_has_files d target then (d, mapDirs)
             else
               (let words = SplitChar CHR ''/'' (PathDir target)
                in (os_Remove target d, add_dirs (all_parents words (length words)) mapDirs)))"

fun b_remove_files ::
    "inst_conf \<Rightarrow> build_opts \<Rightarrow> config_protect \<Rightarrow> string \<Rightarrow> string list \<Rightarrow> disk \<Rightarrow> int gomap \<Rightarrow> disk \<times> int gomap" where
  "b_remove_files I L cp root [] d mapDirs = (d, mapDirs)"
| "b_remove_files I L cp root (f # fs) d mapDirs =
     (case b_remove_file I L cp root f d mapDirs of (d, mapDirs) \<Rightarrow> b_remove_files I L cp root fs d mapDirs)"

text \<open>A directory that cannot be read counts as empty.\<close>

definition b_remove_dir :: "inst_conf \<Rightarrow> build_opts \<Rightarrow> config_protect \<Rightarrow> string \<Rightarrow> string \<Rightarrow> disk \<Rightarrow> disk" where
  "b_remove_dir I L cp root f d =
     (let target = PathJoin [root, f]
      in if b_essential I L f then d
         else if keep_protected I cp f then d
         else if dir_has_files d target then d
         else os_Remove target d)"

fun b_remove_dirs :: "inst_conf \<Rightarrow> build_opts \<Rightarrow> config_protect \<Rightarrow> string \<Rightarrow> string list \<Rightarrow> disk \<Rightarrow> disk" where
  "b_remove_dirs I L cp root [] d = d"
| "b_remove_dirs I L cp root (f # fs) d = b_remove_dirs I L cp root fs (b_remove_dir I L cp root f d)"

definition b_remove_phases ::
    "inst_conf \<Rightarrow> build_opts \<Rightarrow> config_protect \<Rightarrow> string \<Rightarrow> string list \<Rightarrow> disk \<Rightarrow> disk" where
  "b_remove_phases I L cp root files d =
     (let (toRemove, dirs, notPresent) = OrderFiles (icDirSort I) d root files;
          (d1, mapDirs) = b_remove_files I L cp root toRemove d (mark_dirs dirs []);
          d2 = remove_missing I cp root notPresent d1
      in b_remove_dirs I L cp root (rev (sort (gm_keys mapDirs))) d2)"

definition err_to :: "(err \<Rightarrow> err) \<Rightarrow> err option \<times> 's \<Rightarrow> unit outcome \<times> 's" where
  "err_to msg r = unless_forced False msg r"

definition b_uninstall :: "build_env \<Rightarrow> build_opts \<Rightarrow> string \<Rightarrow> default_package \<Rightarrow> host \<Rightarrow> unit outcome \<times> host" where
  "b_uninstall B L root p h =
     (let I = inConf (beInst B)
      in case bd_GetPackageFiles p (hsDb h) of
           Inl e \<Rightarrow> (Err (''Failed getting installed files: '' @ e), h)
         | Inr files \<Rightarrow>
             (case protect_files I p files of
                Panics e \<Rightarrow> (Panic e, h)
              | Returns cp \<Rightarrow>
                  (let h = h\<lparr>hsDisk := b_remove_phases I L cp root files (hsDisk h)\<rparr>
                   in obind (err_to ((@) ''Failed removing package files from database: '')
                               (on_db (bd_RemovePackageFiles p) h)) (\<lambda>_ h.
                      err_to ((@) ''Failed removing package from database: '') (on_db (bd_RemovePackage p) h)))))"

fun uninstall_each ::
    "build_env \<Rightarrow> build_opts \<Rightarrow> op_option \<Rightarrow> string \<Rightarrow> default_package list \<Rightarrow> host \<Rightarrow> unit outcome \<times> host" where
  "uninstall_each B L opt root [] h = (Ok (), h)"
| "uninstall_each B L opt root (p # ps) h =
     obind_err (b_uninstall B L root p h)
       (\<lambda>e h. if \<not> ooForce opt then (Err (''Uninstall failed: '' @ e), h) else uninstall_each B L opt root ps h)
       (\<lambda>_ h. uninstall_each B L opt root ps h)"

fun all_installed :: "queries \<Rightarrow> default_package list \<Rightarrow> unit outcome" where
  "all_installed Q [] = Ok ()"
| "all_installed Q (p # ps) =
     oseq (or_else (quFinds Q p) []) (\<lambda>packs.
       if length packs = 0 then Err (''Package '' @ HumanReadableString p @ '' not found in the system'')
       else all_installed Q ps)"

text \<open>The packages to uninstall; the function that does it is \<open>uninstall_each\<close> over them.\<close>

definition generateUninstallFn ::
    "build_env \<Rightarrow> build_opts \<Rightarrow> op_option \<Rightarrow> default_package list \<Rightarrow> host \<Rightarrow> default_package list outcome" where
  "generateUninstallFn B L opt packs h =
     oseq (all_installed (system_queries B h) packs) (\<lambda>_.
       wrapped ''while computing uninstall'' (computeUninstall B L opt (bd_World (hsDb h)) packs))"

definition b_Uninstall ::
    "build_env \<Rightarrow> build_opts \<Rightarrow> bool \<Rightarrow> string \<Rightarrow> default_package list \<Rightarrow> host \<Rightarrow> unit outcome \<times> host" where
  "b_Uninstall B L answer root packs h =
     (let opt = no_option\<lparr>ooFullUninstall := loFullUninstall L, ooForce := loForce L,
                  ooCheckConflicts := loCheckConflicts L, ooFullCleanUninstall := loFullCleanUninstall L\<rparr>
      in obind (wrapped ''while computing uninstall'' (generateUninstallFn B L opt packs h), h) (\<lambda>toUninstall h.
           if length toUninstall = 0 then (Ok (), h)
           else if loAsk L \<and> \<not> answer then (Err ''Aborted by user'', h)
           else uninstall_each B L opt root toUninstall h))"

section \<open>Conflicts between files\<close>

text \<open>The matches in the order of the map.\<close>

definition match_list :: "build_env \<Rightarrow> art_match gomap \<Rightarrow> art_match list" where
  "match_list B toInstall = map snd (gm_range (beIter B) toInstall)"

fun b_check_files ::
    "bool \<Rightarrow> string \<Rightarrow> string \<Rightarrow> string \<Rightarrow> string list \<Rightarrow> string gomap \<Rightarrow> host \<Rightarrow> string gomap outcome \<times> host" where
  "b_check_files checkSystem root name human [] m h = (Ok m, h)"
| "b_check_files checkSystem root name human (f # fs) m h =
     (case gm_get m f of
        Some pkg \<Rightarrow> (Err (''file '' @ f @ '' conflict between package '' @ pkg @ '' and '' @ name), h)
      | None \<Rightarrow>
          (let m = gm_set f name m
           in if checkSystem \<and> Exists (hsDisk h) (PathJoin [root, f]) then
                (case ExistsPackageFile f h of
                   (Some p, h) \<Rightarrow>
                     (Err (''file conflict between '' @ [CHR 0x27] @ HumanReadableString p @ [CHR 0x27] @ '' and '' @
                        [CHR 0x27] @ human @ [CHR 0x27] @ '' ( file: '' @ f @ '' )''), h)
                 | (None, h) \<Rightarrow> b_check_files checkSystem root name human fs m h)
              else b_check_files checkSystem root name human fs m h))"

text \<open>The files of an archive that cannot be read are none when it is forced.\<close>

fun b_check_matches ::
    "build_env \<Rightarrow> build_opts \<Rightarrow> bool \<Rightarrow> string \<Rightarrow> art_match list \<Rightarrow> string gomap \<Rightarrow> host \<Rightarrow> unit outcome \<times> host" where
  "b_check_matches B L checkSystem root [] m h = (Ok (), h)"
| "b_check_matches B L checkSystem root (a # as) m h =
     (case beFileList B (amArtifact a) (hsDisk h) of
        Inl e \<Rightarrow>
          if \<not> loForce L then
            (oseq (spec_package (amArtifact a)) (\<lambda>p. Err (''Could not get filelist for '' @ HumanReadableString p @ '': '' @ e)), h)
          else b_check_matches B L checkSystem root as m h
      | Inr files \<Rightarrow>
          obind (if files = [] then Ok [] else oseq (spec_package (amArtifact a)) (\<lambda>p. Ok (HumanReadableString p)), h)
            (\<lambda>name h.
             obind (b_check_files checkSystem root name (HumanReadableString (amPackage a)) files m h) (\<lambda>m h.
               b_check_matches B L checkSystem root as m h)))"

definition checkFileconflicts ::
    "build_env \<Rightarrow> build_opts \<Rightarrow> bool \<Rightarrow> string \<Rightarrow> art_match gomap \<Rightarrow> host \<Rightarrow> unit outcome \<times> host" where
  "checkFileconflicts B L checkSystem root toInstall h =
     (case b_check_matches B L checkSystem root (match_list B toInstall) [] h of
        (r, h) \<Rightarrow> (r, h\<lparr>hsFileIndex := None\<rparr>))"

text \<open>An error of the check is dropped when it is forced.\<close>

definition conflicts_step ::
    "build_env \<Rightarrow> build_opts \<Rightarrow> bool \<Rightarrow> string \<Rightarrow> art_match gomap \<Rightarrow> host \<Rightarrow> unit outcome \<times> host" where
  "conflicts_step B L checkSystem root toInstall h =
     obind_err (checkFileconflicts B L checkSystem root toInstall h)
       (\<lambda>e h. (if \<not> loForce L then Err (''file conflict found: '' @ e) else Ok (), h)) (\<lambda>_ h. (Ok (), h))"

section \<open>Finalizers\<close>

text \<open>Not the packages that were installed already; their definitions are those of the tree.\<close>

fun ordered_finalizers :: "build_env \<Rightarrow> art_match gomap \<Rightarrow> assertion list \<Rightarrow> default_package list outcome" where
  "ordered_finalizers B toInstall [] = Ok []"
| "ordered_finalizers B toInstall (a # as) =
     (if \<not> paValue a then ordered_finalizers B toInstall as
      else case gm_get toInstall (GetFingerPrint (paPackage a)) of
        None \<Rightarrow> ordered_finalizers B toInstall as
      | Some installed \<Rightarrow>
          oseq (wrapped (''Error getting package '' @ HumanReadableString (paPackage a))
                 (quFind (queries_of (beSat B) (brTree (amRepository installed))) (paPackage a))) (\<lambda>p.
          oseq (ordered_finalizers B toInstall as) (\<lambda>ps. Ok (p # ps))))"

definition finalizer_file :: "default_package \<Rightarrow> string" where
  "finalizer_file p = PathJoin [Path (pkg_data p), ''finalize.yaml'']"

fun finalizers_with_deps ::
    "build_env \<Rightarrow> mem_db \<Rightarrow> assertion list \<Rightarrow> art_match gomap \<Rightarrow> disk \<Rightarrow> art_match list \<Rightarrow> default_package list outcome" where
  "finalizers_with_deps B allRepos solution toInstall d [] = Ok []"
| "finalizers_with_deps B allRepos solution toInstall d (w # ws) =
     (if \<not> Exists d (finalizer_file (amPackage w)) then finalizers_with_deps B allRepos solution toInstall d ws
      else
        oseq (wrapped (''While order a solution for '' @ HumanReadableString (amPackage w))
               (assertions_Order (beSort B) (queries_of (beSat B) allRepos) solution (GetFingerPrint (amPackage w)))) (\<lambda>ordered.
        oseq (ordered_finalizers B toInstall ordered) (\<lambda>ps.
        oseq (finalizers_with_deps B allRepos solution toInstall d ws) (\<lambda>qs. Ok (ps @ qs)))))"

definition tree_package :: "build_env \<Rightarrow> art_match \<Rightarrow> default_package outcome" where
  "tree_package B c =
     wrapped (''Error getting package '' @ HumanReadableString (amPackage c))
       (quFind (queries_of (beSat B) (brTree (amRepository c))) (amPackage c))"

definition getFinalizers ::
    "build_env \<Rightarrow> mem_db \<Rightarrow> assertion list \<Rightarrow> art_match gomap \<Rightarrow> bool \<Rightarrow> disk \<Rightarrow> default_package list outcome" where
  "getFinalizers B allRepos solution toInstall nodeps d =
     (if \<not> nodeps then finalizers_with_deps B allRepos solution toInstall d (match_list B toInstall)
      else omap (tree_package B) (match_list B toInstall))"

text \<open>
  \<open>ExecuteFinalizers\<close> runs each finalizer once and collects the errors; \<open>executed\<close> are the fingerprints
  and the last argument whether there was an error.
\<close>

fun execute_finalizers ::
    "build_env \<Rightarrow> string \<Rightarrow> default_package list \<Rightarrow> string list \<Rightarrow> err list \<Rightarrow> host \<Rightarrow> unit outcome \<times> host" where
  "execute_finalizers B root [] executed errs h = (if errs = [] then Ok () else Err (Join errs ''; ''), h)"
| "execute_finalizers B root (p # ps) executed errs h =
     (if \<not> Exists (hsDisk h) (finalizer_file p) then execute_finalizers B root ps executed errs h
      else case beRender B (hsDisk h) (finalizer_file p) (PathJoin [Path (pkg_data p), ''definition.yaml'']) of
        Inl e \<Rightarrow> execute_finalizers B root ps executed (errs @ [e]) h
      | Inr out \<Rightarrow>
          if GetFingerPrint p \<in> set executed then execute_finalizers B root ps executed errs h
          else
            (let executed = GetFingerPrint p # executed
             in case beDecode B out of
                  Inl e \<Rightarrow> execute_finalizers B root ps executed (errs @ [e]) h
                | Inr f \<Rightarrow>
                    (case on_disk (RunInstall (beInst B) f root) h of
                       (Some e, h) \<Rightarrow> execute_finalizers B root ps executed (errs @ [e]) h
                     | (None, h) \<Rightarrow> execute_finalizers B root ps executed errs h)))"

definition ExecuteFinalizers :: "build_env \<Rightarrow> string \<Rightarrow> default_package list \<Rightarrow> host \<Rightarrow> unit outcome \<times> host" where
  "ExecuteFinalizers B root packs h = execute_finalizers B root packs [] [] h"

section \<open>Installation of the matches\<close>

definition downloadPackage :: "build_env \<Rightarrow> art_match \<Rightarrow> host \<Rightarrow> pkg_artifact res \<times> host" where
  "downloadPackage B a h =
     (case on_disk (beDownload B (amRepository a) (amArtifact a)) h of
        (Inl e, h) \<Rightarrow> (Inl (''Error on download artifact: '' @ e), h)
      | (Inr art, h) \<Rightarrow>
          ((case beVerify B art (hsDisk h) of
              Some e \<Rightarrow> Inl (''Artifact integrity check failure: '' @ e) | None \<Rightarrow> Inr art), h))"

fun download_all :: "build_env \<Rightarrow> art_match list \<Rightarrow> host \<Rightarrow> unit outcome \<times> host" where
  "download_all B [] h = (Ok (), h)"
| "download_all B (a # as) h =
     (case downloadPackage B a h of
        (Inl e, h) \<Rightarrow> (Panic (''Failed downloading package '' @ pName (amPackage a) @ e), h)
      | (Inr _, h) \<Rightarrow> download_all B as h)"

definition b_download :: "build_env \<Rightarrow> art_match gomap \<Rightarrow> host \<Rightarrow> unit outcome \<times> host" where
  "b_download B toDownload h =
     (if beFetch B = 0 \<and> toDownload \<noteq> [] then (Panic deadlock, h)
      else download_all B (match_list B toDownload) h)"

text \<open>The artifact is nil after a failed download, and the list of its files is asked for when it is forced.\<close>

definition b_installPackage :: "build_env \<Rightarrow> build_opts \<Rightarrow> string \<Rightarrow> art_match \<Rightarrow> host \<Rightarrow> unit outcome \<times> host" where
  "b_installPackage B L root m h =
     (case downloadPackage B m h of
        (Inl e, h) \<Rightarrow> (if \<not> loForce L then Err (''Failed downloading package: '' @ e) else Panic nil_deref, h)
      | (Inr a, h) \<Rightarrow>
          (case beFileList B a (hsDisk h) of
             Inl e \<Rightarrow> if \<not> loForce L then (Err (''Could not open package archive: '' @ e), h)
                      else (case on_disk (beUnpack B a root) h of (_, h) \<Rightarrow>
                              err_to id (on_db (bd_SetPackageFiles (GetFingerPrint (amPackage m)) []) h))
           | Inr files \<Rightarrow>
               obind (unless_forced (loForce L) ((@) ''Error met while unpacking rootfs: '') (on_disk (beUnpack B a root) h))
                 (\<lambda>_ h. err_to id (on_db (bd_SetPackageFiles (GetFingerPrint (amPackage m)) files) h))))"

fun install_all :: "build_env \<Rightarrow> build_opts \<Rightarrow> string \<Rightarrow> art_match list \<Rightarrow> host \<Rightarrow> unit outcome \<times> host" where
  "install_all B L root [] h = (Ok (), h)"
| "install_all B L root (a # as) h =
     obind_err (b_installPackage B L root a h)
       (\<lambda>e h. if \<not> loForce L then (Panic (''Failed installing package '' @ pName (amPackage a) @ e), h)
              else install_all B L root as h)
       (\<lambda>_ h. install_all B L root as h)"

fun create_installed :: "bool \<Rightarrow> art_match list \<Rightarrow> host \<Rightarrow> unit outcome \<times> host" where
  "create_installed force [] h = (Ok (), h)"
| "create_installed force (c # cs) h =
     (case on_db (bd_CreatePackage (amPackage c)) h of
        (Inl e, h) \<Rightarrow> if \<not> force then (Err (''Failed creating package: '' @ e), h) else create_installed force cs h
      | (Inr _, h) \<Rightarrow> create_installed force cs h)"

definition b_install ::
    "build_env \<Rightarrow> build_opts \<Rightarrow> op_option \<Rightarrow> string \<Rightarrow> art_match gomap \<Rightarrow> assertion list \<Rightarrow> mem_db \<Rightarrow> host \<Rightarrow>
     unit outcome \<times> host" where
  "b_install B L opt root toInstall solution allRepos h =
     obind (b_download B toInstall h) (\<lambda>_ h.
     obind (if ooCheckFileConflicts opt then conflicts_step B L True root toInstall h else (Ok (), h)) (\<lambda>_ h.
       if loDownloadOnly L then (Ok (), h)
       else if loConcurrency L = 0 \<and> toInstall \<noteq> [] then (Panic deadlock, h)
       else
         obind (install_all B L root (match_list B toInstall) h) (\<lambda>_ h.
         obind (create_installed (ooForce opt) (match_list B toInstall) h) (\<lambda>_ h.
           if \<not> ooRunFinalizers opt then (Ok (), h)
           else
             obind (wrapped ''failed getting package to finalize''
                      (getFinalizers B allRepos solution toInstall (ooNoDeps opt) (hsDisk h)), h) (\<lambda>ps h.
               ExecuteFinalizers B root ps h)))))"

section \<open>What to install\<close>

definition b_solve_install :: "build_env \<Rightarrow> build_opts \<Rightarrow> solver \<Rightarrow> default_package list \<Rightarrow> assertion list outcome" where
  "b_solve_install B L sv p =
     fst (if loRelaxed L then
            (if loV2 L then v2_RelaxedInstall (beSat B) sv p new_state else RelaxedInstall (beSat B) sv p new_state)
          else
            (if loV2 L then v2_Install (beSat B) (beRounds B) sv p new_state
             else solver_Install (beSat B) sv (beRounds B) p new_state))"

definition SetBuildTimestamp :: "string \<Rightarrow> default_package \<Rightarrow> default_package" where
  "SetBuildTimestamp t = upd_info (\<lambda>i. i\<lparr>BuildTimestamp := t\<rparr>)"

definition not_installed :: "queries \<Rightarrow> default_package list \<Rightarrow> default_package list outcome" where
  "not_installed Q ps = ofilter (\<lambda>p. oseq (found (quFind Q p)) (\<lambda>b. Ok (\<not> b))) ps"

text \<open>
  The first artifact of the index for the package, if the package is not installed.  The code sets the
  timestamp in the package that the solution shares; here only the match has it.
\<close>

fun artifact_loop ::
    "queries \<Rightarrow> build_repo \<Rightarrow> default_package \<Rightarrow> default_package \<Rightarrow> pkg_artifact list \<Rightarrow> art_match gomap \<Rightarrow>
     art_match gomap outcome" where
  "artifact_loop Q r matched p [] m = Ok m"
| "artifact_loop Q r matched p (a # as) m =
     (case baSpec a of
        None \<Rightarrow> Err ''Package in compilespec empty''
      | Some None \<Rightarrow> Panic nil_deref
      | Some (Some q) \<Rightarrow>
          if Matches matched q then
            (let p = SetBuildTimestamp (BuildTimestamp (pkg_data q)) p
             in oseq (found (quFind Q p)) (\<lambda>b.
                  Ok (if b then m
                      else gm_set (GetFingerPrint p) \<lparr>amPackage = p, amArtifact = a, amRepository = r\<rparr> m)))
          else artifact_loop Q r matched p as m)"

fun gather_artifacts ::
    "build_env \<Rightarrow> queries \<Rightarrow> default_package list \<Rightarrow> repositories \<Rightarrow> art_match gomap \<Rightarrow> art_match gomap outcome" where
  "gather_artifacts B Q [] re m = Ok m"
| "gather_artifacts B Q (p # ps) re m =
     (case PackageMatches (beSat B) (beRepoSort B) re [p] of (r, re) \<Rightarrow>
        oseq r (\<lambda>matches.
          case matches of
            [] \<Rightarrow> Err (''Failed matching solutions against repository for '' @ HumanReadableString p @
                     '' where are definitions coming from?!'')
          | x # _ \<Rightarrow>
              oseq (artifact_loop Q (pmRepo x) (pmPackage x) p (brIndex (pmRepo x)) m) (\<lambda>m.
                gather_artifacts B Q ps re m)))"

record install_plan =
  ipMatches :: "art_match gomap"
  ipPackages :: "default_package list"
  ipSolution :: "assertion list"
  ipAllRepos :: mem_db

definition computeInstall ::
    "build_env \<Rightarrow> build_opts \<Rightarrow> op_option \<Rightarrow> repositories \<Rightarrow> default_package list \<Rightarrow> queries \<Rightarrow> install_plan outcome" where
  "computeInstall B L opt re cp Q =
     oseq (ofilter (\<lambda>pi. oseq (or_else (quVersions Q pi) []) (\<lambda>vers. Ok (\<not> length vers \<ge> 1))) cp) (\<lambda>p.
       if length p = 0 then
         Ok \<lparr>ipMatches = [], ipPackages = p, ipSolution = [], ipAllRepos = NewInMemoryDatabase\<rparr>
       else
         oseq (SyncDatabase (beSat B) re NewInMemoryDatabase) (\<lambda>allRepos.
         (case ResolveSelectors (beSat B) (beRepoSort B) re p of (ps, re) \<Rightarrow>
            oseq ps (\<lambda>p.
            oseq (if \<not> ooNoDeps opt then
                    (case b_solve_install B L \<lparr>slDefs = queries_of (beSat B) allRepos, slInstalled = Q\<rparr> p of
                       Err e \<Rightarrow> if \<not> ooForce opt then Err (''Failed solving solution for package: '' @ e) else Ok []
                     | r \<Rightarrow> r)
                  else Ok []) (\<lambda>solution.
            oseq (not_installed Q
                    (if \<not> ooNoDeps opt then map paPackage (filter paValue solution)
                     else if \<not> ooOnlyDeps opt then p else [])) (\<lambda>packagesToInstall.
            oseq (gather_artifacts B Q packagesToInstall re []) (\<lambda>m.
              Ok \<lparr>ipMatches = m, ipPackages = p, ipSolution = solution, ipAllRepos = allRepos\<rparr>)))))))"

section \<open>Replacement\<close>

definition packsToList :: "default_package list \<Rightarrow> string" where
  "packsToList ps = Join (sort (map HumanReadableString ps)) '' ''"

text \<open>
  The removals are made on a copy of the system; the packages to install are asserted as well.  An error of
  the removals is dropped, with the packages to remove, when it is forced.
\<close>

definition computeSwap ::
    "build_env \<Rightarrow> build_opts \<Rightarrow> op_option \<Rightarrow> repositories \<Rightarrow> default_package list \<Rightarrow> default_package list \<Rightarrow> host \<Rightarrow>
     (install_plan \<times> repositories) outcome" where
  "computeSwap B L opt re toRemove toInstall h =
     oseq (SyncDatabase (beSat B) re NewInMemoryDatabase) (\<lambda>_.
     (case ResolveSelectors (beSat B) (beRepoSort B) re toInstall of (ps, re) \<Rightarrow>
        oseq ps (\<lambda>toInstall.
          case copy_db (beDb B) (beProvides B) (bd_World (hsDb h)) of
            None \<Rightarrow> Fuel
          | Some (Some e, _) \<Rightarrow> Err (''Failed create temporary in-memory db: '' @ e)
          | Some (None, installedtmp) \<Rightarrow>
              oseq (case computeUninstall B L opt (md_World (beDb B) installedtmp) toRemove of
                      Err e \<Rightarrow> if \<not> ooForce opt then Err (''computing uninstall '' @ packsToList toRemove @ '': '' @ e) else Ok []
                    | r \<Rightarrow> r) (\<lambda>packs.
              oseq (computeInstall B L opt re toInstall (queries_of (beSat B) (remove_all packs installedtmp))) (\<lambda>plan.
                Ok (plan\<lparr>ipSolution := ipSolution plan @ all_true toInstall\<rparr>, re))))))"

text \<open>The packages of the operations: first those to uninstall, then those to install.\<close>

fun ops_of_matches ::
    "default_package list \<Rightarrow> art_match list \<Rightarrow> default_package list \<times> default_package list" where
  "ops_of_matches toUninstall [] = ([], [])"
| "ops_of_matches toUninstall (m # ms) =
     (case ops_of_matches toUninstall ms of (us, is) \<Rightarrow>
        (case find (\<lambda>p. GetPackageName p = GetPackageName (amPackage m)) toUninstall of
           Some pack \<Rightarrow> (pack # us, amPackage m # is)
         | None \<Rightarrow> (us, amPackage m # is)))"

definition getOpsWithOptions ::
    "build_env \<Rightarrow> default_package list \<Rightarrow> art_match gomap \<Rightarrow> default_package list \<times> default_package list" where
  "getOpsWithOptions B toUninstall installMatch =
     (case ops_of_matches toUninstall (match_list B installMatch) of (us, is) \<Rightarrow>
        (us @ filter (\<lambda>p. \<not> list_ex (\<lambda>m. GetPackageName (amPackage m) = GetPackageName p) (match_list B installMatch))
                toUninstall, is))"

text \<open>An error of an operation is logged and the next one is taken.\<close>

fun run_uninstalls ::
    "build_env \<Rightarrow> build_opts \<Rightarrow> op_option \<Rightarrow> string \<Rightarrow> default_package list \<Rightarrow> host \<Rightarrow> unit outcome \<times> host" where
  "run_uninstalls B L opt root [] h = (Ok (), h)"
| "run_uninstalls B L opt root (p # ps) h =
     obind_err (obind (generateUninstallFn B L opt [p] h, h) (\<lambda>toUninstall h. uninstall_each B L opt root toUninstall h))
       (\<lambda>e h. run_uninstalls B L opt root ps h) (\<lambda>_ h. run_uninstalls B L opt root ps h)"

fun run_installs ::
    "build_env \<Rightarrow> build_opts \<Rightarrow> op_option \<Rightarrow> string \<Rightarrow> install_plan \<Rightarrow> default_package list \<Rightarrow> host \<Rightarrow>
     unit outcome \<times> host" where
  "run_installs B L opt root plan [] h = (Ok (), h)"
| "run_installs B L opt root plan (p # ps) h =
     (case assertions_Search (ipSolution plan) (GetFingerPrint p) of
        None \<Rightarrow> (Panic nil_deref, h)
      | Some ass \<Rightarrow>
          (case gm_get (ipMatches plan) (GetFingerPrint p) of
             None \<Rightarrow> (Panic nil_deref, h)
           | Some m \<Rightarrow>
               obind_err (b_install B L opt root [(GetFingerPrint p, m)] [ass] (ipAllRepos plan) h)
                 (\<lambda>e h. run_installs B L opt root plan ps h) (\<lambda>_ h. run_installs B L opt root plan ps h)))"

definition with_workers :: "build_opts \<Rightarrow> default_package list \<Rightarrow> (host \<Rightarrow> unit outcome \<times> host) \<Rightarrow> host \<Rightarrow> unit outcome \<times> host" where
  "with_workers L ops f h = (if loConcurrency L = 0 \<and> ops \<noteq> [] then (Panic deadlock, h) else f h)"

definition b_swap ::
    "build_env \<Rightarrow> build_opts \<Rightarrow> bool \<Rightarrow> op_option \<Rightarrow> string \<Rightarrow> repositories \<Rightarrow> default_package list \<Rightarrow>
     default_package list \<Rightarrow> host \<Rightarrow> unit outcome \<times> host" where
  "b_swap B L answer opt root re toRemove toInstall h =
     obind (wrapped ''failed computing package replacement'' (computeSwap B L opt re toRemove toInstall h), h) (\<lambda>(plan, re) h.
       if loAsk L \<and> \<not> answer then (Err ''Aborted by user'', h)
       else
         obind (b_download B (ipMatches plan) h) (\<lambda>_ h.
         obind (conflicts_step B L False root (ipMatches plan) h) (\<lambda>_ h.
           if loDownloadOnly L then (Ok (), h)
           else
             (case getOpsWithOptions B toRemove (ipMatches plan) of (us, is) \<Rightarrow>
                obind (with_workers L us (run_uninstalls B L opt root us) h) (\<lambda>_ h.
                obind (with_workers L is
                         (run_installs B L (no_option\<lparr>ooForce := ooForce opt, ooOnlyDeps := ooOnlyDeps opt\<rparr>) root plan is) h)
                  (\<lambda>_ h.
                obind (wrapped ''failed getting package to finalize''
                         (getFinalizers B (ipAllRepos plan) (ipSolution plan) (ipMatches plan) (ooNoDeps opt) (hsDisk h)), h)
                  (\<lambda>ps h. ExecuteFinalizers B root ps h)))))))"

fun find_installed :: "queries \<Rightarrow> default_package list \<Rightarrow> default_package list outcome" where
  "find_installed Q [] = Ok []"
| "find_installed Q (p # ps) =
     oseq (or_else (quFinds Q p) []) (\<lambda>packs.
       if length packs = 0 then Err (''Package '' @ HumanReadableString p @ '' not found in the system'')
       else oseq (find_installed Q ps) (\<lambda>qs. Ok (packs @ qs)))"

definition b_Swap ::
    "build_env \<Rightarrow> build_opts \<Rightarrow> bool \<Rightarrow> string \<Rightarrow> build_repo list \<Rightarrow> default_package list \<Rightarrow>
     default_package list \<Rightarrow> host \<Rightarrow> unit outcome \<times> host" where
  "b_Swap B L answer root rs toRemove toInstall h =
     obind (GetRepositoriesInstances B L rs, h) (\<lambda>repos h.
     obind (find_installed (system_queries B h) toRemove, h) (\<lambda>toRemoveFinal h.
       b_swap B L answer (no_option\<lparr>ooForce := True, ooNoDeps := loNoDeps L\<rparr>) root repos toRemoveFinal toInstall h))"

section \<open>Upgrade\<close>

definition b_solve_upgrade ::
    "build_env \<Rightarrow> build_opts \<Rightarrow> solver \<Rightarrow> (default_package list \<times> assertion list) outcome" where
  "b_solve_upgrade B L sv =
     fst (if loSolverUpgrade L then UpgradeUniverse (beSat B) (beShuffle B) sv (loRemoveUnavailable L) new_state
          else if loV2 L then v2_Upgrade (beSat B) (beRounds B) sv (loFullUninstall L) new_state
          else solver_Upgrade (beSat B) sv (beRounds B) (loFullUninstall L) new_state)"

text \<open>The artifacts of the repository for an installed package, built at another time.\<close>

fun revisions_loop ::
    "build_env \<Rightarrow> default_package \<Rightarrow> default_package \<Rightarrow> pkg_artifact list \<Rightarrow> default_package list \<times> default_package list \<Rightarrow>
     (default_package list \<times> default_package list) outcome" where
  "revisions_loop B p matched [] ui = Ok ui"
| "revisions_loop B p matched (a # as) ui =
     oseq (spec_package a) (\<lambda>q.
       revisions_loop B p matched as
         (if Matches q p \<and> BuildTimestamp (pkg_data q) \<noteq> BuildTimestamp (pkg_data p) then
            (Unique (beIter B) (fst ui @ [p]), Unique (beIter B) (snd ui @ [matched]))
          else ui))"

fun new_revisions ::
    "build_env \<Rightarrow> default_package list \<Rightarrow> repositories \<Rightarrow> default_package list \<times> default_package list \<Rightarrow>
     (default_package list \<times> default_package list) outcome \<times> repositories" where
  "new_revisions B [] re ui = (Ok ui, re)"
| "new_revisions B (p # ps) re ui =
     (case PackageMatches (beSat B) (beRepoSort B) re [p] of (r, re) \<Rightarrow>
        obind (r, re) (\<lambda>matches re.
          case matches of
            [] \<Rightarrow> new_revisions B ps re ui
          | x # _ \<Rightarrow>
              obind (revisions_loop B p (pmPackage x) (brIndex (pmRepo x)) ui, re) (\<lambda>ui re. new_revisions B ps re ui)))"

text \<open>The packages to uninstall and to install.\<close>

definition b_computeUpgrade ::
    "build_env \<Rightarrow> build_opts \<Rightarrow> repositories \<Rightarrow> host \<Rightarrow>
     (default_package list \<times> default_package list) outcome \<times> repositories" where
  "b_computeUpgrade B L re h =
     obind (SyncDatabase (beSat B) re NewInMemoryDatabase, re) (\<lambda>allRepos re.
       (case (clone_db (beDb B) (beProvides B) (md_World (beDb B) allRepos) NewInMemoryDatabase,
              clone_db (beDb B) (beProvides B) (bd_World (hsDb h)) NewInMemoryDatabase) of
          (None, _) \<Rightarrow> (Fuel, re)
        | (Some (Some e, _), _) \<Rightarrow> (Err e, re)
        | (_, None) \<Rightarrow> (Fuel, re)
        | (_, Some (Some e, _)) \<Rightarrow> (Err e, re)
        | (Some (None, defcopy), Some (None, icopy)) \<Rightarrow>
            (let Q = queries_of (beSat B) icopy
             in obind (wrapped ''Failed solving solution for upgrade''
                         (b_solve_upgrade B L \<lparr>slDefs = queries_of (beSat B) defcopy, slInstalled = Q\<rparr>), re)
                  (\<lambda>(uninstall, solution) re.
                obind (not_installed Q (map paPackage (filter paValue solution)), re) (\<lambda>toInstall re.
                  if loUpgradeNewRevisions L then new_revisions B (bd_World (hsDb h)) re (uninstall, toInstall)
                  else (Ok (uninstall, toInstall), re))))))"

definition checkAndUpgrade ::
    "build_env \<Rightarrow> build_opts \<Rightarrow> bool \<Rightarrow> string \<Rightarrow> repositories \<Rightarrow> host \<Rightarrow> unit outcome \<times> host" where
  "checkAndUpgrade B L answer root re h =
     (case b_computeUpgrade B L re h of (r, re) \<Rightarrow>
        obind (wrapped ''failed computing upgrade'' r, h) (\<lambda>(uninstall, toInstall) h.
          if length toInstall = 0 \<and> length uninstall = 0 then (Ok (), h)
          else if loAsk L \<and> \<not> answer then (Err ''Aborted by user'', h)
          else
            b_swap B (L\<lparr>loAsk := False\<rparr>) answer (no_option\<lparr>ooForce := True, ooNoDeps := True\<rparr>) root re uninstall toInstall h))"

definition b_Upgrade :: "build_env \<Rightarrow> build_opts \<Rightarrow> bool \<Rightarrow> string \<Rightarrow> build_repo list \<Rightarrow> host \<Rightarrow> unit outcome \<times> host" where
  "b_Upgrade B L answer root rs h =
     obind (GetRepositoriesInstances B L rs, h) (\<lambda>repos h. checkAndUpgrade B L answer root repos h)"

section \<open>Installation\<close>

text \<open>Each package asked for is installed or has a match of its name, or of a name it provides.\<close>

definition match_names :: "art_match list \<Rightarrow> string list" where
  "match_names ms = concat (map (\<lambda>m. pName (amPackage m) # map pName (Provides (amPackage m))) ms)"

fun all_matched :: "queries \<Rightarrow> art_match list \<Rightarrow> default_package list \<Rightarrow> unit outcome" where
  "all_matched Q ms [] = Ok ()"
| "all_matched Q ms (p # ps) =
     oseq (or_else (quVersions Q p) []) (\<lambda>vers.
       if length vers \<ge> 1 \<or> pName p \<in> set (match_names ms) then all_matched Q ms ps
       else Err (''Package '' @ [CHR 0x27] @ HumanReadableString p @ [CHR 0x27] @ '' not found''))"

definition b_Install ::
    "build_env \<Rightarrow> build_opts \<Rightarrow> bool \<Rightarrow> string \<Rightarrow> build_repo list \<Rightarrow> default_package list \<Rightarrow> host \<Rightarrow> unit outcome \<times> host" where
  "b_Install B L answer root rs cp h =
     obind (GetRepositoriesInstances B L rs, h) (\<lambda>repos h.
     obind (if length (bd_World (hsDb h)) > 0 \<and> \<not> loRelaxed L then
              (case checkAndUpgrade B L answer root repos h of (r, h) \<Rightarrow>
                 (wrapped ''while checking upgrades before install'' r, h))
            else (Ok (), h)) (\<lambda>_ h.
       (let opt = no_option\<lparr>ooNoDeps := loNoDeps L, ooForce := loForce L, ooOnlyDeps := loOnlyDeps L,
                    ooCheckFileConflicts := True, ooRunFinalizers := \<not> loSkipFinalizers L\<rparr>
        in obind (computeInstall B L opt repos cp (system_queries B h), h) (\<lambda>plan h.
             if ipMatches plan = [] then (Ok (), h)
             else
               obind (if \<not> loResolver L then all_matched (system_queries B h) (match_list B (ipMatches plan)) cp
                      else Ok (), h) (\<lambda>_ h.
                 if loAsk L \<and> \<not> answer then (Err ''Aborted by user'', h)
                 else b_install B L opt root (ipMatches plan) (ipSolution plan) (ipAllRepos plan) h)))))"

section \<open>Reclaim\<close>

text \<open>The artifacts with a file on the target, and their packages in the trees.\<close>

fun reclaim_index ::
    "build_env \<Rightarrow> string \<Rightarrow> disk \<Rightarrow> build_repo \<Rightarrow> pkg_artifact list \<Rightarrow> (default_package \<times> string list) list outcome" where
  "reclaim_index B root d r [] = Ok []"
| "reclaim_index B root d r (a # as) =
     oseq (spec_package a) (\<lambda>q.
       if list_ex (\<lambda>f. Exists d (PathJoin [root, f])) (baFiles a) then
         oseq (quFind (queries_of (beSat B) (brTree r)) q) (\<lambda>p.
         oseq (reclaim_index B root d r as) (\<lambda>ms. Ok ((p, baFiles a) # ms)))
       else reclaim_index B root d r as)"

fun reclaim_all :: "build_env \<Rightarrow> build_opts \<Rightarrow> (default_package \<times> string list) list \<Rightarrow> host \<Rightarrow> unit outcome \<times> host" where
  "reclaim_all B L [] h = (Ok (), h)"
| "reclaim_all B L ((pack, files) # ms) h =
     obind (or_else (quVersions (system_queries B h) pack) [], h) (\<lambda>vers h.
       if length vers \<ge> 1 then reclaim_all B L ms h
       else
         obind (case on_db (bd_CreatePackage pack) h of
                  (Inl e, h) \<Rightarrow> (if \<not> loForce L then Err (''Failed creating package: '' @ e) else Ok (), h)
                | (Inr _, h) \<Rightarrow> (Ok (), h)) (\<lambda>_ h.
           reclaim_all B L ms (snd (on_db (bd_SetPackageFiles (GetFingerPrint pack) files) h))))"

definition b_Reclaim :: "build_env \<Rightarrow> build_opts \<Rightarrow> string \<Rightarrow> build_repo list \<Rightarrow> host \<Rightarrow> unit outcome \<times> host" where
  "b_Reclaim B L root rs h =
     obind (GetRepositoriesInstances B L rs, h) (\<lambda>repos h.
     obind (omap (\<lambda>r. reclaim_index B root (hsDisk h) r (brIndex r)) repos, h) (\<lambda>mss h.
       reclaim_all B L (concat mss) h))"

end
