(* ===== verification/FormulaProofs.thy ===== *)
theory FormulaProofs
  imports Formulas
begin

text \<open>
  What the formulas of a package say: a valuation satisfies them exactly when every package that the
  recursion reaches keeps its rules (no other version, every requirement met once, no conflict), for both
  solvers and in whatever order the recursion visits the packages.
\<close>

section \<open>Rules\<close>

abbreviation fp :: "default_package \<Rightarrow> string" where
  "fp \<equiv> GetFingerPrint"

fun requirement_met :: "(string \<Rightarrow> bool) \<Rightarrow> target \<Rightarrow> bool" where
  "requirement_met v (One q) = v (fp q)"
| "requirement_met v (Many ps) =
     ((\<exists>p\<in>set ps. v (fp p)) \<and> (\<forall>p\<in>set ps. \<forall>q\<in>set ps. v (fp p) \<and> v (fp q) \<longrightarrow> fp p = fp q))"

fun members :: "target \<Rightarrow> default_package list" where
  "members (One q) = [q]"
| "members (Many ps) = ps"

definition conflict_free :: "(string \<Rightarrow> bool) \<Rightarrow> target \<Rightarrow> bool" where
  "conflict_free v t \<longleftrightarrow> (\<forall>q\<in>set (members t). \<not> v (fp q))"

definition met :: "queries \<Rightarrow> (string \<Rightarrow> bool) \<Rightarrow> default_package \<Rightarrow> bool" where
  "met Q v r \<longleftrightarrow> (\<forall>t. require_target Q r = Ok t \<longrightarrow> requirement_met v t)"

definition clear :: "queries \<Rightarrow> (string \<Rightarrow> bool) \<Rightarrow> default_package \<Rightarrow> bool" where
  "clear Q v c \<longleftrightarrow> (\<forall>t. conflict_target Q c = Ok t \<longrightarrow> conflict_free v t)"

definition package_ok ::
    "queries \<Rightarrow> (default_package \<Rightarrow> default_package list) \<Rightarrow> (string \<Rightarrow> bool) \<Rightarrow> default_package \<Rightarrow> bool" where
  "package_ok Q others v p \<longleftrightarrow>
     (v (fp p) \<longrightarrow>
        (\<forall>cp\<in>set (others p). fp cp \<noteq> fp p \<longrightarrow> \<not> v (fp cp)) \<and>
        (\<forall>r\<in>set (PackageRequires p). met Q v r) \<and> (\<forall>c\<in>set (PackageConflicts p). clear Q v c))"

section \<open>The recursion\<close>

definition require_packs :: "queries \<Rightarrow> default_package \<Rightarrow> default_package list" where
  "require_packs Q r = (case require_target Q r of Ok (One q) \<Rightarrow> [q] | _ \<Rightarrow> [])"

definition conflict_packs :: "queries \<Rightarrow> default_package \<Rightarrow> default_package list" where
  "conflict_packs Q c = (case conflict_target Q c of Ok t \<Rightarrow> members t | _ \<Rightarrow> [])"

definition callees :: "queries \<Rightarrow> default_package \<Rightarrow> default_package list" where
  "callees Q p =
     concat (map (require_packs Q) (PackageRequires p)) @ concat (map (conflict_packs Q) (PackageConflicts p))"

text \<open>From a package the recursion is called with to those it calls itself with.\<close>

definition calls :: "queries \<Rightarrow> (default_package \<Rightarrow> default_package outcome) \<Rightarrow> default_package \<Rightarrow> default_package \<Rightarrow> bool" where
  "calls Q self pack q \<longleftrightarrow> (\<exists>p. self pack = Ok p \<and> q \<in> set (callees Q p))"

definition all_ok ::
    "queries \<Rightarrow> (default_package \<Rightarrow> default_package outcome) \<Rightarrow> (default_package \<Rightarrow> default_package list) \<Rightarrow>
     (string \<Rightarrow> bool) \<Rightarrow> default_package set \<Rightarrow> bool" where
  "all_ok Q self others v N \<longleftrightarrow> (\<forall>x\<in>N. \<exists>p. self x = Ok p \<and> package_ok Q others v p)"

abbreviation human :: "default_package \<Rightarrow> string" where
  "human \<equiv> HumanReadableString"

text \<open>\<open>N\<close> are the packages that a run from the packages \<open>ps\<close> went through; \<open>V\<close> and \<open>V'\<close> were visited before and after.\<close>

definition walk ::
    "queries \<Rightarrow> (default_package \<Rightarrow> default_package outcome) \<Rightarrow> default_package list \<Rightarrow> string set \<Rightarrow> string set \<Rightarrow>
     default_package set \<Rightarrow> bool" where
  "walk Q self ps V V' N \<longleftrightarrow>
     V' = V \<union> human ` N \<and> human ` set ps \<subseteq> V' \<and> (\<forall>x\<in>N. \<exists>p\<in>set ps. (calls Q self)\<^sup>*\<^sup>* p x) \<and>
     (\<forall>x\<in>N. \<forall>q. calls Q self x q \<longrightarrow> human q \<in> V')"

lemma walk_none: "human ` set ps \<subseteq> V \<Longrightarrow> walk Q self ps V V {}"
  by (simp add: walk_def)

lemma walk_trans:
  "walk Q self ps V V1 M \<Longrightarrow> walk Q self qs V1 V' N \<Longrightarrow> walk Q self (ps @ qs) V V' (M \<union> N)"
  unfolding walk_def by (elim conjE, intro conjI) (auto simp: image_Un)

lemma walk_call:
  assumes "self pack = Ok p" "walk Q self (callees Q p) (insert (human pack) V) V' N"
  shows "walk Q self [pack] V V' (insert pack N)"
proof -
  note w = assms(2) [unfolded walk_def]
  have step: "calls Q self pack q \<longleftrightarrow> q \<in> set (callees Q p)" for q by (simp add: calls_def assms(1))
  have "(calls Q self)\<^sup>*\<^sup>* pack x" if "x \<in> N" for x
    using that w step by (metis converse_rtranclp_into_rtranclp)
  moreover have "human q \<in> V'" if "x \<in> insert pack N" "calls Q self x q" for x q
    using that w step by blast
  ultimately show ?thesis using w unfolding walk_def by auto
qed

lemma all_ok_Un [simp]: "all_ok Q self others v (M \<union> N) \<longleftrightarrow> all_ok Q self others v M \<and> all_ok Q self others v N"
  by (auto simp: all_ok_def)

lemma all_ok_empty [simp]: "all_ok Q self others v {}"
  by (simp add: all_ok_def)

section \<open>The pieces\<close>

lemma eval_implies [simp]: "eval v (implies a f) \<longleftrightarrow> (v a \<longrightarrow> eval v f)"
  by (auto simp: implies_def)

lemma CreatePackage_Ok: "md_CreatePackage D k p db = Some (Inr x, db') \<Longrightarrow> x = fp p"
  by (auto simp: md_CreatePackage_def split: sum.splits)

lemma Encode_Ok:
  assumes "Encode E p s = (Ok a, s')"
  shows "a = fp p" "saVisited s' = saVisited s"
proof -
  from assms obtain r db where c: "md_CreatePackage (seDb E) (seProvides E) p (saDb s) = Some (r, db)"
    "of_res r = Ok a" "s' = s\<lparr>saDb := db\<rparr>"
    by (auto simp: Encode_def split: option.splits)
  from c(2) have "r = Inr a" by (cases r) auto
  with c(1) show "a = fp p" by (auto dest: CreatePackage_Ok)
  from c(3) show "saVisited s' = saVisited s" by simp
qed

lemma Matches_iff [simp]: "Matches p q \<longleftrightarrow> fp p = fp q"
  by (simp add: Matches_def)

lemma version_rules_Ok:
  "version_rules E p a cps s = (Ok fs, s') \<Longrightarrow> saVisited s' = saVisited s \<and>
     (list_all (eval v) fs \<longleftrightarrow> (v a \<longrightarrow> (\<forall>cp\<in>set cps. fp cp \<noteq> fp p \<longrightarrow> \<not> v (fp cp))))"
proof (induction cps arbitrary: s fs)
  case (Cons cp cps)
  then obtain b s1 gs where one: "Encode E cp s = (Ok b, s1)" "version_rules E p a cps s1 = (Ok gs, s')"
    "fs = (if \<not> Matches p cp then [implies a (implies a (FNot (FVar b)))] else []) @ gs"
    by (auto dest!: obind_OkD)
  show ?case using Encode_Ok [OF one(1)] Cons.IH [OF one(2)] unfolding one(3) by auto
qed simp

lemma version_rules2_Ok:
  "version_rules2 E p a cps s = (Ok fs, s') \<Longrightarrow> saVisited s' = saVisited s \<and>
     (list_all (eval v) fs \<longleftrightarrow> (v a \<longrightarrow> (\<forall>cp\<in>set cps. fp cp \<noteq> fp p \<longrightarrow> \<not> v (fp cp))))"
proof (induction cps arbitrary: s fs)
  case (Cons cp cps)
  show ?case
  proof (cases "fp cp = fp p")
    case True
    with Cons show ?thesis by auto
  next
    case False
    with Cons.prems obtain b s1 gs where one: "Encode E cp s = (Ok b, s1)" "version_rules2 E p a cps s1 = (Ok gs, s')"
      "fs = implies a (implies a (FNot (FVar b))) # gs"
      by (auto dest!: obind_OkD)
    show ?thesis using Encode_Ok [OF one(1)] Cons.IH [OF one(2)] False unfolding one(3) by auto
  qed
qed simp

lemma at_most_Ok:
  "at_most E a p b is s = (Ok fs, s') \<Longrightarrow> saVisited s' = saVisited s \<and>
     (list_all (eval v) fs \<longleftrightarrow> (v a \<longrightarrow> v b \<longrightarrow> (\<forall>i\<in>set is. fp i \<noteq> fp p \<longrightarrow> \<not> v (fp i))))"
proof (induction "is" arbitrary: s fs)
  case (Cons i "is")
  then obtain k s1 gs where one: "Encode E i s = (Ok k, s1)" "at_most E a p b is s1 = (Ok gs, s')"
    "fs = (if \<not> Matches p i then [implies a (FOr [FNot (FVar k), FNot (FVar b)])] else []) @ gs"
    by (auto dest!: obind_OkD)
  show ?case using Encode_Ok [OF one(1)] Cons.IH [OF one(2)] unfolding one(3) by auto
qed simp

lemma at_most2_Ok:
  "at_most2 E a p b is s = (Ok fs, s') \<Longrightarrow> saVisited s' = saVisited s \<and>
     (list_all (eval v) fs \<longleftrightarrow> (v a \<longrightarrow> v b \<longrightarrow> (\<forall>i\<in>set is. fp i \<noteq> fp p \<longrightarrow> \<not> v (fp i))))"
proof (induction "is" arbitrary: s fs)
  case (Cons i "is")
  show ?case
  proof (cases "fp i = fp p")
    case True
    with Cons show ?thesis by auto
  next
    case False
    with Cons.prems obtain k s1 gs where one: "Encode E i s = (Ok k, s1)" "at_most2 E a p b is s1 = (Ok gs, s')"
      "fs = implies a (FOr [FNot (FVar k), FNot (FVar b)]) # gs"
      by (auto dest!: obind_OkD)
    show ?thesis using Encode_Ok [OF one(1)] Cons.IH [OF one(2)] False unfolding one(3) by auto
  qed
qed simp

text \<open>What the formulas of a style must say; \<open>others\<close> are the versions a package excludes.\<close>

locale formula_rules =
  fixes E :: sat_env and Q :: queries and S :: formula_style
    and others :: "default_package \<Rightarrow> default_package list"
  assumes versions_Ok: "fsVersions S p a s = (Ok fs, s') \<Longrightarrow> saVisited s' = saVisited s \<and>
      (list_all (eval v) fs \<longleftrightarrow> (v a \<longrightarrow> (\<forall>cp\<in>set (others p). fp cp \<noteq> fp p \<longrightarrow> \<not> v (fp cp))))"
    and at_most_one: "fsAtMost S a ps p b s = (Ok fs, s') \<Longrightarrow> saVisited s' = saVisited s \<and>
      (list_all (eval v) fs \<longleftrightarrow> (v a \<longrightarrow> v b \<longrightarrow> (\<forall>i\<in>set ps. fp i \<noteq> fp p \<longrightarrow> \<not> v (fp i))))"
begin

lemma alternatives_Ok:
  "alternatives E (fsAtMost S a qs) ps s = (Ok (fs, alo), s') \<Longrightarrow> saVisited s' = saVisited s \<and> alo = map fp ps \<and>
     (list_all (eval v) fs \<longleftrightarrow>
        (v a \<longrightarrow> (\<forall>p\<in>set ps. v (fp p) \<longrightarrow> (\<forall>i\<in>set qs. fp i \<noteq> fp p \<longrightarrow> \<not> v (fp i)))))"
proof (induction ps arbitrary: s fs alo)
  case (Cons p ps)
  from Cons.prems obtain b s1 fs1 s2 gs al where one: "Encode E p s = (Ok b, s1)"
    "fsAtMost S a qs p b s1 = (Ok fs1, s2)" "alternatives E (fsAtMost S a qs) ps s2 = (Ok (gs, al), s')"
    "fs = fs1 @ gs" "alo = b # al"
    by (auto dest!: obind_OkD)
  show ?case
    using Encode_Ok [OF one(1)] at_most_one [OF one(2), of v] Cons.IH [OF one(3)] unfolding one(4,5) by auto
qed simp

lemma many_met:
  "alternatives E (fsAtMost S a ps) ps s = (Ok (fs, alo), s') \<Longrightarrow> saVisited s' = saVisited s \<and>
     (list_all (eval v) (fs @ [implies a (FOr (map FVar alo))]) \<longleftrightarrow> (v a \<longrightarrow> requirement_met v (Many ps)))"
  using alternatives_Ok [of a ps ps s fs alo s' v] by (auto simp: list_ex_iff)

abbreviation vis :: "sat_state \<Rightarrow> string set" where
  "vis s \<equiv> set (saVisited s)"

definition run_says ::
    "default_package list \<Rightarrow> sat_state \<Rightarrow> sat_state \<Rightarrow> formula list \<Rightarrow> ((string \<Rightarrow> bool) \<Rightarrow> bool) \<Rightarrow> bool" where
  "run_says ps s s' fs own \<longleftrightarrow>
     (\<exists>N. walk Q (fsSelf S) ps (vis s) (vis s') N \<and>
        (\<forall>v. list_all (eval v) fs \<longleftrightarrow> own v \<and> all_ok Q (fsSelf S) others v N))"

definition build_good :: "nat \<Rightarrow> bool" where
  "build_good n \<longleftrightarrow> (\<forall>pack s fs s'. build_with E Q S n pack s = (Ok fs, s') \<longrightarrow> run_says [pack] s s' fs (\<lambda>v. True))"

lemma build_goodD: "build_good n \<Longrightarrow> build_with E Q S n pack s = (Ok fs, s') \<Longrightarrow> run_says [pack] s s' fs (\<lambda>v. True)"
  by (simp add: build_good_def)

lemma run_says_trans:
  assumes "run_says ps s s1 fs ownA" "run_says qs s1 s' gs ownB"
  shows "run_says (ps @ qs) s s' (fs @ gs) (\<lambda>v. ownA v \<and> ownB v)"
proof -
  from assms obtain M N where m: "walk Q (fsSelf S) ps (vis s) (vis s1) M"
    "\<And>v. list_all (eval v) fs \<longleftrightarrow> ownA v \<and> all_ok Q (fsSelf S) others v M"
    and n: "walk Q (fsSelf S) qs (vis s1) (vis s') N"
    "\<And>v. list_all (eval v) gs \<longleftrightarrow> ownB v \<and> all_ok Q (fsSelf S) others v N"
    unfolding run_says_def by blast
  show ?thesis unfolding run_says_def
    by (rule exI [of _ "M \<union> N"], rule conjI, rule walk_trans [OF m(1) n(1)]) (auto simp: m(2) n(2))
qed

lemma run_says_own:
  assumes "run_says ps s s' fs own" "saVisited s0 = saVisited s" "\<And>v. list_all (eval v) gs \<longleftrightarrow> mine v"
    "\<And>v. own' v \<longleftrightarrow> mine v \<and> own v"
  shows "run_says ps s0 s' (gs @ fs) own'"
proof -
  have "run_says ps s0 s' fs own" using assms(1) by (simp add: run_says_def assms(2))
  then obtain N where n: "walk Q (fsSelf S) ps (vis s0) (vis s') N"
    "\<And>v. list_all (eval v) fs \<longleftrightarrow> own v \<and> all_ok Q (fsSelf S) others v N" unfolding run_says_def by blast
  show ?thesis unfolding run_says_def
    by (rule exI [of _ N], rule conjI [OF n(1)]) (auto simp: n(2) assms(3,4))
qed

lemma run_says_none: "run_says [] s s [] (\<lambda>v. True)"
  unfolding run_says_def by (rule exI [of _ "{}"]) (simp add: walk_none)

lemma run_says_cong: "run_says ps s s' fs own \<Longrightarrow> (\<And>v. own v \<longleftrightarrow> own' v) \<Longrightarrow> run_says ps s s' fs own'"
  by (simp add: run_says_def)

lemma each_Ok:
  "build_good n \<Longrightarrow> each_rules E Q S n a ps s = (Ok fs, s') \<Longrightarrow> run_says ps s s' fs (\<lambda>v. v a \<longrightarrow> (\<forall>p\<in>set ps. \<not> v (fp p)))"
proof (induction ps arbitrary: s fs)
  case Nil
  then show ?case using run_says_none by (simp add: run_says_def)
next
  case (Cons p ps)
  from Cons.prems obtain b s1 fs1 s2 gs where one: "Encode E p s = (Ok b, s1)"
    "build_with E Q S n p s1 = (Ok fs1, s2)" "each_rules E Q S n a ps s2 = (Ok gs, s')"
    "fs = implies a (FNot (FVar b)) # fs1 @ gs"
    by (auto dest!: obind_OkD)
  from run_says_trans [OF build_goodD [OF Cons.prems(1) one(2)] Cons.IH [OF Cons.prems(1) one(3)]]
  have "run_says (p # ps) s1 s' (fs1 @ gs) (\<lambda>v. True \<and> (v a \<longrightarrow> (\<forall>p\<in>set ps. \<not> v (fp p))))" by simp
  note run = this
  have "run_says (p # ps) s s' ([implies a (FNot (FVar b))] @ fs1 @ gs) (\<lambda>v. v a \<longrightarrow> (\<forall>p\<in>set (p # ps). \<not> v (fp p)))"
    by (rule run_says_own [OF run, where mine = "\<lambda>v. v a \<longrightarrow> \<not> v b"]) (use Encode_Ok [OF one(1)] in auto)
  then show ?case by (simp add: one(4))
qed

lemma requires_Ok:
  "build_good n \<Longrightarrow> requires_rules E Q S n a rs s = (Ok fs, s') \<Longrightarrow>
     run_says (concat (map (require_packs Q) rs)) s s' fs (\<lambda>v. v a \<longrightarrow> (\<forall>r\<in>set rs. met Q v r))"
proof (induction rs arbitrary: s fs)
  case Nil
  then show ?case using run_says_none by (simp add: run_says_def)
next
  case (Cons r rs)
  from Cons.prems(2) obtain t where t: "require_target Q r = Ok t" by (auto dest!: obind_OkD)
  have own: "met Q v r \<longleftrightarrow> requirement_met v t" for v by (simp add: met_def t)
  show ?case
  proof (cases t)
    case (One q)
    with Cons.prems(2) t obtain b s1 fs1 s2 gs where one: "Encode E q s = (Ok b, s1)"
      "build_with E Q S n q s1 = (Ok fs1, s2)" "requires_rules E Q S n a rs s2 = (Ok gs, s')"
      "fs = implies a (FVar b) # fs1 @ gs"
      by (auto dest!: obind_OkD)
    from run_says_trans [OF build_goodD [OF Cons.prems(1) one(2)] Cons.IH [OF Cons.prems(1) one(3)]]
    have "run_says (q # concat (map (require_packs Q) rs)) s1 s' (fs1 @ gs)
      (\<lambda>v. True \<and> (v a \<longrightarrow> (\<forall>r\<in>set rs. met Q v r)))" by simp
    note run = this
    have "run_says (q # concat (map (require_packs Q) rs)) s s' ([implies a (FVar b)] @ fs1 @ gs)
      (\<lambda>v. v a \<longrightarrow> (\<forall>r\<in>set (r # rs). met Q v r))"
      by (rule run_says_own [OF run, where mine = "\<lambda>v. v a \<longrightarrow> v b"]) (use Encode_Ok [OF one(1)] in \<open>auto simp: own One\<close>)
    moreover have "require_packs Q r = [q]" by (simp add: require_packs_def t One)
    ultimately show ?thesis by (simp add: one(4))
  next
    case (Many ps)
    with Cons.prems(2) t obtain fs1 alo s1 gs where many: "alternatives E (fsAtMost S a ps) ps s = (Ok (fs1, alo), s1)"
      "requires_rules E Q S n a rs s1 = (Ok gs, s')" "fs = (fs1 @ [implies a (FOr (map FVar alo))]) @ gs"
      by (auto dest!: obind_OkD)
    note IH = Cons.IH [OF Cons.prems(1) many(2)]
    have "run_says (concat (map (require_packs Q) rs)) s s' ((fs1 @ [implies a (FOr (map FVar alo))]) @ gs)
      (\<lambda>v. v a \<longrightarrow> (\<forall>r\<in>set (r # rs). met Q v r))"
      by (rule run_says_own [OF IH, where mine = "\<lambda>v. v a \<longrightarrow> requirement_met v (Many ps)"])
        (simp add: many_met [OF many(1)], rule many_met [OF many(1), THEN conjunct2], auto simp: own Many)
    moreover have "require_packs Q r = []" by (simp add: require_packs_def t Many)
    ultimately show ?thesis unfolding many(3) by simp
  qed
qed

lemma conflicts_Ok:
  "build_good n \<Longrightarrow> conflicts_rules E Q S n a cs s = (Ok fs, s') \<Longrightarrow>
     run_says (concat (map (conflict_packs Q) cs)) s s' fs (\<lambda>v. v a \<longrightarrow> (\<forall>c\<in>set cs. clear Q v c))"
proof (induction cs arbitrary: s fs)
  case Nil
  then show ?case using run_says_none by (simp add: run_says_def)
next
  case (Cons c cs)
  from Cons.prems(2) obtain t s1 fs1 gs where c: "conflict_target Q c = Ok t"
    "each_rules E Q S n a (case t of One q \<Rightarrow> [q] | Many ps \<Rightarrow> ps) s = (Ok fs1, s1)"
    "conflicts_rules E Q S n a cs s1 = (Ok gs, s')" "fs = fs1 @ gs"
    by (auto dest!: obind_OkD)
  have m: "(case t of One q \<Rightarrow> [q] | Many ps \<Rightarrow> ps) = members t" by (cases t) auto
  from run_says_trans [OF each_Ok [OF Cons.prems(1) c(2)] Cons.IH [OF Cons.prems(1) c(3)], unfolded m]
  have "run_says (members t @ concat (map (conflict_packs Q) cs)) s s' (fs1 @ gs)
      (\<lambda>v. v a \<longrightarrow> (\<forall>c\<in>set (c # cs). clear Q v c))"
    by (rule run_says_cong) (auto simp: m c(1) clear_def conflict_free_def)
  moreover have "conflict_packs Q c = members t" by (simp add: conflict_packs_def c(1))
  ultimately show ?case by (simp add: c(4))
qed

text \<open>A package not visited yet: the formulas keep its rules, and those of the packages it calls.\<close>

lemma build_step:
  assumes "build_good n" "human pack \<notin> vis s" "build_with E Q S (Suc n) pack s = (Ok fs, s')"
  shows "\<exists>p s1. fsSelf S pack = Ok p \<and> vis s1 = insert (human pack) (vis s) \<and>
    run_says (callees Q p) s1 s' fs (\<lambda>v. package_ok Q others v p)"
proof -
  from assms(2,3) obtain p a s1 fs1 s2 gs s3 hs where r: "fsSelf S pack = Ok p"
    "Encode E p (s\<lparr>saVisited := human pack # saVisited s\<rparr>) = (Ok a, s1)" "fsVersions S p a s1 = (Ok fs1, s2)"
    "requires_rules E Q S n a (PackageRequires p) s2 = (Ok gs, s3)"
    "conflicts_rules E Q S n a (PackageConflicts p) s3 = (Ok hs, s')" "fs = fs1 @ gs @ hs"
    by (auto dest!: obind_OkD)
  note a = Encode_Ok [OF r(2)]
  from run_says_trans [OF requires_Ok [OF assms(1) r(4)] conflicts_Ok [OF assms(1) r(5)]]
  have run: "run_says (callees Q p) s2 s' (gs @ hs)
    (\<lambda>v. (v a \<longrightarrow> (\<forall>r\<in>set (PackageRequires p). met Q v r)) \<and> (v a \<longrightarrow> (\<forall>c\<in>set (PackageConflicts p). clear Q v c)))"
    by (simp add: callees_def)
  have "run_says (callees Q p) s1 s' (fs1 @ gs @ hs) (\<lambda>v. package_ok Q others v p)"
    by (rule run_says_own [OF run, where mine = "\<lambda>v. v a \<longrightarrow> (\<forall>cp\<in>set (others p). fp cp \<noteq> fp p \<longrightarrow> \<not> v (fp cp))"])
      (simp add: versions_Ok [OF r(3)], rule versions_Ok [OF r(3), THEN conjunct2], auto simp: package_ok_def a(1))
  with r(1,6) a(2) show ?thesis by (intro exI [of _ p] exI [of _ s1]) simp
qed

lemma build_Ok: "build_good n"
proof (induction n)
  case 0
  show ?case by (simp add: build_good_def)
next
  case (Suc n)
  show ?case unfolding build_good_def
  proof (intro allI impI)
    fix pack s fs s'
    assume run: "build_with E Q S (Suc n) pack s = (Ok fs, s')"
    show "run_says [pack] s s' fs (\<lambda>v. True)"
    proof (cases "human pack \<in> vis s")
      case True
      with run have "fs = []" "s' = s" by simp_all
      with True show ?thesis unfolding run_says_def by (intro exI [of _ "{}"]) (simp add: walk_none)
    next
      case False
      from build_step [OF Suc False run] obtain p s1 where r: "fsSelf S pack = Ok p"
        "vis s1 = insert (human pack) (vis s)" "run_says (callees Q p) s1 s' fs (\<lambda>v. package_ok Q others v p)" by blast
      from r(3) obtain N where n: "walk Q (fsSelf S) (callees Q p) (insert (human pack) (vis s)) (vis s') N"
        "\<And>v. list_all (eval v) fs \<longleftrightarrow> package_ok Q others v p \<and> all_ok Q (fsSelf S) others v N"
        unfolding run_says_def r(2) by blast
      show ?thesis unfolding run_says_def
        by (rule exI [of _ "insert pack N"], rule conjI, rule walk_call [where p = p, OF r(1) n(1)])
          (simp add: n(2) all_ok_def r(1))
    qed
  qed
qed

lemma build_self:
  assumes "human pack \<notin> vis s" "build_with E Q S n pack s = (Ok fs, s')" "list_all (eval v) fs"
  shows "\<exists>p. fsSelf S pack = Ok p \<and> package_ok Q others v p"
proof (cases n)
  case 0
  with assms(2) show ?thesis by simp
next
  case (Suc m)
  from build_step [OF build_Ok assms(1) assms(2) [unfolded Suc]] assms(3) show ?thesis
    unfolding run_says_def by blast
qed

text \<open>The packages a run from \<open>ps\<close> reaches.\<close>

definition reached :: "default_package list \<Rightarrow> default_package set" where
  "reached ps = {x. \<exists>p\<in>set ps. (calls Q (fsSelf S))\<^sup>*\<^sup>* p x}"

lemma reached_append: "reached (ps @ qs) = reached ps \<union> reached qs"
  by (auto simp: reached_def)

text \<open>A run that starts with nothing visited says that every package reached keeps its rules.\<close>

lemma run_says_all:
  assumes "run_says ps s s' fs own" "saVisited s = []"
    and key: "\<forall>x\<in>reached ps. \<forall>y\<in>reached ps. human x = human y \<longrightarrow> fsSelf S x = fsSelf S y"
  shows "list_all (eval v) fs \<longleftrightarrow> own v \<and> all_ok Q (fsSelf S) others v (reached ps)"
proof -
  from assms(1,2) obtain N where w: "walk Q (fsSelf S) ps {} (vis s') N"
    and fs: "\<And>v. list_all (eval v) fs \<longleftrightarrow> own v \<and> all_ok Q (fsSelf S) others v N"
    unfolding run_says_def by auto
  note w = w [unfolded walk_def]
  have sub: "N \<subseteq> reached ps" using w by (auto simp: reached_def)
  have cover: "\<exists>y\<in>N. fsSelf S y = fsSelf S x" if "x \<in> reached ps" for x
  proof -
    from that obtain p where p: "p \<in> set ps" "(calls Q (fsSelf S))\<^sup>*\<^sup>* p x" by (auto simp: reached_def)
    from p(2) show ?thesis
    proof (induction rule: rtranclp_induct)
      case base
      have "human p \<in> human ` N" using p(1) w by (metis image_subset_iff sup_bot_left)
      then obtain y where "y \<in> N" "human y = human p" by (metis imageE)
      moreover have "p \<in> reached ps" using p(1) by (auto simp: reached_def)
      ultimately show ?case using key sub by blast
    next
      case (step y z)
      from step.IH obtain y' where y: "y' \<in> N" "fsSelf S y' = fsSelf S y" by blast
      with step.hyps(2) have "calls Q (fsSelf S) y' z" by (simp add: calls_def)
      with w y(1) have "human z \<in> human ` N" by (metis sup_bot_left)
      then obtain z' where "z' \<in> N" "human z' = human z" by auto
      moreover have "z \<in> reached ps" using p(1) step.hyps by (auto simp: reached_def intro: rtranclp.rtrancl_into_rtrancl)
      ultimately show ?case using key sub by blast
    qed
  qed
  have "all_ok Q (fsSelf S) others v N \<longleftrightarrow> all_ok Q (fsSelf S) others v (reached ps)"
  proof
    assume n: "all_ok Q (fsSelf S) others v N"
    show "all_ok Q (fsSelf S) others v (reached ps)" unfolding all_ok_def
      using n cover unfolding all_ok_def by metis
  next
    assume "all_ok Q (fsSelf S) others v (reached ps)"
    then show "all_ok Q (fsSelf S) others v N" using sub by (auto simp: all_ok_def)
  qed
  with fs show ?thesis by simp
qed

lemma build_run: "build_with E Q S n pack s = (Ok fs, s') \<Longrightarrow> run_says [pack] s s' fs (\<lambda>v. True)"
  by (rule build_goodD [OF build_Ok])

end

section \<open>Both solvers\<close>

definition versions_of :: "queries \<Rightarrow> default_package \<Rightarrow> default_package list" where
  "versions_of Q p = (case quVersions Q p of Ok cps \<Rightarrow> cps | _ \<Rightarrow> [])"

definition versions_of2 :: "queries \<Rightarrow> default_package \<Rightarrow> default_package list" where
  "versions_of2 Q p = (if length (versions_of Q p) > 1 then versions_of Q p else [])"

lemma or_else_Ok: "or_else r a = Ok b \<longleftrightarrow> r = Ok b \<or> (\<exists>e. r = Err e) \<and> b = a"
  by (cases r) auto

interpretation v1: formula_rules E Q "style1 E Q" "versions_of Q" for E Q
proof
  fix p a s fs s' v
  assume "fsVersions (style1 E Q) p a s = (Ok fs, s')"
  then obtain packages where p: "or_else (quVersions Q p) [] = Ok packages" "version_rules E p a packages s = (Ok fs, s')"
    by (auto simp: style1_def dest!: obind_OkD)
  from p(1) have "versions_of Q p = packages" by (auto simp: or_else_Ok versions_of_def)
  with version_rules_Ok [OF p(2)] show "saVisited s' = saVisited s \<and>
      (list_all (eval v) fs \<longleftrightarrow> (v a \<longrightarrow> (\<forall>cp\<in>set (versions_of Q p). fp cp \<noteq> fp p \<longrightarrow> \<not> v (fp cp))))" by simp
next
  fix a ps p b s fs s' v
  assume "fsAtMost (style1 E Q) a ps p b s = (Ok fs, s')"
  then have "at_most E a p b ps s = (Ok fs, s')" by (simp add: style1_def)
  from at_most_Ok [OF this] show "saVisited s' = saVisited s \<and>
      (list_all (eval v) fs \<longleftrightarrow> (v a \<longrightarrow> v b \<longrightarrow> (\<forall>i\<in>set ps. fp i \<noteq> fp p \<longrightarrow> \<not> v (fp i))))" .
qed

interpretation v2: formula_rules E Q "style2 E Q" "versions_of2 Q" for E Q
proof
  fix p a s fs s' v
  assume "fsVersions (style2 E Q) p a s = (Ok fs, s')"
  then obtain packages where p: "or_else (quVersions Q p) [] = Ok packages"
    "(if length packages > 1 then version_rules2 E p a packages s else (Ok [], s)) = (Ok fs, s')"
    by (auto simp: style2_def dest!: obind_OkD)
  from p(1) have "versions_of Q p = packages" by (auto simp: or_else_Ok versions_of_def)
  with p(2) version_rules2_Ok show "saVisited s' = saVisited s \<and>
      (list_all (eval v) fs \<longleftrightarrow> (v a \<longrightarrow> (\<forall>cp\<in>set (versions_of2 Q p). fp cp \<noteq> fp p \<longrightarrow> \<not> v (fp cp))))"
    by (auto simp: versions_of2_def split: if_splits)
next
  fix a ps p b s fs s' v
  assume "fsAtMost (style2 E Q) a ps p b s = (Ok fs, s')"
  then have "at_most2 E a p b ps s = (Ok fs, s')" by (simp add: style2_def)
  from at_most2_Ok [OF this] show "saVisited s' = saVisited s \<and>
      (list_all (eval v) fs \<longleftrightarrow> (v a \<longrightarrow> v b \<longrightarrow> (\<forall>i\<in>set ps. fp i \<noteq> fp p \<longrightarrow> \<not> v (fp i))))" .
qed

end
