(* ===== verification/SatProofs.thy ===== *)
theory SatProofs
  imports SatSolver FormulaProofs DatabaseProofs
begin

text \<open>
  The solver by formulas: what the assertions of an installation satisfy, when there is a solution, and
  the agreement of the formulas of both solvers.
\<close>

section \<open>The database of the solver\<close>

text \<open>Under a key the database has a package of that fingerprint.\<close>

definition db_sound :: "db_env \<Rightarrow> mem_db \<Rightarrow> bool" where
  "db_sound D db \<longleftrightarrow> (\<forall>k p. md_GetPackage D k db = Inr p \<longrightarrow> fp p = k)"

definition codec_ok :: "db_env \<Rightarrow> bool" where
  "codec_ok D \<longleftrightarrow> (\<forall>p enc q. deEnc D p = Inr enc \<and> deDec D enc = Inr q \<longrightarrow> fp q = fp p)"

lemma db_sound_new [simp]: "db_sound D NewInMemoryDatabase"
  by (simp add: db_sound_def md_GetPackage_def md_Get_def NewInMemoryDatabase_def)

lemma revdep_database [simp]: "mdDatabase (updateRevDep k v b db) = mdDatabase db"
  by (simp add: updateRevDep_def)

lemma rev_requires_database [simp]: "mdDatabase (rev_requires D pd pp rs db) = mdDatabase db"
  by (induction D pd pp rs db rule: rev_requires.induct) auto

lemma rev_update_database [simp]: "mdDatabase (rev_update D pd es db) = mdDatabase db"
  by (induction D pd es db rule: rev_update.induct) auto

lemma rev_found_database [simp]: "mdDatabase (rev_found pd ps db) = mdDatabase db"
  by (induction pd ps db rule: rev_found.induct) auto

lemma rev_own_database: "rev_own D n pd rs db = Some db' \<Longrightarrow> mdDatabase db' = mdDatabase db"
  by (induction D n pd rs db rule: rev_own.induct) (auto split: option.splits)

lemma populate_database: "populateCaches D n p db = Some db' \<Longrightarrow> mdDatabase db' = mdDatabase db"
  by (auto simp: populateCaches_def Let_def split: if_splits option.splits dest!: rev_own_database)

lemma Create_sound:
  assumes "codec_ok D" "db_sound D db" "md_CreatePackage D n p db = Some (r, db')"
  shows "db_sound D db'"
proof (cases "deEnc D p")
  case (Inl e)
  with assms show ?thesis by (simp add: md_CreatePackage_def)
next
  case (Inr enc)
  with assms(3) have "mdDatabase db' = gm_set (fp p) enc (mdDatabase db)"
    by (auto simp: md_CreatePackage_def md_Set_def dest!: populate_database)
  then have get: "md_GetPackage D k db' = (if k = fp p then deDec D enc else md_GetPackage D k db)" for k
    by (simp add: md_GetPackage_def md_Get_def)
  have "fp q = k" if "md_GetPackage D k db' = Inr q" for k q
    using that assms(1,2) Inr unfolding get codec_ok_def db_sound_def by (auto split: if_splits)
  then show ?thesis unfolding db_sound_def by blast
qed

section \<open>What the recursion keeps of the database\<close>

lemma obind_keeps: "I (snd m) \<Longrightarrow> (\<And>a s. I s \<Longrightarrow> I (snd (f a s))) \<Longrightarrow> I (snd (obind m f))"
  by (cases m; cases "fst m") auto

lemma obind_err_keeps:
  "I (snd m) \<Longrightarrow> (\<And>e s. I s \<Longrightarrow> I (snd (g e s))) \<Longrightarrow> (\<And>a s. I s \<Longrightarrow> I (snd (f a s))) \<Longrightarrow> I (snd (obind_err m g f))"
  by (cases m; cases "fst m") auto

text \<open>With a codec that keeps the fingerprints.\<close>

definition sound :: "sat_env \<Rightarrow> sat_state \<Rightarrow> bool" where
  "sound E s \<longleftrightarrow> codec_ok (seDb E) \<and> db_sound (seDb E) (saDb s)"

lemma sound_visited [simp]: "sound E (s\<lparr>saVisited := vs\<rparr>) = sound E s"
  by (simp add: sound_def)

lemma Encode_keeps: "sound E s \<Longrightarrow> sound E (snd (Encode E p s))"
  using Create_sound by (auto simp: Encode_def sound_def split: option.split)

lemma version_rules_keeps: "sound E s \<Longrightarrow> sound E (snd (version_rules E p a cps s))"
proof (induction cps arbitrary: s)
  case (Cons cp cps)
  show ?case unfolding version_rules.simps
    by (rule obind_keeps, rule Encode_keeps [OF Cons.prems], rule obind_keeps, rule Cons.IH) auto
qed simp

lemma version_rules2_keeps: "sound E s \<Longrightarrow> sound E (snd (version_rules2 E p a cps s))"
proof (induction cps arbitrary: s)
  case (Cons cp cps)
  have "sound E (snd (obind (Encode E cp s) (\<lambda>b s. obind (version_rules2 E p a cps s) (\<lambda>fs s.
    (Ok (implies a (implies a (FNot (FVar b))) # fs), s)))))"
    by (rule obind_keeps, rule Encode_keeps [OF Cons.prems], rule obind_keeps, rule Cons.IH) auto
  with Cons show ?case by simp
qed simp

lemma at_most_keeps: "sound E s \<Longrightarrow> sound E (snd (at_most E a p b is s))"
proof (induction "is" arbitrary: s)
  case (Cons i "is")
  show ?case unfolding at_most.simps
    by (rule obind_keeps, rule Encode_keeps [OF Cons.prems], rule obind_keeps, rule Cons.IH) auto
qed simp

lemma at_most2_keeps: "sound E s \<Longrightarrow> sound E (snd (at_most2 E a p b is s))"
proof (induction "is" arbitrary: s)
  case (Cons i "is")
  have "sound E (snd (obind (Encode E i s) (\<lambda>k s. obind (at_most2 E a p b is s) (\<lambda>fs s.
    (Ok (implies a (FOr [FNot (FVar k), FNot (FVar b)]) # fs), s)))))"
    by (rule obind_keeps, rule Encode_keeps [OF Cons.prems], rule obind_keeps, rule Cons.IH) auto
  with Cons show ?case by simp
qed simp

definition style_keeps :: "sat_env \<Rightarrow> formula_style \<Rightarrow> bool" where
  "style_keeps E S \<longleftrightarrow> (\<forall>p a s. sound E s \<longrightarrow> sound E (snd (fsVersions S p a s))) \<and>
     (\<forall>a ps p b s. sound E s \<longrightarrow> sound E (snd (fsAtMost S a ps p b s)))"

lemma style1_keeps: "style_keeps E (style1 E Q)"
  unfolding style_keeps_def style1_def
  by (auto intro!: obind_keeps [where I = "sound E"] version_rules_keeps at_most_keeps)

lemma style2_keeps: "style_keeps E (style2 E Q)"
  unfolding style_keeps_def style2_def
  by (auto intro!: obind_keeps [where I = "sound E"] version_rules2_keeps at_most2_keeps)

lemma alternatives_keeps:
  assumes "style_keeps E S"
  shows "sound E s \<Longrightarrow> sound E (snd (alternatives E (fsAtMost S a qs) ps s))"
proof (induction ps arbitrary: s)
  case (Cons p ps)
  show ?case unfolding alternatives.simps
    by (rule obind_keeps, rule Encode_keeps [OF Cons.prems], rule obind_keeps)
      (use assms in \<open>simp add: style_keeps_def\<close>, rule obind_keeps, rule Cons.IH, auto)
qed simp

lemma each_keeps:
  assumes "\<And>p s. sound E s \<Longrightarrow> sound E (snd (build_with E Q S n p s))"
  shows "sound E s \<Longrightarrow> sound E (snd (each_rules E Q S n a ps s))"
proof (induction ps arbitrary: s)
  case (Cons p ps)
  show ?case unfolding build_with.simps each_rules.simps
    by (rule obind_keeps, rule Encode_keeps [OF Cons.prems], rule obind_keeps, rule assms, assumption,
      rule obind_keeps, rule Cons.IH) auto
qed simp

lemma requires_keeps:
  assumes S: "style_keeps E S" and "\<And>p s. sound E s \<Longrightarrow> sound E (snd (build_with E Q S n p s))"
  shows "sound E s \<Longrightarrow> sound E (snd (requires_rules E Q S n a rs s))"
proof (induction rs arbitrary: s)
  case (Cons r rs)
  show ?case unfolding requires_rules.simps
  proof (rule obind_keeps)
    show "sound E (snd (require_target Q r, s))" using Cons.prems by simp
    fix t s assume s: "sound E s"
    show "sound E (snd (case t of
       One q \<Rightarrow> obind (Encode E q s) (\<lambda>b s. obind (build_with E Q S n q s) (\<lambda>fs s.
         obind (requires_rules E Q S n a rs s) (\<lambda>gs s. (Ok (implies a (FVar b) # fs @ gs), s))))
     | Many ps \<Rightarrow> obind (alternatives E (fsAtMost S a ps) ps s) (\<lambda>(fs, alo) s.
         obind (requires_rules E Q S n a rs s) (\<lambda>gs s. (Ok (fs @ implies a (FOr (map FVar alo)) # gs), s)))))"
    proof (cases t)
      case (One q)
      show ?thesis unfolding One target.case
        by (rule obind_keeps, rule Encode_keeps [OF s], rule obind_keeps, rule assms(2), assumption,
          rule obind_keeps, rule Cons.IH) auto
    next
      case (Many ps)
      show ?thesis unfolding Many target.case
        by (rule obind_keeps, rule alternatives_keeps [OF S s], simp split: prod.split)
          (intro allI impI, rule obind_keeps, rule Cons.IH, auto)
    qed
  qed
qed simp

lemma conflicts_keeps:
  assumes "\<And>p s. sound E s \<Longrightarrow> sound E (snd (build_with E Q S n p s))"
  shows "sound E s \<Longrightarrow> sound E (snd (conflicts_rules E Q S n a cs s))"
proof (induction cs arbitrary: s)
  case (Cons c cs)
  show ?case unfolding conflicts_rules.simps
    by (rule obind_keeps, simp add: Cons.prems, rule obind_keeps, rule each_keeps [OF assms], assumption, assumption,
      rule obind_keeps, rule Cons.IH) auto
qed simp

lemma build_keeps: "style_keeps E S \<Longrightarrow> sound E s \<Longrightarrow> sound E (snd (build_with E Q S n p s))"
proof (induction n arbitrary: p s)
  case (Suc n)
  have "sound E (snd (obind (fsSelf S p, s\<lparr>saVisited := human p # saVisited s\<rparr>) (\<lambda>q s.
        obind (Encode E q s) (\<lambda>a s. obind (fsVersions S q a s) (\<lambda>fs s.
        obind (requires_rules E Q S n a (PackageRequires q) s) (\<lambda>gs s.
        obind (conflicts_rules E Q S n a (PackageConflicts q) s) (\<lambda>hs s. (Ok (fs @ gs @ hs), s))))))))"
    by (rule obind_keeps, simp add: Suc.prems, rule obind_keeps, rule Encode_keeps, assumption, rule obind_keeps)
      (use Suc.prems(1) in \<open>simp add: style_keeps_def\<close>, rule obind_keeps, rule requires_keeps [OF Suc.prems(1)],
       rule Suc.IH [OF Suc.prems(1)], assumption, assumption, rule obind_keeps, rule conflicts_keeps,
       rule Suc.IH [OF Suc.prems(1)], assumption, assumption, simp)
  with Suc.prems show ?case by simp
qed simp

lemma omap_keeps:
  assumes "\<And>x s. I s \<Longrightarrow> I (snd (f x s))"
  shows "I s \<Longrightarrow> I (snd (omap_st f xs s))"
proof (induction xs arbitrary: s)
  case (Cons x xs)
  show ?case unfolding omap_st.simps
    by (rule obind_keeps, rule assms [OF Cons.prems], rule obind_keeps, rule Cons.IH) auto
qed simp

lemma formulas_keeps: "sound (scEnv C) s \<Longrightarrow> sound (scEnv C) (snd (formulas_of C Q ps s))"
  unfolding formulas_of_def BuildFormula_def package_buildFormula_def
  by (rule obind_keeps, rule omap_keeps) (auto intro: build_keeps [OF style1_keeps])

lemma v2_formulas_keeps: "sound (scEnv C) s \<Longrightarrow> sound (scEnv C) (snd (v2_formulas C Q ps s))"
  unfolding v2_formulas_def v2_buildFormula_def
  by (rule obind_keeps, rule omap_keeps) (auto intro: build_keeps [OF style2_keeps])

lemma world_keeps:
  assumes "sound (scEnv C) s"
  shows "sound (scEnv C) (snd (BuildWorld C sv False s))" "sound (scEnv C) (snd (v2_BuildWorld C sv False s))"
  unfolding BuildWorld_def v2_BuildWorld_def
  by (auto intro!: obind_keeps [where I = "sound (scEnv C)"] formulas_keeps v2_formulas_keeps assms)

lemma wanted_keeps: "sound E s \<Longrightarrow> sound E (snd (wanted_formulas E installed ws s))"
proof (induction ws arbitrary: s)
  case (Cons w ws)
  show ?case unfolding wanted_formulas.simps
    by (rule obind_keeps, rule Encode_keeps [OF Cons.prems], rule obind_keeps)
      (auto intro!: omap_keeps [where I = "sound E"] obind_keeps [where I = "sound E"] Encode_keeps Cons.IH)
qed simp

lemma decoded_model:
  assumes "db_sound D db"
  shows "DecodeModel D m db = Ok as \<Longrightarrow> map (\<lambda>a. (fp (paPackage a), paValue a)) as = m"
  using assms
  by (induction D m db arbitrary: as rule: DecodeModel.induct)
    (auto simp: db_sound_def split: sum.splits outcome.splits)

section \<open>The formulas of a world\<close>

lemma omap_OkD:
  "omap_st f (x # xs) s = (Ok ys, s') \<Longrightarrow>
   \<exists>y s1 zs. f x s = (Ok y, s1) \<and> omap_st f xs s1 = (Ok zs, s') \<and> ys = y # zs"
  by (auto dest!: obind_OkD)

context formula_rules begin

text \<open>One package after the other, with the same map of those visited.\<close>

lemma builds_run:
  "omap_st (\<lambda>p s. build_with E Q S n p s) ps s = (Ok fss, s') \<Longrightarrow> run_says ps s s' (concat fss) (\<lambda>v. True)"
proof (induction ps arbitrary: s fss)
  case Nil
  then show ?case using run_says_none by simp
next
  case (Cons p ps)
  from omap_OkD [OF Cons.prems] obtain fs s1 gss where one: "build_with E Q S n p s = (Ok fs, s1)"
    "omap_st (\<lambda>p s. build_with E Q S n p s) ps s1 = (Ok gss, s')" "fss = fs # gss" by blast
  from run_says_trans [OF build_run [OF one(1)] Cons.IH [OF one(2)]] show ?case by (simp add: one(3))
qed

text \<open>Or each with its own; packages with one name and version must then stand for the same package.\<close>

definition one_key :: "default_package list \<Rightarrow> bool" where
  "one_key ps \<longleftrightarrow> (\<forall>x\<in>reached ps. \<forall>y\<in>reached ps. human x = human y \<longrightarrow> fsSelf S x = fsSelf S y)"

definition keeps_rules :: "(string \<Rightarrow> bool) \<Rightarrow> default_package \<Rightarrow> bool" where
  "keeps_rules v p \<longleftrightarrow> (\<exists>q. fsSelf S p = Ok q \<and> package_ok Q others v q)"

lemma build_alone:
  assumes "build_with E Q S n p s = (Ok fs, s')" "saVisited s = []"
  shows "one_key [p] \<Longrightarrow> list_all (eval v) fs \<longleftrightarrow> all_ok Q (fsSelf S) others v (reached [p])"
    and "list_all (eval v) fs \<Longrightarrow> keeps_rules v p"
proof -
  assume k: "one_key [p]"
  from run_says_all [OF build_run [OF assms(1)] assms(2) k [unfolded one_key_def], of v]
  show "list_all (eval v) fs \<longleftrightarrow> all_ok Q (fsSelf S) others v (reached [p])" by (simp only: simp_thms)
next
  assume "list_all (eval v) fs"
  with build_self [OF _ assms(1), of v] assms(2) show "keeps_rules v p" by (simp add: keeps_rules_def)
qed

lemma builds_each:
  "omap_st (\<lambda>p s. build_with E Q S n p (s\<lparr>saVisited := []\<rparr>)) ps s = (Ok fss, s') \<Longrightarrow>
   ((\<forall>p\<in>set ps. one_key [p]) \<longrightarrow>
      list_all (eval v) (concat fss) = (\<forall>p\<in>set ps. all_ok Q (fsSelf S) others v (reached [p]))) \<and>
   (list_all (eval v) (concat fss) \<longrightarrow> (\<forall>p\<in>set ps. keeps_rules v p))"
proof (induction ps arbitrary: s fss)
  case (Cons p ps)
  from omap_OkD [OF Cons.prems] obtain fs s1 gss where one: "build_with E Q S n p (s\<lparr>saVisited := []\<rparr>) = (Ok fs, s1)"
    "omap_st (\<lambda>p s. build_with E Q S n p (s\<lparr>saVisited := []\<rparr>)) ps s1 = (Ok gss, s')" "fss = fs # gss" by blast
  have "saVisited (s\<lparr>saVisited := []\<rparr>) = []" by simp
  note alone = build_alone [OF one(1) this, of v]
  show ?case using Cons.IH [OF one(2)] alone by (simp add: one(3))
qed simp

end

lemma formulas_of_build:
  "formulas_of C Q ps s = (Ok gs, s') \<Longrightarrow>
   \<exists>fss. omap_st (\<lambda>p s. build_with (scEnv C) Q (style1 (scEnv C) Q) (scFormulas C) p (s\<lparr>saVisited := []\<rparr>)) ps s = (Ok fss, s') \<and>
     gs = concat fss"
  unfolding formulas_of_def BuildFormula_def package_buildFormula_def by (auto dest!: obind_OkD)

lemma v2_formulas_build:
  "v2_formulas C Q ps s = (Ok gs, s') \<Longrightarrow>
   \<exists>fss. omap_st (\<lambda>p s. build_with (scEnv C) Q (style2 (scEnv C) Q) (scFormulas C) p s) ps (s\<lparr>saVisited := []\<rparr>) = (Ok fss, s') \<and>
     gs = concat fss"
  unfolding v2_formulas_def v2_buildFormula_def by (auto dest!: obind_OkD)

lemma world_Ok:
  assumes "BuildWorld C sv False s = (Ok f, s')"
  shows "\<exists>gs. formulas_of C (slDefs sv) (quWorld (slDefs sv)) s = (Ok gs, s') \<and> f = FAnd gs"
  using assms unfolding BuildWorld_def by (auto dest!: obind_OkD)

lemma v2_world_Ok:
  assumes "v2_BuildWorld C sv False s = (Ok f, s')"
  shows "\<exists>gs. v2_formulas C (slDefs sv) (quWorld (slDefs sv)) s = (Ok gs, s') \<and> f = FAnd gs"
  using assms unfolding v2_BuildWorld_def by (auto dest!: obind_OkD)

section \<open>Solutions\<close>

definition consistent :: "queries \<Rightarrow> (string \<Rightarrow> bool) \<Rightarrow> bool" where
  "consistent Q v \<longleftrightarrow> (\<forall>w\<in>set (quWorld Q). package_ok Q (versions_of Q) v w)"

definition solution :: "solver \<Rightarrow> default_package list \<Rightarrow> (string \<Rightarrow> bool) \<Rightarrow> bool" where
  "solution sv wanted v \<longleftrightarrow>
     (\<forall>w\<in>set wanted. v (fp w)) \<and> (wanted \<noteq> [] \<longrightarrow> (\<forall>i\<in>set (quWorld (slInstalled sv)). v (fp i))) \<and>
     consistent (slDefs sv) v"

text \<open>
  Definitions in which every package is found, is one of its versions and has its requirements and conflicts
  among the definitions, and no two have the same name and version.
\<close>

definition coherent :: "queries \<Rightarrow> bool" where
  "coherent Q \<longleftrightarrow>
     (\<forall>w\<in>set (quWorld Q). quFind Q w = Ok w \<and> w \<in> set (versions_of Q w) \<and> set (callees Q w) \<subseteq> set (quWorld Q)) \<and>
     inj_on human (set (quWorld Q))"

text \<open>gophersat's answer: a model of the formula, or nil when it has none.\<close>

definition sat_correct :: "sat_config \<Rightarrow> bool" where
  "sat_correct C \<longleftrightarrow>
     (\<forall>f. case scSolve C f of Some m \<Rightarrow> eval (\<lambda>k. (k, True) \<in> set m) f | None \<Rightarrow> \<forall>v. \<not> eval v f)"

lemma coherentD:
  assumes "coherent Q" "w \<in> set (quWorld Q)"
  shows "quFind Q w = Ok w" "w \<in> set (versions_of Q w)" "set (callees Q w) \<subseteq> set (quWorld Q)"
  using assms by (simp_all add: coherent_def)

lemma coherent_human: "coherent Q \<Longrightarrow> x \<in> set (quWorld Q) \<Longrightarrow> y \<in> set (quWorld Q) \<Longrightarrow> human x = human y \<Longrightarrow> x = y"
  by (auto simp: coherent_def inj_on_def)

lemma reached_world:
  assumes "coherent Q" "\<And>x. x \<in> set (quWorld Q) \<Longrightarrow> self x = Ok x" "(calls Q self)\<^sup>*\<^sup>* p x" "p \<in> set (quWorld Q)"
  shows "x \<in> set (quWorld Q)"
  using assms(3,4)
proof (induction rule: rtranclp_induct)
  case (step y z)
  from step.IH [OF step.prems] have y: "y \<in> set (quWorld Q)" .
  with step.hyps(2) assms(2) have "z \<in> set (callees Q y)" by (simp add: calls_def)
  with coherentD(3) [OF assms(1) y] show ?case by blast
qed

lemma self1: "coherent Q \<Longrightarrow> x \<in> set (quWorld Q) \<Longrightarrow> fsSelf (style1 E Q) x = Ok x"
  by (simp add: style1_def coherentD(1))

lemma self2: "fsSelf (style2 E Q) x = Ok x"
  by (simp add: style2_def)

lemma v1_reached:
  assumes "coherent Q" "set ps \<subseteq> set (quWorld Q)"
  shows "v1.reached Q E ps \<subseteq> set (quWorld Q)"
  using assms reached_world [of Q "fsSelf (style1 E Q)"] self1 [OF assms(1)] by (auto simp: v1.reached_def)

lemma v2_reached:
  assumes "coherent Q" "set ps \<subseteq> set (quWorld Q)"
  shows "v2.reached Q E ps \<subseteq> set (quWorld Q)"
  using assms reached_world [of Q "fsSelf (style2 E Q)"] self2 by (auto simp: v2.reached_def)

lemma reached_self: "p \<in> set ps \<Longrightarrow> p \<in> v1.reached Q E ps" "p \<in> set ps \<Longrightarrow> p \<in> v2.reached Q E ps"
  by (auto simp: v1.reached_def v2.reached_def)

lemma v1_all_ok:
  assumes "coherent Q" "set ps \<subseteq> set (quWorld Q)"
  shows "all_ok Q (fsSelf (style1 E Q)) others v (v1.reached Q E ps) \<longleftrightarrow>
    (\<forall>x\<in>v1.reached Q E ps. package_ok Q others v x)"
proof -
  have "fsSelf (style1 E Q) x = Ok x" if "x \<in> v1.reached Q E ps" for x
    using that v1_reached [OF assms, of E] by (intro self1 [OF assms(1)]) blast
  then show ?thesis by (simp add: all_ok_def)
qed

lemma rivals_agree:
  assumes "coherent Q" "w \<in> set (quWorld Q)"
  shows "package_ok Q (versions_of2 Q) v w \<longleftrightarrow> package_ok Q (versions_of Q) v w"
proof (cases "length (versions_of Q w) > 1")
  case True
  then show ?thesis by (simp add: package_ok_def versions_of2_def)
next
  case False
  with coherentD(2) [OF assms] have "versions_of Q w = [w]"
    by (cases "versions_of Q w") (auto simp: Suc_le_eq)
  then show ?thesis by (simp add: package_ok_def versions_of2_def)
qed

lemma v1_world:
  assumes "coherent (slDefs sv)" "BuildWorld C sv False s = (Ok f, s')"
  shows "eval v f \<longleftrightarrow> consistent (slDefs sv) v"
proof -
  let ?Q = "slDefs sv" and ?E = "scEnv C"
  from world_Ok [OF assms(2)] formulas_of_build obtain gs fss where f: "f = FAnd gs" "gs = concat fss"
    "omap_st (\<lambda>p s. build_with ?E ?Q (style1 ?E ?Q) (scFormulas C) p (s\<lparr>saVisited := []\<rparr>)) (quWorld ?Q) s = (Ok fss, s')"
    by blast
  have "v1.one_key ?Q ?E [p]" if "p \<in> set (quWorld ?Q)" for p
    unfolding v1.one_key_def using coherent_human [OF assms(1)] v1_reached [OF assms(1), of "[p]" ?E] that by auto
  with v1.builds_each [OF f(3), of v] have "eval v f \<longleftrightarrow>
      (\<forall>p\<in>set (quWorld ?Q). all_ok ?Q (fsSelf (style1 ?E ?Q)) (versions_of ?Q) v (v1.reached ?Q ?E [p]))"
    by (simp add: f)
  also have "\<dots> \<longleftrightarrow> (\<forall>p\<in>set (quWorld ?Q). \<forall>x\<in>v1.reached ?Q ?E [p]. package_ok ?Q (versions_of ?Q) v x)"
    using v1_all_ok [OF assms(1)] by (intro ball_cong refl) simp
  also have "\<dots> \<longleftrightarrow> consistent ?Q v"
    unfolding consistent_def using v1_reached [OF assms(1), of "[p]" ?E for p] reached_self(1) [of _ _ ?Q ?E] by fastforce
  finally show ?thesis .
qed

lemma v2_world:
  assumes "coherent (slDefs sv)" "v2_BuildWorld C sv False s = (Ok f, s')"
  shows "eval v f \<longleftrightarrow> consistent (slDefs sv) v"
proof -
  let ?Q = "slDefs sv" and ?E = "scEnv C"
  from v2_world_Ok [OF assms(2)] v2_formulas_build obtain gs fss where f: "f = FAnd gs" "gs = concat fss"
    "omap_st (\<lambda>p s. build_with ?E ?Q (style2 ?E ?Q) (scFormulas C) p s) (quWorld ?Q) (s\<lparr>saVisited := []\<rparr>) = (Ok fss, s')"
    by blast
  have r: "v2.reached ?Q ?E (quWorld ?Q) = set (quWorld ?Q)"
    using v2_reached [OF assms(1), of "quWorld ?Q" ?E] reached_self(2) [of _ "quWorld ?Q" ?Q ?E] by blast
  have key: "\<forall>x\<in>v2.reached ?Q ?E (quWorld ?Q). \<forall>y\<in>v2.reached ?Q ?E (quWorld ?Q). human x = human y \<longrightarrow>
      fsSelf (style2 ?E ?Q) x = fsSelf (style2 ?E ?Q) y"
    unfolding r by (intro ballI impI) (drule (2) coherent_human [OF assms(1)], simp)
  from v2.run_says_all [OF v2.builds_run [OF f(3)] _ key, of v]
  have "eval v f \<longleftrightarrow> all_ok ?Q (fsSelf (style2 ?E ?Q)) (versions_of2 ?Q) v (set (quWorld ?Q))"
    by (simp add: f r)
  also have "\<dots> \<longleftrightarrow> consistent ?Q v"
    unfolding consistent_def all_ok_def self2 using rivals_agree [OF assms(1)] by auto
  finally show ?thesis .
qed

lemma wanted_Ok:
  "wanted_formulas E installed ws s = (Ok fs, s') \<Longrightarrow>
   list_all (eval v) fs \<longleftrightarrow> (\<forall>w\<in>set ws. v (fp w)) \<and> (ws \<noteq> [] \<longrightarrow> (\<forall>i\<in>set installed. v (fp i)))"
proof (induction ws arbitrary: s fs)
  case (Cons w ws)
  let ?one = "\<lambda>a s. if length installed = 0 then (Ok [FVar a], s)
      else omap_st (\<lambda>i s. obind (Encode E i s) (\<lambda>b s. (Ok (FAnd [FVar a, FVar b]), s))) installed s"
  from Cons.prems obtain a s1 gs s2 hs where r: "Encode E w s = (Ok a, s1)" "?one a s1 = (Ok gs, s2)"
    "wanted_formulas E installed ws s2 = (Ok hs, s')" "fs = gs @ hs"
    by (auto dest!: obind_OkD simp del: length_0_conv)
  have each: "omap_st (\<lambda>i s. obind (Encode E i s) (\<lambda>b s. (Ok (FAnd [FVar a, FVar b]), s))) is s = (Ok gs, s') \<Longrightarrow>
    list_all (eval v) gs \<longleftrightarrow> (\<forall>i\<in>set is. v a \<and> v (fp i))" for "is" s s' gs
    by (induction "is" arbitrary: s gs) (auto dest!: obind_OkD Encode_Ok(1))
  have "list_all (eval v) gs \<longleftrightarrow> v (fp w) \<and> (\<forall>i\<in>set installed. v (fp i))"
  proof (cases "installed = []")
    case True
    with r(2) Encode_Ok(1) [OF r(1)] show ?thesis by auto
  next
    case False
    with r(2) have "list_all (eval v) gs \<longleftrightarrow> (\<forall>i\<in>set installed. v a \<and> v (fp i))" by (intro each) simp
    with False Encode_Ok(1) [OF r(1)] show ?thesis by (metis list.set_sel(1))
  qed
  with Cons.IH [OF r(3)] show ?case by (auto simp: r(4))
qed simp

section \<open>Results\<close>

text \<open>
  The formulas of the two solvers say the same of coherent definitions, although one visits every package
  anew for each package of the world and the other visits it once: that no package selected has another
  version, a requirement not met exactly once, or a conflict, selected.
\<close>

theorem world_formulas_agree:
  assumes "coherent (slDefs sv)" "BuildWorld C sv False s = (Ok f, s1)" "v2_BuildWorld C sv False t = (Ok g, t1)"
  shows "eval v f = consistent (slDefs sv) v \<and> eval v g = consistent (slDefs sv) v"
  using v1_world [OF assms(1,2)] v2_world [OF assms(1,3)] by blast


definition chosen :: "assertion list \<Rightarrow> string set" where
  "chosen as = {fp (paPackage a) | a. a \<in> set as \<and> paValue a}"

lemma chosen_model: "map (\<lambda>a. (fp (paPackage a), paValue a)) as = m \<Longrightarrow> k \<in> chosen as \<longleftrightarrow> (k, True) \<in> set m"
  by (force simp: chosen_def)

text \<open>
  C7: What a relaxed installation asserts, when the definitions have any rule: the packages wanted (each the
  one found for it) and all those installed are selected, and every package of the definitions that is
  selected has none of its other versions, each of its requirements met exactly once, and none of its
  conflicts selected.
\<close>

theorem RelaxedInstall_sound:
  assumes "sat_correct C" "codec_ok (scDb C)" "\<forall>resolve f as. scResolver C = Some resolve \<longrightarrow> resolve f \<noteq> Ok as"
    and "\<not> noRules (slDefs sv)" "\<forall>w\<in>set (quWorld (slDefs sv)). quFind (slDefs sv) w = Ok w"
    and "RelaxedInstall C sv c new_state = (Ok as, s')"
  shows "\<exists>wanted. getList (scDb C) (slDefs sv) c = Ok wanted \<and> solution sv wanted (\<lambda>k. k \<in> chosen as)"
proof -
  from assms(4,6) obtain wanted f s1 where w: "getList (scDb C) (slDefs sv) c = Ok wanted"
    "solver_BuildFormula C sv wanted new_state = (Ok f, s1)" "solve_formula C f s1 = (Ok as, s')"
    unfolding RelaxedInstall_def solver_Solve_def by (auto dest!: obind_OkD)
  from w(2) obtain r s0 fs where f: "BuildWorld C sv False new_state = (Ok r, s0)"
    "wanted_formulas (scEnv C) (quWorld (slInstalled sv)) wanted s0 = (Ok fs, s1)" "f = FAnd (fs @ [r])"
    unfolding solver_BuildFormula_def by (auto dest!: obind_OkD)
  have "sound (scEnv C) new_state" by (simp add: sound_def new_state_def assms(2))
  from world_keeps(1) [OF this, of sv] have "sound (scEnv C) s0" by (simp add: f(1))
  from wanted_keeps [OF this] have sound: "db_sound (scDb C) (saDb s1)" by (metis f(2) snd_conv sound_def)
  from w(3) assms(3) obtain m where m: "scSolve C f = Some m" "DecodeModel (scDb C) m (saDb s1) = Ok as"
    by (auto simp: solve_formula_def split: option.splits)
  have v: "(\<lambda>k. k \<in> chosen as) = (\<lambda>k. (k, True) \<in> set m)"
    using chosen_model [OF decoded_model [OF sound m(2)]] by blast
  from assms(1) [unfolded sat_correct_def, rule_format, of f] m(1)
  have sat: "eval (\<lambda>k. k \<in> chosen as) f" by (simp add: v)
  from world_Ok [OF f(1)] formulas_of_build obtain gs fss where r: "r = FAnd gs" "gs = concat fss"
    "omap_st (\<lambda>p s. build_with (scEnv C) (slDefs sv) (style1 (scEnv C) (slDefs sv)) (scFormulas C) p (s\<lparr>saVisited := []\<rparr>))
       (quWorld (slDefs sv)) new_state = (Ok fss, s0)"
    by blast
  from sat have "list_all (eval (\<lambda>k. k \<in> chosen as)) (concat fss)" by (simp add: f(3) r)
  with v1.builds_each [OF r(3)] have each: "v1.keeps_rules (slDefs sv) (scEnv C) (\<lambda>k. k \<in> chosen as) p"
    if "p \<in> set (quWorld (slDefs sv))" for p
    using that by blast
  have "consistent (slDefs sv) (\<lambda>k. k \<in> chosen as)" unfolding consistent_def
  proof
    fix p
    assume p: "p \<in> set (quWorld (slDefs sv))"
    with assms(5) have "fsSelf (style1 (scEnv C) (slDefs sv)) p = Ok p" by (simp add: style1_def)
    with each [OF p] show "package_ok (slDefs sv) (versions_of (slDefs sv)) (\<lambda>k. k \<in> chosen as) p"
      by (auto simp: v1.keeps_rules_def)
  qed
  with sat wanted_Ok [OF f(2)] have "solution sv wanted (\<lambda>k. k \<in> chosen as)"
    by (simp add: f(3) solution_def)
  with w(1) show ?thesis by blast
qed

section \<open>Concrete solvers\<close>

text \<open>A codec over a table of packages, and a solver that tries every assignment.\<close>

definition table_env :: "default_package list \<Rightarrow> db_env" where
  "table_env ps =
     plain_db_env\<lparr>
       deEnc := (\<lambda>p. if list_ex (\<lambda>q. fp q = fp p) ps then Inr (fp p) else Inl ''unknown package''),
       deDec := (\<lambda>s. case find (\<lambda>q. fp q = s) ps of Some q \<Rightarrow> Inr q | None \<Rightarrow> Inl ''unknown key'')\<rparr>"

fun assignments :: "string list \<Rightarrow> (string \<times> bool) list list" where
  "assignments [] = [[]]"
| "assignments (x # xs) = concat (map (\<lambda>m. [(x, True) # m, (x, False) # m]) (assignments xs))"

definition try_all :: "formula \<Rightarrow> (string \<times> bool) list option" where
  "try_all f = find (\<lambda>m. eval (\<lambda>k. (k, True) \<in> set m) f) (assignments (remdups (vars f)))"

definition table_config :: "default_package list \<Rightarrow> sat_config" where
  "table_config ps =
     \<lparr>scEnv = \<lparr>seDb = table_env ps, seProvides = 2\<rparr>, scRevdeps = 5, scFormulas = 5, scSolve = try_all, scResolver = None\<rparr>"

lemma table_codec: "codec_ok (scDb (table_config ps))"
  by (auto simp: codec_ok_def table_config_def table_env_def find_Some_iff split: if_splits option.splits)

lemma assignments_all: "map (\<lambda>x. (x, v x)) xs \<in> set (assignments xs)"
proof (induction xs)
  case (Cons x xs)
  then show ?case by (cases "v x") force+
qed simp

lemma table_sat: "sat_correct (table_config ps)"
proof -
  have "case try_all f of Some m \<Rightarrow> eval (\<lambda>k. (k, True) \<in> set m) f | None \<Rightarrow> \<forall>v. \<not> eval v f" for f
  proof (cases "try_all f")
    case None
    have "\<not> eval v f" for v
    proof -
      let ?m = "map (\<lambda>x. (x, v x)) (remdups (vars f))"
      from None assignments_all [of v "remdups (vars f)"] have "\<not> eval (\<lambda>k. (k, True) \<in> set ?m) f"
        by (auto simp: try_all_def find_None_iff)
      moreover have "eval (\<lambda>k. (k, True) \<in> set ?m) f = eval v f" by (rule eval_cong) force
      ultimately show ?thesis by simp
    qed
    with None show ?thesis by simp
  next
    case (Some m)
    then have "eval (\<lambda>k. (k, True) \<in> set m) f" by (auto simp: try_all_def find_Some_iff)
    with Some show ?thesis by simp
  qed
  then show ?thesis by (simp add: sat_correct_def table_config_def)
qed

definition table_db :: "default_package list \<Rightarrow> default_package list \<Rightarrow> mem_db" where
  "table_db ps qs = (case create_all (scEnv (table_config ps)) qs NewInMemoryDatabase of Ok db \<Rightarrow> db | _ \<Rightarrow> NewInMemoryDatabase)"

definition table_solver :: "default_package list \<Rightarrow> default_package list \<Rightarrow> solver" where
  "table_solver ps installed =
     \<lparr>slDefs = queries_of (table_config ps) (table_db ps ps), slInstalled = queries_of (table_config ps) (table_db ps installed)\<rparr>"

definition two_bars :: "default_package list" where
  "two_bars =
     [demo_pkg ''foo'' ''1.0'' [demo_pkg ''bar'' ''>=1.0'' [] [], demo_pkg ''baz'' ''1.0'' [] []] [],
      demo_pkg ''baz'' ''1.0'' [] [], demo_pkg ''bar'' ''1.0'' [] [], demo_pkg ''bar'' ''2.0'' [] []]"

abbreviation two_config :: sat_config where
  "two_config \<equiv> table_config two_bars"

definition two_solver :: solver where
  "two_solver = table_solver two_bars []"

definition wants_foo :: "default_package list" where
  "wants_foo = [demo_pkg ''foo'' ''1.0'' [] []]"

definition is_Ok :: "'a outcome \<times> 's \<Rightarrow> bool" where
  "is_Ok r = (case fst r of Ok _ \<Rightarrow> True | _ \<Rightarrow> False)"

lemma is_OkE: "is_Ok r \<Longrightarrow> (\<And>a s. r = (Ok a, s) \<Longrightarrow> P) \<Longrightarrow> P"
  by (cases r) (auto simp: is_Ok_def split: outcome.splits)

lemma two_found:
  "list_all (\<lambda>w. quFind (slDefs two_solver) w = Ok w \<and> w \<in> set (versions_of (slDefs two_solver) w) \<and>
      list_all (\<lambda>q. q \<in> set (quWorld (slDefs two_solver))) (callees (slDefs two_solver) w)) (quWorld (slDefs two_solver))"
  "distinct (map human (quWorld (slDefs two_solver)))"
  by code_simp+

lemma two_coherent: "coherent (slDefs two_solver)"
  using two_found by (auto simp: coherent_def list_all_iff distinct_map)

lemma two_built_world: "is_Ok (BuildWorld two_config two_solver False new_state)"
  by code_simp

lemma two_built_v2_world: "is_Ok (v2_BuildWorld two_config two_solver False new_state)"
  by code_simp

lemma two_built_wanted: "is_Ok (solver_BuildFormula two_config two_solver wants_foo new_state)"
  by code_simp

lemma two_built_v2_wanted: "is_Ok (v2_BuildFormula two_config two_solver wants_foo new_state)"
  by code_simp

lemma two_built_install: "is_Ok (RelaxedInstall two_config two_solver wants_foo new_state)"
  by code_simp

lemmas two_built = two_built_world two_built_v2_world two_built_wanted two_built_v2_wanted two_built_install

theorem world_formulas_agree_witness:
  "\<exists>f g. fst (BuildWorld two_config two_solver False new_state) = Ok f \<and>
     fst (v2_BuildWorld two_config two_solver False new_state) = Ok g \<and> (\<forall>v. eval v f = eval v g)"
proof -
  obtain f s g t where run: "BuildWorld two_config two_solver False new_state = (Ok f, s)"
    "v2_BuildWorld two_config two_solver False new_state = (Ok g, t)"
    using two_built(1,2) by (elim is_OkE)
  show ?thesis using world_formulas_agree [OF two_coherent run] by (simp add: run)
qed


theorem RelaxedInstall_sound_witness:
  "\<exists>as wanted. fst (RelaxedInstall two_config two_solver wants_foo new_state) = Ok as \<and>
     solution two_solver wanted (\<lambda>k. k \<in> chosen as)"
proof -
  obtain as s where run: "RelaxedInstall two_config two_solver wants_foo new_state = (Ok as, s)"
    using two_built(5) by (elim is_OkE)
  have r: "\<forall>resolve f as. scResolver two_config = Some resolve \<longrightarrow> resolve f \<noteq> Ok as" by (simp add: table_config_def)
  have n: "\<not> noRules (slDefs two_solver)" by code_simp
  have w: "\<forall>w\<in>set (quWorld (slDefs two_solver)). quFind (slDefs two_solver) w = Ok w"
    using two_coherent by (simp add: coherent_def)
  from RelaxedInstall_sound [OF table_sat table_codec r n w run] show ?thesis by (auto simp: run)
qed

definition plain_bars :: "default_package list" where
  "plain_bars = [demo_pkg ''foo'' ''1.0'' [] [], demo_pkg ''bar'' ''1.0'' [] [], demo_pkg ''bar'' ''2.0'' [] []]"

definition installed_names :: "assertion list outcome \<Rightarrow> string list" where
  "installed_names r = (case r of Ok as \<Rightarrow> map (HumanReadableString \<circ> paPackage) (filter paValue as) | _ \<Rightarrow> [])"

text \<open>
  When no package of the definitions has a requirement or a conflict, a relaxed installation of another
  version of an installed package asserts both versions, which the formulas would exclude.
\<close>

theorem noRules_two_versions:
  "installed_names (fst (RelaxedInstall (table_config plain_bars) (table_solver plain_bars [plain_bars ! 1]) [plain_bars ! 2] new_state)) =
     [''c/bar-1.0'', ''c/bar-2.0''] \<and>
   \<not> solution (table_solver plain_bars [plain_bars ! 1]) [plain_bars ! 2] v"
proof (rule conjI)
  let ?sv = "table_solver plain_bars [plain_bars ! 1]"
  show "installed_names (fst (RelaxedInstall (table_config plain_bars) ?sv [plain_bars ! 2] new_state)) =
     [''c/bar-1.0'', ''c/bar-2.0'']" by code_simp
  have facts: "list_all (\<lambda>w. w \<in> set (quWorld (slDefs ?sv))) [plain_bars ! 2]"
    "list_all (\<lambda>w. w \<in> set (versions_of (slDefs ?sv) (plain_bars ! 2))) [plain_bars ! 1]"
    "list_all (\<lambda>w. w \<in> set (quWorld (slInstalled ?sv))) [plain_bars ! 1]"
    "fp (plain_bars ! 1) \<noteq> fp (plain_bars ! 2)"
    by code_simp+
  show "\<not> solution ?sv [plain_bars ! 2] v"
  proof
    assume s: "solution ?sv [plain_bars ! 2] v"
    then have two: "v (fp (plain_bars ! 2))" "v (fp (plain_bars ! 1))" using facts(3) by (auto simp: solution_def)
    from s facts(1) have "package_ok (slDefs ?sv) (versions_of (slDefs ?sv)) v (plain_bars ! 2)"
      by (simp add: solution_def consistent_def)
    with two facts(2,4) show False by (simp add: package_ok_def)
  qed
qed

end
