(* ===== verification/UniverseProofs.thy ===== *)
theory UniverseProofs
  imports Universe SatProofs
begin

text \<open>
  The topological sort of the assertions puts each requirement before the package that has it, and fails
  exactly at a cycle; and what removals and upgrades of a whole world ask of the satisfiability solver.
\<close>

section \<open>Topological sort\<close>

definition edge :: "graph \<Rightarrow> string \<Rightarrow> string \<Rightarrow> bool" where
  "edge g x y \<longleftrightarrow> y \<in> set (edges g x)"

text \<open>Every node of the list comes after those its edges lead to.\<close>

definition after_edges :: "graph \<Rightarrow> string list \<Rightarrow> bool" where
  "after_edges g xs \<longleftrightarrow> distinct xs \<and> (\<forall>ys x zs. xs = ys @ x # zs \<longrightarrow> set (edges g x) \<subseteq> set ys)"

lemma after_edges_Nil [simp]: "after_edges g []"
  by (simp add: after_edges_def)

lemma after_edges_add:
  assumes "after_edges g xs" "set (edges g x) \<subseteq> set xs"
  shows "after_edges g (ordered_add x xs)"
proof (cases "x \<in> set xs")
  case True
  with assms show ?thesis by (simp add: ordered_add_def)
next
  case False
  have "set (edges g y) \<subseteq> set ys" if "xs @ [x] = ys @ y # zs" for ys y zs
  proof (cases zs rule: rev_cases)
    case Nil
    with that assms(2) show ?thesis by simp
  next
    case (snoc zs' z)
    with that have "xs = ys @ y # zs'" by simp
    with assms(1) show ?thesis unfolding after_edges_def by blast
  qed
  moreover from False assms(1) have "distinct (xs @ [x])" by (simp add: after_edges_def)
  ultimately show ?thesis using False by (simp add: after_edges_def ordered_add_def)
qed

lemma set_ordered_add [simp]: "set (ordered_add x xs) = insert x (set xs)"
  by (auto simp: ordered_add_def)

definition reach :: "graph \<Rightarrow> string \<Rightarrow> string set" where
  "reach g x = {y. (edge g)\<^sup>*\<^sup>* x y}"

lemma reach_self [simp]: "x \<in> reach g x"
  by (simp add: reach_def)

lemma reach_step: "y \<in> set (edges g x) \<Longrightarrow> z \<in> reach g y \<Longrightarrow> z \<in> reach g x"
  unfolding reach_def edge_def by (simp add: converse_rtranclp_into_rtranclp)

lemma reach_cases:
  assumes "z \<in> reach g x"
  obtains "z = x" | y where "y \<in> set (edges g x)" "z \<in> reach g y"
proof -
  from assms have "(edge g)\<^sup>*\<^sup>* x z" by (simp add: reach_def)
  then show thesis by (cases rule: converse_rtranclpE) (use that in \<open>auto simp: reach_def edge_def\<close>)
qed

lemma reach_unfold: "reach g x = insert x (\<Union>y\<in>set (edges g x). reach g y)"
  by (auto elim: reach_cases intro: reach_step)

lemma visit_sorts:
  "visit g name results visited = Inr results' \<Longrightarrow> after_edges g results \<Longrightarrow>
     after_edges g results' \<and> set results' = set results \<union> reach g name"
  "visit_all g es results visited = Inr results' \<Longrightarrow> after_edges g results \<Longrightarrow>
     after_edges g results' \<and> set results' = set results \<union> (\<Union>e\<in>set es. reach g e)"
proof (induction g name results visited and g es results visited arbitrary: results' and results'
    rule: visit_visit_all.induct)
  case (1 g name results visited)
  from "1.prems"(1) obtain r where n: "name \<notin> set visited"
    and r: "visit_all g (edges g name) results (visited @ [name]) = Inr r" "results' = ordered_add name r"
    by (auto split: if_splits sum.splits)
  from "1.IH" [OF n r(1) "1.prems"(2)]
  have ih: "after_edges g r" "set r = set results \<union> (\<Union>e\<in>set (edges g name). reach g e)" by auto
  have "set (edges g name) \<subseteq> set r" unfolding ih(2) by auto
  with after_edges_add [OF ih(1)] have "after_edges g results'" by (simp add: r(2))
  moreover have "set results' = set results \<union> reach g name"
    by (subst reach_unfold) (use ih(2) r(2) in simp)
  ultimately show ?case by simp
next
  case (3 g e es results visited)
  from "3.prems"(1) obtain r where r: "visit g e results visited = Inr r" "visit_all g es r visited = Inr results'"
    by (auto split: sum.splits)
  from "3.IH"(1) [OF r(1) "3.prems"(2)] have one: "after_edges g r" "set r = set results \<union> reach g e" by auto
  from "3.IH"(2) [OF r(1) r(2) one(1)] one(2) show ?case by auto
qed simp

text \<open>What is on the path is not reached again, or the sort fails.\<close>

lemma visit_avoids:
  "visit g name results visited = Inr results' \<Longrightarrow>
     reach g name \<inter> set visited = {} \<and> (\<forall>x\<in>reach g name. \<not> (edge g)\<^sup>+\<^sup>+ x x)"
  "visit_all g es results visited = Inr results' \<Longrightarrow>
     \<forall>e\<in>set es. reach g e \<inter> set visited = {} \<and> (\<forall>x\<in>reach g e. \<not> (edge g)\<^sup>+\<^sup>+ x x)"
proof (induction g name results visited and g es results visited arbitrary: results' and results'
    rule: visit_visit_all.induct)
  case (1 g name results visited)
  from "1.prems" obtain r where n: "name \<notin> set visited"
    and r: "visit_all g (edges g name) results (visited @ [name]) = Inr r"
    by (auto split: if_splits sum.splits)
  note ih = "1.IH" [OF n r]
  have "\<not> (edge g)\<^sup>+\<^sup>+ name name"
  proof
    assume "(edge g)\<^sup>+\<^sup>+ name name"
    then obtain y where "edge g name y" "(edge g)\<^sup>*\<^sup>* y name" by (meson tranclpD)
    with ih show False by (auto simp: edge_def reach_def)
  qed
  with ih n show ?case by (subst (1 2) reach_unfold) auto
next
  case (3 g e es results visited)
  from "3.prems" obtain r where r: "visit g e results visited = Inr r" "visit_all g es r visited = Inr results'"
    by (auto split: sum.splits)
  from "3.IH"(1) [OF r(1)] "3.IH"(2) [OF r] show ?case by simp
qed simp

lemma visit_fails:
  "visit g name results visited = Inl er \<Longrightarrow> \<forall>v\<in>set visited. (edge g)\<^sup>+\<^sup>+ v name \<Longrightarrow>
     \<exists>x\<in>reach g name. (edge g)\<^sup>+\<^sup>+ x x"
  "visit_all g es results visited = Inl er \<Longrightarrow> \<forall>e\<in>set es. \<forall>v\<in>set visited. (edge g)\<^sup>+\<^sup>+ v e \<Longrightarrow>
     \<exists>e\<in>set es. \<exists>x\<in>reach g e. (edge g)\<^sup>+\<^sup>+ x x"
proof (induction g name results visited and g es results visited arbitrary: er and er rule: visit_visit_all.induct)
  case (1 g name results visited)
  show ?case
  proof (cases "name \<in> set visited")
    case True
    with "1.prems"(2) show ?thesis by (auto simp: reach_def)
  next
    case False
    with "1.prems"(1) have f: "visit_all g (edges g name) results (visited @ [name]) = Inl er"
      by (auto split: sum.splits)
    have "(edge g)\<^sup>+\<^sup>+ v e" if e: "e \<in> set (edges g name)" and v: "v \<in> set (visited @ [name])" for e v
    proof (cases "v = name")
      case True
      with e show ?thesis by (auto simp: edge_def)
    next
      case False
      with v "1.prems"(2) have "(edge g)\<^sup>+\<^sup>+ v name" by auto
      then show ?thesis by (rule tranclp.trancl_into_trancl) (simp add: edge_def e)
    qed
    then have "\<forall>e\<in>set (edges g name). \<forall>v\<in>set (visited @ [name]). (edge g)\<^sup>+\<^sup>+ v e" by blast
    from "1.IH" [OF False f this] show ?thesis by (subst reach_unfold) auto
  qed
next
  case (3 g e es results visited)
  show ?case
  proof (cases "visit g e results visited")
    case (Inl er')
    from "3.IH"(1) [OF Inl] "3.prems"(2) show ?thesis by auto
  next
    case (Inr r)
    with "3.prems"(1) have "visit_all g es r visited = Inl er" by simp
    from "3.IH"(2) [OF Inr this] "3.prems"(2) show ?thesis by auto
  qed
qed simp

lemma TopSort_returns: "(\<exists>xs. TopSort g name = Inr xs) \<longleftrightarrow> (\<forall>x\<in>reach g name. \<not> (edge g)\<^sup>+\<^sup>+ x x)"
proof (cases "TopSort g name")
  case (Inl e)
  with visit_fails(1) [of g name "[]" "[]" e] show ?thesis by (auto simp: TopSort_def)
next
  case (Inr xs)
  with visit_avoids(1) [of g name "[]" "[]" xs] show ?thesis by (auto simp: TopSort_def)
qed

lemma TopSort_sorts:
  assumes "TopSort g name = Inr xs"
  shows "after_edges g xs" "set xs = reach g name"
  using visit_sorts(1) [of g name "[]" "[]" xs] assms by (simp_all add: TopSort_def)

section \<open>The order of the assertions\<close>

abbreviation afp :: "assertion \<Rightarrow> string" where
  "afp a \<equiv> GetFingerPrint (paPackage a)"

definition needs :: "queries \<Rightarrow> assertion list \<Rightarrow> default_package list \<Rightarrow> string \<Rightarrow> bool" where
  "needs Q as rs y \<longleftrightarrow> (\<exists>r\<in>set rs. \<exists>d. required_def Q as r = Ok d \<and> GetFingerPrint d = y)"

text \<open>An assertion requires another one of the list.\<close>

definition requires_rel :: "queries \<Rightarrow> assertion list \<Rightarrow> string \<Rightarrow> string \<Rightarrow> bool" where
  "requires_rel Q as x y \<longleftrightarrow>
     y \<in> afp ` set as \<and> (\<exists>a\<in>set as. afp a = x \<and> needs Q as (PackageRequires (paPackage a)) y)"

lemma oseq_OkD: "oseq r f = Ok b \<Longrightarrow> \<exists>a. r = Ok a \<and> f a = Ok b"
  by (cases r) auto

lemma AddEdge_has [simp]: "gm_has (snd (AddEdge f t g)) k \<longleftrightarrow> gm_has g k"
  by (auto simp: AddEdge_def gm_has_def split: option.split)

text \<open>The edges without their order.\<close>

lemma edge_iff: "edge g x y \<longleftrightarrow> (\<exists>es. gm_get g x = Some es \<and> y \<in> set es)"
  by (cases "gm_get g x") (simp_all add: edge_def edges_def)

lemma AddEdge_get:
  "gm_get (snd (AddEdge f t g)) x =
     (if x = f \<and> gm_has g f \<and> gm_has g t
      then Some (case gm_get g f of Some es \<Rightarrow> (if t \<in> set es then es else es @ [t]) | None \<Rightarrow> []) else gm_get g x)"
  by (cases "gm_get g f"; cases "gm_get g t") (simp_all add: AddEdge_def gm_has_def)

lemma AddEdge_edge:
  "edge (snd (AddEdge f t g)) x y \<longleftrightarrow> edge g x y \<or> (x = f \<and> y = t \<and> gm_has g f \<and> gm_has g t)"
  by (cases "gm_get g f") (auto simp: edge_iff AddEdge_get gm_has_def)

lemma requires_edges_Ok:
  "requires_edges Q as f rs added g = Ok g' \<Longrightarrow>
   \<forall>y\<in>set added. gm_has g f \<and> gm_has g y \<longrightarrow> edge g f y \<Longrightarrow>
     (\<forall>k. gm_has g' k \<longleftrightarrow> gm_has g k) \<and>
     (\<forall>x y. edge g' x y \<longleftrightarrow> edge g x y \<or> (x = f \<and> gm_has g f \<and> gm_has g y \<and> needs Q as rs y))"
proof (induction Q as f rs added g rule: requires_edges.induct)
  case (2 Q as f r rs added g)
  from "2.prems"(1) obtain d where d: "required_def Q as r = Ok d"
    and run: "(if GetFingerPrint d \<in> set added then requires_edges Q as f rs added g
      else requires_edges Q as f rs (GetFingerPrint d # added) (snd (AddEdge f (GetFingerPrint d) g))) = Ok g'"
    by (auto dest!: oseq_OkD)
  have needs: "needs Q as (r # rs) y \<longleftrightarrow> y = GetFingerPrint d \<or> needs Q as rs y" for y
    by (auto simp: needs_def d)
  show ?case
  proof (cases "GetFingerPrint d \<in> set added")
    case True
    with run have "requires_edges Q as f rs added g = Ok g'" by simp
    from "2.IH"(1) [OF True this "2.prems"(2)] True "2.prems"(2) show ?thesis by (auto simp: needs)
  next
    case False
    let ?g = "snd (AddEdge f (GetFingerPrint d) g)"
    from run False have run': "requires_edges Q as f rs (GetFingerPrint d # added) ?g = Ok g'" by simp
    have "\<forall>y\<in>set (GetFingerPrint d # added). gm_has ?g f \<and> gm_has ?g y \<longrightarrow> edge ?g f y"
      using "2.prems"(2) by (auto simp: AddEdge_edge)
    from "2.IH"(2) [OF False run' this] show ?thesis by (auto simp: needs AddEdge_edge)
  qed
qed (simp add: needs_def)

lemma assertions_edges_Ok:
  "assertions_edges Q as bs g = Ok g' \<Longrightarrow>
     (\<forall>k. gm_has g' k \<longleftrightarrow> gm_has g k) \<and>
     (\<forall>x y. edge g' x y \<longleftrightarrow> edge g x y \<or>
        (gm_has g x \<and> gm_has g y \<and> (\<exists>a\<in>set bs. afp a = x \<and> needs Q as (PackageRequires (paPackage a)) y)))"
proof (induction Q as bs g rule: assertions_edges.induct)
  case (2 Q as a bs g)
  from "2.prems" obtain g1 where g1: "requires_edges Q as (afp a) (PackageRequires (paPackage a)) [] g = Ok g1"
    "assertions_edges Q as bs g1 = Ok g'" by (auto dest!: oseq_OkD)
  from requires_edges_Ok [OF g1(1)] "2.IH" [OF g1(2)] show ?case by auto
qed simp

lemma add_nodes_has: "gm_has (add_nodes as g) k \<longleftrightarrow> gm_has g k \<or> k \<in> afp ` set as"
  by (induction as g rule: add_nodes.induct) (auto simp: AddNode_def)

lemma AddNode_edge [simp]: "edge (AddNode n g) x y \<longleftrightarrow> edge g x y"
  by (auto simp: edge_iff AddNode_def gm_has_def)

lemma add_nodes_edge [simp]: "edge (add_nodes as g) x y \<longleftrightarrow> edge g x y"
  by (induction as g rule: add_nodes.induct) auto

lemma Order_graph:
  assumes "assertions_edges Q as (srt assertion_Less as) (add_nodes as []) = Ok g" "go_sort srt"
  shows "edge g = requires_rel Q as"
proof (intro ext)
  fix x y
  have "set (srt assertion_Less as) = set as" by (rule go_sort.srt_set [OF assms(2)])
  moreover have "\<not> edge [] x y" by (simp add: edge_def edges_def)
  ultimately show "edge g x y \<longleftrightarrow> requires_rel Q as x y"
    using assertions_edges_Ok [OF assms(1)] by (auto simp: add_nodes_has requires_rel_def)
qed

lemma by_fingerprint_get:
  "gm_get (by_fingerprint as m) k =
     (case gm_get (by_fingerprint as []) k of Some a \<Rightarrow> Some a | None \<Rightarrow> gm_get m k)"
proof (induction as arbitrary: m)
  case (Cons a as)
  show ?case using Cons.IH [of "gm_set (afp a) a m"] Cons.IH [of "gm_set (afp a) a []"]
    by (auto split: option.splits)
qed simp

lemma by_fingerprint_Some: "gm_get (by_fingerprint as []) k = Some a \<Longrightarrow> a \<in> set as \<and> afp a = k"
proof (induction as)
  case (Cons b as)
  from Cons.prems by_fingerprint_get [of as "gm_set (afp b) b []" k] Cons.IH show ?case
    by (auto split: option.splits if_splits)
qed simp

lemma by_fingerprint_None: "gm_get (by_fingerprint as []) k = None \<longleftrightarrow> k \<notin> afp ` set as"
proof (induction as)
  case (Cons b as)
  from by_fingerprint_get [of as "gm_set (afp b) b []" k] Cons.IH show ?case
    by (auto split: option.splits)
qed simp

lemma map_filter_fps:
  "map afp (List.map_filter (\<lambda>f. gm_get (by_fingerprint as []) f) xs) = filter (\<lambda>f. f \<in> afp ` set as) xs"
proof (induction xs)
  case (Cons x xs)
  show ?case
  proof (cases "gm_get (by_fingerprint as []) x")
    case None
    with Cons by_fingerprint_None [of as x] show ?thesis by (simp add: List.map_filter_simps)
  next
    case (Some a)
    with Cons by_fingerprint_Some [OF Some] show ?thesis by (auto simp: List.map_filter_simps)
  qed
qed (simp add: List.map_filter_simps)

text \<open>The order of a filtered list.\<close>

lemma after_edges_index:
  assumes "after_edges g xs" "edge g (filter P xs ! i) (filter P xs ! j)" "i < length (filter P xs)"
    "j < length (filter P xs)"
  shows "j < i"
proof -
  let ?f = "filter P xs"
  have "\<exists>ys zs. xs = ys @ ?f ! i # zs \<and> filter P ys = take i ?f"
    using assms(3)
  proof (induction xs arbitrary: i)
    case (Cons x xs)
    show ?case
    proof (cases "P x")
      case True
      show ?thesis
      proof (cases i)
        case 0
        with True show ?thesis by (intro exI [of _ "[]"] exI [of _ xs]) simp
      next
        case (Suc k)
        with Cons.prems True have "k < length (filter P xs)" by simp
        from Cons.IH [OF this] obtain ys zs where "xs = ys @ filter P xs ! k # zs" "filter P ys = take k (filter P xs)"
          by blast
        with True Suc show ?thesis by (intro exI [of _ "x # ys"] exI [of _ zs]) simp
      qed
    next
      case False
      with Cons.prems have "i < length (filter P xs)" by simp
      from Cons.IH [OF this] obtain ys zs where "xs = ys @ filter P xs ! i # zs" "filter P ys = take i (filter P xs)"
        by blast
      with False show ?thesis by (intro exI [of _ "x # ys"] exI [of _ zs]) simp
    qed
  qed simp
  then obtain ys zs where xs: "xs = ys @ ?f ! i # zs" "filter P ys = take i ?f" by blast
  from assms(1) xs(1) have "set (edges g (?f ! i)) \<subseteq> set ys" unfolding after_edges_def by blast
  with assms(2) have "?f ! j \<in> set ys" by (auto simp: edge_def)
  moreover have "P (?f ! j)" using assms(4) nth_mem by fastforce
  ultimately have "?f ! j \<in> set (take i ?f)" unfolding xs(2) [symmetric] by simp
  then obtain k where k: "k < i" "k < length ?f" "?f ! k = ?f ! j" by (auto simp: in_set_conv_nth)
  have "distinct ?f" using assms(1) by (simp add: after_edges_def)
  with k assms(4) have "k = j" by (simp add: nth_eq_iff_index_eq)
  with k show ?thesis by simp
qed

definition requires_found :: "queries \<Rightarrow> assertion list \<Rightarrow> bool" where
  "requires_found Q as \<longleftrightarrow> (\<forall>a\<in>set as. \<forall>r\<in>set (PackageRequires (paPackage a)). \<exists>d. required_def Q as r = Ok d)"

lemma requires_edges_returns:
  "\<forall>r\<in>set rs. \<exists>d. required_def Q as r = Ok d \<Longrightarrow> \<exists>g'. requires_edges Q as f rs added g = Ok g'"
  by (induction Q as f rs added g rule: requires_edges.induct) auto

lemma assertions_edges_returns:
  assumes "requires_found Q as"
  shows "set bs \<subseteq> set as \<Longrightarrow> \<exists>g'. assertions_edges Q as bs g = Ok g'"
proof (induction bs arbitrary: g)
  case (Cons b bs)
  with assms requires_edges_returns [of "PackageRequires (paPackage b)" Q as "afp b" "[]" g]
  obtain g1 where "requires_edges Q as (afp b) (PackageRequires (paPackage b)) [] g = Ok g1"
    by (auto simp: requires_found_def)
  with Cons show ?case by simp
qed simp

lemma Order_run:
  assumes "go_sort srt" "requires_found Q as"
  obtains g where "edge g = requires_rel Q as"
    "assertions_Order srt Q as f =
      (case TopSort g f of Inl e \<Rightarrow> Err (''fail on sorting '' @ f @ '': '' @ e)
       | Inr result \<Rightarrow> Ok (List.map_filter (\<lambda>f. gm_get (by_fingerprint as []) f) result))"
proof -
  have "set (srt assertion_Less as) \<subseteq> set as" by (simp add: go_sort.srt_set [OF assms(1)])
  from assertions_edges_returns [OF assms(2) this] obtain g
    where g: "assertions_edges Q as (srt assertion_Less as) (add_nodes as []) = Ok g" by blast
  show thesis by (rule that [OF Order_graph [OF g assms(1)]]) (simp add: assertions_Order_def g)
qed

text \<open>
  C26: Where every requirement can be looked up, \<open>Order\<close> fails exactly when the requirements that lead on
  from the given package have a circle; otherwise it returns, each once, the assertions the package
  requires directly or through others, and every assertion comes after those it requires.
\<close>

theorem Order_correct:
  assumes "go_sort srt" "requires_found Q as"
  shows "((\<exists>e. assertions_Order srt Q as f = Err e) \<longleftrightarrow>
      (\<exists>x. (requires_rel Q as)\<^sup>*\<^sup>* f x \<and> (requires_rel Q as)\<^sup>+\<^sup>+ x x)) \<and>
    (\<forall>bs. assertions_Order srt Q as f = Ok bs \<longrightarrow>
      distinct (map afp bs) \<and> set bs \<subseteq> set as \<and>
      afp ` set bs = {x \<in> afp ` set as. (requires_rel Q as)\<^sup>*\<^sup>* f x} \<and>
      (\<forall>i<length bs. \<forall>j<length bs. requires_rel Q as (afp (bs ! i)) (afp (bs ! j)) \<longrightarrow> j < i))"
proof -
  obtain g where g: "edge g = requires_rel Q as" and run: "assertions_Order srt Q as f =
      (case TopSort g f of Inl e \<Rightarrow> Err (''fail on sorting '' @ f @ '': '' @ e)
       | Inr result \<Rightarrow> Ok (List.map_filter (\<lambda>f. gm_get (by_fingerprint as []) f) result))"
    by (rule Order_run [OF assms])
  show ?thesis
  proof (cases "TopSort g f")
    case (Inl e)
    with TopSort_returns [of g f] run show ?thesis by (auto simp: g reach_def)
  next
    case (Inr xs)
    let ?bs = "List.map_filter (\<lambda>f. gm_get (by_fingerprint as []) f) xs"
    from TopSort_returns [of g f] Inr have acyclic: "\<forall>x. (edge g)\<^sup>*\<^sup>* f x \<longrightarrow> \<not> (edge g)\<^sup>+\<^sup>+ x x"
      by (auto simp: reach_def)
    note sorts = TopSort_sorts [OF Inr]
    note fps = map_filter_fps [of as xs]
    have "distinct xs" using sorts(1) by (simp add: after_edges_def)
    then have "distinct (map afp ?bs)" unfolding fps by simp
    moreover have "set ?bs \<subseteq> set as" using by_fingerprint_Some [of as] by_fingerprint_None [of as] by (fastforce simp: List.map_filter_def)
    moreover have "afp ` set ?bs = {x \<in> afp ` set as. (edge g)\<^sup>*\<^sup>* f x}"
      unfolding set_map [symmetric] fps using sorts(2) by (auto simp: reach_def)
    moreover have "j < i" if "i < length ?bs" "j < length ?bs" "edge g (afp (?bs ! i)) (afp (?bs ! j))" for i j
      using after_edges_index [OF sorts(1), of "\<lambda>f. f \<in> afp ` set as" i j] that unfolding fps [symmetric] by simp
    ultimately show ?thesis using run acyclic unfolding Inr g by auto
  qed
qed

definition foo_solution :: "assertion list" where
  "foo_solution = all_true [two_bars ! 0, two_bars ! 3, two_bars ! 1]"

definition foo_order :: "assertion list outcome" where
  "foo_order = assertions_Order insertion_sort (slDefs two_solver) foo_solution (fp (two_bars ! 0))"

lemma foo_order_returns: "case foo_order of Ok bs \<Rightarrow> length bs = 3 | _ \<Rightarrow> False"
  by code_simp

lemma foo_found:
  "list_all (\<lambda>a. list_all (\<lambda>r. case required_def (slDefs two_solver) foo_solution r of Ok d \<Rightarrow> True | _ \<Rightarrow> False)
     (PackageRequires (paPackage a))) foo_solution"
  by code_simp

theorem Order_correct_witness:
  "\<exists>bs. foo_order = Ok bs \<and> length bs = 3 \<and> distinct (map afp bs) \<and>
     (\<forall>i<length bs. \<forall>j<length bs.
        requires_rel (slDefs two_solver) foo_solution (afp (bs ! i)) (afp (bs ! j)) \<longrightarrow> j < i)"
proof -
  have "requires_found (slDefs two_solver) foo_solution"
    using foo_found unfolding requires_found_def list_all_iff by (fastforce split: outcome.splits)
  note c = Order_correct [OF isort.go_sort_axioms this, of "fp (two_bars ! 0)", folded foo_order_def]
  obtain bs where bs: "foo_order = Ok bs" "length bs = 3"
    using foo_order_returns by (simp split: outcome.splits)
  with c show ?thesis by auto
qed

section \<open>Nothing installed\<close>

abbreviation nothing :: "string \<Rightarrow> bool" where
  "nothing \<equiv> \<lambda>k. False"

abbreviation idle :: "formula list \<Rightarrow> bool" where
  "idle fs \<equiv> list_all (eval nothing) fs"

text \<open>The formulas that a run returns hold when nothing is installed.\<close>

definition runs_idle :: "('a \<Rightarrow> formula list) \<Rightarrow> 'a outcome \<times> 's \<Rightarrow> bool" where
  "runs_idle fs m \<longleftrightarrow> (\<forall>a s'. m = (Ok a, s') \<longrightarrow> idle (fs a))"

lemma runs_idleD: "runs_idle fs m \<Longrightarrow> m = (Ok a, s') \<Longrightarrow> idle (fs a)"
  by (simp add: runs_idle_def)

lemma runs_idle_Ok [simp]: "runs_idle fs (Ok a, s) \<longleftrightarrow> idle (fs a)"
  by (simp add: runs_idle_def)

lemma runs_idle_Fuel [simp]: "runs_idle fs (Fuel, s)"
  by (simp add: runs_idle_def)

lemma runs_idle_skip: "(\<And>a s. runs_idle fs (f a s)) \<Longrightarrow> runs_idle fs (obind m f)"
  by (cases m; cases "fst m") (auto simp: runs_idle_def)

lemma runs_idle_bind:
  assumes "runs_idle gs m" "\<And>a s. idle (gs a) \<Longrightarrow> runs_idle fs (f a s)"
  shows "runs_idle fs (obind m f)"
proof (cases m)
  case (Pair r s)
  then show ?thesis using assms by (cases r) (auto simp: runs_idle_def)
qed

definition style_idle :: "formula_style \<Rightarrow> bool" where
  "style_idle S \<longleftrightarrow>
     (\<forall>p a s. runs_idle id (fsVersions S p a s)) \<and> (\<forall>a ps p b s. runs_idle id (fsAtMost S a ps p b s))"

lemma style1_idle: "style_idle (style1 E Q)"
  unfolding style_idle_def style1_def
  using version_rules_Ok [of E _ _ _ _ _ _ nothing] at_most_Ok [of E _ _ _ _ _ _ _ nothing]
  by (auto simp: runs_idle_def dest!: obind_OkD)

lemma alternatives_idle:
  assumes "style_idle S"
  shows "runs_idle fst (alternatives E (fsAtMost S a qs) ps s)"
proof (induction ps arbitrary: s)
  case (Cons p ps)
  have a: "runs_idle id (fsAtMost S a qs p b s)" for b s using assms by (simp add: style_idle_def)
  show ?case unfolding alternatives.simps
    by (rule runs_idle_skip, rule runs_idle_bind [OF a], rule runs_idle_bind [OF Cons.IH]) auto
qed simp

lemma each_idle:
  assumes "\<And>p s. runs_idle id (build_with E Q S n p s)"
  shows "runs_idle id (each_rules E Q S n a ps s)"
proof (induction ps arbitrary: s)
  case (Cons p ps)
  show ?case unfolding each_rules.simps
    by (rule runs_idle_skip, rule runs_idle_bind [OF assms], rule runs_idle_bind [OF Cons.IH]) (simp add: implies_def)
qed simp

lemma conflicts_idle:
  assumes "\<And>p s. runs_idle id (build_with E Q S n p s)"
  shows "runs_idle id (conflicts_rules E Q S n a cs s)"
proof (induction cs arbitrary: s)
  case (Cons c cs)
  show ?case unfolding conflicts_rules.simps
    by (rule runs_idle_skip, rule runs_idle_bind [OF each_idle [OF assms]], rule runs_idle_bind [OF Cons.IH]) simp
qed simp

lemma requires_idle:
  assumes S: "style_idle S" and build: "\<And>p s. runs_idle id (build_with E Q S n p s)"
  shows "runs_idle id (requires_rules E Q S n a rs s)"
proof (induction rs arbitrary: s)
  case (Cons r rs)
  show ?case unfolding requires_rules.simps
  proof (rule runs_idle_skip)
    fix t s
    show "runs_idle id (case t of
        One q \<Rightarrow> obind (Encode E q s) (\<lambda>b s. obind (build_with E Q S n q s) (\<lambda>fs s.
          obind (requires_rules E Q S n a rs s) (\<lambda>gs s. (Ok (implies a (FVar b) # fs @ gs), s))))
      | Many ps \<Rightarrow> obind (alternatives E (fsAtMost S a ps) ps s) (\<lambda>(fs, alo) s.
          obind (requires_rules E Q S n a rs s) (\<lambda>gs s. (Ok (fs @ implies a (FOr (map FVar alo)) # gs), s))))"
    proof (cases t)
      case (One q)
      show ?thesis unfolding One target.case
        by (rule runs_idle_skip, rule runs_idle_bind [OF build], rule runs_idle_bind [OF Cons.IH]) simp
    next
      case (Many ps)
      show ?thesis unfolding Many target.case
        by (rule runs_idle_bind [OF alternatives_idle [OF S]], clarify, rule runs_idle_bind [OF Cons.IH]) simp
    qed
  qed
qed simp

lemma build_idle: "style_idle S \<Longrightarrow> runs_idle id (build_with E Q S n p s)"
proof (induction n arbitrary: p s)
  case (Suc n)
  have v: "runs_idle id (fsVersions S q a s)" for q a s using Suc.prems by (simp add: style_idle_def)
  have "runs_idle id (obind (fsSelf S p, s\<lparr>saVisited := human p # saVisited s\<rparr>) (\<lambda>q s.
        obind (Encode E q s) (\<lambda>a s. obind (fsVersions S q a s) (\<lambda>fs s.
        obind (requires_rules E Q S n a (PackageRequires q) s) (\<lambda>gs s.
        obind (conflicts_rules E Q S n a (PackageConflicts q) s) (\<lambda>hs s. (Ok (fs @ gs @ hs), s)))))))"
    by (rule runs_idle_skip, rule runs_idle_skip, rule runs_idle_bind [OF v],
        rule runs_idle_bind [OF requires_idle [OF Suc.prems Suc.IH [OF Suc.prems]]],
        rule runs_idle_bind [OF conflicts_idle [OF Suc.IH [OF Suc.prems]]]) simp
  then show ?case by (simp add: id_def)
qed simp

lemma omap_idle:
  assumes "\<And>x s. runs_idle id (f x s)"
  shows "runs_idle concat (omap_st f xs s)"
proof (induction xs arbitrary: s)
  case (Cons x xs)
  show ?case unfolding omap_st.simps
    by (rule runs_idle_bind [OF assms], rule runs_idle_bind [OF Cons.IH]) simp
qed simp

lemma formulas_idle: "runs_idle id (formulas_of C Q ps s)"
  unfolding formulas_of_def BuildFormula_def package_buildFormula_def
  by (rule runs_idle_bind [OF omap_idle [OF build_idle [OF style1_idle]]]) simp

section \<open>Removal from the world\<close>

lemma omap_members: "omap f xs = Ok ys \<Longrightarrow> x \<in> set xs \<Longrightarrow> \<exists>y\<in>set ys. f x = Ok y"
  by (induction xs arbitrary: ys) (auto dest!: oseq_OkD)

text \<open>The formulas of the installed packages, those of a list that has all of them.\<close>

lemma BuildInstalled_Ok:
  assumes "BuildInstalled C sv s = (Ok r, s')"
  shows "\<exists>ps gs. set (quWorld (slInstalled sv)) \<subseteq> set ps \<and>
    formulas_of C (slInstalled sv) ps s = (Ok gs, s') \<and> r = FAnd gs"
proof -
  let ?f = "\<lambda>p. oseq (Related (scDb C) (slInstalled sv) (scFormulas C) p) (\<lambda>deps. Ok (p # deps))"
  from assms obtain pss gs where r: "omap ?f (quWorld (slInstalled sv)) = Ok pss"
    "formulas_of C (slInstalled sv) (concat pss) s = (Ok gs, s')" "r = FAnd gs"
    unfolding BuildInstalled_def by (auto dest!: obind_OkD)
  have "p \<in> set (concat pss)" if "p \<in> set (quWorld (slInstalled sv))" for p
    using omap_members [OF r(1) that] by (force dest!: oseq_OkD)
  with r show ?thesis by blast
qed

lemma formulas_keep_rules:
  assumes "formulas_of C Q ps s = (Ok gs, s')" "list_all (eval v) gs" "p \<in> set ps" "quFind Q p = Ok p"
  shows "package_ok Q (versions_of Q) v p"
proof -
  from formulas_of_build [OF assms(1)] obtain fss where f: "gs = concat fss"
    "omap_st (\<lambda>p s. build_with (scEnv C) Q (style1 (scEnv C) Q) (scFormulas C) p (s\<lparr>saVisited := []\<rparr>)) ps s = (Ok fss, s')"
    by blast
  from v1.builds_each [OF f(2)] assms(2,3) have "v1.keeps_rules Q (scEnv C) v p" by (simp add: f(1))
  moreover have "fsSelf (style1 (scEnv C) Q) p = Ok p" by (simp add: style1_def assms(4))
  ultimately show ?thesis by (auto simp: v1.keeps_rules_def)
qed

lemma absent_Ok:
  "absent_formulas E r ps u = (Ok fs, u') \<Longrightarrow>
     (list_all (eval v) fs \<longleftrightarrow> (\<forall>p\<in>set ps. \<not> v (fp p)) \<and> (ps \<noteq> [] \<longrightarrow> eval v r))"
proof (induction ps arbitrary: u fs)
  case (Cons p ps)
  from Cons.prems obtain a u1 gs where g: "Encode E p u = (Ok a, u1)" "absent_formulas E r ps u1 = (Ok gs, u')"
    "fs = FAnd [FNot (FVar a), r] # gs" by (auto dest!: obind_OkD)
  with Cons.IH [OF g(2)] Encode_Ok(1) [OF g(1)] show ?case by auto
qed simp

lemma absent_keeps: "sound E u \<Longrightarrow> sound E (snd (absent_formulas E r ps u))"
proof (induction ps arbitrary: u)
  case (Cons p ps)
  show ?case unfolding absent_formulas.simps
    by (rule obind_keeps, rule Encode_keeps [OF Cons.prems], rule obind_keeps, rule Cons.IH) auto
qed simp

lemma Unique_fps:
  assumes "map_order it"
  shows "fp ` set (Unique it ps) = fp ` set ps"
proof -
  from Unique_spec [OF assms, of ps]
  have u: "p \<in> set (Unique it ps) \<longleftrightarrow> find (\<lambda>q. fp q = fp p) (rev ps) = Some p" for p by auto
  have "fp q \<in> fp ` set (Unique it ps)" if "q \<in> set ps" for q
  proof -
    from that obtain p where p: "find (\<lambda>x. fp x = fp q) (rev ps) = Some p"
      by (cases "find (\<lambda>x. fp x = fp q) (rev ps)") (auto simp: find_None_iff)
    then have "fp p = fp q" by (auto simp: find_Some_iff)
    with p have "find (\<lambda>x. fp x = fp p) (rev ps) = Some p" by simp
    with u [of p] \<open>fp p = fp q\<close> show ?thesis by (metis image_eqI)
  qed
  moreover have "p \<in> set ps" if "p \<in> set (Unique it ps)" for p
    using that u [of p] by (auto simp: find_Some_iff) (metis length_rev nth_mem set_rev)
  ultimately show ?thesis by blast
qed

lemma wrapped_Ok [simp]: "wrapped m r = Ok a \<longleftrightarrow> r = Ok a"
  by (cases r) auto

lemma map_prod_wrapped: "map_prod (wrapped m) id p = (Ok a, s) \<longleftrightarrow> p = (Ok a, s)"
  by (cases p) simp

text \<open>
  What a run of \<open>UninstallUniverse\<close> selects: the packages found for those asked for, the assertions decoded from
  the model that the solver gives for its formulas, and the database with the packages encoded.
\<close>

definition uninstall_selection ::
    "sat_config \<Rightarrow> mem_db \<Rightarrow> default_package list \<Rightarrow> sat_state \<Rightarrow> default_package list \<Rightarrow> assertion list \<Rightarrow> mem_db \<Rightarrow> bool" where
  "uninstall_selection C idb toremove s ps as db \<longleftrightarrow>
     (let Q = queries_of C idb
      in getList (scDb C) Q toremove = Ok ps \<and>
         (\<exists>r s1 fs u m. BuildInstalled C \<lparr>slDefs = Q, slInstalled = Q\<rparr> s = (Ok r, s1) \<and>
            absent_formulas (scEnv C) r (Unique (deOrder (scDb C)) ps) (db_state idb) = (Ok fs, u) \<and>
            scSolve C (FAnd fs) = Some m \<and> DecodeModel (scDb C) m (saDb u) = Ok as \<and> db = saDb u))"

text \<open>A model binds every variable of its formula.\<close>

definition binds_all :: "sat_config \<Rightarrow> bool" where
  "binds_all C \<longleftrightarrow> (\<forall>f m. scSolve C f = Some m \<longrightarrow> set (vars f) \<subseteq> fst ` set m)"

lemma marked_set:
  "marked_for_removal Q as = Ok ps \<Longrightarrow> set ps = {q. \<exists>a\<in>set as. \<not> paValue a \<and> quFind Q (paPackage a) = Ok q}"
  by (induction as arbitrary: ps) (force dest!: oseq_OkD split: if_splits outcome.splits)+

lemma absent_vars:
  "absent_formulas E r ps u = (Ok fs, u') \<Longrightarrow> fp ` set ps \<subseteq> set (vars (FAnd fs))"
proof (induction ps arbitrary: u fs)
  case (Cons p ps)
  from Cons.prems obtain a u1 gs where g: "Encode E p u = (Ok a, u1)" "absent_formulas E r ps u1 = (Ok gs, u')"
    "fs = FAnd [FNot (FVar a), r] # gs" by (auto dest!: obind_OkD)
  with Cons.IH [OF g(2)] Encode_Ok(1) [OF g(1)] show ?case by auto
qed simp

text \<open>
  C27: What \<open>UninstallUniverse\<close> removes when some installed package has a rule: exactly the packages found in the
  database for the false assertions of the model that its formulas have.  Each package asked for is one of the
  false assertions; and when there is any, every installed package that the model selects keeps its rules: none
  of its other versions is selected, its requirements are met by what is selected and its conflicts are not.
\<close>

theorem UninstallUniverse_sound:
  assumes "sat_correct C" "binds_all C" "codec_ok (scDb C)" "map_order (deOrder (scDb C))" "db_sound (scDb C) idb"
    and "\<not> noRules (queries_of C idb)"
    and "\<forall>w\<in>set (quWorld (queries_of C idb)). quFind (queries_of C idb) w = Ok w"
    and "UninstallUniverse C idb toremove s = (Ok removal, s')"
  shows "\<exists>ps as db. uninstall_selection C idb toremove s ps as db \<and>
    set removal = {q. \<exists>a\<in>set as. \<not> paValue a \<and> quFind (queries_of C db) (paPackage a) = Ok q} \<and>
    (\<forall>p\<in>set ps. fp p \<notin> chosen as \<and> (\<exists>a\<in>set as. fp (paPackage a) = fp p \<and> \<not> paValue a)) \<and>
    (ps \<noteq> [] \<longrightarrow> (\<forall>w\<in>set (quWorld (queries_of C idb)).
       package_ok (queries_of C idb) (versions_of (queries_of C idb)) (\<lambda>k. k \<in> chosen as) w))"
proof -
  let ?Q = "queries_of C idb" and ?o = "deOrder (scDb C)"
  from assms(6,8) obtain ps r s1 fs u where run: "getList (scDb C) ?Q toremove = Ok ps"
    "BuildInstalled C \<lparr>slDefs = ?Q, slInstalled = ?Q\<rparr> s = (Ok r, s1)"
    "absent_formulas (scEnv C) r (Unique ?o ps) (db_state idb) = (Ok fs, u)"
    and tail: "(case scSolve C (FAnd fs) of None \<Rightarrow> Err ''Failed finding a solution''
      | Some model \<Rightarrow> oseq (wrapped ''while decoding model from solution'' (DecodeModel (scDb C) model (saDb u)))
          (marked_for_removal (queries_of C (saDb u)))) = Ok removal"
    unfolding UninstallUniverse_def Let_def
    by (auto dest!: obind_OkD oseq_OkD simp: map_prod_wrapped split: prod.splits)
  from tail obtain m as where m: "scSolve C (FAnd fs) = Some m" "DecodeModel (scDb C) m (saDb u) = Ok as"
    "marked_for_removal (queries_of C (saDb u)) as = Ok removal"
    by (auto dest!: oseq_OkD split: option.splits)
  have "sound (scEnv C) (db_state idb)" by (simp add: sound_def db_state_def assms(3,5))
  from absent_keeps [OF this, of r "Unique ?o ps"] have "db_sound (scDb C) (saDb u)"
    by (simp add: run(3) sound_def)
  from decoded_model [OF this m(2)] have as: "map (\<lambda>a. (fp (paPackage a), paValue a)) as = m" .
  from chosen_model [OF as] have v: "(\<lambda>k. k \<in> chosen as) = (\<lambda>k. (k, True) \<in> set m)" by blast
  from assms(1) [unfolded sat_correct_def, rule_format, of "FAnd fs"] m(1)
  have sat: "list_all (eval (\<lambda>k. k \<in> chosen as)) fs" by (simp add: v)
  note abs = absent_Ok [OF run(3), of "\<lambda>k. k \<in> chosen as"]
  have fps: "fp ` set (Unique ?o ps) = fp ` set ps" by (rule Unique_fps [OF assms(4)])
  have absent: "fp p \<notin> chosen as \<and> (\<exists>a\<in>set as. fp (paPackage a) = fp p \<and> \<not> paValue a)" if "p \<in> set ps" for p
  proof -
    have p: "fp p \<in> fp ` set (Unique ?o ps)" using that fps by blast
    with sat abs have out: "fp p \<notin> chosen as" by auto
    have "fp p \<in> set (vars (FAnd fs))" using absent_vars [OF run(3)] p by blast
    then have "fp p \<in> fst ` set m" using assms(2) m(1) unfolding binds_all_def by blast
    then obtain a where "a \<in> set as" "fp (paPackage a) = fp p" unfolding as [symmetric] by auto
    with out show ?thesis unfolding chosen_def by force
  qed
  have rules: "package_ok ?Q (versions_of ?Q) (\<lambda>k. k \<in> chosen as) w"
    if "ps \<noteq> []" and w: "w \<in> set (quWorld ?Q)" for w
  proof -
    from that(1) fps have "Unique ?o ps \<noteq> []" by auto
    with sat abs have r: "eval (\<lambda>k. k \<in> chosen as) r" by simp
    from BuildInstalled_Ok [OF run(2)] obtain qs gs where gs: "set (quWorld ?Q) \<subseteq> set qs"
      "formulas_of C ?Q qs s = (Ok gs, s1)" "r = FAnd gs" by auto
    from formulas_keep_rules [OF gs(2)] r w gs(1) assms(7) show ?thesis by (auto simp: gs(3))
  qed
  have "uninstall_selection C idb toremove s ps as (saDb u)"
    unfolding uninstall_selection_def Let_def using run m(1,2) by blast
  then show ?thesis using marked_set [OF m(3)] absent rules by blast
qed

text \<open>
  Nothing in the formulas of \<open>UninstallUniverse\<close> asks for a package to stay: the selection of no package at
  all satisfies them, whatever is installed and asked for.
\<close>

theorem UninstallUniverse_nothing_stays:
  assumes "BuildInstalled C sv s = (Ok r, s')" "absent_formulas (scEnv C) r ps u = (Ok fs, u')"
  shows "eval (\<lambda>k. False) (FAnd fs)"
proof -
  from BuildInstalled_Ok [OF assms(1)] obtain qs gs where gs: "formulas_of C (slInstalled sv) qs s = (Ok gs, s')" "r = FAnd gs"
    by blast
  with formulas_idle [of C "slInstalled sv" qs s] have "eval nothing r" by (auto dest: runs_idleD)
  with absent_Ok [OF assms(2), of nothing] show ?thesis by simp
qed

section \<open>Upgrade of the world\<close>

text \<open>The old package is absent, the new one present with its rules, unless they could not be written down.\<close>

definition replaced :: "sat_config \<Rightarrow> queries \<Rightarrow> (string \<Rightarrow> bool) \<Rightarrow> default_package \<Rightarrow> default_package \<Rightarrow> bool" where
  "replaced C Q v old new \<longleftrightarrow>
     \<not> v (fp old) \<and> v (fp new) \<and>
     (v1.keeps_rules Q (scEnv C) v new \<or> (\<exists>s e s'. BuildFormula (scEnv C) Q (scFormulas C) new s = (Err e, s')))"

lemma replace_Ok:
  "replace_formulas C Q rs u s = (Ok fs, u', s') \<Longrightarrow> list_all (eval v) fs \<Longrightarrow> (old, new) \<in> set rs \<Longrightarrow>
     replaced C Q v old new"
proof (induction rs arbitrary: u s fs)
  case (Cons r rs)
  obtain o1 n1 where r: "r = (o1, n1)" by (cases r)
  from Cons.prems(1) obtain a u1 b u2 b2 s1 gs hs where run: "Encode (scEnv C) o1 u = (Ok a, u1)"
    "Encode (scEnv C) n1 u1 = (Ok b, u2)" "BuildFormula (scEnv C) Q (scFormulas C) n1 s = (b2, s1)"
    "or_else b2 [] = Ok gs" "replace_formulas C Q rs u2 s1 = (Ok hs, u', s')"
    "fs = FAnd [FNot (FVar a), FAnd (gs @ [FVar b])] # hs"
    unfolding r by (auto split: prod.splits outcome.splits dest!: oseq_OkD)
  have here: "v1.keeps_rules Q (scEnv C) v n1 \<or> (\<exists>s e s'. BuildFormula (scEnv C) Q (scFormulas C) n1 s = (Err e, s'))"
  proof (cases b2)
    case (Ok gs')
    with run(4) have "gs' = gs" by simp
    with Ok run(3) have "build_with (scEnv C) Q (style1 (scEnv C) Q) (scFormulas C) n1 (s\<lparr>saVisited := []\<rparr>) = (Ok gs, s1)"
      by (simp add: BuildFormula_def package_buildFormula_def)
    from v1.build_alone(2) [OF this] Cons.prems(2) run(6) show ?thesis by simp
  next
    case (Err e)
    with run(3) show ?thesis by blast
  qed (use run(4) in auto)
  show ?case
  proof (cases "(old, new) = (o1, n1)")
    case True
    with here Cons.prems(2) Encode_Ok(1) [OF run(1)] Encode_Ok(1) [OF run(2)] show ?thesis
      by (simp add: run(6) replaced_def)
  next
    case False
    with Cons.prems(3) r have "(old, new) \<in> set rs" by auto
    moreover from Cons.prems(2) run(6) have "list_all (eval v) hs" by simp
    ultimately show ?thesis using Cons.IH [OF run(5)] by blast
  qed
qed simp

lemma replace_keeps:
  "sound (scEnv C) u \<Longrightarrow> replace_formulas C Q rs u s = (r, u', s') \<Longrightarrow> sound (scEnv C) u'"
proof (induction rs arbitrary: u s r)
  case (Cons p rs)
  obtain o1 n1 where p: "p = (o1, n1)" by (cases p)
  obtain a u1 where a: "Encode (scEnv C) o1 u = (a, u1)" by fastforce
  have s1: "sound (scEnv C) u1" using Encode_keeps [OF Cons.prems(1), of o1] by (simp add: a)
  obtain b u2 where b: "Encode (scEnv C) n1 u1 = (b, u2)" by fastforce
  have s2: "sound (scEnv C) u2" using Encode_keeps [OF s1, of n1] by (simp add: b)
  from Cons.prems(2) s1 s2 Cons.IH [OF s2] show ?case
    unfolding p by (auto simp: a b split: prod.splits outcome.splits)
qed simp

lemma replace_length:
  "replace_formulas C Q rs u s = (Ok fs, u', s') \<Longrightarrow> length fs = length rs"
proof (induction rs arbitrary: u s fs)
  case (Cons p rs)
  then show ?case
    by (cases p) (auto split: prod.splits outcome.splits dest!: oseq_OkD)
qed simp

lemma absent_length: "absent_formulas E r ps u = (Ok fs, u') \<Longrightarrow> length fs = length ps"
  by (induction ps arbitrary: u fs) (auto dest!: obind_OkD)

lemma create_all_sound:
  "codec_ok (seDb E) \<Longrightarrow> db_sound (seDb E) db \<Longrightarrow> create_all E ps db = Ok db' \<Longrightarrow> db_sound (seDb E) db'"
  by (induction E ps db rule: create_all.induct) (auto split: option.splits dest: Create_sound)

lemma clone_sound:
  "codec_ok D \<Longrightarrow> db_sound D db \<Longrightarrow> clone_db D n ps db = Some (e, db') \<Longrightarrow> db_sound D db'"
  by (induction D n ps db rule: clone_db.induct) (auto split: option.splits sum.splits dest: Create_sound)

lemma copy_sound: "codec_ok D \<Longrightarrow> copy_db D n ps = Some (e, db) \<Longrightarrow> db_sound D db"
  by (auto simp: copy_db_def dest: clone_sound [OF _ db_sound_new])

text \<open>What the formulas ask of a selection.\<close>

lemma universe_formulas_say:
  assumes "universe_formulas C shuffle sv dropremoved universe s = (Ok (fs, udb), s')" "map_order (deOrder (scDb C))"
    and "\<And>xs. set (shuffle xs) = set xs" "codec_ok (scDb C)" "db_sound (scDb C) universe"
  shows "db_sound (scDb C) udb \<and>
    (\<exists>removed replacements.
      universe_pairs (scDb C) (slDefs sv) (quWorld (slInstalled sv)) = Ok (removed, replacements) \<and>
      (fs = [] \<longrightarrow> replacements = [] \<and> (dropremoved \<longrightarrow> removed = [])) \<and>
      (\<forall>v. list_all (eval v) fs \<longrightarrow>
        (\<forall>(old, new)\<in>set replacements. replaced C (slDefs sv) v old new) \<and>
        (dropremoved \<longrightarrow> (\<forall>p\<in>set removed. \<not> v (fp p)))))"
proof -
  let ?absent = "\<lambda>r removed. if dropremoved then absent_formulas (scEnv C) r (Unique (deOrder (scDb C)) removed) (db_state universe)
                  else (Ok [], db_state universe)"
  from assms(1) obtain removed replacements r s1 gs u hs u' s2 where run:
    "universe_pairs (scDb C) (slDefs sv) (quWorld (slInstalled sv)) = Ok (removed, replacements)"
    "?absent r removed = (Ok gs, u)" "replace_formulas C (slDefs sv) (shuffle replacements) u s1 = (Ok hs, u', s2)"
    "fs = gs @ hs" "udb = saDb u'"
    unfolding universe_formulas_def Let_def
    by (auto dest!: obind_OkD oseq_OkD simp: map_prod_wrapped split: prod.splits)
  have "sound (scEnv C) (db_state universe)" by (simp add: sound_def db_state_def assms(4,5))
  with absent_keeps [OF this, of r "Unique (deOrder (scDb C)) removed"] run(2) have "sound (scEnv C) u"
    by (cases dropremoved) auto
  from replace_keeps [OF this run(3)] have "db_sound (scDb C) udb" by (simp add: sound_def run(5))
  moreover have "replacements = [] \<and> (dropremoved \<longrightarrow> removed = [])" if "fs = []"
  proof -
    from that run(4) replace_length [OF run(3)] have "shuffle replacements = []" by simp
    with assms(3) [of replacements] have "replacements = []" by simp
    moreover have "removed = []" if dropremoved
    proof -
      from that run(2) absent_length [of "scEnv C" r _ "db_state universe" gs u] \<open>fs = []\<close> run(4)
      have "Unique (deOrder (scDb C)) removed = []" by auto
      with Unique_fps [OF assms(2), of removed] show ?thesis by simp
    qed
    ultimately show ?thesis by simp
  qed
  moreover have "\<not> v (fp p)" if "list_all (eval v) fs" "dropremoved" "p \<in> set removed" for v p
  proof -
    from that(1,2) run(2,4) absent_Ok [of "scEnv C" r _ "db_state universe" gs u v]
    have "\<forall>k\<in>fp ` set (Unique (deOrder (scDb C)) removed). \<not> v k" by auto
    with that(3) show ?thesis by (simp add: Unique_fps [OF assms(2)])
  qed
  moreover have "\<forall>(old, new)\<in>set replacements. replaced C (slDefs sv) v old new" if "list_all (eval v) fs" for v
  proof -
    from that run(4) have "list_all (eval v) hs" by simp
    from replace_Ok [OF run(3) this] assms(3) [of replacements] show ?thesis by auto
  qed
  ultimately show ?thesis using run(1) by blast
qed

text \<open>
  C28: \<open>UpgradeUniverse\<close> returns a selection in which every installed package with a better version is absent
  and that version is present with its rules kept (unless its formulas could not be built, an error that is
  dropped), and, on request, every installed package without a definition is absent.
\<close>

theorem UpgradeUniverse_sound:
  assumes "sat_correct C" "codec_ok (scDb C)" "map_order (deOrder (scDb C))" "\<And>xs. set (shuffle xs) = set xs"
    and "UpgradeUniverse C shuffle sv dropremoved s = (Ok (removal, as), s')"
  shows "\<exists>removed replacements.
    universe_pairs (scDb C) (slDefs sv) (quWorld (slInstalled sv)) = Ok (removed, replacements) \<and>
    marked_for_removal (slInstalled sv) as = Ok removal \<and>
    (\<forall>(old, new)\<in>set replacements. replaced C (slDefs sv) (\<lambda>k. k \<in> chosen as) old new) \<and>
    (dropremoved \<longrightarrow> (\<forall>p\<in>set removed. fp p \<notin> chosen as))"
proof -
  from assms(5) obtain udb0 universe fs udb s1 where run:
    "copy_db (scDb C) (seProvides (scEnv C)) (quWorld (slDefs sv)) = Some (None, udb0)"
    "create_all (scEnv C) (quWorld (slInstalled sv)) udb0 = Ok universe"
    "universe_formulas C shuffle sv dropremoved universe s = (Ok (fs, udb), s1)"
    and tail: "(if fs = [] then Ok ([], []) else case scSolve C (FAnd fs) of None \<Rightarrow> Err ''Failed finding a solution''
       | Some model \<Rightarrow> oseq (wrapped ''while decoding model from solution'' (DecodeModel (scDb C) model udb)) (\<lambda>as.
           oseq (marked_for_removal (slInstalled sv) as) (\<lambda>removal. Ok (removal, as)))) = Ok (removal, as)"
    unfolding UpgradeUniverse_def by (auto dest!: obind_OkD split: option.splits prod.splits)
  have u: "db_sound (scDb C) universe"
    by (rule create_all_sound [OF assms(2) copy_sound [OF assms(2) run(1)] run(2)])
  from universe_formulas_say [OF run(3) assms(3,4) assms(2) u] obtain removed replacements where say:
    "db_sound (scDb C) udb" "universe_pairs (scDb C) (slDefs sv) (quWorld (slInstalled sv)) = Ok (removed, replacements)"
    "fs = [] \<longrightarrow> replacements = [] \<and> (dropremoved \<longrightarrow> removed = [])"
    "\<And>v. list_all (eval v) fs \<Longrightarrow> (\<forall>(old, new)\<in>set replacements. replaced C (slDefs sv) v old new) \<and>
        (dropremoved \<longrightarrow> (\<forall>p\<in>set removed. \<not> v (fp p)))" by blast
  show ?thesis
  proof (cases "fs = []")
    case True
    with tail have "removal = []" "as = []" by simp_all
    with True say(2,3) show ?thesis by auto
  next
    case False
    with tail obtain m where m: "scSolve C (FAnd fs) = Some m" "DecodeModel (scDb C) m udb = Ok as"
      "marked_for_removal (slInstalled sv) as = Ok removal" by (auto dest!: oseq_OkD split: option.splits)
    from chosen_model [OF decoded_model [OF say(1) m(2)]]
    have v: "(\<lambda>k. k \<in> chosen as) = (\<lambda>k. (k, True) \<in> set m)" by blast
    from assms(1) [unfolded sat_correct_def, rule_format, of "FAnd fs"] m(1)
    have "list_all (eval (\<lambda>k. k \<in> chosen as)) fs" by (simp add: v)
    from say(4) [OF this] say(2) m(3) show ?thesis by blast
  qed
qed

section \<open>Concrete worlds\<close>

definition three_db :: mem_db where
  "three_db = table_db two_bars [two_bars ! 0, two_bars ! 1, two_bars ! 3]"

definition names_of :: "default_package list outcome \<Rightarrow> string list" where
  "names_of r = (case r of Ok ps \<Rightarrow> map HumanReadableString ps | _ \<Rightarrow> [])"

lemma three_found:
  "list_all (\<lambda>w. quFind (queries_of two_config three_db) w = Ok w) (quWorld (queries_of two_config three_db))"
  by code_simp

lemma three_rules: "\<not> noRules (queries_of two_config three_db)"
  by code_simp

lemma three_uninstall: "is_Ok (UninstallUniverse two_config three_db [two_bars ! 0] new_state)"
  by code_simp

lemma table_db_sound: "db_sound (scDb (table_config ps)) (table_db ps qs)"
proof (cases "create_all (scEnv (table_config ps)) qs NewInMemoryDatabase")
  case (Ok db)
  with create_all_sound [OF table_codec db_sound_new Ok] show ?thesis by (simp add: table_db_def)
qed (simp_all add: table_db_def)

lemma three_sound: "db_sound (scDb two_config) three_db"
  unfolding three_db_def by (rule table_db_sound)

lemma table_order: "map_order (deOrder (scDb (table_config ps)))"
  by (simp add: table_config_def table_env_def plain_db_env_def id_order.map_order_axioms)

lemma assignments_keys: "m \<in> set (assignments xs) \<Longrightarrow> map fst m = xs"
  by (induction xs arbitrary: m) auto

lemma table_binds: "binds_all (table_config ps)"
proof -
  have "set (vars f) \<subseteq> fst ` set m" if "try_all f = Some m" for f m
  proof -
    from that have "m \<in> set (assignments (remdups (vars f)))" by (auto simp: try_all_def find_Some_iff)
    from assignments_keys [OF this] show ?thesis by (metis list.set_map set_remdups subset_refl)
  qed
  then show ?thesis by (simp add: binds_all_def table_config_def)
qed

lemma three_asked: "case getList (scDb two_config) (queries_of two_config three_db) [two_bars ! 0] of Ok ps \<Rightarrow> ps \<noteq> [] | _ \<Rightarrow> False"
  by code_simp

theorem UninstallUniverse_sound_witness:
  "\<exists>removal ps as db. fst (UninstallUniverse two_config three_db [two_bars ! 0] new_state) = Ok removal \<and>
     uninstall_selection two_config three_db [two_bars ! 0] new_state ps as db \<and> ps \<noteq> [] \<and>
     (\<forall>p\<in>set ps. \<exists>a\<in>set as. fp (paPackage a) = fp p \<and> \<not> paValue a)"
proof -
  obtain removal s where run: "UninstallUniverse two_config three_db [two_bars ! 0] new_state = (Ok removal, s)"
    using three_uninstall by (rule is_OkE)
  have found: "\<forall>w\<in>set (quWorld (queries_of two_config three_db)). quFind (queries_of two_config three_db) w = Ok w"
    using three_found by (simp add: list_all_iff)
  from UninstallUniverse_sound [OF table_sat table_binds table_codec table_order three_sound three_rules found run]
  obtain ps as db where r: "uninstall_selection two_config three_db [two_bars ! 0] new_state ps as db"
    "\<forall>p\<in>set ps. \<exists>a\<in>set as. fp (paPackage a) = fp p \<and> \<not> paValue a" by blast
  from r(1) have "getList (scDb two_config) (queries_of two_config three_db) [two_bars ! 0] = Ok ps"
    by (simp add: uninstall_selection_def Let_def)
  with three_asked have "ps \<noteq> []" by simp
  with r run show ?thesis by (metis fst_conv)
qed

text \<open>A correct solver that leaves out every package when it can.\<close>

definition lazy_solve :: "formula \<Rightarrow> (string \<times> bool) list option" where
  "lazy_solve f =
     (if eval nothing f then Some (map (\<lambda>x. (x, False)) (remdups (vars f))) else try_all f)"

definition lazy_config :: sat_config where
  "lazy_config = two_config\<lparr>scSolve := lazy_solve\<rparr>"

lemma lazy_sat: "sat_correct lazy_config"
proof -
  have "case lazy_solve f of Some m \<Rightarrow> eval (\<lambda>k. (k, True) \<in> set m) f | None \<Rightarrow> \<forall>v. \<not> eval v f" for f
    using table_sat [of two_bars, unfolded sat_correct_def, rule_format, of f]
    by (auto simp: lazy_solve_def table_config_def image_iff)
  then show ?thesis by (simp add: sat_correct_def lazy_config_def)
qed

lemma lazy_built:
  "is_Ok (BuildInstalled lazy_config \<lparr>slDefs = queries_of lazy_config three_db, slInstalled = queries_of lazy_config three_db\<rparr> new_state)"
  by code_simp

lemma lazy_absent: "is_Ok (absent_formulas (scEnv lazy_config) r [two_bars ! 0] (db_state three_db))"
  by code_simp

lemma lazy_removes_all:
  "names_of (fst (UninstallUniverse lazy_config three_db [two_bars ! 0] new_state)) =
     [''c/bar-2.0'', ''c/foo-1.0'', ''c/baz-1.0'']"
  by code_simp

theorem UninstallUniverse_nothing_stays_witness:
  "\<exists>r fs. fst (BuildInstalled lazy_config
       \<lparr>slDefs = queries_of lazy_config three_db, slInstalled = queries_of lazy_config three_db\<rparr> new_state) = Ok r \<and>
     fst (absent_formulas (scEnv lazy_config) r [two_bars ! 0] (db_state three_db)) = Ok fs \<and>
     eval (\<lambda>k. False) (FAnd fs) \<and>
     names_of (fst (UninstallUniverse lazy_config three_db [two_bars ! 0] new_state)) =
       [''c/bar-2.0'', ''c/foo-1.0'', ''c/baz-1.0'']"
proof -
  obtain r s where r: "BuildInstalled lazy_config
      \<lparr>slDefs = queries_of lazy_config three_db, slInstalled = queries_of lazy_config three_db\<rparr> new_state = (Ok r, s)"
    using lazy_built by (rule is_OkE)
  obtain fs u where fs: "absent_formulas (scEnv lazy_config) r [two_bars ! 0] (db_state three_db) = (Ok fs, u)"
    using lazy_absent by (rule is_OkE)
  from UninstallUniverse_nothing_stays [OF r fs] r fs lazy_removes_all show ?thesis by simp
qed

definition left_behind :: "default_package list" where
  "left_behind =
     [demo_pkg ''x'' ''1.0'' [demo_pkg ''a'' ''1.0'' [] []] [], demo_pkg ''a'' ''1.0'' [] [], demo_pkg ''a'' ''2.0'' [] []]"

definition left_solver :: solver where
  "left_solver = table_solver left_behind [left_behind ! 0, left_behind ! 1]"

definition left_upgrade :: "(default_package list \<times> assertion list) outcome \<times> sat_state" where
  "left_upgrade = UpgradeUniverse (table_config left_behind) id left_solver True new_state"

lemma left_returns: "is_Ok left_upgrade"
  by code_simp

theorem UpgradeUniverse_sound_witness:
  "\<exists>removal as removed replacements. fst left_upgrade = Ok (removal, as) \<and>
     universe_pairs (scDb (table_config left_behind)) (slDefs left_solver) (quWorld (slInstalled left_solver)) =
       Ok (removed, replacements) \<and>
     (\<forall>(old, new)\<in>set replacements.
        replaced (table_config left_behind) (slDefs left_solver) (\<lambda>k. k \<in> chosen as) old new)"
proof -
  obtain ra s where run: "left_upgrade = (Ok ra, s)"
    using left_returns by (rule is_OkE)
  moreover obtain removal as where ra: "ra = (removal, as)" by (cases ra)
  ultimately have "UpgradeUniverse (table_config left_behind) id left_solver True new_state = (Ok (removal, as), s)"
    by (simp add: left_upgrade_def)
  from UpgradeUniverse_sound [OF table_sat table_codec table_order _ this] obtain removed replacements where
    "universe_pairs (scDb (table_config left_behind)) (slDefs left_solver) (quWorld (slInstalled left_solver)) =
       Ok (removed, replacements)"
    "\<forall>(old, new)\<in>set replacements.
       replaced (table_config left_behind) (slDefs left_solver) (\<lambda>k. k \<in> chosen as) old new" by auto
  moreover have "fst left_upgrade = Ok (removal, as)" unfolding run ra fst_conv by (rule refl)
  ultimately show ?thesis by blast
qed

text \<open>
  \<open>UpgradeUniverse\<close> looks at the constraints of the world only together with a package to drop: with an
  installed package that requires the old version of another one, and nothing to drop, it replaces the
  required version and says nothing of the package that requires it, which stays with its requirement gone.
\<close>

theorem UpgradeUniverse_leaves_broken:
  "map human (quWorld (slInstalled left_solver)) = [''c/x-1.0'', ''c/a-1.0''] \<and>
   names_of (case fst left_upgrade of Ok (removal, as) \<Rightarrow> Ok removal | _ \<Rightarrow> Fuel) = [''c/a-1.0''] \<and>
   installed_names (case fst left_upgrade of Ok (removal, as) \<Rightarrow> Ok as | _ \<Rightarrow> Fuel) = [''c/a-2.0''] \<and>
   map human (PackageRequires (left_behind ! 0)) = [''c/a-1.0'']"
  by code_simp

end
