(* ===== verification/BuildProofs.thy ===== *)
theory BuildProofs
  imports BuildInstaller UniverseProofs CommandProofs
begin

text \<open>
  What the installer of \<open>luet-build\<close> does: which of the definitions of several repositories its solver sees,
  what is asked of it for a selector, which packages a plan installs and with what artifact, the order of
  the finalizers, and what an uninstallation and an installation leave in the database.
\<close>

section \<open>The database of several repositories\<close>

definition exact_codec :: "db_env \<Rightarrow> default_package list \<Rightarrow> bool" where
  "exact_codec D ps \<longleftrightarrow> (\<forall>p\<in>set ps. \<exists>enc. deEnc D p = Inr enc \<and> deDec D enc = Inr p)"

lemma exact_codec_simps [simp]:
  "exact_codec D []"
  "exact_codec D (p # ps) \<longleftrightarrow> (\<exists>enc. deEnc D p = Inr enc \<and> deDec D enc = Inr p) \<and> exact_codec D ps"
  by (auto simp: exact_codec_def)

lemma exact_codec_mono: "exact_codec D ps \<Longrightarrow> set qs \<subseteq> set ps \<Longrightarrow> exact_codec D qs"
  unfolding exact_codec_def by blast

lemma Create_get:
  assumes "md_CreatePackage D n p db = Some (r, db')" "deEnc D p = Inr enc" "deDec D enc = Inr p"
  shows "md_GetPackage D k db' = (if k = fp p then Inr p else md_GetPackage D k db)"
proof -
  from assms(1,2) have "mdDatabase db' = gm_set (fp p) enc (mdDatabase db)"
    by (auto simp: md_CreatePackage_def md_Set_def dest!: populate_database)
  with assms(3) show ?thesis by (simp add: md_GetPackage_def md_Get_def)
qed

lemma sync_packages_get:
  "sync_packages E ps cache d = Ok d' \<Longrightarrow> exact_codec (seDb E) ps \<Longrightarrow>
   md_GetPackage (seDb E) k d' =
     (if k \<in> set cache then md_GetPackage (seDb E) k d
      else case find (\<lambda>p. fp p = k) ps of Some p \<Rightarrow> Inr p | None \<Rightarrow> md_GetPackage (seDb E) k d)"
proof (induction E ps cache d rule: sync_packages.induct)
  case (2 E p ps cache d)
  show ?case
  proof (cases "fp p \<in> set cache")
    case True
    with 2 show ?thesis by auto
  next
    case False
    with 2(3) obtain r d1 where c: "md_CreatePackage (seDb E) (seProvides E) p d = Some (r, d1)"
      and rest: "sync_packages E ps (fp p # cache) d1 = Ok d'" by (auto split: option.splits)
    from 2(4) obtain enc where e: "deEnc (seDb E) p = Inr enc" "deDec (seDb E) enc = Inr p" by auto
    from 2(2) [OF False c refl rest] 2(4) Create_get [OF c e, of k] False show ?thesis
      by (cases "k = fp p") (auto split: option.split)
  qed
qed simp

lemma cache_world_get:
  "gm_get (cache_world ps m) k = (case find (\<lambda>p. fp p = k) (rev ps) of Some p \<Rightarrow> Some p | None \<Rightarrow> gm_get m k)"
  by (induction ps m rule: cache_world.induct) (auto simp: find_append split: option.splits)

lemma find_distinct: "distinct (map f xs) \<Longrightarrow> x \<in> set xs \<Longrightarrow> find (\<lambda>y. f y = f x) xs = Some x"
  by (induction xs) auto

lemma find_first_block:
  assumes "find P (concat xss) = None" "find P xs = Some a"
  shows "find P (concat (xss @ xs # yss)) = Some a"
  using assms by (simp add: find_append)

definition nowhere :: "sat_config \<Rightarrow> default_package \<Rightarrow> repositories \<Rightarrow> bool" where
  "nowhere C p re \<longleftrightarrow> (\<forall>r\<in>set re. \<forall>q\<in>set (repo_World C r). fp q \<noteq> fp p)"

lemma nowhere_find: "nowhere C p re \<Longrightarrow> set rs \<subseteq> set re \<Longrightarrow> \<forall>r. set (f r) = set (repo_World C r) \<Longrightarrow>
    find (\<lambda>q. fp q = fp p) (concat (map f rs)) = None"
  unfolding nowhere_def find_None_iff set_concat set_map by fast

lemma found_key: "(\<exists>k. find (\<lambda>x. f x = k) xs = Some y) \<longleftrightarrow> find (\<lambda>x. f x = f y) xs = Some y"
proof
  assume "\<exists>k. find (\<lambda>x. f x = k) xs = Some y"
  then obtain k where k: "find (\<lambda>x. f x = k) xs = Some y" by blast
  then have "f y = k" by (auto simp: find_Some_iff)
  with k show "find (\<lambda>x. f x = f y) xs = Some y" by simp
qed blast

lemma in_map_snd: "y \<in> set (map snd ps) \<longleftrightarrow> (\<exists>k. (k, y) \<in> set ps)"
  by force

lemma repositories_World_iff:
  assumes "map_order (deOrder (scDb C))"
  shows "q \<in> set (repositories_World C re) \<longleftrightarrow>
    find (\<lambda>x. fp x = fp q) (concat (map (rev \<circ> repo_World C) re)) = Some q"
proof -
  note range_iff = map_order.range_iff [OF assms]
  have get: "gm_get (cache_world (concat (map (repo_World C) (rev re))) []) k =
      find (\<lambda>x. fp x = k) (concat (map (rev \<circ> repo_World C) re))" for k
    by (simp add: cache_world_get rev_concat rev_map split: option.split)
  have "q \<in> set (repositories_World C re) \<longleftrightarrow>
      (\<exists>k. find (\<lambda>x. fp x = k) (concat (map (rev \<circ> repo_World C) re)) = Some q)"
    unfolding repositories_World_def in_map_snd range_iff get ..
  also have "\<dots> \<longleftrightarrow> find (\<lambda>x. fp x = fp q) (concat (map (rev \<circ> repo_World C) re)) = Some q"
    by (simp only: found_key)
  finally show ?thesis .
qed

text \<open>
  C29: The database that the solver of \<open>luet-build\<close> works on takes, of the repositories in order of priority
  that have a package of some name and version, the definition of the last one, while \<open>World\<close> of the same
  repositories, and the comment in both, give that of the first.
\<close>

theorem SyncDatabase_takes_last:
  assumes "map_order (deOrder (scDb C))" "SyncDatabase C re NewInMemoryDatabase = Ok d"
    and "exact_codec (scDb C) (concat (map (repo_World C) re))"
    and "re = before @ r # after" "p \<in> set (repo_World C r)" "distinct (map fp (repo_World C r))"
  shows "(nowhere C p after \<longrightarrow> md_GetPackage (scDb C) (fp p) d = Inr p) \<and>
    (nowhere C p before \<longrightarrow> (\<forall>q. q \<in> set (repositories_World C re) \<and> fp q = fp p \<longleftrightarrow> q = p))"
proof -
  let ?is = "\<lambda>q. fp q = fp p"
  have r: "find ?is (repo_World C r) = Some p" "find ?is (rev (repo_World C r)) = Some p"
    using find_distinct [of fp "repo_World C r" p] find_distinct [of fp "rev (repo_World C r)" p] assms(5,6)
    by (simp_all add: rev_map [symmetric])
  have "exact_codec (scDb C) (concat (map (repo_World C) (rev re)))"
    using assms(3) by (rule exact_codec_mono) auto
  note get = sync_packages_get [OF assms(2) [unfolded SyncDatabase_def] this, of "fp p"]
  have "md_GetPackage (scDb C) (fp p) d = Inr p" if "nowhere C p after"
  proof -
    have "find ?is (concat (map (repo_World C) (rev after))) = None" by (rule nowhere_find [OF that]) simp_all
    from find_first_block [OF this r(1), of "map (repo_World C) (rev before)"] get assms(4) show ?thesis by simp
  qed
  moreover have "q \<in> set (repositories_World C re) \<and> fp q = fp p \<longleftrightarrow> q = p" if "nowhere C p before" for q
  proof -
    have "find ?is (concat (map (rev \<circ> repo_World C) before)) = None" by (rule nowhere_find [OF that]) simp_all
    from find_first_block [OF this r(2), of "map (rev \<circ> repo_World C) after"]
    have first: "find ?is (concat (map (rev \<circ> repo_World C) re)) = Some p" using assms(4) by simp
    show ?thesis unfolding repositories_World_iff [OF assms(1)] using first by auto
  qed
  ultimately show ?thesis by blast
qed

definition exact_config :: "default_package list \<Rightarrow> sat_config" where
  "exact_config ps =
     (table_config ps)\<lparr>scEnv := \<lparr>seDb = plain_db_env\<lparr>
        deEnc := (\<lambda>p. if p \<in> set ps then Inr (replicate (length (takeWhile (\<lambda>q. q \<noteq> p) ps)) CHR ''x'') else Inl ''unknown package''),
        deDec := (\<lambda>s. if length s < length ps then Inr (ps ! length s) else Inl ''unknown key'')\<rparr>, seProvides = 2\<rparr>\<rparr>"

lemma index_of: "p \<in> set ps \<Longrightarrow> length (takeWhile (\<lambda>q. q \<noteq> p) ps) < length ps \<and> ps ! length (takeWhile (\<lambda>q. q \<noteq> p) ps) = p"
  by (induction ps) auto

lemma exact_config_codec: "set qs \<subseteq> set ps \<Longrightarrow> exact_codec (scDb (exact_config ps)) qs"
  unfolding exact_codec_def by (auto simp: exact_config_def index_of)

lemma exact_config_order: "map_order (deOrder (scDb (exact_config ps)))"
  by (simp add: exact_config_def plain_db_env_def id_order.map_order_axioms)

text \<open>Two repositories with the same version of a package, with and without a requirement.\<close>

definition two_foos :: "default_package list" where
  "two_foos = [demo_pkg ''foo'' ''1.0'' [] [], demo_pkg ''foo'' ''1.0'' [demo_pkg ''bar'' ''1.0'' [] []] []]"

definition repo_of :: "default_package list \<Rightarrow> string \<Rightarrow> int \<Rightarrow> default_package list \<Rightarrow> pkg_artifact list \<Rightarrow> build_repo" where
  "repo_of known name prio ps index =
     \<lparr>brName = name, brPriority = prio, brCached = True,
      brTree = (case create_all (scEnv (exact_config known)) ps NewInMemoryDatabase of Ok db \<Rightarrow> db | _ \<Rightarrow> NewInMemoryDatabase),
      brIndex = index\<rparr>"

definition two_repos :: repositories where
  "two_repos = [repo_of two_foos ''first'' 0 [two_foos ! 0] [], repo_of two_foos ''last'' 1 [two_foos ! 1] []]"

lemma two_repos_worlds: "map (repo_World (exact_config two_foos)) two_repos = [[two_foos ! 0], [two_foos ! 1]]"
  by code_simp

lemma two_repos_synced: "is_Ok (SyncDatabase (exact_config two_foos) two_repos NewInMemoryDatabase, ())"
  by code_simp

theorem SyncDatabase_takes_last_witness:
  "\<exists>d. SyncDatabase (exact_config two_foos) two_repos NewInMemoryDatabase = Ok d \<and>
    md_GetPackage (scDb (exact_config two_foos)) (fp (two_foos ! 0)) d = Inr (two_foos ! 1) \<and>
    two_foos ! 0 \<in> set (repositories_World (exact_config two_foos) two_repos)"
proof -
  let ?C = "exact_config two_foos"
  obtain d where d: "SyncDatabase ?C two_repos NewInMemoryDatabase = Ok d" by (rule is_OkE [OF two_repos_synced]) simp
  have w: "repo_World ?C (two_repos ! 0) = [two_foos ! 0]" "repo_World ?C (two_repos ! 1) = [two_foos ! 1]"
    using arg_cong [OF two_repos_worlds, of "\<lambda>l. l ! 0"] arg_cong [OF two_repos_worlds, of "\<lambda>l. l ! 1"]
    by (simp_all add: two_repos_def)
  have two: "two_repos = [] @ two_repos ! 0 # [two_repos ! 1]" "two_repos = [two_repos ! 0] @ two_repos ! 1 # []"
    by (simp_all add: two_repos_def)
  have c: "exact_codec (scDb ?C) (concat (map (repo_World ?C) two_repos))"
    unfolding two_repos_worlds by (rule exact_config_codec) (simp add: two_foos_def)
  have "fp (two_foos ! 1) = fp (two_foos ! 0)" by code_simp
  note claim = SyncDatabase_takes_last [OF exact_config_order d c]
  from claim [OF two(2), of "two_foos ! 1"] have "md_GetPackage (scDb ?C) (fp (two_foos ! 1)) d = Inr (two_foos ! 1)"
    unfolding w by (simp add: nowhere_def)
  moreover have "two_foos ! 0 \<in> set (repositories_World ?C two_repos)"
    using claim [OF two(1), of "two_foos ! 0"] w(1) by (auto simp: nowhere_def)
  ultimately show ?thesis using d \<open>fp (two_foos ! 1) = fp (two_foos ! 0)\<close> by simp
qed

section \<open>What is installed, and from where\<close>

lemma fp_SetBuildTimestamp [simp]: "fp (SetBuildTimestamp t p) = fp p"
  by (simp add: SetBuildTimestamp_def GetFingerPrint_def)

lemma found_Ok: "found r = Ok b \<Longrightarrow> if b then \<exists>a. r = Ok a else \<exists>e. r = Err e"
  by (cases r) (auto simp: found_def)

lemma ofilter_Ok: "ofilter P xs = Ok ys \<Longrightarrow> ys = filter (\<lambda>x. P x = Ok True) xs"
  by (induction P xs arbitrary: ys rule: ofilter.induct) (auto dest!: oseq_OkD split: if_splits)

lemma not_installed_Ok: "not_installed Q ps = Ok qs \<Longrightarrow> set qs = {p \<in> set ps. \<exists>e. quFind Q p = Err e}"
proof -
  assume "not_installed Q ps = Ok qs"
  then have "qs = filter (\<lambda>p. oseq (found (quFind Q p)) (\<lambda>b. Ok (\<not> b)) = Ok True) ps"
    unfolding not_installed_def by (rule ofilter_Ok)
  moreover have "oseq (found (quFind Q p)) (\<lambda>b. Ok (\<not> b)) = Ok True \<longleftrightarrow> (\<exists>e. quFind Q p = Err e)" for p
    by (cases "quFind Q p") (simp_all add: found_def)
  ultimately show ?thesis by simp
qed

lemma match_in_Some:
  "match_in C re p = Ok (Some x) \<Longrightarrow>
   \<exists>before after. re = before @ pmRepo x # after \<and> quFind (queries_of C (brTree (pmRepo x))) p = Ok (pmPackage x) \<and>
     (\<forall>r\<in>set before. \<exists>e. quFind (queries_of C (brTree r)) p = Err e)"
proof (induction C re p rule: match_in.induct)
  case (2 C r rs p)
  show ?case
  proof (cases "quFind (queries_of C (brTree r)) p")
    case (Ok c)
    with 2(2) have "pmRepo x = r" "pmPackage x = c" by (auto dest!: oseq_OkD)
    with Ok show ?thesis by (intro exI [of _ "[]"] exI [of _ rs]) simp
  next
    case (Err e)
    with 2 obtain before after where "rs = before @ pmRepo x # after"
      "quFind (queries_of C (brTree (pmRepo x))) p = Ok (pmPackage x)"
      "\<forall>r\<in>set before. \<exists>e. quFind (queries_of C (brTree r)) p = Err e" by auto
    with Err show ?thesis by (intro exI [of _ "r # before"] exI [of _ after]) auto
  qed (use 2(2) in auto)
qed simp

lemma artifact_loop_Ok:
  "artifact_loop Q r matched p as m = Ok m' \<Longrightarrow>
   m' = m \<or> (\<exists>a\<in>set as. \<exists>q e. baSpec a = Some (Some q) \<and> Matches matched q \<and>
     quFind Q (SetBuildTimestamp (BuildTimestamp (pkg_data q)) p) = Err e \<and>
     m' = gm_set (fp p) \<lparr>amPackage = SetBuildTimestamp (BuildTimestamp (pkg_data q)) p, amArtifact = a, amRepository = r\<rparr> m)"
  by (induction Q r matched p as m rule: artifact_loop.induct)
     (auto simp: Let_def split: option.splits if_splits dest!: oseq_OkD found_Ok)

text \<open>
  The match of a package: the build time is that of an artifact of the first repository, by priority, that
  has the package, and the system does not have it.
\<close>

definition planned :: "sat_config \<Rightarrow> queries \<Rightarrow> repositories \<Rightarrow> default_package \<Rightarrow> art_match \<Rightarrow> bool" where
  "planned C Q re p m \<longleftrightarrow>
     (\<exists>q c e. amPackage m = SetBuildTimestamp (BuildTimestamp (pkg_data q)) p \<and>
       amArtifact m \<in> set (brIndex (amRepository m)) \<and> baSpec (amArtifact m) = Some (Some q) \<and> Matches c q \<and>
       quFind (queries_of C (brTree (amRepository m))) p = Ok c \<and> quFind Q (amPackage m) = Err e) \<and>
     amRepository m \<in> set re \<and>
     (\<forall>r\<in>set re. brPriority r < brPriority (amRepository m) \<longrightarrow> (\<exists>e. quFind (queries_of C (brTree r)) p = Err e))"

lemma repo_Less_order: "strict_weak repo_Less A"
  by (auto simp: strict_weak_def repo_Less_def)

lemma gathered:
  "gather_artifacts B Q ps re m = Ok m' \<Longrightarrow> go_sort (beRepoSort B) \<Longrightarrow> gm_get m' k = Some x \<Longrightarrow>
   gm_get m k = Some x \<or> (\<exists>p\<in>set ps. k = fp p \<and> planned (beSat B) Q re p x)"
proof (induction B Q ps re m rule: gather_artifacts.induct)
  case (2 B Q p ps re m)
  let ?C = "beSat B" and ?re = "beRepoSort B repo_Less re"
  have sorted: "set ?re = set re" "sorted_wrt (\<lambda>r s. \<not> repo_Less s r) ?re"
    using go_sort.srt_set [OF 2(3)] go_sort.srt_sorted [OF 2(3) repo_Less_order] by auto
  have pl: "planned ?C Q ?re = planned ?C Q re" by (intro ext) (simp add: planned_def sorted(1))
  from 2(2) obtain x1 xs m1 where found: "matches_in ?C ?re [p] = Ok (x1 # xs)"
    and loop: "artifact_loop Q (pmRepo x1) (pmPackage x1) p (brIndex (pmRepo x1)) m = Ok m1"
    and rest: "gather_artifacts B Q ps ?re m1 = Ok m'"
    by (auto simp: PackageMatches_def Let_def dest!: oseq_OkD split: list.splits)
  from found have "match_in ?C ?re p = Ok (Some x1)" by (auto dest!: oseq_OkD split: option.splits)
  from match_in_Some [OF this] obtain before after where at: "?re = before @ pmRepo x1 # after"
    and has: "quFind (queries_of ?C (brTree (pmRepo x1))) p = Ok (pmPackage x1)"
    and no: "\<forall>r\<in>set before. \<exists>e. quFind (queries_of ?C (brTree r)) p = Err e" by blast
  have mem: "pmRepo x1 \<in> set re" using at sorted(1) by auto
  have first: "\<exists>e. quFind (queries_of ?C (brTree r)) p = Err e" if "r \<in> set re" "brPriority r < brPriority (pmRepo x1)" for r
  proof -
    have "r \<in> set before \<union> {pmRepo x1} \<union> set after" using that(1) at sorted(1) by auto
    moreover have "r \<notin> set after" using sorted(2) at that(2) by (auto simp: sorted_wrt_append repo_Less_def)
    ultimately have "r \<in> set before" using that(2) by auto
    with no show ?thesis by blast
  qed
  have "gm_get m1 k = Some x \<or> (\<exists>p\<in>set ps. k = fp p \<and> planned ?C Q re p x)"
    using 2(1) [OF _ rest 2(3,4)] found loop pl by (simp add: PackageMatches_def Let_def)
  moreover have "gm_get m k = Some x \<or> k = fp p \<and> planned ?C Q re p x" if "gm_get m1 k = Some x"
    using artifact_loop_Ok [OF loop] that has first mem unfolding planned_def
    by (auto split: if_splits)
  ultimately show ?case by auto
qed simp

text \<open>
  C30: Every match of the plan of an installation is a package that the solution asserts (without the
  dependencies, one of those asked for), which the system does not have; its artifact is one of the first
  repository, by priority, that has the package.
\<close>

theorem computeInstall_sound:
  assumes "go_sort (beRepoSort B)" "computeInstall B L opt re cp Q = Ok ip" "gm_get (ipMatches ip) k = Some m"
  shows "\<exists>p. k = fp p \<and> planned (beSat B) Q re p m \<and>
    (if ooNoDeps opt then \<not> ooOnlyDeps opt \<and> p \<in> set (ipPackages ip)
     else \<exists>a\<in>set (ipSolution ip). paValue a \<and> paPackage a = p)"
proof -
  let ?ps = "if \<not> ooNoDeps opt then map paPackage (filter paValue (ipSolution ip))
      else if \<not> ooOnlyDeps opt then ipPackages ip else []"
  have "ipMatches ip = [] \<or> (\<exists>ps. not_installed Q ?ps = Ok ps \<and>
      gather_artifacts B Q ps (beRepoSort B repo_Less re) [] = Ok (ipMatches ip))"
    using assms(2)
    by (auto simp: computeInstall_def ResolveSelectors_def Let_def split: if_splits dest!: oseq_OkD)
  then obtain ps where ps: "not_installed Q ?ps = Ok ps"
    and g: "gather_artifacts B Q ps (beRepoSort B repo_Less re) [] = Ok (ipMatches ip)" using assms(3) by auto
  have "planned (beSat B) Q (beRepoSort B repo_Less re) = planned (beSat B) Q re"
    by (intro ext) (simp add: planned_def go_sort.srt_set [OF assms(1)])
  with gathered [OF g assms(1,3)] obtain p where p: "p \<in> set ps" "k = fp p" "planned (beSat B) Q re p m" by auto
  moreover from p(1) not_installed_Ok [OF ps] have "if ooNoDeps opt then \<not> ooOnlyDeps opt \<and> p \<in> set (ipPackages ip)
     else \<exists>a\<in>set (ipSolution ip). paValue a \<and> paPackage a = p" by (auto split: if_splits)
  ultimately show ?thesis by blast
qed

text \<open>A builder's host with one repository that has the packages and an artifact for each.\<close>

definition demo_build :: "sat_config \<Rightarrow> build_env" where
  "demo_build C =
     \<lparr>beSat = C, beInst = demo_inst, beRounds = 5, beFetch = 1, beRepoSort = insertion_sort,
      beSort = insertion_sort, beShuffle = id, beLoad = Inr, beSync = Inr, beFileList = (\<lambda>a d. Inr (baFiles a)),
      beDownload = (\<lambda>r a d. (Inr a, d)), beVerify = (\<lambda>a d. None), beUnpack = (\<lambda>a root d. (None, d)),
      beRender = (\<lambda>d f g. Inl ''no finalizer''), beDecode = (\<lambda>s. Inl ''no finalizer'')\<rparr>"

definition plain_opts :: build_opts where
  "plain_opts =
     \<lparr>loV2 = False, loResolver = False, loConcurrency = 1, loNoDeps = False, loOnlyDeps = False, loForce = False,
      loPreserve = True, loFullUninstall = False, loFullCleanUninstall = False, loCheckConflicts = True,
      loSolverUpgrade = False, loRemoveUnavailable = False, loUpgradeNewRevisions = False, loAsk = False,
      loDownloadOnly = False, loRelaxed = True, loSkipFinalizers = False, loSyncRepositories = False\<rparr>"

definition artifact_of :: "default_package \<Rightarrow> pkg_artifact" where
  "artifact_of p = \<lparr>baSpec = Some (Some p), baFiles = [''usr/'' @ pName p], baPath = pName p\<rparr>"

definition foo_bar :: "default_package list" where
  "foo_bar = [demo_pkg ''foo'' ''1.0'' [demo_pkg ''bar'' ''1.0'' [] []] [], demo_pkg ''bar'' ''1.0'' [] []]"

definition foo_bar_repo :: build_repo where
  "foo_bar_repo = repo_of foo_bar ''main'' 0 foo_bar (map artifact_of foo_bar)"

definition foo_plan :: "install_plan outcome" where
  "foo_plan = computeInstall (demo_build (exact_config foo_bar)) plain_opts no_option [foo_bar_repo] [demo_pkg ''foo'' ''1.0'' [] []]
     (system_queries (demo_build (exact_config foo_bar)) (demo_host []))"

lemma outcome_OkD: "case r of Ok a \<Rightarrow> P a | _ \<Rightarrow> False \<Longrightarrow> \<exists>a. r = Ok a \<and> P a"
  by (cases r) auto

lemma foo_plan_keys: "case foo_plan of Ok ip \<Rightarrow> gm_keys (ipMatches ip) = [''foo-c-1.0'', ''bar-c-1.0''] | _ \<Rightarrow> False"
  by code_simp

theorem computeInstall_sound_witness:
  "\<exists>ip m. foo_plan = Ok ip \<and> gm_get (ipMatches ip) ''bar-c-1.0'' = Some m \<and> amRepository m = foo_bar_repo \<and>
    (\<exists>a\<in>set (ipSolution ip). paValue a \<and> fp (paPackage a) = ''bar-c-1.0'')"
proof -
  obtain ip where ip: "foo_plan = Ok ip" "gm_keys (ipMatches ip) = [''foo-c-1.0'', ''bar-c-1.0'']"
    using outcome_OkD [OF foo_plan_keys] by blast
  then have "gm_has (ipMatches ip) ''bar-c-1.0''" unfolding set_gm_keys [symmetric] by simp
  then obtain m where m: "gm_get (ipMatches ip) ''bar-c-1.0'' = Some m" by (auto simp: gm_has_def)
  have "go_sort (beRepoSort (demo_build (exact_config foo_bar)))" by (simp add: demo_build_def isort.go_sort_axioms)
  from computeInstall_sound [OF this ip(1) [unfolded foo_plan_def] m] have
    "amRepository m = foo_bar_repo" "\<exists>a\<in>set (ipSolution ip). paValue a \<and> fp (paPackage a) = ''bar-c-1.0''"
    by (auto simp: planned_def no_option_def)
  with ip(1) m show ?thesis by blast
qed

section \<open>What an uninstallation leaves\<close>

lemma err_to_Ok: "err_to msg r = (Ok u, h') \<Longrightarrow> r = (None, h')"
  unfolding err_to_def by (erule unless_forced_cases) auto

interpretation bld: package_removal "b_uninstall B L root" for B L root
proof
  fix p h u h'
  assume "b_uninstall B L root p h = (Ok u, h')"
  then obtain d h1 where 1: "on_db (bd_RemovePackageFiles p) (h\<lparr>hsDisk := d\<rparr>) = (None, h1)"
    and 2: "on_db (bd_RemovePackage p) h1 = (None, h')"
    unfolding b_uninstall_def Let_def
    by (auto split: sum.splits panics.splits dest!: obind_OkD err_to_Ok)
  have "keeps_world h (h\<lparr>hsDisk := d\<rparr>)" by (simp add: keeps_world_def)
  from keeps_world_trans [OF this on_db_files_keeps(2) [OF 1]] have "keeps_world h h1" .
  moreover from 2 have "bd_RemovePackage p (hsDb h1) = (None, hsDb h')" by (auto simp: on_db_def split: prod.splits)
  ultimately show "\<exists>h1 p'. keeps_world h h1 \<and> pkey p' = pkey p \<and> bd_RemovePackage p' (hsDb h1) = (None, hsDb h')" by blast
qed

lemma uninstall_each_world:
  assumes "\<not> ooForce opt" "uninstall_each B L opt root ps h = (Ok u, h')"
    and "bolt_valid (hsDb h)" "distinct (map pkey (bd_World (hsDb h)))"
  shows "bolt_valid (hsDb h') \<and> pkey ` set ps \<subseteq> pkey ` set (bd_World (hsDb h)) \<and>
    bd_World (hsDb h') = filter (\<lambda>w. pkey w \<notin> pkey ` set ps) (bd_World (hsDb h))"
proof -
  have "\<exists>v h1. b_uninstall B L root p h = (Ok v, h1) \<and> uninstall_each B L opt root ps h1 = (Ok u, h')"
    if "uninstall_each B L opt root (p # ps) h = (Ok u, h')" for p ps h u h'
    using that assms(1) by (auto dest!: obind_err_OkD)
  from bld.rm_all [where loop = "uninstall_each B L opt root", OF _ this assms(2-4)] show ?thesis by auto
qed

definition uninstall_option :: "build_opts \<Rightarrow> op_option" where
  "uninstall_option L = no_option\<lparr>ooFullUninstall := loFullUninstall L, ooForce := loForce L,
     ooCheckConflicts := loCheckConflicts L, ooFullCleanUninstall := loFullCleanUninstall L\<rparr>"

text \<open>
  An uninstallation by \<open>luet-build\<close> that ends well removes from the installed packages exactly those the
  solver computed, all of which were installed, and leaves the database well formed.
\<close>

theorem b_Uninstall_removes:
  assumes "\<not> loForce L" "bolt_valid (hsDb h)" "distinct (map pkey (bd_World (hsDb h)))"
    and "b_Uninstall B L answer root packs h = (Ok u, h')"
  shows "\<exists>ps. generateUninstallFn B L (uninstall_option L) packs h = Ok ps \<and> bolt_valid (hsDb h') \<and>
    pkey ` set ps \<subseteq> pkey ` set (bd_World (hsDb h)) \<and>
    bd_World (hsDb h') = filter (\<lambda>w. pkey w \<notin> pkey ` set ps) (bd_World (hsDb h))"
proof -
  from assms(4) [unfolded b_Uninstall_def Let_def, folded uninstall_option_def] obtain ps where
    ps: "generateUninstallFn B L (uninstall_option L) packs h = Ok ps"
    and run: "ps = [] \<and> h' = h \<or> uninstall_each B L (uninstall_option L) root ps h = (Ok u, h')"
    by (auto dest!: obind_OkD split: if_splits)
  have "\<not> ooForce (uninstall_option L)" using assms(1) by (simp add: uninstall_option_def no_option_def)
  from uninstall_each_world [OF this _ assms(2,3)] run ps assms(2) show ?thesis by fastforce
qed

definition bars_gone :: "unit outcome \<times> host" where
  "bars_gone = b_Uninstall (demo_build (table_config foo_bar)) (plain_opts\<lparr>loCheckConflicts := False\<rparr>) True ''/''
     [demo_pkg ''bar'' ''1.0'' [] []] (demo_host foo_bar)"

lemma bars_gone_run: "fst bars_gone = Ok ()" "bd_World (hsDb (snd bars_gone)) = []"
  by code_simp+

lemma foo_bar_host: "bolt_valid (hsDb (demo_host foo_bar))" "distinct (map pkey (bd_World (hsDb (demo_host foo_bar))))"
proof -
  have "\<forall>p\<in>set foo_bar. ID (pkg_data p) = 0" by code_simp
  from demo_db_valid [OF this] show "bolt_valid (hsDb (demo_host foo_bar))" by (simp add: demo_host_def)
  show "distinct (map pkey (bd_World (hsDb (demo_host foo_bar))))" by code_simp
qed

theorem b_Uninstall_removes_witness:
  "\<exists>ps. generateUninstallFn (demo_build (table_config foo_bar)) (plain_opts\<lparr>loCheckConflicts := False\<rparr>)
      (uninstall_option (plain_opts\<lparr>loCheckConflicts := False\<rparr>)) [demo_pkg ''bar'' ''1.0'' [] []] (demo_host foo_bar) = Ok ps \<and>
    bolt_valid (hsDb (snd bars_gone)) \<and> pkey ` set ps = pkey ` set (bd_World (hsDb (demo_host foo_bar)))"
proof -
  have run: "b_Uninstall (demo_build (table_config foo_bar)) (plain_opts\<lparr>loCheckConflicts := False\<rparr>) True ''/''
     [demo_pkg ''bar'' ''1.0'' [] []] (demo_host foo_bar) = (Ok (), snd bars_gone)"
    using bars_gone_run(1) by (metis bars_gone_def prod.collapse)
  have "\<not> loForce (plain_opts\<lparr>loCheckConflicts := False\<rparr>)" by (simp add: plain_opts_def)
  from b_Uninstall_removes [OF this foo_bar_host run] obtain ps where
    ps: "generateUninstallFn (demo_build (table_config foo_bar)) (plain_opts\<lparr>loCheckConflicts := False\<rparr>)
      (uninstall_option (plain_opts\<lparr>loCheckConflicts := False\<rparr>)) [demo_pkg ''bar'' ''1.0'' [] []] (demo_host foo_bar) = Ok ps"
      "bolt_valid (hsDb (snd bars_gone))" "pkey ` set ps \<subseteq> pkey ` set (bd_World (hsDb (demo_host foo_bar)))"
    and "filter (\<lambda>w. pkey w \<notin> pkey ` set ps) (bd_World (hsDb (demo_host foo_bar))) = []"
    using bars_gone_run(2) by auto
  then have "pkey ` set (bd_World (hsDb (demo_host foo_bar))) \<subseteq> pkey ` set ps" by (auto simp: filter_empty_conv)
  with ps show ?thesis by blast
qed

section \<open>What an installation leaves\<close>

lemma downloadPackage_keeps: "downloadPackage B a h = (r, h') \<Longrightarrow> hsDb h' = hsDb h"
  unfolding downloadPackage_def on_disk_def by (auto split: prod.splits sum.splits option.splits)

lemma b_download_keeps: "b_download B m h = (Ok u, h') \<Longrightarrow> hsDb h' = hsDb h"
proof -
  have "download_all B as h = (Ok u, h') \<Longrightarrow> hsDb h' = hsDb h" for as
    by (induction B as h rule: download_all.induct)
       (auto split: prod.splits sum.splits dest: downloadPackage_keeps)
  then show "b_download B m h = (Ok u, h') \<Longrightarrow> hsDb h' = hsDb h" by (auto simp: b_download_def split: if_splits)
qed

lemma ExistsPackageFile_db: "hsDb (snd (ExistsPackageFile f h)) = hsDb h"
  by (simp add: ExistsPackageFile_def buildIndexFiles_def Let_def split: option.split)

lemma b_check_files_db: "hsDb (snd (b_check_files c root name hu fs m h)) = hsDb h"
  using ExistsPackageFile_db
  by (induction c root name hu fs m h rule: b_check_files.induct)
     (auto simp: Let_def split: option.splits prod.splits, (metis snd_conv)+)

lemma conflicts_step_keeps: "conflicts_step B L c root m h = (r, h') \<Longrightarrow> hsDb h' = hsDb h"
proof -
  have "hsDb (snd (b_check_matches B L c root as gm h)) = hsDb h" for as gm
  proof (induction B L c root as gm h rule: b_check_matches.induct)
    case (2 B L c root a as gm h)
    show ?case
    proof (cases "beFileList B (amArtifact a) (hsDisk h)")
      case (Inl e)
      with 2(1) show ?thesis by auto
    next
      case (Inr files)
      show ?thesis unfolding b_check_matches.simps Inr sum.case
        by (rule obind_keeps, simp, rule obind_keeps, simp add: b_check_files_db)
           (metis (no_types) 2(2) Inr b_check_files_db)
    qed
  qed simp
  then show "conflicts_step B L c root m h = (r, h') \<Longrightarrow> hsDb h' = hsDb h"
    unfolding conflicts_step_def checkFileconflicts_def
    by (cases "b_check_matches B L c root (match_list B m) [] h"; cases "fst (b_check_matches B L c root (match_list B m) [] h)")
       (auto, (metis snd_conv)+)
qed

lemma b_installPackage_keeps: "b_installPackage B L root m h = (r, h') \<Longrightarrow> keeps_world h h'"
proof -
  assume run: "b_installPackage B L root m h = (r, h')"
  obtain a h1 where d: "downloadPackage B m h = (a, h1)" by (cases "downloadPackage B m h")
  have k1: "keeps_world h h1" by (rule same_db_keeps [OF downloadPackage_keeps [OF d]])
  have both: "keeps_world h1 (snd (obind (unless_forced f msg (on_disk g h1)) (\<lambda>_ h. err_to id (on_db (bd_SetPackageFiles k fs) h))))"
    for f msg g k fs
  proof (rule obind_keeps)
    show "keeps_world h1 (snd (unless_forced f msg (on_disk g h1)))"
      unfolding unless_forced_state by (rule on_disk_keeps [OF prod.collapse [symmetric]])
    show "keeps_world h1 (snd (err_to id (on_db (bd_SetPackageFiles k fs) h2)))" if "keeps_world h1 h2" for h2
      unfolding err_to_def unless_forced_state
      by (rule keeps_world_trans [OF that on_db_files_keeps(1) [OF prod.collapse [symmetric]]])
  qed
  have "keeps_world h1 h'"
    using run both [of "loForce L" _ "beUnpack B _ root"] unfolding b_installPackage_def d
    by (auto split: sum.splits if_splits prod.splits elim!: unless_forced_cases simp: err_to_def
        dest: on_disk_keeps on_db_files_keeps intro: keeps_world_trans) (metis snd_conv)
  with k1 show ?thesis by (rule keeps_world_trans)
qed

lemma install_all_keeps: "install_all B L root as h = (Ok u, h') \<Longrightarrow> keeps_world h h'"
proof (induction as arbitrary: h)
  case (Cons a as)
  from Cons.prems obtain r h1 where "b_installPackage B L root a h = (r, h1)" "install_all B L root as h1 = (Ok u, h')"
    by (fastforce dest!: obind_err_OkD split: if_splits)
  with Cons.IH b_installPackage_keeps show ?case using keeps_world_trans by blast
qed simp

lemma create_installed_world:
  "create_installed False cs h = (Ok u, h') \<Longrightarrow> bolt_valid (hsDb h) \<Longrightarrow> \<forall>c\<in>set cs. ID (pkg_data (amPackage c)) = 0 \<Longrightarrow>
   bolt_valid (hsDb h') \<and> wkeys (hsDb h') = wkeys (hsDb h) @ map (pkey \<circ> amPackage) cs"
proof (induction cs arbitrary: h)
  case (Cons c cs)
  from Cons.prems(1) obtain i h1 where c: "on_db (bd_CreatePackage (amPackage c)) h = (Inr i, h1)"
    and rest: "create_installed False cs h1 = (Ok u, h')" by (auto split: prod.splits sum.splits)
  from c have "bd_CreatePackage (amPackage c) (hsDb h) = (Inr i, hsDb h1)" by (auto simp: on_db_def split: prod.splits)
  from bolt_create_world [OF Cons.prems(2) _ this] Cons.IH [OF rest] Cons.prems(3) show ?case by (simp add: wkeys_def)
qed simp

lemma execute_finalizers_keeps: "hsDb (snd (execute_finalizers B root ps ex errs h)) = hsDb h"
  by (induction B root ps ex errs h rule: execute_finalizers.induct)
     (auto simp: Let_def on_disk_def split: sum.splits prod.splits option.splits)

text \<open>
  C31: An installation by \<open>luet-build\<close> that ends well, and is not only a download, adds to the installed packages
  those of the matches, in the order of the range over them, and removes none.
\<close>

theorem b_install_adds:
  assumes "\<not> ooForce opt" "\<not> loDownloadOnly L" "bolt_valid (hsDb h)"
    and "\<forall>m\<in>set (match_list B ms). ID (pkg_data (amPackage m)) = 0"
    and "b_install B L opt root ms sol allRepos h = (Ok u, h')"
  shows "bolt_valid (hsDb h') \<and> wkeys (hsDb h') = wkeys (hsDb h) @ map (pkey \<circ> amPackage) (match_list B ms)"
proof -
  from assms(5) [unfolded b_install_def] assms(1,2) obtain u1 h1 r h2 u2 h3 u3 h4 where
    1: "b_download B ms h = (Ok u1, h1)" and 2: "(if ooCheckFileConflicts opt then conflicts_step B L True root ms h1 else (Ok (), h1)) = (r, h2)"
    and 3: "install_all B L root (match_list B ms) h2 = (Ok u2, h3)"
    and 4: "create_installed False (match_list B ms) h3 = (Ok u3, h4)"
    and 5: "h' = h4 \<or> (\<exists>ps. ExecuteFinalizers B root ps h4 = (Ok u, h'))"
    by (auto dest!: obind_OkD split: if_splits) metis+
  have "hsDb h2 = hsDb h" using b_download_keeps [OF 1] 2 conflicts_step_keeps by (auto split: if_splits)
  then have "keeps_world h h3" using same_db_keeps install_all_keeps [OF 3] keeps_world_trans by blast
  with assms(3) have "bolt_valid (hsDb h3)" "wkeys (hsDb h3) = wkeys (hsDb h)"
    by (simp add: keeps_world_def) (simp add: wkeys_def keeps_world_World [OF \<open>keeps_world h h3\<close> assms(3)])
  with create_installed_world [OF 4 _ assms(4)] have
    "bolt_valid (hsDb h4) \<and> wkeys (hsDb h4) = wkeys (hsDb h) @ map (pkey \<circ> amPackage) (match_list B ms)" by simp
  moreover have "hsDb h' = hsDb h4"
    using 5 execute_finalizers_keeps [of B root _ "[]" "[]" h4] by (auto simp: ExecuteFinalizers_def) (metis snd_conv)
  ultimately show ?thesis by simp
qed

definition foo_bar_matches :: "art_match gomap" where
  "foo_bar_matches = map (\<lambda>p. (fp p, \<lparr>amPackage = p, amArtifact = artifact_of p, amRepository = foo_bar_repo\<rparr>)) foo_bar"

definition foo_bar_install :: "unit outcome \<times> host" where
  "foo_bar_install = b_install (demo_build (exact_config foo_bar)) plain_opts
     (no_option\<lparr>ooCheckFileConflicts := True, ooRunFinalizers := True\<rparr>) ''/'' foo_bar_matches [] NewInMemoryDatabase
     (demo_host [demo_pkg ''baz'' ''1.0'' [] []])"

lemma foo_bar_install_runs: "fst foo_bar_install = Ok ()"
  by code_simp

theorem b_install_adds_witness:
  "bolt_valid (hsDb (snd foo_bar_install)) \<and>
   wkeys (hsDb (snd foo_bar_install)) = [(''c'', ''baz'', ''1.0''), (''c'', ''foo'', ''1.0''), (''c'', ''bar'', ''1.0'')]"
proof -
  let ?B = "demo_build (exact_config foo_bar)" and ?opt = "no_option\<lparr>ooCheckFileConflicts := True, ooRunFinalizers := True\<rparr>"
  let ?h = "demo_host [demo_pkg ''baz'' ''1.0'' [] []]"
  have run: "b_install ?B plain_opts ?opt ''/'' foo_bar_matches [] NewInMemoryDatabase ?h = (Ok (), snd foo_bar_install)"
    using foo_bar_install_runs by (metis foo_bar_install_def prod.collapse)
  have id: "\<forall>p\<in>set [demo_pkg ''baz'' ''1.0'' [] []]. ID (pkg_data p) = 0" by code_simp
  have v: "bolt_valid (hsDb ?h)" using demo_db_valid [OF id] by (simp add: demo_host_def)
  have ids: "\<forall>m\<in>set (match_list ?B foo_bar_matches). ID (pkg_data (amPackage m)) = 0" by code_simp
  have keys: "map (pkey \<circ> amPackage) (match_list ?B foo_bar_matches) = [(''c'', ''foo'', ''1.0''), (''c'', ''bar'', ''1.0'')]"
    "wkeys (hsDb ?h) = [(''c'', ''baz'', ''1.0'')]" by code_simp+
  have "\<not> ooForce ?opt" "\<not> loDownloadOnly plain_opts" by (simp_all add: no_option_def plain_opts_def)
  from b_install_adds [OF this v ids run] show ?thesis by (simp add: keys)
qed

section \<open>The order of the finalizers\<close>

text \<open>What an element is related to comes before it.\<close>

definition preceded :: "('a \<Rightarrow> 'a \<Rightarrow> bool) \<Rightarrow> 'a list \<Rightarrow> bool" where
  "preceded R l \<longleftrightarrow> (\<forall>i<length l. \<forall>y. R (l ! i) y \<longrightarrow> y \<in> set (take i l))"

lemma preceded_Nil [simp]: "preceded R []"
  by (simp add: preceded_def)

lemma preceded_snoc [simp]: "preceded R (l @ [x]) \<longleftrightarrow> preceded R l \<and> (\<forall>y. R x y \<longrightarrow> y \<in> set l)"
  unfolding preceded_def by (auto simp: nth_append less_Suc_eq)

lemma preceded_append: "preceded R as \<Longrightarrow> preceded R bs \<Longrightarrow> preceded R (as @ bs)"
  by (induction bs rule: rev_induct) (auto simp flip: append_assoc)

lemma preceded_filter: "preceded R l \<Longrightarrow> (\<And>x y. S x y \<Longrightarrow> R x y \<and> P y) \<Longrightarrow> preceded S (filter P l)"
  by (induction l rule: rev_induct) auto

lemma preceded_nth: "preceded R l \<Longrightarrow> i < length l \<Longrightarrow> R (l ! i) y \<Longrightarrow> \<exists>j<i. l ! j = y"
  unfolding preceded_def by (fastforce simp: in_set_conv_nth)

lemma Order_preceded:
  assumes "go_sort srt" "requires_found Q as" "assertions_Order srt Q as f = Ok bs"
  shows "preceded (requires_rel Q as) (map afp bs) \<and> set bs \<subseteq> set as"
proof -
  obtain g where g: "edge g = requires_rel Q as" and run: "assertions_Order srt Q as f =
      (case TopSort g f of Inl e \<Rightarrow> Err (''fail on sorting '' @ f @ '': '' @ e)
       | Inr result \<Rightarrow> Ok (List.map_filter (\<lambda>f. gm_get (by_fingerprint as []) f) result))"
    by (rule Order_run [OF assms(1,2)])
  from run assms(3) obtain xs where xs: "TopSort g f = Inr xs"
    and bs: "bs = List.map_filter (\<lambda>f. gm_get (by_fingerprint as []) f) xs" by (auto split: sum.splits)
  have "preceded (edge g) xs"
    using TopSort_sorts(1) [OF xs] unfolding preceded_def after_edges_def edge_def by (metis id_take_nth_drop subsetD)
  then have "preceded (requires_rel Q as) (filter (\<lambda>f. f \<in> afp ` set as) xs)"
    by (rule preceded_filter) (simp add: g requires_rel_def)
  moreover have "set bs \<subseteq> set as"
    using by_fingerprint_Some [of as] by (fastforce simp: bs List.map_filter_def)
  ultimately show ?thesis by (simp add: bs map_filter_fps)
qed

definition asserted :: "assertion list \<Rightarrow> string \<Rightarrow> bool" where
  "asserted sol y \<longleftrightarrow> (\<exists>a\<in>set sol. afp a = y \<and> paValue a)"

definition trees_find :: "sat_config \<Rightarrow> art_match gomap \<Rightarrow> assertion list \<Rightarrow> bool" where
  "trees_find C ms sol \<longleftrightarrow>
     (\<forall>k m a q. gm_get ms k = Some m \<and> a \<in> set sol \<and> quFind (queries_of C (brTree (amRepository m))) (paPackage a) = Ok q \<longrightarrow>
        fp q = afp a)"

lemma ordered_fps:
  "ordered_finalizers B ms bs = Ok ps \<Longrightarrow> trees_find (beSat B) ms sol \<Longrightarrow> set bs \<subseteq> set sol \<Longrightarrow>
   map fp ps = map afp (filter (\<lambda>a. paValue a \<and> gm_has ms (afp a)) bs)"
proof (induction B ms bs arbitrary: ps rule: ordered_finalizers.induct)
  case (2 B ms a as)
  show ?case
  proof (cases "gm_get ms (afp a)")
    case None
    with 2 show ?thesis by (auto simp: gm_has_def split: if_splits)
  next
    case (Some m)
    with 2 show ?thesis by (auto simp: gm_has_def trees_find_def split: if_splits dest!: oseq_OkD)
  qed
qed simp

lemma finalizers_preceded:
  assumes "go_sort (beSort B)" "requires_found (queries_of (beSat B) allRepos) sol" "distinct (map afp sol)"
    and "trees_find (beSat B) ms sol"
  shows "finalizers_with_deps B allRepos sol ms d ws = Ok ps \<Longrightarrow>
    preceded (\<lambda>x y. requires_rel (queries_of (beSat B) allRepos) sol x y \<and> gm_has ms y \<and> asserted sol y) (map fp ps)"
    (is "_ \<Longrightarrow> preceded ?R _")
proof (induction ws arbitrary: ps)
  case (Cons w ws)
  show ?case
  proof (cases "Exists d (finalizer_file (amPackage w))")
    case True
    with Cons.prems obtain bs qs rs where ord: "assertions_Order (beSort B) (queries_of (beSat B) allRepos) sol (fp (amPackage w)) = Ok bs"
      and qs: "ordered_finalizers B ms bs = Ok qs" and rs: "finalizers_with_deps B allRepos sol ms d ws = Ok rs"
      and ps: "ps = qs @ rs" by (auto dest!: oseq_OkD)
    note o = Order_preceded [OF assms(1,2) ord]
    have same: "paValue a \<and> gm_has ms (afp a) \<longleftrightarrow> gm_has ms (afp a) \<and> asserted sol (afp a)" if "a \<in> set bs" for a
      using o that assms(3) unfolding asserted_def distinct_map inj_on_def by blast
    have "map fp qs = filter (\<lambda>k. gm_has ms k \<and> asserted sol k) (map afp bs)"
      unfolding ordered_fps [OF qs assms(4) conjunct2 [OF o]] filter_map o_def
      by (rule arg_cong [of _ _ "map afp"], rule filter_cong [OF refl same])
    moreover have "preceded ?R (filter (\<lambda>k. gm_has ms k \<and> asserted sol k) (map afp bs))"
      by (rule preceded_filter [OF conjunct1 [OF o]]) blast
    ultimately show ?thesis unfolding ps using Cons.IH [OF rs] by (simp add: preceded_append)
  qed (use Cons in simp)
qed simp

text \<open>
  In the list of the packages to finalize, with the dependencies, each package comes after the packages
  that it requires and that are installed with it.
\<close>

theorem getFinalizers_in_order:
  assumes "go_sort (beSort B)" "requires_found (queries_of (beSat B) allRepos) sol" "distinct (map afp sol)"
    and "trees_find (beSat B) ms sol" "getFinalizers B allRepos sol ms False d = Ok ps"
    and "i < length ps" "requires_rel (queries_of (beSat B) allRepos) sol (fp (ps ! i)) y" "gm_has ms y" "asserted sol y"
  shows "\<exists>j<i. fp (ps ! j) = y"
proof -
  from assms(5) have "finalizers_with_deps B allRepos sol ms d (match_list B ms) = Ok ps" by (simp add: getFinalizers_def)
  from preceded_nth [OF finalizers_preceded [OF assms(1-4) this], of i y] assms(6-9) obtain j where
    "j < i" "map fp ps ! j = y" by auto
  with assms(6) show ?thesis by auto
qed

definition foo_bar_solution :: "assertion list" where
  "foo_bar_solution = all_true foo_bar"

abbreviation foo_bar_build :: build_env where
  "foo_bar_build \<equiv> demo_build (exact_config foo_bar)"

definition foo_bar_finalizers :: "default_package list outcome" where
  "foo_bar_finalizers =
     getFinalizers foo_bar_build (brTree foo_bar_repo) foo_bar_solution foo_bar_matches False [([''finalize.yaml''], NFile)]"

lemma foo_bar_finalizers_fps:
  "case foo_bar_finalizers of Ok ps \<Rightarrow> map fp ps = [''bar-c-1.0'', ''foo-c-1.0'', ''bar-c-1.0''] | _ \<Rightarrow> False"
  by code_simp

lemma foo_bar_tree_finds:
  "list_all (\<lambda>a. quFind (queries_of (exact_config foo_bar) (brTree foo_bar_repo)) (paPackage a) = Ok (paPackage a)) foo_bar_solution"
  by code_simp

lemma foo_bar_requires:
  "list_all (\<lambda>a. list_all (\<lambda>r. case required_def (queries_of (exact_config foo_bar) (brTree foo_bar_repo)) foo_bar_solution r of
      Ok d \<Rightarrow> fp d = ''bar-c-1.0'' | _ \<Rightarrow> False) (PackageRequires (paPackage a))) foo_bar_solution"
  by code_simp

theorem getFinalizers_in_order_witness:
  "\<exists>ps. foo_bar_finalizers = Ok ps \<and> fp (ps ! 1) = ''foo-c-1.0'' \<and> (\<exists>j<1. fp (ps ! j) = ''bar-c-1.0'')"
proof -
  let ?Q = "queries_of (beSat foo_bar_build) (brTree foo_bar_repo)"
  obtain ps where ps: "foo_bar_finalizers = Ok ps" "map fp ps = [''bar-c-1.0'', ''foo-c-1.0'', ''bar-c-1.0'']"
    using outcome_OkD [OF foo_bar_finalizers_fps] by (elim exE conjE) (rule that)
  then have len: "1 < length ps" and foo: "fp (ps ! 1) = ''foo-c-1.0''" by (auto simp: map_eq_Cons_conv)
  have beSat: "beSat foo_bar_build = exact_config foo_bar" by (simp add: demo_build_def)
  have req: "\<exists>d. required_def ?Q foo_bar_solution r = Ok d \<and> fp d = ''bar-c-1.0''"
    if "a \<in> set foo_bar_solution" "r \<in> set (PackageRequires (paPackage a))" for a r
    using foo_bar_requires that unfolding list_all_iff beSat by (fastforce split: outcome.splits)
  have sort: "go_sort (beSort foo_bar_build)" by (simp add: demo_build_def isort.go_sort_axioms)
  have found: "requires_found ?Q foo_bar_solution" unfolding requires_found_def using req by blast
  have dist: "distinct (map afp foo_bar_solution)" by code_simp
  have "amRepository m = foo_bar_repo" if "gm_get foo_bar_matches k = Some m" for k m
    using map_of_SomeD [OF that] by (auto simp: foo_bar_matches_def)
  then have trees: "trees_find (beSat foo_bar_build) foo_bar_matches foo_bar_solution"
    unfolding trees_find_def beSat using foo_bar_tree_finds by (fastforce simp: list_all_iff)
  have sol: "\<exists>a\<in>set foo_bar_solution. afp a = ''foo-c-1.0'' \<and> PackageRequires (paPackage a) \<noteq> []"
    "''bar-c-1.0'' \<in> afp ` set foo_bar_solution" "asserted foo_bar_solution ''bar-c-1.0''" "gm_has foo_bar_matches ''bar-c-1.0''"
    unfolding asserted_def by code_simp+
  obtain a r where "a \<in> set foo_bar_solution" "afp a = ''foo-c-1.0''" "r \<in> set (PackageRequires (paPackage a))"
    using sol(1) by (metis list.set_intros(1) neq_Nil_conv)
  with req sol(2) have "requires_rel ?Q foo_bar_solution (fp (ps ! 1)) ''bar-c-1.0''"
    unfolding foo requires_rel_def needs_def by blast
  from getFinalizers_in_order [OF sort found dist trees ps(1) [unfolded foo_bar_finalizers_def] len this sol(4,3)] ps(1) foo
  show ?thesis by blast
qed

end
