(* ===== verification/V2Proofs.thy ===== *)
theory V2Proofs
  imports BuildProofs
begin

text \<open>
  Where the installation of the second solver (\<open>pkg/solver/solver_v2.go\<close>) goes wrong: its upgrade starts from
  the packages installed before, and its answer replaces that of the installation.
\<close>

section \<open>Databases of packages with a property\<close>

definition db_all :: "(default_package \<Rightarrow> bool) \<Rightarrow> db_env \<Rightarrow> mem_db \<Rightarrow> bool" where
  "db_all P D db \<longleftrightarrow> (\<forall>k p. md_GetPackage D k db = Inr p \<longrightarrow> P p)"

definition codec_keeps :: "(default_package \<Rightarrow> bool) \<Rightarrow> db_env \<Rightarrow> bool" where
  "codec_keeps P D \<longleftrightarrow> (\<forall>p enc q. deEnc D p = Inr enc \<longrightarrow> deDec D enc = Inr q \<longrightarrow> P p \<longrightarrow> P q)"

lemma db_all_new [simp]: "db_all P D NewInMemoryDatabase"
  by (simp add: db_all_def md_GetPackage_def md_Get_def NewInMemoryDatabase_def)

lemma Create_all_P:
  assumes "codec_keeps P D" "db_all P D db" "P p" "md_CreatePackage D n p db = Some (r, db')"
  shows "db_all P D db'"
proof (cases "deEnc D p")
  case (Inl e)
  with assms show ?thesis by (simp add: md_CreatePackage_def)
next
  case (Inr enc)
  with assms(4) have "mdDatabase db' = gm_set (fp p) enc (mdDatabase db)"
    by (auto simp: md_CreatePackage_def md_Set_def dest!: populate_database)
  then have get: "md_GetPackage D k db' = (if k = fp p then deDec D enc else md_GetPackage D k db)" for k
    by (simp add: md_GetPackage_def md_Get_def)
  have "P q" if "md_GetPackage D k db' = Inr q" for k q
    using that assms(1-3) Inr unfolding get codec_keeps_def db_all_def by (metis (full_types))
  then show ?thesis unfolding db_all_def by blast
qed

lemma create_all_P:
  "codec_keeps P (seDb E) \<Longrightarrow> db_all P (seDb E) db \<Longrightarrow> \<forall>p\<in>set ps. P p \<Longrightarrow> create_all E ps db = Ok db' \<Longrightarrow> db_all P (seDb E) db'"
  by (induction E ps db rule: create_all.induct) (auto split: option.splits dest: Create_all_P)

lemma clone_P:
  "codec_keeps P D \<Longrightarrow> db_all P D db \<Longrightarrow> \<forall>p\<in>set ps. P p \<Longrightarrow> clone_db D n ps db = Some (e, db') \<Longrightarrow> db_all P D db'"
  by (induction D n ps db rule: clone_db.induct) (auto split: option.splits sum.splits dest: Create_all_P)

lemma remove_P: "db_all P D db \<Longrightarrow> db_all P D (remove_all ps db)"
proof (induction ps arbitrary: db)
  case (Cons p ps)
  have "db_all P D (md_RemovePackage p db)"
    using Cons.prems by (auto simp: db_all_def md_GetPackage_def md_Get_def md_RemovePackage_def split: option.splits if_splits)
  with Cons.IH show ?case by simp
qed simp

lemma decoded_mem: "p \<in> set (decoded rs) \<Longrightarrow> Inr p \<in> set rs"
  by (induction rs) (auto split: sum.splits)

lemma world_P: "db_all P (scDb C) db \<Longrightarrow> \<forall>p\<in>set (quWorld (queries_of C db)). P p"
  by (auto simp: queries_of_def mem_queries_def md_World_def db_all_def dest!: decoded_mem)

section \<open>The upgrade\<close>

lemma best_map_mem: "gm_get (best_map ps m) v = Some p \<Longrightarrow> p \<in> set ps \<or> gm_get m v = Some p"
  by (induction ps m rule: best_map.induct) (auto split: if_splits)

lemma best_of_mem: "best_of D ps = Ok p \<Longrightarrow> p \<in> set ps"
  by (auto simp: best_of_def Best_def Let_def split: if_splits option.splits dest!: best_map_mem)

definition versions_keep :: "(default_package \<Rightarrow> bool) \<Rightarrow> queries \<Rightarrow> bool" where
  "versions_keep P Q \<longleftrightarrow> (\<forall>p vs v. quVersions Q p = Ok vs \<longrightarrow> v \<in> set vs \<longrightarrow> P p \<longrightarrow> P v)"

lemma upgrade_pairs_P:
  "versions_keep P Q \<Longrightarrow> \<forall>p\<in>set ps. P p \<Longrightarrow> upgrade_pairs D Q up notUp ps = Ok (us, is) \<Longrightarrow> \<forall>p\<in>set is. P p"
proof (induction ps arbitrary: us "is")
  case (Cons p ps)
  from Cons.prems(3) obtain packages best us' is' where r: "or_else (quVersions Q p) [] = Ok packages"
    "(if packages = [] then Ok None else oseq (best_of D packages) (\<lambda>best. Ok (Some best))) = Ok best"
    "upgrade_pairs D Q up notUp ps = Ok (us', is')"
    "(case best of Some best \<Rightarrow> if wants_upgrade up notUp best p then (p # us', best # is') else (us', is')
       | None \<Rightarrow> (us', is')) = (us, is)"
    by (auto dest!: oseq_OkD)
  from Cons.IH [OF Cons.prems(1) _ r(3)] Cons.prems(2) have "is": "\<forall>p\<in>set is'. P p" by simp
  show ?case
  proof (cases best)
    case (Some b)
    with r(2) have "best_of D packages = Ok b" by (auto dest!: oseq_OkD split: if_splits)
    then have "b \<in> set packages" by (rule best_of_mem)
    moreover from this r(1) have "quVersions Q p = Ok packages" by (cases "quVersions Q p") auto
    ultimately have "P b" using Cons.prems(1,2) unfolding versions_keep_def by force
    with r(4) Some "is" show ?thesis by (auto split: if_splits)
  qed (use r(4) "is" in simp)
qed simp

definition true_P :: "(default_package \<Rightarrow> bool) \<Rightarrow> assertion list \<Rightarrow> bool" where
  "true_P P as \<longleftrightarrow> (\<forall>a\<in>set as. paValue a \<longrightarrow> P (paPackage a))"

lemma all_true_P: "true_P P (all_true ps) \<longleftrightarrow> (\<forall>p\<in>set ps. P p)" "true_P P (xs @ ys) \<longleftrightarrow> true_P P xs \<and> true_P P ys"
  "true_P P []"
  by (auto simp: true_P_def all_true_def)

lemma ToDB_P: "codec_keeps P (seDb E) \<Longrightarrow> true_P P as \<Longrightarrow> ToDB E as = Ok db \<Longrightarrow> db_all P (seDb E) db"
  unfolding ToDB_def by (erule create_all_P) (auto simp: true_P_def)

lemma Unique_P: "map_order it \<Longrightarrow> \<forall>p\<in>set ps. P p \<Longrightarrow> \<forall>p\<in>set (Unique it ps). P p"
  using Unique_spec [of it ps] by (auto simp: find_Some_iff) (metis length_rev nth_mem set_rev)

lemma v2_upgrade_P:
  assumes "codec_keeps P (scDb C)" "map_order (deOrder (scDb C))" "versions_keep P Q" "noRules Q"
  shows "v2_upgrade C n sv up notUp cc s = (Ok (us, as), s') \<Longrightarrow> slDefs sv = Q \<Longrightarrow>
    \<forall>p\<in>set (quWorld (slInstalled sv)). P p \<Longrightarrow> true_P P as"
proof (induction n arbitrary: sv s us as s')
  case (Suc n)
  let ?W = "quWorld (slInstalled sv)"
  from Suc.prems(1) obtain db0 us0 is0 where c: "clone_db (scDb C) (seProvides (scEnv C)) ?W NewInMemoryDatabase = Some (None, db0)"
    and n: "computeUpgradeNew C sv up notUp = Ok (us0, is0)"
    by (auto split: option.splits prod.splits dest!: obind_OkD)
  have db0: "db_all P (scDb C) db0" by (rule clone_P [OF assms(1) db_all_new Suc.prems(3) c])
  have is0: "\<forall>p\<in>set is0. P p"
    using upgrade_pairs_P [OF assms(3) Suc.prems(3)] n Suc.prems(2) unfolding computeUpgradeNew_def by metis
  show ?case
  proof (cases "is0 = []")
    case True
    with Suc.prems(1,3) c n show ?thesis by (auto simp: all_true_P split: if_splits dest!: obind_OkD)
  next
    case False
    have inst: "\<forall>p\<in>set (Unique (deOrder (scDb C)) is0). P p" by (rule Unique_P [OF assms(2) is0])
    have found: "fst (v2_relaxedInstall C \<lparr>slDefs = slDefs sv, slInstalled = queries_of C (remove_all r db0)\<rparr>
        (Unique (deOrder (scDb C)) is0) new_state) =
      Ok (all_true (quWorld (queries_of C (remove_all r db0))) @ all_true (Unique (deOrder (scDb C)) is0))" for r
      using assms(4) by (simp add: v2_relaxedInstall_def Suc.prems(2))
    have tr: "true_P P (all_true (quWorld (queries_of C (remove_all r db0))) @ all_true (Unique (deOrder (scDb C)) is0))" for r
      unfolding all_true_P using world_P [OF remove_P [OF db0]] inst by blast
    from Suc.prems(1) c n False obtain r ws where
      w: "ToDB (scEnv C) (all_true (quWorld (queries_of C (remove_all r db0))) @ all_true (Unique (deOrder (scDb C)) is0)) = Ok ws"
      and rest: "(\<exists>us1. fst (v2_upgrade C n \<lparr>slDefs = slDefs sv, slInstalled = queries_of C ws\<rparr> up notUp cc new_state) = Ok (us1, as)) \<or>
        as = all_true (quWorld (queries_of C (remove_all r db0))) @ all_true (Unique (deOrder (scDb C)) is0)"
      by (auto simp: found Let_def split: if_splits dest!: obind_OkD)
    have "\<forall>p\<in>set (quWorld (queries_of C ws)). P p" by (rule world_P [OF ToDB_P [OF assms(1) tr w]])
    with Suc.IH [of "\<lparr>slDefs = slDefs sv, slInstalled = queries_of C ws\<rparr>"] Suc.prems(2) rest tr show ?thesis
      by (metis prod.collapse solver.select_convs)
  qed
qed simp

section \<open>The installation\<close>

text \<open>The names under which the databases know a package; what is decoded, and the versions found, are of the same.\<close>

definition known_names :: "default_package list \<Rightarrow> string set" where
  "known_names ps = GetPackageName ` set ps"

definition codec_names :: "db_env \<Rightarrow> bool" where
  "codec_names D \<longleftrightarrow> (\<forall>p enc q. deEnc D p = Inr enc \<longrightarrow> deDec D enc = Inr q \<longrightarrow> GetPackageName q = GetPackageName p)"

definition own_versions :: "queries \<Rightarrow> bool" where
  "own_versions Q \<longleftrightarrow> (\<forall>p vs v. quVersions Q p = Ok vs \<longrightarrow> v \<in> set vs \<longrightarrow> GetPackageName v = GetPackageName p)"

text \<open>
  C25: With definitions that have no requirement and no conflict, and provide no other name, the installation of
  the second solver either answers with its relaxed installation, which asserts every package wanted, or with
  assertions about names that were installed before alone: then no package wanted of another name is asserted.
\<close>

theorem v2_Install_loses_wanted:
  assumes "map_order (deOrder (scDb C))" "codec_names (scDb C)" "own_versions (slDefs sv)" "noRules (slDefs sv)"
    and "v2_RelaxedInstall C sv c s = (Ok as0, s0)" "v2_Install C n sv c s = (Ok as, s')" "as \<noteq> as0"
  shows "\<exists>ps. getList (scDb C) (slDefs sv) c = Ok ps \<and>
    (\<forall>p\<in>set ps. \<lparr>paPackage = p, paValue = True\<rparr> \<in> set as0 \<and>
      (GetPackageName p \<notin> known_names (quWorld (slInstalled sv)) \<longrightarrow>
        \<not> (\<exists>a\<in>set as. paValue a \<and> GetPackageName (paPackage a) = GetPackageName p)))"
proof -
  let ?P = "\<lambda>p. GetPackageName p \<in> known_names (quWorld (slInstalled sv))"
  from assms(4,5) obtain ps where ps: "getList (scDb C) (slDefs sv) c = Ok ps"
    "as0 = all_true (quWorld (slInstalled sv)) @ all_true ps"
    by (auto simp: v2_RelaxedInstall_def v2_relaxedInstall_def dest!: obind_OkD)
  have k: "codec_keeps ?P (scDb C)" "versions_keep ?P (slDefs sv)"
    using assms(2,3) by (auto simp: codec_keeps_def codec_names_def versions_keep_def own_versions_def)
  from assms(5-7) obtain up notUp t us t' where "v2_upgrade C n sv up notUp False t = (Ok (us, as), t')"
    by (auto simp: v2_Install_def Let_def split: if_splits dest!: obind_OkD obind_err_OkD)
  from v2_upgrade_P [OF k(1) assms(1) k(2) assms(4) this] have "true_P ?P as"
    by (auto simp: known_names_def)
  then have "\<forall>p. \<not> ?P p \<longrightarrow> \<not> (\<exists>a\<in>set as. paValue a \<and> GetPackageName (paPackage a) = GetPackageName p)"
    unfolding true_P_def by metis
  moreover have "\<forall>p\<in>set ps. \<lparr>paPackage = p, paValue = True\<rparr> \<in> set as0"
    by (simp add: ps(2) all_true_def)
  ultimately show ?thesis using ps(1) by blast
qed

section \<open>A world with an older version installed\<close>

definition exact_solver :: "default_package list \<Rightarrow> default_package list \<Rightarrow> solver" where
  "exact_solver ps installed =
     (let C = exact_config ps;
          db = (\<lambda>qs. case create_all (scEnv C) qs NewInMemoryDatabase of Ok db \<Rightarrow> db | _ \<Rightarrow> NewInMemoryDatabase)
      in \<lparr>slDefs = queries_of C (db ps), slInstalled = queries_of C (db installed)\<rparr>)"

definition bars_db :: mem_db where
  "bars_db = (case create_all (scEnv (exact_config plain_bars)) plain_bars NewInMemoryDatabase of Ok db \<Rightarrow> db | _ \<Rightarrow> NewInMemoryDatabase)"

definition bars_solver :: solver where
  "bars_solver = exact_solver plain_bars [plain_bars ! 1]"

lemma bars_defs: "slDefs bars_solver = queries_of (exact_config plain_bars) bars_db"
  by (simp add: bars_solver_def exact_solver_def bars_db_def Let_def)

lemma exact_names: "codec_names (scDb (exact_config ps))"
  by (auto simp: codec_names_def exact_config_def index_of split: if_splits)

lemma cached_versions:
  assumes "mdProvides db = []" "map_order (deOrder (scDb C))"
    and "list_all (\<lambda>(k, vs). list_all (\<lambda>(x, v). GetPackageName v = k) vs) (mdCacheNoVersion db)"
  shows "own_versions (queries_of C db)"
proof -
  have "GetPackageName v = GetPackageName p" if r: "quVersions (queries_of C db) p = Ok vs" and v: "v \<in> set vs" for p vs v
  proof -
    have "md_getProvide (scDb C) n db p = Some (Inl ''No versions found for package'')" for n
      by (simp add: md_getProvide_def getProvide.simps [of _ "[]"] provide_scan_def pm2_get_def assms(1))
    with r obtain versions where m: "gm_get (mdCacheNoVersion db) (GetPackageName p) = Some versions"
      "vs = map snd (gm_range (deOrder (scDb C)) versions)"
      by (auto simp: queries_of_def mem_queries_def md_FindPackageVersions_def split: option.splits)
    with v obtain x where "gm_get versions x = Some v" using map_order.range_iff [OF assms(2)] by fastforce
    then have "(x, v) \<in> set versions" by (rule map_of_SomeD)
    with map_of_SomeD [OF m(1)] assms(3) show ?thesis by (fastforce simp: list_all_iff)
  qed
  then show ?thesis by (auto simp: own_versions_def)
qed

lemma bars_cache: "mdProvides bars_db = []"
  "list_all (\<lambda>(k, vs). list_all (\<lambda>(x, v). GetPackageName v = k) vs) (mdCacheNoVersion bars_db)"
  by code_simp+

lemma bars_runs:
  "noRules (slDefs bars_solver)"
  "installed_names (fst (v2_RelaxedInstall (exact_config plain_bars) bars_solver wants_foo new_state)) = [''c/bar-1.0'', ''c/foo-1.0'']"
  "installed_names (fst (v2_Install (exact_config plain_bars) 3 bars_solver wants_foo new_state)) = [''c/bar-2.0'']"
  "installed_names (fst (solver_Install (exact_config plain_bars) bars_solver 3 wants_foo new_state)) = [''c/foo-1.0'', ''c/bar-2.0'']"
  "map GetPackageName (quWorld (slInstalled bars_solver)) = [''bar-c'']"
  by code_simp+

theorem v2_Install_loses_wanted_witness:
  "\<exists>ps as. getList (scDb (exact_config plain_bars)) (slDefs bars_solver) wants_foo = Ok ps \<and>
     fst (v2_Install (exact_config plain_bars) 3 bars_solver wants_foo new_state) = Ok as \<and>
     (\<forall>p\<in>set ps. GetPackageName p \<noteq> ''bar-c'' \<longrightarrow>
        \<not> (\<exists>a\<in>set as. paValue a \<and> GetPackageName (paPackage a) = GetPackageName p))"
proof -
  let ?C = "exact_config plain_bars"
  obtain as0 s0 where r0: "v2_RelaxedInstall ?C bars_solver wants_foo new_state = (Ok as0, s0)"
    "installed_names (Ok as0) = [''c/bar-1.0'', ''c/foo-1.0'']"
    using bars_runs(2) by (cases "v2_RelaxedInstall ?C bars_solver wants_foo new_state"; cases "fst (v2_RelaxedInstall ?C bars_solver wants_foo new_state)")
      (auto simp: installed_names_def)
  obtain as s where r: "v2_Install ?C 3 bars_solver wants_foo new_state = (Ok as, s)" "installed_names (Ok as) = [''c/bar-2.0'']"
    using bars_runs(3) by (cases "v2_Install ?C 3 bars_solver wants_foo new_state"; cases "fst (v2_Install ?C 3 bars_solver wants_foo new_state)")
      (auto simp: installed_names_def)
  have "as \<noteq> as0" using r(2) r0(2) by auto
  moreover have "own_versions (slDefs bars_solver)"
    unfolding bars_defs by (rule cached_versions [OF bars_cache(1) exact_config_order bars_cache(2)])
  moreover have "known_names (quWorld (slInstalled bars_solver)) = {''bar-c''}"
    using bars_runs(5) by (metis known_names_def list.set(1,2) list.set_map)
  ultimately show ?thesis
    using v2_Install_loses_wanted [OF exact_config_order exact_names _ bars_runs(1) r0(1) r(1)] r(1) by auto
qed

end
