(* ===== verification/BuildSpec.thy ===== *)
theory BuildSpec
  imports Universe Manager
begin

text \<open>
  The compilation specs of the builder, \<open>pkg/compiler/types/spec/spec.go\<close>, with the options of the compiler,
  \<open>pkg/compiler/types/options/compiler_options.go\<close>: the lists of specs, what a spec says of its package, its
  hash and the image definitions rendered from it.

  The structural hash, the hash of a directory and the YAML decoder are parameters; values for templates
  are kept as text.  The package of a spec, set where a spec is made, is not nil.
\<close>

type_synonym tmpl_values = string

record comp_opts =
  coPushRepo :: string
  coPullRepos :: "string list"
  coPullFirst :: bool
  coKeepImg :: bool
  coPush :: bool
  coConcurrency :: nat
  coWait :: bool
  coOnlyDeps :: bool
  coNoDeps :: bool
  coV2 :: bool
  coValues :: "tmpl_values list"
  coTargetOnly :: bool
  coRebuild :: bool
  coBackendArgs :: "string list"
  coBackendType :: string
  coTemplates :: "string list"
  coValuesFiles :: "string list"

text \<open>The zero value, and the default.\<close>

definition no_comp_opts :: comp_opts where
  "no_comp_opts =
     \<lparr>coPushRepo = [], coPullRepos = [], coPullFirst = False, coKeepImg = False, coPush = False, coConcurrency = 0,
      coWait = False, coOnlyDeps = False, coNoDeps = False, coV2 = False, coValues = [], coTargetOnly = False,
      coRebuild = False, coBackendArgs = [], coBackendType = [], coTemplates = [], coValuesFiles = []\<rparr>"

definition NewDefaultCompiler :: "nat \<Rightarrow> comp_opts" where
  "NewDefaultCompiler cpus = no_comp_opts\<lparr>coPushRepo := ''luet/cache'', coKeepImg := True, coConcurrency := cpus\<rparr>"

text \<open>The options of a compiler, each a change of them that may fail; a nil one is passed over.\<close>

type_synonym comp_option = "comp_opts \<Rightarrow> err option \<times> comp_opts"

fun Apply :: "comp_option option list \<Rightarrow> comp_opts \<Rightarrow> err option \<times> comp_opts" where
  "Apply [] c = (None, c)"
| "Apply (None # os) c = Apply os c"
| "Apply (Some f # os) c = (case f c of (Some e, c) \<Rightarrow> (Some e, c) | (None, c) \<Rightarrow> Apply os c)"

text \<open>This one assigns its own parameter, which changes nothing.\<close>

definition WithOptions :: "comp_opts \<Rightarrow> comp_option" where
  "WithOptions opt c = (None, c)"

definition WithBackendType :: "string \<Rightarrow> comp_option" where
  "WithBackendType r c = (None, c\<lparr>coBackendType := r\<rparr>)"

definition WithTemplateFolder :: "string list \<Rightarrow> comp_option" where
  "WithTemplateFolder r c = (None, c\<lparr>coTemplates := r\<rparr>)"

definition WithBuildValues :: "string list \<Rightarrow> comp_option" where
  "WithBuildValues r c = (None, c\<lparr>coValuesFiles := r\<rparr>)"

definition WithPullRepositories :: "string list \<Rightarrow> comp_option" where
  "WithPullRepositories r c = (None, c\<lparr>coPullRepos := r\<rparr>)"

definition WithPushRepository :: "string \<Rightarrow> comp_option" where
  "WithPushRepository r c =
     (let c = (if length (coPullRepos c) = 0 then c\<lparr>coPullRepos := [coPushRepo c]\<rparr> else c) in (None, c\<lparr>coPushRepo := r\<rparr>))"

definition BackendArgs :: "string list \<Rightarrow> comp_option" where
  "BackendArgs r c = (None, c\<lparr>coBackendArgs := r\<rparr>)"

definition PullFirst :: "bool \<Rightarrow> comp_option" where
  "PullFirst b c = (None, c\<lparr>coPullFirst := b\<rparr>)"

definition KeepImg :: "bool \<Rightarrow> comp_option" where
  "KeepImg b c = (None, c\<lparr>coKeepImg := b\<rparr>)"

definition Rebuild :: "bool \<Rightarrow> comp_option" where
  "Rebuild b c = (None, c\<lparr>coRebuild := b\<rparr>)"

definition PushImages :: "bool \<Rightarrow> comp_option" where
  "PushImages b c = (None, c\<lparr>coPush := b\<rparr>)"

definition Wait :: "bool \<Rightarrow> comp_option" where
  "Wait b c = (None, c\<lparr>coWait := b\<rparr>)"

definition OnlyDeps :: "bool \<Rightarrow> comp_option" where
  "OnlyDeps b c = (None, c\<lparr>coOnlyDeps := b\<rparr>)"

definition OnlyTarget :: "bool \<Rightarrow> comp_option" where
  "OnlyTarget b c = (None, c\<lparr>coTargetOnly := b\<rparr>)"

definition NoDeps :: "bool \<Rightarrow> comp_option" where
  "NoDeps b c = (None, c\<lparr>coNoDeps := b\<rparr>)"

definition Concurrency :: "nat \<Rightarrow> nat \<Rightarrow> comp_option" where
  "Concurrency cpus i c = (None, c\<lparr>coConcurrency := (if i = 0 then cpus else i)\<rparr>)"

definition WithSolverOptions :: "bool \<Rightarrow> comp_option" where
  "WithSolverOptions v2 c = (None, c\<lparr>coV2 := v2\<rparr>)"

text \<open>An error of an option is lost, and those after it are not applied.\<close>

definition NewCompiler :: "nat \<Rightarrow> comp_option option list \<Rightarrow> comp_opts" where
  "NewCompiler cpus os = snd (Apply os (NewDefaultCompiler cpus))"

record copy_field =
  cfPackage :: "default_package option"
  cfImage :: string
  cfSource :: string
  cfDestination :: string

text \<open>An assertion with the hashes of the image it is built from and of its own.\<close>

record hashed =
  haAssertion :: assertion
  haBuildHash :: string
  haPackageHash :: string

abbreviation haPackage :: "hashed \<Rightarrow> default_package" where
  "haPackage a \<equiv> paPackage (haAssertion a)"

record comp_spec =
  csSteps :: "string list"
  csEnv :: "string list"
  csPrelude :: "string list"
  csImage :: string
  csSeed :: string
  csPackage :: default_package
  csSourceAssertion :: "hashed list"
  csPackageDir :: string
  csRetrieve :: "string list"
  csOutputPath :: string
  csUnpack :: bool
  csIncludes :: "string list"
  csExcludes :: "string list"
  csOptions :: comp_opts
  csCopy :: "copy_field list"
  csFinalImages :: bool

section \<open>Lists of specs\<close>

definition specs_Remove :: "comp_spec list \<Rightarrow> comp_spec list \<Rightarrow> comp_spec list" where
  "specs_Remove specs s = filter (\<lambda>x. \<not> list_ex (\<lambda>t. Matches (csPackage t) (csPackage x)) s) specs"

fun specs_unique :: "string list \<Rightarrow> comp_spec list \<Rightarrow> comp_spec list" where
  "specs_unique seen [] = []"
| "specs_unique seen (s # ss) =
     (let k = GetFingerPrint (csPackage s)
      in if k \<in> set seen then specs_unique seen ss else s # specs_unique (k # seen) ss)"

definition specs_Unique :: "comp_spec list \<Rightarrow> comp_spec list" where
  "specs_Unique specs = specs_unique [] specs"

section \<open>A spec\<close>

text \<open>The fields that count for the hash.\<close>

record signature =
  sgImage :: string
  sgSteps :: "string list"
  sgPackageDir :: string
  sgPrelude :: "string list"
  sgSeed :: string
  sgEnv :: "string list"
  sgRetrieve :: "string list"
  sgUnpack :: bool
  sgIncludes :: "string list"
  sgExcludes :: "string list"
  sgCopy :: "copy_field list"
  sgRequires :: "default_package list"
  sgFinalImages :: bool

definition spec_signature :: "comp_spec \<Rightarrow> signature" where
  "spec_signature s =
     \<lparr>sgImage = csImage s, sgSteps = csSteps s, sgPackageDir = csPackageDir s, sgPrelude = csPrelude s, sgSeed = csSeed s,
      sgEnv = csEnv s, sgRetrieve = csRetrieve s, sgUnpack = csUnpack s, sgIncludes = csIncludes s,
      sgExcludes = csExcludes s, sgCopy = csCopy s, sgRequires = PackageRequires (csPackage s),
      sgFinalImages = csFinalImages s\<rparr>"

text \<open>What is decoded from the text: the spec, and a package with requires, conflicts and provides.\<close>

definition NewLuetCompilationSpec ::
    "(string \<Rightarrow> comp_spec res) \<Rightarrow> (string \<Rightarrow> default_package res) \<Rightarrow> string \<Rightarrow> default_package \<Rightarrow> comp_spec res" where
  "NewLuetCompilationSpec decode decodePkg b p =
     (case decode b of
        Inl e \<Rightarrow> Inl e
      | Inr spec \<Rightarrow>
          (case decodePkg b of
             Inl e \<Rightarrow> Inl e
           | Inr d \<Rightarrow>
               Inr (spec\<lparr>csPackage := DefaultPackage (pkg_data p)
                      (if length (PackageRequires d) \<noteq> 0 then PackageRequires d else PackageRequires p)
                      (if length (PackageConflicts d) \<noteq> 0 then PackageConflicts d else PackageConflicts p)
                      (if length (Provides d) \<noteq> 0 then Provides d else Provides p)\<rparr>)))"

definition UnpackedPackage :: "comp_spec \<Rightarrow> bool" where
  "UnpackedPackage s = (csPackageDir s \<noteq> [] \<or> csUnpack s)"

definition EmptyPackage :: "comp_spec \<Rightarrow> bool" where
  "EmptyPackage s = (length (csSteps s) = 0 \<and> \<not> UnpackedPackage s)"

definition HasImageSource :: "comp_spec \<Rightarrow> bool" where
  "HasImageSource s =
     (length (PackageRequires (csPackage s)) \<noteq> 0 \<or> csImage s \<noteq> [] \<or>
      csFinalImages s \<and> length (PackageRequires (csPackage s)) \<noteq> 0)"

definition IsVirtual :: "comp_spec \<Rightarrow> bool" where
  "IsVirtual s = (EmptyPackage s \<and> \<not> HasImageSource s)"

definition spec_IsValid :: "comp_spec \<Rightarrow> err option" where
  "spec_IsValid s =
     (if \<not> IsVirtual s \<and> csImage s = [] \<and> length (PackageRequires (csPackage s)) = 0 \<and> length (csCopy s) = 0
      then Some ''No requires, image or layer to join found'' else None)"

definition spec_Rel :: "comp_spec \<Rightarrow> string \<Rightarrow> string" where
  "spec_Rel s f = PathJoin [csOutputPath s, f]"

text \<open>The structural hash of the signature and the hash of the directory of the package, printed side by side.\<close>

definition spec_Hash :: "(signature \<Rightarrow> string res) \<Rightarrow> (string \<Rightarrow> string res) \<Rightarrow> comp_spec \<Rightarrow> string res" where
  "spec_Hash structural dirhash s =
     (case structural (spec_signature s) of
        Inl e \<Rightarrow> Inl e
      | Inr h \<Rightarrow> (case dirhash (Path (pkg_data (csPackage s))) of Inl e \<Rightarrow> Inl e | Inr d \<Rightarrow> Inr (h @ d)))"

section \<open>Image definitions\<close>

definition nl :: string where
  "nl = [CHR 0x0A]"

definition copy_line :: "copy_field \<Rightarrow> string" where
  "copy_line c =
     (if cfImage c \<noteq> [] then nl @ ''COPY --from='' @ cfImage c @ '' '' @ cfSource c @ '' '' @ cfDestination c @ nl else [])"

definition genDockerfile :: "comp_spec \<Rightarrow> string \<Rightarrow> string list \<Rightarrow> string" where
  "genDockerfile s img steps =
     nl @ ''FROM '' @ img @ nl @ ''COPY . /luetbuild'' @ nl @ ''WORKDIR /luetbuild'' @ nl @
     ''ENV PACKAGE_NAME='' @ pName (csPackage s) @ nl @ ''ENV PACKAGE_VERSION='' @ pVersion (csPackage s) @ nl @
     ''ENV PACKAGE_CATEGORY='' @ pCategory (csPackage s) @
     concat (map (\<lambda>r. nl @ ''ADD '' @ r @ '' /luetbuild/'') (csRetrieve s)) @ concat (map copy_line (csCopy s)) @
     concat (map (\<lambda>e. nl @ ''ENV '' @ e) (csEnv s)) @ concat (map (\<lambda>t. nl @ ''RUN '' @ t) steps)"

definition RenderBuildImage :: "comp_spec \<Rightarrow> string" where
  "RenderBuildImage s = genDockerfile s (csSeed s) (csPrelude s)"

definition RenderStepImage :: "comp_spec \<Rightarrow> string \<Rightarrow> string" where
  "RenderStepImage s img = genDockerfile s img (csSteps s)"

end
