(* ===== verification/HashTree.thy ===== *)
theory HashTree
  imports BuildSpec
begin

text \<open>
  The hash tree of the builder, \<open>pkg/compiler/imagehashtree.go\<close>, and the parts of \<open>pkg/compiler/compiler.go\<close>
  that make specs from packages and solve their dependencies: each package of the ordered solution has a
  hash of the solution up to it, which names its image, and the hash of the image it is built from.

  The state is the database of the compiler, which every spec made updates, and the world outside: files
  and images, of any type.  Parameters of \<open>comp_env\<close> read the metadata of artifacts, the values and the
  templates, decode YAML, hash, and run the commands of the backend (\<open>backend.go\<close>'s interface).
\<close>

record 'w comp_state =
  stDb :: mem_db
  stWorld :: 'w

text \<open>\<open>backend.Options\<close>.\<close>

record image_opts =
  ioImage :: string
  ioSource :: string
  ioDockerfile :: string
  ioDestination :: string
  ioContext :: string
  ioArgs :: "string list"
  ioPackageDir :: string

definition no_image_opts :: image_opts where
  "no_image_opts = \<lparr>ioImage = [], ioSource = [], ioDockerfile = [], ioDestination = [], ioContext = [], ioArgs = [], ioPackageDir = []\<rparr>"

datatype build_artifact =
  BuildArtifact (baaPath: string) (baaFiles: "string list") (baaSpec: "comp_spec option")
    (baaDependencies: "build_artifact list") (baaAssertion: "hashed list") (baaCacheImage: string)

text \<open>The difference of two images: files with their sizes.\<close>

record artifact_node =
  anName :: string
  anSize :: nat

record artifact_layer =
  alFrom :: string
  alTo :: string
  alAdditions :: "artifact_node list"
  alDeletions :: "artifact_node list"
  alChanges :: "artifact_node list"

definition NewBuildArtifact :: "string \<Rightarrow> build_artifact" where
  "NewBuildArtifact path = BuildArtifact path [] None [] [] []"

text \<open>
  \<open>ceTick\<close> is the world five seconds later.  \<open>ceWalk\<close> lists the paths of a tree, with whether it is a
  directory, and \<open>ceLstat\<close> is the size of what is at a path.
\<close>

record 'w comp_env =
  ceSat :: sat_config
  ceRounds :: nat
  ceWaits :: nat
  ceSort :: "(assertion \<Rightarrow> assertion \<Rightarrow> bool) \<Rightarrow> assertion list \<Rightarrow> assertion list"
  ceSha :: "string \<Rightarrow> string"
  ceOpts :: comp_opts
  ceMeta :: "string \<Rightarrow> 'w \<Rightarrow> comp_opts option res"
  ceValues :: "'w \<Rightarrow> tmpl_values res"
  ceTemplate :: "tmpl_values list \<Rightarrow> default_package \<Rightarrow> tmpl_values \<Rightarrow> 'w \<Rightarrow> string res"
  ceDecode :: "string \<Rightarrow> comp_spec res"
  ceDecodePkg :: "string \<Rightarrow> default_package res"
  ceStructural :: "signature \<Rightarrow> string res"
  ceDirHash :: "string \<Rightarrow> 'w \<Rightarrow> string res"
  ceExists :: "string \<Rightarrow> 'w \<Rightarrow> bool"
  ceAvailable :: "string \<Rightarrow> 'w \<Rightarrow> bool"
  ceDownload :: "image_opts \<Rightarrow> 'w \<Rightarrow> err option \<times> 'w"
  ceBuild :: "image_opts \<Rightarrow> 'w \<Rightarrow> err option \<times> 'w"
  cePush :: "image_opts \<Rightarrow> 'w \<Rightarrow> err option \<times> 'w"
  ceRemove :: "image_opts \<Rightarrow> 'w \<Rightarrow> err option \<times> 'w"
  ceExtract :: "image_opts \<Rightarrow> bool \<Rightarrow> 'w \<Rightarrow> err option \<times> 'w"
  ceTick :: "'w \<Rightarrow> 'w"
  ceMkdir :: "string \<Rightarrow> 'w \<Rightarrow> err option \<times> 'w"
  ceTempDir :: "string \<Rightarrow> string \<Rightarrow> 'w \<Rightarrow> string res \<times> 'w"
  ceRemoveAll :: "string \<Rightarrow> 'w \<Rightarrow> err option \<times> 'w"
  ceCopyDir :: "string \<Rightarrow> string \<Rightarrow> 'w \<Rightarrow> err option \<times> 'w"
  ceRetrieves :: "comp_spec \<Rightarrow> string \<Rightarrow> 'w \<Rightarrow> err option \<times> 'w"
  ceWrite :: "string \<Rightarrow> string \<Rightarrow> 'w \<Rightarrow> err option \<times> 'w"
  ceLoad :: "comp_spec \<Rightarrow> 'w \<Rightarrow> build_artifact res"
  ceWriteYaml :: "build_artifact \<Rightarrow> string \<Rightarrow> 'w \<Rightarrow> err option \<times> 'w"
  ceCompress :: "build_artifact \<Rightarrow> string \<Rightarrow> 'w \<Rightarrow> build_artifact res \<times> 'w"
  ceFileList :: "build_artifact \<Rightarrow> 'w \<Rightarrow> string list res"
  ceUnpack :: "build_artifact \<Rightarrow> string \<Rightarrow> 'w \<Rightarrow> err option \<times> 'w"
  ceSysTemp :: "string \<Rightarrow> 'w \<Rightarrow> string res \<times> 'w"
  ceDirEmpty :: "string \<Rightarrow> 'w \<Rightarrow> bool res"
  ceWalk :: "string \<Rightarrow> 'w \<Rightarrow> (string \<times> bool) list res"
  ceLstat :: "string \<Rightarrow> 'w \<Rightarrow> nat option"
  ceUntar :: "string \<Rightarrow> string \<Rightarrow> bool \<Rightarrow> 'w \<Rightarrow> err option \<times> 'w"
  ceCopyFile :: "string \<Rightarrow> string \<Rightarrow> 'w \<Rightarrow> err option \<times> 'w"
  ceRegex :: rx
  ceNow :: "'w \<Rightarrow> string"

abbreviation ceDb :: "'w comp_env \<Rightarrow> db_env" where
  "ceDb E \<equiv> scDb (ceSat E)"

abbreviation ceProvides :: "'w comp_env \<Rightarrow> nat" where
  "ceProvides E \<equiv> seProvides (scEnv (ceSat E))"

definition on_world :: "('w \<Rightarrow> 'a \<times> 'w) \<Rightarrow> 'w comp_state \<Rightarrow> 'a \<times> 'w comp_state" where
  "on_world f s = (case f (stWorld s) of (a, w) \<Rightarrow> (a, s\<lparr>stWorld := w\<rparr>))"

text \<open>An error of a call, wrapped, or its value.\<close>

definition checked :: "string \<Rightarrow> err option \<times> 's \<Rightarrow> unit outcome \<times> 's" where
  "checked m r = (case r of (Some e, s) \<Rightarrow> (Err (m @ '': '' @ e), s) | (None, s) \<Rightarrow> (Ok (), s))"

definition checked_res :: "string \<Rightarrow> 'a res \<times> 's \<Rightarrow> 'a outcome \<times> 's" where
  "checked_res m r = (case r of (Inl e, s) \<Rightarrow> (Err (m @ '': '' @ e), s) | (Inr a, s) \<Rightarrow> (Ok a, s))"

definition wrap_err :: "string \<Rightarrow> 'a outcome \<times> 's \<Rightarrow> 'a outcome \<times> 's" where
  "wrap_err m r = map_prod (wrapped m) id r"

section \<open>From a package to its spec\<close>

definition inheritSpecBuildOptions :: "comp_opts \<Rightarrow> comp_spec \<Rightarrow> comp_spec" where
  "inheritSpecBuildOptions C s =
     (let b = csOptions s;
          pull = (if length (coPushRepo b) \<noteq> 0 then coPullRepos b @ [coPushRepo b] else coPullRepos b)
      in s\<lparr>csOptions := b\<lparr>coPullRepos := (if length (coPullRepos C) \<noteq> 0 then pull @ coPullRepos C else pull)\<rparr>\<rparr>)"

definition FromPackage :: "'w comp_env \<Rightarrow> default_package \<Rightarrow> 'w comp_state \<Rightarrow> comp_spec outcome \<times> 'w comp_state" where
  "FromPackage E p s =
     (case md_FindPackageCandidate (ceDb E) (ceProvides E) (stDb s) p of
        None \<Rightarrow> (Fuel, s)
      | Some (_, Some e) \<Rightarrow> (Err e, s)
      | Some (None, None) \<Rightarrow> (Panic ''invalid memory address or nil pointer dereference'', s)
      | Some (Some pack, None) \<Rightarrow>
          (case ceMeta E (PathJoin [TreeDir (pkg_data pack), ''..'', GetMetadataFilePath pack]) (stWorld s) of
             Inl e \<Rightarrow> (Err e, s)
           | Inr found \<Rightarrow>
               (case ceValues E (stWorld s) of
                  Inl e \<Rightarrow> (Err (''unmarshalling values: '' @ e), s)
                | Inr dst \<Rightarrow>
                    (let opts = (case found of Some b \<Rightarrow> b | None \<Rightarrow> no_comp_opts);
                         opts = opts\<lparr>coValues := coValues opts @ [dst]\<rparr>
                     in case ceTemplate E (coValues opts) pack dst (stWorld s) of
                          Inl e \<Rightarrow> (Err (''while rendering package template: '' @ e), s)
                        | Inr bytes \<Rightarrow>
                            (case NewLuetCompilationSpec (ceDecode E) (ceDecodePkg E) bytes pack of
                               Inl e \<Rightarrow> (Err e, s)
                             | Inr spec \<Rightarrow>
                                 (let spec = inheritSpecBuildOptions (ceOpts E) (spec\<lparr>csOptions := opts\<rparr>)
                                  in case md_UpdatePackage (ceDb E) (csPackage spec) (stDb s) of
                                       (Some e, db) \<Rightarrow>
                                         (Err (''failed updating new package entry in compiler database: '' @ e), s\<lparr>stDb := db\<rparr>)
                                     | (None, db) \<Rightarrow> (Ok spec, s\<lparr>stDb := db\<rparr>)))))))"

section \<open>The dependencies of a spec\<close>

definition ComputeDepTree :: "'w comp_env \<Rightarrow> comp_spec \<Rightarrow> 'w comp_state \<Rightarrow> assertion list outcome" where
  "ComputeDepTree E p s =
     (let C = ceSat E; Q = queries_of C (stDb s);
          sv = \<lparr>slDefs = Q, slInstalled = queries_of C NewInMemoryDatabase\<rparr>; k = csPackage p
      in oseq (wrapped (''While computing a solution for '' @ HumanReadableString k)
                 (fst (if coV2 (ceOpts E) then v2_Install C (ceRounds E) sv [k] new_state
                       else solver_Install C sv (ceRounds E) [k] new_state))) (\<lambda>solution.
           wrapped (''While order a solution for '' @ HumanReadableString k)
             (assertions_Order (ceSort E) Q solution (GetFingerPrint k))))"

text \<open>The salts: the hash of the spec of each package that is asserted.\<close>

fun spec_salts ::
    "'w comp_env \<Rightarrow> assertion list \<Rightarrow> string gomap \<Rightarrow> 'w comp_state \<Rightarrow> string gomap outcome \<times> 'w comp_state" where
  "spec_salts E [] salts s = (Ok salts, s)"
| "spec_salts E (a # as) salts s =
     (if \<not> paValue a then spec_salts E as salts s
      else
        obind (wrap_err ''while computing hash buildspecs'' (FromPackage E (paPackage a) s)) (\<lambda>spec s.
          case spec_Hash (ceStructural E) (\<lambda>d. ceDirHash E d (stWorld s)) spec of
            Inl e \<Rightarrow> (Err (''failed computing hash: '' @ e), s)
          | Inr h \<Rightarrow> spec_salts E as (gm_set (GetFingerPrint (paPackage a)) h salts) s))"

definition SetTreeDir :: "string \<Rightarrow> default_package \<Rightarrow> default_package" where
  "SetTreeDir d = upd_info (\<lambda>i. i\<lparr>TreeDir := d\<rparr>)"

text \<open>\<open>all\<close> are the dependencies, of which each asserted one is hashed with those before it.\<close>

fun hash_assertions ::
    "(string \<Rightarrow> string) \<Rightarrow> string \<Rightarrow> assertion list \<Rightarrow> assertion list \<Rightarrow> string gomap \<Rightarrow> hashed list" where
  "hash_assertions sha dir all [] salts = []"
| "hash_assertions sha dir all (a # as) salts =
     (if \<not> paValue a then hash_assertions sha dir all as salts
      else
        (let nth = assertions_Cut all (paPackage a)
         in case SaltedHashFrom sha nth (paPackage a) salts of (buildHash, salts) \<Rightarrow>
              \<lparr>haAssertion = a\<lparr>paPackage := SetTreeDir dir (paPackage a)\<rparr>, haBuildHash = buildHash,
               haPackageHash = SaltedAssertionHash sha nth salts\<rparr> # hash_assertions sha dir all as salts))"

definition ht_resolve :: "'w comp_env \<Rightarrow> comp_spec \<Rightarrow> 'w comp_state \<Rightarrow> hashed list outcome \<times> 'w comp_state" where
  "ht_resolve E p s =
     obind (wrapped (''While computing a solution for '' @ HumanReadableString (csPackage p)) (ComputeDepTree E p s), s)
       (\<lambda>dependencies s.
     obind (spec_salts E dependencies [] s) (\<lambda>salts s.
       (Ok (hash_assertions (ceSha E) (TreeDir (pkg_data (csPackage p))) dependencies dependencies salts), s)))"

section \<open>The tree\<close>

record hash_tree =
  htTarget :: hashed
  htDependencies :: "hashed list"
  htSolution :: "hashed list"
  htImages :: "string gomap"
  htSource :: string
  htBuilder :: string

definition DependencyBuildImage :: "hash_tree \<Rightarrow> default_package \<Rightarrow> string res" where
  "DependencyBuildImage t p =
     (case gm_get (htImages t) (GetFingerPrint p) of None \<Rightarrow> Inl ''package hash not found'' | Some h \<Rightarrow> Inr h)"

definition genBuilderImageTag :: "lib \<Rightarrow> comp_spec \<Rightarrow> string \<Rightarrow> string" where
  "genBuilderImageTag L p packageImage = ''builder-'' @ HashFingerprint L (csPackage p) packageImage"

definition hashed_Search :: "hashed list \<Rightarrow> string \<Rightarrow> hashed option" where
  "hashed_Search as f = find (\<lambda>a. paValue (haAssertion a) \<and> GetFingerPrint (haPackage a) = f) as"

definition hashed_Drop :: "hashed list \<Rightarrow> default_package \<Rightarrow> hashed list" where
  "hashed_Drop as p = filter (\<lambda>a. \<not> Matches (haPackage a) p) as"

text \<open>The tags of the builder images, and the hash of the package of the last dependency.\<close>

fun builder_images ::
    "'w comp_env \<Rightarrow> hashed option \<Rightarrow> hashed list \<Rightarrow> string gomap \<Rightarrow> string \<Rightarrow> 'w comp_state \<Rightarrow>
     (string gomap \<times> string) outcome \<times> 'w comp_state" where
  "builder_images E target [] images source s = (Ok (images, source), s)"
| "builder_images E target (a # as) images source s =
     obind (wrap_err (''Error while generating compilespec for '' @ pName (haPackage a)) (FromPackage E (haPackage a) s))
       (\<lambda>spec s.
         obind (if csImage spec \<noteq> [] then Ok (haBuildHash a)
                else case target of
                  None \<Rightarrow> Panic ''invalid memory address or nil pointer dereference''
                | Some t \<Rightarrow> Ok (genBuilderImageTag (deLib (ceDb E)) spec (haPackageHash t)), s) (\<lambda>tag s.
           builder_images E target as (gm_set (GetFingerPrint (haPackage a)) tag images) (haPackageHash a) s))"

definition Query :: "'w comp_env \<Rightarrow> comp_spec \<Rightarrow> 'w comp_state \<Rightarrow> hash_tree outcome \<times> 'w comp_state" where
  "Query E p s =
     obind (ht_resolve E p s) (\<lambda>as s.
       (let target = hashed_Search as (GetFingerPrint (csPackage p));
            dependencies = hashed_Drop as (csPackage p)
        in obind (builder_images E target dependencies [] [] s) (\<lambda>(images, source) s.
             (case target of
                None \<Rightarrow> Panic ''invalid memory address or nil pointer dereference''
              | Some t \<Rightarrow>
                  Ok \<lparr>htTarget = t, htDependencies = dependencies, htSolution = as, htImages = images, htSource = source,
                      htBuilder = genBuilderImageTag (deLib (ceDb E)) p (haPackageHash t)\<rparr>, s))))"

text \<open>The hash of several packages together.\<close>

fun packages_hashes :: "'w comp_env \<Rightarrow> default_package list \<Rightarrow> string \<Rightarrow> 'w comp_state \<Rightarrow> string outcome \<times> 'w comp_state" where
  "packages_hashes E [] fp s = (Ok fp, s)"
| "packages_hashes E (p # ps) fp s =
     obind (wrap_err (''Error while generating compilespec for '' @ pName p) (FromPackage E p s)) (\<lambda>spec s.
     obind (wrap_err ''failed querying hashtree'' (Query E spec s)) (\<lambda>t s.
       packages_hashes E ps (fp @ haPackageHash (htTarget t) @ GetFingerPrint p) s))"

definition getSpecHash :: "'w comp_env \<Rightarrow> default_package list \<Rightarrow> string \<Rightarrow> 'w comp_state \<Rightarrow> string outcome \<times> 'w comp_state" where
  "getSpecHash E pkgs salt s =
     obind (packages_hashes E pkgs [] s) (\<lambda>fp s. (Ok (Md5Hex (deLib (ceDb E)) (fp @ ''-'' @ salt)), s))"

section \<open>Sets of specs\<close>

definition ComputeMinimumCompilableSet :: "'w comp_env \<Rightarrow> comp_spec list \<Rightarrow> 'w comp_state \<Rightarrow> comp_spec list outcome" where
  "ComputeMinimumCompilableSet E ps s =
     oseq (omap (\<lambda>p. oseq (wrapped ''failed querying hashtree'' (ComputeDepTree E p s))
                        (\<lambda>sol. Ok (assertions_Drop sol (csPackage p)))) ps) (\<lambda>deps.
       Ok (filter (\<lambda>p. assertions_Search (concat deps) (GetFingerPrint (csPackage p)) = None) ps))"

definition SetOutputPath :: "string \<Rightarrow> comp_spec \<Rightarrow> comp_spec" where
  "SetOutputPath d p = p\<lparr>csOutputPath := d\<rparr>"

definition FromDatabase ::
    "'w comp_env \<Rightarrow> mem_db \<Rightarrow> bool \<Rightarrow> string \<Rightarrow> 'w comp_state \<Rightarrow> comp_spec list outcome \<times> 'w comp_state" where
  "FromDatabase E db minimum dst s =
     obind (omap_st (\<lambda>p s. obind (FromPackage E p s) (\<lambda>spec s.
              (Ok (if dst \<noteq> [] then SetOutputPath dst spec else spec), s))) (md_World (ceDb E) db) s) (\<lambda>specs s.
       (if minimum then ComputeMinimumCompilableSet E (specs_Unique specs) s else Ok (specs_Unique specs), s))"

end
