(* ===== verification/Compiler.thy ===== *)
theory Compiler
  imports HashTree "HOL-Library.Word"
begin

text \<open>
  The compiler of packages, \<open>pkg/compiler/compiler.go\<close>, with the changes between two images of
  \<open>pkg/compiler/backend.go\<close>: which image a hash stands for, the build of the two images of a package, the
  artifact made of them, and the compilation of a spec with its dependencies.

  The commands of the backend, archives and files are parameters (\<open>comp_env\<close>).  The specs of the final images
  and of copies are compiled by a recursive call; the first argument of \<open>c_compile\<close> bounds its depth.  Names of
  artifacts given back beside an error are left out.
\<close>

section \<open>Images of a hash\<close>

definition image_name :: "string \<Rightarrow> string \<Rightarrow> string" where
  "image_name repo hash = repo @ '':'' @ hash"

definition genImageList :: "string list \<Rightarrow> string \<Rightarrow> string list" where
  "genImageList refs hash = map (\<lambda>r. image_name r hash) refs"

definition oneOfImagesExists :: "'w comp_env \<Rightarrow> string list \<Rightarrow> 'w \<Rightarrow> string option" where
  "oneOfImagesExists E images w = find (\<lambda>i. ceExists E i w) images"

definition oneOfImagesAvailable :: "'w comp_env \<Rightarrow> string list \<Rightarrow> 'w \<Rightarrow> string option" where
  "oneOfImagesAvailable E images w = find (\<lambda>i. ceAvailable E i w) images"

definition check_list :: "'w comp_env \<Rightarrow> string \<Rightarrow> comp_spec \<Rightarrow> string list" where
  "check_list E hash p = image_name (coPushRepo (ceOpts E)) hash # genImageList (coPullRepos (csOptions p)) hash"

text \<open>The empty name when no repository has the image.\<close>

definition findImageHash :: "'w comp_env \<Rightarrow> string \<Rightarrow> comp_spec \<Rightarrow> 'w \<Rightarrow> string" where
  "findImageHash E hash p w =
     (let resolved = (case oneOfImagesExists E (check_list E hash p) w of Some i \<Rightarrow> i | None \<Rightarrow> [])
      in if coPullFirst (ceOpts E) then
           (case oneOfImagesAvailable E (check_list E hash p) w of Some i \<Rightarrow> i | None \<Rightarrow> resolved)
         else resolved)"

definition resolveExistingImageHash :: "'w comp_env \<Rightarrow> string \<Rightarrow> comp_spec \<Rightarrow> 'w \<Rightarrow> string" where
  "resolveExistingImageHash E hash p w =
     (let resolved = findImageHash E hash p w
      in if resolved = [] then image_name (coPushRepo (ceOpts E)) hash else resolved)"

text \<open>The loop asks again, and sleeps, until an image is available.\<close>

fun wait_loop :: "nat \<Rightarrow> 'w comp_env \<Rightarrow> string list \<Rightarrow> 'w comp_state \<Rightarrow> unit outcome \<times> 'w comp_state" where
  "wait_loop 0 E images s = (Fuel, s)"
| "wait_loop (Suc n) E images s =
     (let available = (oneOfImagesAvailable E images (stWorld s) \<noteq> None);
          s = s\<lparr>stWorld := ceTick E (stWorld s)\<rparr>
      in if available then (Ok (), s) else wait_loop n E images s)"

definition waitForImages :: "'w comp_env \<Rightarrow> string list \<Rightarrow> 'w comp_state \<Rightarrow> unit outcome \<times> 'w comp_state" where
  "waitForImages E images s =
     (if coPullFirst (ceOpts E) \<and> coWait (ceOpts E) \<and> oneOfImagesAvailable E images (stWorld s) = None
      then wait_loop (ceWaits E) E images s else (Ok (), s))"

text \<open>An error when there is no such image.\<close>

definition getImageArtifact ::
    "'w comp_env \<Rightarrow> string \<Rightarrow> comp_spec \<Rightarrow> 'w comp_state \<Rightarrow> build_artifact outcome \<times> 'w comp_state" where
  "getImageArtifact E hash p s =
     (let images = check_list E hash p; exists = (oneOfImagesExists E images (stWorld s) \<noteq> None)
      in case (ceLoad E p (stWorld s), exists) of
           (Inr art, True) \<Rightarrow> (Ok art, s)
         | _ \<Rightarrow>
             obind (waitForImages E images s) (\<lambda>_ s.
               (if exists \<or> coPullFirst (ceOpts E) \<and> oneOfImagesAvailable E images (stWorld s) \<noteq> None
                then Ok (NewBuildArtifact []) else Err ''artifact not found'', s)))"

section \<open>Files of an image\<close>

definition cleaned :: "'w comp_env \<Rightarrow> string \<Rightarrow> 'a outcome \<times> 'w comp_state \<Rightarrow> 'a outcome \<times> 'w comp_state" where
  "cleaned E dir r = (case r of (a, s) \<Rightarrow> (a, snd (on_world (ceRemoveAll E dir) s)))"

text \<open>\<open>ReplaceAll\<close> with the empty string.\<close>

fun remove_sub :: "nat \<Rightarrow> string \<Rightarrow> string \<Rightarrow> string" where
  "remove_sub n old [] = []"
| "remove_sub 0 old (c # cs) = c # cs"
| "remove_sub (Suc n) old (c # cs) =
     (if old \<noteq> [] \<and> HasPrefix (c # cs) old then remove_sub n old (drop (length old) (c # cs))
      else c # remove_sub n old cs)"

definition without :: "string \<Rightarrow> string \<Rightarrow> string" where
  "without s old = remove_sub (length s) old s"

fun compile_includes :: "rx \<Rightarrow> string list \<Rightarrow> (string \<Rightarrow> bool) list option" where
  "compile_includes R [] = Some []"
| "compile_includes R (i # is) =
     (case R i of None \<Rightarrow> None | Some m \<Rightarrow> map_option ((#) m) (compile_includes R is))"

definition to_strip :: "(string \<Rightarrow> bool) list \<Rightarrow> string \<Rightarrow> bool \<Rightarrow> (string \<times> bool) list \<Rightarrow> string list" where
  "to_strip ms rootfs include files =
     map fst (filter (\<lambda>(f, d). f \<noteq> rootfs \<and> (include \<longleftrightarrow> \<not> list_ex (\<lambda>m. m (without f rootfs)) ms)) files)"

fun remove_each :: "'w comp_env \<Rightarrow> string list \<Rightarrow> 'w comp_state \<Rightarrow> err option \<times> 'w comp_state" where
  "remove_each E [] s = (None, s)"
| "remove_each E (f # fs) s =
     (case on_world (ceRemoveAll E f) s of (Some e, s) \<Rightarrow> (Some e, s) | (None, s) \<Rightarrow> remove_each E fs s)"

definition stripFromRootfs ::
    "'w comp_env \<Rightarrow> string list \<Rightarrow> string \<Rightarrow> bool \<Rightarrow> 'w comp_state \<Rightarrow> err option \<times> 'w comp_state" where
  "stripFromRootfs E includes rootfs include s =
     (case compile_includes (ceRegex E) includes of
        None \<Rightarrow> (Some ''Could not compile regex in the include of the package'', s)
      | Some ms \<Rightarrow>
          (case ceWalk E rootfs (stWorld s) of
             Inl e \<Rightarrow> (Some e, s)
           | Inr files \<Rightarrow> remove_each E (to_strip ms rootfs include files) s))"

text \<open>The files of the second tree that the first has not, or has in another size, and those only the first has.\<close>

definition changed_nodes ::
    "'w comp_env \<Rightarrow> string \<Rightarrow> string \<Rightarrow> 'w \<Rightarrow> (string \<times> bool) list \<Rightarrow> artifact_node list" where
  "changed_nodes E src dst w files =
     map (\<lambda>r. \<lparr>anName = PathJoin [''/'', r], anSize = (case ceLstat E (PathJoin [dst, r]) w of Some n \<Rightarrow> n | None \<Rightarrow> 0)\<rparr>)
       (filter (\<lambda>r. case ceLstat E (PathJoin [src, r]) w of
                      None \<Rightarrow> False
                    | Some a \<Rightarrow> a \<noteq> (case ceLstat E (PathJoin [dst, r]) w of Some b \<Rightarrow> b | None \<Rightarrow> 0))
         (map (\<lambda>(f, d). without f dst) (filter (\<lambda>(f, d). \<not> d) files)))"

definition added_nodes ::
    "'w comp_env \<Rightarrow> string \<Rightarrow> string \<Rightarrow> 'w \<Rightarrow> (string \<times> bool) list \<Rightarrow> artifact_node list" where
  "added_nodes E src dst w files =
     map (\<lambda>r. \<lparr>anName = PathJoin [''/'', r], anSize = (case ceLstat E (PathJoin [dst, r]) w of Some n \<Rightarrow> n | None \<Rightarrow> 0)\<rparr>)
       (filter (\<lambda>r. ceLstat E (PathJoin [src, r]) w = None)
         (map (\<lambda>(f, d). without f dst) (filter (\<lambda>(f, d). \<not> d) files)))"

definition deleted_nodes ::
    "'w comp_env \<Rightarrow> string \<Rightarrow> string \<Rightarrow> 'w \<Rightarrow> (string \<times> bool) list \<Rightarrow> artifact_node list" where
  "deleted_nodes E src dst w files =
     map (\<lambda>r. \<lparr>anName = PathJoin [''/'', r], anSize = 0\<rparr>)
       (filter (\<lambda>r. ceLstat E (PathJoin [dst, r]) w = None)
         (map (\<lambda>(f, d). without f src) (filter (\<lambda>(f, d). \<not> d) files)))"

definition GenerateChanges ::
    "'w comp_env \<Rightarrow> image_opts \<Rightarrow> image_opts \<Rightarrow> 'w comp_state \<Rightarrow> artifact_layer list outcome \<times> 'w comp_state" where
  "GenerateChanges E fromImage toImage s =
     (let tmp = ''Error met while creating tempdir for rootfs''
      in obind (checked_res tmp (on_world (ceSysTemp E ''extraction'') s)) (\<lambda>tmpdiffs s. cleaned E tmpdiffs (
         obind (checked_res tmp (on_world (ceTempDir E tmpdiffs ''src'') s)) (\<lambda>src s. cleaned E src (
         obind (checked_res tmp (on_world (ceTempDir E tmpdiffs ''dst'') s)) (\<lambda>dst s. cleaned E dst (
         obind (checked (''Error met while unpacking src image '' @ ioImage fromImage)
                  (on_world (ceExtract E (no_image_opts\<lparr>ioImage := ioImage fromImage, ioDestination := src\<rparr>) False) s)) (\<lambda>_ s.
         obind (checked (''Error met while unpacking dst image '' @ ioImage toImage)
                  (on_world (ceExtract E (no_image_opts\<lparr>ioImage := ioImage toImage, ioDestination := dst\<rparr>) False) s)) (\<lambda>_ s.
           (case (ceWalk E dst (stWorld s), ceWalk E src (stWorld s)) of
              (Inl e, _) \<Rightarrow> Err (''Error met while walking image destination: '' @ e)
            | (_, Inl e) \<Rightarrow> Err (''Error met while walking image source: '' @ e)
            | (Inr dsts, Inr srcs) \<Rightarrow>
                Ok [\<lparr>alFrom = ioImage fromImage, alTo = ioImage toImage,
                     alAdditions = added_nodes E src dst (stWorld s) dsts,
                     alDeletions = deleted_nodes E src dst (stWorld s) srcs,
                     alChanges = changed_nodes E src dst (stWorld s) dsts\<rparr>], s))))))))))"

text \<open>The files of each layer and their sizes, added as 64-bit integers.\<close>

record layer_summary =
  lsFrom :: string
  lsTo :: string
  lsAddFiles :: nat
  lsAddSizes :: "64 word"
  lsDelFiles :: nat
  lsDelSizes :: "64 word"
  lsChangeFiles :: nat
  lsChangeSizes :: "64 word"

definition sum_sizes :: "artifact_node list \<Rightarrow> 64 word" where
  "sum_sizes ns = foldl (\<lambda>t n. t + of_nat (anSize n)) 0 ns"

definition ComputeArtifactLayerSummary :: "artifact_layer list \<Rightarrow> layer_summary list" where
  "ComputeArtifactLayerSummary diffs =
     map (\<lambda>l. \<lparr>lsFrom = alFrom l, lsTo = alTo l,
            lsAddFiles = length (alAdditions l), lsAddSizes = sum_sizes (alAdditions l),
            lsDelFiles = length (alDeletions l), lsDelSizes = sum_sizes (alDeletions l),
            lsChangeFiles = length (alChanges l), lsChangeSizes = sum_sizes (alChanges l)\<rparr>) diffs"

section \<open>The files of a delta\<close>

text \<open>Only added files are packed.  Patterns that are no regular expression are passed over.\<close>

record copy_job =
  cjSrc :: string
  cjDst :: string
  cjArtifact :: string

definition compileRegexes :: "rx \<Rightarrow> string list \<Rightarrow> (string \<Rightarrow> bool) list" where
  "compileRegexes R rs = List.map_filter R rs"

definition keep_addition :: "rx \<Rightarrow> string list \<Rightarrow> string list \<Rightarrow> string \<Rightarrow> bool" where
  "keep_addition R includes excludes a =
     (if length includes > 0 \<and> length excludes = 0 then list_ex (\<lambda>i. i a) (compileRegexes R includes)
      else if length includes = 0 \<and> length excludes \<noteq> 0 then \<not> list_ex (\<lambda>e. e a) (compileRegexes R excludes)
      else if length includes \<noteq> 0 \<and> length excludes \<noteq> 0 then
        list_ex (\<lambda>i. i a) (compileRegexes R includes) \<and> \<not> list_ex (\<lambda>e. e a) (compileRegexes R excludes)
      else True)"

definition copy_jobs :: "rx \<Rightarrow> string \<Rightarrow> string \<Rightarrow> artifact_layer list \<Rightarrow> string list \<Rightarrow> string list \<Rightarrow> copy_job list" where
  "copy_jobs R src archive layers includes excludes =
     concat (map (\<lambda>l. map (\<lambda>a. \<lparr>cjSrc = PathJoin [src, anName a], cjDst = PathJoin [archive, anName a], cjArtifact = anName a\<rparr>)
                       (filter (\<lambda>a. keep_addition R includes excludes (anName a)) (alAdditions l))) layers)"

text \<open>The workers, one after the other: what is not there is copied, and an error is only a warning.\<close>

fun copy_worker :: "'w comp_env \<Rightarrow> copy_job list \<Rightarrow> 'w comp_state \<Rightarrow> 'w comp_state" where
  "copy_worker E [] s = s"
| "copy_worker E (j # js) s =
     copy_worker E js
       (if ceLstat E (cjDst j) (stWorld s) = None then snd (on_world (ceCopyFile E (cjSrc j) (cjDst j)) s) else s)"

definition pack_delta ::
    "'w comp_env \<Rightarrow> string \<Rightarrow> string \<Rightarrow> copy_job list \<Rightarrow> 'w comp_state \<Rightarrow> build_artifact outcome \<times> 'w comp_state" where
  "pack_delta E archive dst jobs s =
     (if coConcurrency (ceOpts E) = 0 \<and> jobs \<noteq> [] then (Panic ''all goroutines are asleep - deadlock!'', s)
      else checked_res ''Error met while creating package archive''
             (on_world (ceCompress E (NewBuildArtifact dst) archive) (copy_worker E jobs s)))"

definition ExtractArtifactFromDelta ::
    "'w comp_env \<Rightarrow> string \<Rightarrow> string \<Rightarrow> artifact_layer list \<Rightarrow> bool \<Rightarrow> string list \<Rightarrow> string list \<Rightarrow> 'w comp_state \<Rightarrow>
     build_artifact outcome \<times> 'w comp_state" where
  "ExtractArtifactFromDelta E src dst layers kp includes excludes s =
     obind (checked_res ''Error met while creating tempdir for archive'' (on_world (ceSysTemp E ''archive'') s)) (\<lambda>archive s.
     cleaned E archive (
       if HasSuffix src ''.tar'' then
         obind (checked_res ''Error met while creating tempdir for rootfs'' (on_world (ceSysTemp E ''rootfs'') s)) (\<lambda>rootfs s.
         cleaned E rootfs (
           obind (checked ''Error met while unpacking rootfs'' (on_world (ceUntar E src rootfs kp) s)) (\<lambda>_ s.
             pack_delta E archive dst (copy_jobs (ceRegex E) rootfs archive layers includes excludes) s)))
       else pack_delta E archive dst (copy_jobs (ceRegex E) src archive layers includes excludes) s))"

section \<open>The artifact of a package\<close>

definition package_tar :: "comp_spec \<Rightarrow> string" where
  "package_tar p = spec_Rel p (GetFingerPrint (csPackage p) @ ''.package.tar'')"

definition with_spec :: "comp_spec \<Rightarrow> build_artifact \<Rightarrow> build_artifact" where
  "with_spec p a = BuildArtifact (baaPath a) (baaFiles a) (Some p) (baaDependencies a) (baaAssertion a) (baaCacheImage a)"

definition with_files :: "string list \<Rightarrow> build_artifact \<Rightarrow> build_artifact" where
  "with_files fs a = BuildArtifact (baaPath a) fs (baaSpec a) (baaDependencies a) (baaAssertion a) (baaCacheImage a)"

definition with_source :: "hashed list \<Rightarrow> string \<Rightarrow> build_artifact \<Rightarrow> build_artifact" where
  "with_source as c a = BuildArtifact (baaPath a) (baaFiles a) (baaSpec a) (baaDependencies a) as c"

definition with_cache :: "string \<Rightarrow> build_artifact \<Rightarrow> build_artifact" where
  "with_cache c a = BuildArtifact (baaPath a) (baaFiles a) (baaSpec a) (baaDependencies a) (baaAssertion a) c"

definition with_dependencies :: "build_artifact list \<Rightarrow> build_artifact \<Rightarrow> build_artifact" where
  "with_dependencies ds a = BuildArtifact (baaPath a) (baaFiles a) (baaSpec a) ds (baaAssertion a) (baaCacheImage a)"

definition stamped :: "string \<Rightarrow> comp_spec \<Rightarrow> comp_spec" where
  "stamped t p = p\<lparr>csPackage := upd_info (\<lambda>i. i\<lparr>BuildTimestamp := t\<rparr>) (csPackage p)\<rparr>"

text \<open>Written with the time, which is set in the package of its spec.\<close>

definition write_artifact ::
    "'w comp_env \<Rightarrow> comp_spec \<Rightarrow> build_artifact \<Rightarrow> 'w comp_state \<Rightarrow> build_artifact outcome \<times> 'w comp_state" where
  "write_artifact E p a s =
     (let a = with_spec (stamped (ceNow E (stWorld s)) (case baaSpec a of Some q \<Rightarrow> q | None \<Rightarrow> p)) a
      in obind (checked ''Failed while writing metadata file'' (on_world (ceWriteYaml E a (csOutputPath p)) s))
           (\<lambda>_ s. (Ok a, s)))"

definition unpackFs ::
    "'w comp_env \<Rightarrow> bool \<Rightarrow> comp_spec \<Rightarrow> image_opts \<Rightarrow> 'w comp_state \<Rightarrow> build_artifact outcome \<times> 'w comp_state" where
  "unpackFs E kp p runner s =
     obind (checked_res ''Could not create tempdir'' (on_world (ceTempDir E (csOutputPath p) ''rootfs'') s)) (\<lambda>tmp s.
     cleaned E tmp (
       obind (checked ''Could not extract rootfs''
                (on_world (ceExtract E (no_image_opts\<lparr>ioImage := ioImage runner, ioDestination := tmp,
                                           ioPackageDir := csPackageDir p\<rparr>) kp) s)) (\<lambda>_ s.
         (let rootfs = (if csPackageDir p \<noteq> [] then PathJoin [tmp, csPackageDir p] else tmp);
              s = (if length (csIncludes p) > 0 then snd (stripFromRootfs E (csIncludes p) rootfs True s) else s);
              s = (if length (csExcludes p) > 0 then snd (stripFromRootfs E (csExcludes p) rootfs False s) else s)
          in obind (checked_res ''Error met while creating package archive''
                      (on_world (ceCompress E (NewBuildArtifact (package_tar p)) rootfs) s)) (\<lambda>a s.
               (Ok (with_spec p a), s))))))"

definition unpackDelta ::
    "'w comp_env \<Rightarrow> bool \<Rightarrow> comp_spec \<Rightarrow> image_opts \<Rightarrow> image_opts \<Rightarrow> 'w comp_state \<Rightarrow>
     build_artifact outcome \<times> 'w comp_state" where
  "unpackDelta E kp p builder runner s =
     obind (checked_res ''Could not create tempdir'' (on_world (ceTempDir E (csOutputPath p) ''rootfs'') s)) (\<lambda>rootfs s.
     cleaned E rootfs (
       obind (if coPullFirst (ceOpts E) \<and> \<not> ceExists E (ioImage builder) (stWorld s) \<and> ceAvailable E (ioImage builder) (stWorld s)
              then checked ''Could not pull image'' (on_world (ceDownload E builder) s) else (Ok (), s)) (\<lambda>_ s.
       obind (wrap_err ''Could not generate changes from layers'' (GenerateChanges E builder runner s)) (\<lambda>diffs s.
       obind (checked ''Could not extract rootfs''
                (on_world (ceExtract E (no_image_opts\<lparr>ioImage := ioImage runner, ioDestination := rootfs\<rparr>) kp) s)) (\<lambda>_ s.
       obind (wrap_err ''Could not generate deltas''
                (ExtractArtifactFromDelta E rootfs (package_tar p) diffs kp (csIncludes p) (csExcludes p) s)) (\<lambda>a s.
         (Ok (with_spec p a), s)))))))"

definition genArtifact ::
    "'w comp_env \<Rightarrow> bool \<Rightarrow> comp_spec \<Rightarrow> image_opts \<Rightarrow> image_opts \<Rightarrow> 'w comp_state \<Rightarrow>
     build_artifact outcome \<times> 'w comp_state" where
  "genArtifact E kp p builder runner s =
     (if EmptyPackage p then
        obind (checked_res ''Could not create tempdir'' (on_world (ceTempDir E (csOutputPath p) ''rootfs'') s)) (\<lambda>rootfs s.
        cleaned E rootfs (
          obind (checked_res ''Error met while creating package archive''
                   (on_world (ceCompress E (NewBuildArtifact (package_tar p)) rootfs) s)) (\<lambda>a s.
            write_artifact E p (with_spec p a) s)))
      else
        obind (if UnpackedPackage p then wrap_err ''Error met while extracting image'' (unpackFs E kp p runner s)
               else wrap_err ''Error met while generating delta'' (unpackDelta E kp p builder runner s)) (\<lambda>a s.
          (case ceFileList E a (stWorld s) of
             Inl e \<Rightarrow> (Err (''Failed getting package list for '' @ baaPath a @ '': '' @ e), s)
           | Inr fs \<Rightarrow> write_artifact E p (with_files fs a) s)))"

text \<open>An image of the files of an artifact; an empty one gets a file, since images are not empty.\<close>

definition GenerateFinalImage ::
    "'w comp_env \<Rightarrow> string \<Rightarrow> build_artifact \<Rightarrow> 'w comp_state \<Rightarrow> image_opts outcome \<times> 'w comp_state" where
  "GenerateFinalImage E imageName a s =
     (let tmp = ''error met while creating tempdir for '' @ baaPath a
      in obind (checked_res tmp (on_world (ceSysTemp E ''archive'') s)) (\<lambda>archive s. cleaned E archive (
           let uncompressed = PathJoin [archive, ''files'']; dockerFile = PathJoin [archive, ''Dockerfile'']
           in obind (checked tmp (on_world (ceMkdir E uncompressed) s)) (\<lambda>_ s.
              obind (checked (''error met while uncompressing artifact '' @ baaPath a)
                       (on_world (ceUnpack E a uncompressed) s)) (\<lambda>_ s.
                (case ceDirEmpty E uncompressed (stWorld s) of
                   Inl e \<Rightarrow> (Err (''error met while checking if directory is empty '' @ uncompressed @ '': '' @ e), s)
                 | Inr none \<Rightarrow>
                     (let s = (if none then snd (on_world (ceWrite E (PathJoin [uncompressed, ''.virtual'']) []) s) else s)
                      in obind (checked (''error met while rendering artifact dockerfile '' @ baaPath a)
                                  (on_world (ceWrite E dockerFile (nl @ ''FROM scratch'' @ nl @ ''COPY . /'')) s)) (\<lambda>_ s.
                           (let opts = no_image_opts\<lparr>ioImage := imageName, ioSource := archive, ioDockerfile := dockerFile,
                                       ioContext := uncompressed\<rparr>
                            in case on_world (ceBuild E opts) s of
                                 (Some e, s) \<Rightarrow> (Err e, s) | (None, s) \<Rightarrow> (Ok opts, s))))))))))"

section \<open>The images of a package\<close>

text \<open>Pulled when that is asked for and works, else built.\<close>

definition buildAndPush :: "'w comp_env \<Rightarrow> string \<Rightarrow> image_opts \<Rightarrow> 'w comp_state \<Rightarrow> unit outcome \<times> 'w comp_state" where
  "buildAndPush E img opts s =
     (let (pulled, s) = (if coPullFirst (ceOpts E) then
                           (case on_world (ceDownload E opts) s of (e, s) \<Rightarrow> (e = None, s)) else (False, s));
          what = '' image: '' @ img @ '' '' @ ioDockerfile opts
      in if pulled then (Ok (), s)
         else obind (checked (''Could not build'' @ what) (on_world (ceBuild E opts) s)) (\<lambda>_ s.
                if coPush (ceOpts E) then checked (''Could not push'' @ what) (on_world (cePush E opts) s) else (Ok (), s)))"

text \<open>
  The two images: the builder image, with the prelude, from \<open>img\<close>, and from it the image of the package,
  with the steps.  The spec comes back with its seed.
\<close>

definition buildPackageImage ::
    "'w comp_env \<Rightarrow> string \<Rightarrow> string \<Rightarrow> string \<Rightarrow> comp_spec \<Rightarrow> 'w comp_state \<Rightarrow>
     (image_opts \<times> image_opts \<times> comp_spec) outcome \<times> 'w comp_state" where
  "buildPackageImage E img builderTagged packageImage p s =
     (if packageImage = [] then (Err ''no package image given'', s)
      else
        (let p = p\<lparr>csSeed := img\<rparr>; tmp = ''Error met while creating tempdir for building''; f = GetFingerPrint (csPackage p);
             push = (\<lambda>d. ''Could not push image: '' @ img @ '' '' @ d)
         in obind (checked tmp (on_world (ceMkdir E (spec_Rel p ''build'')) s)) (\<lambda>_ s.
            obind (checked_res tmp (on_world (ceTempDir E (spec_Rel p ''build'') ''pack'') s)) (\<lambda>buildDir s. cleaned E buildDir (
              obind (checked ''Could not copy package sources''
                       (on_world (ceCopyDir E (Path (pkg_data (csPackage p))) buildDir) s)) (\<lambda>_ s.
                (let s = (if length (csRetrieve p) > 0 then snd (on_world (ceRetrieves E p buildDir) s) else s)
                 in obind (checked ''Could not generate image definition''
                             (on_world (ceWrite E (PathJoin [buildDir, f @ ''-builder.dockerfile'']) (RenderBuildImage p)) s)) (\<lambda>_ s.
                    obind (checked ''Could not generate image definition''
                             (on_world (ceWrite E (PathJoin [buildDir, f @ ''.dockerfile'']) (RenderStepImage p builderTagged)) s)) (\<lambda>_ s.
                      (let builder = \<lparr>ioImage = builderTagged, ioSource = buildDir, ioDockerfile = f @ ''-builder.dockerfile'',
                             ioDestination = spec_Rel p (f @ ''-builder.image.tar''), ioContext = [],
                             ioArgs = coBackendArgs (ceOpts E), ioPackageDir = []\<rparr>;
                           runner = \<lparr>ioImage = packageImage, ioSource = buildDir, ioDockerfile = f @ ''.dockerfile'',
                             ioDestination = spec_Rel p (f @ ''.image.tar''), ioContext = [],
                             ioArgs = coBackendArgs (ceOpts E), ioPackageDir = []\<rparr>
                       in obind (wrap_err (push (ioDockerfile builder)) (buildAndPush E img builder s)) (\<lambda>_ s.
                          obind (wrap_err (push (ioDockerfile runner)) (buildAndPush E img runner s)) (\<lambda>_ s.
                            (Ok (builder, runner, p), s)))))))))))))"

definition remove_images :: "'w comp_env \<Rightarrow> image_opts \<Rightarrow> image_opts \<Rightarrow> 'a outcome \<times> 'w comp_state \<Rightarrow> 'a outcome \<times> 'w comp_state" where
  "remove_images E builder runner r =
     (case r of (a, s) \<Rightarrow> (a, snd (on_world (ceRemove E runner) (snd (on_world (ceRemove E builder) s)))))"

text \<open>
  The image of the package, from \<open>img\<close>, and its artifact, or the empty artifact when none is wanted.
\<close>

definition compileWithImage ::
    "'w comp_env \<Rightarrow> string \<Rightarrow> string \<Rightarrow> string \<Rightarrow> bool \<Rightarrow> bool \<Rightarrow> comp_spec \<Rightarrow> bool \<Rightarrow> 'w comp_state \<Rightarrow>
     build_artifact outcome \<times> 'w comp_state" where
  "compileWithImage E img builderHash packageTagHash kp keepImg p generate s =
     (if generate \<and> IsVirtual p then genArtifact E kp p no_image_opts no_image_opts s
      else if IsVirtual p then (Ok (NewBuildArtifact []), s)
      else
        (let build = (\<lambda>s.
               let opts = ceOpts E; packageImage = image_name (coPushRepo opts) packageTagHash;
                   remoteBuilder = image_name (coPushRepo opts) builderHash;
                   builderResolved = resolveExistingImageHash E builderHash p (stWorld s);
                   resolved = resolveExistingImageHash E packageTagHash p (stWorld s);
                   pull = (coPullFirst opts \<and> \<not> coRebuild opts)
               in if pull \<and> resolved \<noteq> packageImage \<and> remoteBuilder \<noteq> builderResolved then
                    genArtifact E kp p (no_image_opts\<lparr>ioImage := builderResolved\<rparr>) (no_image_opts\<lparr>ioImage := resolved\<rparr>) s
                  else if pull \<and> ceExists E remoteBuilder (stWorld s) \<and> ceExists E packageImage (stWorld s) then
                    genArtifact E kp p (no_image_opts\<lparr>ioImage := remoteBuilder\<rparr>) (no_image_opts\<lparr>ioImage := packageImage\<rparr>) s
                  else
                    obind (wrap_err ''failed building package image'' (buildPackageImage E img builderResolved packageImage p s))
                      (\<lambda>(builder, runner, p) s.
                        (if keepImg then id else remove_images E builder runner)
                          (if \<not> generate then (Ok (NewBuildArtifact []), s) else genArtifact E kp p builder runner s)))
         in if generate then build s
            else obind_err (getImageArtifact E packageTagHash p s) (\<lambda>_ s. build s) (\<lambda>a s. (Ok a, s))))"

section \<open>Compilation\<close>

type_synonym 'w compile_fn =
  "bool option \<Rightarrow> bool option \<Rightarrow> comp_spec \<Rightarrow> 'w comp_state \<Rightarrow> build_artifact outcome \<times> 'w comp_state"

text \<open>Whether a package is named with its version.\<close>

definition named :: "default_package \<Rightarrow> bool" where
  "named c = (pName c \<noteq> [] \<and> pVersion c \<noteq> [])"

text \<open>The artifacts of the packages to join, unpacked in a directory; \<open>rec\<close> compiles a spec.\<close>

fun join_packages ::
    "'w comp_env \<Rightarrow> 'w compile_fn \<Rightarrow> string \<Rightarrow> string \<Rightarrow> default_package list \<Rightarrow> 'w comp_state \<Rightarrow> unit outcome \<times> 'w comp_state" where
  "join_packages E rec joinDir out [] s = (Ok (), s)"
| "join_packages E rec joinDir out (c # cs) s =
     (if named c then
        obind (wrap_err ''while generating images to join from'' (FromPackage E c s)) (\<lambda>spec s.
        obind (wrap_err ''failed building join image''
                 (rec (Some True) (Some (\<not> coTargetOnly (ceOpts E))) (SetOutputPath out spec) s)) (\<lambda>a s.
        obind (checked ''failed building join image'' (on_world (ceUnpack E a joinDir) s)) (\<lambda>_ s.
          join_packages E rec joinDir out cs s)))
      else join_packages E rec joinDir out cs s)"

text \<open>The image of the final packages a spec requires: one there is of their hash, or one made of their artifacts.\<close>

definition resolveFinalImages ::
    "'w comp_env \<Rightarrow> 'w compile_fn \<Rightarrow> comp_spec \<Rightarrow> 'w comp_state \<Rightarrow> comp_spec outcome \<times> 'w comp_state" where
  "resolveFinalImages E rec p s =
     (if \<not> csFinalImages p then (Ok p, s)
      else
        (let fromPackages = PackageRequires (csPackage p)
         in obind (wrap_err ''could not generate image hash'' (getSpecHash E fromPackages ''join'' s)) (\<lambda>hash s.
              (let found = findImageHash E hash p (stWorld s)
               in if found \<noteq> [] then (Ok (p\<lparr>csImage := found\<rparr>), s)
                  else
                    obind (checked ''while creating output path'' (on_world (ceMkdir E (csOutputPath p)) s)) (\<lambda>_ s.
                    obind (checked_res ''could not create tempdir for joining images''
                             (on_world (ceTempDir E (csOutputPath p) ''join'') s)) (\<lambda>joinDir s. cleaned E joinDir (
                      obind (join_packages E rec joinDir (csOutputPath p) fromPackages s) (\<lambda>_ s.
                      obind (checked_res ''could not create tempdir for final artifact''
                               (on_world (ceTempDir E (csOutputPath p) ''artifact'') s)) (\<lambda>artifactDir s. cleaned E joinDir (
                        obind (checked_res ''error met while creating package archive''
                                 (on_world (ceCompress E (NewBuildArtifact
                                    (PathJoin [artifactDir, GetFingerPrint (csPackage p) @ ''.join.tar''])) joinDir) s)) (\<lambda>a s.
                          (let joinImageName = image_name (coPushRepo (ceOpts E)) hash
                           in obind (wrap_err ''could not create final image'' (GenerateFinalImage E joinImageName a s)) (\<lambda>opts s.
                              obind (if coPush (ceOpts E) then
                                       checked (''Could not push image: '' @ ioDockerfile opts) (on_world (cePush E opts) s)
                                     else (Ok (), s)) (\<lambda>_ s.
                                (Ok (p\<lparr>csImage := joinImageName\<rparr>), s)))))))))))))))"

text \<open>The images that a spec copies files from.\<close>

fun copy_fields ::
    "'w comp_env \<Rightarrow> 'w compile_fn \<Rightarrow> string \<Rightarrow> copy_field list \<Rightarrow> 'w comp_state \<Rightarrow> copy_field list outcome \<times> 'w comp_state" where
  "copy_fields E rec out [] s = (Ok [], s)"
| "copy_fields E rec out (c # cs) s =
     (case cfPackage c of
        Some q \<Rightarrow>
          if named q then
            obind (wrap_err ''while generating images to copy from'' (FromPackage E q s)) (\<lambda>spec s.
              (let spec = SetOutputPath out spec; gen = Some (\<not> coTargetOnly (ceOpts E))
               in obind (wrap_err ''failed building multi-stage image'' (rec gen gen spec s)) (\<lambda>a s.
                    (let c' = \<lparr>cfPackage = None, cfImage = resolveExistingImageHash E (baaCacheImage a) spec (stWorld s),
                               cfSource = cfSource c, cfDestination = cfDestination c\<rparr>
                     in obind (copy_fields E rec out cs s) (\<lambda>cs s. (Ok (c' # cs), s))))))
          else obind (copy_fields E rec out cs s) (\<lambda>cs s. (Ok (c # cs), s))
      | None \<Rightarrow> obind (copy_fields E rec out cs s) (\<lambda>cs s. (Ok (c # cs), s)))"

definition resolveMultiStageImages ::
    "'w comp_env \<Rightarrow> 'w compile_fn \<Rightarrow> comp_spec \<Rightarrow> 'w comp_state \<Rightarrow> comp_spec outcome \<times> 'w comp_state" where
  "resolveMultiStageImages E rec p s =
     obind (copy_fields E rec (csOutputPath p) (csCopy p) s) (\<lambda>cs s. (Ok (p\<lparr>csCopy := cs\<rparr>), s))"

definition resolve_images ::
    "'w comp_env \<Rightarrow> 'w compile_fn \<Rightarrow> comp_spec \<Rightarrow> 'w comp_state \<Rightarrow> comp_spec outcome \<times> 'w comp_state" where
  "resolve_images E rec p s =
     obind (wrap_err ''while resolving join images'' (resolveFinalImages E rec p s)) (\<lambda>p s.
     wrap_err ''while resolving multi-stage images'' (resolveMultiStageImages E rec p s))"

text \<open>The dependencies, one after the other; each is built from its own image or from that of its hash.\<close>

fun compile_dependencies ::
    "'w comp_env \<Rightarrow> 'w compile_fn \<Rightarrow> bool \<Rightarrow> bool \<Rightarrow> comp_spec \<Rightarrow> hash_tree \<Rightarrow> hashed list \<Rightarrow> 'w comp_state \<Rightarrow>
     build_artifact list outcome \<times> 'w comp_state" where
  "compile_dependencies E rec kp packageDeps p t [] s = (Ok [], s)"
| "compile_dependencies E rec kp packageDeps p t (a # as) s =
     obind (wrap_err (''Error while generating compilespec for '' @ pName (haPackage a)) (FromPackage E (haPackage a) s)) (\<lambda>spec s.
       (let b = csOptions spec;
            spec = SetOutputPath (csOutputPath p)
              (spec\<lparr>csOptions := b\<lparr>coPullRepos := coPullRepos b @ coPullRepos (csOptions p)\<rparr>\<rparr>)
        in obind (resolve_images E rec spec s) (\<lambda>spec s.
             case DependencyBuildImage t (haPackage a) of
               Inl e \<Rightarrow> (Err (''failed looking for dependency in hashtree: '' @ e), s)
             | Inr buildHash \<Rightarrow>
                 (let sourceImage = (if csImage spec \<noteq> [] then csImage spec
                                     else resolveExistingImageHash E (haBuildHash a) spec (stWorld s))
                  in obind (wrap_err (''Failed compiling '' @ HumanReadableString (csPackage spec))
                              (compileWithImage E sourceImage buildHash (haPackageHash a) kp (coKeepImg (ceOpts E)) spec packageDeps s))
                       (\<lambda>art s.
                     obind (compile_dependencies E rec kp packageDeps p t as s) (\<lambda>arts s.
                       (Ok (with_cache (haPackageHash a) art # arts), s)))))))"

text \<open>The last of the artifacts of no dependencies is an index out of range.\<close>

definition compile_with :: "'w comp_env \<Rightarrow> 'w compile_fn \<Rightarrow> bool \<Rightarrow> 'w compile_fn" where
  "compile_with E rec kp final deps p s =
     obind (resolve_images E rec p s) (\<lambda>p s.
       if \<not> HasImageSource p \<and> \<not> EmptyPackage p then
         (Err (GetFingerPrint (csPackage p) @
            '' is invalid: package has no dependencies and no seed image supplied while it has steps defined''), s)
       else
         obind (wrap_err ''failed querying hashtree'' (Query E p s)) (\<lambda>t s.
           (let p = p\<lparr>csSourceAssertion := htSolution t,
                      csOptions := (csOptions p)\<lparr>coPushRepo := coPushRepo (ceOpts E)\<rparr>\<rparr>;
                generate = (case final of Some b \<Rightarrow> b | None \<Rightarrow> True);
                packageDeps = (case deps of Some b \<Rightarrow> b | None \<Rightarrow> \<not> coTargetOnly (ceOpts E));
                keep = coKeepImg (ceOpts E); hash = haPackageHash (htTarget t)
            in if csImage p \<noteq> [] then
                 obind (wrap_err ''building direct image'' (compileWithImage E (csImage p) (htBuilder t) hash kp keep p generate s))
                   (\<lambda>a s. (Ok (with_source (csSourceAssertion p) hash a), s))
               else
                 obind (if \<not> coNoDeps (ceOpts E) then compile_dependencies E rec kp packageDeps p t (htDependencies t) s
                        else (Ok [], s)) (\<lambda>arts s.
                   if \<not> coOnlyDeps (ceOpts E) then
                     obind (compileWithImage E (resolveExistingImageHash E (htSource t) p (stWorld s)) (htBuilder t) hash kp keep p generate s)
                       (\<lambda>a s. (Ok (with_source (csSourceAssertion p) hash (with_dependencies arts a)), s))
                   else
                     (case arts of [] \<Rightarrow> Panic ''index out of range [-1]'' | _ \<Rightarrow> Ok (last arts), s)))))"

fun c_compile :: "nat \<Rightarrow> 'w comp_env \<Rightarrow> bool \<Rightarrow> 'w compile_fn" where
  "c_compile 0 E kp final deps p s = (Fuel, s)"
| "c_compile (Suc n) E kp final deps p s = compile_with E (c_compile n E kp) kp final deps p s"

definition Compile ::
    "nat \<Rightarrow> 'w comp_env \<Rightarrow> bool \<Rightarrow> comp_spec \<Rightarrow> 'w comp_state \<Rightarrow> build_artifact outcome \<times> 'w comp_state" where
  "Compile n E kp p s = c_compile n E kp None None p s"

text \<open>The workers, one after the other: artifacts and errors.\<close>

fun compile_each ::
    "nat \<Rightarrow> 'w comp_env \<Rightarrow> bool \<Rightarrow> comp_spec list \<Rightarrow> 'w comp_state \<Rightarrow>
     (build_artifact list \<times> err list) outcome \<times> 'w comp_state" where
  "compile_each n E kp [] s = (Ok ([], []), s)"
| "compile_each n E kp (p # ps) s =
     obind_err (Compile n E kp p s)
       (\<lambda>e s. obind (compile_each n E kp ps s) (\<lambda>(as, es) s. (Ok (as, e # es), s)))
       (\<lambda>a s. obind (compile_each n E kp ps s) (\<lambda>(as, es) s. (Ok (a # as, es), s)))"

definition CompileParallel ::
    "nat \<Rightarrow> 'w comp_env \<Rightarrow> bool \<Rightarrow> comp_spec list \<Rightarrow> 'w comp_state \<Rightarrow>
     (build_artifact list \<times> err list) outcome \<times> 'w comp_state" where
  "CompileParallel n E kp ps s =
     (if coConcurrency (ceOpts E) = 0 \<and> ps \<noteq> [] then (Panic ''all goroutines are asleep - deadlock!'', s)
      else compile_each n E kp ps s)"

text \<open>
  The error of a spec is looked for in the wrong variable, so that a spec that cannot be made is used as nil.
  An artifact of an image alone has no spec.
\<close>

definition reverse_specs ::
    "nat \<Rightarrow> 'w comp_env \<Rightarrow> string \<Rightarrow> build_artifact list \<Rightarrow> 'w comp_state \<Rightarrow> comp_spec list outcome \<times> 'w comp_state" where
  "reverse_specs n E out as s =
     (let nilp = ''invalid memory address or nil pointer dereference''
      in obind (omap_st (\<lambda>a s.
           case baaSpec a of
             None \<Rightarrow> (Panic nilp, s)
           | Some p \<Rightarrow>
               (case package_Revdeps (md_World (ceDb E) (stDb s)) n (csPackage p) of
                  None \<Rightarrow> (Fuel, s)
                | Some rs \<Rightarrow>
                    omap_st (\<lambda>r s. obind_err (FromPackage E r s) (\<lambda>e s. (Panic nilp, s))
                                     (\<lambda>spec s. (Ok (SetOutputPath out spec), s))) rs s)) as s)
           (\<lambda>pss s. (Ok (concat pss), s)))"

definition CompileWithReverseDeps ::
    "nat \<Rightarrow> nat \<Rightarrow> 'w comp_env \<Rightarrow> bool \<Rightarrow> comp_spec list \<Rightarrow> 'w comp_state \<Rightarrow>
     (build_artifact list \<times> err list) outcome \<times> 'w comp_state" where
  "CompileWithReverseDeps n m E kp ps s =
     obind (CompileParallel n E kp ps s) (\<lambda>(as, es) s.
       if length es \<noteq> 0 then (Ok (as, es), s)
       else
         obind (reverse_specs m E (case ps of [] \<Rightarrow> [] | p # _ \<Rightarrow> csOutputPath p) as s) (\<lambda>toCompile s.
         obind (CompileParallel n E kp (specs_Remove (specs_Unique toCompile) ps) s) (\<lambda>(as2, es) s.
           (Ok (as @ as2, es), s))))"

end
