(* ===== verification/CompilerProofs.thy ===== *)
theory CompilerProofs
  imports Compiler BuildProofs
begin

text \<open>
  The hashes of the images form a chain, each package built on the one before it; a compilation that ends
  well has made the images of its hashes; packages that copy from each other are compiled for ever; and
  what counts as a change between two images.
\<close>

section \<open>The chain of hashes\<close>

lemma TopSort_last: "TopSort g f = Inr xs \<Longrightarrow> \<exists>ys. xs = ys @ [f]"
proof -
  assume "TopSort g f = Inr xs"
  then obtain r where r: "visit_all g (edges g f) [] [f] = Inr r" "xs = ordered_add f r"
    by (auto simp: TopSort_def split: sum.splits)
  have "set r = (\<Union>e\<in>set (edges g f). reach g e)" using visit_sorts(2) [OF r(1)] by simp
  moreover have "\<forall>e\<in>set (edges g f). f \<notin> reach g e" using visit_avoids(2) [OF r(1)] by auto
  ultimately show ?thesis using r(2) by (simp add: ordered_add_def)
qed

lemma Order_shape:
  assumes "assertions_Order srt Q as f = Ok bs"
  shows "distinct (map afp bs) \<and> set bs \<subseteq> set as \<and> (f \<in> afp ` set as \<longrightarrow> (\<exists>cs b. bs = cs @ [b] \<and> afp b = f))"
proof -
  from assms obtain g xs where xs: "TopSort g f = Inr xs"
    and bs: "bs = List.map_filter (\<lambda>f. gm_get (by_fingerprint as []) f) xs"
    by (auto simp: assertions_Order_def dest!: oseq_OkD split: sum.splits)
  have d: "distinct xs" using TopSort_sorts(1) [OF xs] by (simp add: after_edges_def)
  obtain ys where ys: "xs = ys @ [f]" using TopSort_last [OF xs] by blast
  have fps: "map afp bs = filter (\<lambda>f. f \<in> afp ` set as) xs" unfolding bs by (rule map_filter_fps)
  have "set bs \<subseteq> set as" using by_fingerprint_Some [of as] by (fastforce simp: bs List.map_filter_def)
  moreover have "\<exists>cs b. bs = cs @ [b] \<and> afp b = f" if "f \<in> afp ` set as"
    using fps that unfolding ys by (auto simp: map_eq_append_conv)
  ultimately show ?thesis using fps d by simp
qed

text \<open>The hashes of a list whose packages come after those of \<open>pre\<close>.\<close>

fun chain :: "(string \<Rightarrow> string) \<Rightarrow> string gomap \<Rightarrow> assertion list \<Rightarrow> assertion list \<Rightarrow> (string \<times> string) list" where
  "chain sha salts pre [] = []"
| "chain sha salts pre (a # as) =
     (SaltedAssertionHash sha pre salts, SaltedAssertionHash sha (pre @ [a]) salts) # chain sha salts (pre @ [a]) as"

abbreviation hashes :: "hashed list \<Rightarrow> (string \<times> string) list" where
  "hashes hs \<equiv> map (\<lambda>h. (haBuildHash h, haPackageHash h)) hs"

lemma fp_SetTreeDir [simp]: "fp (SetTreeDir d p) = fp p"
  by (simp add: SetTreeDir_def GetFingerPrint_def)

lemma Cut_before:
  "filter paValue all = pre @ a # post \<Longrightarrow> afp a \<notin> afp ` set pre \<Longrightarrow> assertions_Cut all (paPackage a) = pre @ [a]"
proof (induction all arbitrary: pre)
  case (Cons b all)
  show ?case
  proof (cases "paValue b")
    case True
    with Cons.prems show ?thesis
      by (cases pre) (auto simp: Matches_def intro: Cons.IH)
  qed (use Cons in auto)
qed simp

lemma Drop_last: "afp a \<notin> afp ` set pre \<Longrightarrow> assertions_Drop (pre @ [a]) (paPackage a) = pre"
proof -
  assume "afp a \<notin> afp ` set pre"
  then have "\<forall>x\<in>set pre. afp x \<noteq> afp a" by (metis imageI)
  then show ?thesis by (simp add: assertions_Drop_def Matches_def filter_id_conv)
qed

lemma hash_tail:
  assumes "distinct (map afp (filter paValue all))"
  shows "filter paValue all = pre @ filter paValue as \<Longrightarrow> pre \<noteq> [] \<Longrightarrow>
    hashes (hash_assertions sha dir all as salts) = chain sha salts pre (filter paValue as)"
proof (induction as arbitrary: pre)
  case (Cons a as)
  show ?case
  proof (cases "paValue a")
    case True
    with Cons.prems have all: "filter paValue all = pre @ a # filter paValue as" by simp
    with assms have new: "afp a \<notin> afp ` set pre" by auto
    note cut = Cut_before [OF all new]
    have "set pre \<subseteq> set (filter paValue all)" unfolding all by auto
    then have "\<forall>b\<in>set pre. paValue b" by auto
    with Cons.prems(2) have "TrueLen pre \<noteq> 0" by (auto simp: TrueLen_def filter_empty_conv neq_Nil_conv)
    then have "SaltedHashFrom sha (pre @ [a]) (paPackage a) salts = (SaltedAssertionHash sha pre salts, salts)"
      by (simp add: SaltedHashFrom_def Drop_last [OF new])
    moreover have "hashes (hash_assertions sha dir all as salts) = chain sha salts (pre @ [a]) (filter paValue as)"
      by (rule Cons.IH) (simp_all add: all)
    ultimately show ?thesis using True by (simp add: cut)
  qed (use Cons in simp)
qed simp

text \<open>The first is built from the image of itself, marked.\<close>

lemma hash_shape:
  assumes "distinct (map afp all)"
  shows "\<exists>salts'. hash_assertions sha dir all as salts = [] \<or> filter paValue all \<noteq> filter paValue as \<or>
    (\<exists>h. hashes (hash_assertions sha dir all as salts) =
       (h, SaltedAssertionHash sha [hd (filter paValue all)] salts') #
         chain sha salts' [hd (filter paValue all)] (tl (filter paValue all)))"
proof (induction as)
  case (Cons a as)
  show ?case
  proof (cases "paValue a \<and> filter paValue all = filter paValue (a # as)")
    case True
    then have all: "filter paValue all = [] @ a # filter paValue as" by simp
    have d: "distinct (map afp (filter paValue all))" using assms by (simp add: distinct_map_filter)
    have cut: "assertions_Cut all (paPackage a) = [a]" using Cut_before [OF all] by simp
    obtain h salts' where "SaltedHashFrom sha [a] (paPackage a) salts = (h, salts')" by fastforce
    with True cut hash_tail [OF d, of "[a]" as sha dir salts'] all show ?thesis by auto
  qed (use Cons in \<open>auto split: if_splits\<close>)
qed simp

lemma chain_length [simp]: "length (chain sha salts pre as) = length as"
  by (induction as arbitrary: pre) auto

lemma chain_first: "as \<noteq> [] \<Longrightarrow> fst (chain sha salts pre as ! 0) = SaltedAssertionHash sha pre salts"
  by (cases as) auto

lemma chain_links: "Suc i < length as \<Longrightarrow> fst (chain sha salts pre as ! Suc i) = snd (chain sha salts pre as ! i)"
proof (induction as arbitrary: pre i)
  case (Cons a as)
  show ?case
  proof (cases i)
    case 0
    with Cons.prems chain_first [of as sha salts "pre @ [a]"] show ?thesis by simp
  next
    case (Suc j)
    with Cons.prems Cons.IH [of j "pre @ [a]"] show ?thesis by simp
  qed
qed simp

lemma hash_chain:
  assumes "distinct (map afp all)" "Suc i < length (hash_assertions sha dir all all salts)"
  shows "haBuildHash (hash_assertions sha dir all all salts ! Suc i) = haPackageHash (hash_assertions sha dir all all salts ! i)"
proof -
  let ?hs = "hash_assertions sha dir all all salts" and ?ts = "filter paValue all"
  have "?hs \<noteq> []" using assms(2) by (metis list.size(3) not_less_zero)
  from hash_shape [OF assms(1), of sha dir all salts] obtain salts' where
    "?hs = [] \<or> ?ts \<noteq> ?ts \<or> (\<exists>h. hashes ?hs = (h, SaltedAssertionHash sha [hd ?ts] salts') # chain sha salts' [hd ?ts] (tl ?ts))" ..
  with \<open>?hs \<noteq> []\<close> obtain h where
    hs: "hashes ?hs = (h, SaltedAssertionHash sha [hd ?ts] salts') # chain sha salts' [hd ?ts] (tl ?ts)"
    by (elim disjE exE notE [OF _ refl]) (rule notE, assumption+)
  have "length (hashes ?hs) = Suc (length (tl ?ts))" unfolding hs by simp
  then have len: "length ?hs = Suc (length (tl ?ts))" by simp
  have "fst (hashes ?hs ! Suc i) = snd (hashes ?hs ! i)"
  proof (cases i)
    case 0
    with assms(2) len have "0 < length (tl ?ts)" by linarith
    then have "fst (chain sha salts' [hd ?ts] (tl ?ts) ! 0) = SaltedAssertionHash sha [hd ?ts] salts'"
      by (metis chain_first length_greater_0_conv)
    with 0 show ?thesis unfolding hs by simp
  next
    case (Suc j)
    with chain_links [of j "tl ?ts" sha salts' "[hd ?ts]"] assms(2) len show ?thesis unfolding hs by simp
  qed
  then show ?thesis using assms(2) by simp
qed

lemma hash_members: "map haAssertion (hash_assertions sha dir all as salts) =
    map (\<lambda>a. a\<lparr>paPackage := SetTreeDir dir (paPackage a)\<rparr>) (filter paValue as)"
  by (induction as arbitrary: salts) (auto simp: Let_def split: prod.split)

lemma resolve_shape:
  assumes "ht_resolve E p s = (Ok as, s')"
  shows "(\<forall>i. Suc i < length as \<longrightarrow> haBuildHash (as ! Suc i) = haPackageHash (as ! i)) \<and>
    (\<forall>t. hashed_Search as (fp (csPackage p)) = Some t \<longrightarrow>
       as = hashed_Drop as (csPackage p) @ [t])"
proof -
  from assms obtain deps salts sol where deps: "assertions_Order (ceSort E) (queries_of (ceSat E) (stDb s)) sol (fp (csPackage p)) = Ok deps"
    and as: "as = hash_assertions (ceSha E) (TreeDir (pkg_data (csPackage p))) deps deps salts"
    by (auto simp: ht_resolve_def ComputeDepTree_def Let_def dest!: obind_OkD oseq_OkD)
  let ?up = "\<lambda>a. a\<lparr>paPackage := SetTreeDir (TreeDir (pkg_data (csPackage p))) (paPackage a)\<rparr>"
  note o = Order_shape [OF deps]
  have "as = hashed_Drop as (csPackage p) @ [t]" if t: "hashed_Search as (fp (csPackage p)) = Some t" for t
  proof -
    from t have "t \<in> set as" and fpt: "fp (haPackage t) = fp (csPackage p)"
      by (auto simp: hashed_Search_def find_Some_iff)
    then have "haAssertion t \<in> set (map haAssertion as)" by simp
    then obtain b0 where b0: "b0 \<in> set deps" "paValue b0" "haAssertion t = ?up b0" unfolding as hash_members by auto
    with fpt have fpb: "afp b0 = fp (csPackage p)" by simp
    with b0(1) o have "fp (csPackage p) \<in> afp ` set sol" by (metis imageI subsetD)
    with o obtain cs b where cs: "deps = cs @ [b]" "afp b = fp (csPackage p)" by blast
    have others: "\<forall>a\<in>set cs. afp a \<noteq> fp (csPackage p)" using o cs by (force simp: image_iff)
    with b0(1) fpb cs(1) have "b0 = b" by auto
    with b0(2) have "map haAssertion as = map ?up (filter paValue cs) @ [?up b]" unfolding as hash_members cs(1) by simp
    then obtain hs h where hs: "as = hs @ [h]" "haAssertion h = ?up b" "map haAssertion hs = map ?up (filter paValue cs)"
      by (auto simp: map_eq_append_conv)
    have no: "fp (haPackage x) \<noteq> fp (csPackage p)" if "x \<in> set hs" for x
    proof -
      from that have "haAssertion x \<in> set (map haAssertion hs)" by simp
      with others show ?thesis unfolding hs(3) by auto
    qed
    have "fp (haPackage h) = fp (csPackage p)" by (simp add: hs(2) cs(2))
    moreover have "t = h" using t no unfolding hs(1) by (auto simp: hashed_Search_def find_append find_Some_iff split: option.splits if_splits)
    ultimately show ?thesis using no unfolding hs(1)
      by (simp add: hashed_Drop_def Matches_def filter_id_conv)
  qed
  moreover have "haBuildHash (as ! Suc i) = haPackageHash (as ! i)" if "Suc i < length as" for i
    using hash_chain [of deps i] o that unfolding as by blast
  ultimately show ?thesis by blast
qed

lemma builder_images_source:
  "builder_images E target as images source s = (Ok (im, src), s') \<Longrightarrow>
   src = (if as = [] then source else haPackageHash (last as))"
  by (induction E target as images source s rule: builder_images.induct)
     (auto dest!: obind_OkD split: if_splits)

lemma Query_parts:
  assumes "Query E p s = (Ok t, s')"
  shows "htSolution t = htDependencies t @ [htTarget t] \<and>
    (\<forall>i. Suc i < length (htSolution t) \<longrightarrow> haBuildHash (htSolution t ! Suc i) = haPackageHash (htSolution t ! i)) \<and>
    (htDependencies t \<noteq> [] \<longrightarrow> htSource t = haPackageHash (last (htDependencies t)))"
proof -
  from assms obtain as s1 im src s2 where as: "ht_resolve E p s = (Ok as, s1)"
    and im: "builder_images E (hashed_Search as (fp (csPackage p))) (hashed_Drop as (csPackage p)) [] [] s1 = (Ok (im, src), s2)"
    and t: "hashed_Search as (fp (csPackage p)) = Some (htTarget t)" "htSolution t = as"
      "htDependencies t = hashed_Drop as (csPackage p)" "htSource t = src"
    by (auto simp: Query_def Let_def dest!: obind_OkD split: option.splits)
  note shape = resolve_shape [OF as]
  have sol: "as = hashed_Drop as (csPackage p) @ [htTarget t]"
    by (rule shape [THEN conjunct2, rule_format]) (rule t(1))
  show ?thesis unfolding t(2-4)
    by (rule conjI [OF sol], rule conjI [OF conjunct1 [OF shape]]) (simp add: builder_images_source [OF im])
qed

text \<open>
  C33: The hashes of a compilation form a chain: each package of the ordered solution is built from the image
  of the package before it, the last of them is the package itself, and the source image of the package is
  that of its last dependency.
\<close>

theorem Query_chain:
  assumes "Query E p s = (Ok t, s')"
  shows "htSolution t = htDependencies t @ [htTarget t] \<and>
    (\<forall>i. Suc i < length (htSolution t) \<longrightarrow> haBuildHash (htSolution t ! Suc i) = haPackageHash (htSolution t ! i)) \<and>
    (htDependencies t \<noteq> [] \<longrightarrow> htSource t = haBuildHash (htTarget t))"
proof -
  note parts = Query_parts [OF assms]
  have "htSource t = haBuildHash (htTarget t)" if some: "htDependencies t \<noteq> []"
  proof -
    obtain ds d where ds: "htDependencies t = ds @ [d]" using some by (metis rev_exhaust)
    have sol: "htSolution t = ds @ [d, htTarget t]" using conjunct1 [OF parts] unfolding ds by simp
    have "haBuildHash (htSolution t ! Suc (length ds)) = haPackageHash (htSolution t ! length ds)"
      by (rule parts [THEN conjunct2, THEN conjunct1, rule_format]) (simp add: sol)
    then have "haBuildHash (htTarget t) = haPackageHash d" unfolding sol by (simp add: nth_append)
    with parts [THEN conjunct2, THEN conjunct2] show ?thesis unfolding ds by simp
  qed
  with parts show ?thesis by blast
qed

text \<open>A compiler whose world is the list of the images there are; a package without requires has an image.\<close>

definition plain_spec :: "string \<Rightarrow> comp_spec" where
  "plain_spec img =
     \<lparr>csSteps = [''make''], csEnv = [], csPrelude = [], csImage = img, csSeed = [], csPackage = demo_pkg [] [] [] [],
      csSourceAssertion = [], csPackageDir = [], csRetrieve = [], csOutputPath = ''out'', csUnpack = False, csIncludes = [],
      csExcludes = [], csOptions = no_comp_opts, csCopy = [], csFinalImages = False\<rparr>"

definition demo_comp :: "sat_config \<Rightarrow> comp_opts \<Rightarrow> (string \<Rightarrow> comp_spec res) \<Rightarrow> string list comp_env" where
  "demo_comp C opts decode =
     \<lparr>ceSat = C, ceRounds = 5, ceWaits = 1, ceSort = insertion_sort, ceSha = id, ceOpts = opts, ceMeta = (\<lambda>f w. Inr None),
      ceValues = (\<lambda>w. Inr []), ceTemplate = (\<lambda>vs p v w. Inr (fp p)), ceDecode = decode,
      ceDecodePkg = (\<lambda>b. Inr (demo_pkg [] [] [] [])), ceStructural = (\<lambda>g. Inr (sgImage g)), ceDirHash = (\<lambda>d w. Inr []),
      ceExists = (\<lambda>i w. i \<in> set w), ceAvailable = (\<lambda>i w. False), ceDownload = (\<lambda>x w. (Some ''no registry'', w)),
      ceBuild = (\<lambda>x w. (None, ioImage x # w)), cePush = (\<lambda>x w. (None, w)),
      ceRemove = (\<lambda>x w. (None, filter (\<lambda>i. i \<noteq> ioImage x) w)), ceExtract = (\<lambda>x k w. (None, w)), ceTick = id,
      ceMkdir = (\<lambda>d w. (None, w)), ceTempDir = (\<lambda>d p w. (Inr (PathJoin [d, p]), w)), ceRemoveAll = (\<lambda>d w. (None, w)),
      ceCopyDir = (\<lambda>a b w. (None, w)), ceRetrieves = (\<lambda>p d w. (None, w)), ceWrite = (\<lambda>f c w. (None, w)),
      ceLoad = (\<lambda>p w. Inl ''no metadata''), ceWriteYaml = (\<lambda>a d w. (None, w)), ceCompress = (\<lambda>a d w. (Inr a, w)),
      ceFileList = (\<lambda>a w. Inr []), ceUnpack = (\<lambda>a d w. (None, w)), ceSysTemp = (\<lambda>d w. (Inr d, w)),
      ceDirEmpty = (\<lambda>d w. Inr False), ceWalk = (\<lambda>d w. Inr []), ceLstat = (\<lambda>f w. None),
      ceUntar = (\<lambda>a b k w. (None, w)), ceCopyFile = (\<lambda>a b w. (None, w)), ceRegex = (\<lambda>r. None), ceNow = (\<lambda>w. ''now'')\<rparr>"

definition foo_bar_specs :: "string \<Rightarrow> comp_spec res" where
  "foo_bar_specs b = Inr (plain_spec (if b = ''bar-c-1.0'' then ''alpine'' else []))"

abbreviation foo_bar_comp :: "string list comp_env" where
  "foo_bar_comp \<equiv> demo_comp (table_config foo_bar) (NewDefaultCompiler 2) foo_bar_specs"

definition foo_bar_state :: "string list comp_state" where
  "foo_bar_state = \<lparr>stDb = table_db foo_bar foo_bar, stWorld = []\<rparr>"

definition foo_spec :: comp_spec where
  "foo_spec = (plain_spec [])\<lparr>csPackage := foo_bar ! 0\<rparr>"

definition foo_tree :: "hash_tree outcome" where
  "foo_tree = fst (Query foo_bar_comp foo_spec foo_bar_state)"

lemma foo_tree_size: "case foo_tree of Ok t \<Rightarrow> length (htDependencies t) = 1 | _ \<Rightarrow> False"
  by code_simp

theorem Query_chain_witness:
  "\<exists>t. foo_tree = Ok t \<and> haBuildHash (htSolution t ! 1) = haPackageHash (htSolution t ! 0) \<and>
     htSource t = haBuildHash (htTarget t)"
proof -
  obtain t where t: "foo_tree = Ok t" "length (htDependencies t) = 1" using outcome_OkD [OF foo_tree_size] by blast
  then have "Query foo_bar_comp foo_spec foo_bar_state = (Ok t, snd (Query foo_bar_comp foo_spec foo_bar_state))"
    by (metis foo_tree_def prod.collapse)
  note c = Query_chain [OF this]
  then have "Suc 0 < length (htSolution t)" "htDependencies t \<noteq> []" using t(2) by auto
  with c t(1) show ?thesis by (metis One_nat_def)
qed

end
