(* ===== verification/ImageProofs.thy ===== *)
theory ImageProofs
  imports CompilerProofs
begin

text \<open>
  What a compilation leaves in the store of images, where no command of the backend but the removal of an
  image makes an image disappear: the images there were, and those of the hashes of the package and of its
  dependencies.  Packages that copy from themselves, and the changes between two images.
\<close>

section \<open>Nothing removes an image\<close>

definition keeps_images :: "'w comp_env \<Rightarrow> ('w \<Rightarrow> 'a \<times> 'w) \<Rightarrow> bool" where
  "keeps_images E f \<longleftrightarrow> (\<forall>w i. ceExists E i w \<longrightarrow> ceExists E i (snd (f w)))"

definition images_kept :: "'w comp_env \<Rightarrow> bool" where
  "images_kept E \<longleftrightarrow>
     (\<forall>x. keeps_images E (ceDownload E x) \<and> keeps_images E (ceBuild E x) \<and> keeps_images E (cePush E x)) \<and>
     (\<forall>x k. keeps_images E (ceExtract E x k)) \<and> (\<forall>w i. ceExists E i w \<longrightarrow> ceExists E i (ceTick E w)) \<and>
     (\<forall>d. keeps_images E (ceMkdir E d) \<and> keeps_images E (ceRemoveAll E d) \<and> keeps_images E (ceSysTemp E d)) \<and>
     (\<forall>d e. keeps_images E (ceTempDir E d e) \<and> keeps_images E (ceCopyDir E d e) \<and> keeps_images E (ceWrite E d e)) \<and>
     (\<forall>p d. keeps_images E (ceRetrieves E p d)) \<and>
     (\<forall>a d. keeps_images E (ceWriteYaml E a d) \<and> keeps_images E (ceCompress E a d) \<and> keeps_images E (ceUnpack E a d)) \<and>
     (\<forall>d e k. keeps_images E (ceUntar E d e k) \<and> keeps_images E (ceCopyFile E d e)) \<and>
     (\<forall>x w w'. ceBuild E x w = (None, w') \<longrightarrow> ceExists E (ioImage x) w')"

text \<open>The images of a set are there.\<close>

definition present :: "'w comp_env \<Rightarrow> string set \<Rightarrow> 'w comp_state \<Rightarrow> bool" where
  "present E X s \<longleftrightarrow> (\<forall>i\<in>X. ceExists E i (stWorld s))"

named_theorems image_intros

lemma on_world_present: "keeps_images E f \<Longrightarrow> present E X s \<Longrightarrow> present E X (snd (on_world f s))"
proof -
  assume "keeps_images E f" "present E X s"
  moreover have "stWorld (snd (on_world f s)) = snd (f (stWorld s))" by (simp add: on_world_def split: prod.split)
  ultimately show ?thesis by (simp add: keeps_images_def present_def)
qed

lemma calls_present [image_intros]:
  assumes "images_kept E" "present E X s"
  shows "present E X (snd (on_world (ceDownload E x) s))" "present E X (snd (on_world (ceBuild E x) s))"
    "present E X (snd (on_world (cePush E x) s))" "present E X (snd (on_world (ceExtract E x k) s))"
    "present E X (snd (on_world (ceMkdir E d) s))"
    "present E X (snd (on_world (ceRemoveAll E d) s))" "present E X (snd (on_world (ceSysTemp E d) s))"
    "present E X (snd (on_world (ceTempDir E d e) s))" "present E X (snd (on_world (ceCopyDir E d e) s))"
    "present E X (snd (on_world (ceWrite E d e) s))" "present E X (snd (on_world (ceRetrieves E p d) s))"
    "present E X (snd (on_world (ceWriteYaml E a d) s))" "present E X (snd (on_world (ceCompress E a d) s))"
    "present E X (snd (on_world (ceUnpack E a d) s))" "present E X (snd (on_world (ceUntar E d e k) s))"
    "present E X (snd (on_world (ceCopyFile E d e) s))"
  using assms(1) by (intro on_world_present [OF _ assms(2)], simp add: images_kept_def)+

lemma tick_present [image_intros]:
  "images_kept E \<Longrightarrow> present E X s \<Longrightarrow> present E X (s\<lparr>stWorld := ceTick E (stWorld s)\<rparr>)"
  by (simp add: images_kept_def present_def)

lemma wrappers [simp]:
  "snd (checked m r) = snd r" "snd (checked_res m r') = snd r'" "snd (wrap_err m r'') = snd r''"
  by (cases r, auto simp: checked_def split: option.split) (cases r', auto simp: checked_res_def split: sum.split,
      cases r'', auto simp: wrap_err_def)

lemma cleaned_present [image_intros]: "images_kept E \<Longrightarrow> present E X (snd r) \<Longrightarrow> present E X (snd (cleaned E d r))"
  by (cases r) (simp add: cleaned_def calls_present)

text \<open>What only reads the world.\<close>

lemma FromPackage_world [simp]: "stWorld (snd (FromPackage E p s)) = stWorld s"
  by (simp add: FromPackage_def Let_def split: option.split sum.split prod.split)

lemma obind_world: "stWorld (snd m) = w \<Longrightarrow> (\<And>a s. stWorld s = w \<Longrightarrow> stWorld (snd (f a s)) = w) \<Longrightarrow> stWorld (snd (obind m f)) = w"
  by (rule obind_keeps [where I = "\<lambda>s. stWorld s = w"])

lemma spec_salts_world [simp]: "stWorld (snd (spec_salts E as salts s)) = stWorld s"
proof (induction as arbitrary: salts s)
  case (Cons a as)
  show ?case by (auto intro!: obind_world simp: Cons.IH split: sum.split)
qed simp

lemma resolve_world [simp]: "stWorld (snd (ht_resolve E p s)) = stWorld s"
  by (auto simp: ht_resolve_def intro!: obind_world)

lemma builder_images_world [simp]: "stWorld (snd (builder_images E t as im src s)) = stWorld s"
proof (induction as arbitrary: im src s)
  case (Cons a as)
  show ?case by (auto intro!: obind_world simp: Cons.IH)
qed simp

lemma Query_world [simp]: "stWorld (snd (Query E p s)) = stWorld s"
  by (auto simp: Query_def Let_def intro!: obind_world)

lemma getSpecHash_world [simp]: "stWorld (snd (getSpecHash E ps salt s)) = stWorld s"
proof -
  have "stWorld (snd (packages_hashes E ps k s)) = stWorld s" for k
  proof (induction ps arbitrary: k s)
    case (Cons p ps)
    show ?case by (auto intro!: obind_world simp: Cons.IH)
  qed simp
  then show ?thesis by (auto simp: getSpecHash_def intro!: obind_world)
qed

lemma present_world: "stWorld s' = stWorld s \<Longrightarrow> present E X s \<Longrightarrow> present E X s'"
  by (simp add: present_def)

lemmas image_keeps = obind_keeps [where I = "present E X" for E X]

lemma wait_present [image_intros]: "images_kept E \<Longrightarrow> present E X s \<Longrightarrow> present E X (snd (waitForImages E is s))"
proof -
  assume E: "images_kept E"
  have "present E X s \<Longrightarrow> present E X (snd (wait_loop n E is s))" for n
    by (induction n arbitrary: s) (auto simp: Let_def intro: tick_present [OF E])
  then show "present E X s \<Longrightarrow> present E X (snd (waitForImages E is s))" by (simp add: waitForImages_def)
qed

lemma getImageArtifact_present [image_intros]:
  "images_kept E \<Longrightarrow> present E X s \<Longrightarrow> present E X (snd (getImageArtifact E hash p s))"
  by (auto simp: getImageArtifact_def Let_def intro!: image_keeps image_intros split: sum.split bool.split)

lemma remove_each_present: "images_kept E \<Longrightarrow> present E X s \<Longrightarrow> present E X (snd (remove_each E fs s))"
proof (induction fs arbitrary: s)
  case (Cons f fs)
  then have "present E X (snd (on_world (ceRemoveAll E f) s))" by (intro image_intros)
  with Cons show ?case by (auto split: prod.split option.split)
qed simp

lemma strip_present [image_intros]:
  "images_kept E \<Longrightarrow> present E X s \<Longrightarrow> present E X (snd (stripFromRootfs E is r b s))"
  by (auto simp: stripFromRootfs_def intro: remove_each_present split: option.split sum.split)

lemma GenerateChanges_present [image_intros]:
  "images_kept E \<Longrightarrow> present E X s \<Longrightarrow> present E X (snd (GenerateChanges E a b s))"
  unfolding GenerateChanges_def Let_def
  by (intro image_keeps image_intros) (simp_all add: image_intros)

lemma write_artifact_present [image_intros]:
  "images_kept E \<Longrightarrow> present E X s \<Longrightarrow> present E X (snd (write_artifact E p a s))"
  unfolding write_artifact_def Let_def by (intro image_keeps) (simp_all add: image_intros)

lemma copy_worker_present: "images_kept E \<Longrightarrow> present E X s \<Longrightarrow> present E X (copy_worker E js s)"
proof (induction js arbitrary: s)
  case (Cons j js)
  then show ?case by (auto intro: calls_present)
qed simp

lemma pack_delta_present [image_intros]:
  "images_kept E \<Longrightarrow> present E X s \<Longrightarrow> present E X (snd (pack_delta E a dst js s))"
  by (auto simp: pack_delta_def intro!: image_intros intro: copy_worker_present)

lemma ExtractArtifactFromDelta_present [image_intros]:
  "images_kept E \<Longrightarrow> present E X s \<Longrightarrow> present E X (snd (ExtractArtifactFromDelta E src dst ls kp is es s))"
  unfolding ExtractArtifactFromDelta_def by (auto intro!: image_keeps image_intros)

lemma unpackFs_present [image_intros]:
  "images_kept E \<Longrightarrow> present E X s \<Longrightarrow> present E X (snd (unpackFs E kp p r s))"
  unfolding unpackFs_def Let_def by (intro image_keeps image_intros) (simp_all add: image_intros image_keeps)

lemma unpackDelta_present [image_intros]:
  "images_kept E \<Longrightarrow> present E X s \<Longrightarrow> present E X (snd (unpackDelta E kp p b r s))"
  unfolding unpackDelta_def Let_def by (intro image_keeps image_intros) (simp_all add: image_intros)

lemma genArtifact_present [image_intros]:
  "images_kept E \<Longrightarrow> present E X s \<Longrightarrow> present E X (snd (genArtifact E kp p b r s))"
  by (auto simp: genArtifact_def intro!: image_keeps image_intros split: sum.split)

lemma GenerateFinalImage_present [image_intros]:
  "images_kept E \<Longrightarrow> present E X s \<Longrightarrow> present E X (snd (GenerateFinalImage E i a s))"
proof -
  assume E: "images_kept E" "present E X s"
  have build: "present E X (snd (case on_world (ceBuild E x) u of (Some e, s) \<Rightarrow> (Err e, s) | (None, s) \<Rightarrow> (Ok y, s)))"
    if "present E X u" for x y u
    using calls_present(2) [OF E(1) that, of x] by (cases "on_world (ceBuild E x) u") (simp split: option.split)
  show ?thesis using E unfolding GenerateFinalImage_def Let_def
    by (auto intro!: image_keeps image_intros build split: sum.split)
qed

lemma buildAndPush_present [image_intros]:
  "images_kept E \<Longrightarrow> present E X s \<Longrightarrow> present E X (snd (buildAndPush E i x s))"
proof -
  assume E: "images_kept E" "present E X s"
  obtain e s1 where d: "on_world (ceDownload E x) s = (e, s1)" by fastforce
  with calls_present(1) [OF E, of x] have "present E X s1" by simp
  with E d show ?thesis by (auto simp: buildAndPush_def Let_def intro!: image_keeps image_intros)
qed

lemma buildPackageImage_present [image_intros]:
  "images_kept E \<Longrightarrow> present E X s \<Longrightarrow> present E X (snd (buildPackageImage E i b g p s))"
  unfolding buildPackageImage_def Let_def
  by (auto intro!: image_keeps image_intros)

lemma compileWithImage_present [image_intros]:
  "images_kept E \<Longrightarrow> present E X s \<Longrightarrow> present E X (snd (compileWithImage E i b h kp True p g s))"
  unfolding compileWithImage_def Let_def
  by (auto intro!: image_keeps obind_err_keeps [where I = "present E X"] image_intros)

text \<open>The recursive calls, and the compilation itself.\<close>

definition rec_keeps :: "'w comp_env \<Rightarrow> 'w compile_fn \<Rightarrow> bool" where
  "rec_keeps E rec \<longleftrightarrow> (\<forall>f d p s X. present E X s \<longrightarrow> present E X (snd (rec f d p s)))"

lemma rec_present: "rec_keeps E rec \<Longrightarrow> present E X s \<Longrightarrow> present E X (snd (rec f d p s))"
  by (simp add: rec_keeps_def)

lemma reads_present [image_intros]:
  "present E X s \<Longrightarrow> present E X (snd (FromPackage E q s))" "present E X s \<Longrightarrow> present E X (snd (getSpecHash E qs salt s))"
  "present E X s \<Longrightarrow> present E X (snd (Query E p s))"
  by (rule present_world; simp)+

lemma join_present [image_intros]:
  "images_kept E \<Longrightarrow> rec_keeps E rec \<Longrightarrow> present E X s \<Longrightarrow> present E X (snd (join_packages E rec dir out cs s))"
proof (induction cs arbitrary: s)
  case (Cons c cs)
  show ?case using Cons.prems by (auto intro!: image_keeps image_intros rec_present [of _ rec] Cons.IH)
qed simp

lemma copy_present [image_intros]:
  "images_kept E \<Longrightarrow> rec_keeps E rec \<Longrightarrow> present E X s \<Longrightarrow> present E X (snd (copy_fields E rec out cs s))"
proof (induction cs arbitrary: s)
  case (Cons c cs)
  show ?case using Cons.prems by (auto simp: Let_def intro!: image_keeps image_intros rec_present [of _ rec] Cons.IH split: option.split)
qed simp

lemma resolveFinal_present [image_intros]:
  "images_kept E \<Longrightarrow> rec_keeps E rec \<Longrightarrow> present E X s \<Longrightarrow> present E X (snd (resolveFinalImages E rec p s))"
  unfolding resolveFinalImages_def Let_def by (auto intro!: image_keeps image_intros rec_present [of _ rec])

lemma resolve_images_present [image_intros]:
  "images_kept E \<Longrightarrow> rec_keeps E rec \<Longrightarrow> present E X s \<Longrightarrow> present E X (snd (resolve_images E rec p s))"
  unfolding resolve_images_def resolveMultiStageImages_def by (auto intro!: image_keeps image_intros rec_present [of _ rec])

lemma dependencies_present [image_intros]:
  "images_kept E \<Longrightarrow> coKeepImg (ceOpts E) \<Longrightarrow> rec_keeps E rec \<Longrightarrow> present E X s \<Longrightarrow>
   present E X (snd (compile_dependencies E rec kp pd p t as s))"
proof (induction as arbitrary: s)
  case (Cons a as)
  show ?case using Cons.prems by (auto simp: Let_def intro!: image_keeps image_intros rec_present [of _ rec] Cons.IH split: sum.split)
qed simp

lemma compile_with_present [image_intros]:
  "images_kept E \<Longrightarrow> coKeepImg (ceOpts E) \<Longrightarrow> rec_keeps E rec \<Longrightarrow> present E X s \<Longrightarrow>
   present E X (snd (compile_with E rec kp final deps p s))"
  unfolding compile_with_def Let_def by (auto intro!: image_keeps image_intros rec_present [of _ rec] split: list.split)

lemma compile_rec_keeps: "images_kept E \<Longrightarrow> coKeepImg (ceOpts E) \<Longrightarrow> rec_keeps E (c_compile n E kp)"
  by (induction n) (simp_all add: rec_keeps_def compile_with_present)

section \<open>The images a compilation makes\<close>

definition has_image :: "'w comp_env \<Rightarrow> string \<Rightarrow> 'w comp_state \<Rightarrow> bool" where
  "has_image E hash s \<longleftrightarrow> (\<exists>r. ceExists E (image_name r hash) (stWorld s))"

lemma has_image_kept: "has_image E h s \<Longrightarrow> (\<And>X. present E X s \<Longrightarrow> present E X (snd r)) \<Longrightarrow> has_image E h (snd r)"
proof -
  assume "has_image E h s" and keep: "\<And>X. present E X s \<Longrightarrow> present E X (snd r)"
  then obtain repo where "present E {image_name repo h} s" by (auto simp: has_image_def present_def)
  from keep [OF this] show ?thesis by (auto simp: has_image_def present_def)
qed

lemma cleaned_OkD: "cleaned E d r = (Ok a, s') \<Longrightarrow> \<exists>s. r = (Ok a, s) \<and> s' = snd (on_world (ceRemoveAll E d) s)"
  by (cases r) (simp add: cleaned_def)

lemma checked_OkD: "checked m r = (Ok u, s') \<Longrightarrow> r = (None, s')"
  by (cases r) (simp add: checked_def split: option.splits)

lemma wrap_err_OkD: "wrap_err m r = (Ok a, s') \<Longrightarrow> r = (Ok a, s')"
  by (cases r; cases "fst r") (auto simp: wrap_err_def)

lemmas OkDs = obind_OkD cleaned_OkD checked_OkD wrap_err_OkD

lemma buildAndPush_makes:
  assumes "buildAndPush E i x s = (Ok (), s')" "images_kept E" "\<not> coPullFirst (ceOpts E)"
  shows "ceExists E (ioImage x) (stWorld s')"
proof -
  from assms(1,3) obtain s1 where s1: "on_world (ceBuild E x) s = (None, s1)"
    and s': "s' = s1 \<or> s' = snd (on_world (cePush E x) s1)"
    by (auto simp: buildAndPush_def Let_def dest!: OkDs split: if_splits)
  then have "ceBuild E x (stWorld s) = (None, stWorld s1)" by (auto simp: on_world_def split: prod.splits)
  with assms(2) have "present E {ioImage x} s1" by (auto simp: images_kept_def present_def)
  with assms(2) s' have "present E {ioImage x} s'" by (auto intro: image_intros)
  then show ?thesis by (simp add: present_def)
qed

lemma buildPackageImage_makes:
  assumes "buildPackageImage E i b g p s = (Ok r, s')" "images_kept E" "\<not> coPullFirst (ceOpts E)"
  shows "ceExists E g (stWorld s')"
proof -
  from assms(1) have "\<exists>x s1 s2 d. buildAndPush E i x s1 = (Ok (), s2) \<and> ioImage x = g \<and> s' = snd (on_world (ceRemoveAll E d) s2)"
    by (clarsimp simp: buildPackageImage_def Let_def dest!: OkDs split: if_splits)
       (metis image_opts.select_convs(1))+
  then obtain x s1 s2 d where s1: "buildAndPush E i x s1 = (Ok (), s2)" and x: "ioImage x = g"
    and s': "s' = snd (on_world (ceRemoveAll E d) s2)" by blast
  from buildAndPush_makes [OF s1 assms(2,3)] x have "present E {g} s2" by (simp add: present_def)
  with assms(2) s' have "present E {g} s'" by (auto intro: image_intros)
  then show ?thesis by (simp add: present_def)
qed

lemma find_exists: "find P xs \<noteq> None \<Longrightarrow> \<exists>x\<in>set xs. P x"
  by (auto simp: find_Some_iff)

lemma getImageArtifact_has:
  assumes "getImageArtifact E h p s = (Ok a, s')" "images_kept E" "\<not> coPullFirst (ceOpts E)"
  shows "has_image E h s'"
proof -
  from assms(1,3) have "oneOfImagesExists E (check_list E h p) (stWorld s) \<noteq> None"
    by (auto simp: getImageArtifact_def Let_def dest!: OkDs split: sum.splits bool.splits if_splits)
  then have "has_image E h s"
    by (auto simp: oneOfImagesExists_def check_list_def genImageList_def has_image_def find_Some_iff split: if_splits)
  then have "has_image E h (snd (getImageArtifact E h p s))"
    by (rule has_image_kept) (rule getImageArtifact_present [OF assms(2)])
  with assms(1) show ?thesis by simp
qed

lemma compileWithImage_makes:
  assumes "compileWithImage E i b h kp True p g s = (Ok a, s')" "images_kept E" "\<not> coPullFirst (ceOpts E)" "\<not> IsVirtual p"
  shows "has_image E h s'"
proof -
  let ?img = "image_name (coPushRepo (ceOpts E)) h"
  have built: "has_image E h (snd r)"
    if "buildPackageImage E i j ?img p u = (Ok (x, y, q), v)" "r = (if \<not> g then (Ok (NewBuildArtifact []), v) else genArtifact E kp q x y v)"
    for u x y q v j and r :: "build_artifact outcome \<times> _"
  proof -
    from buildPackageImage_makes [OF that(1) assms(2,3)] have "has_image E h v" by (auto simp: has_image_def)
    then show ?thesis unfolding that(2) by (rule has_image_kept) (auto intro: image_intros assms(2))
  qed
  from assms(1,3,4) consider (made) u x y q v j where "buildPackageImage E i j ?img p u = (Ok (x, y, q), v)"
      "(Ok a, s') = (if \<not> g then (Ok (NewBuildArtifact []), v) else genArtifact E kp q x y v)"
    | (there) "getImageArtifact E h p s = (Ok a, s')"
    by (auto simp: compileWithImage_def Let_def dest!: OkDs obind_err_OkD split: if_splits)
  then show ?thesis
  proof cases
    case made
    from built [OF this] show ?thesis by simp
  qed (rule getImageArtifact_has [OF _ assms(2,3)])
qed

lemma resolve_images_shape:
  assumes "resolve_images E rec p s = (Ok q, s')"
  shows "\<exists>i cs. q = p\<lparr>csImage := i, csCopy := cs\<rparr> \<and> (i \<noteq> [] \<or> i = csImage p) \<and> (\<not> csFinalImages p \<longrightarrow> i = csImage p)"
proof -
  from assms obtain p1 s1 cs where r: "resolveFinalImages E rec p s = (Ok p1, s1)" and q: "q = p1\<lparr>csCopy := cs\<rparr>"
    by (auto simp: resolve_images_def resolveMultiStageImages_def dest!: OkDs)
  from r have "\<exists>i. p1 = p\<lparr>csImage := i\<rparr> \<and> (i \<noteq> [] \<or> i = csImage p) \<and> (\<not> csFinalImages p \<longrightarrow> i = csImage p)"
    by (auto simp: resolveFinalImages_def Let_def image_name_def dest!: OkDs split: if_splits)
  with q show ?thesis by auto
qed

lemma resolve_images_virtual:
  assumes "resolve_images E rec p s = (Ok q, s')" "\<not> IsVirtual p"
  shows "\<not> IsVirtual q"
proof -
  from resolve_images_shape [OF assms(1)] assms(2) show ?thesis
    by (auto simp: IsVirtual_def HasImageSource_def EmptyPackage_def UnpackedPackage_def)
qed

lemma same_virtual [simp]:
  "IsVirtual (SetOutputPath d p) = IsVirtual p" "IsVirtual (p\<lparr>csOptions := b\<rparr>) = IsVirtual p"
  "IsVirtual (p\<lparr>csSourceAssertion := as, csOptions := b\<rparr>) = IsVirtual p"
  by (simp_all add: IsVirtual_def HasImageSource_def EmptyPackage_def UnpackedPackage_def SetOutputPath_def)

definition no_virtual :: "'w comp_env \<Rightarrow> bool" where
  "no_virtual E \<longleftrightarrow> (\<forall>q s spec s'. FromPackage E q s = (Ok spec, s') \<longrightarrow> \<not> IsVirtual spec)"

lemma dependencies_make:
  assumes "images_kept E" "coKeepImg (ceOpts E)" "\<not> coPullFirst (ceOpts E)" "rec_keeps E rec" "no_virtual E"
  shows "compile_dependencies E rec kp pd p t as s = (Ok arts, s') \<Longrightarrow> \<forall>a\<in>set as. has_image E (haPackageHash a) s'"
proof (induction as arbitrary: s arts)
  case (Cons a as)
  let ?q = "\<lambda>spec. SetOutputPath (csOutputPath p)
    (spec\<lparr>csOptions := (csOptions spec)\<lparr>coPullRepos := coPullRepos (csOptions spec) @ coPullRepos (csOptions p)\<rparr>\<rparr>)"
  from Cons.prems obtain spec s1 q' s2 s3 i b art arts' where
    spec: "FromPackage E (haPackage a) s = (Ok spec, s1)" and q': "resolve_images E rec (?q spec) s1 = (Ok q', s2)"
    and art: "compileWithImage E i b (haPackageHash a) kp True q' pd s2 = (Ok art, s3)"
    and rest: "compile_dependencies E rec kp pd p t as s3 = (Ok arts', s')"
    by (auto simp: Let_def assms(2) dest!: OkDs split: sum.splits)
  from assms(5) spec have "\<not> IsVirtual (?q spec)" by (auto simp: no_virtual_def)
  from compileWithImage_makes [OF art assms(1,3) resolve_images_virtual [OF q' this]] have "has_image E (haPackageHash a) s3" .
  then have "has_image E (haPackageHash a) (snd (compile_dependencies E rec kp pd p t as s3))"
    by (rule has_image_kept) (rule dependencies_present [OF assms(1,2,4)])
  with rest Cons.IH [OF rest] show ?case by simp
qed simp

lemma same_virtual' [simp]: "IsVirtual (p\<lparr>csSourceAssertion := as\<rparr>) = IsVirtual p"
  by (simp_all add: IsVirtual_def HasImageSource_def EmptyPackage_def UnpackedPackage_def)

text \<open>
  C32: A compilation of a package that is not virtual, with every image kept, without pulling first, with its
  dependencies and its target, and with no virtual package among the specs, leaves when it succeeds an image under
  the name of the hash that it gives to the artifact, in one of the repositories of images.  When the package
  names no image to start from and asks for no final images, so that it is built from its dependencies, each
  assertion of the artifact has an image of its hash there too, the last of them being the package itself.
  Whether a later build of the run has replaced what an image holds is not said.
\<close>

theorem Compile_makes_images:
  assumes "Compile n E kp p s = (Ok a, s')" "images_kept E" "coKeepImg (ceOpts E)" "\<not> coPullFirst (ceOpts E)"
    "\<not> coNoDeps (ceOpts E)" "\<not> coOnlyDeps (ceOpts E)" "no_virtual E" "\<not> IsVirtual p"
  shows "has_image E (baaCacheImage a) s' \<and>
    (csImage p = [] \<and> \<not> csFinalImages p \<longrightarrow>
       baaAssertion a \<noteq> [] \<and> baaCacheImage a = haPackageHash (last (baaAssertion a)) \<and>
       (\<forall>h\<in>set (baaAssertion a). has_image E (haPackageHash h) s'))"
proof -
  from assms(1) obtain m where c: "compile_with E (c_compile m E kp) kp None None p s = (Ok a, s')"
    by (cases n) (auto simp: Compile_def)
  note rec = compile_rec_keeps [OF assms(2,3), of m kp]
  from c obtain q s1 where q: "resolve_images E (c_compile m E kp) p s = (Ok q, s1)"
    by (auto simp: compile_with_def dest!: OkDs)
  note nv = resolve_images_virtual [OF q assms(8)]
  from q c obtain t s2 where t: "Query E q s1 = (Ok t, s2)" by (auto simp: compile_with_def dest!: OkDs split: if_splits)
  let ?q = "q\<lparr>csSourceAssertion := htSolution t, csOptions := (csOptions q)\<lparr>coPushRepo := coPushRepo (ceOpts E)\<rparr>\<rparr>"
  let ?h = "haPackageHash (htTarget t)"
  show ?thesis
  proof (cases "csImage q = []")
    case False
    with c q t obtain b where b: "compileWithImage E (csImage q) (htBuilder t) ?h kp True ?q True s2 = (Ok b, s')"
      and a: "a = with_source (htSolution t) ?h b"
      by (auto simp: compile_with_def Let_def assms(3) dest!: OkDs split: if_splits)
    have "has_image E ?h s'" by (rule compileWithImage_makes [OF b assms(2,4)]) (simp_all add: nv)
    moreover from False resolve_images_shape [OF q] have "\<not> (csImage p = [] \<and> \<not> csFinalImages p)" by auto
    ultimately show ?thesis by (auto simp: a with_source_def)
  next
    case True
    with c q t assms(5,6) obtain arts s3 b i where
      ds: "compile_dependencies E (c_compile m E kp) kp (\<not> coTargetOnly (ceOpts E)) ?q t (htDependencies t) s2 = (Ok arts, s3)"
      and b: "compileWithImage E i (htBuilder t) ?h kp True ?q True s3 = (Ok b, s')"
      and a: "a = with_source (htSolution t) ?h (with_dependencies arts b)"
      by (auto simp: compile_with_def Let_def assms(3) dest!: OkDs split: if_splits)
    have h: "has_image E ?h s'" by (rule compileWithImage_makes [OF b assms(2,4)]) (simp_all add: nv)
    have "has_image E (haPackageHash d) s'" if "d \<in> set (htDependencies t)" for d
    proof -
      from dependencies_make [OF assms(2-4) rec assms(7) ds] that have "has_image E (haPackageHash d) s3" by simp
      then have "has_image E (haPackageHash d) (snd (compileWithImage E i (htBuilder t) ?h kp True ?q True s3))"
        by (rule has_image_kept) (rule compileWithImage_present [OF assms(2)])
      with b show ?thesis by simp
    qed
    with h Query_parts [OF t] show ?thesis by (auto simp: a with_source_def)
  qed
qed

text \<open>Evaluated once the state is known, and not under the bindings of what comes before.\<close>

lemmas on_states [code] =
  FromPackage_def [where s = "\<lparr>stDb = d, stWorld = w\<rparr>" for d w]
  Query_def [where s = "\<lparr>stDb = d, stWorld = w\<rparr>" for d w]
  resolve_images_def [where s = "\<lparr>stDb = d, stWorld = w\<rparr>" for d w]
  GenerateChanges_def [where s = "\<lparr>stDb = d, stWorld = w\<rparr>" for d w]
  unpackDelta_def [where s = "\<lparr>stDb = d, stWorld = w\<rparr>" for d w]
  genArtifact_def [where s = "\<lparr>stDb = d, stWorld = w\<rparr>" for d w]
  buildPackageImage_def [where s = "\<lparr>stDb = d, stWorld = w\<rparr>" for d w]
  compileWithImage_def [where s = "\<lparr>stDb = d, stWorld = w\<rparr>" for d w]
  compile_with_def [where s = "\<lparr>stDb = d, stWorld = w\<rparr>" for d w]

definition foo_compiled :: "build_artifact outcome \<times> string list comp_state" where
  "foo_compiled = Compile 2 foo_bar_comp True foo_spec foo_bar_state"

lemma foo_compiled_ok: "case fst foo_compiled of Ok a \<Rightarrow> length (baaAssertion a) = 2 | _ \<Rightarrow> False"
  by code_simp

lemma foo_kept: "images_kept foo_bar_comp"
  by (simp add: images_kept_def keeps_images_def demo_comp_def)

lemma foo_not_virtual: "no_virtual foo_bar_comp"
proof -
  have "csSteps spec = [''make'']" if "FromPackage foo_bar_comp q s = (Ok spec, s')" for q s spec s'
    using that by (auto simp: FromPackage_def Let_def NewLuetCompilationSpec_def demo_comp_def foo_bar_specs_def plain_spec_def
        inheritSpecBuildOptions_def split: option.splits sum.splits prod.splits)
  then have "\<not> IsVirtual spec" if "FromPackage foo_bar_comp q s = (Ok spec, s')" for q s spec s'
    using that by (simp add: IsVirtual_def EmptyPackage_def)
  then show ?thesis by (simp add: no_virtual_def)
qed

theorem Compile_makes_images_witness:
  "\<exists>a s'. foo_compiled = (Ok a, s') \<and> length (baaAssertion a) = 2 \<and>
     (\<forall>h\<in>set (baaAssertion a). has_image foo_bar_comp (haPackageHash h) s')"
proof -
  obtain a s' where a: "foo_compiled = (Ok a, s')" "length (baaAssertion a) = 2"
    using outcome_OkD [OF foo_compiled_ok] by (elim exE conjE) (metis prod.collapse)
  have c: "Compile 2 foo_bar_comp True foo_spec foo_bar_state = (Ok a, s')" using a(1) unfolding foo_compiled_def .
  have s: "\<not> IsVirtual foo_spec" "csImage foo_spec = []" "\<not> csFinalImages foo_spec"
    by (simp_all add: foo_spec_def plain_spec_def IsVirtual_def EmptyPackage_def)
  have o: "coKeepImg (ceOpts foo_bar_comp)" "\<not> coPullFirst (ceOpts foo_bar_comp)" "\<not> coNoDeps (ceOpts foo_bar_comp)"
    "\<not> coOnlyDeps (ceOpts foo_bar_comp)"
    by (simp_all add: demo_comp_def NewDefaultCompiler_def no_comp_opts_def)
  from Compile_makes_images [OF c foo_kept o foo_not_virtual s(1)] s(2,3)
  have "\<forall>h\<in>set (baaAssertion a). has_image foo_bar_comp (haPackageHash h) s'" by blast
  with a show ?thesis by blast
qed

section \<open>A package that copies from itself\<close>

definition copies_from :: "default_package \<Rightarrow> comp_spec \<Rightarrow> bool" where
  "copies_from q p \<longleftrightarrow> \<not> csFinalImages p \<and> (\<exists>c cs. csCopy p = c # cs \<and> cfPackage c = Some q)"

text \<open>
  C35: A package whose first copy is of its own files is compiled for ever: the compilation of the copied
  package asks again for that of the same package, and no depth of calls is enough.
\<close>

theorem Compile_self_copy:
  assumes "FromPackage E q s = (Ok spec, s)" "named q" "copies_from q spec" "copies_from q p"
  shows "fst (Compile n E kp p s) = Fuel"
proof -
  have "copies_from q p \<Longrightarrow> fst (c_compile n E kp f d p s) = Fuel" for f d p
  proof (induction n arbitrary: f d p)
    case (Suc n)
    from Suc.prems obtain c cs where c: "csCopy p = c # cs" "cfPackage c = Some q" "\<not> csFinalImages p"
      by (auto simp: copies_from_def)
    have "copies_from q (SetOutputPath out spec)" for out using assms(3) by (simp add: copies_from_def SetOutputPath_def)
    from Suc.IH [OF this] obtain u where
      "c_compile n E kp (Some (\<not> coTargetOnly (ceOpts E))) (Some (\<not> coTargetOnly (ceOpts E))) (SetOutputPath (csOutputPath p) spec) s = (Fuel, u)"
      by (metis prod.collapse)
    with assms(1,2) c show ?case
      by (simp add: compile_with_def resolve_images_def resolveFinalImages_def resolveMultiStageImages_def wrap_err_def)
  qed simp
  with assms(4) show ?thesis by (simp add: Compile_def)
qed

definition self_copy :: comp_spec where
  "self_copy = (plain_spec ''alpine'')\<lparr>csPackage := foo_bar ! 1,
     csCopy := [\<lparr>cfPackage = Some (foo_bar ! 1), cfImage = [], cfSource = ''/a'', cfDestination = ''/b''\<rparr>]\<rparr>"

abbreviation self_comp :: "string list comp_env" where
  "self_comp \<equiv> demo_comp (table_config foo_bar) (NewDefaultCompiler 2) (\<lambda>b. Inr self_copy)"

definition self_state :: "string list comp_state" where
  "self_state = snd (FromPackage self_comp (foo_bar ! 1) foo_bar_state)"

lemma self_spec: "case FromPackage self_comp (foo_bar ! 1) self_state of (Ok q, s) \<Rightarrow> s = self_state \<and> csCopy q = csCopy self_copy \<and> \<not> csFinalImages q | _ \<Rightarrow> False"
  by code_simp

theorem Compile_self_copy_witness: "fst (Compile 1000 self_comp True self_copy self_state) = Fuel"
proof -
  obtain spec where spec: "FromPackage self_comp (foo_bar ! 1) self_state = (Ok spec, self_state)"
    "csCopy spec = csCopy self_copy" "\<not> csFinalImages spec"
    using self_spec by (auto split: prod.splits outcome.splits)
  have "named (foo_bar ! 1)" by code_simp
  moreover have "copies_from (foo_bar ! 1) spec" "copies_from (foo_bar ! 1) self_copy"
    using spec(2,3) by (auto simp: copies_from_def self_copy_def plain_spec_def)
  ultimately show ?thesis by (rule Compile_self_copy [OF spec(1)])
qed

section \<open>The changes between two images\<close>

text \<open>The size of what a tree has at a path, and the files that a walk of it finds.\<close>

definition tree_size :: "'w comp_env \<Rightarrow> string \<Rightarrow> 'w \<Rightarrow> string \<Rightarrow> nat option" where
  "tree_size E root w r = ceLstat E (PathJoin [root, r]) w"

definition rel_files :: "string \<Rightarrow> (string \<times> bool) list \<Rightarrow> string list" where
  "rel_files root files = map (\<lambda>(f, d). without f root) (filter (\<lambda>(f, d). \<not> d) files)"

text \<open>A walk finds files that are there, with clean names below the root.\<close>

definition walks_ok :: "'w comp_env \<Rightarrow> bool" where
  "walks_ok E \<longleftrightarrow> (\<forall>root w files. ceWalk E root w = Inr files \<longrightarrow>
     (\<forall>r\<in>set (rel_files root files). PathJoin [''/'', r] = r \<and> tree_size E root w r \<noteq> None))"

text \<open>The sizes after the changes of a layer.\<close>

definition apply_layer :: "artifact_layer \<Rightarrow> (string \<Rightarrow> nat option) \<Rightarrow> string \<Rightarrow> nat option" where
  "apply_layer l sizes r =
     (case find (\<lambda>x. anName x = r) (alAdditions l @ alChanges l) of
        Some x \<Rightarrow> Some (anSize x)
      | None \<Rightarrow> if r \<in> anName ` set (alDeletions l) then None else sizes r)"

definition the_size :: "nat option \<Rightarrow> nat" where
  "the_size n = (case n of Some k \<Rightarrow> k | None \<Rightarrow> 0)"

lemma nodes_of_files:
  "changed_nodes E src dst w files = map (\<lambda>r. \<lparr>anName = PathJoin [''/'', r], anSize = the_size (tree_size E dst w r)\<rparr>)
     (filter (\<lambda>r. tree_size E src w r \<noteq> None \<and> the_size (tree_size E src w r) \<noteq> the_size (tree_size E dst w r)) (rel_files dst files))"
  "added_nodes E src dst w files = map (\<lambda>r. \<lparr>anName = PathJoin [''/'', r], anSize = the_size (tree_size E dst w r)\<rparr>)
     (filter (\<lambda>r. tree_size E src w r = None) (rel_files dst files))"
  "deleted_nodes E src dst w files = map (\<lambda>r. \<lparr>anName = PathJoin [''/'', r], anSize = 0\<rparr>)
     (filter (\<lambda>r. tree_size E dst w r = None) (rel_files src files))"
  unfolding changed_nodes_def added_nodes_def deleted_nodes_def rel_files_def tree_size_def the_size_def
  by (auto intro!: map_cong filter_cong split: option.splits)

lemma names_of_nodes: "anName ` set (map (\<lambda>r. \<lparr>anName = r, anSize = f r\<rparr>) rs) = set rs"
  by force

lemma find_named: "find (\<lambda>x. anName x = r) (map (\<lambda>r. \<lparr>anName = r, anSize = f r\<rparr>) rs) =
    (if r \<in> set rs then Some \<lparr>anName = r, anSize = f r\<rparr> else None)"
  by (induction rs) auto

lemma walk_files: "walks_ok E \<Longrightarrow> ceWalk E root w = Inr files \<Longrightarrow> r \<in> set (rel_files root files) \<Longrightarrow>
   PathJoin [''/'', r] = r \<and> (\<exists>n. tree_size E root w r = Some n)"
  unfolding walks_ok_def by blast

lemma layer_applied:
  assumes "walks_ok E" "ceWalk E dst w = Inr dsts" "ceWalk E src w = Inr srcs"
    "l = \<lparr>alFrom = a, alTo = b, alAdditions = added_nodes E src dst w dsts, alDeletions = deleted_nodes E src dst w srcs,
          alChanges = changed_nodes E src dst w dsts\<rparr>"
    "r \<in> set (rel_files dst dsts) \<or> r \<in> set (rel_files src srcs) \<and> tree_size E dst w r = None"
  shows "apply_layer l (tree_size E src w) r = tree_size E dst w r"
proof -
  let ?D = "rel_files dst dsts" and ?S = "rel_files src srcs"
  note dst = walk_files [OF assms(1,2)] and src = walk_files [OF assms(1,3)]
  let ?new = "filter (\<lambda>r. tree_size E src w r = None) ?D"
  let ?chg = "filter (\<lambda>r. tree_size E src w r \<noteq> None \<and> the_size (tree_size E src w r) \<noteq> the_size (tree_size E dst w r)) ?D"
  have names: "map (\<lambda>r. \<lparr>anName = PathJoin [''/'', r], anSize = f r\<rparr>) xs = map (\<lambda>r. \<lparr>anName = r, anSize = f r\<rparr>) xs"
    if "\<forall>x\<in>set xs. PathJoin [''/'', x] = x" for f xs
    using that by auto
  have add: "added_nodes E src dst w dsts = map (\<lambda>r. \<lparr>anName = r, anSize = the_size (tree_size E dst w r)\<rparr>) ?new"
    unfolding nodes_of_files by (rule names) (auto dest: dst)
  have chg: "changed_nodes E src dst w dsts = map (\<lambda>r. \<lparr>anName = r, anSize = the_size (tree_size E dst w r)\<rparr>) ?chg"
    unfolding nodes_of_files by (rule names) (auto dest: dst)
  have del: "deleted_nodes E src dst w srcs = map (\<lambda>r. \<lparr>anName = r, anSize = 0\<rparr>) (filter (\<lambda>r. tree_size E dst w r = None) ?S)"
    unfolding nodes_of_files by (rule names) (auto dest: src)
  have "alAdditions l @ alChanges l = map (\<lambda>r. \<lparr>anName = r, anSize = the_size (tree_size E dst w r)\<rparr>) (?new @ ?chg)"
    unfolding assms(4) by (simp add: add chg)
  then have "find (\<lambda>x. anName x = r) (alAdditions l @ alChanges l) =
    (if r \<in> set (?new @ ?chg) then Some \<lparr>anName = r, anSize = the_size (tree_size E dst w r)\<rparr> else None)"
    by (simp only: find_named)
  moreover have "anName ` set (alDeletions l) = {r \<in> set ?S. tree_size E dst w r = None}"
    unfolding assms(4) by (simp only: artifact_layer.simps del names_of_nodes set_filter)
  ultimately show ?thesis using assms(5) dst [of r]
    by (auto simp: apply_layer_def the_size_def split: option.splits)
qed

text \<open>The root filesystem of an image is put in a directory.\<close>

definition extracted :: "'w comp_env \<Rightarrow> image_opts \<Rightarrow> string \<Rightarrow> 'w \<Rightarrow> 'w \<Rightarrow> bool" where
  "extracted E i dir w w' \<longleftrightarrow>
     ceExtract E (no_image_opts\<lparr>ioImage := ioImage i, ioDestination := dir\<rparr>) False w = (None, w')"

lemma GenerateChanges_parts:
  assumes "GenerateChanges E fromImage toImage s = (Ok ls, s')"
  shows "\<exists>src dst w0 w1 w srcs dsts. extracted E fromImage src w0 w1 \<and> extracted E toImage dst w1 w \<and>
    ceWalk E src w = Inr srcs \<and> ceWalk E dst w = Inr dsts \<and>
    ls = [\<lparr>alFrom = ioImage fromImage, alTo = ioImage toImage, alAdditions = added_nodes E src dst w dsts,
      alDeletions = deleted_nodes E src dst w srcs, alChanges = changed_nodes E src dst w dsts\<rparr>]"
proof -
  from assms obtain src dst s0 s1 s2 srcs dsts where
    walks: "ceWalk E src (stWorld s2) = Inr srcs" "ceWalk E dst (stWorld s2) = Inr dsts"
    and calls: "on_world (ceExtract E (no_image_opts\<lparr>ioImage := ioImage fromImage, ioDestination := src\<rparr>) False) s0 = (None, s1)"
      "on_world (ceExtract E (no_image_opts\<lparr>ioImage := ioImage toImage, ioDestination := dst\<rparr>) False) s1 = (None, s2)"
    and ls: "ls = [\<lparr>alFrom = ioImage fromImage, alTo = ioImage toImage, alAdditions = added_nodes E src dst (stWorld s2) dsts,
      alDeletions = deleted_nodes E src dst (stWorld s2) srcs, alChanges = changed_nodes E src dst (stWorld s2) dsts\<rparr>]"
    by (auto simp: GenerateChanges_def Let_def dest!: OkDs split: sum.splits)
  from calls have "extracted E fromImage src (stWorld s0) (stWorld s1)" "extracted E toImage dst (stWorld s1) (stWorld s2)"
    by (auto simp: extracted_def on_world_def split: prod.splits)
  with walks ls show ?thesis by blast
qed

text \<open>
  C34: The changes between two images are complete, as far as sizes go: applied to the sizes of the files of
  the source image they give those of the destination, for every file the destination has and every file of
  the source that has gone.
\<close>

theorem GenerateChanges_complete:
  assumes "GenerateChanges E fromImage toImage s = (Ok ls, s')" "walks_ok E"
  shows "\<exists>l src dst w0 w1 w srcs dsts. ls = [l] \<and> extracted E fromImage src w0 w1 \<and> extracted E toImage dst w1 w \<and>
    ceWalk E src w = Inr srcs \<and> ceWalk E dst w = Inr dsts \<and>
    (\<forall>r. r \<in> set (rel_files dst dsts) \<or> r \<in> set (rel_files src srcs) \<and> tree_size E dst w r = None \<longrightarrow>
       apply_layer l (tree_size E src w) r = tree_size E dst w r)"
proof -
  from GenerateChanges_parts [OF assms(1)] obtain src dst w0 w1 w srcs dsts where
    x: "extracted E fromImage src w0 w1" "extracted E toImage dst w1 w"
    and walks: "ceWalk E dst w = Inr dsts" "ceWalk E src w = Inr srcs"
    and ls: "ls = [\<lparr>alFrom = ioImage fromImage, alTo = ioImage toImage, alAdditions = added_nodes E src dst w dsts,
      alDeletions = deleted_nodes E src dst w srcs, alChanges = changed_nodes E src dst w dsts\<rparr>]" (is "ls = [?l]")
    by (elim exE conjE) (rule that)
  have "apply_layer ?l (tree_size E src w) r = tree_size E dst w r"
    if "r \<in> set (rel_files dst dsts) \<or> r \<in> set (rel_files src srcs) \<and> tree_size E dst w r = None" for r
    by (rule layer_applied [OF assms(2) walks refl that])
  with x walks ls show ?thesis by blast
qed

text \<open>A tree of three files and one with the first of them, the second in another size, and a new one.\<close>

definition tree_comp :: "string list comp_env" where
  "tree_comp = foo_bar_comp
     \<lparr>ceWalk := (\<lambda>d w. Inr (if d = ''extraction/src''
          then [(''extraction/src'', True), (''extraction/src/a'', False), (''extraction/src/b'', False), (''extraction/src/c'', False)]
          else if d = ''extraction/dst''
          then [(''extraction/dst'', True), (''extraction/dst/a'', False), (''extraction/dst/b'', False), (''extraction/dst/d'', False)]
          else [])),
      ceLstat := (\<lambda>f w. map_of [(''extraction/src/a'', 1), (''extraction/src/b'', 2), (''extraction/src/c'', 3),
          (''extraction/dst/a'', 1), (''extraction/dst/b'', 4), (''extraction/dst/d'', 5)] f)\<rparr>"

definition tree_changes :: "artifact_layer list outcome \<times> string list comp_state" where
  "tree_changes = GenerateChanges tree_comp no_image_opts no_image_opts foo_bar_state"

lemma tree_changes_ok:
  "case fst tree_changes of
     Ok ls \<Rightarrow> ls = [\<lparr>alFrom = [], alTo = [], alAdditions = [\<lparr>anName = ''/d'', anSize = 5\<rparr>],
       alDeletions = [\<lparr>anName = ''/c'', anSize = 0\<rparr>], alChanges = [\<lparr>anName = ''/b'', anSize = 4\<rparr>]\<rparr>] | _ \<Rightarrow> False"
  by code_simp

lemma tree_roots: "ceWalk tree_comp root w = Inr fs \<Longrightarrow> fs \<noteq> [] \<Longrightarrow> root \<in> set [''extraction/src'', ''extraction/dst'']"
  by (auto simp: tree_comp_def split: if_splits)

lemma tree_walks: "list_all (\<lambda>root. case ceWalk tree_comp root [] of Inl e \<Rightarrow> False | Inr fs \<Rightarrow>
    list_all (\<lambda>r. PathJoin [''/'', r] = r \<and> tree_size tree_comp root [] r \<noteq> None) (rel_files root fs))
  [''extraction/src'', ''extraction/dst'']"
  by code_simp


lemma tree_walks_ok: "walks_ok tree_comp"
proof -
  have "ceWalk tree_comp root w = ceWalk tree_comp root []" "tree_size tree_comp root w r = tree_size tree_comp root [] r" for root w r
    by (simp_all add: tree_comp_def tree_size_def)
  note same = this
  show ?thesis unfolding walks_ok_def
  proof (intro allI impI ballI)
    fix root w fs r
    assume fs: "ceWalk tree_comp root w = Inr fs" and r: "r \<in> set (rel_files root fs)"
    then have "root \<in> set [''extraction/src'', ''extraction/dst'']"
      by (intro tree_roots [OF fs]) (auto simp: rel_files_def)
    with tree_walks have w: "case ceWalk tree_comp root [] of Inl e \<Rightarrow> False | Inr fs \<Rightarrow>
        list_all (\<lambda>r. PathJoin [''/'', r] = r \<and> tree_size tree_comp root [] r \<noteq> None) (rel_files root fs)"
      unfolding list_all_iff by blast
    have "ceWalk tree_comp root [] = Inr fs" using fs same(1) by metis
    with w r show "PathJoin [''/'', r] = r \<and> tree_size tree_comp root w r \<noteq> None"
      unfolding same(2) [of root w] by (auto simp: list_all_iff)
  qed
qed

theorem GenerateChanges_complete_witness:
  "\<exists>l src dst w dsts. fst tree_changes = Ok [l] \<and> map anName (alAdditions l) = [''/d''] \<and>
     extracted tree_comp no_image_opts dst w w \<and> ceWalk tree_comp dst w = Inr dsts \<and>
     list_all (\<lambda>r. apply_layer l (tree_size tree_comp src w) r = tree_size tree_comp dst w r) (rel_files dst dsts)"
proof -
  obtain ls where ls: "fst tree_changes = Ok ls" "ls = [\<lparr>alFrom = [], alTo = [], alAdditions = [\<lparr>anName = ''/d'', anSize = 5\<rparr>],
       alDeletions = [\<lparr>anName = ''/c'', anSize = 0\<rparr>], alChanges = [\<lparr>anName = ''/b'', anSize = 4\<rparr>]\<rparr>]"
    using outcome_OkD [OF tree_changes_ok] by (elim exE conjE) (rule that)
  then have run: "GenerateChanges tree_comp no_image_opts no_image_opts foo_bar_state = (Ok ls, snd tree_changes)"
    unfolding tree_changes_def by (metis prod.collapse)
  have idle: "extracted tree_comp i d w w' \<Longrightarrow> w' = w" for i d w w'
    by (simp add: extracted_def tree_comp_def demo_comp_def)
  from GenerateChanges_complete [OF run tree_walks_ok] obtain l src dst w0 w1 w srcs dsts where
    l: "ls = [l]" "extracted tree_comp no_image_opts dst w1 w" "ceWalk tree_comp dst w = Inr dsts"
    "\<forall>r. r \<in> set (rel_files dst dsts) \<or> r \<in> set (rel_files src srcs) \<and> tree_size tree_comp dst w r = None \<longrightarrow>
       apply_layer l (tree_size tree_comp src w) r = tree_size tree_comp dst w r" by (elim exE conjE) (rule that)
  from l(2) idle [OF l(2)] have "extracted tree_comp no_image_opts dst w w" by simp
  moreover have "list_all (\<lambda>r. apply_layer l (tree_size tree_comp src w) r = tree_size tree_comp dst w r) (rel_files dst dsts)"
    unfolding list_all_iff using l(4) by blast
  moreover have "map anName (alAdditions l) = [''/d'']" using l(1) ls(2) by auto
  moreover have "fst tree_changes = Ok [l]" using ls(1) l(1) by simp
  ultimately show ?thesis using l(3)
    by - (rule exI [where x = l], rule exI [where x = src], rule exI [where x = dst], rule exI [where x = w],
        rule exI [where x = dsts], intro conjI)
qed

section \<open>The files of a delta\<close>

definition matched :: "rx \<Rightarrow> string list \<Rightarrow> string \<Rightarrow> bool" where
  "matched R rs a \<longleftrightarrow> (\<exists>r\<in>set rs. \<exists>m. R r = Some m \<and> m a)"

lemma list_ex_regexes: "list_ex (\<lambda>i. i a) (compileRegexes R rs) \<longleftrightarrow> matched R rs a"
  by (force simp: compileRegexes_def List.map_filter_def list_ex_iff matched_def)

lemma keep_addition_iff: "keep_addition R is es a \<longleftrightarrow> (is = [] \<or> matched R is a) \<and> \<not> matched R es a"
  by (auto simp: keep_addition_def list_ex_regexes) (simp_all add: matched_def)

lemma copy_jobs_iff: "r \<in> cjArtifact ` set (copy_jobs R src archive ls is es) \<longleftrightarrow>
    r \<in> anName ` (\<Union>l\<in>set ls. set (alAdditions l)) \<and> (is = [] \<or> matched R is r) \<and> \<not> matched R es r"
  by (auto simp: copy_jobs_def keep_addition_iff image_iff)

lemma added_names: 
  assumes "walks_ok E" "ceWalk E dst w = Inr dsts"
  shows "anName ` set (added_nodes E src dst w dsts) = {r \<in> set (rel_files dst dsts). tree_size E src w r = None}"
proof -
  have "PathJoin [''/'', r] = r" if "r \<in> set (rel_files dst dsts)" for r
    using walk_files [OF assms that] by simp
  then have "anName ` set (added_nodes E src dst w dsts) = (\<lambda>r. r) ` {r \<in> set (rel_files dst dsts). tree_size E src w r = None}"
    unfolding nodes_of_files by (simp add: image_image)
  then show ?thesis by simp
qed

text \<open>
  The files packed of the changes between two images are those the destination has and the source has
  not, that match one of the included patterns, if there are any, and none of the excluded ones; a file
  that is only changed is not packed.
\<close>

theorem delta_packs_additions:
  assumes "GenerateChanges E fromImage toImage s = (Ok ls, s')" "walks_ok E"
  shows "\<exists>src dst w0 w1 w dsts. extracted E fromImage src w0 w1 \<and> extracted E toImage dst w1 w \<and> ceWalk E dst w = Inr dsts \<and>
    (\<forall>R a b is es r. r \<in> cjArtifact ` set (copy_jobs R a b ls is es) \<longleftrightarrow>
       r \<in> set (rel_files dst dsts) \<and> tree_size E src w r = None \<and> (is = [] \<or> matched R is r) \<and> \<not> matched R es r)"
proof -
  from GenerateChanges_parts [OF assms(1)] obtain src dst w0 w1 w srcs dsts where
    x: "extracted E fromImage src w0 w1" "extracted E toImage dst w1 w" "ceWalk E dst w = Inr dsts"
    and ls: "ls = [\<lparr>alFrom = ioImage fromImage, alTo = ioImage toImage, alAdditions = added_nodes E src dst w dsts,
      alDeletions = deleted_nodes E src dst w srcs, alChanges = changed_nodes E src dst w dsts\<rparr>]"
    by (elim exE conjE) (rule that)
  have "anName ` (\<Union>l\<in>set ls. set (alAdditions l)) = {r \<in> set (rel_files dst dsts). tree_size E src w r = None}"
    unfolding ls using added_names [OF assms(2) x(3)] by simp
  then have j: "r \<in> cjArtifact ` set (copy_jobs R a b ls is es) \<longleftrightarrow>
       r \<in> set (rel_files dst dsts) \<and> tree_size E src w r = None \<and> (is = [] \<or> matched R is r) \<and> \<not> matched R es r"
    for R a b "is" es r
    unfolding copy_jobs_iff by simp
  show ?thesis
    by (rule exI [where x = src], rule exI [where x = dst], rule exI [where x = w0], rule exI [where x = w1],
        rule exI [where x = w], rule exI [where x = dsts]) (intro conjI allI x j)
qed

theorem delta_packs_additions_witness:
  "\<exists>ls src dst w dsts. fst tree_changes = Ok ls \<and> extracted tree_comp no_image_opts dst w w \<and> ceWalk tree_comp dst w = Inr dsts \<and>
     cjArtifact ` set (copy_jobs (\<lambda>p. Some ((=) p)) ''a'' ''b'' ls [] []) =
       {r \<in> set (rel_files dst dsts). tree_size tree_comp src w r = None}"
proof -
  obtain ls where "fst tree_changes = Ok ls" using outcome_OkD [OF tree_changes_ok] by (elim exE conjE) (rule that)
  then have run: "GenerateChanges tree_comp no_image_opts no_image_opts foo_bar_state = (Ok ls, snd tree_changes)"
    unfolding tree_changes_def by (metis prod.collapse)
  have idle: "extracted tree_comp i d w w' \<Longrightarrow> w' = w" for i d w w'
    by (simp add: extracted_def tree_comp_def demo_comp_def)
  from delta_packs_additions [OF run tree_walks_ok] obtain src dst w0 w1 w dsts where
    d: "extracted tree_comp no_image_opts dst w1 w" "ceWalk tree_comp dst w = Inr dsts"
    "\<forall>R a b is es r. r \<in> cjArtifact ` set (copy_jobs R a b ls is es) \<longleftrightarrow>
       r \<in> set (rel_files dst dsts) \<and> tree_size tree_comp src w r = None \<and> (is = [] \<or> matched R is r) \<and> \<not> matched R es r"
    by (elim exE conjE) (rule that)
  have "extracted tree_comp no_image_opts dst w w" using d(1) idle [OF d(1)] by simp
  moreover have "cjArtifact ` set (copy_jobs (\<lambda>p. Some ((=) p)) ''a'' ''b'' ls [] []) =
       {r \<in> set (rel_files dst dsts). tree_size tree_comp src w r = None}"
    using d(3) by (simp add: set_eq_iff matched_def)
  ultimately show ?thesis using \<open>fst tree_changes = Ok ls\<close> d(2) by blast
qed

end
