(* ===== verification/Subsets.thy ===== *)
theory Subsets
  imports Installer
begin

text \<open>
  Subsets of the files of a package: their configuration (\<open>pkg/config/subsets.go\<close>), the load of the
  definitions and of the subsets enabled (\<open>pkg/subsets/subsets.go\<close>), and the patterns that an archive is
  unpacked without (\<open>pkg/v2/compiler/types/artifact/subsets.go\<close>).

  The code keeps the definitions by pointer and appends rules through it, so that the definitions are kept
  in a store, the list \<open>suHeap\<close>, and the maps have their positions in it.
\<close>

section \<open>Definitions and configuration\<close>

record subset_def =
  sdDescription :: string
  sdName :: string
  sdRules :: "string list"
  sdPackages :: "string list"
  sdCategories :: "string list"

text \<open>The enabled subsets; the definitions for every package; those of some packages and of some categories.\<close>

record subset_conf =
  suEnabled :: "string list"
  suHeap :: "subset_def list"
  suDefs :: "nat gomap"
  suPkgs :: "nat gomap gomap"
  suCats :: "nat gomap gomap"

definition no_subsets :: subset_conf where
  "no_subsets = \<lparr>suEnabled = [], suHeap = [], suDefs = [], suPkgs = [], suCats = []\<rparr>"

definition HasSubset :: "string \<Rightarrow> subset_conf \<Rightarrow> bool" where
  "HasSubset s c = list_ex (\<lambda>e. e = s) (suEnabled c)"

definition AddSubset :: "string \<Rightarrow> subset_conf \<Rightarrow> subset_conf" where
  "AddSubset s c = c\<lparr>suEnabled := suEnabled c @ [s]\<rparr>"

definition DelSubset :: "string \<Rightarrow> subset_conf \<Rightarrow> subset_conf" where
  "DelSubset s c = c\<lparr>suEnabled := filter (\<lambda>e. e \<noteq> s) (suEnabled c)\<rparr>"

section \<open>The load of the definitions\<close>

text \<open>
  The definition at \<open>a\<close> for the package or category \<open>p\<close>: its rules are appended to those of the definition
  there is of the same name, wherever else that one is used.
\<close>

definition add_named ::
    "nat \<Rightarrow> string \<Rightarrow> subset_def list \<times> nat gomap gomap \<Rightarrow> subset_def list \<times> nat gomap gomap" where
  "add_named a p hm =
     (case hm of (h, m) \<Rightarrow>
        let v = h ! a
        in case gm_get m p of
             Some defs \<Rightarrow>
               (case gm_get defs (sdName v) of
                  Some b \<Rightarrow> (h[b := (h ! b)\<lparr>sdRules := sdRules (h ! b) @ sdRules v\<rparr>], m)
                | None \<Rightarrow> (h, gm_set p (gm_set (sdName v) a defs) m))
           | None \<Rightarrow> (h, gm_set p [(sdName v, a)] m))"

definition merge_one :: "string \<times> nat \<Rightarrow> subset_conf \<Rightarrow> subset_conf" where
  "merge_one ka c =
     (case ka of (k, a) \<Rightarrow>
        let v = suHeap c ! a
        in if length (sdPackages v) = 0 \<and> length (sdCategories v) = 0 then c\<lparr>suDefs := gm_set k a (suDefs c)\<rparr>
           else
             (let (h, pkgs) = fold (add_named a) (sdPackages v) (suHeap c, suPkgs c);
                  (h, cats) = fold (add_named a) (sdCategories v) (h, suCats c)
              in c\<lparr>suHeap := h, suPkgs := pkgs, suCats := cats\<rparr>))"

definition mergeSubsetsDefinition :: "(string list \<Rightarrow> string list) \<Rightarrow> nat gomap \<Rightarrow> subset_conf \<Rightarrow> subset_conf" where
  "mergeSubsetsDefinition it s c = fold merge_one (gm_range it s) c"

text \<open>The definitions of a file, new in the store; a definition without a value is a nil pointer.\<close>

definition load_defs ::
    "(string list \<Rightarrow> string list) \<Rightarrow> subset_def option gomap \<Rightarrow> subset_conf \<Rightarrow> subset_conf panics" where
  "load_defs it defs c =
     (if list_ex (\<lambda>(k, v). v = None) defs then Panics ''invalid memory address or nil pointer dereference''
      else Returns (mergeSubsetsDefinition it (zip (map fst defs) [length (suHeap c) ..< length (suHeap c) + length defs])
             (c\<lparr>suHeap := suHeap c @ map (\<lambda>(k, v). the v) defs\<rparr>)))"

text \<open>
  An entry of a directory: its name, whether it is a directory, and its contents read and decoded.  What
  cannot be read or decoded is skipped.
\<close>

record 'a conf_entry =
  ceName :: string
  ceIsDir :: bool
  ceContent :: "'a res"

fun load_files :: "('a \<Rightarrow> 's \<Rightarrow> 's panics) \<Rightarrow> 'a conf_entry list \<Rightarrow> 's \<Rightarrow> 's panics" where
  "load_files f [] c = Returns c"
| "load_files f (e # es) c =
     (if ceIsDir e \<or> \<not> yaml_name (ceName e) then load_files f es c
      else case ceContent e of
             Inl err \<Rightarrow> load_files f es c
           | Inr a \<Rightarrow> (case f a c of Panics m \<Rightarrow> Panics m | Returns c \<Rightarrow> load_files f es c))"

fun load_dirs_of ::
    "('a \<Rightarrow> 's \<Rightarrow> 's panics) \<Rightarrow> (string \<Rightarrow> 'a conf_entry list res) \<Rightarrow> string \<Rightarrow> string list \<Rightarrow> 's \<Rightarrow> 's panics" where
  "load_dirs_of f readdir root [] c = Returns c"
| "load_dirs_of f readdir root (d # ds) c =
     (case readdir (PathJoin [root, d]) of
        Inl e \<Rightarrow> load_dirs_of f readdir root ds c
      | Inr es \<Rightarrow> (case load_files f es c of Panics m \<Rightarrow> Panics m | Returns c \<Rightarrow> load_dirs_of f readdir root ds c))"

text \<open>\<open>absRoot\<close> is the absolute path of the rootfs, read unless the configuration is that of the host.\<close>

definition LoadSubsetsDefintions ::
    "(string list \<Rightarrow> string list) \<Rightarrow> (string \<Rightarrow> subset_def option gomap conf_entry list res) \<Rightarrow> bool \<Rightarrow> string res \<Rightarrow>
     string list \<Rightarrow> subset_conf \<Rightarrow> subset_conf res panics" where
  "LoadSubsetsDefintions it readdir fromHost absRoot dirs c =
     (case if fromHost then Inr [] else absRoot of
        Inl e \<Rightarrow> Returns (Inl e)
      | Inr root \<Rightarrow>
          (case load_dirs_of (\<lambda>defs c. if length defs = 0 then Returns c else load_defs it defs c) readdir root dirs c of
             Panics m \<Rightarrow> Panics m | Returns c \<Rightarrow> Returns (Inr c)))"

fun enable_all :: "string list \<Rightarrow> string list \<Rightarrow> string list" where
  "enable_all [] on = on"
| "enable_all (e # es) on = enable_all es (if ContainsElem on e then on else on @ [e])"

definition LoadSubsetsConfig ::
    "(string \<Rightarrow> string list conf_entry list res) \<Rightarrow> bool \<Rightarrow> string res \<Rightarrow> string list \<Rightarrow> subset_conf \<Rightarrow>
     subset_conf res panics" where
  "LoadSubsetsConfig readdir fromHost absRoot dirs c =
     (case if fromHost then Inr [] else absRoot of
        Inl e \<Rightarrow> Returns (Inl e)
      | Inr root \<Rightarrow>
          (case load_dirs_of (\<lambda>es c. Returns (if length es = 0 then c else c\<lparr>suEnabled := enable_all es (suEnabled c)\<rparr>))
                  readdir root dirs c of
             Panics m \<Rightarrow> Panics m | Returns c \<Rightarrow> Returns (Inr c)))"

section \<open>The subsets of an artifact\<close>

text \<open>\<open>r.(string)\<close> panics on anything else.\<close>

fun rules_of :: "ival list \<Rightarrow> string list panics" where
  "rules_of [] = Returns []"
| "rules_of (r # rs) =
     (case r of
        IStr s \<Rightarrow> (case rules_of rs of Panics e \<Rightarrow> Panics e | Returns ss \<Rightarrow> Returns (s # ss))
      | _ \<Rightarrow> Panics ''interface conversion: interface {} is not string'')"

definition plain_def :: "string \<Rightarrow> string list \<Rightarrow> subset_def" where
  "plain_def k rules = \<lparr>sdDescription = [], sdName = k, sdRules = rules, sdPackages = [], sdCategories = []\<rparr>"

fun rules_map :: "(string \<times> ival) list \<Rightarrow> subset_def gomap \<Rightarrow> subset_def gomap panics" where
  "rules_map [] ans = Returns ans"
| "rules_map ((k, v) # kvs) ans =
     (case v of
        IList rs \<Rightarrow>
          (case rules_of rs of
             Panics e \<Rightarrow> Panics e
           | Returns ss \<Rightarrow> rules_map kvs (gm_set k (plain_def k ss) ans))
      | _ \<Rightarrow> rules_map kvs ans)"

definition unmarshalSubsets :: "ival option \<Rightarrow> subset_def gomap panics" where
  "unmarshalSubsets subsets =
     (case subsets of
        Some (IMap obj) \<Rightarrow> (case gm_get obj ''rules'' of Some (IMap mrules) \<Rightarrow> rules_map mrules [] | _ \<Rightarrow> Returns [])
      | _ \<Rightarrow> Returns [])"

text \<open>Those of the annotation, and over them those for the package, or else those for its category.\<close>

definition override :: "subset_def list \<Rightarrow> nat gomap \<Rightarrow> subset_def gomap \<Rightarrow> subset_def gomap" where
  "override h defs ans = fold (\<lambda>(k, a). gm_set k (h ! a)) defs ans"

definition GetSubsets :: "subset_conf \<Rightarrow> artifact \<Rightarrow> subset_def gomap panics" where
  "GetSubsets c a =
     (case aRuntime a of
        None \<Rightarrow> Returns []
      | Some r \<Rightarrow>
          (case if HasAnnotation r ''subsets'' then unmarshalSubsets (GetAnnotationByKey r ''subsets'') else Returns [] of
             Panics e \<Rightarrow> Panics e
           | Returns ans \<Rightarrow>
               Returns (case gm_get (suPkgs c) (PackageName r) of
                          Some defs \<Rightarrow> override (suHeap c) defs ans
                        | None \<Rightarrow>
                            (case gm_get (suCats c) (Category (pkg_data r)) of
                               Some defs \<Rightarrow> override (suHeap c) defs ans | None \<Rightarrow> ans))))"

text \<open>The flags of the archiver, taken from the configuration as they are, and the patterns to leave out.\<close>

record tar_spec =
  tsSameOwner :: bool
  tsEnableMutex :: bool
  tsMaxOpenFiles :: int
  tsBufferSize :: int
  tsValidate :: bool
  tsOverwritePerms :: bool
  tsIgnoreRegexes :: "string list"
  tsIgnoreFiles :: "string list"
  tsTriggeredFiles :: "string list"

definition ignored_rules :: "string list \<Rightarrow> (string \<times> subset_def) list \<Rightarrow> string list" where
  "ignored_rules enabled defs = concat (map (\<lambda>(k, v). if \<not> ContainsElem enabled k then sdRules v else []) defs)"

definition GetTarFormersSpec ::
    "(string list \<Rightarrow> string list) \<Rightarrow> tar_spec \<Rightarrow> subset_conf \<Rightarrow> bool \<Rightarrow> artifact \<Rightarrow> tar_spec panics" where
  "GetTarFormersSpec it flags c enableSubsets a =
     (let spec = flags\<lparr>tsIgnoreRegexes := [], tsIgnoreFiles := [], tsTriggeredFiles := []\<rparr>
      in if enableSubsets then
           (case GetSubsets c a of
              Panics e \<Rightarrow> Panics e
            | Returns def \<Rightarrow> Returns (spec\<lparr>tsIgnoreRegexes := ignored_rules (suEnabled c) (gm_range it def)\<rparr>))
         else Returns spec)"

end
