(* ===== verification/Unpack.thy ===== *)
theory Unpack
  imports Subsets
begin

text \<open>
  The archives of artifacts, \<open>pkg/v2/compiler/types/artifact/artifact.go\<close> with the wrappers of
  \<open>pkg/helpers/archive.go\<close>: names, compression, lists of files, and the unpacking of an archive, with the
  handler that keeps protected files.

  The world is of any type; the calls to the file system, the compressors and the task of the archiver
  (\<open>RunTask\<close> of tar-formers, which calls the handler for the files of its specification) are parameters.
\<close>

section \<open>Parameters\<close>

text \<open>The header of an entry: its name, and whether it is a regular file or a directory.\<close>

record tar_header =
  thName :: string
  thRegular :: bool
  thDir :: bool

text \<open>
  A handler gets the path of the entry, the destination, the header and the contents, and says whether the
  entry is to be skipped.
\<close>

type_synonym 'w handler = "string \<Rightarrow> string \<Rightarrow> tar_header \<Rightarrow> string res \<Rightarrow> 'w \<Rightarrow> (err option \<times> bool) \<times> 'w"

record 'w tar_env =
  teOpen :: "string \<Rightarrow> 'w \<Rightarrow> string res"
  teDecode :: "string \<Rightarrow> string \<Rightarrow> string res"
  teEncode :: "string \<Rightarrow> string \<Rightarrow> string \<Rightarrow> 'w \<Rightarrow> err option \<times> 'w"
  teTar :: "string \<Rightarrow> string \<Rightarrow> 'w \<Rightarrow> err option \<times> 'w"
  teRun :: "'w handler option \<Rightarrow> tar_spec \<Rightarrow> string \<Rightarrow> string \<Rightarrow> 'w \<Rightarrow> err option \<times> 'w"
  teEntries :: "string \<Rightarrow> tar_header list \<times> err option"
  teLstat :: "string \<Rightarrow> 'w \<Rightarrow> bool"
  teExists :: "string \<Rightarrow> 'w \<Rightarrow> bool"
  teHashFile :: "string \<Rightarrow> 'w \<Rightarrow> string res"
  teHash :: "string \<Rightarrow> string"
  teCreate :: "string \<Rightarrow> string \<Rightarrow> string \<Rightarrow> tar_header \<Rightarrow> 'w \<Rightarrow> err option \<times> 'w"
  teProps :: "string \<Rightarrow> tar_header \<Rightarrow> 'w \<Rightarrow> err option \<times> 'w"
  teTempDir :: "string \<Rightarrow> 'w \<Rightarrow> string res \<times> 'w"
  teTouch :: "string \<Rightarrow> 'w \<Rightarrow> err option \<times> 'w"
  teRemoveAll :: "string \<Rightarrow> 'w \<Rightarrow> 'w"
  teCopyFile :: "string \<Rightarrow> string \<Rightarrow> 'w \<Rightarrow> err option \<times> 'w"
  teMkdirAll :: "string \<Rightarrow> 'w \<Rightarrow> err option \<times> 'w"
  teDirEmpty :: "string \<Rightarrow> 'w \<Rightarrow> bool res"
  teWrite :: "string \<Rightarrow> string \<Rightarrow> 'w \<Rightarrow> err option \<times> 'w"
  teBuildImage :: "string \<Rightarrow> string \<Rightarrow> string \<Rightarrow> string \<Rightarrow> 'w \<Rightarrow> err option \<times> 'w"

section \<open>Names and compression\<close>

text \<open>\<open>filepath.Ext\<close>: the suffix from the last dot of the last element.\<close>

definition path_Ext :: "string \<Rightarrow> string" where
  "path_Ext p =
     (let b = rev (takeWhile (\<lambda>c. c \<noteq> CHR ''/'') (rev p)); e = rev (takeWhile (\<lambda>c. c \<noteq> CHR ''.'') (rev b))
      in if CHR ''.'' \<in> set b then CHR ''.'' # e else [])"

definition TrimSuffix :: "string \<Rightarrow> string \<Rightarrow> string" where
  "TrimSuffix s e = (if HasSuffix s e then take (length s - length e) s else s)"

definition GetFileName :: "artifact \<Rightarrow> string" where
  "GetFileName a = path_Base (aPath a)"

definition getCompressedName :: "artifact \<Rightarrow> string" where
  "getCompressedName a =
     (if aCompressionType a = ''zstd'' then aPath a @ ''.zst''
      else if aCompressionType a = ''gzip'' then aPath a @ ''.gz'' else aPath a)"

definition GetUncompressedName :: "artifact \<Rightarrow> string" where
  "GetUncompressedName a =
     (if aCompressionType a = ''zstd'' \<or> aCompressionType a = ''gzip'' then TrimSuffix (aPath a) (path_Ext (aPath a)) else aPath a)"

definition Compress :: "'w tar_env \<Rightarrow> string \<Rightarrow> artifact \<Rightarrow> 'w \<Rightarrow> (err option \<times> artifact) \<times> 'w" where
  "Compress E src a w =
     (if aCompressionType a = ''zstd'' \<or> aCompressionType a = ''gzip'' then
        (case teTar E src (aPath a) w of
           (Some e, w) \<Rightarrow> ((Some e, a), w)
         | (None, w) \<Rightarrow>
             (case teEncode E (aCompressionType a) (aPath a) (getCompressedName a) w of
                (Some e, w) \<Rightarrow> ((Some e, a), w)
              | (None, w) \<Rightarrow> ((None, a\<lparr>aPath := getCompressedName a\<rparr>), teRemoveAll E (aPath a) w)))
      else (case teTar E src (getCompressedName a) w of (e, w) \<Rightarrow> ((e, a), w)))"

definition CreateArtifactForFile ::
    "'w tar_env \<Rightarrow> string \<Rightarrow> (artifact \<Rightarrow> artifact) list \<Rightarrow> 'w \<Rightarrow> (err option \<times> artifact) res \<times> 'w" where
  "CreateArtifactForFile E s opts w =
     (if \<not> teExists E s w then (Inl ''artifact path doesn't exist'', w)
      else
        (let tmp = ''error met while creating tempdir for '' @ s @ '': ''
         in case teTempDir E ''archive'' w of
              (Inl e, w) \<Rightarrow> (Inl (tmp @ e), w)
            | (Inr archive, w) \<Rightarrow>
                (case (case teCopyFile E s (PathJoin [archive, path_Base s]) w of
                         (Some e, w) \<Rightarrow> (Inl (''error while copying '' @ s @ '' to '' @ PathJoin [archive, path_Base s] @ '': '' @ e), w)
                       | (None, w) \<Rightarrow>
                           (case teTempDir E ''artifact'' w of
                              (Inl e, w) \<Rightarrow> (Inl (tmp @ e), w)
                            | (Inr dir, w) \<Rightarrow>
                                (let a = (NewPackageArtifact (PathJoin [dir, path_Base s]))\<lparr>aCompressionType := []\<rparr>
                                 in case Compress E archive (fold (\<lambda>o1 a. o1 a) opts a) w of (r, w) \<Rightarrow> (Inr r, w)))) of
                   (r, w) \<Rightarrow> (r, teRemoveAll E archive w))))"

text \<open>The entries of an archive that are not directories.\<close>

definition read_entries :: "'w tar_env \<Rightarrow> string \<Rightarrow> string list res" where
  "read_entries E content =
     (case teEntries E content of
        (hs, Some e) \<Rightarrow> Inl e
      | (hs, None) \<Rightarrow> Inr (map thName (filter (\<lambda>h. \<not> thDir h) hs)))"

definition FileList :: "'w tar_env \<Rightarrow> artifact \<Rightarrow> 'w \<Rightarrow> string list res \<times> 'w" where
  "FileList E a w =
     (case teTempDir E (path_Base (aPath a)) w of
        (Inl e, w) \<Rightarrow> (Inl e, w)
      | (Inr dir, w) \<Rightarrow>
          (let (r, w) =
             (if aCompressionType a = ''zstd'' \<or> aCompressionType a = ''gzip'' then
                (case teTouch E (PathJoin [dir, path_Base (aCachePath a) @ ''.uncompressed'']) w of
                   (Some e, w) \<Rightarrow> (Inl e, w)
                 | (None, w) \<Rightarrow>
                     (case teOpen E (aCachePath a) w of
                        Inl e \<Rightarrow> Inl (''Cannot open '' @ aCachePath a @ '': '' @ e)
                      | Inr c \<Rightarrow> (case teDecode E (aCompressionType a) c of Inl e \<Rightarrow> Inl e | Inr t \<Rightarrow> read_entries E t), w))
              else
                (case teOpen E (aCachePath a) w of
                   Inl e \<Rightarrow> Inl (''Could not open package archive: '' @ e) | Inr c \<Rightarrow> read_entries E c, w))
           in (r, teRemoveAll E dir w)))"

section \<open>Protected files\<close>

text \<open>\<open>%04d\<close>, and the name of the copy number \<open>i\<close> of a protected file.\<close>

definition pad4 :: "nat \<Rightarrow> string" where
  "pad4 i = (let s = show_nat i in replicate (4 - length s) CHR ''0'' @ s)"

definition cfg_base :: "nat \<Rightarrow> string \<Rightarrow> string" where
  "cfg_base i path = ''._cfg'' @ pad4 i @ ''_'' @ path_Base path"

definition cfg_name :: "nat \<Rightarrow> string \<Rightarrow> string" where
  "cfg_name i path = PathJoin [PathJoin [PathDir path, cfg_base i path]]"

text \<open>
  A file that is there with other contents is kept, and the new contents are written to the first of the
  names that does not exist.  The names are looked for without the destination.  \<open>err != nil\<close> and
  \<open>f != nil\<close> are never both true.
\<close>

definition written_path :: "'w tar_env \<Rightarrow> string \<Rightarrow> string \<Rightarrow> string \<Rightarrow> 'w \<Rightarrow> string" where
  "written_path E path dst content w =
     (let destPath = PathJoin [dst, path];
          existing = (if teLstat E destPath w then (case teHashFile E destPath w of Inr h \<Rightarrow> h | Inl e \<Rightarrow> []) else []);
          differs = (existing \<noteq> [] \<and> existing \<noteq> teHash E content)
      in if teExists E destPath w \<and> differs then
           (case find (\<lambda>i. \<not> teExists E (cfg_name i path) w) [1..<1000] of Some i \<Rightarrow> cfg_name i path | None \<Rightarrow> path)
         else path)"

definition tarModifierWrapperFunc :: "'w tar_env \<Rightarrow> 'w handler" where
  "tarModifierWrapperFunc E path dst header content w =
     (case content of
        Inl e \<Rightarrow> ((Some e, False), w)
      | Inr buffer \<Rightarrow>
          if \<not> thRegular header then ((None, False), w)
          else
            (let new = \<not> teLstat E (PathJoin [dst, path]) w; path = written_path E path dst buffer w
             in case teCreate E dst path buffer header w of
                  (Some e, w) \<Rightarrow> ((Some e, True), w)
                | (None, w) \<Rightarrow>
                    if new then (case teProps E (PathJoin [dst, path]) header w of (e, w) \<Rightarrow> ((e, True), w))
                    else ((None, True), w)))"

text \<open>A spec without a package is a nil pointer.\<close>

definition art_GetProtectFiles ::
    "(string list \<Rightarrow> string list) \<Rightarrow> bool \<Rightarrow> string list list \<Rightarrow> artifact \<Rightarrow> string list panics" where
  "art_GetProtectFiles it skip confs a =
     (if skip then Returns []
      else
        (case (case aCompileSpec a of
                 None \<Rightarrow> Returns []
               | Some None \<Rightarrow> Panics ''invalid memory address or nil pointer dereference''
               | Some (Some p) \<Rightarrow> Returns (annotation_dir p)) of
           Panics e \<Rightarrow> Panics e
         | Returns dir \<Rightarrow>
             (case Map skip confs (aFiles a) (NewConfigProtect dir) of
                Panics e \<Rightarrow> Panics e
              | Returns cp \<Rightarrow> Returns (GetProtectFiles it cp True))))"

section \<open>The unpacking of an archive\<close>

definition prepareTarformers :: "'w handler option \<Rightarrow> tar_spec \<Rightarrow> string list \<Rightarrow> 'w handler option \<times> tar_spec" where
  "prepareTarformers modifier spec protectedFiles =
     (if modifier \<noteq> None \<and> length protectedFiles > 0 then (modifier, spec\<lparr>tsTriggeredFiles := protectedFiles\<rparr>) else (None, spec))"

definition UntarProtectSpecCompress ::
    "'w tar_env \<Rightarrow> string \<Rightarrow> string list \<Rightarrow> 'w handler option \<Rightarrow> tar_spec \<Rightarrow> string \<Rightarrow> 'w \<Rightarrow> err option \<times> 'w" where
  "UntarProtectSpecCompress E dst protectedFiles modifier spec stream w =
     (case prepareTarformers modifier spec protectedFiles of (m, spec) \<Rightarrow> teRun E m spec dst stream w)"

definition UntarProtectSpec ::
    "'w tar_env \<Rightarrow> string \<Rightarrow> string \<Rightarrow> string list \<Rightarrow> 'w handler option \<Rightarrow> tar_spec \<Rightarrow> 'w \<Rightarrow> err option \<times> 'w" where
  "UntarProtectSpec E src dst protectedFiles modifier spec w =
     (case teOpen E src w of
        Inl e \<Rightarrow> (Some e, w) | Inr stream \<Rightarrow> UntarProtectSpecCompress E dst protectedFiles modifier spec stream w)"

definition UntarProtect ::
    "'w tar_env \<Rightarrow> tar_spec \<Rightarrow> string \<Rightarrow> string \<Rightarrow> bool \<Rightarrow> bool \<Rightarrow> string list \<Rightarrow> 'w handler option \<Rightarrow> 'w \<Rightarrow> err option \<times> 'w" where
  "UntarProtect E flags src dst sameOwner overwriteDirPerms protectedFiles modifier w =
     UntarProtectSpec E src dst protectedFiles modifier
       (flags\<lparr>tsSameOwner := sameOwner, tsOverwritePerms := overwriteDirPerms, tsIgnoreRegexes := [], tsIgnoreFiles := [],
              tsTriggeredFiles := []\<rparr>) w"

definition Untar :: "'w tar_env \<Rightarrow> tar_spec \<Rightarrow> string \<Rightarrow> string \<Rightarrow> bool \<Rightarrow> bool \<Rightarrow> 'w \<Rightarrow> err option \<times> 'w" where
  "Untar E flags src dest sameOwner overwriteDirPerms w = UntarProtect E flags src dest sameOwner overwriteDirPerms [] None w"

text \<open>\<open>ucFlags\<close> are the flags that the configuration gives the archiver.\<close>

record unpack_conf =
  ucIter :: "string list \<Rightarrow> string list"
  ucSkip :: bool
  ucConfs :: "string list list"
  ucFlags :: tar_spec
  ucSubsets :: subset_conf

definition Unpack :: "'w tar_env \<Rightarrow> unpack_conf \<Rightarrow> artifact \<Rightarrow> string \<Rightarrow> bool \<Rightarrow> 'w \<Rightarrow> unit outcome \<times> 'w" where
  "Unpack E C a dst enableSubsets w =
     (if \<not> HasPrefix dst ''/'' then (Err ''destination must be an absolute path'', w)
      else
        (case art_GetProtectFiles (ucIter C) (ucSkip C) (ucConfs C) a of
           Panics e \<Rightarrow> (Panic e, w)
         | Returns protectedFiles \<Rightarrow>
             (case GetTarFormersSpec (ucIter C) (ucFlags C) (ucSubsets C) enableSubsets a of
                Panics e \<Rightarrow> (Panic e, w)
              | Returns spec \<Rightarrow>
                  (let result = (\<lambda>(e, w). (case e of Some e \<Rightarrow> Err e | None \<Rightarrow> Ok (), w));
                       modifier = Some (tarModifierWrapperFunc E)
                   in if aCompressionType a = ''zstd'' \<or> aCompressionType a = ''gzip'' then
                        (case teOpen E (aCachePath a) w of
                           Inl e \<Rightarrow> (Err (''Cannot open '' @ aCachePath a @ '': '' @ e), w)
                         | Inr original \<Rightarrow>
                             (case teDecode E (aCompressionType a) original of
                                Inl e \<Rightarrow> (Err e, w)
                              | Inr d \<Rightarrow> result (UntarProtectSpecCompress E dst protectedFiles modifier spec d w)))
                      else
                        result (UntarProtect E (ucFlags C) (aCachePath a) dst (tsSameOwner (ucFlags C)) (tsOverwritePerms (ucFlags C))
                                  protectedFiles modifier w)))))"

text \<open>The image of an artifact; an empty one gets a file.  The result is the image with its context.\<close>

definition with_error :: "string \<Rightarrow> err option \<times> 'w \<Rightarrow> unit outcome \<times> 'w" where
  "with_error m r = (case r of (Some e, w) \<Rightarrow> (Err (m @ '': '' @ e), w) | (None, w) \<Rightarrow> (Ok (), w))"

definition art_GenerateFinalImage ::
    "'w tar_env \<Rightarrow> unpack_conf \<Rightarrow> string \<Rightarrow> artifact \<Rightarrow> 'w \<Rightarrow> (string \<times> string) outcome \<times> 'w" where
  "art_GenerateFinalImage E C imageName a w =
     (let tmp = ''error met while creating tempdir for '' @ aPath a
      in case teTempDir E ''archive'' w of
           (Inl e, w) \<Rightarrow> (Err (tmp @ '': '' @ e), w)
         | (Inr archive, w) \<Rightarrow>
             (let uncompressed = PathJoin [archive, ''files'']; dockerFile = PathJoin [archive, ''Dockerfile''];
                  (r, w) =
                    obind (with_error tmp (teMkdirAll E uncompressed w)) (\<lambda>_ w.
                    obind (case Unpack E C a uncompressed True w of
                             (Err e, w) \<Rightarrow> (Err (''error met while uncompressing artifact '' @ aPath a @ '': '' @ e), w)
                           | (r, w) \<Rightarrow> (r, w)) (\<lambda>_ w.
                      (case teDirEmpty E uncompressed w of
                         Inl e \<Rightarrow> (Err (''error met while checking if directory is empty '' @ uncompressed @ '': '' @ e), w)
                       | Inr none \<Rightarrow>
                           (let w = (if none then snd (teTouch E (PathJoin [uncompressed, ''.virtual'']) w) else w);
                                nl = [CHR 0x0A]
                            in obind (with_error (''error met while rendering artifact dockerfile '' @ aPath a)
                                        (teWrite E dockerFile (nl @ ''FROM scratch'' @ nl @ ''COPY . /'') w)) (\<lambda>_ w.
                                 case teBuildImage E imageName archive dockerFile uncompressed w of
                                   (Some e, w) \<Rightarrow> (Err e, w) | (None, w) \<Rightarrow> (Ok (imageName, uncompressed), w))))))
              in (r, teRemoveAll E archive w)))"

end
