(* ===== verification/SubsetsProofs.thy ===== *)
theory SubsetsProofs
  imports Subsets
begin

text \<open>
  What the loaded subsets are: with definitions for one package or category each, the rules of that one in
  the order of the files; with definitions for several, rules that leak from one package to another.  And
  the patterns that an archive is unpacked without.
\<close>

section \<open>The definitions in the store\<close>

datatype place = Pkg string | Cat string

definition in_map :: "nat gomap gomap \<Rightarrow> string \<Rightarrow> string \<Rightarrow> nat option" where
  "in_map m p n = (case gm_get m p of Some defs \<Rightarrow> gm_get defs n | None \<Rightarrow> None)"

fun def_at :: "subset_conf \<Rightarrow> place \<Rightarrow> string \<Rightarrow> nat option" where
  "def_at c (Pkg p) n = in_map (suPkgs c) p n"
| "def_at c (Cat p) n = in_map (suCats c) p n"

definition rules_at :: "subset_conf \<Rightarrow> place \<Rightarrow> string \<Rightarrow> string list option" where
  "rules_at c pl n = map_option (\<lambda>a. sdRules (suHeap c ! a)) (def_at c pl n)"

fun single :: "subset_def \<Rightarrow> place \<Rightarrow> bool" where
  "single d (Pkg p) \<longleftrightarrow> sdPackages d = [p] \<and> sdCategories d = []"
| "single d (Cat p) \<longleftrightarrow> sdPackages d = [] \<and> sdCategories d = [p]"

text \<open>Every definition of the maps is in the store, and is used in one place.\<close>

definition unshared :: "subset_conf \<Rightarrow> bool" where
  "unshared c \<longleftrightarrow> (\<forall>pl n a. def_at c pl n = Some a \<longrightarrow> a < length (suHeap c)) \<and>
     (\<forall>pl n pl' n' a. def_at c pl n = Some a \<longrightarrow> def_at c pl' n' = Some a \<longrightarrow> pl = pl' \<and> n = n')"

definition fresh :: "subset_conf \<Rightarrow> nat \<Rightarrow> bool" where
  "fresh c a \<longleftrightarrow> a < length (suHeap c) \<and> (\<forall>pl n. def_at c pl n \<noteq> Some a)"

text \<open>The reference: the rules of each place, extended.\<close>

definition ref_merge :: "place \<Rightarrow> subset_def \<Rightarrow> (place \<Rightarrow> string \<Rightarrow> string list option) \<Rightarrow> place \<Rightarrow> string \<Rightarrow> string list option" where
  "ref_merge pl d R pl' n' =
     (if pl' = pl \<and> n' = sdName d then Some (case R pl (sdName d) of Some rs \<Rightarrow> rs @ sdRules d | None \<Rightarrow> sdRules d) else R pl' n')"

lemma in_map_set: "in_map (gm_set p defs m) p' n = (if p' = p then gm_get defs n else in_map m p' n)"
  by (simp add: in_map_def)

definition put :: "string \<Rightarrow> string \<Rightarrow> nat \<Rightarrow> nat gomap gomap \<Rightarrow> nat gomap gomap" where
  "put p n a m = gm_set p (gm_set n a (case gm_get m p of Some defs \<Rightarrow> defs | None \<Rightarrow> [])) m"

lemma in_map_put [simp]: "in_map (put p n a m) p' n' = (if p' = p \<and> n' = n then Some a else in_map m p' n')"
  by (auto simp: in_map_def put_def split: option.split)

definition more_rules :: "subset_def list \<Rightarrow> nat \<Rightarrow> nat \<Rightarrow> subset_def list" where
  "more_rules h b a = h[b := (h ! b)\<lparr>sdRules := sdRules (h ! b) @ sdRules (h ! a)\<rparr>]"

lemma add_named_cases [simp]:
  "add_named a p (h, m) =
     (case in_map m p (sdName (h ! a)) of Some b \<Rightarrow> (more_rules h b a, m) | None \<Rightarrow> (h, put p (sdName (h ! a)) a m))"
  by (auto simp: add_named_def in_map_def put_def more_rules_def Let_def split: option.split)

text \<open>A definition for one place is put there, or its rules are appended there.\<close>

lemma merge_again:
  "single (suHeap c ! a) pl \<Longrightarrow> def_at c pl (sdName (suHeap c ! a)) = Some b \<Longrightarrow>
   merge_one (k, a) c = c\<lparr>suHeap := more_rules (suHeap c) b a\<rparr>"
  by (cases pl) (simp_all add: merge_one_def)

lemma merge_new:
  assumes "single (suHeap c ! a) pl" "def_at c pl (sdName (suHeap c ! a)) = None"
  shows "suHeap (merge_one (k, a) c) = suHeap c \<and>
    def_at (merge_one (k, a) c) pl' n' = (if pl' = pl \<and> n' = sdName (suHeap c ! a) then Some a else def_at c pl' n')"
  using assms by (cases pl; cases pl') (auto simp: merge_one_def)

lemma def_at_heap [simp]: "def_at (c\<lparr>suHeap := h\<rparr>) pl n = def_at c pl n"
  by (cases pl) simp_all

lemma more_rules_length [simp]: "length (more_rules h b a) = length h"
  by (simp add: more_rules_def)

lemma unsharedD:
  assumes "unshared c" "def_at c pl n = Some a"
  shows "a < length (suHeap c)" "def_at c pl' n' = Some a \<Longrightarrow> pl = pl' \<and> n = n'"
proof -
  note u = assms(1) [unfolded unshared_def]
  show "a < length (suHeap c)" using u [THEN conjunct1] assms(2) by blast
  assume "def_at c pl' n' = Some a"
  show "pl = pl' \<and> n = n'"
    by (rule u [THEN conjunct2, THEN spec, THEN spec, THEN spec, THEN spec, THEN spec, THEN mp, THEN mp]) fact+
qed

text \<open>One definition: the reference, and what it keeps.\<close>

lemma merge_one_refines:
  assumes "unshared c" "fresh c a" "single (suHeap c ! a) pl"
  shows "rules_at (merge_one (k, a) c) = ref_merge pl (suHeap c ! a) (rules_at c) \<and> unshared (merge_one (k, a) c) \<and>
    length (suHeap (merge_one (k, a) c)) = length (suHeap c) \<and>
    (\<forall>b. fresh c b \<longrightarrow> b \<noteq> a \<longrightarrow> fresh (merge_one (k, a) c) b \<and> suHeap (merge_one (k, a) c) ! b = suHeap c ! b)"
proof (cases "def_at c pl (sdName (suHeap c ! a))")
  case None
  note new = merge_new [OF assms(3) None, of k]
  have "rules_at (merge_one (k, a) c) = ref_merge pl (suHeap c ! a) (rules_at c)"
    using None new by (intro ext) (simp add: rules_at_def ref_merge_def)
  moreover have "unshared (merge_one (k, a) c)"
  proof -
    have len: "suHeap (merge_one (k, a) c) = suHeap c" using new by blast
    have at: "x = a \<and> pl' = pl \<and> n' = sdName (suHeap c ! a) \<or> x \<noteq> a \<and> def_at c pl' n' = Some x"
      if "def_at (merge_one (k, a) c) pl' n' = Some x" for pl' n' x
      using that new [of pl' n'] assms(2) by (auto simp: fresh_def split: if_splits)
    show ?thesis unfolding unshared_def len
    proof (intro conjI allI impI)
      fix pl' n' x assume "def_at (merge_one (k, a) c) pl' n' = Some x"
      from at [OF this] assms(2) unsharedD(1) [OF assms(1)] show "x < length (suHeap c)" unfolding fresh_def by blast
    next
      fix pl1 n1 pl2 n2 x
      assume "def_at (merge_one (k, a) c) pl1 n1 = Some x" "def_at (merge_one (k, a) c) pl2 n2 = Some x"
      note at1 = at [OF this(1)] and at2 = at [OF this(2)]
      have one: "pl1 = pl2 \<and> n1 = n2" if "def_at c pl1 n1 = Some x" "def_at c pl2 n2 = Some x"
        by (rule unsharedD(2) [OF assms(1) that])
      show "pl1 = pl2" using at1 at2 one by (cases "x = a") simp_all
      show "n1 = n2" using at1 at2 one by (cases "x = a") simp_all
    qed
  qed
  moreover have "fresh (merge_one (k, a) c) b" if "fresh c b" "b \<noteq> a" for b
    using that new by (auto simp: fresh_def)
  ultimately show ?thesis using new by simp
next
  case (Some b)
  note again = merge_again [OF assms(3) Some, of k]
  have b: "b < length (suHeap c)" by (rule unsharedD(1) [OF assms(1) Some])
  have only: "pl = pl' \<and> sdName (suHeap c ! a) = n'" if "def_at c pl' n' = Some b" for pl' n'
    by (rule unsharedD(2) [OF assms(1) Some that])
  have "rules_at (merge_one (k, a) c) pl' n' = ref_merge pl (suHeap c ! a) (rules_at c) pl' n'" for pl' n'
  proof (cases "pl' = pl \<and> n' = sdName (suHeap c ! a)")
    case True
    with Some b show ?thesis by (simp add: again rules_at_def ref_merge_def more_rules_def)
  next
    case False
    then have "x \<noteq> b" if "def_at c pl' n' = Some x" for x using only that by blast
    with False show ?thesis
      unfolding ref_merge_def if_not_P [OF False] by (cases "def_at c pl' n'") (simp_all add: again rules_at_def more_rules_def)
  qed
  moreover have "unshared (merge_one (k, a) c)" using assms(1) by (simp add: again unshared_def)
  moreover have "fresh (merge_one (k, a) c) d \<and> suHeap (merge_one (k, a) c) ! d = suHeap c ! d" if "fresh c d" for d
  proof -
    have "d \<noteq> b" using that Some by (auto simp: fresh_def)
    then show ?thesis using that by (simp add: again fresh_def more_rules_def)
  qed
  ultimately show ?thesis by (auto simp: again)
qed

definition place_of :: "subset_def \<Rightarrow> place" where
  "place_of d = (if sdPackages d \<noteq> [] then Pkg (hd (sdPackages d)) else Cat (hd (sdCategories d)))"

definition ref_load :: "(string \<times> subset_def option) list \<Rightarrow> (place \<Rightarrow> string \<Rightarrow> string list option) \<Rightarrow> place \<Rightarrow> string \<Rightarrow> string list option" where
  "ref_load defs R = fold (\<lambda>(k, v). ref_merge (place_of (the v)) (the v)) defs R"

lemma merge_entries:
  assumes "distinct ks" "inj_on A (set ks)" "unshared c"
    "\<forall>k\<in>set ks. gm_get m k = Some (A k) \<and> gm_get defs k = Some (Some (D k)) \<and> suHeap c ! A k = D k \<and> fresh c (A k) \<and>
       single (D k) (place_of (D k))"
  shows "rules_at (fold merge_one (gm_entries m ks) c) = ref_load (gm_entries defs ks) (rules_at c) \<and>
    unshared (fold merge_one (gm_entries m ks) c)"
  using assms
proof (induction ks arbitrary: c)
  case (Cons k ks)
  let ?c = "merge_one (k, A k) c"
  have k: "gm_get m k = Some (A k)" "gm_get defs k = Some (Some (D k))" "suHeap c ! A k = D k" "fresh c (A k)"
    "single (D k) (place_of (D k))" using Cons.prems(4) by simp_all
  note one = merge_one_refines [OF Cons.prems(3) k(4), of "place_of (D k)" k, unfolded k(3), OF k(5)]
  have "rules_at (fold merge_one (gm_entries m ks) ?c) = ref_load (gm_entries defs ks) (rules_at ?c) \<and>
    unshared (fold merge_one (gm_entries m ks) ?c)"
  proof (rule Cons.IH)
    show "distinct ks" "inj_on A (set ks)" using Cons.prems(1,2) by (auto simp: inj_on_def)
    show "unshared ?c" using one by simp
    show "\<forall>j\<in>set ks. gm_get m j = Some (A j) \<and> gm_get defs j = Some (Some (D j)) \<and> suHeap ?c ! A j = D j \<and> fresh ?c (A j) \<and>
       single (D j) (place_of (D j))"
    proof
      fix j assume j: "j \<in> set ks"
      then have "j \<noteq> k" using Cons.prems(1) by auto
      with j Cons.prems(2) have "A j \<noteq> A k" by (auto simp: inj_on_def)
      with j one Cons.prems(4) show "gm_get m j = Some (A j) \<and> gm_get defs j = Some (Some (D j)) \<and> suHeap ?c ! A j = D j \<and>
          fresh ?c (A j) \<and> single (D j) (place_of (D j))" by simp
    qed
  qed
  with one k(1,2) show ?case by (simp add: ref_load_def)
qed (simp add: ref_load_def)

lemma zip_positions:
  "i < length ks \<Longrightarrow> distinct ks \<Longrightarrow> map_of (zip ks [n ..< n + length ks]) (ks ! i) = Some (n + i)"
  by (simp add: map_of_zip_nth)

text \<open>
  C36: When every definition of a file is for one package or one category, its load does to the rules of each
  what the reference does: they are extended by the rules of the definitions for it, in the order of the
  map, and those of other packages stay; and no definition comes to be used in two places.
\<close>

theorem load_defs_refines:
  assumes "\<And>ks. mset (it ks) = mset ks" "gm_wf defs" "unshared c"
    "\<forall>(k, v)\<in>set defs. v \<noteq> None \<and> single (the v) (place_of (the v))"
  shows "\<exists>c'. load_defs it defs c = Returns c' \<and> unshared c' \<and> rules_at c' = ref_load (gm_range it defs) (rules_at c)"
proof -
  let ?n = "length (suHeap c)" and ?ks = "map fst defs"
  let ?m = "zip ?ks [?n ..< ?n + length defs]" and ?c = "c\<lparr>suHeap := suHeap c @ map (\<lambda>(k, v). the v) defs\<rparr>"
  have d: "distinct ?ks" using assms(2) by (simp add: gm_wf_def)
  have keys: "gm_keys ?m = ?ks" by (simp add: gm_keys_def)
  define A where "A k = the (gm_get ?m k)" for k
  define D where "D k = the (the (gm_get defs k))" for k
  have at: "gm_get ?m (fst (defs ! i)) = Some (?n + i) \<and> gm_get defs (fst (defs ! i)) = Some (snd (defs ! i))" if "i < length defs" for i
    using zip_positions [of i ?ks ?n] that d by (simp add: map_of_eq_Some_iff prod_eq_iff)
  have c: "unshared ?c" using assms(3) unfolding unshared_def by (auto intro!: trans_less_add1)
  have all: "\<forall>k\<in>set (it ?ks). gm_get ?m k = Some (A k) \<and> gm_get defs k = Some (Some (D k)) \<and> suHeap ?c ! A k = D k \<and>
      fresh ?c (A k) \<and> single (D k) (place_of (D k))"
  proof
    fix k assume "k \<in> set (it ?ks)"
    then have "k \<in> set ?ks" using assms(1) by (metis mset_eq_setD)
    then obtain i where i: "i < length defs" "k = fst (defs ! i)" by (auto simp: in_set_conv_nth)
    obtain v where v: "defs ! i = (k, Some v)" "single v (place_of v)"
      using assms(4) i nth_mem [OF i(1)] by (cases "defs ! i") auto
    have "fresh ?c (?n + i)" using i(1) unsharedD(1) [OF assms(3)] by (fastforce simp: fresh_def)
    then show "gm_get ?m k = Some (A k) \<and> gm_get defs k = Some (Some (D k)) \<and> suHeap ?c ! A k = D k \<and>
      fresh ?c (A k) \<and> single (D k) (place_of (D k))"
      using at [OF i(1)] i(1) v unfolding i(2) [symmetric] by (simp add: A_def D_def nth_append)
  qed
  have "inj_on A (set (it ?ks))"
  proof (rule inj_onI)
    fix x y assume "x \<in> set (it ?ks)" "y \<in> set (it ?ks)" "A x = A y"
    then have "x \<in> set ?ks" "y \<in> set ?ks" using assms(1) by (metis mset_eq_setD)+
    then obtain i j where "i < length defs" "x = fst (defs ! i)" "j < length defs" "y = fst (defs ! j)"
      by (auto simp: in_set_conv_nth)
    with at [of i] at [of j] \<open>A x = A y\<close> show "x = y" by (simp add: A_def)
  qed
  moreover have "distinct (it ?ks)" using d assms(1) by (metis mset_eq_imp_distinct_iff)
  ultimately have "rules_at (fold merge_one (gm_entries ?m (it ?ks)) ?c) = ref_load (gm_entries defs (it ?ks)) (rules_at ?c) \<and>
    unshared (fold merge_one (gm_entries ?m (it ?ks)) ?c)"
    using merge_entries [OF _ _ c all] by blast
  moreover have "rules_at ?c = rules_at c"
    using unsharedD(1) [OF assms(3)] by (intro ext) (auto simp: rules_at_def nth_append split: option.split intro!: option.map_cong0)
  moreover have "\<not> list_ex (\<lambda>(k, v). v = None) defs" using assms(4) by (auto simp: list_ex_iff)
  ultimately show ?thesis by (auto simp: load_defs_def mergeSubsetsDefinition_def gm_range_def keys gm_keys_def)
qed


definition vim_def :: "string list \<Rightarrow> string list \<Rightarrow> subset_def" where
  "vim_def rules ps = \<lparr>sdDescription = [], sdName = ''docs'', sdRules = rules, sdPackages = ps, sdCategories = []\<rparr>"

theorem load_defs_refines_witness:
  "\<exists>c c'. load_defs id [(''docs'', Some (vim_def [''^/usr/share/doc''] [''app/vim'']))] no_subsets = Returns c \<and>
     load_defs id [(''docs'', Some (vim_def [''^/usr/share/man''] [''app/vim'']))] c = Returns c' \<and>
     rules_at c' (Pkg ''app/vim'') ''docs'' = Some [''^/usr/share/doc'', ''^/usr/share/man'']"
proof -
  let ?d = "\<lambda>r. [(''docs'', Some (vim_def [r] [''app/vim'']))]"
  have wf: "gm_wf (?d r)" "\<forall>(k, v)\<in>set (?d r). v \<noteq> None \<and> single (the v) (place_of (the v))" for r
    by (simp_all add: gm_wf_def vim_def_def place_of_def)
  have "def_at no_subsets pl n = None" for pl n by (cases pl) (simp_all add: no_subsets_def in_map_def)
  then have u: "unshared no_subsets" and r: "rules_at no_subsets = (\<lambda>pl n. None)"
    by (auto simp: unshared_def rules_at_def intro!: ext)
  obtain c where c: "load_defs id (?d ''^/usr/share/doc'') no_subsets = Returns c" "unshared c"
    "rules_at c = ref_load (gm_range id (?d ''^/usr/share/doc'')) (rules_at no_subsets)"
    using load_defs_refines [of id, OF _ wf(1) u wf(2)] by auto
  obtain c' where c': "load_defs id (?d ''^/usr/share/man'') c = Returns c'"
    "rules_at c' = ref_load (gm_range id (?d ''^/usr/share/man'')) (rules_at c)"
    using load_defs_refines [of id, OF _ wf(1) c(2) wf(2)] by auto
  have "rules_at c' (Pkg ''app/vim'') ''docs'' = Some [''^/usr/share/doc'', ''^/usr/share/man'']"
    unfolding c'(2) c(3) r by (simp add: ref_load_def ref_merge_def gm_range_def gm_keys_def place_of_def vim_def_def)
  with c(1) c'(1) show ?thesis by blast
qed

text \<open>
  C37: A definition for two packages is one object: a later definition for one of them alone, of the same
  name, adds its rules to the other package as well.
\<close>

theorem load_defs_leaks:
  assumes "sdPackages d1 = [p, q]" "sdCategories d1 = []" "sdPackages d2 = [p]" "sdCategories d2 = []"
    "sdName d2 = sdName d1" "p \<noteq> q" "gm_get (suPkgs c) p = None" "gm_get (suPkgs c) q = None" "\<And>k. it [k] = [k]"
  shows "\<exists>c1 c2. load_defs it [(k1, Some d1)] c = Returns c1 \<and> load_defs it [(k2, Some d2)] c1 = Returns c2 \<and>
    rules_at c1 (Pkg q) (sdName d1) = Some (sdRules d1) \<and> rules_at c2 (Pkg q) (sdName d1) = Some (sdRules d1 @ sdRules d2)"
proof -
  let ?n = "length (suHeap c)"
  have "in_map (suPkgs c) p n = None" "in_map (suPkgs c) q n = None" for n using assms(7,8) by (simp_all add: in_map_def)
  then have "load_defs it [(k1, Some d1)] c = Returns (c\<lparr>suHeap := suHeap c @ [d1],
      suPkgs := put q (sdName d1) ?n (put p (sdName d1) ?n (suPkgs c))\<rparr>)" (is "_ = Returns ?c1")
    using assms(1,2,6,9) by (simp add: load_defs_def mergeSubsetsDefinition_def gm_range_def gm_keys_def merge_one_def)
  moreover have "load_defs it [(k2, Some d2)] ?c1 = Returns (?c1\<lparr>suHeap := more_rules (suHeap c @ [d1, d2]) ?n (Suc ?n)\<rparr>)"
    using assms(3-6,9) by (simp add: load_defs_def mergeSubsetsDefinition_def gm_range_def gm_keys_def merge_one_def nth_append)
  ultimately show ?thesis by (simp add: rules_at_def more_rules_def nth_append)
qed

theorem load_defs_leaks_witness:
  "\<exists>c. load_defs id [(''b'', Some (vim_def [''^/usr/share/man''] [''app/vim'']))]
      (case load_defs id [(''a'', Some (vim_def [''^/usr/share/doc''] [''app/vim'', ''app/git'']))] no_subsets of
         Returns c \<Rightarrow> c | Panics e \<Rightarrow> no_subsets) = Returns c \<and>
     rules_at c (Pkg ''app/git'') ''docs'' = Some [''^/usr/share/doc'', ''^/usr/share/man'']"
proof -
  have "\<exists>c1 c2. load_defs id [(''a'', Some (vim_def [''^/usr/share/doc''] [''app/vim'', ''app/git'']))] no_subsets = Returns c1 \<and>
     load_defs id [(''b'', Some (vim_def [''^/usr/share/man''] [''app/vim'']))] c1 = Returns c2 \<and>
     rules_at c1 (Pkg ''app/git'') (sdName (vim_def [''^/usr/share/doc''] [''app/vim'', ''app/git''])) =
       Some (sdRules (vim_def [''^/usr/share/doc''] [''app/vim'', ''app/git''])) \<and>
     rules_at c2 (Pkg ''app/git'') (sdName (vim_def [''^/usr/share/doc''] [''app/vim'', ''app/git''])) =
       Some (sdRules (vim_def [''^/usr/share/doc''] [''app/vim'', ''app/git'']) @ sdRules (vim_def [''^/usr/share/man''] [''app/vim'']))"
    by (rule load_defs_leaks [where p = "''app/vim''"]) (simp_all add: vim_def_def no_subsets_def)
  then show ?thesis by (auto simp: vim_def_def)
qed

section \<open>The patterns to leave out\<close>

text \<open>The definition of a subset for a package: that for the package, or for its category, or of its annotation.\<close>

definition subset_for :: "subset_conf \<Rightarrow> default_package \<Rightarrow> subset_def gomap \<Rightarrow> string \<Rightarrow> subset_def option" where
  "subset_for c r ann k =
     (let own = (case gm_get (suPkgs c) (PackageName r) of
                   Some defs \<Rightarrow> gm_get defs k
                 | None \<Rightarrow> (case gm_get (suCats c) (pCategory r) of Some defs \<Rightarrow> gm_get defs k | None \<Rightarrow> None))
      in case own of Some a \<Rightarrow> Some (suHeap c ! a) | None \<Rightarrow> gm_get ann k)"

definition maps_wf :: "subset_conf \<Rightarrow> bool" where
  "maps_wf c \<longleftrightarrow> (\<forall>p defs. gm_get (suPkgs c) p = Some defs \<or> gm_get (suCats c) p = Some defs \<longrightarrow> gm_wf defs)"

lemma override_get:
  "gm_wf defs \<Longrightarrow> gm_get (override h defs ans) k = (case gm_get defs k of Some a \<Rightarrow> Some (h ! a) | None \<Rightarrow> gm_get ans k)"
proof (induction defs arbitrary: ans)
  case (Cons ka defs)
  then have "gm_wf defs" and new: "fst ka \<notin> fst ` set defs" by (simp_all add: gm_wf_def)
  from Cons.IH [OF this(1)] have "gm_get (override h (ka # defs) ans) k =
      (case gm_get defs k of Some a \<Rightarrow> Some (h ! a) | None \<Rightarrow> gm_get (gm_set (fst ka) (h ! snd ka) ans) k)"
    by (simp add: override_def split_def)
  then show ?case using new by (cases ka) (auto split: option.split simp: map_of_eq_None_iff [symmetric])
qed (simp add: override_def)

text \<open>
  The specification made for the archive of a package leaves out the files that match a rule of a subset that
  is not enabled, and no other: of the subsets of the annotation of the package, as far as the configuration has
  none of the same name for the package, or for its category when it has nothing for the package.
\<close>

theorem GetTarFormersSpec_patterns:
  assumes "\<And>ks. mset (it ks) = mset ks" "aRuntime a = Some r" "maps_wf c"
    "(if HasAnnotation r ''subsets'' then unmarshalSubsets (GetAnnotationByKey r ''subsets'') else Returns []) = Returns ann"
  shows "\<exists>spec. GetTarFormersSpec it flags c True a = Returns spec \<and>
    (\<forall>x. x \<in> set (tsIgnoreRegexes spec) \<longleftrightarrow>
       (\<exists>k d. subset_for c r ann k = Some d \<and> k \<notin> set (suEnabled c) \<and> x \<in> set (sdRules d)))"
proof -
  define def where "def = (case gm_get (suPkgs c) (PackageName r) of Some defs \<Rightarrow> override (suHeap c) defs ann
    | None \<Rightarrow> (case gm_get (suCats c) (pCategory r) of Some defs \<Rightarrow> override (suHeap c) defs ann | None \<Rightarrow> ann))"
  have wf: "gm_get (suPkgs c) p = Some defs \<Longrightarrow> gm_wf defs" "gm_get (suCats c) p = Some defs \<Longrightarrow> gm_wf defs" for p defs
    using assms(3) by (simp_all add: maps_wf_def)
  have get: "gm_get def k = subset_for c r ann k" for k
    by (auto simp: def_def subset_for_def override_get wf split: option.split)
  have "GetSubsets c a = Returns def" using assms(2,4) by (simp add: GetSubsets_def def_def)
  then have spec: "GetTarFormersSpec it flags c True a =
      Returns (flags\<lparr>tsIgnoreRegexes := ignored_rules (suEnabled c) (gm_range it def), tsIgnoreFiles := [], tsTriggeredFiles := []\<rparr>)"
    by (simp add: GetTarFormersSpec_def)
  have on: "ContainsElem es k \<longleftrightarrow> k \<in> set es" for es k by (induction es) auto
  have "(k, d) \<in> set (gm_range it def) \<longleftrightarrow> subset_for c r ann k = Some d" for k d
    unfolding get [symmetric] by (rule map_order.range_iff) (unfold_locales, rule assms(1))
  then have "x \<in> set (ignored_rules (suEnabled c) (gm_range it def)) \<longleftrightarrow>
      (\<exists>k d. subset_for c r ann k = Some d \<and> k \<notin> set (suEnabled c) \<and> x \<in> set (sdRules d))" for x
    by (force simp: ignored_rules_def on split: if_splits)
  with spec show ?thesis by simp
qed


definition vim_conf :: subset_conf where
  "vim_conf = no_subsets\<lparr>suHeap := [vim_def [''^/usr/share/doc''] []], suPkgs := [(''app/vim'', [(''docs'', 0)])]\<rparr>"

definition vim_pkg :: default_package where
  "vim_pkg = upd_info (\<lambda>i. i\<lparr>Name := ''vim'', Category := ''app''\<rparr>) (NewPackage [] [] [] [])"

definition plain_flags :: tar_spec where
  "plain_flags = \<lparr>tsSameOwner = False, tsEnableMutex = False, tsMaxOpenFiles = 0, tsBufferSize = 0, tsValidate = False,
     tsOverwritePerms = False, tsIgnoreRegexes = [], tsIgnoreFiles = [], tsTriggeredFiles = []\<rparr>"

theorem GetTarFormersSpec_patterns_witness:
  "\<exists>spec. GetTarFormersSpec id plain_flags vim_conf True (NewPackageArtifact []\<lparr>aRuntime := Some vim_pkg\<rparr>) = Returns spec \<and>
     set (tsIgnoreRegexes spec) = {''^/usr/share/doc''}"
proof -
  let ?a = "NewPackageArtifact []\<lparr>aRuntime := Some vim_pkg\<rparr>"
  have "maps_wf vim_conf" by (auto simp: maps_wf_def vim_conf_def no_subsets_def gm_wf_def split: if_splits)
  moreover have no: "\<not> HasAnnotation vim_pkg ''subsets''" by code_simp
  ultimately obtain spec where spec: "GetTarFormersSpec id plain_flags vim_conf True ?a = Returns spec"
    "\<And>x. x \<in> set (tsIgnoreRegexes spec) \<longleftrightarrow>
       (\<exists>k d. subset_for vim_conf vim_pkg [] k = Some d \<and> k \<notin> set (suEnabled vim_conf) \<and> x \<in> set (sdRules d))"
    using GetTarFormersSpec_patterns [of id ?a vim_pkg vim_conf "[]" plain_flags] by auto
  have "PackageName vim_pkg = ''app/vim''" by code_simp
  then have "subset_for vim_conf vim_pkg [] k = (if k = ''docs'' then Some (vim_def [''^/usr/share/doc''] []) else None)" for k
    by (simp add: subset_for_def vim_conf_def)
  then have "set (tsIgnoreRegexes spec) = {''^/usr/share/doc''}"
    unfolding set_eq_iff spec(2) by (auto simp: vim_conf_def no_subsets_def vim_def_def)
  with spec(1) show ?thesis by blast
qed

end
