(* ===== verification/UnpackProofs.thy ===== *)
theory UnpackProofs
  imports Unpack SubsetsProofs
begin

text \<open>
  Protected files under the unpacking of an archive: the file is not written over as long as a name for the
  new contents is free; and with a destination other than the root the names are looked for in the wrong
  place, so that the contents waiting from an earlier upgrade are lost.  And what an archive is unpacked
  without: the rules of the subsets that are not enabled, when it is compressed.
\<close>

section \<open>Names of copies\<close>

text \<open>A component of a path that stays as it is.\<close>

definition plain_name :: "string \<Rightarrow> bool" where
  "plain_name b \<longleftrightarrow> CHR ''/'' \<notin> set b \<and> b \<noteq> [] \<and> b \<noteq> ''.'' \<and> b \<noteq> ''..''"

definition after_slash :: "string \<Rightarrow> string" where
  "after_slash s = rev (takeWhile (\<lambda>c. c \<noteq> CHR ''/'') (rev s))"

lemma SplitChar_plain: "d \<notin> set b \<Longrightarrow> SplitChar d b = [b]"
  by (induction b) auto

lemma SplitChar_append: "d \<notin> set b \<Longrightarrow> SplitChar d (x @ d # b) = SplitChar d x @ [b]"
proof (induction x)
  case (Cons c x)
  then show ?case by (cases "SplitChar d x") (auto simp: SplitChar_plain)
qed (simp add: SplitChar_plain)

lemma clean_comps_last: "plain_name b \<Longrightarrow> \<exists>ys. clean_comps r (xs @ [b]) acc = ys @ [b]"
proof (induction xs arbitrary: acc)
  case (Cons x xs)
  then show ?case by (auto split: list.split)
qed (simp add: plain_name_def)

lemma Join_last: "Join (ys @ [b]) d = (if ys = [] then b else Join ys d @ d @ b)"
proof (induction ys)
  case (Cons y ys)
  then show ?case by (cases ys) auto
qed simp

lemma Clean_last: "plain_name b \<Longrightarrow> (\<exists>y. Clean (x @ ''/'' @ b) = y @ ''/'' @ b) \<or> Clean (x @ ''/'' @ b) = b"
proof -
  assume b: "plain_name b"
  then obtain ys where ys: "clean_comps (HasPrefix (x @ ''/'' @ b) ''/'') (SplitChar CHR ''/'' x @ [b]) [] = ys @ [b]"
    using clean_comps_last by blast
  have "SplitChar CHR ''/'' (x @ ''/'' @ b) = SplitChar CHR ''/'' x @ [b]"
    using b by (simp add: plain_name_def SplitChar_append)
  with ys b show ?thesis by (auto simp: Clean_def Join_last Let_def plain_name_def)
qed

lemma Clean_plain: "plain_name b \<Longrightarrow> Clean b = b"
  by (cases b) (auto simp: Clean_def plain_name_def SplitChar_plain HasPrefix_def)

lemma takeWhile_plain: "CHR ''/'' \<notin> set b \<Longrightarrow> takeWhile (\<lambda>c. c \<noteq> CHR ''/'') (rev b @ zs) = rev b @ takeWhile (\<lambda>c. c \<noteq> CHR ''/'') zs"
  by (rule takeWhile_append2) auto

lemma after_slash_simps [simp]:
  "CHR ''/'' \<notin> set b \<Longrightarrow> after_slash (y @ CHR ''/'' # b) = b" "CHR ''/'' \<notin> set b \<Longrightarrow> after_slash b = b"
  using takeWhile_plain [of b "CHR ''/'' # rev y"] takeWhile_plain [of b "[]", unfolded append_Nil2]
  by (simp_all only: after_slash_def rev_append rev.simps append.assoc append_Cons append_Nil takeWhile.simps simp_thms if_False append_Nil2 rev_rev_ident)

lemma join_last:
  assumes "plain_name b" "s = y @ ''/'' @ b \<or> s = b"
  shows "after_slash (PathJoin [d, s]) = b"
proof -
  from assms have "s \<noteq> []" by (auto simp: plain_name_def)
  have "PathJoin [d, s] = (if d = [] then Clean s else Clean (d @ ''/'' @ s))" using \<open>s \<noteq> []\<close> by (simp add: PathJoin_def)
  moreover have "after_slash (Clean (x @ ''/'' @ b)) = b" for x
    using Clean_last [OF assms(1), of x] assms(1) by (auto simp: plain_name_def)
  moreover have "after_slash (Clean b) = b" using assms(1) by (simp add: Clean_plain plain_name_def)
  moreover have "d @ ''/'' @ y @ ''/'' @ b = (d @ ''/'' @ y) @ ''/'' @ b" by simp
  ultimately show ?thesis using assms(2) by (metis append.assoc)
qed

lemma digit_char: "(k::nat) < 10 \<Longrightarrow> char_of (48 + k) \<noteq> CHR ''/''"
proof
  assume "k < (10::nat)" "char_of (48 + k) = CHR ''/''"
  then have "of_char (char_of (48 + k)) = (of_char (CHR ''/'') :: nat)" by simp
  with \<open>k < 10\<close> show False by simp
qed

lemma show_nat_digits: "CHR ''/'' \<notin> set (show_nat n)"
proof (induction n rule: show_nat.induct)
  case (1 n)
  then show ?case
    by (subst show_nat.simps) (use digit_char [of n] digit_char [of "n mod 10"] in \<open>auto dest: sym\<close>)
qed

lemma cfg_base_plain: "CHR ''/'' \<notin> set (path_Base path) \<Longrightarrow> plain_name (cfg_base i path)"
  using show_nat_digits [of i] by (auto simp: plain_name_def cfg_base_def pad4_def Let_def)

text \<open>A copy is never the file itself.\<close>

lemma cfg_name_other:
  assumes "plain_name b" "path = d @ ''/'' @ b" "path_Base path = b"
  shows "PathJoin [dst, cfg_name i path] \<noteq> PathJoin [dst, path]"
proof -
  have c: "plain_name (cfg_base i path)" using assms(1,3) by (intro cfg_base_plain) (simp add: plain_name_def)
  have ne: "PathDir path \<noteq> []" by (simp add: PathDir_def Clean_def Let_def)
  then have "PathJoin [PathDir path, cfg_base i path] = Clean (PathDir path @ ''/'' @ cfg_base i path)" by (simp add: PathJoin_def)
  with Clean_last [OF c] obtain y where y: "PathJoin [PathDir path, cfg_base i path] = y @ ''/'' @ cfg_base i path \<or>
      PathJoin [PathDir path, cfg_base i path] = cfg_base i path" by metis
  then have "cfg_name i path = Clean (y @ ''/'' @ cfg_base i path) \<or> cfg_name i path = cfg_base i path"
    using c by (auto simp: cfg_name_def PathJoin_def Clean_plain plain_name_def)
  with Clean_last [OF c] have "\<exists>z. cfg_name i path = z @ ''/'' @ cfg_base i path \<or> cfg_name i path = cfg_base i path" by metis
  then obtain z where "cfg_name i path = z @ ''/'' @ cfg_base i path \<or> cfg_name i path = cfg_base i path" ..
  from join_last [OF c this, of dst] join_last [OF assms(1), of path d dst] assms(2,3)
  have "after_slash (PathJoin [dst, cfg_name i path]) = cfg_base i path" "after_slash (PathJoin [dst, path]) = b" by simp_all
  moreover have "cfg_base i path \<noteq> b" using assms(3) by (auto simp: cfg_base_def dest: arg_cong [where f = length])
  ultimately show ?thesis by metis
qed

lemma path_Base_plain: "plain_name b \<Longrightarrow> path_Base (d @ ''/'' @ b) = b"
proof -
  assume b: "plain_name b"
  then obtain c cs where c: "rev b = c # cs" by (cases "rev b") (auto simp: plain_name_def)
  with b have "c \<in> set b" by (metis list.set_intros(1) set_rev)
  with b have "c \<noteq> CHR ''/''" by (auto simp: plain_name_def)
  then have "dropWhile (\<lambda>c. c = CHR ''/'') (rev (d @ ''/'' @ b)) = rev (d @ ''/'' @ b)" by (simp add: c)
  then have q: "rev (dropWhile (\<lambda>c. c = CHR ''/'') (rev (d @ ''/'' @ b))) = d @ ''/'' @ b" by (simp only: rev_rev_ident)
  have "rev (takeWhile (\<lambda>c. c \<noteq> CHR ''/'') (rev (d @ ''/'' @ b))) = b"
    using b after_slash_simps(1) [of b d] by (simp only: after_slash_def plain_name_def append_Cons append_Nil simp_thms)
  then show ?thesis using b unfolding path_Base_def Let_def q by (simp only: plain_name_def if_False append_is_Nil_conv simp_thms)
qed

section \<open>The handler\<close>

text \<open>A file is there, with contents of another hash.\<close>

definition differs :: "'w tar_env \<Rightarrow> string \<Rightarrow> string \<Rightarrow> string \<Rightarrow> 'w \<Rightarrow> bool" where
  "differs E p old content w \<longleftrightarrow>
     teLstat E p w \<and> teExists E p w \<and> teHashFile E p w = Inr old \<and> old \<noteq> [] \<and> old \<noteq> teHash E content"

text \<open>The creation of a file gives it its contents and leaves the others; properties are no contents.\<close>

definition creates :: "'w tar_env \<Rightarrow> bool" where
  "creates E \<longleftrightarrow>
     (\<forall>d q c h w w'. teCreate E d q c h w = (None, w') \<longrightarrow> teHashFile E (PathJoin [d, q]) w' = Inr (teHash E c)) \<and>
     (\<forall>d q c h w p. p \<noteq> PathJoin [d, q] \<longrightarrow>
        teHashFile E p (snd (teCreate E d q c h w)) = teHashFile E p w \<and>
        teExists E p (snd (teCreate E d q c h w)) = teExists E p w \<and>
        teLstat E p (snd (teCreate E d q c h w)) = teLstat E p w)"

lemma written_differs:
  assumes "differs E (PathJoin [dst, path]) old content w"
  shows "written_path E path dst content w =
    (case find (\<lambda>i. \<not> teExists E (cfg_name i path) w) [1..<1000] of Some i \<Rightarrow> cfg_name i path | None \<Rightarrow> path)"
  using assms by (simp add: written_path_def differs_def Let_def)

lemma first_name:
  assumes "\<not> teExists E (cfg_name 1 path) w"
  shows "find (\<lambda>i. \<not> teExists E (cfg_name i path) w) [1..<1000] = Some 1"
proof -
  have upt: "[1..<1000] = (1::nat) # [Suc 1..<1000]" by (rule upt_conv_Cons) simp
  show ?thesis unfolding upt by (simp only: find.simps assms not_False_eq_True if_True)
qed

lemma handler_differs:
  assumes "differs E (PathJoin [dst, path]) old content w" "thRegular header"
  shows "tarModifierWrapperFunc E path dst header (Inr content) w =
    (case teCreate E dst (written_path E path dst content w) content header w of (e, w) \<Rightarrow> ((e, True), w))"
  using assms by (auto simp: tarModifierWrapperFunc_def differs_def Let_def split: prod.split option.split)

text \<open>
  C39: A regular protected file whose contents differ from those in the archive keeps them when the archive is
  unpacked, as long as one of the names for the new contents does not exist.
\<close>

theorem unpack_keeps_protected:
  assumes "creates E" "plain_name b" "path = d @ ''/'' @ b" "differs E (PathJoin [dst, path]) old content w" "thRegular header"
    "i \<in> {1..<1000}" "\<not> teExists E (cfg_name i path) w"
    "tarModifierWrapperFunc E path dst header (Inr content) w = ((e, skip), w')"
  shows "skip \<and> teHashFile E (PathJoin [dst, path]) w' = Inr old"
proof -
  have "find (\<lambda>i. \<not> teExists E (cfg_name i path) w) [1..<1000] \<noteq> None"
    unfolding find_None_iff using assms(6,7) by (simp only: set_upt) blast
  then obtain j where "find (\<lambda>i. \<not> teExists E (cfg_name i path) w) [1..<1000] = Some j" by blast
  with written_differs [OF assms(4)] have j: "written_path E path dst content w = cfg_name j path" by simp
  have "PathJoin [dst, path] \<noteq> PathJoin [dst, cfg_name j path]"
    using cfg_name_other [OF assms(2,3), of dst j] path_Base_plain [OF assms(2)] assms(3) by metis
  with assms(1) have "teHashFile E (PathJoin [dst, path]) (snd (teCreate E dst (cfg_name j path) content header w)) =
      teHashFile E (PathJoin [dst, path]) w" unfolding creates_def by blast
  moreover have "skip \<and> w' = snd (teCreate E dst (cfg_name j path) content header w)"
    using assms(8) unfolding handler_differs [OF assms(4,5)] j by (auto split: prod.splits)
  ultimately show ?thesis using assms(4) by (simp add: differs_def)
qed

text \<open>
  C40: When the destination is not the root, the contents of a second upgrade are written over those that wait
  from the first: the name that is taken under the destination is looked for without it, and is free there.
\<close>

theorem unpack_loses_waiting:
  assumes "creates E" "plain_name b" "path = d @ ''/'' @ b" "thRegular h1" "thRegular h2"
    "differs E (PathJoin [dst, path]) old c1 w" "old \<noteq> teHash E c2"
    "\<not> teExists E (cfg_name 1 path) w" "PathJoin [dst, cfg_name 1 path] \<noteq> cfg_name 1 path"
    "tarModifierWrapperFunc E path dst h1 (Inr c1) w = ((None, s1), w1)"
    "tarModifierWrapperFunc E path dst h2 (Inr c2) w1 = ((None, s2), w2)"
  shows "teHashFile E (PathJoin [dst, cfg_name 1 path]) w1 = Inr (teHash E c1) \<and>
    teHashFile E (PathJoin [dst, cfg_name 1 path]) w2 = Inr (teHash E c2)"
proof -
  let ?n = "cfg_name 1 path"
  have other: "PathJoin [dst, path] \<noteq> PathJoin [dst, ?n]"
    using cfg_name_other [OF assms(2,3), of dst 1] path_Base_plain [OF assms(2)] assms(3) by metis
  have p1: "written_path E path dst c1 w = ?n" using written_differs [OF assms(6)] first_name [OF assms(8)] by simp
  have w1: "teCreate E dst ?n c1 h1 w = (None, w1)"
    using assms(10) unfolding handler_differs [OF assms(6,4)] p1 by (auto split: prod.splits)
  have kept: "p \<noteq> PathJoin [dst, ?n] \<Longrightarrow> teHashFile E p w1 = teHashFile E p w \<and> teExists E p w1 = teExists E p w \<and>
      teLstat E p w1 = teLstat E p w" for p
    using assms(1) w1 unfolding creates_def by (metis snd_conv)
  have d2: "differs E (PathJoin [dst, path]) old c2 w1"
    using assms(6,7) kept [OF other] by (simp add: differs_def)
  have free: "\<not> teExists E ?n w1" using kept [of ?n] assms(8,9) by metis
  have p2: "written_path E path dst c2 w1 = ?n" using written_differs [OF d2] first_name [OF free] by simp
  have w2: "teCreate E dst ?n c2 h2 w1 = (None, w2)"
    using assms(11) unfolding handler_differs [OF d2 assms(5)] p2 by (auto split: prod.splits)
  from assms(1) w1 w2 show ?thesis unfolding creates_def by blast
qed

text \<open>A world of files with their contents, where the hash of contents is the contents.\<close>

definition map_env :: "string gomap tar_env" where
  "map_env =
     \<lparr>teOpen = (\<lambda>p w. Inl []), teDecode = (\<lambda>k c. Inr c), teEncode = (\<lambda>k a b w. (None, w)), teTar = (\<lambda>a b w. (None, w)),
      teRun = (\<lambda>m s d c w. (None, w)), teEntries = (\<lambda>c. ([], None)), teLstat = (\<lambda>p w. gm_has w p), teExists = (\<lambda>p w. gm_has w p),
      teHashFile = (\<lambda>p w. case gm_get w p of None \<Rightarrow> Inl ''no such file'' | Some c \<Rightarrow> Inr c), teHash = id,
      teCreate = (\<lambda>d q c h w. (None, gm_set (PathJoin [d, q]) c w)), teProps = (\<lambda>p h w. (None, w)),
      teTempDir = (\<lambda>p w. (Inr p, w)), teTouch = (\<lambda>p w. (None, w)), teRemoveAll = (\<lambda>p w. w), teCopyFile = (\<lambda>a b w. (None, w)),
      teMkdirAll = (\<lambda>d w. (None, w)), teDirEmpty = (\<lambda>d w. Inr False), teWrite = (\<lambda>f c w. (None, w)),
      teBuildImage = (\<lambda>i a d u w. (None, w))\<rparr>"

lemma map_env_creates: "creates map_env"
  by (simp add: creates_def map_env_def gm_has_def)

abbreviation etc_foo :: string where
  "etc_foo \<equiv> ''/etc/foo.conf''"

definition foo_header :: tar_header where
  "foo_header = \<lparr>thName = ''etc/foo.conf'', thRegular = True, thDir = False\<rparr>"

definition old_world :: "string gomap" where
  "old_world = [(''/mnt/etc/foo.conf'', ''old'')]"

lemma foo_differs: "differs map_env (PathJoin [''/mnt'', etc_foo]) ''old'' ''new'' old_world"
  by code_simp

lemma foo_plain: "plain_name ''foo.conf''" "etc_foo = ''/etc'' @ ''/'' @ ''foo.conf''"
  by (simp_all add: plain_name_def)

theorem unpack_keeps_protected_witness:
  "teHashFile map_env (PathJoin [''/mnt'', etc_foo])
     (snd (tarModifierWrapperFunc map_env etc_foo ''/mnt'' foo_header (Inr ''new'') old_world)) = Inr ''old''"
proof -
  obtain e skip w' where r: "tarModifierWrapperFunc map_env etc_foo ''/mnt'' foo_header (Inr ''new'') old_world = ((e, skip), w')"
    by (metis prod.collapse)
  have "\<not> teExists map_env (cfg_name 1 etc_foo) old_world" by code_simp
  with unpack_keeps_protected [OF map_env_creates foo_plain foo_differs _ _ _ r, of 1] show ?thesis
    unfolding r by (simp add: foo_header_def)
qed

theorem unpack_loses_waiting_witness:
  "\<exists>w1 w2. tarModifierWrapperFunc map_env etc_foo ''/mnt'' foo_header (Inr ''new'') old_world = ((None, True), w1) \<and>
     tarModifierWrapperFunc map_env etc_foo ''/mnt'' foo_header (Inr ''newer'') w1 = ((None, True), w2) \<and>
     teHashFile map_env (PathJoin [''/mnt'', cfg_name 1 etc_foo]) w2 = Inr ''newer''"
proof -
  let ?run = "\<lambda>c. tarModifierWrapperFunc map_env etc_foo ''/mnt'' foo_header (Inr c)"
  let ?w1 = "[(''/mnt/etc/foo.conf'', ''old''), (''/mnt/etc/._cfg0001_foo.conf'', ''new'')]"
  have h: "thRegular foo_header" by (simp add: foo_header_def)
  have d: "differs map_env (PathJoin [''/mnt'', etc_foo]) ''old'' ''newer'' ?w1" by code_simp
  have free: "\<not> teExists map_env (cfg_name 1 etc_foo) old_world" "\<not> teExists map_env (cfg_name 1 etc_foo) ?w1" by code_simp+
  have w1: "?run ''new'' old_world = ((None, True), ?w1)"
    unfolding handler_differs [OF foo_differs h] written_differs [OF foo_differs] first_name [OF free(1)] by code_simp
  have "?run ''newer'' ?w1 = ((None, True), snd (teCreate map_env ''/mnt'' (cfg_name 1 etc_foo) ''newer'' foo_header ?w1))"
    unfolding handler_differs [OF d h] written_differs [OF d] first_name [OF free(2)] by (simp add: map_env_def)
  then obtain w2 where w2: "?run ''newer'' ?w1 = ((None, True), w2)" by blast
  have x: "\<not> teExists map_env (cfg_name 1 etc_foo) old_world" "PathJoin [''/mnt'', cfg_name 1 etc_foo] \<noteq> cfg_name 1 etc_foo"
    "''old'' \<noteq> teHash map_env ''newer''" by code_simp+
  from unpack_loses_waiting [OF map_env_creates foo_plain h h foo_differs x(3,1,2) w1 w2] w1 w2
  show ?thesis by (simp add: map_env_def)
qed

section \<open>What is left out\<close>

definition compressed :: "artifact \<Rightarrow> bool" where
  "compressed a \<longleftrightarrow> aCompressionType a = ''zstd'' \<or> aCompressionType a = ''gzip''"

text \<open>
  C38: An archive whose contents can be read and decompressed is handed to the archiver once, with the handler of
  protected files exactly when there are any.  When it is compressed, the archiver leaves out the files that
  match a rule of a subset that is not enabled, and no other: of the subsets of the annotation of the package, as
  far as the configuration has none of the same name for the package, or for its category when it has nothing
  for the package.  When it is not compressed nothing is left out, whatever subsets are enabled.
\<close>

theorem Unpack_patterns:
  assumes "\<And>ks. mset (ucIter C ks) = mset ks" "aRuntime a = Some r" "maps_wf (ucSubsets C)"
    and "(if HasAnnotation r ''subsets'' then unmarshalSubsets (GetAnnotationByKey r ''subsets'') else Returns []) = Returns ann"
    and "HasPrefix dst ''/''" "art_GetProtectFiles (ucIter C) (ucSkip C) (ucConfs C) a = Returns files"
    and "teOpen E (aCachePath a) w = Inr archive"
    and "(if compressed a then teDecode E (aCompressionType a) archive else Inr archive) = Inr stream"
  shows "\<exists>spec. Unpack E C a dst True w =
      (case teRun E (if files = [] then None else Some (tarModifierWrapperFunc E)) spec dst stream w of
         (e, w') \<Rightarrow> (case e of Some e \<Rightarrow> Err e | None \<Rightarrow> Ok (), w')) \<and>
    tsTriggeredFiles spec = files \<and> tsIgnoreFiles spec = [] \<and>
    (\<forall>x. x \<in> set (tsIgnoreRegexes spec) \<longleftrightarrow> compressed a \<and>
       (\<exists>k d. subset_for (ucSubsets C) r ann k = Some d \<and> k \<notin> set (suEnabled (ucSubsets C)) \<and> x \<in> set (sdRules d)))"
proof -
  obtain spec0 where spec0: "GetTarFormersSpec (ucIter C) (ucFlags C) (ucSubsets C) True a = Returns spec0"
    "\<forall>x. x \<in> set (tsIgnoreRegexes spec0) \<longleftrightarrow>
       (\<exists>k d. subset_for (ucSubsets C) r ann k = Some d \<and> k \<notin> set (suEnabled (ucSubsets C)) \<and> x \<in> set (sdRules d))"
    using GetTarFormersSpec_patterns [OF assms(1-4), of "ucFlags C"] by blast
  have plain: "tsTriggeredFiles spec0 = []" "tsIgnoreFiles spec0 = []"
    using spec0(1) by (auto simp: GetTarFormersSpec_def Let_def split: panics.splits)
  let ?spec1 = "(ucFlags C)\<lparr>tsSameOwner := tsSameOwner (ucFlags C), tsOverwritePerms := tsOverwritePerms (ucFlags C),
      tsIgnoreRegexes := [], tsIgnoreFiles := [], tsTriggeredFiles := []\<rparr>"
  let ?spec = "(if compressed a then spec0 else ?spec1)\<lparr>tsTriggeredFiles := files\<rparr>"
  let ?m = "if files = [] then None else Some (tarModifierWrapperFunc E)"
  have prep: "prepareTarformers (Some (tarModifierWrapperFunc E)) s files = (?m, s\<lparr>tsTriggeredFiles := files\<rparr>)"
    if "tsTriggeredFiles s = []" for s
    using that by (cases files) (simp_all add: prepareTarformers_def)
  have "Unpack E C a dst True w =
      (case teRun E ?m ?spec dst stream w of (e, w') \<Rightarrow> (case e of Some e \<Rightarrow> Err e | None \<Rightarrow> Ok (), w'))"
  proof (cases "compressed a")
    case True
    then show ?thesis using assms(5-8)
      by (auto simp: Unpack_def compressed_def spec0(1) Let_def UntarProtectSpecCompress_def prep [OF plain(1)])
  next
    case False
    then show ?thesis using assms(5-8)
      by (auto simp: Unpack_def compressed_def spec0(1) Let_def UntarProtect_def UntarProtectSpec_def
          UntarProtectSpecCompress_def prep)
  qed
  then show ?thesis by (rule exI [of _ ?spec, OF conjI]) (use spec0(2) plain(2) in simp)
qed

text \<open>An archiver that leaves the patterns it is given in the world.\<close>

definition pattern_env :: "string gomap tar_env" where
  "pattern_env = map_env\<lparr>teOpen := \<lambda>p w. Inr [], teRun := \<lambda>m s d c w. (None, map (\<lambda>x. (x, [])) (tsIgnoreRegexes s))\<rparr>"

definition vim_unpack :: unpack_conf where
  "vim_unpack = \<lparr>ucIter = id, ucSkip = True, ucConfs = [], ucFlags = plain_flags, ucSubsets = vim_conf\<rparr>"

definition vim_archive :: "string \<Rightarrow> artifact" where
  "vim_archive k = NewPackageArtifact []\<lparr>aRuntime := Some vim_pkg, aCompressionType := k\<rparr>"

lemma vim_subsets:
  "subset_for vim_conf vim_pkg [] k = (if k = ''docs'' then Some (vim_def [''^/usr/share/doc''] []) else None)"
proof -
  have "PackageName vim_pkg = ''app/vim''" by code_simp
  then show ?thesis by (simp add: subset_for_def vim_conf_def)
qed

theorem Unpack_patterns_witness:
  "\<exists>w1 w2. Unpack pattern_env vim_unpack (vim_archive ''zstd'') ''/'' True [] = (Ok (), w1) \<and> fst ` set w1 = {''^/usr/share/doc''} \<and>
     Unpack pattern_env vim_unpack (vim_archive ''none'') ''/'' True [] = (Ok (), w2) \<and> w2 = []"
proof -
  have maps: "maps_wf vim_conf" by (auto simp: maps_wf_def vim_conf_def no_subsets_def gm_wf_def split: if_splits)
  have no: "\<not> HasAnnotation vim_pkg ''subsets''" by code_simp
  have enabled: "suEnabled vim_conf = []" "sdRules (vim_def [''^/usr/share/doc''] []) = [''^/usr/share/doc'']"
    by (simp_all add: vim_conf_def no_subsets_def vim_def_def)
  have arch: "teRun pattern_env m spec d c w = (None, map (\<lambda>x. (x, [])) (tsIgnoreRegexes spec))" for m spec d c w
    by (simp add: pattern_env_def)
  have run: "\<exists>spec :: tar_spec. Unpack pattern_env vim_unpack (vim_archive k) ''/'' True [] = (Ok (), map (\<lambda>x. (x, [])) (tsIgnoreRegexes spec)) \<and>
      (\<forall>x. x \<in> set (tsIgnoreRegexes spec) \<longleftrightarrow> compressed (vim_archive k) \<and> x = ''^/usr/share/doc'')" for k
  proof -
    have "(if compressed (vim_archive k) then teDecode pattern_env (aCompressionType (vim_archive k)) [] else Inr []) = Inr []"
      by (simp add: pattern_env_def map_env_def)
    with Unpack_patterns [of vim_unpack "vim_archive k" vim_pkg "[]" "''/''" "[]" pattern_env "[]" "[]" "[]"] maps no
    obtain spec where "Unpack pattern_env vim_unpack (vim_archive k) ''/'' True [] =
        (case teRun pattern_env None spec ''/'' [] [] of (e, w') \<Rightarrow> (case e of Some e \<Rightarrow> Err e | None \<Rightarrow> Ok (), w'))"
      "\<forall>x. x \<in> set (tsIgnoreRegexes spec) \<longleftrightarrow> compressed (vim_archive k) \<and>
         (\<exists>k d. subset_for vim_conf vim_pkg [] k = Some d \<and> k \<notin> set (suEnabled vim_conf) \<and> x \<in> set (sdRules d))"
      by (auto simp: vim_unpack_def vim_archive_def pattern_env_def HasPrefix_def art_GetProtectFiles_def)
    note left = this
    show ?thesis
      by (rule exI [of _ spec])
         (use left enabled in \<open>auto simp: arch vim_subsets split: if_splits\<close>)
  qed
  have c: "compressed (vim_archive ''zstd'')" "\<not> compressed (vim_archive ''none'')" by (simp_all add: compressed_def vim_archive_def)
  obtain s1 s2 :: tar_spec where s: "Unpack pattern_env vim_unpack (vim_archive ''zstd'') ''/'' True [] = (Ok (), map (\<lambda>x. (x, [])) (tsIgnoreRegexes s1))"
    "\<forall>x. x \<in> set (tsIgnoreRegexes s1) \<longleftrightarrow> x = ''^/usr/share/doc''"
    "Unpack pattern_env vim_unpack (vim_archive ''none'') ''/'' True [] = (Ok (), map (\<lambda>x. (x, [])) (tsIgnoreRegexes s2))"
    "\<forall>x. x \<notin> set (tsIgnoreRegexes s2)"
    using run [of "''zstd''"] run [of "''none''"] c by auto
  have "tsIgnoreRegexes s2 = []" using s(4) by (cases "tsIgnoreRegexes s2") auto
  moreover have "fst ` set (map (\<lambda>x. (x, [])) (tsIgnoreRegexes s1)) = {''^/usr/share/doc''}" using s(2) by (force simp: image_iff)
  ultimately show ?thesis using s(1,3) by simp
qed

end
