(* ===== verification/Spec2Isabelle.thy ===== *)
theory Spec2Isabelle
  imports OrderOps CommandProofs V2Proofs ImageProofs UnpackProofs
begin

text \<open>
  Luet, the package manager of Macaroni OS: a model of its core in HOL.

  THE PROGRAM.  A repository (\<open>pkg/v2/repository\<close>) is a directory of stones, one per version of a
  package, with the metadata of its artifact.  The searcher asks every enabled repository.  The solver
  (\<open>pkg/v2/solver\<close>) is given the packages wanted and the packages installed; it asks the searcher for
  candidates, follows requires, provides and conflicts and returns what to install, update and remove,
  which \<open>OrderOperations\<close> merges into one sequence.  The manager of artifacts (\<open>pkg/v2/installer\<close>)
  runs that sequence on the target: it removes files, unpacks archives, and keeps the database of the
  installed packages (\<open>pkg/package\<close>).  \<open>luet-build\<close> has a second solver (\<open>pkg/solver\<close>), which
  writes the world as propositional formulas and asks the satisfiability solver gophersat.

  THE THEORIES, each with the code it follows (paths under \<open>src/\<close>); operations keep their Go names.

    Prelude: errors as values (\<open>outcome\<close>), Go's maps with an arbitrary order of iteration, package
      \<open>strings\<close>, \<open>sort.Slice\<close>, and the collections of rules.
    Gentoo: the atoms of the vendored \<open>pkgs-checker\<close> the solver compares.
    Versioner: \<open>pkg/versioner/versioner.go\<close>.
    Package, PackageHash: \<open>pkg/package/package.go\<close>, \<open>package_thin.go\<close>, the comparison hashes.
    Artifact: \<open>pkg/v2/compiler/types/artifact\<close>, artifacts, packs and maps of them.
    SolverOrder, SolverSort, OrderOps: the sort of packages by their requires and the sequence of
      operations (\<open>pkg/v2/solver/solver.go\<close>, \<open>common.go\<close>).
    SolverState, SolverInstall, InstallProofs: the state of the solver and \<open>Install\<close>.
    SolverUpgrade, UpgradeProofs, Analysis: \<open>solver_upgrade.go\<close>; Analysis has its goroutines as a
      step relation.  Orphans: \<open>orphans.go\<close>, again with its goroutines and their channel.
    Mask, Stones, Searcher, SearchProofs: \<open>pkg/v2/repository/mask\<close>, \<open>wagon_stones.go\<close>,
      \<open>searcher.go\<close>.  Wagon, WagonProofs: \<open>wagon.go\<close>, \<open>wagon_identity.go\<close>, \<open>wagon_document.go\<close>,
      \<open>provides.go\<close>, \<open>manager.go\<close>, the synchronisation of a repository.
    Database, DatabaseProofs: \<open>pkg/package/database_mem.go\<close>, \<open>database_boltdb.go\<close>.
    Files, FilesProofs: the files of the target, \<open>pkg/helpers/file/file.go\<close> and config protect.
    Manager, Installer, RdepsProofs, InstallerProofs, CommandProofs: \<open>pkg/v2/installer\<close>, the manager of
      artifacts and the commands install, upgrade and uninstall.
    Formulas, FormulaProofs, SatSolver, SatProofs: \<open>pkg/solver\<close> and the \<open>BuildFormula\<close> of a package.
      Universe, UniverseProofs: the order of assertions with its topological sort, the removals and
      upgrades of a whole system.
    BuildRepos, BuildInstaller, BuildProofs: \<open>luet-build/pkg/installer\<close>, the repositories together and
      the installer kept for \<open>luet-build\<close>.  V2Proofs: the installation of the second solver by formulas.
    BuildSpec, HashTree, Compiler, CompilerProofs, ImageProofs: \<open>pkg/compiler\<close>, the specs of packages with
      their Dockerfiles and the options, the tree of hashes that names the images, and the compilation.
    Subsets, SubsetsProofs: \<open>pkg/subsets\<close>, \<open>pkg/config/subsets.go\<close> and the \<open>subsets.go\<close> of artifacts, with
      the definitions in a store because the code shares them by pointer.  Unpack, UnpackProofs: the archives of
      artifacts (\<open>artifact.go\<close>, \<open>pkg/helpers/archive.go\<close>) and the handler that keeps protected files.

  STATE.  A Go struct is a record with the same fields (\<open>solver_state\<close>,
  \<open>sat_state\<close>, \<open>bolt_db\<close>, \<open>mem_db\<close>, and \<open>host\<close>: the database with the disk of the target); an operation takes the state and returns it updated next to
  its result.  A Go map is an association list without repeated keys; where the code ranges over one, the
  order is an argument that may be any permutation, so theorems hold for every order.  \<open>error\<close> and panics are values: \<open>Inl\<close> or \<open>Err\<close>, and another outcome (\<open>Panics\<close>, \<open>Panic\<close>) where the code may panic.  Goroutines are steps of an
  \<open>inductive\<close> relation over the tasks, the semaphore and the channel; what is done under a mutex is one step.

  WHAT THE LEMMAS SHOW.
    The solver: what is chosen is free of conflicts with the installed packages, and the recursion
      keeps its maps consistent; an upgrade only removes what is installed and pairs each
      update with its removal; concurrent analysis computes what the sequential one does,
      never gets stuck and ends.
    The order: each removal precedes the installation of its name, requires come first unless there is a
      cycle, and the detector of cycles always ends.
    The repositories: a search returns artifacts of the directories that match and are not masked; a
      synchronisation replaces a repository only by one whose identity is valid and verified.
    The databases: well-formed on disk after each operation; register and remove are inverse; the copy in
      memory answers as the database on disk.
    The commands: an executed plan leaves in the database what an abstract plan over names and versions
      says; a removal takes every package that requires a removed one; the removal of files never
      touches a protected file or another package's directories; dry runs change nothing.
    The formulas: a valuation satisfies them exactly when each package reached has no other version, each
      require met and no conflict; both solvers agree on them (locale \<open>formula_rules\<close>).
    The installer of the builder: a plan installs what the solution asserts and the system lacks, the
      finalizers run requirements first, removals are those the solver computed.
    The compiler: the hashes of the images form a chain from the first dependency to the package; a
      compilation leaves an image under each of them; the changes between two images are complete in sizes.
    The archives: a load of definitions extends the rules of the packages named; a compressed archive
      is unpacked without the files of the subsets not enabled; protected files that differ keep their contents.
    Properties of kind \<open>error\<close> pin down where the code departs from these: a rejected candidate that stays
      selected, packages registered though their archive failed, links that are followed, rules of subsets that
      reach another package, waiting copies of protected files that are written over, a provider removed from under those that
      require what it provides, a wanted package that the second solver by formulas loses.

  BOUNDS AND FUEL.  \<open>resolvePackage\<close>, the packages that require a package, and the walks of the formulas
  and the provides recurse on the world, not on an argument, so they carry a depth and return
  \<open>Fuel\<close> when it is used up.  A depth above the number of names is enough for
  \<open>resolvePackage\<close> and for the reverse requires; the search through
  provides returns when packages do not provide each other in a circle and the depth exceeds the rank.
  \<open>c_compile\<close>, which compiles copies and final images by a recursive call, has no bound that is enough for
  every package: one that copies from itself is compiled for ever.  The passes of the sort are loops with bounds 7n+6 and 2n that are proved not to be reached.  The analysis and the search for orphans end within 5n steps.  Forty links are followed in
  a path, as the kernel does.

  PARAMETERS.  What the code calls but is not in this repository is an argument: the versions of
  go-version and go-deb-version, \<open>ParsePackageStr\<close>, regular expressions, the codecs of YAML and JSON, the file
  system of the repositories, the store under \<open>storm\<close>, the client that downloads, the archiver (record
  \<open>tar_env\<close>; the other theories take the unpacking itself as an argument), the
  commands of finalizers, hashes, gophersat's \<open>bf.Solve\<close>, the containers of the compiler (the record
  \<open>comp_env\<close>, over a world of any type).  Laws assumed of them are hypotheses of the
  theorem that needs them, and its witness shows an instance.

  NOT MODELLED.  The commands docker and img behind the compiler and the templates of a package;
  the generation and the load of the repositories of \<open>luet-build\<close>; the walks over trees of definitions;
  clients, command line, output and configuration files; of the solver by formulas the resolver by
  q-learning that is asked when there is no solution, and \<open>EnsureOrder\<close>, which nothing calls.
\<close>

end
